(* ===== verification/Prelude.thy ===== *)
theory Prelude
  imports Main "HOL-Library.Word" "HOL-Library.Sublist"
begin

text \<open>
  Shared vocabulary of the development: the types that stand for Go's basic types, the
  error values and outcomes of Go functions, the sequencing of effectful Go code over an
  explicit state, and the generic lemmas on lists, characters and words that the
  components use.
\<close>

section \<open>Go's basic types\<close>

text \<open>
  A Go \<^verbatim>\<open>string\<close> and a Go \<^verbatim>\<open>[]byte\<close> are both sequences of bytes; an Isabelle
  \<^typ>\<open>char\<close> is exactly one byte. \<^verbatim>\<open>uint64\<close> keeps its width. A Go \<^verbatim>\<open>int\<close> is 64 bits
  wide and signed: it is an \<^typ>\<open>int\<close> whose arithmetic is wrapped by \<open>wrap64\<close>.
\<close>

type_synonym bytes = string
type_synonym uint64 = "64 word"

definition MaxInt64 :: int where
  "MaxInt64 = 9223372036854775807"

definition MinInt64 :: int where
  "MinInt64 = - 9223372036854775808"

definition wrap64 :: "int \<Rightarrow> int" where
  "wrap64 x = (x + 9223372036854775808) mod 18446744073709551616 - 9223372036854775808"

definition is_int64 :: "int \<Rightarrow> bool" where
  "is_int64 x \<longleftrightarrow> MinInt64 \<le> x \<and> x \<le> MaxInt64"

named_theorems int64_simps \<open>facts that unfold the signed 64-bit range\<close>

lemmas int64_defs [int64_simps] = is_int64_def MinInt64_def MaxInt64_def wrap64_def

lemma wrap64_id [simp]: "is_int64 x \<Longrightarrow> wrap64 x = x"
  by (auto simp: int64_simps)

lemma is_int64_wrap64 [simp]: "is_int64 (wrap64 x)"
  by (auto simp: int64_simps intro: pos_mod_sign)

section \<open>Errors and outcomes\<close>

text \<open>
  The errors a Go function can return: those the sources create with
  \<^verbatim>\<open>errors.New\<close>, and the standard library's and the RocksDB library's.
\<close>

datatype error =
    ErrorString string
  | ErrSyntax
  | ErrRange
  | EOF
  | ErrUnexpectedEOF
  | ErrShortBuffer
  | NotExist
  | OsError string
  | JsonSyntaxError
  | JsonTypeError
  | RocksError string

text \<open>
  What a call can end in: a value, a returned error (which the caller may handle), a
  panic (no caller in these sources recovers from one), the end of the process at an
  arbitrary point, or a loop that never ends.
\<close>

datatype 'a outcome = Ok 'a | Err error | Panic string | Crash | Diverge

type_synonym ('w, 'a) go = "'w \<Rightarrow> 'a outcome \<times> 'w"

definition ret :: "'a \<Rightarrow> ('w, 'a) go" where
  "ret a = (\<lambda>w. (Ok a, w))"

definition err :: "error \<Rightarrow> ('w, 'a) go" where
  "err e = (\<lambda>w. (Err e, w))"

definition gopanic :: "string \<Rightarrow> ('w, 'a) go" where
  "gopanic m = (\<lambda>w. (Panic m, w))"

text \<open>
  \<^verbatim>\<open>x, err := m(); if err != nil { return err }; f(x)\<close>: everything but a value ends
  the caller too.
\<close>

definition andThen :: "('w, 'a) go \<Rightarrow> ('a \<Rightarrow> ('w, 'b) go) \<Rightarrow> ('w, 'b) go" where
  "andThen m f = (\<lambda>w. case m w of
       (Ok a, w') \<Rightarrow> f a w'
     | (Err e, w') \<Rightarrow> (Err e, w')
     | (Panic p, w') \<Rightarrow> (Panic p, w')
     | (Crash, w') \<Rightarrow> (Crash, w')
     | (Diverge, w') \<Rightarrow> (Diverge, w'))"

text \<open>\<^verbatim>\<open>if err := m(); err != nil { h }\<close>, where \<open>h\<close> sees the error.\<close>

definition onErr :: "('w, 'a) go \<Rightarrow> (error \<Rightarrow> ('w, 'a) go) \<Rightarrow> ('w, 'a) go" where
  "onErr m h = (\<lambda>w. case m w of
       (Err e, w') \<Rightarrow> h e w'
     | r \<Rightarrow> r)"

text \<open>\<^verbatim>\<open>if err := m(); err != nil { panic(err) }\<close>.\<close>

definition orPanic :: "('w, 'a) go \<Rightarrow> string \<Rightarrow> ('w, 'a) go" where
  "orPanic m p = onErr m (\<lambda>_. gopanic p)"

text \<open>\<^verbatim>\<open>m()\<close> as a statement whose error is dropped.\<close>

definition ignoreErr :: "('w, unit) go \<Rightarrow> ('w, unit) go" where
  "ignoreErr m = onErr m (\<lambda>_. ret ())"

text \<open>
  \<^verbatim>\<open>defer d()\<close> followed by the rest \<open>m\<close> of the function: \<open>d\<close> runs when \<open>m\<close> returns and when
  it panics, and its own panic replaces the result; a process that is killed runs nothing.
\<close>

definition withDefer :: "('w, 'a) go \<Rightarrow> ('w, unit) go \<Rightarrow> ('w, 'a) go" where
  "withDefer m d = (\<lambda>w. case m w of
       (Crash, w') \<Rightarrow> (Crash, w')
     | (Diverge, w') \<Rightarrow> (Diverge, w')
     | (r, w') \<Rightarrow> (case d w' of
           (Ok _, w'') \<Rightarrow> (r, w'')
         | (Err _, w'') \<Rightarrow> (r, w'')
         | (Panic p, w'') \<Rightarrow> (Panic p, w'')
         | (Crash, w'') \<Rightarrow> (Crash, w'')
         | (Diverge, w'') \<Rightarrow> (Diverge, w'')))"

named_theorems go_simps \<open>evaluation rules of the effectful Go fragments\<close>

lemma ret_apply [go_simps]: "ret a w = (Ok a, w)"
  by (simp add: ret_def)

lemma err_apply [go_simps]: "err e w = (Err e, w)"
  by (simp add: err_def)

lemma gopanic_apply [go_simps]: "gopanic p w = (Panic p, w)"
  by (simp add: gopanic_def)

lemma andThen_apply [go_simps]:
  "andThen m f w = (case m w of
       (Ok a, w') \<Rightarrow> f a w'
     | (Err e, w') \<Rightarrow> (Err e, w')
     | (Panic p, w') \<Rightarrow> (Panic p, w')
     | (Crash, w') \<Rightarrow> (Crash, w')
     | (Diverge, w') \<Rightarrow> (Diverge, w'))"
  by (simp add: andThen_def)

lemma onErr_apply [go_simps]:
  "onErr m h w = (case m w of (Err e, w') \<Rightarrow> h e w' | r \<Rightarrow> r)"
  by (simp add: onErr_def)

lemma orPanic_apply [go_simps]:
  "orPanic m p w = (case m w of (Err e, w') \<Rightarrow> (Panic p, w') | r \<Rightarrow> r)"
  by (simp add: orPanic_def onErr_def gopanic_def split: prod.splits outcome.splits)

lemma andThen_OkE:
  assumes "andThen m f w = (Ok b, w'')"
  obtains a w' where "m w = (Ok a, w')" and "f a w' = (Ok b, w'')"
  using assms by (auto simp: andThen_def split: prod.splits outcome.splits)

lemma andThen_Ok [go_simps]: "m w = (Ok a, w') \<Longrightarrow> andThen m f w = f a w'"
  by (simp add: andThen_def)

text \<open>
  An assertion on states that every outcome of a fragment keeps: the form in which the
  crash-safety facts are proved, one lemma per primitive.
\<close>

definition keeps :: "('w \<Rightarrow> bool) \<Rightarrow> ('w, 'a) go \<Rightarrow> bool" where
  "keeps P m \<longleftrightarrow> (\<forall>w. P w \<longrightarrow> P (snd (m w)))"

lemma keepsI [intro]: "(\<And>w. P w \<Longrightarrow> P (snd (m w))) \<Longrightarrow> keeps P m"
  by (simp add: keeps_def)

lemma keepsD: "keeps P m \<Longrightarrow> P w \<Longrightarrow> P (snd (m w))"
  by (simp add: keeps_def)

named_theorems keeps_intros \<open>rules that build up preservation facts along the code\<close>

lemma keeps_ret [keeps_intros]: "keeps P (ret a)"
  by (auto simp: go_simps)

lemma keeps_err [keeps_intros]: "keeps P (err e)"
  by (auto simp: go_simps)

lemma keeps_gopanic [keeps_intros]: "keeps P (gopanic p)"
  by (auto simp: go_simps)

lemma keeps_andThen [keeps_intros]:
  assumes "keeps P m" and "\<And>a. keeps P (f a)"
  shows "keeps P (andThen m f)"
proof
  fix w assume "P w"
  obtain r w' where mw: "m w = (r, w')" by (cases "m w")
  with assms(1) \<open>P w\<close> have "P w'" by (auto dest: keepsD)
  with assms(2) show "P (snd (andThen m f w))"
    by (cases r) (auto simp: andThen_def mw dest: keepsD)
qed

lemma keeps_onErr [keeps_intros]:
  assumes "keeps P m" and "\<And>e. keeps P (h e)"
  shows "keeps P (onErr m h)"
proof
  fix w assume "P w"
  obtain r w' where mw: "m w = (r, w')" by (cases "m w")
  with assms(1) \<open>P w\<close> have "P w'" by (auto dest: keepsD)
  with assms(2) show "P (snd (onErr m h w))"
    by (cases r) (auto simp: onErr_def mw dest: keepsD)
qed

lemma keeps_orPanic [keeps_intros]: "keeps P m \<Longrightarrow> keeps P (orPanic m p)"
  unfolding orPanic_def by (intro keeps_intros)

lemma keeps_ignoreErr [keeps_intros]: "keeps P m \<Longrightarrow> keeps P (ignoreErr m)"
  unfolding ignoreErr_def by (intro keeps_intros)

lemma keeps_withDefer [keeps_intros]:
  assumes "keeps P m" and "keeps P d"
  shows "keeps P (withDefer m d)"
proof
  fix w assume "P w"
  obtain r w' where mw: "m w = (r, w')" by (cases "m w")
  obtain r' w'' where dw: "d w' = (r', w'')" by (cases "d w'")
  from assms(1) \<open>P w\<close> mw have P': "P w'" by (auto dest: keepsD)
  with assms(2) dw have "P w''" by (auto dest: keepsD)
  with P' show "P (snd (withDefer m d w))"
    by (cases r; cases r') (simp_all add: withDefer_def mw dw)
qed

lemma keeps_if [keeps_intros]: "keeps P m \<Longrightarrow> keeps P m' \<Longrightarrow> keeps P (if c then m else m')"
  by simp

lemma keeps_case_option [keeps_intros]:
  "keeps P m \<Longrightarrow> (\<And>x. keeps P (f x)) \<Longrightarrow> keeps P (case opt of None \<Rightarrow> m | Some x \<Rightarrow> f x)"
  by (cases opt) auto

lemma keeps_case_sum [keeps_intros]:
  "(\<And>x. keeps P (f x)) \<Longrightarrow> (\<And>y. keeps P (g y)) \<Longrightarrow> keeps P (case s of Inl x \<Rightarrow> f x | Inr y \<Rightarrow> g y)"
  by (cases s) auto

section \<open>Bytes as numbers\<close>

abbreviation byte :: "nat \<Rightarrow> char" where
  "byte n \<equiv> char_of n"

abbreviation ord :: "char \<Rightarrow> nat" where
  "ord c \<equiv> of_char c"

lemma ord_lt_256: "ord c < 256"
  by simp

lemma unat64_less: "unat (w :: uint64) < 2 ^ 64"
proof -
  have "unat w < 2 ^ LENGTH(64)" by (rule unsigned_less)
  then show ?thesis by simp
qed

lemma unat_word_of_nat64: "n < 2 ^ 64 \<Longrightarrow> unat (word_of_nat n :: uint64) = n"
  by (simp add: unat_of_nat take_bit_nat_eq_self)

end
