(* ===== verification/Go_Strings.thy ===== *)
theory Go_Strings
  imports Prelude
begin

text \<open>
  The parts of Go's \<^verbatim>\<open>strings\<close>, \<^verbatim>\<open>strconv\<close>, \<^verbatim>\<open>fmt\<close>, \<^verbatim>\<open>encoding/binary\<close> and
  \<^verbatim>\<open>path/filepath\<close> packages that the sources call, on byte strings, with the laws the
  components rely on: splitting and joining are inverse, a printed number parses back,
  a little-endian word reads back.
\<close>

section \<open>strings\<close>

text \<open>\<^verbatim>\<open>strings.Split(s, sep)\<close>; every separator in the sources is one byte.\<close>

fun Split :: "string \<Rightarrow> char \<Rightarrow> string list" where
  "Split [] sep = [[]]"
| "Split (c # cs) sep =
     (if c = sep then [] # Split cs sep
      else (case Split cs sep of [] \<Rightarrow> [[c]] | p # ps \<Rightarrow> (c # p) # ps))"

text \<open>\<^verbatim>\<open>strings.Join(parts, sep)\<close>.\<close>

fun Join :: "string list \<Rightarrow> string \<Rightarrow> string" where
  "Join [] sep = []"
| "Join [p] sep = p"
| "Join (p # q # ps) sep = p @ sep @ Join (q # ps) sep"

definition HasPrefix :: "string \<Rightarrow> string \<Rightarrow> bool" where
  "HasPrefix s p = (take (length p) s = p)"

text \<open>\<^verbatim>\<open>strings.Replace(s, "\n", "", 1)\<close>: the first newline goes.\<close>

definition dropNewline :: "string \<Rightarrow> string" where
  "dropNewline s = remove1 (byte 10) s"

text \<open>
  \<^verbatim>\<open>strings.TrimSpace\<close> strips Unicode white space at both ends. The white space
  characters are listed as their UTF-8 encodings: the six ASCII ones, U+0085, U+00A0,
  U+1680, U+2000 to U+200A, U+2028, U+2029, U+202F, U+205F and U+3000.
\<close>

definition spaces :: "string list" where
  "spaces = map (map byte)
     ([[9], [10], [11], [12], [13], [32], [194, 133], [194, 160], [225, 154, 128]]
      @ map (\<lambda>i. [226, 128, 128 + i]) [0..<11]
      @ [[226, 128, 168], [226, 128, 169], [226, 128, 175], [226, 129, 159], [227, 128, 128]])"

fun stripWith :: "string list \<Rightarrow> nat \<Rightarrow> string \<Rightarrow> string" where
  "stripWith ws 0 s = s"
| "stripWith ws (Suc n) s =
     (case find (\<lambda>w. HasPrefix s w) ws of
        None \<Rightarrow> s
      | Some w \<Rightarrow> stripWith ws n (drop (length w) s))"

definition TrimSpace :: "string \<Rightarrow> string" where
  "TrimSpace s =
     (let l = stripWith spaces (length s) s
      in rev (stripWith (map rev spaces) (length l) (rev l)))"

lemma Split_not_Nil [simp]: "Split s c \<noteq> []"
  by (induction s) (auto split: list.splits)

lemma Join_Cons: "ps \<noteq> [] \<Longrightarrow> Join (p # ps) sep = p @ sep @ Join ps sep"
  by (cases ps) auto

lemma Join_Split: "Join (Split s c) [c] = s"
proof (induction s)
  case (Cons x xs)
  obtain p ps where ps: "Split xs c = p # ps"
    by (cases "Split xs c") auto
  with Cons show ?case
    by (cases ps) auto
qed simp

lemma Split_no_sep: "c \<notin> set s \<Longrightarrow> Split s c = [s]"
  by (induction s) auto

lemma Split_append_sep: "c \<notin> set s \<Longrightarrow> Split (s @ c # t) c = s # Split t c"
  by (induction s) (auto split: list.splits)

lemma Split_Join:
  assumes "ps \<noteq> []" and "\<forall>p \<in> set ps. c \<notin> set p"
  shows "Split (Join ps [c]) c = ps"
  using assms
proof (induction ps rule: list_nonempty_induct)
  case (single p)
  then show ?case by (simp add: Split_no_sep)
next
  case (cons p ps)
  then show ?case by (simp add: Join_Cons Split_append_sep)
qed

lemma Split_parts_no_sep: "p \<in> set (Split s c) \<Longrightarrow> c \<notin> set p"
  by (induction s arbitrary: p) (auto split: if_splits list.splits)

lemma HasPrefix_iff: "HasPrefix s p \<longleftrightarrow> prefix p s"
  by (auto simp: HasPrefix_def prefix_def) (metis append_take_drop_id)

lemma HasPrefix_refl [simp]: "HasPrefix s s"
  by (simp add: HasPrefix_def)

lemma HasPrefix_append [simp]: "HasPrefix (p @ s) p"
  by (simp add: HasPrefix_def)

section \<open>Decimal numbers: strconv and fmt\<close>

definition is_digit :: "char \<Rightarrow> bool" where
  "is_digit c \<longleftrightarrow> 48 \<le> ord c \<and> ord c \<le> 57"

definition digits_val :: "string \<Rightarrow> nat" where
  "digits_val s = foldl (\<lambda>a c. 10 * a + (ord c - 48)) 0 s"

text \<open>\<^verbatim>\<open>fmt.Sprintf("%d", n)\<close> for an unsigned number, and for a signed one.\<close>

fun dec :: "nat \<Rightarrow> string" where
  "dec n = (if n < 10 then [byte (48 + n)] else dec (n div 10) @ [byte (48 + n mod 10)])"

declare dec.simps [simp del]

definition decInt :: "int \<Rightarrow> string" where
  "decInt i = (if i < 0 then CHR ''-'' # dec (nat (- i)) else dec (nat i))"

text \<open>\<^verbatim>\<open>strconv.ParseUint(s, 10, 64)\<close>.\<close>

definition ParseUint :: "string \<Rightarrow> error + uint64" where
  "ParseUint s =
     (if s = [] \<or> \<not> list_all is_digit s then Inl ErrSyntax
      else if digits_val s < 2 ^ 64 then Inr (word_of_nat (digits_val s))
      else Inl ErrRange)"

text \<open>\<^verbatim>\<open>strconv.Atoi(s)\<close>, which is \<^verbatim>\<open>ParseInt(s, 10, 64)\<close>: an optional sign and digits.\<close>

definition Atoi :: "string \<Rightarrow> error + int" where
  "Atoi s =
     (let neg = (s \<noteq> [] \<and> hd s = CHR ''-'');
          ds = (if s \<noteq> [] \<and> (hd s = CHR ''-'' \<or> hd s = CHR ''+'') then tl s else s)
      in if ds = [] \<or> \<not> list_all is_digit ds then Inl ErrSyntax
         else let v = (if neg then - int (digits_val ds) else int (digits_val ds))
              in if is_int64 v then Inr v else Inl ErrRange)"

lemma is_digit_byte [simp]: "n < 10 \<Longrightarrow> is_digit (byte (48 + n))"
  by (simp add: is_digit_def)

lemma dec_digits: "list_all is_digit (dec n)"
proof (induction n rule: dec.induct)
  case (1 n)
  then show ?case by (subst dec.simps) auto
qed

lemma dec_not_Nil [simp]: "dec n \<noteq> []"
  by (subst dec.simps) simp

lemma digits_val_snoc: "digits_val (s @ [c]) = 10 * digits_val s + (ord c - 48)"
  by (simp add: digits_val_def)

lemma digits_val_dec [simp]: "digits_val (dec n) = n"
proof (induction n rule: dec.induct)
  case (1 n)
  show ?case
  proof (cases "n < 10")
    case True
    then show ?thesis by (subst dec.simps) (simp add: digits_val_def)
  next
    case False
    with "1.IH" show ?thesis
      by (subst dec.simps) (simp add: digits_val_snoc)
  qed
qed

lemma ParseUint_dec [simp]: "ParseUint (dec (unat w)) = Inr w"
  using unat64_less [of w]
  by (simp add: ParseUint_def dec_digits)

lemma dec_inj: "dec m = dec n \<longleftrightarrow> m = n"
  by (metis digits_val_dec)

lemma hd_dec_digit: "is_digit (hd (dec n))"
  using dec_digits [of n] dec_not_Nil [of n] by (cases "dec n") auto

lemma not_digit_sign [simp]: "\<not> is_digit (CHR ''-'')" "\<not> is_digit (CHR ''+'')"
  by (simp_all add: is_digit_def)

lemma hd_dec_not_sign [simp]: "hd (dec n) \<noteq> CHR ''-''" "hd (dec n) \<noteq> CHR ''+''"
  using hd_dec_digit [of n] by (auto simp: is_digit_def)

lemma Atoi_decInt: "is_int64 i \<Longrightarrow> Atoi (decInt i) = Inr i"
  by (auto simp: Atoi_def decInt_def Let_def dec_digits)

lemma Atoi_int64: "Atoi s = Inr v \<Longrightarrow> is_int64 v"
  by (auto simp: Atoi_def Let_def split: if_splits)

lemma Atoi_digits:
  assumes "s \<noteq> []" and "list_all is_digit s"
  shows "Atoi s = (if int (digits_val s) \<le> MaxInt64 then Inr (int (digits_val s)) else Inl ErrRange)"
proof -
  from assms have "is_digit (hd s)" by (cases s) auto
  then have "hd s \<noteq> CHR ''-''" "hd s \<noteq> CHR ''+''" by (auto simp: is_digit_def)
  with assms show ?thesis by (auto simp: Atoi_def Let_def is_int64_def MinInt64_def)
qed

lemma Atoi_digits_nonneg:
  "s \<noteq> [] \<Longrightarrow> list_all is_digit s \<Longrightarrow> Atoi s = Inr m \<Longrightarrow> 0 \<le> m"
  by (auto simp: Atoi_digits split: if_splits)

section \<open>encoding/binary: little-endian 64-bit words\<close>

definition PutUint64 :: "uint64 \<Rightarrow> bytes" where
  "PutUint64 w = map (\<lambda>i. byte (unat w div 256 ^ i)) [0..<8]"

definition Uint64 :: "bytes \<Rightarrow> uint64" where
  "Uint64 b = word_of_nat (horner_sum ord 256 (take 8 b))"

lemma length_PutUint64 [simp]: "length (PutUint64 w) = 8"
  by (simp add: PutUint64_def)

lemma horner_bytes:
  "horner_sum ord 256 (map (\<lambda>i. byte (n div 256 ^ i)) [0..<k]) = n mod (256 ^ k :: nat)"
proof (induction k arbitrary: n)
  case (Suc k)
  have "[0..<Suc k] = 0 # map Suc [0..<k]"
    by (simp add: upt_conv_Cons map_Suc_upt del: upt_Suc)
  moreover have "(\<lambda>i. byte (n div 256 ^ Suc i)) = (\<lambda>i. byte ((n div 256) div 256 ^ i))"
    by (simp add: div_mult2_eq)
  ultimately have "horner_sum ord 256 (map (\<lambda>i. byte (n div 256 ^ i)) [0..<Suc k])
      = n mod 256 + 256 * ((n div 256) mod 256 ^ k)"
    by (simp add: comp_def Suc del: upt_Suc)
  then show ?case by (simp add: mod_mult2_eq ac_simps)
qed simp

lemma Uint64_PutUint64 [simp]: "Uint64 (PutUint64 w @ r) = w"
proof -
  have "horner_sum ord 256 (PutUint64 w) = unat w mod 256 ^ 8"
    unfolding PutUint64_def by (rule horner_bytes)
  moreover have "unat w < 2 ^ 64"
    using unat64_less [of w] by simp
  ultimately show ?thesis
    by (simp add: Uint64_def)
qed

lemma Uint64_PutUint64_alone [simp]: "Uint64 (PutUint64 w) = w"
  using Uint64_PutUint64 [of w "[]"] by simp

section \<open>path/filepath\<close>

text \<open>
  \<^verbatim>\<open>filepath.Clean\<close> on Unix: empty and \<^verbatim>\<open>.\<close> elements go, a \<^verbatim>\<open>..\<close> removes the element
  before it, a leading \<^verbatim>\<open>..\<close> of a rooted path goes. The first argument of \<open>cleanElems\<close> says
  whether the path is rooted, the second holds the elements kept so far, last first.
\<close>

fun cleanElems :: "bool \<Rightarrow> string list \<Rightarrow> string list \<Rightarrow> string list" where
  "cleanElems rooted kept [] = rev kept"
| "cleanElems rooted kept (e # es) =
     (if e = '''' \<or> e = ''.'' then cleanElems rooted kept es
      else if e = ''..'' then
        (case kept of
           [] \<Rightarrow> cleanElems rooted (if rooted then [] else [e]) es
         | k # ks \<Rightarrow> cleanElems rooted (if k = ''..'' then e # kept else ks) es)
      else cleanElems rooted (e # kept) es)"

definition Clean :: "string \<Rightarrow> string" where
  "Clean p =
     (let rooted = HasPrefix p ''/'';
          out = Join (cleanElems rooted [] (Split p CHR ''/'')) ''/''
      in if rooted then ''/'' @ out else if out = '''' then ''.'' else out)"

text \<open>\<^verbatim>\<open>filepath.Join\<close>: nothing when every element is empty.\<close>

definition pathJoin :: "string list \<Rightarrow> string" where
  "pathJoin elems =
     (let es = dropWhile (\<lambda>e. e = '''') elems
      in if es = [] then '''' else Clean (Join es ''/''))"

text \<open>A path element that \<open>Clean\<close> keeps as it is.\<close>

definition plainElem :: "string \<Rightarrow> bool" where
  "plainElem e \<longleftrightarrow> e \<noteq> '''' \<and> e \<noteq> ''.'' \<and> e \<noteq> ''..'' \<and> CHR ''/'' \<notin> set e"

lemma cleanElems_plain:
  "\<forall>e \<in> set es. plainElem e \<Longrightarrow> cleanElems rooted kept es = rev kept @ es"
  by (induction es arbitrary: kept) (auto simp: plainElem_def)

lemma Join_not_Nil: "es \<noteq> [] \<Longrightarrow> \<forall>e \<in> set es. e \<noteq> [] \<Longrightarrow> Join es sep \<noteq> []"
  by (cases es rule: remdups_adj.cases) auto

lemma Join_append:
  "es \<noteq> [] \<Longrightarrow> fs \<noteq> [] \<Longrightarrow> Join (es @ fs) sep = Join es sep @ sep @ Join fs sep"
  by (induction es rule: list_nonempty_induct) (auto simp: Join_Cons)

lemma not_rooted_Join:
  assumes "es \<noteq> []" and "\<forall>e \<in> set es. plainElem e"
  shows "\<not> HasPrefix (Join es ''/'') ''/''"
proof -
  obtain e es' where es: "es = e # es'" using assms(1) by (cases es) auto
  with assms(2) obtain c cs where "e = c # cs" and "c \<noteq> CHR ''/''"
    by (cases e) (auto simp: plainElem_def)
  then show ?thesis by (cases es') (simp_all add: es HasPrefix_def)
qed

lemma Clean_plain:
  assumes "es \<noteq> []" and "\<forall>e \<in> set es. plainElem e"
  shows "Clean (Join es ''/'') = Join es ''/''"
proof -
  have "Split (Join es ''/'') CHR ''/'' = es"
    using assms by (intro Split_Join) (auto simp: plainElem_def)
  moreover have "Join es ''/'' \<noteq> []"
    using assms by (intro Join_not_Nil) (auto simp: plainElem_def)
  ultimately show ?thesis
    using assms not_rooted_Join [OF assms] by (simp add: Clean_def cleanElems_plain)
qed

text \<open>A relative path without anything to clean, and joining one more element to it.\<close>

definition plainPath :: "string \<Rightarrow> bool" where
  "plainPath p \<longleftrightarrow> list_all plainElem (Split p CHR ''/'')"

lemma plainPath_Join:
  "es \<noteq> [] \<Longrightarrow> \<forall>e \<in> set es. plainElem e \<Longrightarrow> plainPath (Join es ''/'')"
  by (subst plainPath_def, subst Split_Join) (auto simp: plainElem_def list_all_iff)

lemma plainPath_elems:
  assumes "plainPath p"
  obtains es where "es \<noteq> []" and "\<forall>e \<in> set es. plainElem e" and "p = Join es ''/''"
  using that [of "Split p CHR ''/''"] assms
  by (auto simp: plainPath_def list_all_iff Join_Split)

lemma plainElem_plainPath: "plainElem e \<Longrightarrow> plainPath e"
  using plainPath_Join [of "[e]"] by simp

lemma pathJoin_plain:
  assumes "plainPath d" and "plainElem e"
  shows "pathJoin [d, e] = d @ ''/'' @ e" and "plainPath (d @ ''/'' @ e)"
proof -
  obtain es where es: "es \<noteq> []" "\<forall>x \<in> set es. plainElem x" and d: "d = Join es ''/''"
    using assms(1) by (rule plainPath_elems)
  have j: "d @ ''/'' @ e = Join (es @ [e]) ''/''"
    using es by (simp add: d Join_append)
  have "d \<noteq> []" unfolding d using es by (intro Join_not_Nil) (auto simp: plainElem_def)
  then show "pathJoin [d, e] = d @ ''/'' @ e"
    using Clean_plain [of "es @ [e]"] es assms(2) by (simp add: pathJoin_def j [symmetric])
  show "plainPath (d @ ''/'' @ e)"
    unfolding j using es assms(2) by (intro plainPath_Join) auto
qed

lemma is_digit_dec: "c \<in> set (dec n) \<Longrightarrow> is_digit c"
  using dec_digits [of n] by (simp add: list_all_iff)

lemma no_slash_dec [simp]: "CHR ''/'' \<notin> set (dec n)"
  using is_digit_dec [of "CHR ''/''" n] by (auto simp: is_digit_def)

lemma no_slash_decInt [simp]: "CHR ''/'' \<notin> set (decInt i)"
  by (simp add: decInt_def)

lemma plainElem_with_underscore:
  "CHR ''_'' \<in> set e \<Longrightarrow> CHR ''/'' \<notin> set e \<Longrightarrow> plainElem e"
  by (auto simp: plainElem_def)

end
