(* ===== verification/Go_Time.thy ===== *)
theory Go_Time
  imports Prelude
begin

text \<open>
  Go's \<^verbatim>\<open>time\<close> package as far as the sources use it. An instant is the number of
  nanoseconds since the Unix epoch in UTC. The calendar fields follow the proleptic
  Gregorian calendar, computed from the day number as the package does it: the cycles of
  400, 100 and 4 years and single years are cut off one after the other, the months then
  come from the table of days before each month.
\<close>

type_synonym instant = int

definition Second :: int where "Second = 1000000000"

definition MinuteDur :: int where "MinuteDur = 60 * Second"

definition HourDur :: int where "HourDur = 60 * MinuteDur"

definition DayDur :: int where "DayDur = 24 * HourDur"

lemmas durations = Second_def MinuteDur_def HourDur_def DayDur_def

definition utcMinute :: "instant \<Rightarrow> int" where
  "utcMinute t = t div MinuteDur mod 60"

definition utcHour :: "instant \<Rightarrow> int" where
  "utcHour t = t div HourDur mod 24"

text \<open>1 January 1970 was a Thursday, weekday 4.\<close>

definition utcWeekday :: "instant \<Rightarrow> int" where
  "utcWeekday t = (t div DayDur + 4) mod 7"

text \<open>1 January 1970 is day 719162 of the cycle that starts on 1 January of year 1.\<close>

definition cut400 :: "instant \<Rightarrow> int" where
  "cut400 t = (t div DayDur + 719162) mod 146097"

definition n100 :: "int \<Rightarrow> int" where
  "n100 d = (let n = d div 36524 in n - n div 4)"

definition n1 :: "int \<Rightarrow> int" where
  "n1 d = (let n = d div 365 in n - n div 4)"

text \<open>The day of the year (from 0), and whether the year is a leap year.\<close>

definition yearDay :: "instant \<Rightarrow> int" where
  "yearDay t = (let d = cut400 t; d100 = d - 36524 * n100 d; d4 = d100 mod 1461
     in d4 - 365 * n1 d4)"

definition leapYear :: "instant \<Rightarrow> bool" where
  "leapYear t = (let d = cut400 t; d100 = d - 36524 * n100 d; d4 = d100 mod 1461;
       y = 100 * n100 d + 4 * (d100 div 1461) + n1 d4 + 1
     in y mod 4 = 0 \<and> (y mod 100 \<noteq> 0 \<or> y mod 400 = 0))"

definition daysBefore :: "int list" where
  "daysBefore = [0, 31, 59, 90, 120, 151, 181, 212, 243, 273, 304, 334, 365]"

text \<open>Month and day of a day number in a year without a leap day.\<close>

definition monthDay :: "int \<Rightarrow> int \<times> int" where
  "monthDay day =
     (let m = nat (day div 31); e = daysBefore ! Suc m
      in if e \<le> day then (int m + 2, day - e + 1) else (int m + 1, day - daysBefore ! m + 1))"

definition monthAndDay :: "instant \<Rightarrow> int \<times> int" where
  "monthAndDay t = (let day = yearDay t
     in if leapYear t \<and> day > 59 then monthDay (day - 1)
        else if leapYear t \<and> day = 59 then (2, 29)
        else monthDay day)"

definition utcDay :: "instant \<Rightarrow> int" where
  "utcDay t = snd (monthAndDay t)"

definition utcMonth :: "instant \<Rightarrow> int" where
  "utcMonth t = fst (monthAndDay t)"

text \<open>
  \<^verbatim>\<open>t.Truncate(time.Minute)\<close>: the zero time lies a whole number of minutes before the
  epoch, so rounding down to a minute of the epoch is the same.
\<close>

definition TruncateMinute :: "instant \<Rightarrow> instant" where
  "TruncateMinute t = t - t mod MinuteDur"

lemma utcMinute_range: "0 \<le> utcMinute t \<and> utcMinute t < 60"
  by (simp add: utcMinute_def)

lemma utcHour_range: "0 \<le> utcHour t \<and> utcHour t < 24"
  by (simp add: utcHour_def)

lemma utcWeekday_range: "0 \<le> utcWeekday t \<and> utcWeekday t < 7"
  by (simp add: utcWeekday_def)

lemma cut400_range: "0 \<le> cut400 t \<and> cut400 t < 146097"
  by (simp add: cut400_def)

lemma n1_bounds:
  assumes "0 \<le> r" and "r < 1461"
  shows "0 \<le> r - 365 * n1 r" and "r - 365 * n1 r \<le> 365"
    and "r - 365 * n1 r = 365 \<Longrightarrow> r = 1460 \<and> n1 r = 3"
proof -
  define n where "n = r div 365"
  have b: "365 * n \<le> r" "r < 365 * n + 365" unfolding n_def by linarith+
  with assms have "0 \<le> n" "n \<le> 4" by linarith+
  then have "n = 0 \<or> n = 1 \<or> n = 2 \<or> n = 3 \<or> n = 4" by arith
  then have "n1 r = n \<and> n \<le> 3 \<or> n1 r = 3 \<and> n = 4"
    by (auto simp: n1_def n_def)
  with b assms show "0 \<le> r - 365 * n1 r" and "r - 365 * n1 r \<le> 365"
    and "r - 365 * n1 r = 365 \<Longrightarrow> r = 1460 \<and> n1 r = 3"
    by auto
qed

lemma n100_bounds:
  assumes "0 \<le> d" and "d < 146097"
  shows "0 \<le> d - 36524 * n100 d" and "d - 36524 * n100 d \<le> 36524"
    and "0 \<le> n100 d" and "n100 d \<le> 3" and "d - 36524 * n100 d = 36524 \<Longrightarrow> n100 d = 3"
proof -
  define n where "n = d div 36524"
  have b: "36524 * n \<le> d" "d < 36524 * n + 36524" unfolding n_def by linarith+
  with assms have "0 \<le> n" "n \<le> 4" by linarith+
  then have "n = 0 \<or> n = 1 \<or> n = 2 \<or> n = 3 \<or> n = 4" by arith
  then have "n100 d = n \<and> 0 \<le> n \<and> n \<le> 3 \<or> n100 d = 3 \<and> n = 4"
    by (auto simp: n100_def n_def)
  with b assms show "0 \<le> d - 36524 * n100 d" and "d - 36524 * n100 d \<le> 36524"
    and "0 \<le> n100 d" and "n100 d \<le> 3" and "d - 36524 * n100 d = 36524 \<Longrightarrow> n100 d = 3"
    by auto
qed

lemma yearDay_range: "0 \<le> yearDay t \<and> yearDay t \<le> 365"
proof -
  define r where "r = (cut400 t - 36524 * n100 (cut400 t)) mod 1461"
  have "0 \<le> r \<and> r < 1461" by (simp add: r_def)
  then have "0 \<le> r - 365 * n1 r \<and> r - 365 * n1 r \<le> 365"
    using n1_bounds by auto
  then show ?thesis by (simp add: yearDay_def r_def Let_def)
qed

lemma div31_cases:
  assumes "0 \<le> d" and "d < 365"
  shows "d div 31 \<in> {0, 1, 2, 3, 4, 5, 6, 7, 8, 9, 10, 11 :: int}"
proof -
  define n where "n = d div 31"
  from assms have "0 \<le> n" "n < 12" unfolding n_def by linarith+
  then have "n \<in> {0, 1, 2, 3, 4, 5, 6, 7, 8, 9, 10, 11}"
    unfolding insert_iff empty_iff by arith
  then show ?thesis by (simp add: n_def)
qed

lemma monthDay_range:
  assumes "0 \<le> d" and "d < 365"
  shows "1 \<le> fst (monthDay d) \<and> fst (monthDay d) \<le> 12 \<and>
         1 \<le> snd (monthDay d) \<and> snd (monthDay d) \<le> 31"
proof -
  have "31 * (d div 31) \<le> d" "d < 31 * (d div 31) + 31" by linarith+
  with div31_cases [OF assms] assms show ?thesis
    by (auto simp: monthDay_def daysBefore_def Let_def)
qed

text \<open>Only a leap year has a day 365.\<close>

lemma leap_year_end: "yearDay t = 365 \<Longrightarrow> leapYear t"
proof -
  define d d100 where "d = cut400 t" and "d100 = d - 36524 * n100 d"
  define d4 q where "d4 = d100 mod 1461" and "q = d100 div 1461"
  assume "yearDay t = 365"
  then have "d4 - 365 * n1 d4 = 365"
    by (simp add: yearDay_def d_def d100_def d4_def Let_def)
  moreover have "0 \<le> d4" "d4 < 1461" by (simp_all add: d4_def)
  ultimately have n1: "n1 d4 = 3" and d4: "d4 = 1460"
    using n1_bounds(3) by auto
  have d: "0 \<le> d" "d < 146097" using cut400_range [of t] by (simp_all add: d_def)
  have d100: "0 \<le> d100" "d100 \<le> 36524"
    using n100_bounds(1,2) [OF d] by (simp_all add: d100_def)
  have split: "d100 = 1461 * q + 1460" using d4 mult_div_mod_eq [of 1461 d100] by (simp add: d4_def q_def)
  have q: "0 \<le> q" "q \<le> 24" using split d100 by linarith+
  have n: "0 \<le> n100 d" "n100 d \<le> 3" using n100_bounds(3,4) [OF d] by simp_all
  have last: "n100 d = 3" if "q = 24"
    using that split n100_bounds(5) [OF d] by (simp add: d100_def)
  have "leapYear t \<longleftrightarrow> (let y = 100 * n100 d + 4 * q + 4 in y mod 4 = 0 \<and> (y mod 100 \<noteq> 0 \<or> y mod 400 = 0))"
    using n1 by (simp add: leapYear_def Let_def d_def d100_def d4_def q_def ac_simps)
  moreover have "(100 * n100 d + 4 * q + 4) mod 4 = 0" by presburger
  moreover have "(100 * n100 d + 4 * q + 4) mod 100 \<noteq> 0" if "q < 24" using that q by presburger
  ultimately show "leapYear t" using q last by (cases "q = 24") (auto simp: Let_def)
qed
lemma monthAndDay_range:
  "1 \<le> fst (monthAndDay t) \<and> fst (monthAndDay t) \<le> 12 \<and>
   1 \<le> snd (monthAndDay t) \<and> snd (monthAndDay t) \<le> 31"
proof -
  have "0 \<le> yearDay t" "yearDay t \<le> 365" "\<not> leapYear t \<Longrightarrow> yearDay t < 365"
    using yearDay_range [of t] leap_year_end [of t] by fastforce+
  then show ?thesis
    using monthDay_range [of "yearDay t"] monthDay_range [of "yearDay t - 1"]
    by (auto simp: monthAndDay_def Let_def)
qed

lemma utcDay_range: "1 \<le> utcDay t \<and> utcDay t \<le> 31"
  using monthAndDay_range [of t] by (simp add: utcDay_def)

lemma utcMonth_range: "1 \<le> utcMonth t \<and> utcMonth t \<le> 12"
  using monthAndDay_range [of t] by (simp add: utcMonth_def)

lemmas calendar_ranges =
  utcMinute_range utcHour_range utcWeekday_range utcDay_range utcMonth_range

lemma TruncateMinute_le: "TruncateMinute t \<le> t" and TruncateMinute_gt: "t < TruncateMinute t + MinuteDur"
  by (simp_all add: TruncateMinute_def durations)

lemma TruncateMinute_mod [simp]: "TruncateMinute t mod MinuteDur = 0"
  by (simp add: TruncateMinute_def durations)

end
