(* ===== verification/Cron.thy ===== *)
theory Cron
  imports Go_Strings Go_Time
begin

text \<open>
  The cron schedule of a command, \<^verbatim>\<open>checkCron\<close> of \<^verbatim>\<open>src/dcrontab/main.go\<close>: the record
  it reads, the loops over a field's comma-separated parts and over the multiples of a
  step, and the declarative meaning of a schedule that the loops are proved to compute.
\<close>

section \<open>The model\<close>

record Cron =
  Cron_Minute :: string
  Cron_Hour :: string
  Cron_Day :: string
  Cron_Month :: string
  Cron_Weekday :: string
  Cron_Once :: bool

text \<open>
  \<^verbatim>\<open>every.FindStringSubmatch(v)\<close> for the pattern \<^verbatim>\<open>\*\/([0-9]+)\<close>, which is not
  anchored: the leftmost star and slash that are followed by a digit, and the longest run
  of digits after them (the submatch \<^verbatim>\<open>div[1]\<close>).
\<close>

fun everySubmatch :: "string \<Rightarrow> string option" where
  "everySubmatch (a # b # s) =
     (if a = CHR ''*'' \<and> b = CHR ''/'' \<and> takeWhile is_digit s \<noteq> []
      then Some (takeWhile is_digit s)
      else everySubmatch (b # s))"
| "everySubmatch _ = None"

text \<open>
  \<^verbatim>\<open>for check := start; check < limit; check += m { if val == check || m < 1 { found = true; break } }\<close>.
  The counter is a Go \<^verbatim>\<open>int\<close> and wraps; \<open>None\<close> is a loop that never ends.
\<close>

partial_function (option) everyLoop :: "int \<Rightarrow> int \<Rightarrow> int \<Rightarrow> int \<Rightarrow> bool option" where
  "everyLoop val limit m check =
     (if check < limit then
        (if val = check \<or> m < 1 then Some True
         else everyLoop val limit m (wrap64 (check + m)))
      else Some False)"

text \<open>What one part \<open>v\<close> of a field does to the \<^verbatim>\<open>found\<close> flag: the step branch.\<close>

definition everyPart :: "int \<Rightarrow> int \<Rightarrow> int \<Rightarrow> string \<Rightarrow> bool option" where
  "everyPart start limit val v =
     (case everySubmatch v of
        None \<Rightarrow> Some False
      | Some d \<Rightarrow> (case Atoi d of Inl _ \<Rightarrow> Some False | Inr m \<Rightarrow> everyLoop val limit m start))"

text \<open>
  The loop over \<^verbatim>\<open>strings.Split(field, ",")\<close>: a star or the number itself ends it, a
  matching step only sets the flag.
\<close>

fun partsLoop :: "int \<Rightarrow> int \<Rightarrow> int \<Rightarrow> string list \<Rightarrow> bool \<Rightarrow> bool option" where
  "partsLoop start limit val [] found = Some found"
| "partsLoop start limit val (v # vs) found =
     (if v = ''*'' then Some True
      else if Atoi v = Inr val then Some True
      else (case everyPart start limit val v of
              None \<Rightarrow> None
            | Some f \<Rightarrow> partsLoop start limit val vs (found \<or> f)))"

definition fieldFound :: "int \<Rightarrow> int \<Rightarrow> string \<Rightarrow> int \<Rightarrow> bool option" where
  "fieldFound start limit field val =
     (if field = ''*'' \<or> field = '''' then Some True
      else partsLoop start limit val (Split field (CHR '','')) False)"

text \<open>The five blocks of \<^verbatim>\<open>checkCron\<close>, each with its start and its limit.\<close>

definition minFound :: "Cron \<Rightarrow> instant \<Rightarrow> bool option" where
  "minFound cron t = fieldFound 0 60 (Cron_Minute cron) (utcMinute t)"

definition hrFound :: "Cron \<Rightarrow> instant \<Rightarrow> bool option" where
  "hrFound cron t = fieldFound 0 24 (Cron_Hour cron) (utcHour t)"

definition dayFound :: "Cron \<Rightarrow> instant \<Rightarrow> bool option" where
  "dayFound cron t = fieldFound 0 60 (Cron_Day cron) (utcDay t)"

definition monFound :: "Cron \<Rightarrow> instant \<Rightarrow> bool option" where
  "monFound cron t = fieldFound 1 13 (Cron_Month cron) (utcMonth t)"

definition wdayFound :: "Cron \<Rightarrow> instant \<Rightarrow> bool option" where
  "wdayFound cron t = fieldFound 0 7 (Cron_Weekday cron) (utcWeekday t)"

text \<open>\<^verbatim>\<open>if !found { return false }\<close>, in the order of the source.\<close>

definition andFound :: "bool option \<Rightarrow> bool option \<Rightarrow> bool option" where
  "andFound a b = (case a of None \<Rightarrow> None | Some False \<Rightarrow> Some False | Some True \<Rightarrow> b)"

definition checkCron :: "Cron \<Rightarrow> instant \<Rightarrow> bool option" where
  "checkCron cron t =
     andFound (minFound cron t)
      (andFound (hrFound cron t)
        (andFound (dayFound cron t)
          (andFound (monFound cron t)
            (wdayFound cron t))))"

section \<open>The declarative meaning of a schedule\<close>

text \<open>
  A part matches a value when it is a star, the number itself, or holds a step: step 0
  matches everything, step \<open>m\<close> the values at a multiple of \<open>m\<close> from the field's start.
\<close>

definition stepMatches :: "int \<Rightarrow> int \<Rightarrow> int \<Rightarrow> bool" where
  "stepMatches start m val \<longleftrightarrow> m = 0 \<or> m dvd (val - start)"

definition partMatches :: "int \<Rightarrow> string \<Rightarrow> int \<Rightarrow> bool" where
  "partMatches start v val \<longleftrightarrow>
     v = ''*'' \<or> Atoi v = Inr val \<or>
     (case everySubmatch v of
        None \<Rightarrow> False
      | Some d \<Rightarrow> (case Atoi d of Inl _ \<Rightarrow> False | Inr m \<Rightarrow> stepMatches start m val))"

definition fieldMatches :: "int \<Rightarrow> string \<Rightarrow> int \<Rightarrow> bool" where
  "fieldMatches start field val \<longleftrightarrow>
     field = '''' \<or> (\<exists>v \<in> set (Split field (CHR '','')). partMatches start v val)"

definition cronMatches :: "Cron \<Rightarrow> instant \<Rightarrow> bool" where
  "cronMatches cron t \<longleftrightarrow>
     fieldMatches 0 (Cron_Minute cron) (utcMinute t) \<and>
     fieldMatches 0 (Cron_Hour cron) (utcHour t) \<and>
     fieldMatches 0 (Cron_Day cron) (utcDay t) \<and>
     fieldMatches 1 (Cron_Month cron) (utcMonth t) \<and>
     fieldMatches 0 (Cron_Weekday cron) (utcWeekday t)"

section \<open>The loops compute it\<close>

lemma everySubmatch_digits:
  "everySubmatch v = Some d \<Longrightarrow> d \<noteq> [] \<and> list_all is_digit d"
  by (induction v rule: everySubmatch.induct)
    (auto split: if_splits simp: list_all_iff dest: set_takeWhileD)

text \<open>A step never comes out negative, so the guard \<^verbatim>\<open>m < 1\<close> means \<open>m = 0\<close>.\<close>

lemma every_step_nonneg:
  "everySubmatch v = Some d \<Longrightarrow> Atoi d = Inr m \<Longrightarrow> 0 \<le> m"
  using everySubmatch_digits Atoi_digits_nonneg by blast

lemma everyLoop_zero: "check < limit \<Longrightarrow> m < 1 \<Longrightarrow> everyLoop val limit m check = Some True"
  by (simp add: everyLoop.simps)

text \<open>
  Past the value but below the limit the loop runs on to the limit without a match, as
  long as no addition wraps.
\<close>

lemma everyLoop_past:
  assumes "1 \<le> m" and "limit + m \<le> MaxInt64" and "0 \<le> check" and "val < check"
  shows "everyLoop val limit m check = Some False"
  using assms(3,4)
proof (induction "nat (limit - check)" arbitrary: check rule: less_induct)
  case less
  show ?case
  proof (cases "check < limit")
    case True
    have "wrap64 (check + m) = check + m"
      using assms less.prems True by (intro wrap64_id) (auto simp: is_int64_def MinInt64_def)
    moreover have "everyLoop val limit m (check + m) = Some False"
      using True assms less.prems by (intro less.hyps) auto
    ultimately show ?thesis
      using assms less.prems True by (subst everyLoop.simps) simp
  next
    case False
    then show ?thesis by (simp add: everyLoop.simps)
  qed
qed

text \<open>While no addition wraps, the loop visits exactly the multiples above its counter.\<close>

lemma everyLoop_no_wrap:
  assumes "1 \<le> m" and "limit + m \<le> MaxInt64" and "0 \<le> check" and "check \<le> val" and "val < limit"
  shows "everyLoop val limit m check = Some (m dvd (val - check))"
  using assms(3,4)
proof (induction "nat (val - check)" arbitrary: check rule: less_induct)
  case less
  have next_id: "wrap64 (check + m) = check + m"
    using assms less.prems by (intro wrap64_id) (auto simp: is_int64_def MinInt64_def)
  show ?case
  proof (cases "val = check")
    case True
    with assms show ?thesis by (simp add: everyLoop.simps)
  next
    case neq: False
    show ?thesis
    proof (cases "check + m \<le> val")
      case True
      have "everyLoop val limit m (check + m) = Some (m dvd (val - (check + m)))"
        using True assms less.prems by (intro less.hyps) auto
      moreover have "val - check = (val - (check + m)) + m"
        by simp
      then have "m dvd (val - (check + m)) \<longleftrightarrow> m dvd (val - check)"
        by (metis dvd_add_triv_right_iff)
      ultimately show ?thesis
        using neq assms less.prems next_id by (subst everyLoop.simps) simp
    next
      case False
      have "\<not> m dvd (val - check)"
        using False neq less.prems assms by (auto dest: zdvd_imp_le)
      moreover have "everyLoop val limit m (check + m) = Some False"
        using False assms less.prems by (rule_tac everyLoop_past) auto
      ultimately show ?thesis
        using neq assms less.prems next_id by (subst everyLoop.simps) simp
    qed
  qed
qed

text \<open>
  A step close to the largest \<^verbatim>\<open>int\<close> can make the counter wrap (the month loop starts at
  1): the loop still ends, without a match other than at its start.
\<close>

lemma everyLoop_huge:
  assumes "is_int64 m" and "MaxInt64 < limit + m" and "start = 0 \<or> start = 1"
    and "start \<le> val" and "val < limit" and "limit \<le> 60"
  shows "everyLoop val limit m start = Some (m dvd (val - start))"
proof (cases "val = start")
  case True
  with assms show ?thesis by (simp add: everyLoop.simps)
next
  case neq: False
  have big: "60 \<le> m" using assms by (auto simp: MaxInt64_def)
  with neq assms have "\<not> m dvd (val - start)" by (auto dest: zdvd_imp_le)
  moreover have "everyLoop val limit m (wrap64 (start + m)) = Some False"
  proof (cases "start + m \<le> MaxInt64")
    case True
    with big assms have "wrap64 (start + m) = start + m"
      by (intro wrap64_id) (auto simp: is_int64_def MinInt64_def)
    with big assms show ?thesis by (subst everyLoop.simps) auto
  next
    case False
    with assms have m: "m = MaxInt64" and "start = 1" by (auto simp: is_int64_def)
    then have "wrap64 (start + m) = MinInt64" "wrap64 (MinInt64 + m) = -1"
      "wrap64 (-1 + m) = MaxInt64 - 1"
      by (simp_all add: wrap64_def MaxInt64_def MinInt64_def)
    moreover have "MinInt64 < limit" "val \<noteq> MinInt64" "-1 < limit" "val \<noteq> -1" "\<not> MaxInt64 - 1 < limit"
      using assms by (auto simp: MaxInt64_def MinInt64_def)
    ultimately show ?thesis
      using big everyLoop.simps [of val limit m MinInt64] everyLoop.simps [of val limit m "-1"]
        everyLoop.simps [of val limit m "MaxInt64 - 1"]
      by simp
  qed
  ultimately show ?thesis
    using neq assms big by (subst everyLoop.simps) simp
qed

text \<open>The loop of every block always ends, with the answer the step asks for.\<close>

lemma everyLoop_stepMatches:
  assumes "is_int64 m" and "0 \<le> m" and "start = 0 \<or> start = 1"
    and "start \<le> val" and "val < limit" and "limit \<le> 60"
  shows "everyLoop val limit m start = Some (stepMatches start m val)"
proof (cases "m = 0")
  case True
  with assms show ?thesis by (simp add: everyLoop_zero stepMatches_def)
next
  case False
  then show ?thesis
    using assms everyLoop_huge [OF assms(1) _ assms(3-6)] everyLoop_no_wrap [of m limit start val]
    by (cases "limit + m \<le> MaxInt64") (auto simp: stepMatches_def)
qed

section \<open>The schedule is decided for every input\<close>

locale cron_field =
  fixes start limit :: int
  assumes start: "start = 0 \<or> start = 1" and limit: "limit \<le> 60"
begin

lemma everyPart_total:
  assumes "start \<le> val" and "val < limit"
  shows "everyPart start limit val v = Some
    (case everySubmatch v of None \<Rightarrow> False
      | Some d \<Rightarrow> (case Atoi d of Inl _ \<Rightarrow> False | Inr m \<Rightarrow> stepMatches start m val))"
  using assms start limit
  by (auto simp: everyPart_def split: option.splits sum.splits
      intro!: everyLoop_stepMatches dest: every_step_nonneg Atoi_int64)

lemma partsLoop_total:
  assumes "start \<le> val" and "val < limit"
  shows "partsLoop start limit val vs found
    = Some (found \<or> (\<exists>v \<in> set vs. partMatches start v val))"
proof (induction vs arbitrary: found)
  case (Cons v vs)
  then show ?case
    using everyPart_total [OF assms, of v] by (auto simp: partMatches_def)
qed simp

lemma fieldFound_total:
  assumes "start \<le> val" and "val < limit"
  shows "fieldFound start limit field val = Some (fieldMatches start field val)"
  using partsLoop_total [OF assms]
  by (auto simp: fieldFound_def fieldMatches_def partMatches_def)

end

interpretation minute_field: cron_field 0 60
  by unfold_locales simp_all

interpretation hour_field: cron_field 0 24
  by unfold_locales simp_all

interpretation month_field: cron_field 1 13
  by unfold_locales simp_all

interpretation weekday_field: cron_field 0 7
  by unfold_locales simp_all

lemma minFound_total: "minFound cron t = Some (fieldMatches 0 (Cron_Minute cron) (utcMinute t))"
  using utcMinute_range [of t] by (simp add: minFound_def minute_field.fieldFound_total)

lemma hrFound_total: "hrFound cron t = Some (fieldMatches 0 (Cron_Hour cron) (utcHour t))"
  using utcHour_range [of t] by (simp add: hrFound_def hour_field.fieldFound_total)

lemma dayFound_total: "dayFound cron t = Some (fieldMatches 0 (Cron_Day cron) (utcDay t))"
  using utcDay_range [of t] by (simp add: dayFound_def minute_field.fieldFound_total)

lemma monFound_total: "monFound cron t = Some (fieldMatches 1 (Cron_Month cron) (utcMonth t))"
  using utcMonth_range [of t] by (simp add: monFound_def month_field.fieldFound_total)

lemma wdayFound_total: "wdayFound cron t = Some (fieldMatches 0 (Cron_Weekday cron) (utcWeekday t))"
  using utcWeekday_range [of t] by (simp add: wdayFound_def weekday_field.fieldFound_total)

lemmas found_total = minFound_total hrFound_total dayFound_total monFound_total wdayFound_total

lemma andFound_Some [simp]: "andFound (Some a) (Some b) = Some (a \<and> b)"
  by (cases a) (auto simp: andFound_def)

text \<open>The form in which the scheduler uses the check.\<close>

lemma checkCron_cronMatches: "checkCron cron t = Some (cronMatches cron t)"
  by (simp add: checkCron_def cronMatches_def found_total)

lemma takeWhile_digits_dec [simp]: "takeWhile is_digit (dec n) = dec n"
  using dec_digits [of n] by (simp add: takeWhile_eq_all_conv list_all_iff)

lemma everySubmatch_star_dec: "everySubmatch (''*/'' @ dec n) = Some (dec n)"
  by simp

lemma Atoi_dec: "int n \<le> MaxInt64 \<Longrightarrow> Atoi (dec n) = Inr (int n)"
  by (simp add: Atoi_digits dec_digits)

lemma everySubmatch_no_star: "CHR ''*'' \<notin> set v \<Longrightarrow> everySubmatch v = None"
  by (induction v rule: everySubmatch.induct) auto

lemma digit_not_special:
  "is_digit c \<Longrightarrow> c \<noteq> CHR '',''" "is_digit c \<Longrightarrow> c \<noteq> CHR ''*''" "is_digit c \<Longrightarrow> c \<noteq> CHR ''/''"
  by (auto simp: is_digit_def)

lemma dec_set_digit: "c \<in> set (dec n) \<Longrightarrow> is_digit c"
  using dec_digits [of n] by (simp add: list_all_iff)

lemma dec_no_special [simp]:
  "CHR '','' \<notin> set (dec n)" "CHR ''*'' \<notin> set (dec n)" "CHR ''/'' \<notin> set (dec n)"
  using dec_set_digit digit_not_special by blast+

lemma partMatches_dec:
  assumes "int n \<le> MaxInt64"
  shows "partMatches start (dec n) val \<longleftrightarrow> val = int n"
proof -
  have "dec n \<noteq> ''*''" by (metis dec_no_special(2) list.set_intros(1))
  then show ?thesis
    using assms by (auto simp: partMatches_def Atoi_dec everySubmatch_no_star)
qed

lemma partMatches_step:
  assumes "int n \<le> MaxInt64"
  shows "partMatches start (''*/'' @ dec n) val \<longleftrightarrow> stepMatches start (int n) val"
  using assms
  by (simp add: partMatches_def Atoi_dec) (simp add: Atoi_def is_digit_def)

section \<open>Properties\<close>

text \<open>
  C12. \<^verbatim>\<open>checkCron\<close> always returns (no step value, not even one that makes the loop counter
  overflow, keeps it running), and it returns true exactly when every one of the five
  fields matches the UTC time: an empty field or a star always, a number when it is the
  value, a step \<^verbatim>\<open>*/m\<close> when the value is a multiple of \<open>m\<close> from the field's start.
\<close>

theorem checkCron_decides: "checkCron cron t = Some (cronMatches cron t)"
  by (rule checkCron_cronMatches)

text \<open>
  The documented example \<^verbatim>\<open>*/n\<close> in the minute field: for every \<open>n\<close> an \<^verbatim>\<open>int\<close> can hold,
  the minute block finds a match exactly in the minutes that are multiples of \<open>n\<close>, and
  in every minute for \<open>n = 0\<close>.
\<close>

theorem minute_step:
  assumes "int n \<le> MaxInt64"
  shows "minFound (cron\<lparr>Cron_Minute := ''*/'' @ dec n\<rparr>) t
    = Some (n = 0 \<or> int n dvd utcMinute t)"
proof -
  have "Split (''*/'' @ dec n) (CHR '','') = [''*/'' @ dec n]"
    by (rule Split_no_sep) simp
  then show ?thesis
    using partMatches_step [OF assms, of 0 "utcMinute t"]
    by (simp add: minFound_total fieldMatches_def stepMatches_def)
qed

theorem minute_step_witness:
  "minFound (\<lparr>Cron_Minute = '''', Cron_Hour = ''*'', Cron_Day = ''*'', Cron_Month = ''*'',
      Cron_Weekday = ''*'', Cron_Once = False\<rparr>\<lparr>Cron_Minute := ''*/'' @ dec 10\<rparr>) (1200 * Second)
    = Some True"
  using minute_step [of 10 "\<lparr>Cron_Minute = '''', Cron_Hour = ''*'', Cron_Day = ''*'',
      Cron_Month = ''*'', Cron_Weekday = ''*'', Cron_Once = False\<rparr>" "1200 * Second"]
  by (simp add: MaxInt64_def utcMinute_def durations)

text \<open>
  A comma-separated list of numbers in the hour field: the hour block finds a match
  exactly in the listed hours, whatever the order, repetitions or out-of-range entries.
\<close>

theorem hour_list:
  assumes "ns \<noteq> []" and "\<forall>n \<in> set ns. int n \<le> MaxInt64"
  shows "hrFound (cron\<lparr>Cron_Hour := Join (map dec ns) '',''\<rparr>) t
    = Some (utcHour t \<in> int ` set ns)"
proof -
  have sp: "Split (Join (map dec ns) '','') (CHR '','') = map dec ns"
    using assms(1) by (intro Split_Join) auto
  then have "Join (map dec ns) '','' \<noteq> ''''"
    using assms(1) by (cases ns) (auto simp: map_eq_Cons_conv dest: sym)
  with sp assms(2) show ?thesis
    by (auto simp: hrFound_total fieldMatches_def partMatches_dec image_iff)
qed

theorem hour_list_witness:
  "hrFound (\<lparr>Cron_Minute = '''', Cron_Hour = ''*'', Cron_Day = ''*'', Cron_Month = ''*'',
      Cron_Weekday = ''*'', Cron_Once = False\<rparr>\<lparr>Cron_Hour := Join (map dec [22, 6, 99]) '',''\<rparr>)
      (6 * HourDur) = Some True"
  using hour_list [of "[22, 6, 99]" "\<lparr>Cron_Minute = '''', Cron_Hour = ''*'', Cron_Day = ''*'',
      Cron_Month = ''*'', Cron_Weekday = ''*'', Cron_Once = False\<rparr>" "6 * HourDur"]
  by (simp add: MaxInt64_def utcHour_def durations)

end
