(* ===== verification/Write_Batch.thy ===== *)
theory Write_Batch
  imports Go_Strings
begin

unbundle bit_operations_syntax

text \<open>
  The decoder of serialized write batches, \<^verbatim>\<open>src/dcrontab/gorocksdb/write_batch.go\<close>: the
  record types, the iterator with its sticky error, and the varint, slice and record
  decoders. Bytes are characters and a byte slice that is \<^verbatim>\<open>nil\<close> is the empty list; the
  decoders are Go fragments over the iterator, so that a slice expression that is out of
  range is a panic. The serialization the decoder is meant for is stated as an encoder,
  and the decoder is proved to invert it.
\<close>

section \<open>The model\<close>

type_synonym WriteBatchRecordType = char

definition WriteBatchDeletionRecord :: WriteBatchRecordType where
  "WriteBatchDeletionRecord = byte 0x0"
definition WriteBatchValueRecord :: WriteBatchRecordType where
  "WriteBatchValueRecord = byte 0x1"
definition WriteBatchMergeRecord :: WriteBatchRecordType where
  "WriteBatchMergeRecord = byte 0x2"
definition WriteBatchLogDataRecord :: WriteBatchRecordType where
  "WriteBatchLogDataRecord = byte 0x3"
definition WriteBatchCFDeletionRecord :: WriteBatchRecordType where
  "WriteBatchCFDeletionRecord = byte 0x4"
definition WriteBatchCFValueRecord :: WriteBatchRecordType where
  "WriteBatchCFValueRecord = byte 0x5"
definition WriteBatchCFMergeRecord :: WriteBatchRecordType where
  "WriteBatchCFMergeRecord = byte 0x6"
definition WriteBatchSingleDeletionRecord :: WriteBatchRecordType where
  "WriteBatchSingleDeletionRecord = byte 0x7"
definition WriteBatchCFSingleDeletionRecord :: WriteBatchRecordType where
  "WriteBatchCFSingleDeletionRecord = byte 0x8"
definition WriteBatchBeginPrepareXIDRecord :: WriteBatchRecordType where
  "WriteBatchBeginPrepareXIDRecord = byte 0x9"
definition WriteBatchEndPrepareXIDRecord :: WriteBatchRecordType where
  "WriteBatchEndPrepareXIDRecord = byte 0xA"
definition WriteBatchCommitXIDRecord :: WriteBatchRecordType where
  "WriteBatchCommitXIDRecord = byte 0xB"
definition WriteBatchRollbackXIDRecord :: WriteBatchRecordType where
  "WriteBatchRollbackXIDRecord = byte 0xC"
definition WriteBatchNoopRecord :: WriteBatchRecordType where
  "WriteBatchNoopRecord = byte 0xD"
definition WriteBatchRangeDeletion :: WriteBatchRecordType where
  "WriteBatchRangeDeletion = byte 0xF"
definition WriteBatchCFRangeDeletion :: WriteBatchRecordType where
  "WriteBatchCFRangeDeletion = byte 0xE"
definition WriteBatchCFBlobIndex :: WriteBatchRecordType where
  "WriteBatchCFBlobIndex = byte 0x10"
definition WriteBatchBlobIndex :: WriteBatchRecordType where
  "WriteBatchBlobIndex = byte 0x11"
definition WriteBatchBeginPersistedPrepareXIDRecord :: WriteBatchRecordType where
  "WriteBatchBeginPersistedPrepareXIDRecord = byte 0x12"
definition WriteBatchNotUsedRecord :: WriteBatchRecordType where
  "WriteBatchNotUsedRecord = byte 0x7F"

lemmas record_type_defs =
  WriteBatchDeletionRecord_def WriteBatchValueRecord_def WriteBatchMergeRecord_def
  WriteBatchLogDataRecord_def WriteBatchCFDeletionRecord_def WriteBatchCFValueRecord_def
  WriteBatchCFMergeRecord_def WriteBatchSingleDeletionRecord_def
  WriteBatchCFSingleDeletionRecord_def WriteBatchBeginPrepareXIDRecord_def
  WriteBatchEndPrepareXIDRecord_def WriteBatchCommitXIDRecord_def
  WriteBatchRollbackXIDRecord_def WriteBatchNoopRecord_def WriteBatchRangeDeletion_def
  WriteBatchCFRangeDeletion_def WriteBatchCFBlobIndex_def WriteBatchBlobIndex_def
  WriteBatchBeginPersistedPrepareXIDRecord_def WriteBatchNotUsedRecord_def

record WriteBatchRecord =
  CF :: int
  Key :: bytes
  Value :: bytes
  Type :: WriteBatchRecordType

record WriteBatchIterator =
  it_data :: bytes
  it_record :: WriteBatchRecord
  it_err :: "error option"

definition emptyRecord :: WriteBatchRecord where
  "emptyRecord = \<lparr>CF = 0, Key = [], Value = [], Type = byte 0\<rparr>"

text \<open>\<^verbatim>\<open>wb.NewIterator()\<close> on the serialized batch: the 12-byte header is cut off.\<close>

definition wb_NewIterator :: "bytes \<Rightarrow> WriteBatchIterator" where
  "wb_NewIterator data =
     \<lparr>it_data = (if length data < 8 + 4 then [] else drop 12 data),
      it_record = emptyRecord, it_err = None\<rparr>"

text \<open>
  The loop of \<^verbatim>\<open>decodeVarint\<close>: the value and the number of bytes read when a final byte
  is found, the number of bytes read when the loop runs out.
\<close>

function varintLoop :: "bytes \<Rightarrow> nat \<Rightarrow> nat \<Rightarrow> uint64 \<Rightarrow> nat + uint64 \<times> nat" where
  "varintLoop data shift n x =
     (if shift < 64 \<and> n < length data then
        (let b = word_of_nat (ord (data ! n)) :: uint64;
             x' = x OR push_bit shift (b AND 0x7F)
         in if b AND 0x80 = 0 then Inr (x', Suc n)
            else varintLoop data (shift + 7) (Suc n) x')
      else Inl n)"
  by pat_completeness auto
termination
  by (relation "measure (\<lambda>(data, shift, n, x). 64 - shift)") auto

declare varintLoop.simps [simp del]

definition decodeVarint :: "(WriteBatchIterator, uint64) go" where
  "decodeVarint iter =
     (case varintLoop (it_data iter) 0 0 0 of
        Inr (x, n) \<Rightarrow> (Ok x, iter\<lparr>it_data := drop n (it_data iter)\<rparr>)
      | Inl n \<Rightarrow>
          (if n = length (it_data iter)
           then (Ok 0, iter\<lparr>it_err := Some ErrShortBuffer\<rparr>)
           else (Ok 0, iter\<lparr>it_err := Some (ErrorString ''malformed varint'')\<rparr>)))"

definition decodeRecType :: "(WriteBatchIterator, WriteBatchRecordType) go" where
  "decodeRecType iter =
     (case it_data iter of
        [] \<Rightarrow> (Ok WriteBatchNotUsedRecord, iter\<lparr>it_err := Some ErrShortBuffer\<rparr>)
      | t # rest \<Rightarrow> (Ok t, iter\<lparr>it_data := rest\<rparr>))"

text \<open>\<^verbatim>\<open>int(uint64)\<close> reads the bits as signed; a negative bound makes the slice panic.\<close>

definition sliceAfterLength :: "uint64 \<Rightarrow> (WriteBatchIterator, bytes) go" where
  "sliceAfterLength x iter =
     (let l = sint x;
          iter1 = (if l > int (length (it_data iter))
                   then iter\<lparr>it_err := Some ErrShortBuffer\<rparr> else iter)
      in if it_err iter1 \<noteq> None then (Ok [], iter1)
         else if l < 0 then (Panic ''slice bounds out of range'', iter1)
         else (Ok (take (nat l) (it_data iter1)),
               iter1\<lparr>it_data := drop (nat l) (it_data iter1)\<rparr>))"

definition decodeSlice :: "(WriteBatchIterator, bytes) go" where
  "decodeSlice = andThen decodeVarint sliceAfterLength"

text \<open>The assignments \<^verbatim>\<open>iter.record.CF = int(iter.decodeVarint())\<close> and so on.\<close>

definition readCF :: "(WriteBatchIterator, unit) go" where
  "readCF = andThen decodeVarint
     (\<lambda>x iter. (Ok (), iter\<lparr>it_record := (it_record iter)\<lparr>CF := sint x\<rparr>\<rparr>))"

definition readKey :: "(WriteBatchIterator, unit) go" where
  "readKey = andThen decodeSlice
     (\<lambda>k iter. (Ok (), iter\<lparr>it_record := (it_record iter)\<lparr>Key := k\<rparr>\<rparr>))"

definition readValue :: "(WriteBatchIterator, unit) go" where
  "readValue = andThen decodeSlice
     (\<lambda>v iter. (Ok (), iter\<lparr>it_record := (it_record iter)\<lparr>Value := v\<rparr>\<rparr>))"

text \<open>\<^verbatim>\<open>if iter.err == nil { m }\<close>\<close>

definition ifNoErr :: "(WriteBatchIterator, unit) go \<Rightarrow> (WriteBatchIterator, unit) go" where
  "ifNoErr m iter = (if it_err iter = None then m iter else (Ok (), iter))"

text \<open>The \<^verbatim>\<open>switch\<close> of \<^verbatim>\<open>Next\<close>.\<close>

definition readFields :: "WriteBatchRecordType \<Rightarrow> (WriteBatchIterator, unit) go" where
  "readFields t =
     (if t \<in> {WriteBatchDeletionRecord, WriteBatchSingleDeletionRecord}
      then readKey
      else if t \<in> {WriteBatchCFDeletionRecord, WriteBatchCFSingleDeletionRecord}
      then andThen readCF (\<lambda>_. ifNoErr readKey)
      else if t \<in> {WriteBatchValueRecord, WriteBatchMergeRecord, WriteBatchRangeDeletion,
                    WriteBatchBlobIndex}
      then andThen readKey (\<lambda>_. ifNoErr readValue)
      else if t \<in> {WriteBatchCFValueRecord, WriteBatchCFRangeDeletion, WriteBatchCFMergeRecord,
                    WriteBatchCFBlobIndex}
      then andThen readCF (\<lambda>_. andThen (ifNoErr readKey) (\<lambda>_. ifNoErr readValue))
      else if t = WriteBatchLogDataRecord
      then readValue
      else if t \<in> {WriteBatchNoopRecord, WriteBatchBeginPrepareXIDRecord,
                    WriteBatchBeginPersistedPrepareXIDRecord}
      then ret ()
      else if t \<in> {WriteBatchEndPrepareXIDRecord, WriteBatchCommitXIDRecord,
                    WriteBatchRollbackXIDRecord}
      then readValue
      else (\<lambda>iter. (Ok (), iter\<lparr>it_err := Some (ErrorString ''unsupported wal record type'')\<rparr>)))"

definition Next :: "(WriteBatchIterator, bool) go" where
  "Next iter =
     (if it_err iter \<noteq> None \<or> it_data iter = [] then (Ok False, iter)
      else andThen decodeRecType
        (\<lambda>t iter1. andThen (readFields t)
           (\<lambda>_ iter2. (Ok (it_err iter2 = None), iter2))
           (iter1\<lparr>it_record := (it_record iter1)\<lparr>Type := t\<rparr>\<rparr>))
        (iter\<lparr>it_record := (it_record iter)\<lparr>CF := 0, Key := [], Value := []\<rparr>\<rparr>))"

definition Record :: "WriteBatchIterator \<Rightarrow> WriteBatchRecord" where
  "Record iter = it_record iter"

definition Error :: "WriteBatchIterator \<Rightarrow> error option" where
  "Error iter = it_err iter"

section \<open>Bytes of a varint\<close>

lemma byte_low_bits: "word_of_nat n AND (0x7F :: uint64) = word_of_nat (n mod 128)"
proof -
  have "word_of_nat n AND (0x7F :: uint64) = take_bit 7 (word_of_nat n)"
    by (simp add: take_bit_eq_mask mask_eq_exp_minus_1)
  also have "\<dots> = word_of_nat (take_bit 7 n)"
    by (simp only: take_bit_of_nat)
  finally show ?thesis by (simp add: take_bit_eq_mod)
qed

lemma byte_high_bit:
  assumes "n < 256"
  shows "word_of_nat n AND (0x80 :: uint64) = 0 \<longleftrightarrow> n < 128"
proof -
  have "word_of_nat n AND (0x80 :: uint64) = 0 \<longleftrightarrow> \<not> bit (word_of_nat n :: uint64) 7"
    using and_exp_eq_0_iff_not_bit [of "word_of_nat n :: uint64" 7] by simp
  also have "\<dots> \<longleftrightarrow> even (n div 128)"
    by (simp add: bit_of_nat_iff) (simp add: bit_iff_odd)
  also have "\<dots> \<longleftrightarrow> n < 128"
  proof (cases "n < 128")
    case False
    with assms have "n div 128 = 1" by (simp add: div_nat_eqI)
    with False show ?thesis by simp
  qed simp
  finally show ?thesis .
qed

text \<open>The serialization of a number: seven bits a byte, the lowest first.\<close>

fun encodeVarint :: "nat \<Rightarrow> bytes" where
  "encodeVarint n =
     (if n < 128 then [byte n] else byte (128 + n mod 128) # encodeVarint (n div 128))"

declare encodeVarint.simps [simp del]

lemma word_split7:
  "word_of_nat n = (word_of_nat (n mod 128) :: uint64) OR push_bit 7 (word_of_nat (n div 128))"
proof -
  have "n = take_bit 7 n OR push_bit 7 (drop_bit 7 n)"
    by (rule bit_eqI) (auto simp: bit_simps, metis leI le_add_diff_inverse)
  then have "n = (n mod 128) OR push_bit 7 (n div 128)"
    by (simp add: take_bit_eq_mod drop_bit_eq_div)
  then have "(word_of_nat n :: uint64) = word_of_nat ((n mod 128) OR push_bit 7 (n div 128))"
    by simp
  then show ?thesis
    by (simp only: of_nat_or_eq push_bit_of_nat)
qed

lemma varintLoop_step:
  assumes "shift < 64" and "n < length data"
  shows "varintLoop data shift n x =
    (if ord (data ! n) < 128
     then Inr (x OR push_bit shift (word_of_nat (ord (data ! n) mod 128)), Suc n)
     else varintLoop data (shift + 7) (Suc n)
            (x OR push_bit shift (word_of_nat (ord (data ! n) mod 128))))"
  using assms by (subst varintLoop.simps) (simp only: byte_high_bit byte_low_bits Let_def
      ord_lt_256 simp_thms if_True)

lemma varintLoop_encode:
  assumes "shift < 64" and "m < 2 ^ (64 - shift)"
  shows "varintLoop (pre @ encodeVarint m @ rest) shift (length pre) x
    = Inr (x OR push_bit shift (word_of_nat m), length pre + length (encodeVarint m))"
  using assms
proof (induction m arbitrary: shift pre x rule: encodeVarint.induct)
  case (1 m)
  show ?case
  proof (cases "m < 128")
    case True
    then have "encodeVarint m = [byte m]" by (simp add: encodeVarint.simps)
    with True "1.prems" show ?thesis
      by (simp add: varintLoop_step)
  next
    case False
    define b where "b = byte (128 + m mod 128)"
    have enc: "encodeVarint m = b # encodeVarint (m div 128)"
      using False by (simp add: encodeVarint.simps [of m] b_def)
    have ordb: "ord b = 128 + m mod 128"
      by (simp add: b_def)
    have seven: "7 < 64 - shift"
    proof (rule ccontr)
      assume "\<not> 7 < 64 - shift"
      then have "(2 :: nat) ^ (64 - shift) \<le> 2 ^ 7" by (intro power_increasing) auto
      with "1.prems" False show False by simp
    qed
    then have "64 - shift = (64 - (shift + 7)) + 7" by simp
    then have "(2 :: nat) ^ (64 - shift) = 2 ^ (64 - (shift + 7)) * 2 ^ 7"
      by (metis power_add)
    then have "(2 :: nat) ^ (64 - shift) = 2 ^ (64 - (shift + 7)) * 128" by simp
    with "1.prems" have "m div 128 < 2 ^ (64 - (shift + 7))"
      by (simp add: less_mult_imp_div_less)
    then have "varintLoop ((pre @ [b]) @ encodeVarint (m div 128) @ rest) (shift + 7)
        (length (pre @ [b])) (x OR push_bit shift (word_of_nat (m mod 128)))
      = Inr ((x OR push_bit shift (word_of_nat (m mod 128)))
          OR push_bit (shift + 7) (word_of_nat (m div 128)),
          length (pre @ [b]) + length (encodeVarint (m div 128)))"
      using False seven by (intro "1.IH") auto
    moreover have "(x OR push_bit shift (word_of_nat (m mod 128)))
        OR push_bit (shift + 7) (word_of_nat (m div 128)) = x OR push_bit shift (word_of_nat m)"
      by (subst word_split7 [of m]) (simp add: push_bit_or push_bit_push_bit or.assoc)
    ultimately show ?thesis
      using "1.prems" ordb
      by (simp add: varintLoop_step enc)
  qed
qed

lemma decodeVarint_encode:
  "n < 2 ^ 64 \<Longrightarrow>
   decodeVarint \<lparr>it_data = encodeVarint n @ rest, it_record = rc, it_err = e\<rparr>
     = (Ok (word_of_nat n), \<lparr>it_data = rest, it_record = rc, it_err = e\<rparr>)"
  using varintLoop_encode [of 0 n "[]" rest 0] by (simp add: decodeVarint_def)

lemma encodeVarint_not_Nil [simp]: "encodeVarint m \<noteq> []"
  by (subst encodeVarint.simps) simp

section \<open>Slices and records\<close>

lemma sint_word_of_nat:
  assumes "n < 2 ^ 63"
  shows "sint (word_of_nat n :: uint64) = int n"
proof -
  have "sint (word_of_nat n :: uint64) = signed_take_bit 63 (int n)"
    by (simp add: sint_uint unsigned_of_nat signed_take_bit_take_bit flip: take_bit_of_nat)
  also have "\<dots> = int n"
    using assms by (intro signed_take_bit_int_eq_self) auto
  finally show ?thesis .
qed

lemma sint_word_of_nat_high:
  assumes "2 ^ 63 \<le> n" and "n < 2 ^ 64"
  shows "sint (word_of_nat n :: uint64) = int n - 2 ^ 64"
proof -
  have "sint (word_of_nat n :: uint64) = signed_take_bit 63 (int n)"
    by (simp add: sint_uint unsigned_of_nat signed_take_bit_take_bit flip: take_bit_of_nat)
  also have "\<dots> = signed_take_bit 63 (int n - 2 ^ 64)"
    by (simp add: signed_take_bit_eq_iff_take_bit_eq take_bit_eq_mod)
  also have "\<dots> = int n - 2 ^ 64"
    using assms by (intro signed_take_bit_int_eq_self) auto
  finally show ?thesis .
qed

definition encodeSlice :: "bytes \<Rightarrow> bytes" where
  "encodeSlice s = encodeVarint (length s) @ s"

lemma decodeSlice_encode:
  "length s < 2 ^ 63 \<Longrightarrow>
   decodeSlice \<lparr>it_data = encodeSlice s @ rest, it_record = rc, it_err = None\<rparr>
     = (Ok s, \<lparr>it_data = rest, it_record = rc, it_err = None\<rparr>)"
  by (simp add: decodeSlice_def encodeSlice_def andThen_def decodeVarint_encode
      sliceAfterLength_def sint_word_of_nat)

text \<open>
  The three assignments on well-formed input; they are the only facts about the field
  readers that the record proofs use.
\<close>

lemma readCF_encode:
  "n < 2 ^ 63 \<Longrightarrow>
   readCF \<lparr>it_data = encodeVarint n @ rest, it_record = rc, it_err = None\<rparr>
     = (Ok (), \<lparr>it_data = rest, it_record = rc\<lparr>CF := int n\<rparr>, it_err = None\<rparr>)"
  by (simp add: readCF_def andThen_def decodeVarint_encode sint_word_of_nat)

lemma readKey_encode:
  "length s < 2 ^ 63 \<Longrightarrow>
   readKey \<lparr>it_data = encodeSlice s @ rest, it_record = rc, it_err = None\<rparr>
     = (Ok (), \<lparr>it_data = rest, it_record = rc\<lparr>Key := s\<rparr>, it_err = None\<rparr>)"
  by (simp add: readKey_def andThen_def decodeSlice_encode)

lemma readValue_encode:
  "length s < 2 ^ 63 \<Longrightarrow>
   readValue \<lparr>it_data = encodeSlice s @ rest, it_record = rc, it_err = None\<rparr>
     = (Ok (), \<lparr>it_data = rest, it_record = rc\<lparr>Value := s\<rparr>, it_err = None\<rparr>)"
  by (simp add: readValue_def andThen_def decodeSlice_encode)

lemmas read_encode = readCF_encode readKey_encode readValue_encode

text \<open>
  The serialized form of a record: its type byte, then a column family number, a key and
  a value where the type has them.
\<close>

definition hasCF :: "WriteBatchRecordType \<Rightarrow> bool" where
  "hasCF t \<longleftrightarrow> t \<in> {WriteBatchCFDeletionRecord, WriteBatchCFSingleDeletionRecord,
     WriteBatchCFValueRecord, WriteBatchCFRangeDeletion, WriteBatchCFMergeRecord,
     WriteBatchCFBlobIndex}"

definition hasKey :: "WriteBatchRecordType \<Rightarrow> bool" where
  "hasKey t \<longleftrightarrow> hasCF t \<or> t \<in> {WriteBatchDeletionRecord, WriteBatchSingleDeletionRecord,
     WriteBatchValueRecord, WriteBatchMergeRecord, WriteBatchRangeDeletion, WriteBatchBlobIndex}"

definition hasValue :: "WriteBatchRecordType \<Rightarrow> bool" where
  "hasValue t \<longleftrightarrow> t \<in> {WriteBatchValueRecord, WriteBatchMergeRecord, WriteBatchRangeDeletion,
     WriteBatchBlobIndex, WriteBatchCFValueRecord, WriteBatchCFRangeDeletion,
     WriteBatchCFMergeRecord, WriteBatchCFBlobIndex, WriteBatchLogDataRecord,
     WriteBatchEndPrepareXIDRecord, WriteBatchCommitXIDRecord, WriteBatchRollbackXIDRecord}"

definition noFields :: "WriteBatchRecordType \<Rightarrow> bool" where
  "noFields t \<longleftrightarrow> t \<in> {WriteBatchNoopRecord, WriteBatchBeginPrepareXIDRecord,
     WriteBatchBeginPersistedPrepareXIDRecord}"

definition encodeRecord :: "WriteBatchRecord \<Rightarrow> bytes" where
  "encodeRecord r = Type r #
     (if hasCF (Type r) then encodeVarint (nat (CF r)) else []) @
     (if hasKey (Type r) then encodeSlice (Key r) else []) @
     (if hasValue (Type r) then encodeSlice (Value r) else [])"

definition wfRecord :: "WriteBatchRecord \<Rightarrow> bool" where
  "wfRecord r \<longleftrightarrow>
     (hasKey (Type r) \<or> hasValue (Type r) \<or> noFields (Type r)) \<and>
     (if hasCF (Type r) then 0 \<le> CF r \<and> CF r < 2 ^ 63 else CF r = 0) \<and>
     (if hasKey (Type r) then length (Key r) < 2 ^ 63 else Key r = []) \<and>
     (if hasValue (Type r) then length (Value r) < 2 ^ 63 else Value r = [])"

lemmas type_class_defs = hasCF_def hasKey_def hasValue_def noFields_def

text \<open>The \<^verbatim>\<open>switch\<close> reads exactly the fields the type has, in their order.\<close>

lemma ifNoErr_None [simp]: "it_err iter = None \<Longrightarrow> ifNoErr m iter = m iter"
  by (simp add: ifNoErr_def)

lemma readFields_key:
  "hasKey t \<Longrightarrow> \<not> hasCF t \<Longrightarrow> \<not> hasValue t \<Longrightarrow> readFields t = readKey"
  by (auto simp: type_class_defs readFields_def)

lemma readFields_cfkey:
  assumes "hasCF t" and "\<not> hasValue t"
  shows "readFields t = andThen readCF (\<lambda>_. ifNoErr readKey)"
proof -
  have "t = WriteBatchCFDeletionRecord \<or> t = WriteBatchCFSingleDeletionRecord"
    using assms by (auto simp: type_class_defs)
  then show ?thesis by (elim disjE; simp add: readFields_def record_type_defs)
qed

lemma readFields_keyval:
  assumes "hasKey t" and "\<not> hasCF t" and "hasValue t"
  shows "readFields t = andThen readKey (\<lambda>_. ifNoErr readValue)"
proof -
  have "t = WriteBatchValueRecord \<or> t = WriteBatchMergeRecord \<or> t = WriteBatchRangeDeletion
    \<or> t = WriteBatchBlobIndex \<or> t = WriteBatchDeletionRecord \<and> hasValue t
    \<or> t = WriteBatchSingleDeletionRecord \<and> hasValue t"
    using assms by (auto simp: hasKey_def)
  then show ?thesis
    by (elim disjE conjE; simp add: readFields_def hasValue_def record_type_defs)
qed

lemma readFields_cfkeyval:
  assumes "hasCF t" and "hasValue t"
  shows "readFields t = andThen readCF (\<lambda>_. andThen (ifNoErr readKey) (\<lambda>_. ifNoErr readValue))"
proof -
  have "t = WriteBatchCFValueRecord \<or> t = WriteBatchCFRangeDeletion
    \<or> t = WriteBatchCFMergeRecord \<or> t = WriteBatchCFBlobIndex
    \<or> t = WriteBatchCFDeletionRecord \<and> hasValue t
    \<or> t = WriteBatchCFSingleDeletionRecord \<and> hasValue t"
    using assms by (auto simp: hasCF_def)
  then show ?thesis
    by (elim disjE conjE; simp add: readFields_def hasValue_def record_type_defs)
qed

lemma readFields_val:
  assumes "\<not> hasKey t" and "hasValue t"
  shows "readFields t = readValue"
proof -
  have "t = WriteBatchLogDataRecord \<or> t = WriteBatchEndPrepareXIDRecord
    \<or> t = WriteBatchCommitXIDRecord \<or> t = WriteBatchRollbackXIDRecord"
    using assms by (auto simp: type_class_defs)
  then show ?thesis by (elim disjE; simp add: readFields_def record_type_defs)
qed

lemma readFields_none:
  assumes "noFields t"
  shows "readFields t = ret ()"
  using assms unfolding noFields_def insert_iff empty_iff
  by (elim disjE; simp add: readFields_def record_type_defs)

lemmas readFields_cases =
  readFields_key readFields_cfkey readFields_keyval readFields_cfkeyval readFields_val readFields_none

lemma hasCF_hasKey [simp]: "hasCF t \<Longrightarrow> hasKey t"
  by (simp add: hasKey_def)

lemma readFields_encode:
  assumes "wfRecord r"
  shows "readFields (Type r)
      \<lparr>it_data = tl (encodeRecord r) @ rest,
       it_record = \<lparr>CF = 0, Key = [], Value = [], Type = Type r\<rparr>, it_err = None\<rparr>
    = (Ok (), \<lparr>it_data = rest, it_record = r, it_err = None\<rparr>)"
proof -
  consider (key) "hasKey (Type r)" "\<not> hasCF (Type r)" "\<not> hasValue (Type r)"
    | (cfkey) "hasCF (Type r)" "\<not> hasValue (Type r)"
    | (keyval) "hasKey (Type r)" "\<not> hasCF (Type r)" "hasValue (Type r)"
    | (cfkeyval) "hasCF (Type r)" "hasValue (Type r)"
    | (val) "\<not> hasKey (Type r)" "\<not> hasCF (Type r)" "hasValue (Type r)"
    | (none) "noFields (Type r)" "\<not> hasKey (Type r)" "\<not> hasCF (Type r)" "\<not> hasValue (Type r)"
    using assms by (auto simp: wfRecord_def)
  then show ?thesis
    by cases (use assms in \<open>simp add: readFields_cases read_encode encodeRecord_def wfRecord_def
        go_simps nat_less_iff\<close>)+
qed

section \<open>The remaining data only shrinks\<close>

abbreviation atMost :: "nat \<Rightarrow> WriteBatchIterator \<Rightarrow> bool" where
  "atMost n \<equiv> \<lambda>iter. length (it_data iter) \<le> n"

lemma keeps_decodeVarint [keeps_intros]: "keeps (atMost n) decodeVarint"
  by (rule keepsI) (auto simp: decodeVarint_def split: sum.splits prod.splits)

lemma keeps_sliceAfterLength [keeps_intros]: "keeps (atMost n) (sliceAfterLength x)"
  by (rule keepsI) (auto simp: sliceAfterLength_def Let_def)

lemma keeps_set_record [keeps_intros]:
  "keeps (atMost n) (\<lambda>iter. (Ok (), iter\<lparr>it_record := f iter\<rparr>))"
  by (rule keepsI) simp

lemma keeps_set_err [keeps_intros]:
  "keeps (atMost n) (\<lambda>iter. (Ok (), iter\<lparr>it_err := e\<rparr>))"
  by (rule keepsI) simp

lemma keeps_ifNoErr [keeps_intros]: "keeps P m \<Longrightarrow> keeps P (ifNoErr m)"
  by (rule keepsI) (auto simp: ifNoErr_def dest: keepsD)

lemma keeps_decodeSlice [keeps_intros]: "keeps (atMost n) decodeSlice"
  unfolding decodeSlice_def by (intro keeps_intros)

lemma keeps_reads [keeps_intros]:
  "keeps (atMost n) readCF" "keeps (atMost n) readKey" "keeps (atMost n) readValue"
  unfolding readCF_def readKey_def readValue_def by (intro keeps_intros)+

lemma keeps_readFields [keeps_intros]: "keeps (atMost n) (readFields t)"
  unfolding readFields_def by (intro keeps_intros)

lemma Next_TrueD:
  assumes "Next iter = (Ok True, iter')"
  shows "it_err iter' = None" and "length (it_data iter') < length (it_data iter)"
proof -
  from assms obtain t rest where d: "it_data iter = t # rest" and "it_err iter = None"
    by (cases "it_data iter") (auto simp: Next_def split: if_splits)
  define iter1 where "iter1 = iter\<lparr>it_data := rest,
    it_record := (it_record iter)\<lparr>CF := 0, Key := [], Value := [], Type := t\<rparr>\<rparr>"
  have "Next iter = andThen (readFields t) (\<lambda>_ iter2. (Ok (it_err iter2 = None), iter2)) iter1"
    using d \<open>it_err iter = None\<close>
    by (simp add: Next_def decodeRecType_def go_simps iter1_def)
  with assms obtain u where r: "readFields t iter1 = (Ok u, iter')" and "it_err iter' = None"
    by (auto elim!: andThen_OkE)
  then show "it_err iter' = None" by simp
  have "length (it_data (snd (readFields t iter1))) \<le> length rest"
    by (rule keepsD [OF keeps_readFields]) (simp add: iter1_def)
  then show "length (it_data iter') < length (it_data iter)"
    by (simp add: r d)
qed

lemma Next_encode:
  assumes "wfRecord r"
  shows "Next \<lparr>it_data = encodeRecord r @ rest, it_record = rc, it_err = None\<rparr>
    = (Ok True, \<lparr>it_data = rest, it_record = r, it_err = None\<rparr>)"
proof -
  have "encodeRecord r = Type r # tl (encodeRecord r)"
    by (simp add: encodeRecord_def)
  then have "Next \<lparr>it_data = encodeRecord r @ rest, it_record = rc, it_err = None\<rparr>
    = Next \<lparr>it_data = Type r # tl (encodeRecord r) @ rest, it_record = rc, it_err = None\<rparr>"
    by (metis append_Cons)
  then show ?thesis
    using readFields_encode [OF assms, of rest]
    by (cases rc) (simp add: Next_def decodeRecType_def go_simps)
qed

text \<open>
  A client's loop \<^verbatim>\<open>for iter.Next() { rs = append(rs, *iter.Record()) }\<close>. Each round
  consumes data, so the length of the data bounds the rounds.
\<close>

fun drain :: "nat \<Rightarrow> WriteBatchIterator \<Rightarrow> WriteBatchRecord list outcome \<times> WriteBatchIterator" where
  "drain 0 iter = (Ok [], iter)"
| "drain (Suc n) iter =
     (case Next iter of
        (Ok True, iter') \<Rightarrow>
          (case drain n iter' of
             (Ok rs, iter'') \<Rightarrow> (Ok (Record iter' # rs), iter'')
           | r \<Rightarrow> r)
      | (Ok False, iter') \<Rightarrow> (Ok [], iter')
      | (Err e, iter') \<Rightarrow> (Err e, iter')
      | (Panic p, iter') \<Rightarrow> (Panic p, iter')
      | (Crash, iter') \<Rightarrow> (Crash, iter'))"

lemma Next_done [simp]: "it_data iter = [] \<Longrightarrow> Next iter = (Ok False, iter)"
  by (simp add: Next_def)

lemma drain_encode:
  assumes "list_all wfRecord rs" and "length rs \<le> n"
  shows "\<exists>rc'. drain n \<lparr>it_data = concat (map encodeRecord rs), it_record = rc, it_err = None\<rparr>
    = (Ok rs, \<lparr>it_data = [], it_record = rc', it_err = None\<rparr>)"
  using assms
proof (induction rs arbitrary: n rc)
  case Nil
  then show ?case by (cases n) auto
next
  case (Cons r rs)
  then obtain k where n: "n = Suc k" and "length rs \<le> k" by (cases n) auto
  with Cons obtain rc' where "drain k \<lparr>it_data = concat (map encodeRecord rs), it_record = r, it_err = None\<rparr>
    = (Ok rs, \<lparr>it_data = [], it_record = rc', it_err = None\<rparr>)" by fastforce
  with Cons.prems show ?case by (simp add: n Next_encode Record_def)
qed

lemma length_encodeRecord: "Suc 0 \<le> length (encodeRecord r)"
  by (simp add: encodeRecord_def)

lemma length_concat_encode: "length rs \<le> length (concat (map encodeRecord rs))"
proof (induction rs)
  case (Cons r rs)
  then show ?case using length_encodeRecord [of r] by (simp del: length_greater_0_conv)
qed simp

section \<open>Properties\<close>

text \<open>
  C18. The batch iterator inverts the serialization: over a batch of well-formed records
  behind a 12-byte header, a client's loop on \<^verbatim>\<open>Next\<close> returns exactly these records, of
  every one of the nineteen types, in order, and ends with all data consumed and no error;
  as many rounds as there are bytes are enough.
\<close>

theorem batch_roundtrip:
  assumes "list_all wfRecord rs" and "length header = 12"
  shows "\<exists>iter. drain (length (concat (map encodeRecord rs)))
      (wb_NewIterator (header @ concat (map encodeRecord rs))) = (Ok rs, iter)
    \<and> it_data iter = [] \<and> Error iter = None"
  using drain_encode [OF assms(1) length_concat_encode, of emptyRecord] assms(2)
  by (auto simp: wb_NewIterator_def Error_def)

theorem batch_roundtrip_witness:
  "\<exists>iter. drain (length (concat (map encodeRecord
        [\<lparr>CF = 0, Key = ''k'', Value = ''v'', Type = WriteBatchValueRecord\<rparr>,
         \<lparr>CF = 3, Key = ''k'', Value = [], Type = WriteBatchCFDeletionRecord\<rparr>])))
      (wb_NewIterator (replicate 12 (byte 0) @ concat (map encodeRecord
        [\<lparr>CF = 0, Key = ''k'', Value = ''v'', Type = WriteBatchValueRecord\<rparr>,
         \<lparr>CF = 3, Key = ''k'', Value = [], Type = WriteBatchCFDeletionRecord\<rparr>])))
    = (Ok [\<lparr>CF = 0, Key = ''k'', Value = ''v'', Type = WriteBatchValueRecord\<rparr>,
         \<lparr>CF = 3, Key = ''k'', Value = [], Type = WriteBatchCFDeletionRecord\<rparr>], iter)
    \<and> it_data iter = [] \<and> Error iter = None"
  by (rule batch_roundtrip) (simp_all add: wfRecord_def type_class_defs record_type_defs)

text \<open>
  Iteration always ends and its error is final: a successful \<^verbatim>\<open>Next\<close> leaves no error
  and strictly less data, and after a \<^verbatim>\<open>Next\<close> that returned false every further one
  returns false and changes nothing.
\<close>

theorem Next_progress:
  "(Next iter = (Ok True, iter') \<longrightarrow>
      Error iter' = None \<and> length (it_data iter') < length (it_data iter)) \<and>
   (Next iter = (Ok False, iter') \<longrightarrow> Next iter' = (Ok False, iter'))"
proof (intro conjI impI)
  assume "Next iter = (Ok True, iter')"
  from Next_TrueD [OF this] show "Error iter' = None" "length (it_data iter') < length (it_data iter)"
    by (simp_all add: Error_def)
next
  assume f: "Next iter = (Ok False, iter')"
  show "Next iter' = (Ok False, iter')"
  proof (cases "it_err iter \<noteq> None \<or> it_data iter = []")
    case True
    with f show ?thesis by (auto simp: Next_def)
  next
    case False
    with f have "it_err iter' \<noteq> None"
      by (auto simp: Next_def elim!: andThen_OkE)
    then show ?thesis by (simp add: Next_def)
  qed
qed

theorem Next_progress_witness:
  "(Next \<lparr>it_data = [byte 13], it_record = emptyRecord, it_err = None\<rparr>
      = (Ok True, \<lparr>it_data = [], it_record = emptyRecord\<lparr>Type := byte 13\<rparr>, it_err = None\<rparr>) \<and>
    length ([] :: bytes) < length [byte 13])"
  using Next_progress [of "\<lparr>it_data = [byte 13], it_record = emptyRecord, it_err = None\<rparr>"
      "\<lparr>it_data = [], it_record = emptyRecord\<lparr>Type := byte 13\<rparr>, it_err = None\<rparr>"]
  by (simp add: Next_def decodeRecType_def go_simps readFields_def record_type_defs emptyRecord_def)

text \<open>
  C40. A corrupt length is not always reported as an error: a length prefix of at least
  \<open>2^63\<close> becomes a negative \<^verbatim>\<open>int\<close>, passes the check against the remaining data, and the
  slice expression of \<^verbatim>\<open>decodeSlice\<close> panics.
\<close>

theorem decodeSlice_negative_length_panics:
  assumes "2 ^ 63 \<le> n" and "n < 2 ^ 64"
  shows "fst (decodeSlice \<lparr>it_data = encodeVarint n @ rest, it_record = rc, it_err = None\<rparr>)
    = Panic ''slice bounds out of range''"
proof -
  have "sint (word_of_nat n :: uint64) < 0"
    using assms by (simp add: sint_word_of_nat_high)
  then show ?thesis
    using assms(2)
    by (simp add: decodeSlice_def andThen_def decodeVarint_encode sliceAfterLength_def Let_def)
qed

theorem decodeSlice_negative_length_panics_witness:
  "fst (decodeSlice \<lparr>it_data = encodeVarint (2 ^ 63) @ ''rest'', it_record = emptyRecord, it_err = None\<rparr>)
    = Panic ''slice bounds out of range''"
  by (rule decodeSlice_negative_length_panics) simp_all

end
