(* ===== verification/Go_Utf8.thy ===== *)
theory Go_Utf8
  imports Prelude
begin

text \<open>
  UTF-8 as Go's \<^verbatim>\<open>unicode/utf8\<close> package decodes it, byte by byte: which byte sequences
  are one rune, how a string falls into runes and stray bytes, and what replacing every
  stray byte by U+FFFD does. Shared by the JSON encoder and decoder.
\<close>

definition cont :: "char \<Rightarrow> bool" where
  "cont c \<longleftrightarrow> 128 \<le> ord c \<and> ord c \<le> 191"

text \<open>
  The size \<^verbatim>\<open>utf8.DecodeRune\<close> reports for the rune a string starts with, and 0 where it
  reports \<^verbatim>\<open>RuneError\<close> with size 0 or 1.
\<close>

definition runeLen :: "string \<Rightarrow> nat" where
  "runeLen s =
     (case s of
        [] \<Rightarrow> 0
      | a # s1 \<Rightarrow>
          if ord a < 128 then 1
          else if ord a < 194 then 0
          else if ord a < 224 then
            (case s1 of b # _ \<Rightarrow> if cont b then 2 else 0 | [] \<Rightarrow> 0)
          else if ord a < 240 then
            (case s1 of
               b # c # _ \<Rightarrow>
                 if cont b \<and> (ord a = 224 \<longrightarrow> 160 \<le> ord b) \<and> (ord a = 237 \<longrightarrow> ord b \<le> 159) \<and> cont c
                 then 3 else 0
             | _ \<Rightarrow> 0)
          else if ord a < 245 then
            (case s1 of
               b # c # d # _ \<Rightarrow>
                 if cont b \<and> (ord a = 240 \<longrightarrow> 144 \<le> ord b) \<and> (ord a = 244 \<longrightarrow> ord b \<le> 143)
                    \<and> cont c \<and> cont d
                 then 4 else 0
             | _ \<Rightarrow> 0)
          else 0)"

text \<open>\<^verbatim>\<open>for range s\<close>: each rune as its bytes, or \<open>None\<close> for a byte that starts no rune.\<close>

function runes :: "string \<Rightarrow> string option list" where
  "runes [] = []"
| "runes (a # s) =
     (if runeLen (a # s) = 0 then None # runes s
      else Some (take (runeLen (a # s)) (a # s)) # runes (drop (runeLen (a # s) - 1) s))"
  by pat_completeness auto
termination
  by (relation "measure length") auto

definition runeError :: string where
  "runeError = map byte [239, 191, 189]"

definition sanitize :: "string \<Rightarrow> string" where
  "sanitize s = concat (map (case_option runeError id) (runes s))"

definition validUtf8 :: "string \<Rightarrow> bool" where
  "validUtf8 s \<longleftrightarrow> None \<notin> set (runes s)"

text \<open>\<^verbatim>\<open>utf8.EncodeRune\<close> for a code point that is no surrogate.\<close>

definition encodeRune :: "nat \<Rightarrow> string" where
  "encodeRune r =
     (if r < 128 then [byte r]
      else if r < 2048 then [byte (192 + r div 64), byte (128 + r mod 64)]
      else if r < 65536 then
        [byte (224 + r div 4096), byte (128 + r div 64 mod 64), byte (128 + r mod 64)]
      else [byte (240 + r div 262144), byte (128 + r div 4096 mod 64),
            byte (128 + r div 64 mod 64), byte (128 + r mod 64)])"

section \<open>Runes\<close>

definition isRune :: "string \<Rightarrow> bool" where
  "isRune w \<longleftrightarrow> w \<noteq> [] \<and> runeLen w = length w"

lemma runeLen_le: "runeLen s \<le> length s"
  by (auto simp: runeLen_def split: list.splits)

text \<open>The four shapes a rune has.\<close>

lemma runeLen_cases:
  assumes "0 < runeLen s"
  obtains (one) a s1 where "s = a # s1" "runeLen s = 1" "ord a < 128"
    | (two) a b s1 where "s = a # b # s1" "runeLen s = 2" "194 \<le> ord a" "ord a < 224" "cont b"
    | (three) a b c s1 where "s = a # b # c # s1" "runeLen s = 3" "224 \<le> ord a" "ord a < 240"
        "cont b" "ord a = 224 \<longrightarrow> 160 \<le> ord b" "ord a = 237 \<longrightarrow> ord b \<le> 159" "cont c"
    | (four) a b c d s1 where "s = a # b # c # d # s1" "runeLen s = 4" "240 \<le> ord a" "ord a < 245"
        "cont b" "ord a = 240 \<longrightarrow> 144 \<le> ord b" "ord a = 244 \<longrightarrow> ord b \<le> 143" "cont c" "cont d"
proof -
  from assms obtain a s1 where s: "s = a # s1" by (cases s) (auto simp: runeLen_def)
  consider "ord a < 128" | "128 \<le> ord a" "ord a < 194" | "194 \<le> ord a" "ord a < 224"
    | "224 \<le> ord a" "ord a < 240" | "240 \<le> ord a" "ord a < 245" | "245 \<le> ord a" by linarith
  then show thesis
  proof cases
    case 1
    with s show thesis by (intro one) (auto simp: runeLen_def)
  next
    case 2
    with s assms show thesis by (simp add: runeLen_def)
  next
    case 3
    with s assms obtain b s2 where "s1 = b # s2" "cont b"
      by (auto simp: runeLen_def split: list.splits if_splits)
    with 3 s show thesis by (intro two [of a b s2]) (auto simp: runeLen_def)
  next
    case 4
    with s assms obtain b c s2 where "s1 = b # c # s2" "cont b" "ord a = 224 \<longrightarrow> 160 \<le> ord b"
      "ord a = 237 \<longrightarrow> ord b \<le> 159" "cont c"
      by (auto simp: runeLen_def split: list.splits if_splits)
    with 4 s show thesis by (intro three [of a b c s2]) (auto simp: runeLen_def)
  next
    case 5
    with s assms obtain b c d s2 where "s1 = b # c # d # s2" "cont b" "ord a = 240 \<longrightarrow> 144 \<le> ord b"
      "ord a = 244 \<longrightarrow> ord b \<le> 143" "cont c" "cont d"
      by (auto simp: runeLen_def split: list.splits if_splits)
    with 5 s show thesis by (intro four [of a b c d s2]) (auto simp: runeLen_def)
  next
    case 6
    with s assms show thesis by (simp add: runeLen_def)
  qed
qed

lemma runeLen_take_append:
  assumes "0 < runeLen s"
  shows "runeLen (take (runeLen s) s @ t) = runeLen s"
  using assms
proof (cases rule: runeLen_cases)
  case (one a s1)
  then show ?thesis by (simp add: runeLen_def [of "a # _"])
next
  case (two a b s1)
  then have "take (runeLen s) s = [a, b]" by simp
  with two show ?thesis by (simp add: runeLen_def [of "a # _"])
next
  case (three a b c s1)
  then have "take (runeLen s) s = [a, b, c]" by simp
  with three show ?thesis by (simp add: runeLen_def [of "a # _"])
next
  case (four a b c d s1)
  then have "take (runeLen s) s = [a, b, c, d]" by simp
  with four show ?thesis by (simp add: runeLen_def [of "a # _"])
qed

lemma isRune_take: "0 < runeLen s \<Longrightarrow> isRune (take (runeLen s) s)"
  using runeLen_take_append [of s "[]"] runeLen_le [of s] by (auto simp: isRune_def)

lemma runeLen_isRune: "isRune w \<Longrightarrow> runeLen (w @ t) = length w"
  using runeLen_take_append [of w t] by (auto simp: isRune_def)

lemma runes_isRune:
  assumes "isRune w"
  shows "runes (w @ t) = Some w # runes t"
proof -
  obtain a w' where w: "w = a # w'" using assms by (cases w) (auto simp: isRune_def)
  have "runeLen (a # w' @ t) = Suc (length w')"
    using runeLen_isRune [OF assms, of t] by (simp add: w)
  then show ?thesis by (simp add: w)
qed

lemma runes_are_runes: "Some w \<in> set (runes s) \<Longrightarrow> isRune w"
  by (induction s rule: runes.induct) (auto split: if_splits intro: isRune_take)

lemma concat_runes:
  "None \<notin> set (runes s) \<Longrightarrow> concat (map (case_option x id) (runes s)) = s"
proof (induction s rule: runes.induct)
  case (2 a s)
  have "runeLen (a # s) \<noteq> 0" using "2.prems" by (auto split: if_splits)
  with 2 show ?case
    by (cases "runeLen (a # s)") auto
qed simp

lemma sanitize_valid [simp]: "validUtf8 s \<Longrightarrow> sanitize s = s"
  by (simp add: sanitize_def validUtf8_def concat_runes)

lemma validUtf8_Nil [simp]: "validUtf8 []"
  by (simp add: validUtf8_def)

lemma validUtf8_rune [simp]: "isRune w \<Longrightarrow> validUtf8 (w @ t) \<longleftrightarrow> validUtf8 t"
  by (simp add: validUtf8_def runes_isRune)

lemma isRune_ascii [simp]: "ord a < 128 \<Longrightarrow> isRune [a]"
  by (simp add: isRune_def runeLen_def)

lemma validUtf8_ascii_Cons [simp]: "ord a < 128 \<Longrightarrow> validUtf8 (a # t) \<longleftrightarrow> validUtf8 t"
  using validUtf8_rune [of "[a]" t] by simp

lemma validUtf8_ascii: "\<forall>c \<in> set s. ord c < 128 \<Longrightarrow> validUtf8 s"
  by (induction s) auto

lemma isRune_runeError [simp]: "isRune runeError"
  by (simp add: isRune_def runeError_def runeLen_def cont_def)

lemma validUtf8_concat: "\<forall>w \<in> set ws. isRune w \<Longrightarrow> validUtf8 (concat ws)"
  by (induction ws) auto

lemma validUtf8_sanitize [simp]: "validUtf8 (sanitize s)"
  unfolding sanitize_def
  by (rule validUtf8_concat) (auto split: option.splits dest: runes_are_runes)

lemma validUtf8_append: "validUtf8 s \<Longrightarrow> validUtf8 (s @ t) \<longleftrightarrow> validUtf8 t"
proof (induction s rule: runes.induct)
  case (2 a s)
  let ?n = "runeLen (a # s)"
  have n: "0 < ?n" using "2.prems" by (auto simp: validUtf8_def split: if_splits)
  have "a # s = take ?n (a # s) @ drop (?n - 1) s"
    using n by (cases ?n) auto
  moreover have r: "isRune (take ?n (a # s))" using n by (rule isRune_take)
  ultimately have "validUtf8 (drop (?n - 1) s)"
    using "2.prems" validUtf8_rune [OF r] by metis
  with 2 n have "validUtf8 (drop (?n - 1) s @ t) \<longleftrightarrow> validUtf8 t" by simp
  moreover have "(a # s) @ t = take ?n (a # s) @ drop (?n - 1) s @ t"
    using n by (cases ?n) auto
  ultimately show ?case using validUtf8_rune [OF r] by metis
qed simp

lemma isRune_encodeRune:
  assumes "r < 55296 \<or> 57344 \<le> r" and "r < 1114112"
  shows "isRune (encodeRune r)"
proof -
  consider "r < 128" | "128 \<le> r" "r < 2048" | "2048 \<le> r" "r < 65536" | "65536 \<le> r" by linarith
  then show ?thesis
  proof cases
    case 1
    then show ?thesis by (simp add: encodeRune_def)
  next
    case 2
    then have "r div 64 < 32" "2 \<le> r div 64" by linarith+
    with 2 show ?thesis
      by (simp add: encodeRune_def isRune_def runeLen_def cont_def)
  next
    case 3
    then have b: "r div 4096 < 16" by linarith
    have m: "r div 64 = 64 * (r div 4096) + r div 64 mod 64"
      using mult_div_mod_eq [of 64 "r div 64"] by (simp add: div_mult2_eq [symmetric])
    have "32 \<le> r div 64 mod 64" if "r div 4096 = 0" using that m 3 by linarith
    moreover have "r div 64 mod 64 \<le> 31" if "r div 4096 = 13"
    proof -
      have "r < 57344" using that by linarith
      with assms have "r div 64 < 864" by linarith
      with that m show ?thesis by linarith
    qed
    ultimately show ?thesis
      using 3 b by (auto simp: encodeRune_def isRune_def runeLen_def cont_def)
  next
    case 4
    then have b: "r div 262144 < 5" using assms by linarith
    have m: "r div 4096 = 64 * (r div 262144) + r div 4096 mod 64"
      using mult_div_mod_eq [of 64 "r div 4096"] by (simp add: div_mult2_eq [symmetric])
    have "16 \<le> r div 4096 mod 64" if "r div 262144 = 0" using that m 4 by linarith
    moreover have "r div 4096 mod 64 \<le> 15" if "r div 262144 = 4" using that m assms by linarith
    ultimately show ?thesis
      using 4 b by (auto simp: encodeRune_def isRune_def runeLen_def cont_def)
  qed
qed

end
