(* ===== verification/Go_Json.thy ===== *)
theory Go_Json
  imports Go_Utf8 Go_Strings
begin

text \<open>
  Go's \<^verbatim>\<open>encoding/json\<close> as far as the sources use it: JSON texts and values, how a value is
  printed by \<^verbatim>\<open>json.Marshal\<close> (with HTML escaping and U+FFFD for stray bytes), how a text is
  parsed (the whole text is checked first, so a syntax error leaves the target untouched),
  and how a struct or a map is filled from a parsed object. The main fact is that parsing
  a printed value gives the value back, with every string made valid UTF-8.
\<close>

section \<open>String literals\<close>

abbreviation dquote :: char where "dquote \<equiv> CHR 0x22"

abbreviation backslash :: char where "backslash \<equiv> CHR 0x5C"

definition hexDigit :: "nat \<Rightarrow> char" where
  "hexDigit n = (if n < 10 then byte (48 + n) else byte (87 + n))"

definition hexVal :: "char \<Rightarrow> nat option" where
  "hexVal c =
     (if 48 \<le> ord c \<and> ord c \<le> 57 then Some (ord c - 48)
      else if 97 \<le> ord c \<and> ord c \<le> 102 then Some (ord c - 87)
      else if 65 \<le> ord c \<and> ord c \<le> 70 then Some (ord c - 55)
      else None)"

text \<open>The escape \<^verbatim>\<open>\uXXXX\<close> of a number below 65536.\<close>

definition uEscape :: "nat \<Rightarrow> string" where
  "uEscape n = [backslash, CHR ''u'', hexDigit (n div 4096 mod 16), hexDigit (n div 256 mod 16),
     hexDigit (n div 16 mod 16), hexDigit (n mod 16)]"

text \<open>What \<^verbatim>\<open>encodeState.string\<close> writes for one rune or stray byte.\<close>

definition escAscii :: "char \<Rightarrow> string" where
  "escAscii c =
     (if c = dquote \<or> c = backslash then [backslash, c]
      else if ord c = 10 then [backslash, CHR ''n'']
      else if ord c = 13 then [backslash, CHR ''r'']
      else if ord c = 9 then [backslash, CHR ''t'']
      else if ord c < 32 \<or> ord c \<in> {60, 62, 38} then uEscape (ord c)
      else [c])"

definition escRune :: "string option \<Rightarrow> string" where
  "escRune r =
     (case r of
        None \<Rightarrow> uEscape 65533
      | Some w \<Rightarrow>
          (case w of
             [c] \<Rightarrow> escAscii c
           | _ \<Rightarrow> if w = map byte [226, 128, 168] then uEscape 8232
                  else if w = map byte [226, 128, 169] then uEscape 8233
                  else w))"

definition quoteString :: "string \<Rightarrow> string" where
  "quoteString s = dquote # concat (map escRune (runes s)) @ [dquote]"

text \<open>\<^verbatim>\<open>getu4\<close> on the four characters after \<^verbatim>\<open>\u\<close>.\<close>

fun getu4 :: "string \<Rightarrow> nat option" where
  "getu4 (a # b # c # d # s) =
     (case (hexVal a, hexVal b, hexVal c, hexVal d) of
        (Some w, Some x, Some y, Some z) \<Rightarrow> Some (4096 * w + 256 * x + 16 * y + z)
      | _ \<Rightarrow> None)"
| "getu4 _ = None"

definition surrogate :: "nat \<Rightarrow> bool" where
  "surrogate r \<longleftrightarrow> 55296 \<le> r \<and> r < 57344"

text \<open>
  The second half of a surrogate pair, if the rest of the literal goes on with one:
  the code point of the pair.
\<close>

definition pairWith :: "nat \<Rightarrow> string \<Rightarrow> nat option" where
  "pairWith r s =
     (case s of
        a # b # s' \<Rightarrow>
          if a = backslash \<and> b = CHR ''u'' then
            (case getu4 s' of
               Some r2 \<Rightarrow>
                 if r < 56320 \<and> 56320 \<le> r2 \<and> r2 < 57344
                 then Some (65536 + (r - 55296) * 1024 + (r2 - 56320)) else None
             | None \<Rightarrow> None)
          else None
      | _ \<Rightarrow> None)"

definition unescape :: "char \<Rightarrow> char option" where
  "unescape e =
     (if e = dquote \<or> e = backslash \<or> e = CHR ''/'' then Some e
      else if e = CHR ''b'' then Some (byte 8)
      else if e = CHR ''f'' then Some (byte 12)
      else if e = CHR ''n'' then Some (byte 10)
      else if e = CHR ''r'' then Some (byte 13)
      else if e = CHR ''t'' then Some (byte 9)
      else None)"

definition prepend :: "string \<Rightarrow> (string \<times> string) option \<Rightarrow> (string \<times> string) option" where
  "prepend w r = map_option (\<lambda>(x, y). (w @ x, y)) r"

text \<open>
  A literal after its opening quote: its value and the text after the closing quote,
  or \<open>None\<close> if it is malformed.
\<close>

function unquote :: "string \<Rightarrow> (string \<times> string) option" where
  "unquote [] = None"
| "unquote (a # s) =
     (if a = dquote then Some ([], s)
      else if a = backslash then
        (case s of
           [] \<Rightarrow> None
         | e # s' \<Rightarrow>
             if e = CHR ''u'' then
               (case getu4 s' of
                  None \<Rightarrow> None
                | Some r \<Rightarrow>
                    if surrogate r then
                      (case pairWith r (drop 4 s') of
                         Some q \<Rightarrow> prepend (encodeRune q) (unquote (drop 10 s'))
                       | None \<Rightarrow> prepend runeError (unquote (drop 4 s')))
                    else prepend (encodeRune r) (unquote (drop 4 s')))
             else
               (case unescape e of None \<Rightarrow> None | Some c \<Rightarrow> prepend [c] (unquote s')))
      else if ord a < 32 then None
      else if runeLen (a # s) = 0 then prepend runeError (unquote s)
      else prepend (take (runeLen (a # s)) (a # s)) (unquote (drop (runeLen (a # s) - 1) s)))"
  by pat_completeness auto
termination
  by (relation "measure length") auto

declare unquote.simps(2) [simp del]

section \<open>Values and texts\<close>

datatype json =
    JNull
  | JBool bool
  | JNum string
  | JStr string
  | JArr "json list"
  | JObj "(string \<times> json) list"

definition isSpace :: "char \<Rightarrow> bool" where
  "isSpace c \<longleftrightarrow> ord c \<in> {32, 9, 13, 10}"

definition skipWs :: "string \<Rightarrow> string" where
  "skipWs s = dropWhile isSpace s"

text \<open>
  A number: an optional minus, an integer part without leading zeros, an optional
  fraction, an optional exponent. The result is the literal and the rest.
\<close>

definition scanDigits :: "string \<Rightarrow> (string \<times> string) option" where
  "scanDigits s =
     (if takeWhile is_digit s = [] then None
      else Some (takeWhile is_digit s, dropWhile is_digit s))"

definition scanInt :: "string \<Rightarrow> (string \<times> string) option" where
  "scanInt s =
     (case s of
        [] \<Rightarrow> None
      | c # s' \<Rightarrow> if c = CHR ''0'' then Some ([c], s') else scanDigits s)"

definition scanFrac :: "string \<Rightarrow> (string \<times> string) option" where
  "scanFrac s =
     (case s of
        c # s' \<Rightarrow> if c = CHR ''.'' then prepend [c] (scanDigits s') else Some ([], s)
      | [] \<Rightarrow> Some ([], s))"

definition scanExp :: "string \<Rightarrow> (string \<times> string) option" where
  "scanExp s =
     (case s of
        c # s' \<Rightarrow>
          if c = CHR ''e'' \<or> c = CHR ''E'' then
            (case s' of
               d # s'' \<Rightarrow> if d = CHR ''+'' \<or> d = CHR ''-''
                          then prepend [c, d] (scanDigits s'') else prepend [c] (scanDigits s')
             | [] \<Rightarrow> None)
          else Some ([], s)
      | [] \<Rightarrow> Some ([], s))"

definition scanNumber :: "string \<Rightarrow> (string \<times> string) option" where
  "scanNumber s =
     (let (sign, s0) = (case s of c # s' \<Rightarrow> if c = CHR ''-'' then ([c], s') else ([], s) | [] \<Rightarrow> ([], s))
      in case scanInt s0 of
           None \<Rightarrow> None
         | Some (i, s1) \<Rightarrow>
             (case scanFrac s1 of
                None \<Rightarrow> None
              | Some (f, s2) \<Rightarrow>
                  (case scanExp s2 of
                     None \<Rightarrow> None
                   | Some (e, s3) \<Rightarrow> Some (sign @ i @ f @ e, s3))))"

text \<open>
  The recursive-descent form of the scanner. A list or an object spends one unit on its
  bracket and one on its first element, so a fuel of twice the length of the text and one
  more is enough: more fuel never changes the result (\<open>parse_fuel\<close> below).
\<close>

fun parseValue :: "nat \<Rightarrow> string \<Rightarrow> (json \<times> string) option"
  and parseElems :: "nat \<Rightarrow> string \<Rightarrow> (json list \<times> string) option"
  and parseMembers :: "nat \<Rightarrow> string \<Rightarrow> ((string \<times> json) list \<times> string) option"
where
  "parseValue 0 s = None"
| "parseValue (Suc n) s =
     (case skipWs s of
        [] \<Rightarrow> None
      | c # r \<Rightarrow>
          if c = dquote then map_option (\<lambda>(x, r'). (JStr x, r')) (unquote r)
          else if c = CHR ''{'' then
            (case skipWs r of
               d # r' \<Rightarrow> if d = CHR ''}'' then Some (JObj [], r')
                         else map_option (\<lambda>(ms, r''). (JObj ms, r'')) (parseMembers n r)
             | [] \<Rightarrow> None)
          else if c = CHR ''['' then
            (case skipWs r of
               d # r' \<Rightarrow> if d = CHR '']'' then Some (JArr [], r')
                         else map_option (\<lambda>(es, r''). (JArr es, r'')) (parseElems n r)
             | [] \<Rightarrow> None)
          else if HasPrefix (c # r) ''true'' then Some (JBool True, drop 4 (c # r))
          else if HasPrefix (c # r) ''false'' then Some (JBool False, drop 5 (c # r))
          else if HasPrefix (c # r) ''null'' then Some (JNull, drop 4 (c # r))
          else map_option (\<lambda>(l, r'). (JNum l, r')) (scanNumber (c # r)))"
| "parseElems 0 s = None"
| "parseElems (Suc n) s =
     (case parseValue n s of
        None \<Rightarrow> None
      | Some (v, r) \<Rightarrow>
          (case skipWs r of
             [] \<Rightarrow> None
           | c # r' \<Rightarrow>
               if c = CHR '']'' then Some ([v], r')
               else if c = CHR '','' then map_option (\<lambda>(es, r''). (v # es, r'')) (parseElems n r')
               else None))"
| "parseMembers 0 s = None"
| "parseMembers (Suc n) s =
     (case skipWs s of
        [] \<Rightarrow> None
      | q # s1 \<Rightarrow>
          if q \<noteq> dquote then None
          else (case unquote s1 of
             None \<Rightarrow> None
           | Some (k, s2) \<Rightarrow>
               (case skipWs s2 of
                  [] \<Rightarrow> None
                | c # s3 \<Rightarrow>
                    if c \<noteq> CHR '':'' then None
                    else (case parseValue n s3 of
                       None \<Rightarrow> None
                     | Some (v, r) \<Rightarrow>
                         (case skipWs r of
                            [] \<Rightarrow> None
                          | d # r' \<Rightarrow>
                              if d = CHR ''}'' then Some ([(k, v)], r')
                              else if d = CHR '','' then
                                map_option (\<lambda>(ms, r''). ((k, v) # ms, r'')) (parseMembers n r')
                              else None)))))"

definition parseJson :: "string \<Rightarrow> json option" where
  "parseJson s =
     (case parseValue (2 * length s + 1) s of
        Some (v, r) \<Rightarrow> if skipWs r = [] then Some v else None
      | None \<Rightarrow> None)"

text \<open>\<^verbatim>\<open>json.Marshal\<close> writes no white space.\<close>

fun printJson :: "json \<Rightarrow> string" where
  "printJson JNull = ''null''"
| "printJson (JBool b) = (if b then ''true'' else ''false'')"
| "printJson (JNum l) = l"
| "printJson (JStr s) = quoteString s"
| "printJson (JArr es) = ''['' @ Join (map printJson es) '','' @ '']''"
| "printJson (JObj ms) =
     ''{'' @ Join (map (\<lambda>(k, v). quoteString k @ '':'' @ printJson v) ms) '','' @ ''}''"

section \<open>A quoted string reads back\<close>

lemma hexVal_hexDigit [simp]: "n < 16 \<Longrightarrow> hexVal (hexDigit n) = Some n"
  by (auto simp: hexVal_def hexDigit_def)

abbreviation hex4 :: "nat \<Rightarrow> string" where
  "hex4 n \<equiv> drop 2 (uEscape n)"

lemma length_hex4 [simp]: "length (uEscape n) = 6"
  by (simp add: uEscape_def)

lemma uEscape_hex4: "uEscape n = backslash # CHR ''u'' # hex4 n"
  by (simp add: uEscape_def)

lemma getu4_hex4:
  assumes "n < 65536"
  shows "getu4 (hex4 n @ t) = Some n"
proof -
  have "n div 256 = n div 16 div 16" "n div 4096 = n div 256 div 16"
    by (simp_all add: div_mult2_eq [symmetric])
  moreover have m: "n div 4096 < 16" using assms by simp
  ultimately have "4096 * (n div 4096) + 256 * (n div 256 mod 16) + 16 * (n div 16 mod 16) + n mod 16 = n"
    using mult_div_mod_eq [of 16 n] mult_div_mod_eq [of 16 "n div 16"]
      mult_div_mod_eq [of 16 "n div 256"] by linarith
  then show ?thesis by (simp add: uEscape_def m)
qed

lemma unquote_uEscape:
  assumes "n < 65536" and "\<not> surrogate n"
  shows "unquote (uEscape n @ t) = prepend (encodeRune n) (unquote t)"
proof -
  have "unquote (backslash # CHR ''u'' # (hex4 n @ t)) = prepend (encodeRune n) (unquote t)"
    using getu4_hex4 [OF assms(1), of t] assms(2) by (simp add: unquote.simps(2))
  then show ?thesis by (metis append_Cons uEscape_hex4)
qed

lemma unquote_unescape:
  assumes "unescape e = Some c" and "e \<noteq> CHR ''u''"
  shows "unquote (backslash # e # t) = prepend [c] (unquote t)"
  using assms by (simp add: unquote.simps(2))

lemma encodeRune_error: "encodeRune 65533 = runeError"
  by (simp add: encodeRune_def runeError_def)

lemma unquote_escAscii:
  assumes "ord c < 128"
  shows "unquote (escAscii c @ t) = prepend [c] (unquote t)"
proof -
  consider "c = dquote \<or> c = backslash" | "ord c = 10" | "ord c = 13" | "ord c = 9"
    | (esc) "\<not> (c = dquote \<or> c = backslash)" "ord c \<noteq> 10" "ord c \<noteq> 13" "ord c \<noteq> 9"
        "ord c < 32 \<or> ord c \<in> {60, 62, 38}"
    | (raw) "\<not> (c = dquote \<or> c = backslash)" "ord c \<noteq> 10" "ord c \<noteq> 13" "ord c \<noteq> 9"
        "\<not> (ord c < 32 \<or> ord c \<in> {60, 62, 38})"
    by blast
  then show ?thesis
  proof cases
    case 1
    then have "escAscii c = [backslash, c]" by (simp add: escAscii_def)
    moreover have "unescape c = Some c" and "c \<noteq> CHR ''u''" using 1 by (auto simp: unescape_def)
    ultimately show ?thesis by (simp add: unquote_unescape)
  next
    case 2
    then have "c = byte 10" by (metis char_of_char)
    then show ?thesis by (simp add: escAscii_def unquote_unescape unescape_def)
  next
    case 3
    then have "c = byte 13" by (metis char_of_char)
    then show ?thesis by (simp add: escAscii_def unquote_unescape unescape_def)
  next
    case 4
    then have "c = byte 9" by (metis char_of_char)
    then show ?thesis by (simp add: escAscii_def unquote_unescape unescape_def)
  next
    case esc
    then have "escAscii c = uEscape (ord c)" by (simp add: escAscii_def)
    moreover have "encodeRune (ord c) = [c]" using assms by (simp add: encodeRune_def)
    ultimately show ?thesis using assms by (simp add: unquote_uEscape surrogate_def)
  next
    case raw
    then have "escAscii c = [c]" by (simp add: escAscii_def)
    with raw assms show ?thesis by (simp add: unquote.simps runeLen_def)
  qed
qed

lemma unquote_multibyte:
  assumes "isRune w" and "length w \<noteq> 1"
  shows "unquote (w @ t) = prepend w (unquote t)"
proof -
  have len: "runeLen w = length w" and pos: "0 < runeLen w"
    using assms by (auto simp: isRune_def)
  obtain a w' where w: "w = a # w'" and high: "128 \<le> ord a"
    using pos by (cases rule: runeLen_cases) (use assms len in auto)
  have "runeLen (a # w' @ t) = Suc (length w')"
    using runeLen_isRune [OF assms(1), of t] by (simp add: w)
  with high show ?thesis
    by (auto simp: w unquote.simps(2))
qed

lemma escRune_multibyte:
  "length w \<noteq> 1 \<Longrightarrow> escRune (Some w) =
     (if w = map byte [226, 128, 168] then uEscape 8232
      else if w = map byte [226, 128, 169] then uEscape 8233 else w)"
  by (cases w rule: remdups_adj.cases) (auto simp: escRune_def)

lemma unquote_escRune:
  assumes "\<forall>w. x = Some w \<longrightarrow> isRune w"
  shows "unquote (escRune x @ t) = prepend (case_option runeError id x) (unquote t)"
proof (cases x)
  case None
  then show ?thesis
    by (simp add: escRune_def unquote_uEscape surrogate_def encodeRune_error)
next
  case (Some w)
  with assms have w: "isRune w" by simp
  show ?thesis
  proof (cases "length w = 1")
    case True
    then obtain c where c: "w = [c]" by (auto simp: length_Suc_conv)
    with w have "ord c < 128" by (auto simp: isRune_def runeLen_def split: if_splits)
    then show ?thesis by (simp add: Some c escRune_def unquote_escAscii)
  next
    case False
    consider "w = map byte [226, 128, 168]" | "w = map byte [226, 128, 169]"
      | "escRune (Some w) = w"
      using escRune_multibyte [OF False] by (auto split: if_splits simp del: list.map)
    then show ?thesis
    proof cases
      case 1
      then have "escRune x = uEscape 8232" and "encodeRune 8232 = w"
        by (simp_all add: Some escRune_def encodeRune_def)
      then show ?thesis by (simp add: Some unquote_uEscape surrogate_def)
    next
      case 2
      then have "escRune x = uEscape 8233" and "encodeRune 8233 = w"
        by (simp_all add: Some escRune_def encodeRune_def)
      then show ?thesis by (simp add: Some unquote_uEscape surrogate_def)
    next
      case 3
      then show ?thesis using unquote_multibyte [OF w False] by (simp add: Some)
    qed
  qed
qed

lemma prepend_Some [simp]: "prepend w (Some (x, y)) = Some (w @ x, y)"
  by (simp add: prepend_def)

lemma unquote_escRunes:
  assumes "\<forall>w. Some w \<in> set xs \<longrightarrow> isRune w"
  shows "unquote (concat (map escRune xs) @ dquote # t)
    = Some (concat (map (case_option runeError id) xs), t)"
  using assms
  by (induction xs) (auto simp: unquote.simps(2) [of dquote] unquote_escRune)

lemma unquote_quoteString:
  "unquote (tl (quoteString s) @ t) = Some (sanitize s, t)"
  by (simp add: quoteString_def sanitize_def unquote_escRunes runes_are_runes)

lemma quoteString_eq: "quoteString s @ t = dquote # tl (quoteString s) @ t"
  by (simp add: quoteString_def)

text \<open>Whatever a literal holds, its value is valid UTF-8.\<close>

lemma prepend_SomeE:
  assumes "prepend w r = Some (x, y)"
  obtains x' where "r = Some (x', y)" and "x = w @ x'"
  using assms by (cases r) (auto simp: prepend_def)

lemma hexVal_less: "hexVal c = Some n \<Longrightarrow> n < 16"
  by (auto simp: hexVal_def split: if_splits)

lemma getu4_less: "getu4 s = Some n \<Longrightarrow> n < 65536"
  by (induction s rule: getu4.induct) (auto split: option.splits dest!: hexVal_less)

lemma pairWith_range: "pairWith r s = Some q \<Longrightarrow> surrogate r \<Longrightarrow> 65536 \<le> q \<and> q < 1114112"
  by (auto simp: pairWith_def surrogate_def split: list.splits if_splits option.splits)

lemma unescape_ascii: "unescape e = Some c \<Longrightarrow> ord c < 128"
  by (auto simp: unescape_def split: if_splits)

text \<open>One step of the literal: it ends, or one rune is cut off.\<close>

lemma unquote_step:
  assumes "unquote (a # s) = Some (x, r)"
  shows "x = [] \<and> r = s \<or>
    (\<exists>w x' s'. isRune w \<and> x = w @ x' \<and> unquote s' = Some (x', r) \<and> length s' \<le> length s)"
proof -
  have run: "isRune (encodeRune n)" if "getu4 u = Some n" "\<not> surrogate n" for u n
    using that getu4_less [of u n] by (intro isRune_encodeRune) (auto simp: surrogate_def)
  have pair: "isRune (encodeRune q)" if "pairWith n u = Some q" "surrogate n" for u n q
    using pairWith_range [OF that] by (intro isRune_encodeRune) auto
  consider "a = dquote" | (esc) "a = backslash" "a \<noteq> dquote"
    | (raw) "a \<noteq> dquote" "a \<noteq> backslash" by blast
  then show ?thesis
  proof cases
    case 1
    with assms show ?thesis by (simp add: unquote.simps(2))
  next
    case esc
    then obtain e s' where s: "s = e # s'"
      using assms by (cases s) (auto simp: unquote.simps)
    show ?thesis
    proof (cases "e = CHR ''u''")
      case True
      then obtain n where n: "getu4 s' = Some n"
        using assms esc by (cases "getu4 s'") (auto simp: unquote.simps(2) s)
      have le: "length (drop k s') \<le> length s" for k by (simp add: s)
      show ?thesis
      proof (cases "surrogate n")
        case True
        show ?thesis
        proof (cases "pairWith n (drop 4 s')")
          case None
          then have "prepend runeError (unquote (drop 4 s')) = Some (x, r)"
            using assms esc n True \<open>e = CHR ''u''\<close> by (simp add: unquote.simps(2) s)
          then show ?thesis using le isRune_runeError by (elim prepend_SomeE) blast
        next
          case (Some q)
          then have "prepend (encodeRune q) (unquote (drop 10 s')) = Some (x, r)"
            using assms esc n True \<open>e = CHR ''u''\<close> by (simp add: unquote.simps(2) s)
          then show ?thesis using le pair [OF Some True] by (elim prepend_SomeE) blast
        qed
      next
        case False
        then have "prepend (encodeRune n) (unquote (drop 4 s')) = Some (x, r)"
          using assms esc n \<open>e = CHR ''u''\<close> by (simp add: unquote.simps(2) s)
        then show ?thesis using le run [OF n False] by (elim prepend_SomeE) blast
      qed
    next
      case False
      then obtain c where "unescape e = Some c" and "prepend [c] (unquote s') = Some (x, r)"
        using assms esc by (cases "unescape e") (auto simp: unquote.simps(2) s)
      moreover have "isRune [c]" and "length s' \<le> length s"
        using calculation(1) unescape_ascii [of e c] by (simp_all add: s)
      ultimately show ?thesis by (elim prepend_SomeE) blast
    qed
  next
    case raw
    show ?thesis
    proof (cases "runeLen (a # s) = 0")
      case True
      with assms raw have "prepend runeError (unquote s) = Some (x, r)"
        by (simp add: unquote.simps(2) split: if_splits)
      then show ?thesis by (auto elim!: prepend_SomeE intro: isRune_runeError)
    next
      case False
      with assms raw have "prepend (take (runeLen (a # s)) (a # s))
          (unquote (drop (runeLen (a # s) - 1) s)) = Some (x, r)"
        by (simp add: unquote.simps(2) split: if_splits)
      moreover have "isRune (take (runeLen (a # s)) (a # s))"
        using False by (intro isRune_take) simp
      ultimately show ?thesis
        by (elim prepend_SomeE) (metis diff_le_self length_drop)
    qed
  qed
qed

lemma unquote_valid: "unquote s = Some (x, r) \<Longrightarrow> validUtf8 x"
proof (induction s arbitrary: x rule: length_induct)
  case (1 s)
  then obtain a s1 where "s = a # s1" by (cases s) auto
  with 1 unquote_step [of a s1 x r] show ?case
    by (auto simp: less_Suc_eq_le)
qed

lemma unquote_length: "unquote s = Some (x, r) \<Longrightarrow> length r < length s"
proof (induction s arbitrary: x rule: length_induct)
  case (1 s)
  then obtain a s1 where "s = a # s1" by (cases s) auto
  with 1 unquote_step [of a s1 x r] show ?case
    by (auto simp: less_Suc_eq_le)
qed

section \<open>Fuel\<close>

text \<open>Every scanner leaves less text than it was given.\<close>

lemma skipWs_length: "length (skipWs s) \<le> length s"
  by (simp add: skipWs_def length_dropWhile_le)

lemma skipWs_Cons: "skipWs s = c # r \<Longrightarrow> length r < length s"
  using skipWs_length [of s] by simp

lemma scanDigits_length: "scanDigits s = Some (l, r) \<Longrightarrow> length r < length s"
proof -
  assume "scanDigits s = Some (l, r)"
  then have "takeWhile is_digit s \<noteq> []" and r: "r = dropWhile is_digit s"
    by (auto simp: scanDigits_def split: if_splits)
  moreover have "length (takeWhile is_digit s) + length (dropWhile is_digit s) = length s"
    by (metis length_append takeWhile_dropWhile_id)
  ultimately show "length r < length s"
    by (cases "takeWhile is_digit s") auto
qed

lemma scanInt_length: "scanInt s = Some (l, r) \<Longrightarrow> length r < length s"
  by (auto simp: scanInt_def split: list.splits if_splits dest: scanDigits_length)

lemma scanFrac_length: "scanFrac s = Some (l, r) \<Longrightarrow> length r \<le> length s"
  by (auto simp: scanFrac_def split: list.splits if_splits
      elim!: prepend_SomeE dest!: scanDigits_length)

lemma scanExp_length: "scanExp s = Some (l, r) \<Longrightarrow> length r \<le> length s"
  by (auto simp: scanExp_def split: list.splits if_splits
      elim!: prepend_SomeE dest!: scanDigits_length)

lemma scanNumber_length:
  assumes "scanNumber s = Some (l, r)"
  shows "length r < length s"
proof -
  define s0 where "s0 = snd (case s of c # s' \<Rightarrow> if c = CHR ''-'' then ([c], s') else ([], s) | [] \<Rightarrow> ([], s))"
  have "length s0 \<le> length s"
    by (auto simp: s0_def split: list.splits)
  moreover obtain i s1 f s2 e where "scanInt s0 = Some (i, s1)" "scanFrac s1 = Some (f, s2)"
    "scanExp s2 = Some (e, r)"
    using assms
    by (auto simp: scanNumber_def s0_def Let_def split: prod.splits option.splits)
  ultimately show ?thesis
    using scanInt_length scanFrac_length scanExp_length by fastforce
qed

lemma parse_length:
  "parseValue n s = Some (v, r) \<Longrightarrow> length r < length s"
  "parseElems n s = Some (es, r) \<Longrightarrow> length r < length s"
  "parseMembers n s = Some (ms, r) \<Longrightarrow> length r < length s"
proof (induction n s and n s and n s arbitrary: v r and es r and ms r
    rule: parseValue_parseElems_parseMembers.induct)
  case (2 n s)
  from "2.prems" obtain c t where s: "skipWs s = c # t"
    by (cases "skipWs s") auto
  have t: "length t < length s" by (rule skipWs_Cons [OF s])
  have "length r \<le> length t"
    using "2.prems" "2.IH" s
    by (auto split: if_splits list.splits
        dest!: unquote_length scanNumber_length skipWs_Cons) (meson less_imp_le refl)+
  with t show ?case by simp
next
  case (4 n s)
  from "4.prems" obtain v' r1 where v: "parseValue n s = Some (v', r1)"
    by (auto split: option.splits)
  have r1: "length r1 < length s" by (rule "4.IH"(1) [OF v])
  from "4.prems" v obtain c t where t: "skipWs r1 = c # t"
    by (cases "skipWs r1") auto
  have "length r \<le> length t"
    using "4.prems" v t "4.IH"(2) [OF v refl t] by (auto split: if_splits)
  with r1 skipWs_Cons [OF t] show ?case by simp
next
  case (6 n s)
  from "6.prems" obtain s1 where s1: "skipWs s = dquote # s1"
    by (auto split: list.splits if_splits)
  with "6.prems" obtain k s2 where s2: "unquote s1 = Some (k, s2)"
    by (auto split: option.splits)
  with s1 "6.prems" obtain s3 where s3: "skipWs s2 = CHR '':'' # s3"
    by (auto split: list.splits if_splits)
  with s1 s2 "6.prems" obtain v' r1 where v: "parseValue n s3 = Some (v', r1)"
    by (auto split: option.splits)
  with s1 s2 s3 "6.prems" obtain c t where t: "skipWs r1 = c # t"
    by (cases "skipWs r1") auto
  have "length r1 < length s3"
    using "6.IH"(1) [OF s1 _ s2 refl s3 _ v] by simp
  moreover have "length r \<le> length t"
    using "6.prems" s1 s2 s3 v t "6.IH"(2) [OF s1 _ s2 refl s3 _ v refl t] by (auto split: if_splits)
  ultimately show ?case
    using skipWs_Cons [OF s1] unquote_length [OF s2] skipWs_Cons [OF s3] skipWs_Cons [OF t] by simp
qed auto

lemma parse_fuel:
  "2 * length s + 1 \<le> n \<Longrightarrow> 2 * length s + 1 \<le> m \<Longrightarrow> parseValue n s = parseValue m s"
  "2 * length s + 2 \<le> n \<Longrightarrow> 2 * length s + 2 \<le> m \<Longrightarrow> parseElems n s = parseElems m s"
  "2 * length s + 2 \<le> n \<Longrightarrow> 2 * length s + 2 \<le> m \<Longrightarrow> parseMembers n s = parseMembers m s"
proof (induction n arbitrary: m s)
  case (Suc n)
  {
    case 1
    then obtain k where m: "m = Suc k" by (cases m) auto
    have el: "parseElems n t = parseElems k t" "parseMembers n t = parseMembers k t"
      if "skipWs s = c # t" for c t
      using skipWs_Cons [OF that] 1 m by (auto intro!: Suc.IH(2,3))
    show ?case
      by (cases "skipWs s") (simp_all add: m el split: list.splits)
  next
    case 2
    then obtain k where m: "m = Suc k" by (cases m) auto
    have v: "parseValue n s = parseValue k s"
      using 2 m by (intro Suc.IH(1)) auto
    have el: "parseElems n t = parseElems k t" if "parseValue k s = Some (x, r)" "skipWs r = c # t" for x r c t
      using parse_length(1) [OF that(1)] skipWs_Cons [OF that(2)] 2 m by (intro Suc.IH(2)) auto
    show ?case
      by (auto simp: m v el split: option.splits list.splits)
  next
    case 3
    then obtain k where m: "m = Suc k" by (cases m) auto
    have v: "parseValue n s3 = parseValue k s3"
      if "skipWs s = q # s1" "unquote s1 = Some (x, s2)" "skipWs s2 = c # s3" for q s1 x s2 c s3
      using skipWs_Cons [OF that(1)] unquote_length [OF that(2)] skipWs_Cons [OF that(3)] 3 m
      by (intro Suc.IH(1)) auto
    have el: "parseMembers n t = parseMembers k t"
      if "skipWs s = q # s1" "unquote s1 = Some (x, s2)" "skipWs s2 = c # s3"
        "parseValue k s3 = Some (y, r)" "skipWs r = d # t" for q s1 x s2 c s3 y r d t
      using skipWs_Cons [OF that(1)] unquote_length [OF that(2)] skipWs_Cons [OF that(3)]
        parse_length(1) [OF that(4)] skipWs_Cons [OF that(5)] 3 m
      by (intro Suc.IH(3)) auto
    show ?case
      by (auto simp: m v el split: option.splits list.splits)
  }
qed auto

section \<open>A printed value parses back\<close>

fun cleanJson :: "json \<Rightarrow> json" where
  "cleanJson (JStr s) = JStr (sanitize s)"
| "cleanJson (JArr es) = JArr (map cleanJson es)"
| "cleanJson (JObj ms) = JObj (map (\<lambda>(k, v). (sanitize k, cleanJson v)) ms)"
| "cleanJson j = j"

text \<open>The only numbers the sources print are integers.\<close>

fun intsOnly :: "json \<Rightarrow> bool" where
  "intsOnly (JNum l) = (\<exists>i. l = decInt i)"
| "intsOnly (JArr es) = (\<forall>e \<in> set es. intsOnly e)"
| "intsOnly (JObj ms) = (\<forall>(k, v) \<in> set ms. intsOnly v)"
| "intsOnly j = True"

definition delim :: "string \<Rightarrow> bool" where
  "delim r \<longleftrightarrow> r = [] \<or> hd r \<in> {CHR '','', CHR ''}'', CHR '']''}"

lemma skipWs_Cons_id [simp]: "\<not> isSpace c \<Longrightarrow> skipWs (c # s) = c # s"
  by (simp add: skipWs_def)

lemma punct_not_space [simp]:
  "\<not> isSpace dquote" "\<not> isSpace (CHR ''{'')" "\<not> isSpace (CHR ''}'')" "\<not> isSpace (CHR ''['')"
  "\<not> isSpace (CHR '']'')" "\<not> isSpace (CHR '','')" "\<not> isSpace (CHR '':'')" "\<not> isSpace (CHR ''t'')"
  "\<not> isSpace (CHR ''f'')" "\<not> isSpace (CHR ''n'')" "\<not> isSpace (CHR ''-'')"
  by (simp_all add: isSpace_def)

lemma digit_not_space: "is_digit c \<Longrightarrow> \<not> isSpace c"
  by (auto simp: is_digit_def isSpace_def)

lemma hd_dec_zero: "hd (dec n) = CHR ''0'' \<Longrightarrow> n = 0"
proof (induction n rule: dec.induct)
  case (1 n)
  show ?case
  proof (cases "n < 10")
    case True
    with "1.prems" have "byte (48 + n) = CHR ''0''" by (simp add: dec.simps)
    then have "ord (byte (48 + n)) = ord (CHR ''0'')" by simp
    with True show ?thesis by simp
  next
    case False
    then have "hd (dec n) = hd (dec (n div 10))" by (subst dec.simps) simp
    with False "1.IH" "1.prems" show ?thesis by simp
  qed
qed

lemma delim_not_digit: "delim r \<Longrightarrow> r = [] \<or> \<not> is_digit (hd r)"
  by (auto simp: delim_def is_digit_def)

lemma takeWhile_dec_delim: "delim r \<Longrightarrow> takeWhile is_digit (dec n @ r) = dec n"
  "delim r \<Longrightarrow> dropWhile is_digit (dec n @ r) = r"
  using dec_digits [of n] delim_not_digit [of r]
  by (cases r; simp add: takeWhile_append2 dropWhile_append2 list_all_iff)+

lemma scanInt_dec:
  assumes "delim r"
  shows "scanInt (dec n @ r) = Some (dec n, r)"
proof -
  obtain c t where c: "dec n = c # t" by (cases "dec n") auto
  show ?thesis
  proof (cases "c = CHR ''0''")
    case True
    then have "n = 0" using hd_dec_zero [of n] c by simp
    moreover have "byte 48 = CHR ''0''" by (rule of_char_eq_iff [where ?'a = nat, THEN iffD1]) simp
    ultimately show ?thesis by (simp add: dec.simps scanInt_def)
  next
    case False
    then show ?thesis
      using takeWhile_dec_delim [OF assms, of n]
      by (simp add: scanInt_def scanDigits_def c split: list.splits)
  qed
qed

lemma scan_delim: "delim r \<Longrightarrow> scanFrac r = Some ([], r)" "delim r \<Longrightarrow> scanExp r = Some ([], r)"
  by (cases r; auto simp: scanFrac_def scanExp_def delim_def)+

lemma scanNumber_decInt:
  assumes "delim r"
  shows "scanNumber (decInt i @ r) = Some (decInt i, r)"
proof (cases "i < 0")
  case True
  then show ?thesis
    by (simp add: decInt_def scanNumber_def scanInt_dec scan_delim assms)
next
  case False
  obtain c t where c: "dec (nat i) = c # t" by (cases "dec (nat i)") auto
  then have "c \<noteq> CHR ''-''" using hd_dec_not_sign(1) [of "nat i"] by simp
  then have "(case dec (nat i) @ r of c # s' \<Rightarrow> if c = CHR ''-'' then ([c], s') else ([], dec (nat i) @ r)
      | [] \<Rightarrow> ([], dec (nat i) @ r)) = ([], dec (nat i) @ r)"
    by (simp add: c)
  with False show ?thesis
    by (simp add: decInt_def scanNumber_def scanInt_dec scan_delim assms)
qed

lemma parseValue_decInt:
  assumes "delim r"
  shows "parseValue (Suc n) (decInt i @ r) = Some (JNum (decInt i), r)"
proof -
  obtain c t where c: "decInt i = c # t"
    by (cases "decInt i") (auto simp: decInt_def split: if_splits)
  have "is_digit c \<or> c = CHR ''-''"
    using c hd_dec_digit [of "nat i"] by (auto simp: decInt_def split: if_splits)
  then have "\<not> isSpace c" "c \<noteq> dquote" "c \<noteq> CHR ''{''" "c \<noteq> CHR ''[''" "c \<noteq> CHR ''t''"
    "c \<noteq> CHR ''f''" "c \<noteq> CHR ''n''"
    by (auto simp: digit_not_space is_digit_def)
  then show ?thesis
    using scanNumber_decInt [OF assms, of i] by (simp add: c HasPrefix_def)
qed

abbreviation printMember :: "string \<times> json \<Rightarrow> string" where
  "printMember \<equiv> \<lambda>(k, v). quoteString k @ '':'' @ printJson v"

lemma parseMembers_Cons:
  assumes "parseValue n (printJson v @ t) = Some (cleanJson v, t)"
  shows "parseMembers (Suc n) (printMember (k, v) @ t) =
    (case skipWs t of
       [] \<Rightarrow> None
     | d # r' \<Rightarrow>
         if d = CHR ''}'' then Some ([(sanitize k, cleanJson v)], r')
         else if d = CHR '','' then
           map_option (\<lambda>(ms, r''). ((sanitize k, cleanJson v) # ms, r'')) (parseMembers n r')
         else None)"
proof -
  define q where "q = tl (quoteString k)"
  have q: "printMember (k, v) @ t = dquote # q @ CHR '':'' # printJson v @ t"
    using quoteString_eq [of k "[]"] by (simp add: q_def)
  have "unquote (q @ CHR '':'' # printJson v @ t) = Some (sanitize k, CHR '':'' # printJson v @ t)"
    unfolding q_def by (rule unquote_quoteString)
  with assms show ?thesis unfolding q by simp
qed

lemma delim_Cons [simp]: "delim (c # r) \<longleftrightarrow> c \<in> {CHR '','', CHR ''}'', CHR '']''}"
  by (simp add: delim_def)

lemma parseMembers_print:
  assumes "\<And>k v t m. (k, v) \<in> set ms \<Longrightarrow> delim t \<Longrightarrow> 2 * length (printJson v) + 1 \<le> m \<Longrightarrow>
      parseValue m (printJson v @ t) = Some (cleanJson v, t)"
    and "ms \<noteq> []" and "2 * length (Join (map printMember ms) '','') + 2 \<le> n"
  shows "parseMembers n (Join (map printMember ms) '','' @ CHR ''}'' # r)
    = Some (map (\<lambda>(k, v). (sanitize k, cleanJson v)) ms, r)"
  using assms(2,1,3)
proof (induction ms arbitrary: n rule: list_nonempty_induct)
  case (single m)
  obtain k v where m: "m = (k, v)" by (cases m)
  obtain i where n: "n = Suc i" using single.prems by (cases n) auto
  have "parseValue i (printJson v @ CHR ''}'' # r) = Some (cleanJson v, CHR ''}'' # r)"
    using single.prems by (intro single.prems(1) [of k]) (auto simp: m n)
  from parseMembers_Cons [OF this, of k] show ?case by (simp add: m n)
next
  case (cons m ms)
  obtain k v where m: "m = (k, v)" by (cases m)
  obtain i where n: "n = Suc i" using cons.prems by (cases n) auto
  let ?rest = "Join (map printMember ms) '','' @ CHR ''}'' # r"
  have len: "2 * length (printJson v) + 1 \<le> i" "2 * length (Join (map printMember ms) '','') + 2 \<le> i"
    using cons.prems(2) cons.hyps by (auto simp: m n Join_Cons)
  have "parseValue i (printJson v @ CHR '','' # ?rest) = Some (cleanJson v, CHR '','' # ?rest)"
    using len by (intro cons.prems(1) [of k]) (auto simp: m)
  moreover have "parseMembers i ?rest = Some (map (\<lambda>(k, v). (sanitize k, cleanJson v)) ms, r)"
    using len cons.prems(1) by (intro cons.IH) auto
  ultimately show ?case
    using parseMembers_Cons [of i v "CHR '','' # ?rest" k] cons.hyps by (simp add: m n Join_Cons)
qed

lemma parseElems_print:
  assumes "\<And>e t m. e \<in> set es \<Longrightarrow> delim t \<Longrightarrow> 2 * length (printJson e) + 1 \<le> m \<Longrightarrow>
      parseValue m (printJson e @ t) = Some (cleanJson e, t)"
    and "es \<noteq> []" and "2 * length (Join (map printJson es) '','') + 2 \<le> n"
  shows "parseElems n (Join (map printJson es) '','' @ CHR '']'' # r) = Some (map cleanJson es, r)"
  using assms(2,1,3)
proof (induction es arbitrary: n rule: list_nonempty_induct)
  case (single e)
  obtain i where n: "n = Suc i" using single.prems by (cases n) auto
  have "parseValue i (printJson e @ CHR '']'' # r) = Some (cleanJson e, CHR '']'' # r)"
    using single.prems by (intro single.prems(1)) (auto simp: n)
  then show ?case by (simp add: n)
next
  case (cons e es)
  obtain i where n: "n = Suc i" using cons.prems by (cases n) auto
  let ?rest = "Join (map printJson es) '','' @ CHR '']'' # r"
  have len: "2 * length (printJson e) + 1 \<le> i" "2 * length (Join (map printJson es) '','') + 2 \<le> i"
    using cons.prems(2) cons.hyps by (auto simp: n Join_Cons)
  have "parseValue i (printJson e @ CHR '','' # ?rest) = Some (cleanJson e, CHR '','' # ?rest)"
    using len by (intro cons.prems(1)) auto
  moreover have "parseElems i ?rest = Some (map cleanJson es, r)"
    using len cons.prems(1) by (intro cons.IH) auto
  ultimately show ?case using cons.hyps by (simp add: n Join_Cons)
qed

text \<open>No printed value starts with a closing bracket or with white space.\<close>

lemma printJson_first:
  assumes "intsOnly j"
  shows "\<exists>c t. printJson j = c # t \<and> c \<noteq> CHR '']'' \<and> \<not> isSpace c"
proof (cases j)
  case (JNum l)
  with assms obtain i where l: "l = decInt i" by auto
  obtain c t where c: "decInt i = c # t"
    by (cases "decInt i") (auto simp: decInt_def split: if_splits)
  have "is_digit c \<or> c = CHR ''-''"
    using c hd_dec_digit [of "nat i"] by (auto simp: decInt_def split: if_splits)
  then have "c \<noteq> CHR '']''" "\<not> isSpace c" by (auto simp: digit_not_space is_digit_def)
  with c JNum l show ?thesis by simp
qed (auto simp: quoteString_def)

lemma Join_first: "ps \<noteq> [] \<Longrightarrow> hd ps = c # t \<Longrightarrow> \<exists>u. Join ps sep = c # u"
  by (cases ps; cases "tl ps") auto

lemma parseValue_print:
  "intsOnly j \<Longrightarrow> delim r \<Longrightarrow> 2 * length (printJson j) + 1 \<le> n \<Longrightarrow>
   parseValue n (printJson j @ r) = Some (cleanJson j, r)"
proof (induction j arbitrary: r n)
  case (JNum l)
  then obtain i where "n = Suc i" by (cases n) auto
  with JNum show ?case by (auto simp: parseValue_decInt simp del: parseValue.simps)
next
  case (JStr s)
  then obtain i where n: "n = Suc i" by (cases n) auto
  obtain q where q: "quoteString s = dquote # q" by (simp add: quoteString_def)
  with unquote_quoteString [of s r] show ?case by (simp add: n)
next
  case (JArr es)
  then obtain i where n: "n = Suc i" by (cases n) auto
  show ?case
  proof (cases "es = []")
    case True
    then show ?thesis by (simp add: n)
  next
    case False
    let ?body = "Join (map printJson es) '',''"
    have "parseElems i (?body @ CHR '']'' # r) = Some (map cleanJson es, r)"
      using JArr False by (intro parseElems_print) (auto simp: n)
    moreover obtain c t where "?body = c # t" "c \<noteq> CHR '']''" "\<not> isSpace c"
    proof -
      from False obtain e es' where es: "es = e # es'" by (cases es) auto
      with JArr.prems obtain c t where "printJson e = c # t" "c \<noteq> CHR '']''" "\<not> isSpace c"
        using printJson_first [of e] by auto
      with es that Join_first [of "map printJson es" c t "'',''"] show thesis by auto
    qed
    ultimately show ?thesis by (simp add: n)
  qed
next
  case (JObj ms)
  then obtain i where n: "n = Suc i" by (cases n) auto
  show ?case
  proof (cases "ms = []")
    case True
    then show ?thesis by (simp add: n)
  next
    case False
    let ?body = "Join (map printMember ms) '',''"
    have "parseMembers i (?body @ CHR ''}'' # r)
        = Some (map (\<lambda>(k, v). (sanitize k, cleanJson v)) ms, r)"
      using JObj False by (intro parseMembers_print) (force simp: n)+
    moreover obtain t where "?body = dquote # t"
    proof -
      from False obtain k v ms' where "ms = (k, v) # ms'" by (cases ms) auto
      with that Join_first [of "map printMember ms" dquote _ "'',''"] show thesis
        by (auto simp: quoteString_def)
    qed
    ultimately show ?thesis by (simp add: n)
  qed
next
  case (JBool b)
  then obtain i where "n = Suc i" by (cases n) auto
  then show ?case by (simp add: HasPrefix_def)
next
  case JNull
  then obtain i where "n = Suc i" by (cases n) auto
  then show ?case by (simp add: HasPrefix_def)
qed

lemma parseJson_printJson:
  "intsOnly j \<Longrightarrow> parseJson (printJson j) = Some (cleanJson j)"
  using parseValue_print [of j "[]" "2 * length (printJson j) + 1"]
  by (simp add: parseJson_def delim_def skipWs_def)

text \<open>Every string in a parsed value is valid UTF-8.\<close>

fun validJson :: "json \<Rightarrow> bool" where
  "validJson (JStr s) = validUtf8 s"
| "validJson (JArr es) = (\<forall>e \<in> set es. validJson e)"
| "validJson (JObj ms) = (\<forall>(k, v) \<in> set ms. validUtf8 k \<and> validJson v)"
| "validJson j = True"

lemma parse_valid:
  "parseValue n s = Some (v, r) \<Longrightarrow> validJson v"
  "parseElems n s = Some (es, r) \<Longrightarrow> \<forall>e \<in> set es. validJson e"
  "parseMembers n s = Some (ms, r) \<Longrightarrow> \<forall>m \<in> set ms. validUtf8 (fst m) \<and> validJson (snd m)"
proof (induction n arbitrary: s v r es ms)
  case (Suc n)
  {
    case 1
    then show ?case
      by (auto simp: case_prod_beta split: list.splits if_splits
          dest!: Suc.IH(2,3) dest: unquote_valid)
  next
    case 2
    then show ?case
      by (auto split: option.splits list.splits if_splits dest!: Suc.IH(1,2))
  next
    case 3
    then show ?case
      by (auto split: option.splits list.splits if_splits dest!: Suc.IH(1,3))
        (fastforce dest: unquote_valid)+
  }
qed auto

lemma parseJson_valid: "parseJson s = Some v \<Longrightarrow> validJson v"
  by (auto simp: parseJson_def split: option.splits if_splits dest: parse_valid(1)
      simp del: parseValue.simps)

section \<open>Filling structs\<close>

text \<open>
  How an object key finds a struct field: upper and lower case letters count as the
  same, and the long s and the Kelvin sign count as \<^verbatim>\<open>s\<close> and \<^verbatim>\<open>k\<close>. No two fields of a
  struct in the sources have names that are the same in this sense, so the preference for
  an exact match never matters.
\<close>

definition upper :: "char \<Rightarrow> nat" where
  "upper c = (if 97 \<le> ord c \<and> ord c \<le> 122 then ord c - 32 else ord c)"

fun foldMatch :: "string \<Rightarrow> string \<Rightarrow> bool" where
  "foldMatch [] t = (t = [])"
| "foldMatch (c # s) t =
     (case t of
        [] \<Rightarrow> False
      | d # t' \<Rightarrow>
          if ord d < 128 then upper c = upper d \<and> foldMatch s t'
          else if upper c = 83 \<and> HasPrefix t (map byte [197, 191]) then foldMatch s (drop 2 t)
          else if upper c = 75 \<and> HasPrefix t (map byte [226, 132, 170]) then foldMatch s (drop 3 t)
          else False)"

text \<open>
  Storing a value into a field: the new value and whether the type fits. \<^verbatim>\<open>null\<close> leaves a
  field alone; a value of another type is skipped and reported at the end.
\<close>

definition intoString :: "json \<Rightarrow> string \<Rightarrow> string \<times> bool" where
  "intoString v old = (case v of JStr s \<Rightarrow> (s, True) | JNull \<Rightarrow> (old, True) | _ \<Rightarrow> (old, False))"

definition intoInt :: "json \<Rightarrow> int \<Rightarrow> int \<times> bool" where
  "intoInt v old =
     (case v of
        JNum l \<Rightarrow> (case Atoi l of Inr i \<Rightarrow> (i, True) | Inl _ \<Rightarrow> (old, False))
      | JNull \<Rightarrow> (old, True)
      | _ \<Rightarrow> (old, False))"

definition intoBool :: "json \<Rightarrow> bool \<Rightarrow> bool \<times> bool" where
  "intoBool v old = (case v of JBool b \<Rightarrow> (b, True) | JNull \<Rightarrow> (old, True) | _ \<Rightarrow> (old, False))"

text \<open>
  An object into a struct, member by member, later members over earlier ones; \<open>field\<close>
  stores one member.
\<close>

fun intoFields :: "(string \<Rightarrow> json \<Rightarrow> 'a \<Rightarrow> 'a \<times> bool) \<Rightarrow> (string \<times> json) list \<Rightarrow> 'a \<Rightarrow> 'a \<times> bool" where
  "intoFields field [] x = (x, True)"
| "intoFields field ((k, v) # ms) x =
     (case field k v x of (x', ok) \<Rightarrow>
        (case intoFields field ms x' of (x'', ok') \<Rightarrow> (x'', ok \<and> ok')))"

definition intoStruct :: "(string \<Rightarrow> json \<Rightarrow> 'a \<Rightarrow> 'a \<times> bool) \<Rightarrow> json \<Rightarrow> 'a \<Rightarrow> 'a \<times> bool" where
  "intoStruct field v x =
     (case v of JObj ms \<Rightarrow> intoFields field ms x | JNull \<Rightarrow> (x, True) | _ \<Rightarrow> (x, False))"

text \<open>\<^verbatim>\<open>json.Unmarshal(data, &x)\<close> for a struct: the filled struct and the error, if any.\<close>

definition unmarshalStruct ::
    "(string \<Rightarrow> json \<Rightarrow> 'a \<Rightarrow> 'a \<times> bool) \<Rightarrow> string \<Rightarrow> 'a \<Rightarrow> 'a \<times> error option" where
  "unmarshalStruct field data x =
     (case parseJson data of
        None \<Rightarrow> (x, Some JsonSyntaxError)
      | Some v \<Rightarrow>
          (case intoStruct field v x of
             (x', ok) \<Rightarrow> (x', if ok then None else Some JsonTypeError)))"

lemma foldMatch_refl: "\<forall>c \<in> set s. ord c < 128 \<Longrightarrow> foldMatch s s"
  by (induction s) auto

lemma intoString_valid:
  "validJson v \<Longrightarrow> validUtf8 old \<Longrightarrow> validUtf8 (fst (intoString v old))"
  by (cases v) (auto simp: intoString_def)

lemma intoFields_invariant:
  assumes "\<And>k v x. (k, v) \<in> set ms \<Longrightarrow> P x \<Longrightarrow> P (fst (field k v x))" and "P x"
  shows "P (fst (intoFields field ms x))"
  using assms
proof (induction ms arbitrary: x)
  case (Cons m ms)
  obtain k v where m: "m = (k, v)" by (cases m)
  have "P (fst (field k v x))" using Cons.prems by (simp add: m)
  with Cons have "P (fst (intoFields field ms (fst (field k v x))))" by simp
  then show ?case by (simp add: m split: prod.splits) (metis fst_conv)
qed simp

lemma unmarshalStruct_valid:
  assumes "\<And>k v x. validJson v \<Longrightarrow> P x \<Longrightarrow> P (fst (field k v x))" and "P x"
  shows "P (fst (unmarshalStruct field data x))"
proof (cases "parseJson data")
  case None
  with assms(2) show ?thesis by (simp add: unmarshalStruct_def)
next
  case (Some v)
  then have v: "validJson v" by (rule parseJson_valid)
  have "P (fst (intoStruct field v x))"
  proof (cases v)
    case (JObj ms)
    have "P (fst (intoFields field ms x))"
      by (rule intoFields_invariant) (use v JObj assms in auto)
    then show ?thesis by (simp add: intoStruct_def JObj)
  qed (use assms(2) in \<open>auto simp: intoStruct_def\<close>)
  with Some show ?thesis
    by (auto simp: unmarshalStruct_def split: prod.splits)
qed

declare printJson.simps [simp del] parseValue.simps [simp del]
  parseElems.simps [simp del] parseMembers.simps [simp del]

end
