(* ===== verification/Messages.thy ===== *)
theory Messages
  imports Go_Json Cron "HOL-Library.Char_ord" "HOL-Library.List_Lexorder" "HOL-Library.AList"
begin

text \<open>
  The structs that travel as JSON: the \<^verbatim>\<open>Action\<close> of \<^verbatim>\<open>src/dcrontab/commander.go\<close> (the raft
  log entries, the queries and the records of a snapshot), the \<^verbatim>\<open>Command\<close> of
  \<^verbatim>\<open>src/dcrontab/main.go\<close> (a job, stored as the value of a key), and the map from keys to
  values that a scan returns. For each, what \<^verbatim>\<open>json.Marshal\<close> writes, what
  \<^verbatim>\<open>json.Unmarshal\<close> reads, and that reading inverts writing.
\<close>

section \<open>Action\<close>

record Action =
  Action_Action :: string
  Action_Key :: string
  Action_Val :: string

definition emptyAction :: Action where
  "emptyAction = \<lparr>Action_Action = '''', Action_Key = '''', Action_Val = ''''\<rparr>"

definition marshalAction :: "Action \<Rightarrow> bytes" where
  "marshalAction a = printJson (JObj
     [(''Action'', JStr (Action_Action a)), (''Key'', JStr (Action_Key a)), (''Val'', JStr (Action_Val a))])"

definition actionField :: "string \<Rightarrow> json \<Rightarrow> Action \<Rightarrow> Action \<times> bool" where
  "actionField k v a =
     (if foldMatch ''Action'' k then
        (case intoString v (Action_Action a) of (s, ok) \<Rightarrow> (a\<lparr>Action_Action := s\<rparr>, ok))
      else if foldMatch ''Key'' k then
        (case intoString v (Action_Key a) of (s, ok) \<Rightarrow> (a\<lparr>Action_Key := s\<rparr>, ok))
      else if foldMatch ''Val'' k then
        (case intoString v (Action_Val a) of (s, ok) \<Rightarrow> (a\<lparr>Action_Val := s\<rparr>, ok))
      else (a, True))"

definition unmarshalAction :: "bytes \<Rightarrow> Action \<Rightarrow> Action \<times> error option" where
  "unmarshalAction data a = unmarshalStruct actionField data a"

section \<open>Command\<close>

record Command =
  Command_Type :: string
  Command_Exec :: string
  Command_Args :: string
  Command_Timeout :: int
  Command_Secure :: bool
  Command_Retry :: int
  Command_Critical :: bool
  Command_Cron :: Cron
  Command_Comment :: string

definition emptyCron :: Cron where
  "emptyCron = \<lparr>Cron_Minute = '''', Cron_Hour = '''', Cron_Day = '''', Cron_Month = '''',
     Cron_Weekday = '''', Cron_Once = False\<rparr>"

definition emptyCommand :: Command where
  "emptyCommand = \<lparr>Command_Type = '''', Command_Exec = '''', Command_Args = '''', Command_Timeout = 0,
     Command_Secure = False, Command_Retry = 0, Command_Critical = False,
     Command_Cron = emptyCron, Command_Comment = ''''\<rparr>"

definition cronJson :: "Cron \<Rightarrow> json" where
  "cronJson c = JObj
     [(''Minute'', JStr (Cron_Minute c)), (''Hour'', JStr (Cron_Hour c)), (''Day'', JStr (Cron_Day c)),
      (''Month'', JStr (Cron_Month c)), (''Weekday'', JStr (Cron_Weekday c)),
      (''Once'', JBool (Cron_Once c))]"

definition marshalCommand :: "Command \<Rightarrow> bytes" where
  "marshalCommand c = printJson (JObj
     [(''Type'', JStr (Command_Type c)), (''Exec'', JStr (Command_Exec c)),
      (''Args'', JStr (Command_Args c)), (''Timeout'', JNum (decInt (Command_Timeout c))),
      (''Secure'', JBool (Command_Secure c)), (''Retry'', JNum (decInt (Command_Retry c))),
      (''Critical'', JBool (Command_Critical c)), (''Cron'', cronJson (Command_Cron c)),
      (''Comment'', JStr (Command_Comment c))])"

definition cronField :: "string \<Rightarrow> json \<Rightarrow> Cron \<Rightarrow> Cron \<times> bool" where
  "cronField k v c =
     (if foldMatch ''Minute'' k then
        (case intoString v (Cron_Minute c) of (s, ok) \<Rightarrow> (c\<lparr>Cron_Minute := s\<rparr>, ok))
      else if foldMatch ''Hour'' k then
        (case intoString v (Cron_Hour c) of (s, ok) \<Rightarrow> (c\<lparr>Cron_Hour := s\<rparr>, ok))
      else if foldMatch ''Day'' k then
        (case intoString v (Cron_Day c) of (s, ok) \<Rightarrow> (c\<lparr>Cron_Day := s\<rparr>, ok))
      else if foldMatch ''Month'' k then
        (case intoString v (Cron_Month c) of (s, ok) \<Rightarrow> (c\<lparr>Cron_Month := s\<rparr>, ok))
      else if foldMatch ''Weekday'' k then
        (case intoString v (Cron_Weekday c) of (s, ok) \<Rightarrow> (c\<lparr>Cron_Weekday := s\<rparr>, ok))
      else if foldMatch ''Once'' k then
        (case intoBool v (Cron_Once c) of (b, ok) \<Rightarrow> (c\<lparr>Cron_Once := b\<rparr>, ok))
      else (c, True))"

definition commandField :: "string \<Rightarrow> json \<Rightarrow> Command \<Rightarrow> Command \<times> bool" where
  "commandField k v c =
     (if foldMatch ''Type'' k then
        (case intoString v (Command_Type c) of (s, ok) \<Rightarrow> (c\<lparr>Command_Type := s\<rparr>, ok))
      else if foldMatch ''Exec'' k then
        (case intoString v (Command_Exec c) of (s, ok) \<Rightarrow> (c\<lparr>Command_Exec := s\<rparr>, ok))
      else if foldMatch ''Args'' k then
        (case intoString v (Command_Args c) of (s, ok) \<Rightarrow> (c\<lparr>Command_Args := s\<rparr>, ok))
      else if foldMatch ''Timeout'' k then
        (case intoInt v (Command_Timeout c) of (i, ok) \<Rightarrow> (c\<lparr>Command_Timeout := i\<rparr>, ok))
      else if foldMatch ''Secure'' k then
        (case intoBool v (Command_Secure c) of (b, ok) \<Rightarrow> (c\<lparr>Command_Secure := b\<rparr>, ok))
      else if foldMatch ''Retry'' k then
        (case intoInt v (Command_Retry c) of (i, ok) \<Rightarrow> (c\<lparr>Command_Retry := i\<rparr>, ok))
      else if foldMatch ''Critical'' k then
        (case intoBool v (Command_Critical c) of (b, ok) \<Rightarrow> (c\<lparr>Command_Critical := b\<rparr>, ok))
      else if foldMatch ''Cron'' k then
        (case intoStruct cronField v (Command_Cron c) of (x, ok) \<Rightarrow> (c\<lparr>Command_Cron := x\<rparr>, ok))
      else if foldMatch ''Comment'' k then
        (case intoString v (Command_Comment c) of (s, ok) \<Rightarrow> (c\<lparr>Command_Comment := s\<rparr>, ok))
      else (c, True))"

text \<open>
  \<^verbatim>\<open>cmd := &Command{}; json.Unmarshal(data, &cmd)\<close>: the target is a pointer variable, so
  the JSON value \<^verbatim>\<open>null\<close> sets it to \<^verbatim>\<open>nil\<close> (\<open>None\<close>).
\<close>

definition unmarshalCommandPtr :: "bytes \<Rightarrow> Command option \<times> error option" where
  "unmarshalCommandPtr data =
     (case parseJson data of
        Some JNull \<Rightarrow> (None, None)
      | _ \<Rightarrow> (case unmarshalStruct commandField data emptyCommand of (c, e) \<Rightarrow> (Some c, e)))"

section \<open>Maps from strings to strings\<close>

text \<open>
  A Go map is an association list with distinct keys; \<^verbatim>\<open>json.Marshal\<close> writes its keys in
  order.
\<close>

type_synonym gomap = "(string \<times> string) list"

definition marshalMap :: "gomap \<Rightarrow> bytes" where
  "marshalMap m = printJson (JObj (map (\<lambda>(k, v). (k, JStr v)) (sort_key fst m)))"

definition mapField :: "string \<Rightarrow> json \<Rightarrow> gomap \<Rightarrow> gomap \<times> bool" where
  "mapField k v m = (case intoString v '''' of (s, ok) \<Rightarrow> (AList.update k s m, ok))"

definition unmarshalMap :: "bytes \<Rightarrow> gomap \<Rightarrow> gomap \<times> error option" where
  "unmarshalMap data m = unmarshalStruct mapField data m"

section \<open>Reading inverts writing\<close>

lemmas into_simps = intoString_def intoInt_def intoBool_def intoStruct_def

lemma foldMatch_names [simp]:
  "foldMatch ''Action'' ''Action''" "\<not> foldMatch ''Action'' ''Key''" "\<not> foldMatch ''Action'' ''Val''"
  "foldMatch ''Key'' ''Key''" "\<not> foldMatch ''Key'' ''Val''" "foldMatch ''Val'' ''Val''"
  by (simp_all add: upper_def)

declare foldMatch.simps [simp del]

lemma sanitize_ascii: "\<forall>c \<in> set s. ord c < 128 \<Longrightarrow> sanitize s = s"
  by (simp add: validUtf8_ascii)

definition cleanAction :: "Action \<Rightarrow> Action" where
  "cleanAction a = \<lparr>Action_Action = sanitize (Action_Action a), Action_Key = sanitize (Action_Key a),
     Action_Val = sanitize (Action_Val a)\<rparr>"

lemma unmarshal_printed:
  assumes "intsOnly j"
  shows "unmarshalStruct field (printJson j) x =
    (case intoStruct field (cleanJson j) x of (x', ok) \<Rightarrow> (x', if ok then None else Some JsonTypeError))"
  by (simp add: unmarshalStruct_def parseJson_printJson [OF assms])

lemma unmarshalAction_marshal:
  "unmarshalAction (marshalAction a) b = (cleanAction a, None)"
  by (simp add: unmarshalAction_def marshalAction_def unmarshal_printed sanitize_ascii
      into_simps actionField_def cleanAction_def)

text \<open>The same for commands: all nine fields and the nested schedule.\<close>

lemma foldMatch_cron_names [simp]:
  "foldMatch ''Minute'' ''Minute''" "\<not> foldMatch ''Minute'' ''Hour''" "\<not> foldMatch ''Minute'' ''Day''"
  "\<not> foldMatch ''Minute'' ''Month''" "\<not> foldMatch ''Minute'' ''Weekday''" "\<not> foldMatch ''Minute'' ''Once''"
  "foldMatch ''Hour'' ''Hour''" "\<not> foldMatch ''Hour'' ''Day''" "\<not> foldMatch ''Hour'' ''Month''"
  "\<not> foldMatch ''Hour'' ''Weekday''" "\<not> foldMatch ''Hour'' ''Once''"
  "foldMatch ''Day'' ''Day''" "\<not> foldMatch ''Day'' ''Month''" "\<not> foldMatch ''Day'' ''Weekday''"
  "\<not> foldMatch ''Day'' ''Once''" "foldMatch ''Month'' ''Month''" "\<not> foldMatch ''Month'' ''Weekday''"
  "\<not> foldMatch ''Month'' ''Once''" "foldMatch ''Weekday'' ''Weekday''" "\<not> foldMatch ''Weekday'' ''Once''"
  "foldMatch ''Once'' ''Once''"
  by (simp_all add: upper_def foldMatch.simps)

lemma foldMatch_command_names [simp]:
  "foldMatch ''Type'' ''Type''" "\<not> foldMatch ''Type'' ''Exec''" "\<not> foldMatch ''Type'' ''Args''"
  "\<not> foldMatch ''Type'' ''Timeout''" "\<not> foldMatch ''Type'' ''Secure''" "\<not> foldMatch ''Type'' ''Retry''"
  "\<not> foldMatch ''Type'' ''Critical''" "\<not> foldMatch ''Type'' ''Cron''" "\<not> foldMatch ''Type'' ''Comment''"
  "foldMatch ''Exec'' ''Exec''" "\<not> foldMatch ''Exec'' ''Args''" "\<not> foldMatch ''Exec'' ''Timeout''"
  "\<not> foldMatch ''Exec'' ''Secure''" "\<not> foldMatch ''Exec'' ''Retry''" "\<not> foldMatch ''Exec'' ''Critical''"
  "\<not> foldMatch ''Exec'' ''Cron''" "\<not> foldMatch ''Exec'' ''Comment''"
  "foldMatch ''Args'' ''Args''" "\<not> foldMatch ''Args'' ''Timeout''" "\<not> foldMatch ''Args'' ''Secure''"
  "\<not> foldMatch ''Args'' ''Retry''" "\<not> foldMatch ''Args'' ''Critical''" "\<not> foldMatch ''Args'' ''Cron''"
  "\<not> foldMatch ''Args'' ''Comment''"
  "foldMatch ''Timeout'' ''Timeout''" "\<not> foldMatch ''Timeout'' ''Secure''" "\<not> foldMatch ''Timeout'' ''Retry''"
  "\<not> foldMatch ''Timeout'' ''Critical''" "\<not> foldMatch ''Timeout'' ''Cron''" "\<not> foldMatch ''Timeout'' ''Comment''"
  "foldMatch ''Secure'' ''Secure''" "\<not> foldMatch ''Secure'' ''Retry''" "\<not> foldMatch ''Secure'' ''Critical''"
  "\<not> foldMatch ''Secure'' ''Cron''" "\<not> foldMatch ''Secure'' ''Comment''"
  "foldMatch ''Retry'' ''Retry''" "\<not> foldMatch ''Retry'' ''Critical''" "\<not> foldMatch ''Retry'' ''Cron''"
  "\<not> foldMatch ''Retry'' ''Comment''" "foldMatch ''Critical'' ''Critical''" "\<not> foldMatch ''Critical'' ''Cron''"
  "\<not> foldMatch ''Critical'' ''Comment''" "foldMatch ''Cron'' ''Cron''" "\<not> foldMatch ''Cron'' ''Comment''"
  "foldMatch ''Comment'' ''Comment''"
  by (simp_all add: upper_def foldMatch.simps)

definition cleanCron :: "Cron \<Rightarrow> Cron" where
  "cleanCron c = \<lparr>Cron_Minute = sanitize (Cron_Minute c), Cron_Hour = sanitize (Cron_Hour c),
     Cron_Day = sanitize (Cron_Day c), Cron_Month = sanitize (Cron_Month c),
     Cron_Weekday = sanitize (Cron_Weekday c), Cron_Once = Cron_Once c\<rparr>"

definition cleanCommand :: "Command \<Rightarrow> Command" where
  "cleanCommand c = c\<lparr>Command_Type := sanitize (Command_Type c), Command_Exec := sanitize (Command_Exec c),
     Command_Args := sanitize (Command_Args c), Command_Cron := cleanCron (Command_Cron c),
     Command_Comment := sanitize (Command_Comment c)\<rparr>"

lemma intoCron_clean:
  "intoStruct cronField (cleanJson (cronJson c)) d = (cleanCron c, True)"
  by (simp add: cronJson_def sanitize_ascii into_simps cronField_def cleanCron_def)

lemma intsOnly_cronJson [simp]: "intsOnly (cronJson c)"
  by (simp add: cronJson_def)

lemma unmarshalCommandPtr_marshal:
  assumes "is_int64 (Command_Timeout c)" and "is_int64 (Command_Retry c)"
  shows "unmarshalCommandPtr (marshalCommand c) = (Some (cleanCommand c), None)"
proof -
  define j where "j = JObj
     [(''Type'', JStr (Command_Type c)), (''Exec'', JStr (Command_Exec c)),
      (''Args'', JStr (Command_Args c)), (''Timeout'', JNum (decInt (Command_Timeout c))),
      (''Secure'', JBool (Command_Secure c)), (''Retry'', JNum (decInt (Command_Retry c))),
      (''Critical'', JBool (Command_Critical c)), (''Cron'', cronJson (Command_Cron c)),
      (''Comment'', JStr (Command_Comment c))]"
  have ints: "intsOnly j" by (auto simp: j_def)
  have "intoStruct commandField (cleanJson j) emptyCommand = (cleanCommand c, True)"
    using assms
    by (simp add: j_def sanitize_ascii intoStruct_def [of commandField] commandField_def intoCron_clean
        intoString_def intoInt_def intoBool_def Atoi_decInt cleanCommand_def emptyCommand_def)
  then show ?thesis
    using parseJson_printJson [OF ints] unmarshal_printed [OF ints, of commandField emptyCommand]
    by (simp add: unmarshalCommandPtr_def marshalCommand_def j_def)
qed

section \<open>Maps\<close>

lemma mapField_JStr [simp]: "mapField k (JStr v) m = (AList.update k v m, True)"
  by (simp add: mapField_def intoString_def)

lemma intoFields_map:
  assumes "distinct (map fst m)" and "fst ` set m \<inter> fst ` set acc = {}"
  shows "intoFields mapField (map (\<lambda>(k, v). (k, JStr v)) m) acc = (acc @ m, True)"
  using assms
proof (induction m arbitrary: acc)
  case (Cons x m)
  obtain k v where x: "x = (k, v)" by (cases x)
  have "k \<notin> fst ` set acc" using Cons.prems by (auto simp: x)
  then have "AList.update k v acc = acc @ [(k, v)]" by (induction acc) auto
  moreover have "intoFields mapField (map (\<lambda>(k, v). (k, JStr v)) m) (acc @ [(k, v)])
      = ((acc @ [(k, v)]) @ m, True)"
    using Cons.prems by (intro Cons.IH) (auto simp: x)
  ultimately show ?case
    by (simp add: x)
qed simp

definition validMap :: "gomap \<Rightarrow> bool" where
  "validMap m \<longleftrightarrow> (\<forall>(k, v) \<in> set m. validUtf8 k \<and> validUtf8 v)"

lemma unmarshalMap_marshal:
  assumes "distinct (map fst m)" and "validMap m"
  shows "unmarshalMap (marshalMap m) [] = (sort_key fst m, None)"
proof -
  let ?j = "JObj (map (\<lambda>(k, v). (k, JStr v)) (sort_key fst m))"
  have clean: "cleanJson ?j = ?j"
    using assms(2) by (auto simp: validMap_def)
  have "intoFields mapField (map (\<lambda>(k, v). (k, JStr v)) (sort_key fst m)) [] = (sort_key fst m, True)"
    using assms(1) intoFields_map [of "sort_key fst m" "[]"]
    by (simp add: distinct_map inj_on_def)
  moreover have ints: "intsOnly ?j" by auto
  ultimately show ?thesis
    using unmarshal_printed [OF ints, of mapField "[]", unfolded clean]
    by (simp add: unmarshalMap_def marshalMap_def intoStruct_def)
qed

text \<open>What comes out of a log entry is valid UTF-8, whatever bytes the entry holds.\<close>

definition validAction :: "Action \<Rightarrow> bool" where
  "validAction a \<longleftrightarrow> validUtf8 (Action_Action a) \<and> validUtf8 (Action_Key a) \<and> validUtf8 (Action_Val a)"

lemma intoString_validD:
  "intoString v old = (s, ok) \<Longrightarrow> validJson v \<Longrightarrow> validUtf8 old \<Longrightarrow> validUtf8 s"
  using intoString_valid [of v old] by simp

lemma unmarshalAction_valid: "validAction (fst (unmarshalAction data emptyAction))"
  unfolding unmarshalAction_def
proof (rule unmarshalStruct_valid)
  fix k v a assume "validJson v" "validAction a"
  then show "validAction (fst (actionField k v a))"
    by (auto simp: actionField_def validAction_def split: prod.splits if_splits dest: intoString_validD)
qed (simp add: validAction_def emptyAction_def)

section \<open>What is written is valid UTF-8\<close>

lemma hexDigit_ascii [simp]: "n < 16 \<Longrightarrow> ord (hexDigit n) < 128"
  by (auto simp: hexDigit_def)

lemma validUtf8_concat_parts: "\<forall>w \<in> set ws. validUtf8 w \<Longrightarrow> validUtf8 (concat ws)"
  by (induction ws) (auto simp: validUtf8_append)

lemma validUtf8_uEscape: "validUtf8 (uEscape n)"
  by (rule validUtf8_ascii) (simp add: uEscape_def)

lemma validUtf8_escRune:
  assumes "\<forall>w. r = Some w \<longrightarrow> isRune w"
  shows "validUtf8 (escRune r)"
proof (cases r)
  case None
  then show ?thesis by (simp add: escRune_def validUtf8_uEscape)
next
  case (Some w)
  have w: "validUtf8 w" using validUtf8_rune [of w "[]"] assms Some by simp
  show ?thesis
  proof (cases "\<exists>c. w = [c]")
    case True
    then obtain c where c: "w = [c]" by blast
    with w show ?thesis
      by (auto simp: Some escRune_def escAscii_def validUtf8_uEscape)
  next
    case False
    with w show ?thesis
      by (auto simp: Some escRune_def validUtf8_uEscape split: list.splits)
  qed
qed

lemma validUtf8_quoteString: "validUtf8 (quoteString s)"
proof -
  have "validUtf8 (concat (map escRune (runes s)))"
    by (rule validUtf8_concat_parts) (auto intro!: validUtf8_escRune intro: runes_are_runes)
  then show ?thesis by (simp add: quoteString_def validUtf8_append)
qed

lemma validUtf8_decInt: "validUtf8 (decInt i)"
proof -
  have "validUtf8 (dec n)" for n
    using dec_digits [of n] by (intro validUtf8_ascii) (auto simp: list_all_iff is_digit_def)
  then show ?thesis by (simp add: decInt_def)
qed

lemma validUtf8_Join: "\<forall>p \<in> set ps. validUtf8 p \<Longrightarrow> validUtf8 sep \<Longrightarrow> validUtf8 (Join ps sep)"
  by (induction ps sep rule: Join.induct) (auto simp: validUtf8_append)

lemma validUtf8_printJson: "intsOnly j \<Longrightarrow> validUtf8 (printJson j)"
proof (induction j rule: intsOnly.induct)
  case (3 ms)
  have "validUtf8 (quoteString k @ '':'' @ printJson v)" if "(k, v) \<in> set ms" for k v
    using 3 that by (fastforce simp: validUtf8_append validUtf8_quoteString)
  then have "validUtf8 (Join (map (\<lambda>(k, v). quoteString k @ '':'' @ printJson v) ms) '','')"
    by (intro validUtf8_Join) auto
  then show ?case by (simp add: printJson.simps validUtf8_append)
next
  case (2 es)
  then have "validUtf8 (Join (map printJson es) '','')"
    by (intro validUtf8_Join) auto
  then show ?case by (simp add: printJson.simps validUtf8_append)
qed (auto simp: printJson.simps validUtf8_decInt validUtf8_quoteString)

lemma validUtf8_marshalCommand [simp]: "validUtf8 (marshalCommand c)"
  unfolding marshalCommand_def by (rule validUtf8_printJson) auto

end
