(* ===== verification/File_System.thy ===== *)
theory File_System
  imports Go_Strings "HOL-Library.AList" "HOL-Library.Char_ord" "HOL-Library.List_Lexorder"
begin

text \<open>
  The calls of Go's \<^verbatim>\<open>os\<close> and \<^verbatim>\<open>ioutil\<close> packages that the data directory code makes, on an
  explicit file tree. The environment decides, call by call, whether a call succeeds,
  fails, or is the point where the process is killed; a call that fails or is cut short
  may have done a part of its work. What a killed process has handed to the operating
  system stays in the tree.
\<close>

section \<open>The tree\<close>

text \<open>
  A node of the tree: a file, a directory, or a directory that holds a RocksDB database,
  whose files are one opaque value \<^typ>\<open>'s\<close>. Paths are cleaned paths relative to the
  working directory, which is the path \<^verbatim>\<open>""\<close> here and always there.
\<close>

datatype 's node = FFile bytes | FDir | FDb 's

type_synonym 's tree = "(string \<times> 's node) list"

fun isDirNode :: "'s node \<Rightarrow> bool" where
  "isDirNode (FFile _) = False"
| "isDirNode FDir = True"
| "isDirNode (FDb _) = True"

definition parentDir :: "string \<Rightarrow> string" where
  "parentDir p = Join (butlast (Split p CHR ''/'')) ''/''"

definition isDirAt :: "'s tree \<Rightarrow> string \<Rightarrow> bool" where
  "isDirAt t d \<longleftrightarrow> d = '''' \<or> (case map_of t d of None \<Rightarrow> False | Some n \<Rightarrow> isDirNode n)"

text \<open>\<open>below d p\<close>: the path \<open>p\<close> is strictly inside the directory \<open>d\<close>.\<close>

definition below :: "string \<Rightarrow> string \<Rightarrow> bool" where
  "below d p \<longleftrightarrow> HasPrefix p (d @ ''/'')"

definition dropTree :: "string \<Rightarrow> 's tree \<Rightarrow> 's tree" where
  "dropTree p t = filter (\<lambda>(q, _). q \<noteq> p \<and> \<not> below p q) t"

section \<open>The environment and the state\<close>

text \<open>
  How a call of the operating system goes: well, with an error after a part of its work,
  or the process dies in it after a part of its work. The number says how big the part is.
\<close>

datatype fault = NoFault | Fail nat string | Kill nat

text \<open>
  What the code gets from outside: the course of each system call, random numbers, the
  clock (nanoseconds since 1970), and \<^verbatim>\<open>fileutil.SyncDir\<close> of the goutils package, which
  flushes a directory and changes nothing in it. Each answer depends on the number of
  calls made before.
\<close>

record os =
  faults :: "nat \<Rightarrow> fault"
  rand_Uint64 :: "nat \<Rightarrow> uint64"
  UnixNano :: "nat \<Rightarrow> int"
  lib_SyncDir :: "nat \<Rightarrow> string \<Rightarrow> error option"

record 's disk =
  calls :: nat
  tree :: "'s tree"

type_synonym ('s, 'z, 'a) diskop = "(('s, 'z) disk_scheme, 'a) go"

definition syscall :: "'e os_scheme \<Rightarrow> (fault \<Rightarrow> ('s, 'z, 'a) diskop) \<Rightarrow> ('s, 'z, 'a) diskop" where
  "syscall E m = (\<lambda>w. m (faults E (calls w)) (w\<lparr>calls := Suc (calls w)\<rparr>))"

text \<open>A call that changes nothing: its answer is computed from the tree.\<close>

definition query :: "'e os_scheme \<Rightarrow> ('s tree \<Rightarrow> 'a outcome) \<Rightarrow> ('s, 'z, 'a) diskop" where
  "query E f = syscall E (\<lambda>r w. case r of
       NoFault \<Rightarrow> (f (tree w), w)
     | Fail _ e \<Rightarrow> (Err (OsError e), w)
     | Kill _ \<Rightarrow> (Crash, w))"

text \<open>
  A call with a precondition (it returns an error when there is one) and an effect on the
  tree; the effect takes the size of the part that was done, \<open>None\<close> for all of it.
\<close>

definition change :: "'e os_scheme \<Rightarrow> ('s tree \<Rightarrow> error option) \<Rightarrow> (nat option \<Rightarrow> 's tree \<Rightarrow> 's tree)
    \<Rightarrow> ('s, 'z, unit) diskop" where
  "change E pre eff = syscall E (\<lambda>r w. case pre (tree w) of
       Some e \<Rightarrow> (Err e, w)
     | None \<Rightarrow> (case r of
           NoFault \<Rightarrow> (Ok (), w\<lparr>tree := eff None (tree w)\<rparr>)
         | Fail n e \<Rightarrow> (Err (OsError e), w\<lparr>tree := eff (Some n) (tree w)\<rparr>)
         | Kill n \<Rightarrow> (Crash, w\<lparr>tree := eff (Some n) (tree w)\<rparr>)))"

text \<open>An effect that is done completely or not at all.\<close>

definition atomically :: "('s tree \<Rightarrow> 's tree) \<Rightarrow> nat option \<Rightarrow> 's tree \<Rightarrow> 's tree" where
  "atomically f n t = (if n = Some 0 then t else f t)"

section \<open>The calls\<close>

text \<open>\<^verbatim>\<open>os.Stat\<close>; the result says whether the node is a directory.\<close>

definition Stat :: "'e os_scheme \<Rightarrow> string \<Rightarrow> ('s, 'z, bool) diskop" where
  "Stat E p = query E (\<lambda>t. case map_of t p of None \<Rightarrow> Err NotExist | Some n \<Rightarrow> Ok (isDirNode n))"

text \<open>\<^verbatim>\<open>os.MkdirAll\<close>: the directories on the way, then the directory itself.\<close>

definition Mkdir :: "'e os_scheme \<Rightarrow> string \<Rightarrow> ('s, 'z, unit) diskop" where
  "Mkdir E d = change E
     (\<lambda>t. case map_of t d of Some (FFile _) \<Rightarrow> Some (OsError ''not a directory'') | _ \<Rightarrow> None)
     (atomically (\<lambda>t. if isDirAt t d then t else AList.update d FDir t))"

fun mkdirs :: "'e os_scheme \<Rightarrow> string list \<Rightarrow> ('s, 'z, unit) diskop" where
  "mkdirs E [] = ret ()"
| "mkdirs E (d # ds) = andThen (Mkdir E d) (\<lambda>_. mkdirs E ds)"

definition dirsTo :: "string \<Rightarrow> string list" where
  "dirsTo p = (let es = Split p CHR ''/''
               in map (\<lambda>n. Join (take n es) ''/'') [1..<Suc (length es)])"

definition MkdirAll :: "'e os_scheme \<Rightarrow> string \<Rightarrow> ('s, 'z, unit) diskop" where
  "MkdirAll E p = mkdirs E (dirsTo p)"

text \<open>\<^verbatim>\<open>os.Create\<close>: a new empty file, or an old one emptied.\<close>

definition Create :: "'e os_scheme \<Rightarrow> string \<Rightarrow> ('s, 'z, unit) diskop" where
  "Create E p = change E
     (\<lambda>t. if \<not> isDirAt t (parentDir p) then Some NotExist
          else if isDirAt t p then Some (OsError ''is a directory'') else None)
     (atomically (AList.update p (FFile [])))"

text \<open>\<^verbatim>\<open>f.Write\<close> on the file created last at the path: bytes are added at its end.\<close>

definition fileWrite :: "'e os_scheme \<Rightarrow> string \<Rightarrow> bytes \<Rightarrow> ('s, 'z, unit) diskop" where
  "fileWrite E p data = change E (\<lambda>_. None)
     (\<lambda>n t. case map_of t p of
         Some (FFile x) \<Rightarrow> AList.update p (FFile (x @ (case n of None \<Rightarrow> data | Some k \<Rightarrow> take k data))) t
       | _ \<Rightarrow> t)"

text \<open>\<^verbatim>\<open>f.Sync\<close>, \<^verbatim>\<open>f.Close\<close> and \<^verbatim>\<open>fileutil.SyncDir\<close>.\<close>

definition fileSync :: "'e os_scheme \<Rightarrow> string \<Rightarrow> ('s, 'z, unit) diskop" where
  "fileSync E p = query E (\<lambda>_. Ok ())"

definition fileClose :: "'e os_scheme \<Rightarrow> string \<Rightarrow> ('s, 'z, unit) diskop" where
  "fileClose E p = query E (\<lambda>_. Ok ())"

definition SyncDir :: "'e os_scheme \<Rightarrow> string \<Rightarrow> ('s, 'z, unit) diskop" where
  "SyncDir E d = (\<lambda>w. query E (\<lambda>_. case lib_SyncDir E (calls w) d of None \<Rightarrow> Ok () | Some e \<Rightarrow> Err e) w)"

text \<open>
  \<^verbatim>\<open>os.Rename\<close>: it refuses a directory as the target, and a file as the target of a
  directory; a directory moves with all that is in it.
\<close>

definition movePath :: "string \<Rightarrow> string \<Rightarrow> string \<Rightarrow> string" where
  "movePath a b q = (if q = a then b else if below a q then b @ drop (length a) q else q)"

definition Rename :: "'e os_scheme \<Rightarrow> string \<Rightarrow> string \<Rightarrow> ('s, 'z, unit) diskop" where
  "Rename E a b = change E
     (\<lambda>t. case map_of t a of
         None \<Rightarrow> Some NotExist
       | Some n \<Rightarrow>
           if isDirAt t b then Some (OsError ''file exists'')
           else if isDirNode n \<and> map_of t b \<noteq> None then Some (OsError ''not a directory'')
           else if \<not> isDirAt t (parentDir b) then Some NotExist
           else None)
     (atomically (\<lambda>t. case map_of t a of
         Some (FFile x) \<Rightarrow> AList.update b (FFile x) (dropTree a t)
       | _ \<Rightarrow> map (\<lambda>(q, n). (movePath a b q, n)) t))"

text \<open>\<^verbatim>\<open>os.OpenFile(p, os.O_RDONLY, _)\<close> and \<^verbatim>\<open>ioutil.ReadAll\<close>.\<close>

definition OpenRead :: "'e os_scheme \<Rightarrow> string \<Rightarrow> ('s, 'z, unit) diskop" where
  "OpenRead E p = query E (\<lambda>t. case map_of t p of None \<Rightarrow> Err NotExist | Some _ \<Rightarrow> Ok ())"

definition ReadAll :: "'e os_scheme \<Rightarrow> string \<Rightarrow> ('s, 'z, bytes) diskop" where
  "ReadAll E p = query E (\<lambda>t. case map_of t p of
       Some (FFile x) \<Rightarrow> Ok x
     | _ \<Rightarrow> Err (OsError ''is a directory''))"

text \<open>\<^verbatim>\<open>ioutil.ReadDir\<close>: the entries of a directory by name, each with whether it is a directory.\<close>

definition entries :: "string \<Rightarrow> 's tree \<Rightarrow> (string \<times> bool) list" where
  "entries d t = sort_key fst
     (map (\<lambda>q. (drop (length d + 1) q, isDirAt t q))
        (remdups (filter (\<lambda>q. below d q \<and> CHR ''/'' \<notin> set (drop (length d + 1) q)) (map fst t))))"

definition ReadDir :: "'e os_scheme \<Rightarrow> string \<Rightarrow> ('s, 'z, (string \<times> bool) list) diskop" where
  "ReadDir E d = query E (\<lambda>t. if isDirAt t d then Ok (entries d t) else Err NotExist)"

text \<open>
  \<^verbatim>\<open>os.RemoveAll\<close>: nothing to do for an empty or missing path. A part of the work removes
  some of what is inside; a database that has lost files is a mere directory.
\<close>

definition removeSome :: "string \<Rightarrow> nat \<Rightarrow> 's tree \<Rightarrow> 's tree" where
  "removeSome p n t =
     (let gone = take n (filter (below p) (map fst t));
          t' = filter (\<lambda>(q, _). q \<notin> set gone) t
      in case map_of t' p of Some (FDb _) \<Rightarrow> if n = 0 then t' else AList.update p FDir t' | _ \<Rightarrow> t')"

definition RemoveAll :: "'e os_scheme \<Rightarrow> string \<Rightarrow> ('s, 'z, unit) diskop" where
  "RemoveAll E p = change E
     (\<lambda>_. if p = ''.'' \<or> suffix ''/.'' p then Some (OsError ''invalid argument'') else None)
     (\<lambda>n t. if p = '''' then t
            else case n of None \<Rightarrow> dropTree p t | Some k \<Rightarrow> removeSome p k t)"

text \<open>\<^verbatim>\<open>rand.Uint64()\<close> and \<^verbatim>\<open>time.Now().UnixNano()\<close>.\<close>

definition randUint64 :: "'e os_scheme \<Rightarrow> ('s, 'z, uint64) diskop" where
  "randUint64 E = (\<lambda>w. (Ok (rand_Uint64 E (calls w)), w\<lparr>calls := Suc (calls w)\<rparr>))"

definition nowUnixNano :: "'e os_scheme \<Rightarrow> ('s, 'z, int) diskop" where
  "nowUnixNano E = (\<lambda>w. (Ok (UnixNano E (calls w)), w\<lparr>calls := Suc (calls w)\<rparr>))"

section \<open>Laws\<close>

lemma map_of_filter_key:
  "map_of (filter (\<lambda>(q, _). P q) t) q = (if P q then map_of t q else None)"
  by (induction t) auto

lemma map_of_dropTree:
  "map_of (dropTree p t) q = (if q = p \<or> below p q then None else map_of t q)"
  by (simp add: dropTree_def map_of_filter_key)

lemma map_of_removeSome:
  "q \<noteq> p \<Longrightarrow> \<not> below p q \<Longrightarrow> map_of (removeSome p n t) q = map_of t q"
  by (auto simp: removeSome_def Let_def map_of_filter_key update_conv dest: in_set_takeD
      split: option.splits node.splits)

lemma below_irrefl [simp]: "\<not> below p p"
  by (simp add: below_def HasPrefix_def)

lemma below_child [simp]: "below d (d @ ''/'' @ e)" "below d (d @ CHR ''/'' # e)"
  by (simp_all add: below_def HasPrefix_def)

lemma Split_child:
  "CHR ''/'' \<notin> set e \<Longrightarrow> Split (d @ ''/'' @ e) CHR ''/'' = Split d CHR ''/'' @ [e]"
  by (induction d) (auto simp: Split_no_sep split: list.splits)

lemma parentDir_child:
  "CHR ''/'' \<notin> set e \<Longrightarrow> parentDir (d @ ''/'' @ e) = d"
  using Split_child [of e d] by (simp add: parentDir_def Join_Split)

lemma plainElem_child: "plainPath (d @ ''/'' @ e) \<Longrightarrow> CHR ''/'' \<notin> set e \<Longrightarrow> plainElem e"
  using Split_child [of e d] by (simp add: plainPath_def)

text \<open>A tree all of whose paths are clean relative paths.\<close>

definition plainTree :: "'s tree \<Rightarrow> bool" where
  "plainTree t \<longleftrightarrow> (\<forall>q \<in> fst ` set t. plainPath q)"

text \<open>Two different entries of a directory are not inside each other.\<close>

lemma not_below_sibling:
  assumes "CHR ''/'' \<notin> set e'"
  shows "\<not> below (d @ ''/'' @ e) (d @ ''/'' @ e')"
proof
  assume "below (d @ ''/'' @ e) (d @ ''/'' @ e')"
  then have "prefix (e @ ''/'') e'" by (simp add: below_def HasPrefix_iff)
  then have "CHR ''/'' \<in> set e'" by (auto simp: prefix_def)
  with assms show False by simp
qed

subsection \<open>What the calls keep\<close>

text \<open>The number of calls made so far is no part of what an invariant speaks of.\<close>

definition stable :: "(('s, 'z) disk_scheme \<Rightarrow> bool) \<Rightarrow> bool" where
  "stable P \<longleftrightarrow> (\<forall>w n. P (w\<lparr>calls := n\<rparr>) = P w)"

lemma stableI [intro]: "(\<And>w n. P (w\<lparr>calls := n\<rparr>) = P w) \<Longrightarrow> stable P"
  by (simp add: stable_def)

lemma keeps_query [keeps_intros]: "stable P \<Longrightarrow> keeps P (query E f)"
  by (auto simp: query_def syscall_def stable_def keeps_def split: fault.splits)

lemma keeps_change:
  assumes "stable P" and "\<And>w n. P w \<Longrightarrow> pre (tree w) = None \<Longrightarrow> P (w\<lparr>tree := eff n (tree w)\<rparr>)"
  shows "keeps P (change E pre eff)"
proof
  fix w assume "P w"
  let ?w = "w\<lparr>calls := Suc (calls w)\<rparr>"
  have "P ?w" using assms(1) \<open>P w\<close> by (simp add: stable_def)
  moreover from this have "pre (tree ?w) = None \<Longrightarrow> P (?w\<lparr>tree := eff n (tree ?w)\<rparr>)" for n
    by (rule assms(2))
  ultimately show "P (snd (change E pre eff w))"
    by (auto simp: change_def syscall_def split: option.splits fault.splits)
qed

lemma keeps_Stat [keeps_intros]: "stable P \<Longrightarrow> keeps P (Stat E p)"
  unfolding Stat_def by (intro keeps_intros)

lemma keeps_OpenRead [keeps_intros]: "stable P \<Longrightarrow> keeps P (OpenRead E p)"
  unfolding OpenRead_def by (intro keeps_intros)

lemma keeps_ReadAll [keeps_intros]: "stable P \<Longrightarrow> keeps P (ReadAll E p)"
  unfolding ReadAll_def by (intro keeps_intros)

lemma keeps_ReadDir [keeps_intros]: "stable P \<Longrightarrow> keeps P (ReadDir E p)"
  unfolding ReadDir_def by (intro keeps_intros)

lemma keeps_fileSync [keeps_intros]: "stable P \<Longrightarrow> keeps P (fileSync E p)"
  unfolding fileSync_def by (intro keeps_intros)

lemma keeps_fileClose [keeps_intros]: "stable P \<Longrightarrow> keeps P (fileClose E p)"
  unfolding fileClose_def by (intro keeps_intros)

lemma keeps_SyncDir [keeps_intros]:
  assumes "stable P" shows "keeps P (SyncDir E p)"
proof
  fix w assume "P w"
  then show "P (snd (SyncDir E p w))"
    unfolding SyncDir_def by (rule keepsD [OF keeps_query [OF assms]])
qed

lemma keeps_randUint64 [keeps_intros]: "stable P \<Longrightarrow> keeps P (randUint64 E)"
  by (auto simp: randUint64_def stable_def keeps_def)

lemma keeps_nowUnixNano [keeps_intros]: "stable P \<Longrightarrow> keeps P (nowUnixNano E)"
  by (auto simp: nowUnixNano_def stable_def keeps_def)

text \<open>An assertion on what the tree has at one path, and the calls that do not touch the path.\<close>

definition atPath :: "string \<Rightarrow> ('s node option \<Rightarrow> bool) \<Rightarrow> ('s, 'z) disk_scheme \<Rightarrow> bool" where
  "atPath q Q w \<longleftrightarrow> Q (map_of (tree w) q)"

lemma stable_atPath [keeps_intros, simp]: "stable (atPath q Q)"
  by (auto simp: atPath_def)

lemma keeps_atPath_eq:
  assumes "\<And>Q. keeps (atPath q Q) m" and "m w = (r, w')"
  shows "map_of (tree w') q = map_of (tree w) q"
  using keepsD [OF assms(1), of "\<lambda>y. y = map_of (tree w) q" w] assms(2) by (simp add: atPath_def)

lemma keeps_Mkdir_other [keeps_intros]: "q \<noteq> d \<Longrightarrow> keeps (atPath q Q) (Mkdir E d)"
  unfolding Mkdir_def
  by (intro keeps_change) (auto simp: atPath_def atomically_def update_conv)

lemma keeps_Create_other [keeps_intros]: "q \<noteq> p \<Longrightarrow> keeps (atPath q Q) (Create E p)"
  unfolding Create_def
  by (intro keeps_change) (auto simp: atPath_def atomically_def update_conv)

lemma keeps_fileWrite_other [keeps_intros]: "q \<noteq> p \<Longrightarrow> keeps (atPath q Q) (fileWrite E p data)"
  unfolding fileWrite_def
  by (intro keeps_change) (auto simp: atPath_def update_conv split: option.splits node.splits)

lemma keeps_RemoveAll_other [keeps_intros]:
  "q \<noteq> p \<Longrightarrow> \<not> below p q \<Longrightarrow> keeps (atPath q Q) (RemoveAll E p)"
  unfolding RemoveAll_def
  by (intro keeps_change)
    (auto simp: atPath_def map_of_dropTree map_of_removeSome split: option.splits)

lemma map_of_removeSome_None: "map_of t q = None \<Longrightarrow> map_of (removeSome p n t) q = None"
  by (auto simp: removeSome_def Let_def map_of_filter_key update_conv
      split: option.splits node.splits)

lemma keeps_RemoveAll_absent [keeps_intros]: "keeps (atPath q (\<lambda>x. x = None)) (RemoveAll E p)"
  unfolding RemoveAll_def
  by (intro keeps_change)
    (auto simp: atPath_def map_of_dropTree map_of_removeSome_None split: option.splits)

lemma plainTree_filter [simp]: "plainTree t \<Longrightarrow> plainTree (filter P t)"
  by (auto simp: plainTree_def)

lemma plainTree_update [simp]: "plainTree t \<Longrightarrow> plainPath p \<Longrightarrow> plainTree (AList.update p x t)"
  by (simp add: plainTree_def dom_update)

lemma plainTree_removeSome [simp]:
  assumes "plainTree t" shows "plainTree (removeSome p n t)"
proof -
  have "plainPath p" if "map_of (filter Q t) p = Some x" for Q x
    using map_of_SomeD [OF that] assms by (force simp: plainTree_def)
  then show ?thesis
    using assms by (auto simp: removeSome_def Let_def split: option.splits node.splits)
qed

lemma keeps_RemoveAll_plain [keeps_intros]: "keeps (\<lambda>w. plainTree (tree w)) (RemoveAll E p)"
  unfolding RemoveAll_def
  by (intro keeps_change) (auto simp: dropTree_def split: option.splits)

lemma stable_plainTree [keeps_intros, simp]: "stable (\<lambda>w. plainTree (tree w))"
  by auto

lemma map_of_moved:
  assumes "q \<noteq> a" "q \<noteq> b" "\<not> below a q" "\<not> below b q"
  shows "map_of (map (\<lambda>(q, n). (movePath a b q, n)) t) q = map_of t q"
proof (induction t)
  case (Cons x t)
  have "q \<noteq> b @ drop (length a) p" if "below a p" for p
  proof
    assume "q = b @ drop (length a) p"
    moreover from that obtain r where "p = a @ ''/'' @ r"
      by (auto simp: below_def HasPrefix_iff prefix_def)
    ultimately have "q = b @ ''/'' @ r" by simp
    then have "below b q" by (simp only: below_child)
    with assms show False by simp
  qed
  with Cons assms show ?case by (cases x) (auto simp: movePath_def)
qed simp

lemma keeps_Rename_other [keeps_intros]:
  "q \<noteq> a \<Longrightarrow> q \<noteq> b \<Longrightarrow> \<not> below a q \<Longrightarrow> \<not> below b q \<Longrightarrow> keeps (atPath q Q) (Rename E a b)"
  unfolding Rename_def
  by (intro keeps_change)
    (auto simp: atPath_def atomically_def update_conv map_of_dropTree map_of_moved
      split: option.splits node.splits)

subsection \<open>Calls that succeed\<close>

text \<open>An environment in which every call goes well.\<close>

definition faultless :: "'e os_scheme \<Rightarrow> bool" where
  "faultless E \<longleftrightarrow> faults E = (\<lambda>_. NoFault) \<and> lib_SyncDir E = (\<lambda>_ _. None)"

named_theorems well \<open>results of the system calls when every call goes well\<close>

lemma query_well [well]:
  "faultless E \<Longrightarrow> query E f w = (f (tree w), w\<lparr>calls := Suc (calls w)\<rparr>)"
  by (simp add: query_def syscall_def faultless_def)

lemma change_well [well]:
  "faultless E \<Longrightarrow> change E pre eff w =
     (case pre (tree w) of
        Some e \<Rightarrow> (Err e, w\<lparr>calls := Suc (calls w)\<rparr>)
      | None \<Rightarrow> (Ok (), w\<lparr>calls := Suc (calls w), tree := eff None (tree w)\<rparr>))"
  by (simp add: change_def syscall_def faultless_def split: option.splits)

lemma SyncDir_well [well]: "faultless E \<Longrightarrow> SyncDir E d w = (Ok (), w\<lparr>calls := Suc (calls w)\<rparr>)"
  by (simp add: SyncDir_def query_well) (simp add: faultless_def)

lemma atomically_None [simp]: "atomically f None t = f t"
  by (simp add: atomically_def)

lemma query_OkD: "query E f w = (Ok a, w') \<Longrightarrow> f (tree w) = Ok a \<and> tree w' = tree w"
  by (auto simp: query_def syscall_def split: fault.splits)

lemma change_OkD:
  "change E pre eff w = (Ok u, w') \<Longrightarrow> pre (tree w) = None \<and> tree w' = eff None (tree w)"
  by (auto simp: change_def syscall_def split: fault.splits option.splits)

end
