(* ===== verification/Go_Md5.thy ===== *)
theory Go_Md5
  imports Prelude
begin

unbundle bit_operations_syntax

text \<open>
  Go's \<^verbatim>\<open>crypto/md5\<close>, as an executable function on byte strings. The sources use it as a
  checksum of the name of the current database directory and as the hash of the whole
  state; the facts they rest on are that it is a function and that a sum has 16 bytes.
\<close>

definition md5S :: "nat list" where
  "md5S = [7, 12, 17, 22, 7, 12, 17, 22, 7, 12, 17, 22, 7, 12, 17, 22,
      5, 9, 14, 20, 5, 9, 14, 20, 5, 9, 14, 20, 5, 9, 14, 20,
      4, 11, 16, 23, 4, 11, 16, 23, 4, 11, 16, 23, 4, 11, 16, 23,
      6, 10, 15, 21, 6, 10, 15, 21, 6, 10, 15, 21, 6, 10, 15, 21]"

definition md5K :: "32 word list" where
  "md5K = [3614090360, 3905402710, 606105819, 3250441966, 4118548399, 1200080426,
      2821735955, 4249261313, 1770035416, 2336552879, 4294925233, 2304563134,
      1804603682, 4254626195, 2792965006, 1236535329, 4129170786, 3225465664,
      643717713, 3921069994, 3593408605, 38016083, 3634488961, 3889429448,
      568446438, 3275163606, 4107603335, 1163531501, 2850285829, 4243563512,
      1735328473, 2368359562, 4294588738, 2272392833, 1839030562, 4259657740,
      2763975236, 1272893353, 4139469664, 3200236656, 681279174, 3936430074,
      3572445317, 76029189, 3654602809, 3873151461, 530742520, 3299628645,
      4096336452, 1126891415, 2878612391, 4237533241, 1700485571, 2399980690,
      4293915773, 2240044497, 1873313359, 4264355552, 2734768916, 1309151649,
      4149444226, 3174756917, 718787259, 3951481745]"

text \<open>Four bytes as a little-endian word, and back.\<close>

definition word32 :: "bytes \<Rightarrow> 32 word" where
  "word32 b = word_of_nat (horner_sum ord 256 (take 4 b))"

definition bytes32 :: "32 word \<Rightarrow> bytes" where
  "bytes32 w = map (\<lambda>i. byte (unat w div 256 ^ i)) [0..<4]"

text \<open>One of the 64 steps on a block \<open>m\<close> of 64 bytes.\<close>

definition md5Step ::
    "bytes \<Rightarrow> nat \<Rightarrow> 32 word \<times> 32 word \<times> 32 word \<times> 32 word \<Rightarrow>
     32 word \<times> 32 word \<times> 32 word \<times> 32 word" where
  "md5Step m i = (\<lambda>(a, b, c, d).
     let (f, g) =
           (if i < 16 then ((b AND c) OR (NOT b AND d), i)
            else if i < 32 then ((d AND b) OR (NOT d AND c), (5 * i + 1) mod 16)
            else if i < 48 then (b XOR c XOR d, (3 * i + 5) mod 16)
            else (c XOR (b OR NOT d), (7 * i) mod 16));
         x = f + a + md5K ! i + word32 (drop (4 * g) m)
     in (d, b + word_rotl (md5S ! i) x, b, c))"

definition md5Block ::
    "bytes \<Rightarrow> 32 word \<times> 32 word \<times> 32 word \<times> 32 word \<Rightarrow>
     32 word \<times> 32 word \<times> 32 word \<times> 32 word" where
  "md5Block m = (\<lambda>(a0, b0, c0, d0).
     case fold (md5Step m) [0..<64] (a0, b0, c0, d0) of
       (a, b, c, d) \<Rightarrow> (a0 + a, b0 + b, c0 + c, d0 + d))"

function md5Blocks ::
    "bytes \<Rightarrow> 32 word \<times> 32 word \<times> 32 word \<times> 32 word \<Rightarrow>
     32 word \<times> 32 word \<times> 32 word \<times> 32 word" where
  "md5Blocks m st = (if length m < 64 then st else md5Blocks (drop 64 m) (md5Block (take 64 m) st))"
  by pat_completeness auto
termination
  by (relation "measure (\<lambda>(m, st). length m)") auto

declare md5Blocks.simps [simp del]

text \<open>A bit 1, zeros up to 56 bytes of a block, and the length in bits.\<close>

definition md5Pad :: "bytes \<Rightarrow> bytes" where
  "md5Pad s = s @ [byte 128] @ replicate ((119 - length s mod 64) mod 64) (byte 0)
     @ map (\<lambda>i. byte ((8 * length s) div 256 ^ i)) [0..<8]"

definition md5 :: "bytes \<Rightarrow> bytes" where
  "md5 s =
     (case md5Blocks (md5Pad s) (0x67452301, 0xefcdab89, 0x98badcfe, 0x10325476) of
        (a, b, c, d) \<Rightarrow> bytes32 a @ bytes32 b @ bytes32 c @ bytes32 d)"

lemma length_bytes32 [simp]: "length (bytes32 w) = 4"
  by (simp add: bytes32_def)

lemma length_md5 [simp]: "length (md5 s) = 16"
  by (simp add: md5_def split: prod.splits)

text \<open>The padded message is a whole number of blocks.\<close>

lemma length_md5Pad: "length (md5Pad s) mod 64 = 0"
proof -
  define q r where "q = length s div 64" and "r = length s mod 64"
  have s: "length s = 64 * q + r" and r: "r < 64" by (simp_all add: q_def r_def)
  have "\<exists>k. length s + (9 + (119 - r) mod 64) = 64 * k"
  proof (cases "r \<le> 55")
    case True
    then have "(119 - r) mod 64 = 55 - r" by (simp add: mod_if)
    with True s show ?thesis by (intro exI [of _ "Suc q"]) simp
  next
    case False
    with r have "(119 - r) mod 64 = 119 - r" by simp
    with False r s show ?thesis by (intro exI [of _ "q + 2"]) simp
  qed
  then obtain k where "length (md5Pad s) = 64 * k"
    by (auto simp: md5Pad_def r_def)
  then show ?thesis by simp
qed

end
