(* ===== verification/Data_Dir.thy ===== *)
theory Data_Dir
  imports File_System Go_Md5
begin

text \<open>
  The data directory of a node, lines 127 to 245 of \<^verbatim>\<open>src/dcrontab/commander.go\<close>: which
  database directory is the current one is kept in the file \<^verbatim>\<open>current\<close>, a checksum and the
  name of the directory, and a new one is put in place by writing \<^verbatim>\<open>current.updating\<close> and
  renaming it. The laws say that the switch is atomic whatever call fails and wherever the
  process dies, that what was saved is read back, and what a clean-up leaves behind.
\<close>

section \<open>The operations\<close>

definition testDBDirName :: string where "testDBDirName = ''dcrontab-data''"
definition currentDBFilename :: string where "currentDBFilename = ''current''"
definition updatingDBFilename :: string where "updatingDBFilename = ''current.updating''"

definition isNewRun :: "'e os_scheme \<Rightarrow> string \<Rightarrow> ('s, 'z, bool) diskop" where
  "isNewRun E dir =
     (let fp = pathJoin [dir, currentDBFilename]
      in onErr (andThen (Stat E fp) (\<lambda>_. ret False)) (\<lambda>e. ret (e = NotExist)))"

definition getNodeDBDirName :: "uint64 \<Rightarrow> uint64 \<Rightarrow> string" where
  "getNodeDBDirName clusterID nodeID =
     (let part = dec (unat clusterID) @ ''_'' @ dec (unat nodeID)
      in pathJoin [testDBDirName, part])"

definition getNewRandomDBDirName :: "'e os_scheme \<Rightarrow> string \<Rightarrow> ('s, 'z, string) diskop" where
  "getNewRandomDBDirName E dir =
     andThen (randUint64 E) (\<lambda>rn.
     andThen (nowUnixNano E) (\<lambda>ct.
     ret (pathJoin [dir, dec (unat rn) @ ''_'' @ decInt ct])))"

definition replaceCurrentDBFile :: "'e os_scheme \<Rightarrow> string \<Rightarrow> ('s, 'z, unit) diskop" where
  "replaceCurrentDBFile E dir =
     (let fp = pathJoin [dir, currentDBFilename];
          tmpFp = pathJoin [dir, updatingDBFilename]
      in andThen (Rename E tmpFp fp) (\<lambda>_. SyncDir E dir))"

definition saveCurrentDBDirName :: "'e os_scheme \<Rightarrow> string \<Rightarrow> string \<Rightarrow> ('s, 'z, unit) diskop" where
  "saveCurrentDBDirName E dir dbdir =
     (let h = md5 dbdir;
          fp = pathJoin [dir, updatingDBFilename]
      in andThen (Create E fp) (\<lambda>_.
         withDefer
           (andThen (fileWrite E fp (take 8 h)) (\<lambda>_.
            andThen (fileWrite E fp dbdir) (\<lambda>_.
            andThen (fileSync E fp) (\<lambda>_.
            ret ()))))
           (andThen (orPanic (fileClose E fp) ''close'') (\<lambda>_.
            orPanic (SyncDir E dir) ''sync''))))"

definition getCurrentDBDirName :: "'e os_scheme \<Rightarrow> string \<Rightarrow> ('s, 'z, string) diskop" where
  "getCurrentDBDirName E dir =
     (let fp = pathJoin [dir, currentDBFilename]
      in andThen (OpenRead E fp) (\<lambda>_.
         withDefer
           (andThen (ReadAll E fp) (\<lambda>data.
            if length data \<le> 8 then gopanic ''corrupted content''
            else let crc = take 8 data; content = drop 8 data; h = md5 content
                 in if crc \<noteq> take 8 h then gopanic ''corrupted content with not matched crc''
                    else ret content))
           (orPanic (fileClose E fp) ''close'')))"

definition createNodeDataDir :: "'e os_scheme \<Rightarrow> string \<Rightarrow> ('s, 'z, unit) diskop" where
  "createNodeDataDir E dir = MkdirAll E dir"

fun cleanupLoop :: "'e os_scheme \<Rightarrow> string \<Rightarrow> string \<Rightarrow> (string \<times> bool) list \<Rightarrow> ('s, 'z, unit) diskop" where
  "cleanupLoop E dir dbdir [] = ret ()"
| "cleanupLoop E dir dbdir ((name, isDir) # files) =
     (if \<not> isDir then cleanupLoop E dir dbdir files
      else let toDelete = pathJoin [dir, name]
           in if toDelete \<noteq> dbdir
              then andThen (RemoveAll E toDelete) (\<lambda>_. cleanupLoop E dir dbdir files)
              else cleanupLoop E dir dbdir files)"

definition cleanupNodeDataDir :: "'e os_scheme \<Rightarrow> string \<Rightarrow> ('s, 'z, unit) diskop" where
  "cleanupNodeDataDir E dir =
     andThen (ignoreErr (RemoveAll E (pathJoin [dir, updatingDBFilename]))) (\<lambda>_.
     andThen (getCurrentDBDirName E dir) (\<lambda>dbdir.
     andThen (ReadDir E dir) (\<lambda>files.
     cleanupLoop E dir dbdir files)))"

section \<open>Paths\<close>

text \<open>The node's directory and the names in it need no cleaning.\<close>

lemma plainElem_names [simp]:
  "plainElem currentDBFilename" "plainElem updatingDBFilename" "plainElem testDBDirName"
  by (simp_all add: plainElem_def currentDBFilename_def updatingDBFilename_def testDBDirName_def)

lemma names_distinct [simp]:
  "currentDBFilename \<noteq> updatingDBFilename" "updatingDBFilename \<noteq> currentDBFilename"
  by (simp_all add: currentDBFilename_def updatingDBFilename_def)

lemma getNodeDBDirName_plain: "plainPath (getNodeDBDirName c n)"
  and getNodeDBDirName_path:
    "getNodeDBDirName c n = testDBDirName @ ''/'' @ dec (unat c) @ ''_'' @ dec (unat n)"
proof -
  let ?e = "dec (unat c) @ ''_'' @ dec (unat n)"
  have e: "plainElem ?e" by (rule plainElem_with_underscore) auto
  have d: "plainPath testDBDirName" by (simp add: plainElem_plainPath)
  show "getNodeDBDirName c n = testDBDirName @ ''/'' @ ?e"
    unfolding getNodeDBDirName_def Let_def by (rule pathJoin_plain (1) [OF d e])
  then show "plainPath (getNodeDBDirName c n)"
    using pathJoin_plain (2) [OF d e] by simp
qed

text \<open>The two files of a plain directory, and that they are different entries.\<close>

abbreviation curFile :: "string \<Rightarrow> string" where
  "curFile dir \<equiv> dir @ ''/'' @ currentDBFilename"

abbreviation updFile :: "string \<Rightarrow> string" where
  "updFile dir \<equiv> dir @ ''/'' @ updatingDBFilename"

lemma pathJoin_names [simp]:
  "plainPath dir \<Longrightarrow> pathJoin [dir, currentDBFilename] = curFile dir"
  "plainPath dir \<Longrightarrow> pathJoin [dir, updatingDBFilename] = updFile dir"
  by (simp_all add: pathJoin_plain)

lemma no_slash_names [simp]:
  "CHR ''/'' \<notin> set currentDBFilename" "CHR ''/'' \<notin> set updatingDBFilename"
  by (simp_all add: currentDBFilename_def updatingDBFilename_def)

lemma not_below_names [simp]:
  "CHR ''/'' \<notin> set e' \<Longrightarrow> \<not> below (dir @ CHR ''/'' # e) (dir @ CHR ''/'' # e')"
  using not_below_sibling [of e' dir e] by simp

section \<open>The switch of the current database is atomic\<close>

text \<open>What a complete \<^verbatim>\<open>current\<close> file says: the checksum and then the name.\<close>

definition currentContent :: "string \<Rightarrow> bytes" where
  "currentContent dbdir = take 8 (md5 dbdir) @ dbdir"

lemma saveCurrentDBDirName_keeps:
  assumes "plainPath dir" and "q \<noteq> updFile dir"
  shows "keeps (atPath q Q) (saveCurrentDBDirName E dir dbdir)"
  using assms unfolding saveCurrentDBDirName_def Let_def
  by (intro keeps_intros) auto

lemma withDefer_OkD:
  assumes "withDefer m d w = (Ok a, w'')"
  obtains w' where "m w = (Ok a, w')" and "snd (d w') = w''"
  using assms by (auto simp: withDefer_def split: prod.splits outcome.splits)

lemma saveCurrentDBDirName_Ok:
  assumes dir: "plainPath dir"
    and ok: "saveCurrentDBDirName E dir dbdir w = (Ok u, w'')"
  shows "map_of (tree w'') (updFile dir) = Some (FFile (currentContent dbdir))"
proof -
  let ?fp = "updFile dir"
  from ok obtain w1 w2 w3 w4 d where
      c: "Create E ?fp w = (Ok (), w1)"
    and w1: "fileWrite E ?fp (take 8 (md5 dbdir)) w1 = (Ok (), w2)"
    and w2: "fileWrite E ?fp dbdir w2 = (Ok (), w3)"
    and s: "fileSync E ?fp w3 = (Ok (), w4)"
    and d: "snd (andThen (orPanic (fileClose E ?fp) ''close'') (\<lambda>_. orPanic (SyncDir E dir) ''sync'') w4) = w''"
    using dir
    by (auto simp: saveCurrentDBDirName_def Let_def ret_apply elim!: andThen_OkE withDefer_OkD)
  have "map_of (tree w1) ?fp = Some (FFile [])"
    using c by (auto simp: Create_def update_conv dest!: change_OkD)
  then have "map_of (tree w2) ?fp = Some (FFile (take 8 (md5 dbdir)))"
    using w1 by (auto simp: fileWrite_def update_conv dest!: change_OkD)
  then have "map_of (tree w3) ?fp = Some (FFile (currentContent dbdir))"
    using w2 by (auto simp: fileWrite_def currentContent_def update_conv dest!: change_OkD)
  then have "map_of (tree w4) ?fp = Some (FFile (currentContent dbdir))"
    using s by (auto simp: fileSync_def dest!: query_OkD)
  then have "atPath ?fp (\<lambda>x. x = Some (FFile (currentContent dbdir))) w4"
    by (simp add: atPath_def)
  moreover have "keeps (atPath ?fp (\<lambda>x. x = Some (FFile (currentContent dbdir))))
      (andThen (orPanic (fileClose E ?fp) ''close'') (\<lambda>_. orPanic (SyncDir E dir) ''sync''))"
    by (intro keeps_intros)
  ultimately show ?thesis
    using d by (auto simp: atPath_def dest: keepsD)
qed



text \<open>Putting \<^verbatim>\<open>current.updating\<close> in place: one rename, complete or not begun.\<close>

lemma replaceCurrentDBFile_atomic:
  assumes dir: "plainPath dir"
    and upd: "map_of (tree w) (updFile dir) = Some (FFile x)"
    and run: "replaceCurrentDBFile E dir w = (r, w')"
  shows "map_of (tree w') (curFile dir) = map_of (tree w) (curFile dir) \<and> r \<noteq> Ok ()
       \<or> map_of (tree w') (curFile dir) = Some (FFile x)"
proof -
  obtain r1 w1 where mv: "Rename E (updFile dir) (curFile dir) w = (r1, w1)"
    by (cases "Rename E (updFile dir) (curFile dir) w") auto
  have 1: "map_of (tree w1) (curFile dir) = map_of (tree w) (curFile dir) \<and> r1 \<noteq> Ok ()
       \<or> map_of (tree w1) (curFile dir) = Some (FFile x)"
    using mv upd by (auto simp: Rename_def change_def syscall_def atomically_def update_conv
        split: if_splits fault.splits)

  have "tree (snd (SyncDir E dir w1)) = tree w1"
    by (simp add: SyncDir_def query_def syscall_def split: fault.splits)
  then show ?thesis
    using 1 run dir mv by (cases r1) (auto simp: replaceCurrentDBFile_def go_simps)
qed

lemma replaceCurrentDBFile_keeps:
  assumes "plainPath dir" and "q \<noteq> updFile dir" and "q \<noteq> curFile dir"
    and "\<not> below (updFile dir) q" and "\<not> below (curFile dir) q"
  shows "keeps (atPath q Q) (replaceCurrentDBFile E dir)"
  using assms unfolding replaceCurrentDBFile_def Let_def
  by (intro keeps_intros) auto

text \<open>The two steps that make a database the current one, as \<^verbatim>\<open>Open\<close> and \<^verbatim>\<open>RecoverFromSnapshot\<close> do them.\<close>

abbreviation makeCurrent :: "'e os_scheme \<Rightarrow> string \<Rightarrow> string \<Rightarrow> ('s, 'z, unit) diskop" where
  "makeCurrent E dir dbdir \<equiv>
     andThen (saveCurrentDBDirName E dir dbdir) (\<lambda>_. replaceCurrentDBFile E dir)"

lemma makeCurrent_atomic:
  assumes dir: "plainPath dir" and run: "makeCurrent E dir dbdir w = (r, w')"
  shows "map_of (tree w') (curFile dir) = map_of (tree w) (curFile dir) \<and> r \<noteq> Ok ()
       \<or> map_of (tree w') (curFile dir) = Some (FFile (currentContent dbdir))"
proof -
  obtain r1 w1 where save: "saveCurrentDBDirName E dir dbdir w = (r1, w1)"
    by (cases "saveCurrentDBDirName E dir dbdir w") auto
  have same: "map_of (tree w1) (curFile dir) = map_of (tree w) (curFile dir)"
    by (rule keeps_atPath_eq [OF saveCurrentDBDirName_keeps [OF dir] save]) simp
  show ?thesis
  proof (cases "\<exists>u. r1 = Ok u")
    case True
    then have "map_of (tree w1) (updFile dir) = Some (FFile (currentContent dbdir))"
      using saveCurrentDBDirName_Ok [OF dir] save by blast
    moreover have "replaceCurrentDBFile E dir w1 = (r, w')"
      using True run save by (auto simp: go_simps)
    ultimately show ?thesis
      using replaceCurrentDBFile_atomic [OF dir] same by metis
  next
    case False
    then show ?thesis
      using run save same by (cases r1) (auto simp: go_simps)
  qed
qed

lemma makeCurrent_keeps:
  assumes "plainPath dir" and "q \<noteq> updFile dir" and "q \<noteq> curFile dir"
    and "\<not> below (updFile dir) q" and "\<not> below (curFile dir) q"
  shows "keeps (atPath q Q) (makeCurrent E dir dbdir)"
  using assms by (intro keeps_intros saveCurrentDBDirName_keeps replaceCurrentDBFile_keeps) auto

section \<open>Reading the current file\<close>

lemma getCurrentDBDirName_Ok:
  assumes "plainPath dir" and "getCurrentDBDirName E dir w = (Ok name, w')"
  shows "map_of (tree w) (curFile dir) = Some (FFile (currentContent name)) \<and> name \<noteq> ''''
    \<and> tree w' = tree w"
proof -
  from assms obtain w1 w2 data where
      o: "OpenRead E (curFile dir) w = (Ok (), w1)"
    and r: "ReadAll E (curFile dir) w1 = (Ok data, w2)"
    and d: "\<not> length data \<le> 8" "take 8 data = take 8 (md5 (drop 8 data))" "name = drop 8 data"
    and c: "snd (orPanic (fileClose E (curFile dir)) ''close'' w2) = w'"
    by (auto simp: getCurrentDBDirName_def Let_def ret_apply gopanic_apply
        elim!: andThen_OkE withDefer_OkD split: if_splits)
  have "map_of (tree w) (curFile dir) = Some (FFile data)" and "tree w2 = tree w"
    using o r by (auto simp: OpenRead_def ReadAll_def dest!: query_OkD split: option.splits node.splits)
  moreover have "data = currentContent name"
    unfolding currentContent_def d(3) d(2) [symmetric] by simp
  moreover have "tree w' = tree w2"
    using c by (auto simp: orPanic_apply fileClose_def query_def syscall_def split: fault.splits)
  moreover have "name \<noteq> ''''" using d(1,3) by simp
  ultimately show ?thesis by simp
qed

lemma getCurrentDBDirName_well:
  assumes "plainPath dir" and "faultless E"
    and "map_of (tree w) (curFile dir) = Some (FFile (currentContent name))" and "name \<noteq> ''''"
  shows "getCurrentDBDirName E dir w = (Ok name, w\<lparr>calls := calls w + 3\<rparr>)"
  using assms
  by (simp add: getCurrentDBDirName_def Let_def OpenRead_def ReadAll_def fileClose_def query_well
      andThen_apply orPanic_apply ret_apply withDefer_def currentContent_def)

lemma keeps_getCurrentDBDirName [keeps_intros]:
  "stable P \<Longrightarrow> keeps P (getCurrentDBDirName E dir)"
  unfolding getCurrentDBDirName_def Let_def by (intro keeps_intros)

section \<open>Cleaning up\<close>

lemma cleanupLoop_keeps:
  assumes "plainPath dir" and "\<forall>(name, _) \<in> set files. plainElem name"
    and "\<And>name. (name, True) \<in> set files \<Longrightarrow> dir @ ''/'' @ name \<noteq> dbdir \<Longrightarrow>
           q \<noteq> dir @ ''/'' @ name \<and> \<not> below (dir @ ''/'' @ name) q
           \<or> Q = (\<lambda>x. x = None)"
  shows "keeps (atPath q Q) (cleanupLoop E dir dbdir files)"
  using assms(2,3)
proof (induction files)
  case (Cons f files)
  obtain name isDir where f: "f = (name, isDir)" by (cases f)
  with Cons.prems assms(1) have name: "plainElem name" "pathJoin [dir, name] = dir @ ''/'' @ name"
    by (auto simp: pathJoin_plain)
  note IH = Cons.IH [OF _ Cons.prems(2)]
  from Cons.prems(1) have files: "\<forall>(name, _) \<in> set files. plainElem name" by simp
  show ?case
  proof (cases "isDir \<and> dir @ ''/'' @ name \<noteq> dbdir")
    case True
    then have q: "q \<noteq> dir @ ''/'' @ name \<and> \<not> below (dir @ ''/'' @ name) q \<or> Q = (\<lambda>x. x = None)"
      using Cons.prems(2) [of name] f by simp
    have run: "cleanupLoop E dir dbdir (f # files) =
        andThen (RemoveAll E (dir @ ''/'' @ name)) (\<lambda>_. cleanupLoop E dir dbdir files)"
      using True name by (simp add: f)
    from q show ?thesis
      by (elim disjE conjE; unfold run; intro keeps_andThen IH [OF files])
        (simp_all add: keeps_RemoveAll_other keeps_RemoveAll_absent)
  next
    case False
    with name show ?thesis using IH [OF files] by (auto simp: f)
  qed
qed (simp add: keeps_ret)

lemma RemoveAll_OkD:
  "RemoveAll E p w = (Ok u, w') \<Longrightarrow> p \<noteq> '''' \<Longrightarrow> tree w' = dropTree p (tree w)"
  by (auto simp: RemoveAll_def dest!: change_OkD)

lemma cleanupLoop_removes:
  assumes "plainPath dir" and "\<forall>(name, _) \<in> set files. plainElem name"
    and "(name, True) \<in> set files" and "dir @ ''/'' @ name \<noteq> dbdir"
    and "q = dir @ ''/'' @ name \<or> below (dir @ ''/'' @ name) q"
    and "cleanupLoop E dir dbdir files w = (Ok u, w')"
  shows "map_of (tree w') q = None"
  using assms(2,3,6)
proof (induction files arbitrary: w)
  case (Cons f files)
  obtain n isDir where f: "f = (n, isDir)" by (cases f)
  with Cons.prems assms(1) have n: "plainElem n" "pathJoin [dir, n] = dir @ ''/'' @ n"
    by (auto simp: pathJoin_plain)
  have rest: "\<forall>(name, _) \<in> set files. plainElem name" using Cons.prems by simp
  show ?case
  proof (cases "f = (name, True)")
    case False
    with Cons.prems(2) have mem: "(name, True) \<in> set files" by auto
    from Cons.prems(3) obtain w1 where "cleanupLoop E dir dbdir files w1 = (Ok u, w')"
      by (auto simp: f Let_def split: if_splits elim!: andThen_OkE)
    then show ?thesis by (rule Cons.IH [OF rest mem])
  next
    case True
    with Cons.prems(3) f n assms(4) obtain w1 where
        rm: "RemoveAll E (dir @ ''/'' @ name) w = (Ok (), w1)"
      and loop: "cleanupLoop E dir dbdir files w1 = (Ok u, w')"
      by (auto elim!: andThen_OkE)
    have "atPath q (\<lambda>x. x = None) w1"
      using RemoveAll_OkD [OF rm] assms(5) by (auto simp: atPath_def map_of_dropTree)
    moreover have "keeps (atPath q (\<lambda>x. x = None)) (cleanupLoop E dir dbdir files)"
      by (rule cleanupLoop_keeps [OF assms(1) rest]) simp
    ultimately have "atPath q (\<lambda>x. x = None) w'"
      using loop by (auto dest: keepsD)
    then show ?thesis by (simp add: atPath_def)
  qed
qed simp

lemma entries_plain:
  assumes "plainTree t" and "(name, isDir) \<in> set (entries d t)"
  shows "plainElem name"
proof -
  from assms(2) obtain q where q: "q \<in> fst ` set t" "below d q" and name: "name = drop (length d + 1) q"
      and slash: "CHR ''/'' \<notin> set name"
    by (auto simp: entries_def)
  then have "q = d @ ''/'' @ name"
    by (auto simp: below_def HasPrefix_iff prefix_def)
  moreover have "plainPath q" using assms(1) q by (auto simp: plainTree_def)
  ultimately show ?thesis using slash plainElem_child by blast
qed

lemma entries_complete:
  assumes "isDirAt t (d @ ''/'' @ name)" and "CHR ''/'' \<notin> set name"
  shows "(name, True) \<in> set (entries d t)"
proof -
  let ?q = "d @ ''/'' @ name"
  have "?q \<in> fst ` set t"
    using assms(1) by (auto simp: isDirAt_def map_of_eq_None_iff split: option.splits)
      (metis map_of_eq_None_iff option.distinct(1))
  then show ?thesis
    using assms unfolding entries_def by (force simp: image_iff)
qed

lemma getCurrentDBDirName_depends:
  assumes "faultless E" and "plainPath dir"
    and "map_of (tree w') (curFile dir) = map_of (tree w) (curFile dir)"
  shows "fst (getCurrentDBDirName E dir w') = fst (getCurrentDBDirName E dir w)"
  using assms
  by (auto simp: getCurrentDBDirName_def Let_def OpenRead_def ReadAll_def fileClose_def query_well
      andThen_apply orPanic_apply ret_apply gopanic_apply withDefer_def split: option.splits node.splits)

lemma currentContent_inject [simp]: "currentContent a = currentContent b \<longleftrightarrow> a = b"
  by (auto simp: currentContent_def append_eq_append_conv)

lemma keeps_tree_eq: "(\<And>t. keeps (\<lambda>w. tree w = t) m) \<Longrightarrow> m w = (r, w') \<Longrightarrow> tree w' = tree w"
  unfolding keeps_def by (metis snd_conv)

text \<open>After the first removal, a clean-up ends at once or runs its loop on the entries.\<close>

lemma cleanupNodeDataDir_run:
  assumes dir: "plainPath dir"
    and rm: "ignoreErr (RemoveAll E (updFile dir)) w = (r1, w1)"
    and cur: "map_of (tree w1) (curFile dir) = Some (FFile (currentContent dbdir))"
    and run: "cleanupNodeDataDir E dir w = (r, w')"
  shows "tree w' = tree w1 \<and> r \<noteq> Ok () \<or>
    (\<exists>w2. tree w2 = tree w1 \<and> cleanupLoop E dir dbdir (entries dir (tree w1)) w2 = (r, w'))"
proof -
  obtain r2 w2 where get: "getCurrentDBDirName E dir w1 = (r2, w2)" by (cases "getCurrentDBDirName E dir w1")
  have w2: "tree w2 = tree w1"
    by (rule keeps_tree_eq [OF keeps_getCurrentDBDirName get]) auto
  have name: "name = dbdir" if "r2 = Ok name" for name
    using getCurrentDBDirName_Ok [OF dir] get that cur by fastforce
  obtain r3 w3 where read: "ReadDir E dir w2 = (r3, w3)" by (cases "ReadDir E dir w2")
  have w3: "tree w3 = tree w1" "r3 = Ok fs \<Longrightarrow> fs = entries dir (tree w1)" for fs
    using read w2 by (auto simp: ReadDir_def query_def syscall_def split: fault.splits if_splits)
  show ?thesis
    using run rm get read dir w2 w3 name
    by (cases r1; cases r2; cases r3) (auto simp: cleanupNodeDataDir_def andThen_apply)
qed

lemma below_append: "below (d @ ''/'' @ n) (d @ ''/'' @ e @ ''/'' @ r) \<Longrightarrow>
  CHR ''/'' \<notin> set n \<Longrightarrow> CHR ''/'' \<notin> set e \<Longrightarrow> n = e"
proof -
  assume b: "below (d @ ''/'' @ n) (d @ ''/'' @ e @ ''/'' @ r)"
    and n: "CHR ''/'' \<notin> set n" and e: "CHR ''/'' \<notin> set e"
  from b obtain s where "e @ CHR ''/'' # r = n @ CHR ''/'' # s"
    by (auto simp: below_def HasPrefix_iff prefix_def)
  then have "Split (e @ CHR ''/'' # r) CHR ''/'' = Split (n @ CHR ''/'' # s) CHR ''/''" by simp
  with n e show ?thesis by (simp add: Split_append_sep)
qed

text \<open>A directory entry, what is inside it, and the \<^verbatim>\<open>current\<close> file are apart from every other entry.\<close>

lemma entry_apart:
  assumes q: "q = d @ ''/'' @ e \<or> below (d @ ''/'' @ e) q \<or> q = curFile d"
    and "plainElem e" "plainElem n" "n \<noteq> e" "n \<noteq> currentDBFilename"
  shows "q \<noteq> d @ ''/'' @ n \<and> \<not> below (d @ ''/'' @ n) q"
proof -
  have slash: "CHR ''/'' \<notin> set e" "CHR ''/'' \<notin> set n" using assms by (simp_all add: plainElem_def)
  from q consider "q = d @ ''/'' @ e" | r where "q = d @ ''/'' @ e @ ''/'' @ r" | "q = curFile d"
    by (auto simp: below_def HasPrefix_iff prefix_def)
  then show ?thesis
  proof cases
    case 2
    then show ?thesis using below_append [of d n e r] slash assms(4) by auto
  qed (use assms slash in auto)
qed

lemma cleanupNodeDataDir_frame:
  assumes dir: "plainPath dir" and plain: "plainTree (tree w)"
    and cur: "map_of (tree w) (curFile dir) = Some (FFile (currentContent dbdir))"
    and dbdir: "dbdir = dir @ ''/'' @ e" "plainElem e" "e \<noteq> updatingDBFilename"
    and q: "q = dbdir \<or> below dbdir q \<or> q = curFile dir"
    and run: "cleanupNodeDataDir E dir w = (r, w')"
  shows "map_of (tree w') q = map_of (tree w) q"
proof -
  let ?rm = "ignoreErr (RemoveAll E (updFile dir))"
  obtain r1 w1 where rm: "?rm w = (r1, w1)" by (cases "?rm w")
  have apart: "q' \<noteq> dir @ ''/'' @ n \<and> \<not> below (dir @ ''/'' @ n) q'"
    if "q' = q \<or> q' = curFile dir" "plainElem n" "n \<noteq> e" "n \<noteq> currentDBFilename" for q' n
    using that q dbdir(2) by (intro entry_apart [of _ _ e]) (auto simp: dbdir(1))
  have "map_of (tree w1) q' = map_of (tree w) q'" if "q' = q \<or> q' = curFile dir" for q'
    using apart [OF that, of updatingDBFilename] dbdir(3)
    by (intro keeps_atPath_eq [OF keeps_ignoreErr [OF keeps_RemoveAll_other] rm]) auto
  then have w1: "map_of (tree w1) q = map_of (tree w) q"
      "map_of (tree w1) (curFile dir) = Some (FFile (currentContent dbdir))"
    using cur by auto
  have "plainTree (tree w1)"
    using keepsD [OF keeps_ignoreErr [OF keeps_RemoveAll_plain] plain] rm by (metis snd_conv)
  then have ents: "\<forall>(name, _) \<in> set (entries dir (tree w1)). plainElem name"
    using entries_plain by blast
  have notcur: "n \<noteq> currentDBFilename" if "(n, True) \<in> set (entries dir (tree w1))" for n
  proof
    assume "n = currentDBFilename"
    with that have "isDirAt (tree w1) (curFile dir)"
      by (auto simp: entries_def below_def HasPrefix_iff prefix_def)
    then show False using w1(2) by (simp add: isDirAt_def)
  qed
  from cleanupNodeDataDir_run [OF dir rm w1(2) run] show ?thesis
  proof (elim disjE exE conjE)
    fix w2 assume w2: "tree w2 = tree w1"
      and loop: "cleanupLoop E dir dbdir (entries dir (tree w1)) w2 = (r, w')"
    have "map_of (tree w') q = map_of (tree w2) q"
      using apart ents notcur dbdir(1)
      by (intro keeps_atPath_eq [OF cleanupLoop_keeps [OF dir ents] loop]) fastforce
    with w2 w1 show ?thesis by simp
  qed (simp add: w1)
qed

lemma cleanupNodeDataDir_removes:
  assumes dir: "plainPath dir" and plain: "plainTree (tree w)"
    and cur: "map_of (tree w) (curFile dir) = Some (FFile (currentContent dbdir))"
    and n: "isDirAt (tree w) (dir @ ''/'' @ n)" "plainElem n" "n \<noteq> updatingDBFilename"
      "dir @ ''/'' @ n \<noteq> dbdir"
    and q: "q = dir @ ''/'' @ n \<or> below (dir @ ''/'' @ n) q"
    and run: "cleanupNodeDataDir E dir w = (Ok u, w')"
  shows "map_of (tree w') q = None"
proof -
  let ?rm = "ignoreErr (RemoveAll E (updFile dir))"
  obtain r1 w1 where rm: "?rm w = (r1, w1)" by (cases "?rm w")
  have same: "map_of (tree w1) p = map_of (tree w) p"
    if "p = dir @ ''/'' @ n \<or> p = curFile dir" for p
    using that entry_apart [of p dir n updatingDBFilename] n
    by (intro keeps_atPath_eq [OF keeps_ignoreErr [OF keeps_RemoveAll_other] rm]) auto
  have "plainTree (tree w1)"
    using keepsD [OF keeps_ignoreErr [OF keeps_RemoveAll_plain] plain] rm by (metis snd_conv)
  then have ents: "\<forall>(name, _) \<in> set (entries dir (tree w1)). plainElem name"
    using entries_plain by blast
  have "isDirAt (tree w1) (dir @ ''/'' @ n)"
    using n(1) same by (simp add: isDirAt_def)
  then have "(n, True) \<in> set (entries dir (tree w1))"
    using n(2) by (intro entries_complete) (simp_all add: plainElem_def)
  moreover have cur1: "map_of (tree w1) (curFile dir) = Some (FFile (currentContent dbdir))"
    using cur same by simp
  ultimately show ?thesis
    using cleanupNodeDataDir_run [OF dir rm cur1 run] cleanupLoop_removes [OF dir ents _ n(4) q]
    by auto
qed

section \<open>Properties\<close>

text \<open>
  C8. Making a database directory the current one is atomic. Whatever system call fails and
  wherever the process is killed while \<^verbatim>\<open>saveCurrentDBDirName\<close> and \<^verbatim>\<open>replaceCurrentDBFile\<close>
  run, a later \<^verbatim>\<open>getCurrentDBDirName\<close> gives what it would have given before the switch or the
  new name, and the new name when the switch reported success; no other path is touched.
\<close>

theorem current_switch_atomic:
  assumes "plainPath dir" and "dbdir \<noteq> ''''" and "faultless E'"
    and "andThen (saveCurrentDBDirName E dir dbdir) (\<lambda>_. replaceCurrentDBFile E dir) w = (r, w')"
  shows "(fst (getCurrentDBDirName E' dir w') = fst (getCurrentDBDirName E' dir w) \<and> r \<noteq> Ok ()
          \<or> fst (getCurrentDBDirName E' dir w') = Ok dbdir)
    \<and> (\<forall>q. q \<notin> {updFile dir, curFile dir} \<and> \<not> below (updFile dir) q \<and> \<not> below (curFile dir) q
         \<longrightarrow> map_of (tree w') q = map_of (tree w) q)"
proof (intro conjI allI impI)
  show "fst (getCurrentDBDirName E' dir w') = fst (getCurrentDBDirName E' dir w) \<and> r \<noteq> Ok ()
      \<or> fst (getCurrentDBDirName E' dir w') = Ok dbdir"
    using makeCurrent_atomic [OF assms(1,4)]
  proof (elim disjE conjE)
    assume "map_of (tree w') (curFile dir) = map_of (tree w) (curFile dir)" and "r \<noteq> Ok ()"
    then show ?thesis using getCurrentDBDirName_depends [OF assms(3,1)] by blast
  next
    assume "map_of (tree w') (curFile dir) = Some (FFile (currentContent dbdir))"
    from getCurrentDBDirName_well [OF assms(1,3) this assms(2)] show ?thesis by simp
  qed
next
  fix q assume "q \<notin> {updFile dir, curFile dir} \<and> \<not> below (updFile dir) q \<and> \<not> below (curFile dir) q"
  then show "map_of (tree w') q = map_of (tree w) q"
    using assms by (intro keeps_atPath_eq [OF makeCurrent_keeps assms(4)]) auto
qed

definition exampleOS :: "(nat \<Rightarrow> fault) \<Rightarrow> os" where
  "exampleOS f = \<lparr>faults = f, rand_Uint64 = (\<lambda>_. 7), UnixNano = (\<lambda>_. 9), lib_SyncDir = (\<lambda>_ _. None)\<rparr>"

definition exampleDir :: string where "exampleDir = ''dcrontab-data/1_1''"

lemma plainPath_exampleDir [simp]: "plainPath exampleDir"
  by (simp add: exampleDir_def plainPath_def plainElem_def)

lemma faultless_exampleOS [simp]: "faultless (exampleOS (\<lambda>_. NoFault))"
  by (simp add: faultless_def exampleOS_def)

definition exampleDisk :: "nat disk" where
  "exampleDisk = \<lparr>calls = 0, tree =
     [(exampleDir, FDir), (exampleDir @ ''/'' @ ''1_1'', FDb 0), (exampleDir @ ''/'' @ ''2_2'', FDb 5),
      (curFile exampleDir, FFile (currentContent (exampleDir @ ''/'' @ ''1_1'')))]\<rparr>"

text \<open>The process dies while the name is written: the old database stays the current one.\<close>

theorem current_switch_atomic_witness:
  "let E = exampleOS (\<lambda>n. if n = 2 then Kill 3 else NoFault);
       run = andThen (saveCurrentDBDirName E exampleDir ''new'') (\<lambda>_. replaceCurrentDBFile E exampleDir) exampleDisk;
       E' = exampleOS (\<lambda>_. NoFault)
   in fst (getCurrentDBDirName E' exampleDir (snd run)) = fst (getCurrentDBDirName E' exampleDir exampleDisk)
        \<and> fst run \<noteq> Ok ()
      \<or> fst (getCurrentDBDirName E' exampleDir (snd run)) = Ok ''new''"
  unfolding Let_def
  by (rule conjunct1 [OF current_switch_atomic [OF plainPath_exampleDir _ faultless_exampleOS
      prod.collapse [symmetric]]]) simp

text \<open>
  What \<^verbatim>\<open>getCurrentDBDirName\<close> returns is sound: a name it returns is exactly one for which
  the \<^verbatim>\<open>current\<close> file holds the name with its matching checksum, and a file saved for a
  non-empty name is read back as this name when no call fails.
\<close>

theorem current_name_roundtrip:
  assumes "plainPath dir"
  shows "(getCurrentDBDirName E dir w = (Ok name, w')
          \<longrightarrow> map_of (tree w) (curFile dir) = Some (FFile (currentContent name)) \<and> tree w' = tree w)
    \<and> (faultless E \<and> name \<noteq> '''' \<and> map_of (tree w) (curFile dir) = Some (FFile (currentContent name))
          \<longrightarrow> fst (getCurrentDBDirName E dir w) = Ok name)"
  using getCurrentDBDirName_Ok [OF assms, of E w name w'] getCurrentDBDirName_well [OF assms, of E w name]
  by (intro conjI impI) simp_all

theorem current_name_roundtrip_witness:
  "fst (getCurrentDBDirName (exampleOS (\<lambda>_. NoFault)) exampleDir
      \<lparr>calls = 0, tree = [(curFile exampleDir, FFile (currentContent ''x''))]\<rparr>) = Ok ''x''"
  by (rule mp [OF conjunct2 [OF current_name_roundtrip [OF plainPath_exampleDir]]]) simp

text \<open>
  C17. A clean-up never touches the current database or the \<^verbatim>\<open>current\<close> file, whatever fails,
  and a clean-up that succeeds has removed every other directory of the node's data
  directory with all its contents.
\<close>

theorem cleanup_keeps_current_db:
  assumes "plainPath dir" and "plainTree (tree w)" and "plainElem e" and "e \<noteq> updatingDBFilename"
    and "map_of (tree w) (curFile dir) = Some (FFile (currentContent (dir @ ''/'' @ e)))"
    and "cleanupNodeDataDir E dir w = (r, w')"
  shows "(\<forall>q. q = dir @ ''/'' @ e \<or> below (dir @ ''/'' @ e) q \<or> q = curFile dir
            \<longrightarrow> map_of (tree w') q = map_of (tree w) q)
    \<and> (r = Ok () \<longrightarrow> (\<forall>n q. plainElem n \<and> n \<noteq> e \<and> n \<noteq> updatingDBFilename
            \<and> isDirAt (tree w) (dir @ ''/'' @ n)
            \<and> (q = dir @ ''/'' @ n \<or> below (dir @ ''/'' @ n) q) \<longrightarrow> map_of (tree w') q = None))"
proof (intro conjI allI impI)
  fix q assume "q = dir @ ''/'' @ e \<or> below (dir @ ''/'' @ e) q \<or> q = curFile dir"
  then show "map_of (tree w') q = map_of (tree w) q"
    by (rule cleanupNodeDataDir_frame [OF assms(1,2,5) refl assms(3,4) _ assms(6)])
next
  fix n q
  assume r: "r = Ok ()" and n: "plainElem n \<and> n \<noteq> e \<and> n \<noteq> updatingDBFilename
      \<and> isDirAt (tree w) (dir @ ''/'' @ n) \<and> (q = dir @ ''/'' @ n \<or> below (dir @ ''/'' @ n) q)"
  from n have q: "q = dir @ ''/'' @ n \<or> below (dir @ ''/'' @ n) q" by blast
  show "map_of (tree w') q = None"
    using n by (intro cleanupNodeDataDir_removes [OF assms(1,2,5) _ _ _ _ q assms(6) [unfolded r]]) simp_all
qed

theorem cleanup_keeps_current_db_witness:
  "map_of (tree (snd (cleanupNodeDataDir (exampleOS (\<lambda>n. if n = 4 then Kill 1 else NoFault)) exampleDir exampleDisk)))
     (exampleDir @ ''/'' @ ''1_1'') = map_of (tree exampleDisk) (exampleDir @ ''/'' @ ''1_1'')"
proof -
  have "plainTree (tree exampleDisk)" "plainElem ''1_1''" "''1_1'' \<noteq> updatingDBFilename"
    "map_of (tree exampleDisk) (curFile exampleDir) = Some (FFile (currentContent (exampleDir @ ''/'' @ ''1_1'')))"
    by (simp_all add: exampleDisk_def plainTree_def exampleDir_def plainPath_def plainElem_def
        currentDBFilename_def updatingDBFilename_def)
  from cleanup_keeps_current_db [OF plainPath_exampleDir this prod.collapse [symmetric]]
  show ?thesis by blast
qed

end
