(* ===== verification/Gorocksdb.thy ===== *)
theory Gorocksdb
  imports File_System
begin

text \<open>
  The Go side of the RocksDB binding, the files of \<^verbatim>\<open>src/dcrontab/gorocksdb\<close> that the program
  runs through: slices, options, write batches, iterators, snapshots and the database
  object. The C library behind it is a parameter, the record \<open>rocksdb_c\<close> of the C functions
  the Go code calls; what the code relies on of it is the locale \<open>rocks\<close>, stated with the map
  from keys to values that a database stands for.
\<close>

section \<open>Slices: slice.go and util.go\<close>

definition btoi :: "bool \<Rightarrow> int" where
  "btoi b = (if b then 1 else 0)"

definition boolToChar :: "bool \<Rightarrow> nat" where
  "boolToChar b = (if b then 1 else 0)"

text \<open>
  Memory of the C side that a Go value points to is its bytes; \<open>None\<close> is the null pointer.
  A Go slice over it has the length that it is given.
\<close>

definition charToByte :: "bytes option \<Rightarrow> nat \<Rightarrow> bytes" where
  "charToByte data len = (case data of None \<Rightarrow> [] | Some d \<Rightarrow> take len d)"

definition byteToChar :: "bytes \<Rightarrow> bytes option" where
  "byteToChar b = (if length b > 0 then Some b else None)"

record Slice =
  Slice_data :: "bytes option"
  Slice_size :: nat
  Slice_freed :: bool

definition NewSlice :: "bytes option \<Rightarrow> nat \<Rightarrow> Slice" where
  "NewSlice data sz = \<lparr>Slice_data = data, Slice_size = sz, Slice_freed = False\<rparr>"

definition StringToSlice :: "string \<Rightarrow> Slice" where
  "StringToSlice data = NewSlice (Some data) (length data)"

definition sliceData :: "Slice \<Rightarrow> bytes" where
  "sliceData s = charToByte (Slice_data s) (Slice_size s)"

definition sliceSize :: "Slice \<Rightarrow> nat" where
  "sliceSize s = Slice_size s"

text \<open>\<^verbatim>\<open>Free\<close>, with the number of times the C function \<^verbatim>\<open>free\<close> is called.\<close>

definition sliceFree :: "Slice \<Rightarrow> Slice \<times> nat" where
  "sliceFree s = (if \<not> Slice_freed s then (s\<lparr>Slice_freed := True\<rparr>, 1) else (s, 0))"

fun slicesDestroy :: "Slice list \<Rightarrow> Slice list \<times> nat" where
  "slicesDestroy [] = ([], 0)"
| "slicesDestroy (s # ss) =
     (case sliceFree s of (s', n) \<Rightarrow> case slicesDestroy ss of (ss', m) \<Rightarrow> (s' # ss', n + m))"

section \<open>Options\<close>

text \<open>
  An option object of the C library holds what was set on it; \<open>None\<close> is the pointer after
  \<^verbatim>\<open>Destroy\<close>.
\<close>

record c_options =
  create_if_missing :: bool
  use_fsync :: bool

record Options =
  Options_c :: "c_options option"

definition NewDefaultOptions :: Options where
  "NewDefaultOptions = \<lparr>Options_c = Some \<lparr>create_if_missing = False, use_fsync = False\<rparr>\<rparr>"

definition SetCreateIfMissing :: "Options \<Rightarrow> bool \<Rightarrow> Options" where
  "SetCreateIfMissing opts value =
     opts\<lparr>Options_c := map_option (\<lambda>c. c\<lparr>create_if_missing := (boolToChar value \<noteq> 0)\<rparr>) (Options_c opts)\<rparr>"

definition SetUseFsync :: "Options \<Rightarrow> bool \<Rightarrow> Options" where
  "SetUseFsync opts value =
     opts\<lparr>Options_c := map_option (\<lambda>c. c\<lparr>use_fsync := (btoi value \<noteq> 0)\<rparr>) (Options_c opts)\<rparr>"

definition OptionsDestroy :: "Options \<Rightarrow> Options" where
  "OptionsDestroy opts = opts\<lparr>Options_c := None\<rparr>"

text \<open>options_write.go\<close>

record c_writeoptions =
  wo_sync :: bool
  wo_disable_WAL :: bool

record WriteOptions =
  WriteOptions_c :: "c_writeoptions option"

definition NewDefaultWriteOptions :: WriteOptions where
  "NewDefaultWriteOptions = \<lparr>WriteOptions_c = Some \<lparr>wo_sync = False, wo_disable_WAL = False\<rparr>\<rparr>"

definition SetSync :: "WriteOptions \<Rightarrow> bool \<Rightarrow> WriteOptions" where
  "SetSync opts value =
     opts\<lparr>WriteOptions_c := map_option (\<lambda>c. c\<lparr>wo_sync := (boolToChar value \<noteq> 0)\<rparr>) (WriteOptions_c opts)\<rparr>"

definition DisableWAL :: "WriteOptions \<Rightarrow> bool \<Rightarrow> WriteOptions" where
  "DisableWAL opts value =
     opts\<lparr>WriteOptions_c := map_option (\<lambda>c. c\<lparr>wo_disable_WAL := (btoi value \<noteq> 0)\<rparr>) (WriteOptions_c opts)\<rparr>"

definition WriteOptionsDestroy :: "WriteOptions \<Rightarrow> WriteOptions" where
  "WriteOptionsDestroy opts = opts\<lparr>WriteOptions_c := None\<rparr>"

text \<open>options_read.go; \<^typ>\<open>'n\<close> is the type of the C library's snapshots.\<close>

record 'n c_readoptions =
  ro_verify_checksums :: bool
  ro_fill_cache :: bool
  ro_snapshot :: "'n option"
  ro_read_tier :: nat
  ro_tailing :: bool
  ro_iterate_upper_bound :: "bytes option"
  ro_pin_data :: bool
  ro_readahead_size :: uint64

record 'n ReadOptions =
  ReadOptions_c :: "'n c_readoptions option"

definition NewDefaultReadOptions :: "'n ReadOptions" where
  "NewDefaultReadOptions = \<lparr>ReadOptions_c = Some \<lparr>ro_verify_checksums = False, ro_fill_cache = True,
     ro_snapshot = None, ro_read_tier = 0, ro_tailing = False, ro_iterate_upper_bound = None,
     ro_pin_data = False, ro_readahead_size = 0\<rparr>\<rparr>"

definition onRead :: "('n c_readoptions \<Rightarrow> 'n c_readoptions) \<Rightarrow> 'n ReadOptions \<Rightarrow> 'n ReadOptions" where
  "onRead f opts = opts\<lparr>ReadOptions_c := map_option f (ReadOptions_c opts)\<rparr>"

definition SetVerifyChecksums :: "'n ReadOptions \<Rightarrow> bool \<Rightarrow> 'n ReadOptions" where
  "SetVerifyChecksums opts value = onRead (\<lambda>c. c\<lparr>ro_verify_checksums := (boolToChar value \<noteq> 0)\<rparr>) opts"

definition SetFillCache :: "'n ReadOptions \<Rightarrow> bool \<Rightarrow> 'n ReadOptions" where
  "SetFillCache opts value = onRead (\<lambda>c. c\<lparr>ro_fill_cache := (boolToChar value \<noteq> 0)\<rparr>) opts"

text \<open>A snapshot object is the C library's snapshot, \<open>None\<close> once released (snapshot.go).\<close>

record 'n Snapshot =
  Snapshot_c :: "'n option"

definition NewNativeSnapshot :: "'n \<Rightarrow> 'n Snapshot" where
  "NewNativeSnapshot c = \<lparr>Snapshot_c = Some c\<rparr>"

definition SetSnapshot :: "'n ReadOptions \<Rightarrow> 'n Snapshot \<Rightarrow> 'n ReadOptions" where
  "SetSnapshot opts snap = onRead (\<lambda>c. c\<lparr>ro_snapshot := Snapshot_c snap\<rparr>) opts"

definition SetReadTier :: "'n ReadOptions \<Rightarrow> nat \<Rightarrow> 'n ReadOptions" where
  "SetReadTier opts value = onRead (\<lambda>c. c\<lparr>ro_read_tier := value\<rparr>) opts"

definition SetTailing :: "'n ReadOptions \<Rightarrow> bool \<Rightarrow> 'n ReadOptions" where
  "SetTailing opts value = onRead (\<lambda>c. c\<lparr>ro_tailing := (boolToChar value \<noteq> 0)\<rparr>) opts"

definition SetIterateUpperBound :: "'n ReadOptions \<Rightarrow> bytes \<Rightarrow> 'n ReadOptions" where
  "SetIterateUpperBound opts key = onRead (\<lambda>c. c\<lparr>ro_iterate_upper_bound := byteToChar key\<rparr>) opts"

definition SetPinData :: "'n ReadOptions \<Rightarrow> bool \<Rightarrow> 'n ReadOptions" where
  "SetPinData opts value = onRead (\<lambda>c. c\<lparr>ro_pin_data := (boolToChar value \<noteq> 0)\<rparr>) opts"

definition SetReadaheadSize :: "'n ReadOptions \<Rightarrow> uint64 \<Rightarrow> 'n ReadOptions" where
  "SetReadaheadSize opts value = onRead (\<lambda>c. c\<lparr>ro_readahead_size := value\<rparr>) opts"

definition ReadOptionsDestroy :: "'n ReadOptions \<Rightarrow> 'n ReadOptions" where
  "ReadOptionsDestroy opts = opts\<lparr>ReadOptions_c := None\<rparr>"

section \<open>The C library\<close>

text \<open>
  The C functions the Go code calls. \<^typ>\<open>'s\<close> is the persistent state of a database,
  \<^typ>\<open>'b\<close> a write batch, \<^typ>\<open>'i\<close> an iterator, \<^typ>\<open>'n\<close> a snapshot. A function whose
  answer may depend on the moment takes the number of calls made before. Pairs of a pointer
  and a length are one byte string, an error message is \<open>None\<close> or \<open>Some\<close>.
\<close>

record ('s, 'b, 'i, 'n) rocksdb_c =
  c_open :: "nat \<Rightarrow> c_options option \<Rightarrow> 's option \<Rightarrow> string option \<times> 's"
  c_get :: "nat \<Rightarrow> 'n c_readoptions option \<Rightarrow> 's \<Rightarrow> bytes \<Rightarrow> string option \<times> bytes option"
  c_put :: "nat \<Rightarrow> c_writeoptions option \<Rightarrow> 's \<Rightarrow> bytes \<Rightarrow> bytes \<Rightarrow> string option \<times> 's"
  c_delete :: "nat \<Rightarrow> c_writeoptions option \<Rightarrow> 's \<Rightarrow> bytes \<Rightarrow> string option \<times> 's"
  c_merge :: "nat \<Rightarrow> c_writeoptions option \<Rightarrow> 's \<Rightarrow> bytes \<Rightarrow> bytes \<Rightarrow> string option \<times> 's"
  c_write :: "nat \<Rightarrow> c_writeoptions option \<Rightarrow> 's \<Rightarrow> 'b \<Rightarrow> string option \<times> 's"
  c_writebatch_create :: 'b
  c_writebatch_create_from :: "bytes option \<Rightarrow> 'b"
  c_writebatch_put :: "'b \<Rightarrow> bytes \<Rightarrow> bytes \<Rightarrow> 'b"
  c_writebatch_merge :: "'b \<Rightarrow> bytes \<Rightarrow> bytes \<Rightarrow> 'b"
  c_writebatch_delete :: "'b \<Rightarrow> bytes \<Rightarrow> 'b"
  c_writebatch_data :: "'b \<Rightarrow> bytes"
  c_writebatch_count :: "'b \<Rightarrow> int"
  c_writebatch_clear :: "'b \<Rightarrow> 'b"
  c_create_snapshot :: "'s \<Rightarrow> 'n"
  c_create_iterator :: "nat \<Rightarrow> 'n c_readoptions option \<Rightarrow> 's \<Rightarrow> 'i"
  c_iter_valid :: "'i \<Rightarrow> bool"
  c_iter_key :: "'i \<Rightarrow> bytes option"
  c_iter_value :: "'i \<Rightarrow> bytes option"
  c_iter_next :: "nat \<Rightarrow> 'i \<Rightarrow> 'i"
  c_iter_prev :: "nat \<Rightarrow> 'i \<Rightarrow> 'i"
  c_iter_seek_to_first :: "nat \<Rightarrow> 'i \<Rightarrow> 'i"
  c_iter_seek_to_last :: "nat \<Rightarrow> 'i \<Rightarrow> 'i"
  c_iter_seek :: "nat \<Rightarrow> 'i \<Rightarrow> bytes \<Rightarrow> 'i"
  c_iter_seek_for_prev :: "nat \<Rightarrow> 'i \<Rightarrow> bytes \<Rightarrow> 'i"
  c_iter_get_error :: "'i \<Rightarrow> string option"

text \<open>The environment of the program: the operating system and the RocksDB library.\<close>

record ('s, 'b, 'i, 'n) env = os +
  rocksLib :: "('s, 'b, 'i, 'n) rocksdb_c"

section \<open>Write batches: write_batch.go, lines 10 to 101\<close>

record 'b WriteBatch =
  WriteBatch_c :: "'b option"

definition NewWriteBatch :: "('s, 'b, 'i, 'n) rocksdb_c \<Rightarrow> 'b WriteBatch" where
  "NewWriteBatch C = \<lparr>WriteBatch_c = Some (c_writebatch_create C)\<rparr>"

definition WriteBatchFrom :: "('s, 'b, 'i, 'n) rocksdb_c \<Rightarrow> bytes \<Rightarrow> 'b WriteBatch" where
  "WriteBatchFrom C data = \<lparr>WriteBatch_c = Some (c_writebatch_create_from C (byteToChar data))\<rparr>"

definition onBatch :: "('b \<Rightarrow> 'b) \<Rightarrow> 'b WriteBatch \<Rightarrow> 'b WriteBatch" where
  "onBatch f wb = wb\<lparr>WriteBatch_c := map_option f (WriteBatch_c wb)\<rparr>"

definition batchPut :: "('s, 'b, 'i, 'n) rocksdb_c \<Rightarrow> 'b WriteBatch \<Rightarrow> bytes \<Rightarrow> bytes \<Rightarrow> 'b WriteBatch" where
  "batchPut C wb key value = onBatch (\<lambda>c. c_writebatch_put C c key value) wb"

definition batchMerge :: "('s, 'b, 'i, 'n) rocksdb_c \<Rightarrow> 'b WriteBatch \<Rightarrow> bytes \<Rightarrow> bytes \<Rightarrow> 'b WriteBatch" where
  "batchMerge C wb key value = onBatch (\<lambda>c. c_writebatch_merge C c key value) wb"

definition batchDelete :: "('s, 'b, 'i, 'n) rocksdb_c \<Rightarrow> 'b WriteBatch \<Rightarrow> bytes \<Rightarrow> 'b WriteBatch" where
  "batchDelete C wb key = onBatch (\<lambda>c. c_writebatch_delete C c key) wb"

definition batchData :: "('s, 'b, 'i, 'n) rocksdb_c \<Rightarrow> 'b WriteBatch \<Rightarrow> bytes" where
  "batchData C wb = (case WriteBatch_c wb of None \<Rightarrow> [] | Some c \<Rightarrow> c_writebatch_data C c)"

definition batchCount :: "('s, 'b, 'i, 'n) rocksdb_c \<Rightarrow> 'b WriteBatch \<Rightarrow> int" where
  "batchCount C wb = (case WriteBatch_c wb of None \<Rightarrow> 0 | Some c \<Rightarrow> c_writebatch_count C c)"

definition batchClear :: "('s, 'b, 'i, 'n) rocksdb_c \<Rightarrow> 'b WriteBatch \<Rightarrow> 'b WriteBatch" where
  "batchClear C wb = onBatch (c_writebatch_clear C) wb"

definition batchDestroy :: "'b WriteBatch \<Rightarrow> 'b WriteBatch" where
  "batchDestroy wb = wb\<lparr>WriteBatch_c := None\<rparr>"

section \<open>Iterators: iterator.go\<close>

text \<open>An iterator that was closed is taken as one that is not valid.\<close>

record 'i Iterator =
  Iterator_c :: "'i option"

definition iterValid :: "('s, 'b, 'i, 'n) rocksdb_c \<Rightarrow> 'i Iterator \<Rightarrow> bool" where
  "iterValid C iter = (case Iterator_c iter of None \<Rightarrow> False | Some i \<Rightarrow> c_iter_valid C i)"

definition iterSlice :: "('i \<Rightarrow> bytes option) \<Rightarrow> 'i Iterator \<Rightarrow> Slice option" where
  "iterSlice f iter =
     (case Option.bind (Iterator_c iter) f of
        None \<Rightarrow> None
      | Some k \<Rightarrow> Some \<lparr>Slice_data = Some k, Slice_size = length k, Slice_freed = True\<rparr>)"

definition iterKey :: "('s, 'b, 'i, 'n) rocksdb_c \<Rightarrow> 'i Iterator \<Rightarrow> Slice option" where
  "iterKey C iter = iterSlice (c_iter_key C) iter"

definition iterValue :: "('s, 'b, 'i, 'n) rocksdb_c \<Rightarrow> 'i Iterator \<Rightarrow> Slice option" where
  "iterValue C iter = iterSlice (c_iter_value C) iter"

definition ValidForPrefix :: "('s, 'b, 'i, 'n) rocksdb_c \<Rightarrow> 'i Iterator \<Rightarrow> bytes \<Rightarrow> bool option" where
  "ValidForPrefix C iter pre =
     (if \<not> iterValid C iter then Some False
      else (case iterKey C iter of
              None \<Rightarrow> None
            | Some key \<Rightarrow> Some (HasPrefix (sliceData key) pre)))"

definition onIter :: "('i \<Rightarrow> 'i) \<Rightarrow> 'i Iterator \<Rightarrow> 'i Iterator" where
  "onIter f iter = iter\<lparr>Iterator_c := map_option f (Iterator_c iter)\<rparr>"

definition iterNext :: "('s, 'b, 'i, 'n) rocksdb_c \<Rightarrow> nat \<Rightarrow> 'i Iterator \<Rightarrow> 'i Iterator" where
  "iterNext C t iter = onIter (c_iter_next C t) iter"

definition iterPrev :: "('s, 'b, 'i, 'n) rocksdb_c \<Rightarrow> nat \<Rightarrow> 'i Iterator \<Rightarrow> 'i Iterator" where
  "iterPrev C t iter = onIter (c_iter_prev C t) iter"

definition iterSeekToFirst :: "('s, 'b, 'i, 'n) rocksdb_c \<Rightarrow> nat \<Rightarrow> 'i Iterator \<Rightarrow> 'i Iterator" where
  "iterSeekToFirst C t iter = onIter (c_iter_seek_to_first C t) iter"

definition iterSeekToLast :: "('s, 'b, 'i, 'n) rocksdb_c \<Rightarrow> nat \<Rightarrow> 'i Iterator \<Rightarrow> 'i Iterator" where
  "iterSeekToLast C t iter = onIter (c_iter_seek_to_last C t) iter"

definition iterSeek :: "('s, 'b, 'i, 'n) rocksdb_c \<Rightarrow> nat \<Rightarrow> 'i Iterator \<Rightarrow> bytes \<Rightarrow> 'i Iterator" where
  "iterSeek C t iter key = onIter (\<lambda>i. c_iter_seek C t i key) iter"

definition iterSeekForPrev :: "('s, 'b, 'i, 'n) rocksdb_c \<Rightarrow> nat \<Rightarrow> 'i Iterator \<Rightarrow> bytes \<Rightarrow> 'i Iterator" where
  "iterSeekForPrev C t iter key = onIter (\<lambda>i. c_iter_seek_for_prev C t i key) iter"

definition iterErr :: "('s, 'b, 'i, 'n) rocksdb_c \<Rightarrow> 'i Iterator \<Rightarrow> error option" where
  "iterErr C iter = map_option ErrorString (Option.bind (Iterator_c iter) (c_iter_get_error C))"

definition iterClose :: "'i Iterator \<Rightarrow> 'i Iterator" where
  "iterClose iter = iter\<lparr>Iterator_c := None\<rparr>"

section \<open>Databases: db.go\<close>

text \<open>
  The databases that are open: a C pointer to one is a number, and it stands for the
  directory that was opened; the state of the database is the node of the tree there.
\<close>

record 's dbworld = "'s disk" +
  openDbs :: "nat \<Rightarrow> string option"
  nextDb :: nat

record DB =
  DB_c :: nat
  DB_name :: string
  DB_opts :: Options

type_synonym ('s, 'z, 'a) dbop = "(('s, 'z) dbworld_scheme, 'a) go"

definition dbAt :: "'s tree \<Rightarrow> string \<Rightarrow> 's option" where
  "dbAt t d = (case map_of t d of Some (FDb s) \<Rightarrow> Some s | _ \<Rightarrow> None)"

definition dbState :: "('s, 'z) dbworld_scheme \<Rightarrow> nat \<Rightarrow> 's option" where
  "dbState w c = Option.bind (openDbs w c) (dbAt (tree w))"

text \<open>
  A call of the C library that changes the database in a directory: it works on the state
  there, and the process may die in it before or after the library has made its change.
\<close>

definition libCall :: "('s, 'b, 'i, 'n, 'e) env_scheme \<Rightarrow> string \<Rightarrow> (nat \<Rightarrow> string option \<times> 's)
    \<Rightarrow> ('s, 'z, unit) dbop" where
  "libCall E dir call = (\<lambda>w.
     (case call (calls w) of
        (cErr, s') \<Rightarrow>
          let w1 = w\<lparr>calls := Suc (calls w)\<rparr>;
              w2 = w1\<lparr>tree := AList.update dir (FDb s') (tree w)\<rparr>
          in case faults E (calls w) of
               Kill n \<Rightarrow> (Crash, if n = 0 then w1 else w2)
             | Fail n e \<Rightarrow> (Err (ErrorString e), if n = 0 then w1 else w2)
             | NoFault \<Rightarrow> (case cErr of None \<Rightarrow> (Ok (), w2) | Some e \<Rightarrow> (Err (ErrorString e), w2))))"

definition OpenDb :: "('s, 'b, 'i, 'n, 'e) env_scheme \<Rightarrow> Options \<Rightarrow> string \<Rightarrow> ('s, 'z, DB) dbop" where
  "OpenDb E opts name = (\<lambda>w.
     (case map_of (tree w) name of
        Some (FFile _) \<Rightarrow> (Err (ErrorString ''not a directory''), w\<lparr>calls := Suc (calls w)\<rparr>)
      | _ \<Rightarrow>
        if \<not> isDirAt (tree w) (parentDir name)
        then (Err (ErrorString ''no such file or directory''), w\<lparr>calls := Suc (calls w)\<rparr>)
        else andThen (libCall E name (\<lambda>t. c_open (rocksLib E) t (Options_c opts) (dbAt (tree w) name)))
               (\<lambda>_ w'. (Ok \<lparr>DB_c = nextDb w', DB_name = name, DB_opts = opts\<rparr>,
                        w'\<lparr>openDbs := (openDbs w')(nextDb w' \<mapsto> name), nextDb := Suc (nextDb w')\<rparr>)) w))"

text \<open>
  Every other operation needs an open database; on a closed one, or one whose directory was
  removed, the C library's behaviour is undefined, which ends the process here.
\<close>

definition onDb :: "DB \<Rightarrow> (string \<Rightarrow> 's \<Rightarrow> ('s, 'z, 'a) dbop) \<Rightarrow> ('s, 'z, 'a) dbop" where
  "onDb db f = (\<lambda>w. case openDbs w (DB_c db) of
       None \<Rightarrow> (Panic ''use of a closed database'', w)
     | Some dir \<Rightarrow> (case dbAt (tree w) dir of
           None \<Rightarrow> (Panic ''use of a removed database'', w)
         | Some s \<Rightarrow> f dir s w))"

definition dbGet :: "('s, 'b, 'i, 'n, 'e) env_scheme \<Rightarrow> DB \<Rightarrow> 'n ReadOptions \<Rightarrow> bytes \<Rightarrow> ('s, 'z, Slice) dbop" where
  "dbGet E db opts key = onDb db (\<lambda>dir s w.
     (case c_get (rocksLib E) (calls w) (ReadOptions_c opts) s key of
        (cErr, cValue) \<Rightarrow>
          ((case cErr of
              Some e \<Rightarrow> Err (ErrorString e)
            | None \<Rightarrow> Ok (NewSlice cValue (case cValue of None \<Rightarrow> 0 | Some v \<Rightarrow> length v))),
           w\<lparr>calls := Suc (calls w)\<rparr>)))"

text \<open>\<^verbatim>\<open>GetBytes\<close> returns \<^verbatim>\<open>nil\<close> (\<open>None\<close>) for a key that is not there.\<close>

definition GetBytes :: "('s, 'b, 'i, 'n, 'e) env_scheme \<Rightarrow> DB \<Rightarrow> 'n ReadOptions \<Rightarrow> bytes \<Rightarrow> ('s, 'z, bytes option) dbop" where
  "GetBytes E db opts key = onDb db (\<lambda>dir s w.
     (case c_get (rocksLib E) (calls w) (ReadOptions_c opts) s key of
        (cErr, cValue) \<Rightarrow>
          ((case cErr of Some e \<Rightarrow> Err (ErrorString e) | None \<Rightarrow> Ok cValue),
           w\<lparr>calls := Suc (calls w)\<rparr>)))"

definition dbPut :: "('s, 'b, 'i, 'n, 'e) env_scheme \<Rightarrow> DB \<Rightarrow> WriteOptions \<Rightarrow> bytes \<Rightarrow> bytes \<Rightarrow> ('s, 'z, unit) dbop" where
  "dbPut E db opts key value = onDb db (\<lambda>dir s.
     libCall E dir (\<lambda>t. c_put (rocksLib E) t (WriteOptions_c opts) s key value))"

definition dbDelete :: "('s, 'b, 'i, 'n, 'e) env_scheme \<Rightarrow> DB \<Rightarrow> WriteOptions \<Rightarrow> bytes \<Rightarrow> ('s, 'z, unit) dbop" where
  "dbDelete E db opts key = onDb db (\<lambda>dir s.
     libCall E dir (\<lambda>t. c_delete (rocksLib E) t (WriteOptions_c opts) s key))"

definition dbMerge :: "('s, 'b, 'i, 'n, 'e) env_scheme \<Rightarrow> DB \<Rightarrow> WriteOptions \<Rightarrow> bytes \<Rightarrow> bytes \<Rightarrow> ('s, 'z, unit) dbop" where
  "dbMerge E db opts key value = onDb db (\<lambda>dir s.
     libCall E dir (\<lambda>t. c_merge (rocksLib E) t (WriteOptions_c opts) s key value))"

definition dbWrite :: "('s, 'b, 'i, 'n, 'e) env_scheme \<Rightarrow> DB \<Rightarrow> WriteOptions \<Rightarrow> 'b WriteBatch \<Rightarrow> ('s, 'z, unit) dbop" where
  "dbWrite E db opts batch = (case WriteBatch_c batch of
       None \<Rightarrow> gopanic ''use of a destroyed batch''
     | Some b \<Rightarrow> onDb db (\<lambda>dir s.
         libCall E dir (\<lambda>t. c_write (rocksLib E) t (WriteOptions_c opts) s b)))"

definition dbNewIterator :: "('s, 'b, 'i, 'n, 'e) env_scheme \<Rightarrow> DB \<Rightarrow> 'n ReadOptions \<Rightarrow> ('s, 'z, 'i Iterator) dbop" where
  "dbNewIterator E db opts = onDb db (\<lambda>dir s w.
     (Ok \<lparr>Iterator_c = Some (c_create_iterator (rocksLib E) (calls w) (ReadOptions_c opts) s)\<rparr>,
      w\<lparr>calls := Suc (calls w)\<rparr>))"

definition dbNewSnapshot :: "('s, 'b, 'i, 'n, 'e) env_scheme \<Rightarrow> DB \<Rightarrow> ('s, 'z, 'n Snapshot) dbop" where
  "dbNewSnapshot E db = onDb db (\<lambda>dir s.
     ret (NewNativeSnapshot (c_create_snapshot (rocksLib E) s)))"

definition dbReleaseSnapshot :: "DB \<Rightarrow> 'n Snapshot \<Rightarrow> 'n Snapshot" where
  "dbReleaseSnapshot db snapshot = snapshot\<lparr>Snapshot_c := None\<rparr>"

definition dbClose :: "DB \<Rightarrow> ('s, 'z, unit) dbop" where
  "dbClose db = (\<lambda>w. (Ok (), w\<lparr>openDbs := (openDbs w)(DB_c db := None)\<rparr>))"

section \<open>What the C library promises\<close>

text \<open>
  The contents of a database is a finite map from keys to values. A batch is a sequence of
  operations on it; an iterator walks over the pairs of the map in the order of the keys,
  byte by byte.
\<close>

datatype wbop = WPut bytes bytes | WDelete bytes | WMerge bytes bytes

fun applyOp :: "wbop \<Rightarrow> (bytes \<rightharpoonup> bytes) \<Rightarrow> (bytes \<rightharpoonup> bytes)" where
  "applyOp (WPut k v) m = m(k \<mapsto> v)"
| "applyOp (WDelete k) m = m(k := None)"
| "applyOp (WMerge k v) m = m"

definition noMerge :: "wbop list \<Rightarrow> bool" where
  "noMerge ops \<longleftrightarrow> (\<forall>k v. WMerge k v \<notin> set ops)"

definition pairs :: "(bytes \<rightharpoonup> bytes) \<Rightarrow> (bytes \<times> bytes) list" where
  "pairs m = map (\<lambda>k. (k, the (m k))) (sorted_list_of_set (dom m))"

text \<open>Read options under which an iterator sees all of a fixed state.\<close>

definition plainRead :: "'n c_readoptions option \<Rightarrow> 'n option \<Rightarrow> bool" where
  "plainRead ro snap \<longleftrightarrow> (\<exists>r. ro = Some r \<and> \<not> ro_tailing r \<and> ro_iterate_upper_bound r = None
     \<and> ro_read_tier r = 0 \<and> ro_snapshot r = snap)"

text \<open>
  The laws. A read that succeeds gives the value of the map; a write is atomic: whether it
  succeeds or not, the new contents is the old one or the old one with all operations of the
  batch done, and it is the latter when it succeeds; opening keeps the contents of an existing
  database and creates an empty one. An iterator has the pairs it walks over and those that
  are left from its position on; moving it does what it says or ends in an error, after which
  the iterator is not valid.
\<close>

locale rocks =
  fixes C :: "('s, 'b, 'i, 'n) rocksdb_c"
    and contents :: "'s \<Rightarrow> bytes \<rightharpoonup> bytes"
    and ops :: "'b \<Rightarrow> wbop list"
    and items :: "'i \<Rightarrow> (bytes \<times> bytes) list"
    and rest :: "'i \<Rightarrow> (bytes \<times> bytes) list"
    and snapped :: "'n \<Rightarrow> bytes \<rightharpoonup> bytes"
  assumes finite_contents: "finite (dom (contents s))"
    and open_contents: "c_open C t opt st = (e, s') \<Longrightarrow>
        contents s' = (case st of None \<Rightarrow> Map.empty | Some s \<Rightarrow> contents s)"
    and get_value: "plainRead ro None \<Longrightarrow> c_get C t ro s k = (None, mv) \<Longrightarrow> mv = contents s k"
    and write_ok: "noMerge (ops b) \<Longrightarrow> c_write C t wo s b = (None, s') \<Longrightarrow>
        contents s' = fold applyOp (ops b) (contents s)"
    and write_atomic: "noMerge (ops b) \<Longrightarrow> c_write C t wo s b = (e, s') \<Longrightarrow>
        contents s' = contents s \<or> contents s' = fold applyOp (ops b) (contents s)"
    and batch_create: "ops (c_writebatch_create C) = []"
    and batch_put: "ops (c_writebatch_put C b k v) = ops b @ [WPut k v]"
    and batch_delete: "ops (c_writebatch_delete C b k) = ops b @ [WDelete k]"
    and snapshot_contents: "snapped (c_create_snapshot C s) = contents s"
    and iterator_items: "plainRead ro None \<Longrightarrow> items (c_create_iterator C t ro s) = pairs (contents s)"
    and iterator_items_snapshot:
      "plainRead ro (Some n) \<Longrightarrow> items (c_create_iterator C t ro s) = pairs (snapped n)"
    and iter_valid: "c_iter_valid C i \<longleftrightarrow> rest i \<noteq> []"
    and iter_key: "rest i = (k, v) # r \<Longrightarrow> c_iter_key C i = Some k"
    and iter_value: "rest i = (k, v) # r \<Longrightarrow> c_iter_value C i = Some v"
    and next_items: "items (c_iter_next C t i) = items i"
    and next_rest: "rest i = p # r \<Longrightarrow> rest (c_iter_next C t i) = r
        \<or> rest (c_iter_next C t i) = [] \<and> c_iter_get_error C (c_iter_next C t i) \<noteq> None"
    and first_items: "items (c_iter_seek_to_first C t i) = items i"
    and first_rest: "rest (c_iter_seek_to_first C t i) = items i
        \<or> rest (c_iter_seek_to_first C t i) = [] \<and> c_iter_get_error C (c_iter_seek_to_first C t i) \<noteq> None"
    and seek_items: "items (c_iter_seek C t i k) = items i"
    and seek_rest: "rest (c_iter_seek C t i k) = dropWhile (\<lambda>(k', _). k' < k) (items i)
        \<or> rest (c_iter_seek C t i k) = [] \<and> c_iter_get_error C (c_iter_seek C t i k) \<noteq> None"

begin

lemma open_existing: "c_open C t opt (Some s) = (e, s') \<Longrightarrow> contents s' = contents s"
  using open_contents by fastforce

lemma open_missing: "c_open C t opt None = (e, s') \<Longrightarrow> contents s' = Map.empty"
  using open_contents by fastforce

lemma next_rest_shorter: "rest i \<noteq> [] \<Longrightarrow> length (rest (c_iter_next C t i)) < length (rest i)"
  using next_rest [of i "hd (rest i)" "tl (rest i)" t] by (cases "rest i") auto

lemma next_rest_suffix: "set (rest (c_iter_next C t i)) \<subseteq> set (rest i)" if "rest i \<noteq> []"
  using that next_rest [of i "hd (rest i)" "tl (rest i)" t] by (cases "rest i") auto

lemma batch_puts:
  "ops (fold (\<lambda>(k, v) b. c_writebatch_put C b k v) kvs b) = ops b @ map (\<lambda>(k, v). WPut k v) kvs"
  by (induction kvs arbitrary: b) (auto simp: batch_put)

end

text \<open>A library none of whose iterators ends in an error: they walk over all the pairs.\<close>

locale rocks_reliable = rocks +
  assumes no_error: "c_iter_get_error C i = None"
begin

lemma next_tail: "rest i = p # r \<Longrightarrow> rest (c_iter_next C t i) = r"
  using next_rest no_error by blast

lemma first_all: "rest (c_iter_seek_to_first C t i) = items i"
  using first_rest no_error by blast

lemma seek_from: "rest (c_iter_seek C t i k) = dropWhile (\<lambda>(k', _). k' < k) (items i)"
  using seek_rest no_error by blast

end

section \<open>The pairs of a map\<close>

lemma map_of_pairs: "finite (dom m) \<Longrightarrow> map_of (pairs m) = m"
proof
  fix k assume fin: "finite (dom m)"
  have "map_of (map (\<lambda>k. (k, the (m k))) ks) k = (if k \<in> set ks then Some (the (m k)) else None)" for ks
    by (induction ks) auto
  with fin show "map_of (pairs m) k = m k" by (cases "m k") (auto simp: pairs_def domIff)
qed

lemma fst_pairs: "map fst (pairs m) = sorted_list_of_set (dom m)"
  by (simp add: pairs_def comp_def)

lemma distinct_fst_pairs [simp]: "distinct (map fst (pairs m))"
  by (simp add: fst_pairs)

lemma set_pairs: "finite (dom m) \<Longrightarrow> (k, v) \<in> set (pairs m) \<longleftrightarrow> m k = Some v"
  using map_of_pairs [of m] map_of_eq_Some_iff [OF distinct_fst_pairs, of m k v] by simp

lemma sorted_pairs: "sorted (map fst (pairs m))"
  by (simp add: fst_pairs)

lemma fold_applyOp_puts:
  "fold applyOp (map (\<lambda>(k, v). WPut k v) kvs) m = m ++ map_of (rev kvs)"
  by (induction kvs arbitrary: m) (auto simp: map_add_def fun_eq_iff split: option.splits)

lemma noMerge_puts [simp]: "noMerge (map (\<lambda>(k, v). WPut k v) kvs)"
  by (auto simp: noMerge_def)

lemma map_of_rev_distinct: "distinct (map fst xs) \<Longrightarrow> map_of (rev xs) = map_of xs"
proof
  fix k assume d: "distinct (map fst xs)"
  then have "distinct (map fst (rev xs))" by (simp add: rev_map [symmetric])
  then have "map_of (rev xs) k = Some v \<longleftrightarrow> map_of xs k = Some v" for v
    using d by (simp add: map_of_eq_Some_iff)
  then show "map_of (rev xs) k = map_of xs k"
    by (metis not_None_eq)
qed

text \<open>Storing all pairs of a finite map in an empty map gives the map.\<close>

lemma restore_pairs:
  "finite (dom m) \<Longrightarrow> fold applyOp (map (\<lambda>(k, v). WPut k v) (pairs m)) Map.empty = m"
  by (simp add: fold_applyOp_puts map_of_rev_distinct map_of_pairs)

section \<open>A reference library\<close>

text \<open>
  A library that keeps the promises, with association lists for databases: the laws hold of
  it, so nothing proved from them is void.
\<close>

definition sortedPairs :: "(bytes \<times> bytes) list \<Rightarrow> (bytes \<times> bytes) list" where
  "sortedPairs s = map (\<lambda>k. (k, the (map_of s k))) (sort (remdups (map fst s)))"

definition applyList :: "wbop list \<Rightarrow> (bytes \<times> bytes) list \<Rightarrow> (bytes \<times> bytes) list" where
  "applyList = fold (\<lambda>op s. case op of
       WPut k v \<Rightarrow> AList.update k v s
     | WDelete k \<Rightarrow> AList.delete k s
     | WMerge k v \<Rightarrow> s)"

type_synonym refDb = "(bytes \<times> bytes) list"
type_synonym refIter = "(bytes \<times> bytes) list \<times> (bytes \<times> bytes) list"

definition refRocks :: "(refDb, wbop list, refIter, refDb) rocksdb_c" where
  "refRocks = \<lparr>
     c_open = (\<lambda>t opt st. (None, case st of None \<Rightarrow> [] | Some s \<Rightarrow> s)),
     c_get = (\<lambda>t ro s k. (None, map_of s k)),
     c_put = (\<lambda>t wo s k v. (None, AList.update k v s)),
     c_delete = (\<lambda>t wo s k. (None, AList.delete k s)),
     c_merge = (\<lambda>t wo s k v. (Some ''merge_operator is not properly initialized'', s)),
     c_write = (\<lambda>t wo s b. (None, applyList b s)),
     c_writebatch_create = [],
     c_writebatch_create_from = (\<lambda>_. []),
     c_writebatch_put = (\<lambda>b k v. b @ [WPut k v]),
     c_writebatch_merge = (\<lambda>b k v. b @ [WMerge k v]),
     c_writebatch_delete = (\<lambda>b k. b @ [WDelete k]),
     c_writebatch_data = (\<lambda>_. []),
     c_writebatch_count = (\<lambda>b. int (length b)),
     c_writebatch_clear = (\<lambda>_. []),
     c_create_snapshot = (\<lambda>s. s),
     c_create_iterator = (\<lambda>t ro s. (case Option.bind ro ro_snapshot of
        None \<Rightarrow> (sortedPairs s, []) | Some n \<Rightarrow> (sortedPairs n, []))),
     c_iter_valid = (\<lambda>(all, r). r \<noteq> []),
     c_iter_key = (\<lambda>(all, r). case r of [] \<Rightarrow> None | (k, v) # _ \<Rightarrow> Some k),
     c_iter_value = (\<lambda>(all, r). case r of [] \<Rightarrow> None | (k, v) # _ \<Rightarrow> Some v),
     c_iter_next = (\<lambda>t (all, r). (all, tl r)),
     c_iter_prev = (\<lambda>t (all, r). (all, drop (length all - length r - 1) all)),
     c_iter_seek_to_first = (\<lambda>t (all, r). (all, all)),
     c_iter_seek_to_last = (\<lambda>t (all, r). (all, drop (length all - 1) all)),
     c_iter_seek = (\<lambda>t (all, r) k. (all, dropWhile (\<lambda>(k', _). k' < k) all)),
     c_iter_seek_for_prev = (\<lambda>t (all, r) k. (all, drop (length (takeWhile (\<lambda>(k', _). k' \<le> k) all) - 1) all)),
     c_iter_get_error = (\<lambda>_. None)\<rparr>"

lemma sortedPairs_pairs: "sortedPairs s = pairs (map_of s)"
  by (simp add: sortedPairs_def pairs_def dom_map_of_conv_image_fst
      sorted_list_of_set_sort_remdups [symmetric])

lemma map_of_applyList: "map_of (applyList b s) = fold applyOp b (map_of s)"
proof (induction b arbitrary: s)
  case (Cons op b)
  then show ?case
    by (cases op) (simp_all add: applyList_def update_conv' delete_conv' fun_upd_def)
qed (simp add: applyList_def)

interpretation refLib: rocks_reliable refRocks map_of "\<lambda>b. b" fst snd map_of
  by unfold_locales
    (auto simp: refRocks_def finite_dom_map_of map_of_applyList plainRead_def sortedPairs_pairs
      split: prod.splits list.splits option.splits)

end
