(* ===== verification/Commander.thy ===== *)
theory Commander
  imports Gorocksdb Data_Dir Messages
begin

text \<open>
  The state machine of a replica, \<^verbatim>\<open>src/dcrontab/commander.go\<close>: the \<^verbatim>\<open>rocksdb\<close> wrapper, the
  \<^verbatim>\<open>Commander\<close> and its operations (open, lookup, update, snapshot, recovery, close, hash).
  The operations run on an explicit world: the file tree, the open databases, the heap of
  \<^verbatim>\<open>rocksdb\<close> structs and the \<^verbatim>\<open>Commander\<close> itself. The operations of one \<^verbatim>\<open>Commander\<close> run one
  after the other; the locks, and lookups beside other operations, are in \<^verbatim>\<open>Commander_Concurrent\<close>.
\<close>

section \<open>State\<close>

definition appliedIndexKey :: string where "appliedIndexKey = ''disk_kv_applied_index''"

record 'n rocksdb =
  rdb_db :: "DB option"
  rdb_ro :: "'n ReadOptions"
  rdb_wo :: WriteOptions
  rdb_opts :: Options
  rdb_closed :: bool

record Commander =
  clusterID :: uint64
  nodeID :: uint64
  lastApplied :: uint64
  cmd_db :: "nat option"
  cmd_closed :: bool
  cmd_aborted :: bool

record ('s, 'n) world = "'s dbworld" +
  rheap :: "nat \<Rightarrow> 'n rocksdb option"
  nextPtr :: nat
  commander :: Commander

type_synonym ('s, 'n, 'a) op = "(('s, 'n) world, 'a) go"

definition nilDeref :: string where
  "nilDeref = ''invalid memory address or nil pointer dereference''"

text \<open>\<^verbatim>\<open>p.f()\<close> on a pointer to a \<^verbatim>\<open>rocksdb\<close> struct, and \<^verbatim>\<open>p.db.f()\<close>.\<close>

definition deref :: "nat \<Rightarrow> ('n rocksdb \<Rightarrow> ('s, 'n, 'a) op) \<Rightarrow> ('s, 'n, 'a) op" where
  "deref p f = (\<lambda>w. case rheap w p of None \<Rightarrow> (Panic nilDeref, w) | Some r \<Rightarrow> f r w)"

definition derefDb :: "nat \<Rightarrow> ('n rocksdb \<Rightarrow> DB \<Rightarrow> ('s, 'n, 'a) op) \<Rightarrow> ('s, 'n, 'a) op" where
  "derefDb p f = deref p (\<lambda>r. case rdb_db r of None \<Rightarrow> gopanic nilDeref | Some db \<Rightarrow> f r db)"

text \<open>\<^verbatim>\<open>(*rocksdb)(atomic.LoadPointer(&d.db))\<close>, and the assignments to the \<^verbatim>\<open>Commander\<close>.\<close>

definition loadDb :: "('s, 'n, nat option) op" where
  "loadDb = (\<lambda>w. (Ok (cmd_db (commander w)), w))"

definition getCommander :: "('s, 'n, Commander) op" where
  "getCommander = (\<lambda>w. (Ok (commander w), w))"

definition setCommander :: "(Commander \<Rightarrow> Commander) \<Rightarrow> ('s, 'n, unit) op" where
  "setCommander f = (\<lambda>w. (Ok (), w\<lparr>commander := f (commander w)\<rparr>))"

definition swapDb :: "nat option \<Rightarrow> ('s, 'n, nat option) op" where
  "swapDb p = (\<lambda>w. (Ok (cmd_db (commander w)), w\<lparr>commander := (commander w)\<lparr>cmd_db := p\<rparr>\<rparr>))"

definition noPtr :: "nat option \<Rightarrow> (nat \<Rightarrow> ('s, 'n, 'a) op) \<Rightarrow> ('s, 'n, 'a) op" where
  "noPtr p f = (case p of None \<Rightarrow> gopanic nilDeref | Some q \<Rightarrow> f q)"

section \<open>The rocksdb wrapper\<close>

definition rocksdb_lookup :: "('s, 'b, 'i, 'n) env \<Rightarrow> nat \<Rightarrow> bytes \<Rightarrow> ('s, 'n, bytes) op" where
  "rocksdb_lookup E p key = deref p (\<lambda>r.
     if rdb_closed r then err (ErrorString ''db already closed'')
     else derefDb p (\<lambda>r db.
       andThen (dbGet E db (rdb_ro r) key) (\<lambda>val.
       let data = sliceData val
       in if length data = 0 then ret '''' else ret data)))"

definition rocksdb_close :: "nat \<Rightarrow> ('s, 'n, unit) op" where
  "rocksdb_close p = deref p (\<lambda>r.
     andThen (case rdb_db r of None \<Rightarrow> ret () | Some db \<Rightarrow> dbClose db) (\<lambda>_ w.
       (Ok (), w\<lparr>rheap := (rheap w)(p \<mapsto> r\<lparr>rdb_closed := True, rdb_db := None,
          rdb_opts := OptionsDestroy (rdb_opts r), rdb_wo := WriteOptionsDestroy (rdb_wo r),
          rdb_ro := ReadOptionsDestroy (rdb_ro r)\<rparr>)\<rparr>)))"

definition createDB :: "('s, 'b, 'i, 'n) env \<Rightarrow> string \<Rightarrow> ('s, 'n, nat) op" where
  "createDB E dbdir =
     (let opts = SetUseFsync (SetCreateIfMissing NewDefaultOptions True) True;
          wo = SetSync NewDefaultWriteOptions True;
          ro = NewDefaultReadOptions
      in andThen (OpenDb E opts dbdir) (\<lambda>db w.
           (Ok (nextPtr w),
            w\<lparr>rheap := (rheap w)(nextPtr w \<mapsto> \<lparr>rdb_db = Some db, rdb_ro = ro, rdb_wo = wo,
                 rdb_opts = opts, rdb_closed = False\<rparr>),
              nextPtr := Suc (nextPtr w)\<rparr>)))"

section \<open>Opening\<close>

definition NewCommander :: "uint64 \<Rightarrow> uint64 \<Rightarrow> Commander" where
  "NewCommander cid nid = \<lparr>clusterID = cid, nodeID = nid, lastApplied = 0, cmd_db = None,
     cmd_closed = False, cmd_aborted = False\<rparr>"

definition queryAppliedIndex :: "('s, 'b, 'i, 'n) env \<Rightarrow> nat \<Rightarrow> ('s, 'n, uint64) op" where
  "queryAppliedIndex E p = derefDb p (\<lambda>r db.
     andThen (dbGet E db (rdb_ro r) appliedIndexKey) (\<lambda>val.
     let data = sliceData val
     in if length data = 0 then ret 0
        else (case ParseUint data of Inl e \<Rightarrow> err e | Inr n \<Rightarrow> ret n)))"

definition statDbDir :: "('s, 'b, 'i, 'n) env \<Rightarrow> string \<Rightarrow> ('s, 'n, unit) op" where
  "statDbDir E dbdir =
     onErr (andThen (Stat E dbdir) (\<lambda>_. ret ()))
       (\<lambda>e. if e = NotExist then gopanic ''db dir unexpectedly deleted'' else ret ())"

definition openDbDir :: "('s, 'b, 'i, 'n) env \<Rightarrow> string \<Rightarrow> ('s, 'n, string) op" where
  "openDbDir E dir =
     andThen (isNewRun E dir) (\<lambda>new.
     if \<not> new then
       andThen (cleanupNodeDataDir E dir) (\<lambda>_.
       andThen (getCurrentDBDirName E dir) (\<lambda>dbdir.
       andThen (statDbDir E dbdir) (\<lambda>_. ret dbdir)))
     else
       andThen (getNewRandomDBDirName E dir) (\<lambda>dbdir.
       andThen (saveCurrentDBDirName E dir dbdir) (\<lambda>_.
       andThen (replaceCurrentDBFile E dir) (\<lambda>_. ret dbdir))))"

definition Open :: "('s, 'b, 'i, 'n) env \<Rightarrow> ('s, 'n, uint64) op" where
  "Open E =
     andThen getCommander (\<lambda>d.
     let dir = getNodeDBDirName (clusterID d) (nodeID d)
     in andThen (orPanic (createNodeDataDir E dir) ''mkdir'') (\<lambda>_.
        andThen (openDbDir E dir) (\<lambda>dbdir.
        andThen (createDB E dbdir) (\<lambda>db.
        andThen (swapDb (Some db)) (\<lambda>_.
        andThen (orPanic (queryAppliedIndex E db) ''query applied index'') (\<lambda>appliedIndex.
        andThen (setCommander (\<lambda>d. d\<lparr>lastApplied := appliedIndex\<rparr>)) (\<lambda>_.
        ret appliedIndex)))))))"

section \<open>Lookup\<close>

text \<open>
  The loop of a scan. It ends when the iterator is not valid any more or the key has not the
  prefix; \<open>Inl\<close> is the panic on a null pointer, \<open>None\<close> that the loop never ends.
\<close>

partial_function (option) scanLoop :: "('s, 'b, 'i, 'n) rocksdb_c \<Rightarrow> string \<Rightarrow> 'i Iterator \<Rightarrow> nat \<Rightarrow> gomap
    \<Rightarrow> ((string + gomap) \<times> nat) option" where
  "scanLoop C pre it t found =
     (if \<not> iterValid C it then Some (Inr found, t)
      else (case iterKey C it of
              None \<Rightarrow> Some (Inl nilDeref, t)
            | Some key \<Rightarrow> (case iterValue C it of
                None \<Rightarrow> Some (Inl nilDeref, t)
              | Some value \<Rightarrow>
                  let k = sliceData key
                  in if \<not> HasPrefix k pre then Some (Inr found, t)
                     else scanLoop C pre (iterNext C t it) (Suc t)
                            (AList.update k (sliceData value) found))))"

definition runLoop :: "(nat \<Rightarrow> ((string + 'a) \<times> nat) option) \<Rightarrow> ('s, 'n, 'a) op" where
  "runLoop f = (\<lambda>w. case f (calls w) of
       None \<Rightarrow> (Diverge, w)
     | Some (Inl p, t) \<Rightarrow> (Panic p, w\<lparr>calls := t\<rparr>)
     | Some (Inr a, t) \<Rightarrow> (Ok a, w\<lparr>calls := t\<rparr>))"

definition scan :: "('s, 'b, 'i, 'n) env \<Rightarrow> nat \<Rightarrow> string \<Rightarrow> ('s, 'n, gomap) op" where
  "scan E p pre =
     (let ro = SetFillCache NewDefaultReadOptions False
      in derefDb p (\<lambda>r db.
           andThen (dbNewIterator E db ro) (\<lambda>it.
           runLoop (\<lambda>t. scanLoop (rocksLib E) pre (iterSeek (rocksLib E) t it pre) (Suc t) []))))"

definition Lookup :: "('s, 'b, 'i, 'n) env \<Rightarrow> bytes \<Rightarrow> ('s, 'n, bytes) op" where
  "Lookup E key =
     andThen loadDb (\<lambda>db.
     let action = fst (unmarshalAction key \<lparr>Action_Action = ''GET'', Action_Key = key, Action_Val = ''''\<rparr>)
     in case db of
          None \<Rightarrow> err (ErrorString ''db closed'')
        | Some p \<Rightarrow>
            if Action_Action action = ''SCAN'' then
              andThen (scan E p (Action_Key action)) (\<lambda>found. ret (marshalMap found))
            else
              andThen (rocksdb_lookup E p (Action_Key action)) (\<lambda>v.
              andThen getCommander (\<lambda>d.
              if cmd_closed d
              then gopanic ''lookup returned valid result when Commander is already closed''
              else ret v)))"

section \<open>Update\<close>

record Entry =
  Entry_Index :: uint64
  Entry_Cmd :: bytes
  Entry_Result :: uint64

text \<open>The loop over the entries: the batch with their puts, and the entries with their results.\<close>

fun updateLoop :: "('s, 'b, 'i, 'n) rocksdb_c \<Rightarrow> Entry list \<Rightarrow> 'b WriteBatch
    \<Rightarrow> string + Entry list \<times> 'b WriteBatch" where
  "updateLoop C [] wb = Inr ([], wb)"
| "updateLoop C (e # es) wb =
     (case unmarshalAction (Entry_Cmd e) emptyAction of
        (action, Some _) \<Rightarrow> Inl ''json''
      | (action, None) \<Rightarrow>
          (case updateLoop C es (batchPut C wb (Action_Key action) (Action_Val action)) of
             Inl p \<Rightarrow> Inl p
           | Inr (es', wb') \<Rightarrow> Inr (e\<lparr>Entry_Result := word_of_nat (length (Entry_Cmd e))\<rparr> # es', wb')))"

definition Update :: "('s, 'b, 'i, 'n) env \<Rightarrow> Entry list \<Rightarrow> ('s, 'n, Entry list) op" where
  "Update E ents =
     andThen getCommander (\<lambda>d.
     if cmd_aborted d then gopanic ''update() called after abort set to true''
     else if cmd_closed d then gopanic ''update called after Close()''
     else (let C = rocksLib E; wb = NewWriteBatch C
           in andThen loadDb (\<lambda>db.
              case updateLoop C ents wb of
                Inl p \<Rightarrow> gopanic p
              | Inr (ents', wb') \<Rightarrow>
                  if ents = [] then gopanic ''index out of range [-1]''
                  else let index = Entry_Index (last ents);
                           wb'' = batchPut C wb' appliedIndexKey (dec (unat index))
                       in noPtr db (\<lambda>p. derefDb p (\<lambda>r rdb.
                          andThen (dbWrite E rdb (rdb_wo r) wb'') (\<lambda>_.
                          andThen getCommander (\<lambda>d.
                          if lastApplied d \<ge> index then gopanic ''lastApplied not moving forward''
                          else andThen (setCommander (\<lambda>d. d\<lparr>lastApplied := index\<rparr>)) (\<lambda>_.
                               ret ents'))))))))"

definition Sync :: "('s, 'n, unit) op" where
  "Sync = ret ()"

section \<open>Saving a snapshot\<close>

record 'n CommanderCtx =
  ctx_db :: "nat option"
  ctx_snapshot :: "'n Snapshot"

definition PrepareSnapshot :: "('s, 'b, 'i, 'n) env \<Rightarrow> ('s, 'n, 'n CommanderCtx) op" where
  "PrepareSnapshot E =
     andThen getCommander (\<lambda>d.
     if cmd_closed d then gopanic ''prepare snapshot called after Close()''
     else if cmd_aborted d then gopanic ''prepare snapshot called after abort''
     else andThen loadDb (\<lambda>db.
          noPtr db (\<lambda>p. derefDb p (\<lambda>r rdb.
          andThen (dbNewSnapshot E rdb) (\<lambda>ss.
          ret \<lparr>ctx_db = Some p, ctx_snapshot = ss\<rparr>)))))"

text \<open>
  An \<^verbatim>\<open>io.Writer\<close>: what was written so far, how many writes there were, and which writes fail.
\<close>

record Writer =
  wr_data :: bytes
  wr_count :: nat
  wr_fails :: "nat \<Rightarrow> error option"

definition writerWrite :: "Writer \<Rightarrow> bytes \<Rightarrow> Writer \<times> error option" where
  "writerWrite wr data =
     (case wr_fails wr (wr_count wr) of
        Some e \<Rightarrow> (wr\<lparr>wr_count := Suc (wr_count wr)\<rparr>, Some e)
      | None \<Rightarrow> (wr\<lparr>wr_data := wr_data wr @ data, wr_count := Suc (wr_count wr)\<rparr>, None))"

text \<open>The two loops: counting the pairs, and writing each as a length and a JSON text.\<close>

partial_function (option) countLoop :: "('s, 'b, 'i, 'n) rocksdb_c \<Rightarrow> 'i Iterator \<Rightarrow> nat \<Rightarrow> uint64
    \<Rightarrow> (uint64 \<times> 'i Iterator \<times> nat) option" where
  "countLoop C iter t count =
     (if \<not> iterValid C iter then Some (count, iter, t)
      else countLoop C (iterNext C t iter) (Suc t) (count + 1))"

partial_function (option) writeLoop :: "('s, 'b, 'i, 'n) rocksdb_c \<Rightarrow> 'i Iterator \<Rightarrow> nat \<Rightarrow> Writer
    \<Rightarrow> ((string + Writer \<times> error option) \<times> nat) option" where
  "writeLoop C iter t wr =
     (if \<not> iterValid C iter then Some (Inr (wr, None), t)
      else (case iterKey C iter of
              None \<Rightarrow> Some (Inl nilDeref, t)
            | Some key \<Rightarrow> (case iterValue C iter of
                None \<Rightarrow> Some (Inl nilDeref, t)
              | Some val \<Rightarrow>
                  let data = marshalAction (emptyAction\<lparr>Action_Key := sliceData key, Action_Val := sliceData val\<rparr>)
                  in (case writerWrite wr (PutUint64 (word_of_nat (length data))) of
                        (wr1, Some e) \<Rightarrow> Some (Inr (wr1, Some e), t)
                      | (wr1, None) \<Rightarrow> (case writerWrite wr1 data of
                            (wr2, Some e) \<Rightarrow> Some (Inr (wr2, Some e), t)
                          | (wr2, None) \<Rightarrow> writeLoop C (iterNext C t iter) (Suc t) wr2)))))"

definition saveLoops :: "('s, 'b, 'i, 'n) rocksdb_c \<Rightarrow> 'i Iterator \<Rightarrow> Writer \<Rightarrow> nat
    \<Rightarrow> ((string + Writer \<times> error option) \<times> nat) option" where
  "saveLoops C iter wr t =
     (case countLoop C (iterSeekToFirst C t iter) (Suc t) 0 of
        None \<Rightarrow> None
      | Some (count, iter1, t1) \<Rightarrow>
          (case writerWrite wr (PutUint64 count) of
             (wr1, Some e) \<Rightarrow> Some (Inr (wr1, Some e), t1)
           | (wr1, None) \<Rightarrow> writeLoop C (iterSeekToFirst C t1 iter1) (Suc t1) wr1))"

definition saveToWriter :: "('s, 'b, 'i, 'n) env \<Rightarrow> nat \<Rightarrow> 'n Snapshot \<Rightarrow> Writer
    \<Rightarrow> ('s, 'n, Writer \<times> error option) op" where
  "saveToWriter E p ss wr =
     (let ro = SetSnapshot NewDefaultReadOptions ss
      in derefDb p (\<lambda>r db.
           andThen (dbNewIterator E db ro) (\<lambda>iter.
           runLoop (saveLoops (rocksLib E) iter wr))))"

definition SaveSnapshot :: "('s, 'b, 'i, 'n) env \<Rightarrow> 'n CommanderCtx \<Rightarrow> Writer
    \<Rightarrow> ('s, 'n, Writer \<times> error option) op" where
  "SaveSnapshot E ctx wr =
     andThen getCommander (\<lambda>d.
     if cmd_closed d then gopanic ''prepare snapshot called after Close()''
     else if cmd_aborted d then gopanic ''prepare snapshot called after abort''
     else noPtr (ctx_db ctx) (\<lambda>db. saveToWriter E db (ctx_snapshot ctx) wr))"

section \<open>Recovering from a snapshot\<close>

text \<open>An \<^verbatim>\<open>io.Reader\<close>: the bytes it has left and the error it gives after them.\<close>

record Reader =
  rd_data :: bytes
  rd_end :: error

definition ReadFull :: "Reader \<Rightarrow> nat \<Rightarrow> error + bytes \<times> Reader" where
  "ReadFull r n =
     (if n \<le> length (rd_data r) then Inr (take n (rd_data r), r\<lparr>rd_data := drop n (rd_data r)\<rparr>)
      else if rd_end r = EOF \<and> rd_data r \<noteq> [] then Inl ErrUnexpectedEOF
      else Inl (rd_end r))"

text \<open>The size from which on \<^verbatim>\<open>make([]byte, n)\<close> panics on a 64-bit Linux machine.\<close>

definition maxAlloc :: nat where "maxAlloc = 2 ^ 48"

datatype 'a loaded = Loaded 'a | LoadErr error | LoadPanic string

fun loadLoop :: "('s, 'b, 'i, 'n) rocksdb_c \<Rightarrow> nat \<Rightarrow> Reader \<Rightarrow> 'b WriteBatch \<Rightarrow> 'b WriteBatch loaded" where
  "loadLoop C 0 r wb = Loaded wb"
| "loadLoop C (Suc n) r wb =
     (case ReadFull r 8 of
        Inl e \<Rightarrow> LoadErr e
      | Inr (sz, r1) \<Rightarrow>
          let toRead = unat (Uint64 sz)
          in if toRead > maxAlloc then LoadPanic ''makeslice: len out of range''
             else (case ReadFull r1 toRead of
                     Inl e \<Rightarrow> LoadErr e
                   | Inr (data, r2) \<Rightarrow>
                       (case unmarshalAction data emptyAction of
                          (action, Some _) \<Rightarrow> LoadPanic ''json''
                        | (action, None) \<Rightarrow>
                            loadLoop C n r2 (batchPut C wb (Action_Key action) (Action_Val action)))))"

definition loadBatch :: "('s, 'b, 'i, 'n) rocksdb_c \<Rightarrow> Reader \<Rightarrow> ('s, 'n, 'b WriteBatch) op" where
  "loadBatch C r =
     (case ReadFull r 8 of
        Inl e \<Rightarrow> err e
      | Inr (sz, r1) \<Rightarrow>
          (case loadLoop C (unat (Uint64 sz)) r1 (NewWriteBatch C) of
             Loaded wb \<Rightarrow> ret wb
           | LoadErr e \<Rightarrow> err e
           | LoadPanic p \<Rightarrow> gopanic p))"

definition RecoverFromSnapshot :: "('s, 'b, 'i, 'n) env \<Rightarrow> Reader \<Rightarrow> ('s, 'n, unit) op" where
  "RecoverFromSnapshot E r =
     andThen getCommander (\<lambda>d.
     if cmd_closed d then gopanic ''recover from snapshot called after Close()''
     else
      (let dir = getNodeDBDirName (clusterID d) (nodeID d)
       in andThen (getNewRandomDBDirName E dir) (\<lambda>dbdir.
          andThen (getCurrentDBDirName E dir) (\<lambda>oldDirName.
          andThen (createDB E dbdir) (\<lambda>db.
          andThen (loadBatch (rocksLib E) r) (\<lambda>wb.
          andThen (derefDb db (\<lambda>rdb h. dbWrite E h (rdb_wo rdb) wb)) (\<lambda>_.
          andThen (saveCurrentDBDirName E dir dbdir) (\<lambda>_.
          andThen (replaceCurrentDBFile E dir) (\<lambda>_.
          andThen (orPanic (queryAppliedIndex E db) ''query applied index'') (\<lambda>newLastApplied.
          andThen getCommander (\<lambda>d.
          if lastApplied d > newLastApplied then gopanic ''last applied not moving forward''
          else
            andThen (setCommander (\<lambda>d. d\<lparr>lastApplied := newLastApplied\<rparr>)) (\<lambda>_.
            andThen (swapDb (Some db)) (\<lambda>old.
            andThen (case old of None \<Rightarrow> ret () | Some p \<Rightarrow> rocksdb_close p) (\<lambda>_.
            RemoveAll E oldDirName))))))))))))))"

section \<open>Closing, and the hash\<close>

definition Close :: "('s, 'n, unit) op" where
  "Close =
     andThen (swapDb None) (\<lambda>db.
     case db of
       Some p \<Rightarrow>
         andThen (setCommander (\<lambda>d. d\<lparr>cmd_closed := True\<rparr>)) (\<lambda>_.
         rocksdb_close p)
     | None \<Rightarrow>
         andThen getCommander (\<lambda>d.
         if cmd_closed d then gopanic ''close called twice'' else ret ()))"

text \<open>The hash is the writer here: what was written is hashed at the end, and no write fails.\<close>

definition hashWriter :: Writer where
  "hashWriter = \<lparr>wr_data = [], wr_count = 0, wr_fails = (\<lambda>_. None)\<rparr>"

definition GetHash :: "('s, 'b, 'i, 'n) env \<Rightarrow> ('s, 'n, uint64) op" where
  "GetHash E =
     andThen loadDb (\<lambda>db.
     noPtr db (\<lambda>p.
     andThen (derefDb p (\<lambda>r rdb. dbNewSnapshot E rdb)) (\<lambda>ss.
     andThen (saveToWriter E p ss hashWriter) (\<lambda>(wr, e).
     case e of
       Some x \<Rightarrow> err x
     | None \<Rightarrow> ret (Uint64 (take 8 (md5 (wr_data wr))))))))"

end
