(* ===== verification/Commander_Update.thy ===== *)
theory Commander_Update
  imports Commander
begin

text \<open>
  What the operations of a \<^verbatim>\<open>Commander\<close> do to the contents of its database: an update is a
  sequence of puts and the new applied index, all or nothing; a lookup reads the contents; a
  scan returns the pairs whose key has the prefix.
\<close>

section \<open>The live database\<close>

text \<open>The struct, the database object, the directory and the state of the database in use.\<close>

definition liveAt :: "('s, 'n) world \<Rightarrow> nat \<Rightarrow> ('n rocksdb \<times> DB \<times> string \<times> 's) option" where
  "liveAt w p =
     (case rheap w p of
        None \<Rightarrow> None
      | Some r \<Rightarrow> (case rdb_db r of
            None \<Rightarrow> None
          | Some db \<Rightarrow> (case openDbs w (DB_c db) of
                None \<Rightarrow> None
              | Some dir \<Rightarrow> (case dbAt (tree w) dir of
                    None \<Rightarrow> None
                  | Some s \<Rightarrow> if \<not> rdb_closed r \<and> rdb_ro r = NewDefaultReadOptions
                              then Some (r, db, dir, s) else None))))"

definition live :: "('s, 'n) world \<Rightarrow> ('n rocksdb \<times> DB \<times> string \<times> 's) option" where
  "live w = Option.bind (cmd_db (commander w)) (liveAt w)"

definition liveState :: "('s, 'n) world \<Rightarrow> 's option" where
  "liveState w = map_option (\<lambda>(r, db, dir, s). s) (live w)"

definition liveDir :: "('s, 'n) world \<Rightarrow> string option" where
  "liveDir w = map_option (\<lambda>(r, db, dir, s). dir) (live w)"

lemma liveAt_SomeD:
  "liveAt w p = Some (r, db, dir, s) \<Longrightarrow>
     rheap w p = Some r \<and> rdb_db r = Some db \<and> \<not> rdb_closed r \<and> rdb_ro r = NewDefaultReadOptions
     \<and> openDbs w (DB_c db) = Some dir \<and> dbAt (tree w) dir = Some s"
  by (auto simp: liveAt_def split: option.splits if_splits)

lemma live_SomeE:
  assumes "live w = Some (r, db, dir, s)"
  obtains p where "cmd_db (commander w) = Some p" and "liveAt w p = Some (r, db, dir, s)"
  using assms by (auto simp: live_def bind_eq_Some_conv)

lemma liveAt_calls [simp]: "liveAt (w\<lparr>calls := n\<rparr>) p = liveAt w p"
  by (simp add: liveAt_def cong: option.case_cong if_cong)

lemma live_calls [simp]: "live (w\<lparr>calls := n\<rparr>) = live w"
  by (cases "cmd_db (commander w)") (simp_all add: live_def)

lemma dbAt_update: "dbAt (AList.update d (FDb s) t) d' = (if d' = d then Some s else dbAt t d')"
  by (simp add: dbAt_def update_conv)

text \<open>Putting another state in the directory of the live database.\<close>

lemma liveAt_update:
  assumes "liveAt w p = Some (r, db, dir, s)"
  shows "liveAt (w\<lparr>calls := n, tree := AList.update dir (FDb s') (tree w)\<rparr>) p = Some (r, db, dir, s')"
  using liveAt_SomeD [OF assms] by (simp add: liveAt_def dbAt_update)

lemma derefDb_live:
  "liveAt w p = Some (r, db, dir, s) \<Longrightarrow> derefDb p f w = f r db w"
  by (simp add: derefDb_def deref_def liveAt_SomeD)

lemma onDb_live:
  "liveAt w p = Some (r, db, dir, s) \<Longrightarrow> onDb db f w = f dir s w"
  by (simp add: onDb_def liveAt_SomeD)

section \<open>Calls of the library\<close>

lemma libCall_cases:
  assumes run: "libCall E dir call w = (x, w')" and call: "call (calls w) = (e, s')"
  shows "x \<noteq> Ok () \<and> w' = w\<lparr>calls := Suc (calls w)\<rparr>
    \<or> (x = Ok () \<longrightarrow> e = None) \<and> w' = w\<lparr>calls := Suc (calls w), tree := AList.update dir (FDb s') (tree w)\<rparr>"
  using assms by (auto simp: libCall_def Let_def split: fault.splits option.splits if_splits)

lemma libCall_no_panic: "libCall E dir call w = (x, w') \<Longrightarrow> x = Ok () \<or> (\<exists>e. x = Err e) \<or> x = Crash"
  by (auto simp: libCall_def Let_def split: fault.splits option.splits prod.splits)

lemma plainRead_default [simp]: "plainRead (ReadOptions_c NewDefaultReadOptions) None"
  by (simp add: plainRead_def NewDefaultReadOptions_def)

text \<open>The contents that a sequence of entries leaves, and the abstract update.\<close>

definition entryAction :: "Entry \<Rightarrow> Action" where
  "entryAction e = fst (unmarshalAction (Entry_Cmd e) emptyAction)"

definition validEntry :: "Entry \<Rightarrow> bool" where
  "validEntry e \<longleftrightarrow> snd (unmarshalAction (Entry_Cmd e) emptyAction) = None"

definition entryPuts :: "Entry list \<Rightarrow> (bytes \<times> bytes) list" where
  "entryPuts ents = map (\<lambda>e. (Action_Key (entryAction e), Action_Val (entryAction e))) ents
     @ [(appliedIndexKey, dec (unat (Entry_Index (last ents))))]"

definition applyEntries :: "Entry list \<Rightarrow> (bytes \<rightharpoonup> bytes) \<Rightarrow> (bytes \<rightharpoonup> bytes)" where
  "applyEntries ents m = foldl (\<lambda>m (k, v). m(k \<mapsto> v)) m (entryPuts ents)"

definition withResult :: "Entry \<Rightarrow> Entry" where
  "withResult e = e\<lparr>Entry_Result := word_of_nat (length (Entry_Cmd e))\<rparr>"

lemma fold_WPut: "fold applyOp (map (\<lambda>(k, v). WPut k v) kvs) m = foldl (\<lambda>m (k, v). m(k \<mapsto> v)) m kvs"
  by (induction kvs arbitrary: m) auto

lemma updateLoop_invalid:
  "\<not> list_all validEntry ents \<Longrightarrow> updateLoop C ents wb = Inl ''json''"
  by (induction ents arbitrary: wb) (auto simp: validEntry_def split: prod.splits option.splits sum.splits)

context rocks
begin

lemma updateLoop_valid:
  assumes "list_all validEntry ents" and "WriteBatch_c wb = Some b"
  shows "\<exists>wb' b'. updateLoop C ents wb = Inr (map withResult ents, wb') \<and> WriteBatch_c wb' = Some b'
    \<and> ops b' = ops b @ map (\<lambda>(k, v). WPut k v)
        (map (\<lambda>e. (Action_Key (entryAction e), Action_Val (entryAction e))) ents)"
  using assms
proof (induction ents arbitrary: wb b)
  case (Cons e ents)
  obtain a where a: "unmarshalAction (Entry_Cmd e) emptyAction = (a, None)"
    using Cons.prems(1) by (cases "unmarshalAction (Entry_Cmd e) emptyAction") (auto simp: validEntry_def)
  let ?wb = "batchPut C wb (Action_Key a) (Action_Val a)"
  have b: "WriteBatch_c ?wb = Some (c_writebatch_put C b (Action_Key a) (Action_Val a))"
    using Cons.prems(2) by (simp add: batchPut_def onBatch_def)
  have "list_all validEntry ents" using Cons.prems(1) by simp
  from Cons.IH [OF this b] a show ?case
    by (auto simp: batch_put entryAction_def withResult_def)
qed simp

text \<open>The batch that \<^verbatim>\<open>Update\<close> writes.\<close>

lemma updateLoop_batch:
  assumes "list_all validEntry ents"
  shows "\<exists>wb b. updateLoop C ents (NewWriteBatch C) = Inr (map withResult ents, wb)
    \<and> WriteBatch_c (batchPut C wb appliedIndexKey (dec (unat (Entry_Index (last ents))))) = Some b
    \<and> ops b = map (\<lambda>(k, v). WPut k v) (entryPuts ents)"
proof -
  have "WriteBatch_c (NewWriteBatch C) = Some (c_writebatch_create C)"
    by (simp add: NewWriteBatch_def)
  from updateLoop_valid [OF assms this] obtain wb b where
    "updateLoop C ents (NewWriteBatch C) = Inr (map withResult ents, wb)" "WriteBatch_c wb = Some b"
    "ops b = map (\<lambda>(k, v). WPut k v)
        (map (\<lambda>e. (Action_Key (entryAction e), Action_Val (entryAction e))) ents)"
    by (auto simp: batch_create)
  then show ?thesis
    by (auto simp: batchPut_def onBatch_def batch_put entryPuts_def)
qed

lemma write_puts:
  assumes "ops b = map (\<lambda>(k, v). WPut k v) kvs" and "c_write C t wo s b = (e, s')"
  shows "(contents s' = contents s \<or> contents s' = foldl (\<lambda>m (k, v). m(k \<mapsto> v)) (contents s) kvs)
    \<and> (e = None \<longrightarrow> contents s' = foldl (\<lambda>m (k, v). m(k \<mapsto> v)) (contents s) kvs)"
  using write_atomic [of b t wo s e s'] write_ok [of b t wo s s'] assms
  by (auto simp: fold_WPut)

end

section \<open>Update\<close>

definition accepting :: "('s, 'n) world \<Rightarrow> bool" where
  "accepting w \<longleftrightarrow> \<not> cmd_aborted (commander w) \<and> \<not> cmd_closed (commander w)"

lemma Update_invalid:
  assumes "accepting w" and "\<not> list_all validEntry ents"
  shows "Update E ents w = (Panic ''json'', w)"
  using assms by (simp add: Update_def accepting_def getCommander_def loadDb_def updateLoop_invalid
      andThen_apply gopanic_apply Let_def)

lemma Update_refused:
  "\<not> accepting w \<Longrightarrow> \<exists>p. Update E ents w = (Panic p, w)"
  by (auto simp: Update_def accepting_def getCommander_def andThen_apply gopanic_apply)

context rocks
begin

text \<open>An update of an open database is one write of the library, and then the new index.\<close>

lemma Update_run:
  assumes E: "rocksLib E = C" and acc: "accepting w" and live: "live w = Some (r, db, dir, s)"
    and ents: "list_all validEntry ents" "ents \<noteq> []"
  shows "\<exists>b. ops b = map (\<lambda>(k, v). WPut k v) (entryPuts ents) \<and>
    Update E ents w =
      (case libCall E dir (\<lambda>t. c_write C t (WriteOptions_c (rdb_wo r)) s b) w of
         (Ok _, w1) \<Rightarrow>
           if Entry_Index (last ents) \<le> lastApplied (commander w1)
           then (Panic ''lastApplied not moving forward'', w1)
           else (Ok (map withResult ents),
                 w1\<lparr>commander := (commander w1)\<lparr>lastApplied := Entry_Index (last ents)\<rparr>\<rparr>)
       | (Err e, w1) \<Rightarrow> (Err e, w1)
       | (Panic p, w1) \<Rightarrow> (Panic p, w1)
       | (Crash, w1) \<Rightarrow> (Crash, w1)
       | (Diverge, w1) \<Rightarrow> (Diverge, w1))"
proof -
  obtain p where p: "cmd_db (commander w) = Some p" and at: "liveAt w p = Some (r, db, dir, s)"
    using live by (rule live_SomeE)
  obtain wb b where wb: "updateLoop C ents (NewWriteBatch C) = Inr (map withResult ents, wb)"
      "WriteBatch_c (batchPut C wb appliedIndexKey (dec (unat (Entry_Index (last ents))))) = Some b"
      "ops b = map (\<lambda>(k, v). WPut k v) (entryPuts ents)"
    using updateLoop_batch [OF ents(1)] by blast
  have "Update E ents w =
      andThen (libCall E dir (\<lambda>t. c_write C t (WriteOptions_c (rdb_wo r)) s b)) (\<lambda>_.
      andThen getCommander (\<lambda>d.
        if Entry_Index (last ents) \<le> lastApplied d then gopanic ''lastApplied not moving forward''
        else andThen (setCommander (\<lambda>d. d\<lparr>lastApplied := Entry_Index (last ents)\<rparr>)) (\<lambda>_.
             ret (map withResult ents)))) w"
    using acc E p ents(2) wb(1,2)
    by (simp add: Update_def accepting_def getCommander_def loadDb_def noPtr_def Let_def andThen_apply
        derefDb_live [OF at] onDb_live [OF at] dbWrite_def)
  then show ?thesis
    using wb(3) by (intro exI [of _ b])
      (auto simp: andThen_apply getCommander_def setCommander_def gopanic_apply ret_apply
        split: prod.splits outcome.splits)
qed

lemma liveState_conv: "live w = Some (r, db, dir, s) \<Longrightarrow> liveState w = Some s \<and> liveDir w = Some dir"
  by (simp add: liveState_def liveDir_def)

lemma live_tree_update:
  assumes "live w = Some (r, db, dir, s)"
  shows "live (w\<lparr>calls := n, tree := AList.update dir (FDb s') (tree w)\<rparr>) = Some (r, db, dir, s')"
proof -
  obtain p where "cmd_db (commander w) = Some p" and "liveAt w p = Some (r, db, dir, s)"
    using assms by (rule live_SomeE)
  then show ?thesis by (simp add: live_def liveAt_update)
qed

lemma live_lastApplied [simp]:
  "live (w\<lparr>commander := (commander w)\<lparr>lastApplied := i\<rparr>\<rparr>) = live w"
proof -
  have "liveAt (w\<lparr>commander := c\<rparr>) p = liveAt w p" for c p
    by (simp add: liveAt_def cong: option.case_cong if_cong)
  then show ?thesis by (cases "cmd_db (commander w)") (simp_all add: live_def)
qed

text \<open>
  Every outcome of an update leaves the old contents or the new one, the rest of the tree as
  it was, and the database in use.
\<close>

lemma Update_effect:
  assumes E: "rocksLib E = C" and acc: "accepting w" and live: "live w = Some (r, db, dir, s)"
    and ents: "list_all validEntry ents" "ents \<noteq> []"
    and run: "Update E ents w = (x, w')"
  shows "\<exists>s'. live w' = Some (r, db, dir, s')
    \<and> (contents s' = contents s \<or> contents s' = applyEntries ents (contents s))
    \<and> (\<forall>d. d \<noteq> dir \<longrightarrow> map_of (tree w') d = map_of (tree w) d)
    \<and> (\<forall>es. x = Ok es \<longrightarrow> es = map withResult ents \<and> contents s' = applyEntries ents (contents s)
         \<and> lastApplied (commander w) < Entry_Index (last ents)
         \<and> lastApplied (commander w') = Entry_Index (last ents))
    \<and> ((\<forall>es. x \<noteq> Ok es) \<longrightarrow> lastApplied (commander w') = lastApplied (commander w))"
proof -
  obtain b where b: "ops b = map (\<lambda>(k, v). WPut k v) (entryPuts ents)"
    and upd: "Update E ents w =
      (case libCall E dir (\<lambda>t. c_write C t (WriteOptions_c (rdb_wo r)) s b) w of
         (Ok _, w1) \<Rightarrow>
           if Entry_Index (last ents) \<le> lastApplied (commander w1)
           then (Panic ''lastApplied not moving forward'', w1)
           else (Ok (map withResult ents),
                 w1\<lparr>commander := (commander w1)\<lparr>lastApplied := Entry_Index (last ents)\<rparr>\<rparr>)
       | (Err e, w1) \<Rightarrow> (Err e, w1)
       | (Panic p, w1) \<Rightarrow> (Panic p, w1)
       | (Crash, w1) \<Rightarrow> (Crash, w1)
       | (Diverge, w1) \<Rightarrow> (Diverge, w1))"
    using Update_run [OF E acc live ents] by blast
  obtain e s' where c: "c_write C (calls w) (WriteOptions_c (rdb_wo r)) s b = (e, s')"
    by (cases "c_write C (calls w) (WriteOptions_c (rdb_wo r)) s b")
  obtain x1 w1 where lc: "libCall E dir (\<lambda>t. c_write C t (WriteOptions_c (rdb_wo r)) s b) w = (x1, w1)"
    by (cases "libCall E dir (\<lambda>t. c_write C t (WriteOptions_c (rdb_wo r)) s b) w")
  note eff = write_puts [OF b c, folded applyEntries_def]
  from libCall_cases [OF lc c] show ?thesis
  proof (elim disjE conjE)
    assume w1: "x1 \<noteq> Ok ()" "w1 = w\<lparr>calls := Suc (calls w)\<rparr>"
    then have "(\<forall>es. x \<noteq> Ok es) \<and> w' = w1" using run upd lc by (cases x1) auto
    with w1 live show ?thesis by auto
  next
    assume w1: "x1 = Ok () \<longrightarrow> e = None"
      "w1 = w\<lparr>calls := Suc (calls w), tree := AList.update dir (FDb s') (tree w)\<rparr>"
    have tr: "map_of (tree w1) d = map_of (tree w) d" if "d \<noteq> dir" for d
      using that by (simp add: w1(2) update_conv)
    have lv: "live w1 = Some (r, db, dir, s')" by (simp only: w1(2) live_tree_update [OF live])
    have w': "(w' = w1 \<and> (\<forall>es. x \<noteq> Ok es)) \<or> (x1 = Ok () \<and> x = Ok (map withResult ents)
        \<and> lastApplied (commander w) < Entry_Index (last ents)
        \<and> w' = w1\<lparr>commander := (commander w1)\<lparr>lastApplied := Entry_Index (last ents)\<rparr>\<rparr>)"
      using run upd lc by (cases x1) (auto simp: w1(2) split: if_splits)
    moreover have "lastApplied (commander w1) = lastApplied (commander w)" by (simp add: w1(2))
    ultimately show ?thesis
      using eff lv w1(1) tr by (intro exI [of _ s']) (elim disjE; auto)
  qed
qed

text \<open>Without a failure, an update that moves the index forward returns.\<close>

lemma Update_moves_forward:
  assumes E: "rocksLib E = C" and acc: "accepting w" and live: "live w = Some (r, db, dir, s)"
    and ents: "list_all validEntry ents" "ents \<noteq> []"
    and lib: "\<And>t wo s b. fst (c_write (rocksLib E) t wo s b) = None" and os: "faults E = (\<lambda>_. NoFault)"
    and fwd: "lastApplied (commander w) < Entry_Index (last ents)"
  shows "\<exists>w'. Update E ents w = (Ok (map withResult ents), w')"
proof -
  obtain b where "Update E ents w =
      (case libCall E dir (\<lambda>t. c_write C t (WriteOptions_c (rdb_wo r)) s b) w of
         (Ok _, w1) \<Rightarrow>
           if Entry_Index (last ents) \<le> lastApplied (commander w1)
           then (Panic ''lastApplied not moving forward'', w1)
           else (Ok (map withResult ents),
                 w1\<lparr>commander := (commander w1)\<lparr>lastApplied := Entry_Index (last ents)\<rparr>\<rparr>)
       | (Err e, w1) \<Rightarrow> (Err e, w1)
       | (Panic p, w1) \<Rightarrow> (Panic p, w1)
       | (Crash, w1) \<Rightarrow> (Crash, w1)
       | (Diverge, w1) \<Rightarrow> (Diverge, w1))"
    using Update_run [OF E acc live ents] by blast
  moreover have "\<exists>s1. libCall E dir (\<lambda>t. c_write C t (WriteOptions_c (rdb_wo r)) s b) w
      = (Ok (), w\<lparr>calls := Suc (calls w), tree := AList.update dir (FDb s1) (tree w)\<rparr>)"
    using lib [of "calls w" "WriteOptions_c (rdb_wo r)" s b]
    by (cases "c_write C (calls w) (WriteOptions_c (rdb_wo r)) s b") (auto simp: libCall_def os E)
  ultimately show ?thesis
    using fwd by (auto simp: not_le [symmetric] split: if_splits)
qed

end

section \<open>The applied index and the encoding of the contents\<close>

definition storedIndex :: "(bytes \<rightharpoonup> bytes) \<Rightarrow> error + uint64" where
  "storedIndex m = (case m appliedIndexKey of
       None \<Rightarrow> Inr 0
     | Some v \<Rightarrow> if length v = 0 then Inr 0 else ParseUint v)"

definition validContents :: "(bytes \<rightharpoonup> bytes) \<Rightarrow> bool" where
  "validContents m \<longleftrightarrow> (\<forall>k v. m k = Some v \<longrightarrow> validUtf8 k \<and> validUtf8 v)"

lemma applyEntries_alt:
  "applyEntries ents m = (foldl (\<lambda>m e. m(Action_Key (entryAction e) \<mapsto> Action_Val (entryAction e))) m ents)
     (appliedIndexKey \<mapsto> dec (unat (Entry_Index (last ents))))"
  by (simp add: applyEntries_def entryPuts_def foldl_map)

lemma storedIndex_applyEntries:
  "storedIndex (applyEntries ents m) = Inr (Entry_Index (last ents))"
  by (simp add: storedIndex_def applyEntries_alt ParseUint_dec)

lemma validUtf8_dec [simp]: "validUtf8 (dec n)"
  by (rule validUtf8_ascii) (auto dest!: is_digit_dec simp: is_digit_def)

lemma validUtf8_appliedIndexKey [simp]: "validUtf8 appliedIndexKey"
  by (rule validUtf8_ascii) (simp add: appliedIndexKey_def)

lemma validContents_upd:
  "validContents m \<Longrightarrow> validUtf8 k \<Longrightarrow> validUtf8 v \<Longrightarrow> validContents (m(k \<mapsto> v))"
  by (simp add: validContents_def)

lemma entryAction_valid: "validUtf8 (Action_Key (entryAction e)) \<and> validUtf8 (Action_Val (entryAction e))"
  using unmarshalAction_valid [of "Entry_Cmd e"] by (simp add: validAction_def entryAction_def)

lemma validContents_applyEntries:
  assumes "validContents m"
  shows "validContents (applyEntries ents m)"
proof -
  have "validContents (foldl (\<lambda>m e. m(Action_Key (entryAction e) \<mapsto> Action_Val (entryAction e))) m es)" for es
    using assms by (induction es rule: rev_induct) (simp_all add: validContents_upd entryAction_valid)
  then show ?thesis
    by (simp add: applyEntries_alt validContents_upd)
qed

text \<open>Applying a sequence of entries in two updates is applying it in one.\<close>

lemma foldl_entries_overwrite:
  assumes "m k = m' k \<or> k \<in> (\<lambda>e. Action_Key (entryAction e)) ` set es"
  shows "foldl (\<lambda>m e. m(Action_Key (entryAction e) \<mapsto> Action_Val (entryAction e))) m es k
       = foldl (\<lambda>m e. m(Action_Key (entryAction e) \<mapsto> Action_Val (entryAction e))) m' es k"
  using assms by (induction es rule: rev_induct) auto

lemma applyEntries_append:
  assumes "es' \<noteq> []"
  shows "applyEntries (es @ es') m = applyEntries es' (applyEntries es m)"
proof
  fix k
  show "applyEntries (es @ es') m k = applyEntries es' (applyEntries es m) k"
    using assms by (auto simp: applyEntries_alt foldl_append intro!: foldl_entries_overwrite)
qed

section \<open>Lookup\<close>

definition queryAction :: "bytes \<Rightarrow> Action" where
  "queryAction key = fst (unmarshalAction key \<lparr>Action_Action = ''GET'', Action_Key = key, Action_Val = ''''\<rparr>)"

lemma sliceData_NewSlice:
  "sliceData (NewSlice v 0) = []" "sliceData (NewSlice (Some x) (length x)) = x"
  by (simp_all add: sliceData_def NewSlice_def charToByte_def split: option.splits)

lemma Lookup_not_open:
  "cmd_db (commander w) = None \<Longrightarrow> Lookup E key w = (Err (ErrorString ''db closed''), w)"
  by (simp add: Lookup_def loadDb_def andThen_apply err_apply)

context rocks
begin

lemma dbGet_live:
  assumes "rocksLib E = C" and "liveAt w p = Some (r, db, dir, s)"
  shows "\<exists>e. dbGet E db NewDefaultReadOptions key w = (Err e, w\<lparr>calls := Suc (calls w)\<rparr>)
    \<or> dbGet E db NewDefaultReadOptions key w =
        (Ok (NewSlice (contents s key) (case contents s key of None \<Rightarrow> 0 | Some x \<Rightarrow> length x)),
         w\<lparr>calls := Suc (calls w)\<rparr>)"
proof -
  obtain e v where get: "c_get C (calls w) (ReadOptions_c NewDefaultReadOptions) s key = (e, v)"
    by (cases "c_get C (calls w) (ReadOptions_c NewDefaultReadOptions) s key")
  then have "e = None \<Longrightarrow> v = contents s key"
    using get_value [OF plainRead_default, of "calls w" s key v] by blast
  with get assms(1) show ?thesis
    by (cases e) (auto simp: dbGet_def onDb_live [OF assms(2)])
qed

lemma queryAppliedIndex_live:
  assumes "rocksLib E = C" and "liveAt w p = Some (r, db, dir, s)"
    and "queryAppliedIndex E p w = (x, w')"
  shows "w' = w\<lparr>calls := Suc (calls w)\<rparr> \<and> ((\<exists>e. x = Err e)
    \<or> (\<exists>n. x = Ok n \<and> storedIndex (contents s) = Inr n))"
  using dbGet_live [OF assms(1,2), of appliedIndexKey] assms(3) liveAt_SomeD [OF assms(2)]
  by (auto simp: queryAppliedIndex_def derefDb_live [OF assms(2)] andThen_apply sliceData_NewSlice
      storedIndex_def ret_apply err_apply Let_def split: option.splits if_splits sum.splits)

text \<open>A query for one key returns its value, or nothing for a key that is not there, or an error.\<close>

lemma Lookup_get:
  assumes E: "rocksLib E = C" and live: "live w = Some (r, db, dir, s)"
    and nc: "\<not> cmd_closed (commander w)" and act: "Action_Action (queryAction key) \<noteq> ''SCAN''"
    and run: "Lookup E key w = (x, w')"
  shows "w' = w\<lparr>calls := Suc (calls w)\<rparr> \<and> ((\<exists>e. x = Err e)
    \<or> x = Ok (case contents s (Action_Key (queryAction key)) of None \<Rightarrow> '''' | Some v \<Rightarrow> v))"
proof -
  obtain p where p: "cmd_db (commander w) = Some p" and at: "liveAt w p = Some (r, db, dir, s)"
    using live by (rule live_SomeE)
  show ?thesis
    using dbGet_live [OF E at, of "Action_Key (queryAction key)"] run p act nc liveAt_SomeD [OF at]
    by (auto simp: Lookup_def loadDb_def rocksdb_lookup_def deref_def derefDb_def andThen_apply
        queryAction_def [symmetric] sliceData_NewSlice getCommander_def ret_apply Let_def
        split: option.splits if_splits)
qed

end

section \<open>Scan\<close>

text \<open>Among keys in order, those with a prefix stand together, and first among the keys from the prefix on.\<close>

lemma prefix_le: "prefix p (k :: string) \<Longrightarrow> p \<le> k"
proof (induction p arbitrary: k)
  case (Cons a p)
  then show ?case by (cases k) auto
qed simp

lemma prefix_between: "p \<le> (k :: string) \<Longrightarrow> k \<le> k' \<Longrightarrow> prefix p k' \<Longrightarrow> prefix p k"
proof (induction p arbitrary: k k')
  case (Cons a p)
  from Cons.prems(3) obtain k'' where k': "k' = a # k''" "prefix p k''" by (cases k') auto
  from Cons.prems(1) obtain b bs where k: "k = b # bs" by (cases k) auto
  from Cons.prems(1,2) k k' have "a = b" "p \<le> bs" "bs \<le> k''" by auto
  with Cons.IH k k'(2) show ?case by simp
qed simp

lemma takeWhile_prefix:
  assumes "sorted (map fst kvs)"
  shows "takeWhile (\<lambda>(k, _). HasPrefix k pre) (dropWhile (\<lambda>(k, _). k < pre) kvs)
       = filter (\<lambda>(k, _). HasPrefix k pre) (kvs :: (string \<times> 'v) list)"
  using assms
proof (induction kvs)
  case (Cons kv kvs)
  obtain k v where kv: "kv = (k, v)" by (cases kv)
  have sorted: "sorted (map fst kvs)" and le: "\<forall>(k', _) \<in> set kvs. k \<le> k'"
    using Cons.prems by (auto simp: kv)
  show ?case
  proof (cases "k < pre")
    case True
    then have "\<not> HasPrefix k pre" using prefix_le [of pre k] by (auto simp: HasPrefix_iff)
    with True Cons.IH [OF sorted] show ?thesis by (simp add: kv)
  next
    case False
    then have ge: "pre \<le> k" by simp
    have none: "\<not> k' < pre" if "(k', v') \<in> set kvs" for k' v'
      using that le ge by fastforce
    then have drop: "dropWhile (\<lambda>(k, _). k < pre) kvs = kvs"
      by (cases kvs) (auto split: prod.splits)
    show ?thesis
    proof (cases "HasPrefix k pre")
      case True
      with False Cons.IH [OF sorted] drop show ?thesis by (simp add: kv)
    next
      case False
      then have "\<not> HasPrefix k' pre" if "(k', v') \<in> set kvs" for k' v'
        using that le ge prefix_between [of pre k k'] by (auto simp: HasPrefix_iff)
      then have "filter (\<lambda>(k, _). HasPrefix k pre) kvs = []"
        by (auto simp: filter_empty_conv)
      with False \<open>\<not> k < pre\<close> show ?thesis by (simp add: kv)
    qed
  qed
qed simp

definition addPairs :: "gomap \<Rightarrow> (string \<times> string) list \<Rightarrow> gomap" where
  "addPairs = foldl (\<lambda>m (k, v). AList.update k v m)"

lemma addPairs_fresh:
  assumes "distinct (map fst (acc @ kvs))"
  shows "addPairs acc kvs = acc @ kvs"
  using assms
proof (induction kvs arbitrary: acc)
  case (Cons kv kvs)
  obtain k v where kv: "kv = (k, v)" by (cases kv)
  have "k \<notin> fst ` set acc" using Cons.prems by (auto simp: kv)
  then have "AList.update k v acc = acc @ [(k, v)]" by (induction acc) auto
  with Cons.IH [of "acc @ [(k, v)]"] Cons.prems show ?case by (simp add: addPairs_def kv)
qed (simp add: addPairs_def)

lemma iterSlice_Some:
  "f i = Some k \<Longrightarrow> \<exists>sl. iterSlice f \<lparr>Iterator_c = Some i\<rparr> = Some sl \<and> sliceData sl = k"
  by (simp add: iterSlice_def sliceData_def charToByte_def)

context rocks
begin

lemma iterValid_rest [simp]: "iterValid C \<lparr>Iterator_c = Some i\<rparr> \<longleftrightarrow> rest i \<noteq> []"
  by (simp add: iterValid_def iter_valid)

lemma iter_pair:
  assumes "rest i = (k, v) # r"
  shows "\<exists>sk sv. iterKey C \<lparr>Iterator_c = Some i\<rparr> = Some sk \<and> sliceData sk = k
    \<and> iterValue C \<lparr>Iterator_c = Some i\<rparr> = Some sv \<and> sliceData sv = v"
  using iterSlice_Some [of "c_iter_key C", OF iter_key [OF assms]]
    iterSlice_Some [of "c_iter_value C", OF iter_value [OF assms]]
  by (auto simp: iterKey_def iterValue_def)

lemma scanLoop_step:
  "scanLoop C pre \<lparr>Iterator_c = Some i\<rparr> t acc =
     (case rest i of
        [] \<Rightarrow> Some (Inr acc, t)
      | (k, v) # _ \<Rightarrow>
          if \<not> HasPrefix k pre then Some (Inr acc, t)
          else scanLoop C pre \<lparr>Iterator_c = Some (c_iter_next C t i)\<rparr> (Suc t) (AList.update k v acc))"
proof (cases "rest i")
  case Nil
  then show ?thesis by (subst scanLoop.simps) simp
next
  case (Cons kv r)
  obtain k v where kv: "kv = (k, v)" by (cases kv)
  obtain sk sv where "iterKey C \<lparr>Iterator_c = Some i\<rparr> = Some sk" "sliceData sk = k"
      "iterValue C \<lparr>Iterator_c = Some i\<rparr> = Some sv" "sliceData sv = v"
    using iter_pair [OF Cons [unfolded kv]] by blast
  then show ?thesis
    by (subst scanLoop.simps) (simp add: Cons kv iterNext_def onIter_def)
qed

text \<open>A scan always ends, and what it has found are pairs that the iterator walked over.\<close>

lemma scanLoop_ends:
  "\<exists>kvs t'. scanLoop C pre \<lparr>Iterator_c = Some i\<rparr> t acc = Some (Inr (addPairs acc kvs), t')
     \<and> set kvs \<subseteq> {(k, v) \<in> set (rest i). HasPrefix k pre}"
proof (induction "length (rest i)" arbitrary: i t acc rule: less_induct)
  case less
  show ?case
  proof (cases "rest i")
    case Nil
    then show ?thesis
      by (subst scanLoop_step) (auto simp: addPairs_def intro: exI [of _ "[]"])
  next
    case (Cons kv r)
    obtain k v where kv: "kv = (k, v)" by (cases kv)
    show ?thesis
    proof (cases "HasPrefix k pre")
      case False
      then show ?thesis
        by (subst scanLoop_step) (auto simp: Cons kv addPairs_def intro: exI [of _ "[]"])
    next
      case True
      let ?i = "c_iter_next C t i"
      have "length (rest ?i) < length (rest i)" using Cons by (intro next_rest_shorter) simp
      from less [OF this, of "Suc t" "AList.update k v acc"] obtain kvs t' where
          kvs: "scanLoop C pre \<lparr>Iterator_c = Some ?i\<rparr> (Suc t) (AList.update k v acc)
            = Some (Inr (addPairs (AList.update k v acc) kvs), t')"
          "set kvs \<subseteq> {(k, v) \<in> set (rest ?i). HasPrefix k pre}" by blast
      have "set (rest ?i) \<subseteq> set (rest i)" using Cons by (intro next_rest_suffix) simp
      with kvs(2) have "set ((k, v) # kvs) \<subseteq> {(k, v) \<in> set (rest i). HasPrefix k pre}"
        using True Cons kv by auto
      moreover have "scanLoop C pre \<lparr>Iterator_c = Some i\<rparr> t acc
          = Some (Inr (addPairs acc ((k, v) # kvs)), t')"
        using True kvs(1) by (subst scanLoop_step) (simp add: Cons kv addPairs_def)
      ultimately show ?thesis by blast
    qed
  qed
qed

end

context rocks_reliable
begin

lemma scanLoop_all:
  "\<exists>t'. scanLoop C pre \<lparr>Iterator_c = Some i\<rparr> t acc =
     Some (Inr (addPairs acc (takeWhile (\<lambda>(k, _). HasPrefix k pre) (rest i))), t')"
proof (induction "rest i" arbitrary: i t acc)
  case Nil
  then show ?case by (subst scanLoop_step) (simp add: addPairs_def)
next
  case (Cons kv r)
  obtain k v where kv: "kv = (k, v)" by (cases kv)
  have rest: "rest i = (k, v) # r" using Cons(2) kv by simp
  have "rest (c_iter_next C t i) = r" by (rule next_tail [OF rest])
  from Cons(1) [OF this [symmetric], of "Suc t" "AList.update k v acc"] this show ?case
    by (subst scanLoop_step) (auto simp: rest addPairs_def)
qed

end

context rocks
begin

lemma scan_run:
  assumes E: "rocksLib E = C" and at: "liveAt w p = Some (r, db, dir, s)"
  shows "\<exists>i. items i = pairs (contents s) \<and>
    scan E p pre w = runLoop (\<lambda>t. scanLoop C pre \<lparr>Iterator_c = Some (c_iter_seek C t i pre)\<rparr> (Suc t) [])
      (w\<lparr>calls := Suc (calls w)\<rparr>)"
proof -
  let ?ro = "SetFillCache NewDefaultReadOptions False :: 'n ReadOptions"
  have "plainRead (ReadOptions_c ?ro) None"
    by (simp add: plainRead_def NewDefaultReadOptions_def SetFillCache_def onRead_def)
  from iterator_items [OF this, of "calls w" s] show ?thesis
    by (intro exI conjI, assumption)
      (simp add: scan_def Let_def derefDb_live [OF at] dbNewIterator_def andThen_apply onDb_live [OF at] E
        iterSeek_def onIter_def)
qed

lemma Lookup_scan_run:
  assumes "cmd_db (commander w) = Some p" and "Action_Action (queryAction key) = ''SCAN''"
  shows "Lookup E key w = andThen (scan E p (Action_Key (queryAction key))) (\<lambda>found. ret (marshalMap found)) w"
  using assms by (simp add: Lookup_def loadDb_def andThen_apply queryAction_def [symmetric])

text \<open>A scan always returns, without an error, and only what is in the database.\<close>

lemma seek_subset: "set (rest (c_iter_seek C t i k)) \<subseteq> set (items i)"
  using seek_rest [of t i k] by (auto dest: set_dropWhileD)

lemma Lookup_scan_sound:
  assumes E: "rocksLib E = C" and live: "live w = Some (r, db, dir, s)"
    and act: "Action_Action (queryAction key) = ''SCAN''"
  shows "\<exists>kvs n. Lookup E key w = (Ok (marshalMap (addPairs [] kvs)), w\<lparr>calls := n\<rparr>)
    \<and> set kvs \<subseteq> {(k, v). contents s k = Some v \<and> HasPrefix k (Action_Key (queryAction key))}"
proof -
  let ?pre = "Action_Key (queryAction key)"
  obtain p where p: "cmd_db (commander w) = Some p" and at: "liveAt w p = Some (r, db, dir, s)"
    using live by (rule live_SomeE)
  obtain i where i: "items i = pairs (contents s)" and run: "scan E p ?pre w =
      runLoop (\<lambda>t. scanLoop C ?pre \<lparr>Iterator_c = Some (c_iter_seek C t i ?pre)\<rparr> (Suc t) [])
        (w\<lparr>calls := Suc (calls w)\<rparr>)"
    using scan_run [OF E at] by blast
  let ?i = "c_iter_seek C (Suc (calls w)) i ?pre"
  obtain kvs t' where loop: "scanLoop C ?pre \<lparr>Iterator_c = Some ?i\<rparr> (Suc (Suc (calls w))) [] = Some (Inr (addPairs [] kvs), t')"
      and sub: "set kvs \<subseteq> {(k, v) \<in> set (rest ?i). HasPrefix k ?pre}"
    using scanLoop_ends by blast
  have "(k, v) \<in> set (pairs (contents s))" if "(k, v) \<in> set (rest ?i)" for k v
    using that seek_subset [of "Suc (calls w)" i ?pre] i by auto
  then have "set kvs \<subseteq> {(k, v). contents s k = Some v \<and> HasPrefix k ?pre}"
    using sub set_pairs [OF finite_contents] by blast
  moreover have "Lookup E key w = (Ok (marshalMap (addPairs [] kvs)), w\<lparr>calls := t'\<rparr>)"
    using loop by (simp add: Lookup_scan_run [OF p act] andThen_apply run runLoop_def ret_apply)
  ultimately show ?thesis by blast
qed

end

context rocks_reliable
begin

lemma Lookup_scan_exact:
  assumes E: "rocksLib E = C" and live: "live w = Some (r, db, dir, s)"
    and act: "Action_Action (queryAction key) = ''SCAN''"
  shows "\<exists>n. Lookup E key w =
    (Ok (marshalMap (filter (\<lambda>(k, _). HasPrefix k (Action_Key (queryAction key))) (pairs (contents s)))),
     w\<lparr>calls := n\<rparr>)"
proof -
  let ?pre = "Action_Key (queryAction key)"
  let ?found = "filter (\<lambda>(k, _). HasPrefix k ?pre) (pairs (contents s))"
  obtain p where p: "cmd_db (commander w) = Some p" and at: "liveAt w p = Some (r, db, dir, s)"
    using live by (rule live_SomeE)
  obtain i where i: "items i = pairs (contents s)" and run: "scan E p ?pre w =
      runLoop (\<lambda>t. scanLoop C ?pre \<lparr>Iterator_c = Some (c_iter_seek C t i ?pre)\<rparr> (Suc t) [])
        (w\<lparr>calls := Suc (calls w)\<rparr>)"
    using scan_run [OF E at] by blast
  have "takeWhile (\<lambda>(k, _). HasPrefix k ?pre) (rest (c_iter_seek C t i ?pre)) = ?found" for t
    using takeWhile_prefix [OF sorted_pairs] by (simp add: seek_from i)
  moreover have "distinct (map fst ?found)"
    by (rule distinct_map_filter) simp
  ultimately obtain t' where
    "scanLoop C ?pre \<lparr>Iterator_c = Some (c_iter_seek C (Suc (calls w)) i ?pre)\<rparr> (Suc (Suc (calls w))) []
      = Some (Inr ?found, t')"
    using scanLoop_all [of ?pre "c_iter_seek C (Suc (calls w)) i ?pre" "Suc (Suc (calls w))" "[]"]
      addPairs_fresh [of "[]" ?found] by auto
  then have "Lookup E key w = (Ok (marshalMap ?found), w\<lparr>calls := t'\<rparr>)"
    by (simp add: Lookup_scan_run [OF p act] andThen_apply run runLoop_def ret_apply)
  then show ?thesis by blast
qed

end

lemma sort_key_sorted: "sorted (map f xs) \<Longrightarrow> sort_key f xs = xs"
  by (induction xs) (simp_all add: insort_is_Cons)

lemma unmarshalMap_pairs:
  assumes "finite (dom m)" and "validContents m"
  shows "unmarshalMap (marshalMap (filter P (pairs m))) [] = (filter P (pairs m), None)"
proof -
  let ?l = "filter P (pairs m)"
  have "sorted (map fst ?l)" using sorted_pairs by (rule sorted_filter)
  then have "sort_key fst ?l = ?l" by (rule sort_key_sorted)
  moreover have "validMap ?l"
    using assms set_pairs by (fastforce simp: validMap_def validContents_def)
  moreover have "distinct (map fst ?l)" by (rule distinct_map_filter) simp
  ultimately show ?thesis using unmarshalMap_marshal [of ?l] by simp
qed

section \<open>An example\<close>

text \<open>A replica whose database holds the given pairs, over the reference library.\<close>

definition exampleEnv :: "(nat \<Rightarrow> fault) \<Rightarrow> (refDb, wbop list, refIter, refDb) env" where
  "exampleEnv f = \<lparr>faults = f, rand_Uint64 = (\<lambda>_. 7), UnixNano = (\<lambda>_. 9), lib_SyncDir = (\<lambda>_ _. None),
     rocksLib = refRocks\<rparr>"

definition exampleWorld :: "refDb \<Rightarrow> uint64 \<Rightarrow> (refDb, refDb) world" where
  "exampleWorld s i = \<lparr>calls = 0,
     tree = [(''dcrontab-data'', FDir), (exampleDir, FDir), (exampleDir @ ''/'' @ ''1_1'', FDb s),
             (curFile exampleDir, FFile (currentContent (exampleDir @ ''/'' @ ''1_1'')))],
     openDbs = (\<lambda>c. if c = 0 then Some (exampleDir @ ''/'' @ ''1_1'') else None), nextDb = 1,
     rheap = (\<lambda>p. if p = 0 then Some \<lparr>rdb_db = Some \<lparr>DB_c = 0, DB_name = exampleDir @ ''/'' @ ''1_1'',
         DB_opts = NewDefaultOptions\<rparr>, rdb_ro = NewDefaultReadOptions,
         rdb_wo = SetSync NewDefaultWriteOptions True, rdb_opts = NewDefaultOptions,
         rdb_closed = False\<rparr> else None),
     nextPtr = 1,
     commander = (NewCommander 1 1)\<lparr>lastApplied := i, cmd_db := Some 0\<rparr>\<rparr>"

definition exampleEntry :: "uint64 \<Rightarrow> string \<Rightarrow> string \<Rightarrow> Entry" where
  "exampleEntry i k v = \<lparr>Entry_Index = i,
     Entry_Cmd = marshalAction \<lparr>Action_Action = ''PUT'', Action_Key = k, Action_Val = v\<rparr>, Entry_Result = 0\<rparr>"

lemma exampleEnv_lib [simp]: "rocksLib (exampleEnv f) = refRocks"
  by (simp add: exampleEnv_def)

lemma live_exampleWorld: "\<exists>r db. live (exampleWorld s i) = Some (r, db, exampleDir @ ''/'' @ ''1_1'', s)"
  by (simp add: live_def liveAt_def exampleWorld_def NewCommander_def dbAt_def currentDBFilename_def
      exampleDir_def)

lemma liveState_exampleWorld [simp]: "liveState (exampleWorld s i) = Some s"
  using live_exampleWorld [of s i] by (auto simp: liveState_def)

lemma accepting_exampleWorld [simp]: "accepting (exampleWorld s i)" "\<not> cmd_closed (commander (exampleWorld s i))"
  by (simp_all add: accepting_def exampleWorld_def NewCommander_def)

lemma lastApplied_exampleWorld [simp]: "lastApplied (commander (exampleWorld s i)) = i"
  by (simp add: exampleWorld_def NewCommander_def)

lemma validEntry_exampleEntry [simp]: "validEntry (exampleEntry i k v)"
  by (simp add: validEntry_def exampleEntry_def unmarshalAction_marshal)

lemma exampleEntry_Index [simp]: "Entry_Index (exampleEntry i k v) = i"
  by (simp add: exampleEntry_def)

lemma refRocks_laws: "rocks refRocks map_of (\<lambda>b. b) fst snd map_of"
  by (rule refLib.rocks_axioms)

lemma liveState_E:
  assumes "liveState w = Some s"
  obtains r db dir where "live w = Some (r, db, dir, s)"
  using assms by (auto simp: liveState_def)

section \<open>Properties\<close>

text \<open>
  C5. An update refines the abstract one, atomically. For entries that are valid JSON, whatever
  the library and the operating system do and also when the process dies in the middle, the
  contents of the database is afterwards the old one, or the old one with the puts of all
  entries in order and the index of the last entry; it is the latter when the update returns,
  and then each entry carries the length of its command and the index in memory is the one
  stored. An update that does not return a value leaves the index in memory as it was.
\<close>

theorem update_refines:
  assumes "rocks (rocksLib E) contents ops items rest snapped"
    and "accepting w" and "liveState w = Some s" and "list_all validEntry ents" and "ents \<noteq> []"
    and "Update E ents w = (x, w')"
  shows "\<exists>s'. liveState w' = Some s'
    \<and> (contents s' = contents s \<or> contents s' = applyEntries ents (contents s))
    \<and> (\<forall>es. x = Ok es \<longrightarrow> es = map withResult ents \<and> contents s' = applyEntries ents (contents s)
         \<and> lastApplied (commander w) < lastApplied (commander w')
         \<and> storedIndex (contents s') = Inr (lastApplied (commander w')))
    \<and> ((\<forall>es. x \<noteq> Ok es) \<longrightarrow> lastApplied (commander w') = lastApplied (commander w))"
proof -
  obtain r db dir where "live w = Some (r, db, dir, s)" using assms(3) by (rule liveState_E)
  from rocks.Update_effect [OF assms(1) refl assms(2) this assms(4,5,6)] show ?thesis
    using storedIndex_applyEntries [of ents "contents s"] by (fastforce simp: liveState_def)
qed

theorem update_refines_witness:
  "let ents = [exampleEntry 1 ''a'' ''x'', exampleEntry 2 ''b'' ''y''];
       run = Update (exampleEnv (\<lambda>_. NoFault)) ents (exampleWorld [] 0)
   in \<exists>s'. liveState (snd run) = Some s' \<and> (map_of s' = map_of [] \<or> map_of s' = applyEntries ents (map_of []))"
  unfolding Let_def
  using update_refines [of "exampleEnv (\<lambda>_. NoFault)" map_of "\<lambda>b. b" fst snd map_of "exampleWorld [] 0" "[]"
      "[exampleEntry 1 ''a'' ''x'', exampleEntry 2 ''b'' ''y'']", OF _ _ _ _ _ prod.collapse [symmetric]]
    refRocks_laws by auto

text \<open>
  C28. An update returns. When no call fails and the library reports no error, entries that are
  valid JSON and whose last index is above the applied one are applied.
\<close>

theorem update_returns:
  assumes "rocks (rocksLib E) contents ops items rest snapped"
    and "\<And>t wo s b. fst (c_write (rocksLib E) t wo s b) = None" and "faults E = (\<lambda>_. NoFault)"
    and "accepting w" and "liveState w = Some s" and "list_all validEntry ents" and "ents \<noteq> []"
    and "lastApplied (commander w) < Entry_Index (last ents)"
  shows "\<exists>w' s'. Update E ents w = (Ok (map withResult ents), w') \<and> liveState w' = Some s'
    \<and> contents s' = applyEntries ents (contents s)"
proof -
  obtain r db dir where live: "live w = Some (r, db, dir, s)" using assms(5) by (rule liveState_E)
  obtain w' where run: "Update E ents w = (Ok (map withResult ents), w')"
    using rocks.Update_moves_forward [OF assms(1) refl assms(4) live assms(6,7) assms(2,3,8)] by blast
  then show ?thesis
    using rocks.Update_effect [OF assms(1) refl assms(4) live assms(6,7) run]
    by (auto simp: liveState_def)
qed

theorem update_returns_witness:
  "\<exists>w'. Update (exampleEnv (\<lambda>_. NoFault)) [exampleEntry 4 ''k'' ''v''] (exampleWorld [(''k'', ''u'')] 3)
     = (Ok (map withResult [exampleEntry 4 ''k'' ''v'']), w')"
  using update_returns [of "exampleEnv (\<lambda>_. NoFault)" map_of "\<lambda>b. b" fst snd map_of
      "exampleWorld [(''k'', ''u'')] 3" "[(''k'', ''u'')]" "[exampleEntry 4 ''k'' ''v'']"]
    refRocks_laws
  by (force simp: refRocks_def exampleEnv_def)

text \<open>
  A log entry that is not valid JSON stops the replica: the update panics before anything
  is written, whatever stands before and after it in the batch.
\<close>

theorem update_bad_entry_panics:
  assumes "accepting w" and "\<exists>e \<in> set ents. \<not> validEntry e"
  shows "Update E ents w = (Panic ''json'', w)"
  using assms by (intro Update_invalid) (auto simp: list_all_iff)

theorem update_bad_entry_panics_witness:
  "Update (exampleEnv (\<lambda>_. NoFault)) [\<lparr>Entry_Index = 1, Entry_Cmd = ''x'', Entry_Result = 0\<rparr>] (exampleWorld [] 0)
     = (Panic ''json'', exampleWorld [] 0)"
proof (rule update_bad_entry_panics)
  have "snd (unmarshalAction ''x'' emptyAction) = Some JsonSyntaxError" by code_simp
  then show "\<exists>e \<in> set [\<lparr>Entry_Index = 1, Entry_Cmd = ''x'', Entry_Result = 0\<rparr>]. \<not> validEntry e"
    by (simp add: validEntry_def)
qed simp

lemma queryAction_marshal: "queryAction (marshalAction a) = cleanAction a"
  by (simp add: queryAction_def unmarshalAction_marshal)

lemma entryAction_marshal: "Entry_Cmd e = marshalAction a \<Longrightarrow> entryAction e = cleanAction a"
  by (simp add: entryAction_def unmarshalAction_marshal)

lemma foldl_entries_last:
  assumes "k \<notin> (\<lambda>e. Action_Key (entryAction e)) ` set es"
  shows "foldl (\<lambda>m e. m(Action_Key (entryAction e) \<mapsto> Action_Val (entryAction e))) m es k = m k"
  using assms by (induction es arbitrary: m) auto

lemma live_accepting_calls [simp]: "accepting (w\<lparr>calls := n\<rparr>) = accepting w"
  by (simp add: accepting_def)

lemma Update_Ok_not_closed:
  assumes "Update E ents w = (Ok es, w')"
  shows "\<not> cmd_closed (commander w')"
  using assms by (auto simp: Update_def getCommander_def setCommander_def loadDb_def noPtr_def derefDb_def deref_def
      dbWrite_def onDb_def libCall_def Let_def andThen_apply gopanic_apply ret_apply
      split: if_splits option.splits sum.splits prod.splits fault.splits)

text \<open>
  A value that was put is read back. After an update that returned, a query for the key
  of one of its entries gives, if it gives a value, the value of the last entry with this
  key; the key under which the applied index is kept is not for the clients.
\<close>

theorem put_then_get:
  assumes "rocks (rocksLib E) contents ops items rest snapped"
    and "accepting w" and "liveState w = Some s" and "list_all validEntry (es1 @ e # es2)"
    and "Entry_Cmd e = marshalAction \<lparr>Action_Action = act, Action_Key = k, Action_Val = v\<rparr>"
    and "validUtf8 k" and "validUtf8 v" and "k \<noteq> appliedIndexKey"
    and "\<forall>e' \<in> set es2. Action_Key (entryAction e') \<noteq> k"
    and "Update E (es1 @ e # es2) w = (Ok es, w1)"
    and "Lookup E (marshalAction \<lparr>Action_Action = ''GET'', Action_Key = k, Action_Val = ''''\<rparr>) w1 = (Ok v', w2)"
  shows "v' = v"
proof -
  obtain r db dir where live: "live w = Some (r, db, dir, s)" using assms(3) by (rule liveState_E)
  let ?ents = "es1 @ e # es2"
  have ne: "?ents \<noteq> []" by simp
  from rocks.Update_effect [OF assms(1) refl assms(2) live assms(4) ne assms(10)]
  obtain s' where live': "live w1 = Some (r, db, dir, s')"
    and s': "contents s' = applyEntries ?ents (contents s)" by auto
  let ?q = "marshalAction \<lparr>Action_Action = ''GET'', Action_Key = k, Action_Val = ''''\<rparr>"
  have q: "Action_Action (queryAction ?q) = ''GET''" "Action_Key (queryAction ?q) = k"
    using assms(6) by (simp_all add: queryAction_marshal cleanAction_def validUtf8_ascii)
  then have act: "Action_Action (queryAction ?q) \<noteq> ''SCAN''" by simp
  have "v' = (case contents s' k of None \<Rightarrow> '''' | Some v \<Rightarrow> v)"
    using rocks.Lookup_get [OF assms(1) refl live' Update_Ok_not_closed [OF assms(10)] act assms(11)] q
    by simp
  moreover have "k \<notin> (\<lambda>e. Action_Key (entryAction e)) ` set es2" using assms(9) by auto
  then have "contents s' k = Some v"
    using assms(6,7,8) by (simp add: s' applyEntries_alt foldl_entries_last entryAction_marshal [OF assms(5)]
        cleanAction_def)
  ultimately show ?thesis by simp
qed

theorem put_then_get_witness:
  "let w1 = snd (Update (exampleEnv (\<lambda>_. NoFault)) [exampleEntry 4 ''k'' ''v''] (exampleWorld [(''k'', ''u'')] 3))
   in \<forall>v' w2. Lookup (exampleEnv (\<lambda>_. NoFault))
        (marshalAction \<lparr>Action_Action = ''GET'', Action_Key = ''k'', Action_Val = ''''\<rparr>) w1 = (Ok v', w2)
      \<longrightarrow> v' = ''v''"
proof -
  let ?E = "exampleEnv (\<lambda>_. NoFault)" and ?w = "exampleWorld [(''k'', ''u'')] 3"
  let ?e = "exampleEntry 4 ''k'' ''v''"
  obtain w1 where run: "Update ?E ([] @ ?e # []) ?w = (Ok (map withResult [?e]), w1)"
    using rocks.Update_run [OF refRocks_laws, of ?E ?w] live_exampleWorld [of "[(''k'', ''u'')]" 3]
    by (force simp: libCall_def refRocks_def exampleEnv_def)
  have "v' = ''v''" if "Lookup ?E (marshalAction \<lparr>Action_Action = ''GET'', Action_Key = ''k'', Action_Val = ''''\<rparr>) w1
      = (Ok v', w2)" for v' w2
    by (rule put_then_get [where E = ?E and w = ?w and e = ?e and act = "''PUT''" and ?es1.0 = "[]" and ?es2.0 = "[]",
          OF _ _ _ _ _ _ _ _ _ run that, of map_of "\<lambda>b. b" fst snd map_of])
      (simp_all add: refRocks_laws exampleEntry_def [of _ "''k''" "''v''"] appliedIndexKey_def
        validEntry_exampleEntry [unfolded exampleEntry_def])
  then show ?thesis using run unfolding Let_def by (metis append_Nil snd_conv)
qed

text \<open>
  C14. A scan is exact. With a library whose iterators do not fail, the query \<^verbatim>\<open>SCAN\<close> for a
  prefix returns, and what the client decodes from the answer are all the pairs whose key has
  the prefix and no others, in the order of the keys; the database is not changed.
\<close>

theorem scan_exact:
  assumes "rocks_reliable (rocksLib E) contents ops items rest snapped"
    and "liveState w = Some s" and "validContents (contents s)" and "validUtf8 pre"
  shows "\<exists>answer n. Lookup E (marshalAction \<lparr>Action_Action = ''SCAN'', Action_Key = pre, Action_Val = ''''\<rparr>) w
      = (Ok answer, w\<lparr>calls := n\<rparr>)
    \<and> unmarshalMap answer [] = (filter (\<lambda>(k, _). HasPrefix k pre) (pairs (contents s)), None)
    \<and> (\<forall>k v. (k, v) \<in> set (fst (unmarshalMap answer [])) \<longleftrightarrow> contents s k = Some v \<and> prefix pre k)"
proof -
  obtain r db dir where live: "live w = Some (r, db, dir, s)" using assms(2) by (rule liveState_E)
  let ?q = "marshalAction \<lparr>Action_Action = ''SCAN'', Action_Key = pre, Action_Val = ''''\<rparr>"
  have q: "Action_Action (queryAction ?q) = ''SCAN''" "Action_Key (queryAction ?q) = pre"
    using assms(4) by (simp_all add: queryAction_marshal cleanAction_def validUtf8_ascii)
  have fin: "finite (dom (contents s))"
    by (rule rocks.finite_contents [OF rocks_reliable.axioms(1) [OF assms(1)]])
  obtain n where n: "Lookup E ?q w = (Ok (marshalMap (filter (\<lambda>(k, _). HasPrefix k pre) (pairs (contents s)))),
      w\<lparr>calls := n\<rparr>)"
    using rocks_reliable.Lookup_scan_exact [OF assms(1) refl live q(1)] q(2) by auto
  show ?thesis
    by (intro exI conjI, rule n) (auto simp: unmarshalMap_pairs [OF fin assms(3)] set_pairs [OF fin] HasPrefix_iff)
qed

theorem scan_exact_witness:
  "\<exists>answer n. Lookup (exampleEnv (\<lambda>_. NoFault)) (marshalAction \<lparr>Action_Action = ''SCAN'', Action_Key = ''a'', Action_Val = ''''\<rparr>)
      (exampleWorld [(''ab'', ''1''), (''b'', ''2'')] 0) = (Ok answer, (exampleWorld [(''ab'', ''1''), (''b'', ''2'')] 0)\<lparr>calls := n\<rparr>)
    \<and> unmarshalMap answer [] = (filter (\<lambda>(k, _). HasPrefix k ''a'') (pairs (map_of [(''ab'', ''1''), (''b'', ''2'')])), None)"
proof -
  have "validContents (map_of [(''ab'', ''1''), (''b'', ''2'')])"
    by (simp add: validContents_def)
  then show ?thesis
    using scan_exact [of "exampleEnv (\<lambda>_. NoFault)" map_of "\<lambda>b. b" fst snd map_of
        "exampleWorld [(''ab'', ''1''), (''b'', ''2'')] 0" "[(''ab'', ''1''), (''b'', ''2'')]" "''a''"]
      refLib.rocks_reliable_axioms by auto
qed

text \<open>
  A scan always ends, also over a library whose iterators fail; it returns no error then,
  and every pair it returns is in the database and has the prefix.
\<close>

theorem scan_terminates_sound:
  assumes "rocks (rocksLib E) contents ops items rest snapped"
    and "liveState w = Some s" and "Action_Action (queryAction key) = ''SCAN''"
  shows "\<exists>kvs n. Lookup E key w = (Ok (marshalMap (addPairs [] kvs)), w\<lparr>calls := n\<rparr>)
    \<and> set kvs \<subseteq> {(k, v). contents s k = Some v \<and> prefix (Action_Key (queryAction key)) k}"
proof -
  obtain r db dir where live: "live w = Some (r, db, dir, s)" using assms(2) by (rule liveState_E)
  from rocks.Lookup_scan_sound [OF assms(1) refl live assms(3)] show ?thesis
    by (simp add: HasPrefix_iff)
qed

theorem scan_terminates_sound_witness:
  "\<exists>answer w'. Lookup (exampleEnv (\<lambda>_. NoFault)) (marshalAction \<lparr>Action_Action = ''SCAN'', Action_Key = ''a'', Action_Val = ''''\<rparr>)
      (exampleWorld [(''ab'', ''1'')] 0) = (Ok answer, w')"
  using scan_terminates_sound [of "exampleEnv (\<lambda>_. NoFault)" map_of "\<lambda>b. b" fst snd map_of
      "exampleWorld [(''ab'', ''1'')] 0" "[(''ab'', ''1'')]"
      "marshalAction \<lparr>Action_Action = ''SCAN'', Action_Key = ''a'', Action_Val = ''''\<rparr>"]
    refRocks_laws by (auto simp: queryAction_marshal cleanAction_def)

text \<open>
  The iterator of a scan: the one that the library returns, placed at the prefix; and an iterator
  after some calls of \<^verbatim>\<open>Next\<close>, the first of them at a given time.
\<close>

definition scanStart :: "('s, 'b, 'i, 'n) env \<Rightarrow> ('s, 'n) world \<Rightarrow> 's \<Rightarrow> bytes \<Rightarrow> 'i" where
  "scanStart E w s pre = (let C = rocksLib E in
     c_iter_seek C (Suc (calls w))
       (c_create_iterator C (calls w) (ReadOptions_c (SetFillCache NewDefaultReadOptions False)) s) pre)"

fun nexts :: "('s, 'b, 'i, 'n) rocksdb_c \<Rightarrow> nat \<Rightarrow> 'i \<Rightarrow> nat \<Rightarrow> 'i" where
  "nexts C t i 0 = i"
| "nexts C t i (Suc n) = nexts C (Suc t) (c_iter_next C t i) n"

context rocks
begin

lemma takeWhile_of_take: "takeWhile P (take n xs) = take n (takeWhile P xs)"
proof (induction xs arbitrary: n)
  case (Cons x xs)
  then show ?case by (cases n) simp_all
qed simp

text \<open>An iterator that is valid before \<open>n\<close> has walked over \<open>n\<close> pairs; if some are left, it has an error.\<close>

lemma nexts_first:
  assumes "\<And>m. m < Suc n \<Longrightarrow> c_iter_valid C (nexts C t i m)"
  shows "\<exists>k v r. rest i = (k, v) # r \<and> (rest (c_iter_next C t i) = r \<or> n = 0)"
    and "m < n \<Longrightarrow> c_iter_valid C (nexts C (Suc t) (c_iter_next C t i) m)"
proof -
  have "c_iter_valid C i" using assms [of 0] by simp
  then obtain k v r where r: "rest i = (k, v) # r" by (cases "rest i") (auto simp: iter_valid)
  have later: "c_iter_valid C (nexts C (Suc t) (c_iter_next C t i) m)" if "m < n" for m
    using assms [of "Suc m"] that by simp
  have "rest (c_iter_next C t i) = r \<or> n = 0" using next_rest [OF r, of t] later [of 0] by (auto simp: iter_valid)
  with r show "\<exists>k v r. rest i = (k, v) # r \<and> (rest (c_iter_next C t i) = r \<or> n = 0)" by blast
  show "m < n \<Longrightarrow> c_iter_valid C (nexts C (Suc t) (c_iter_next C t i) m)" by (rule later)
qed

lemma nexts_error:
  assumes "\<And>m. m < n \<Longrightarrow> c_iter_valid C (nexts C t i m)" and "\<not> c_iter_valid C (nexts C t i n)" and "n < length (rest i)"
  shows "c_iter_get_error C (nexts C t i n) \<noteq> None"
  using assms
proof (induction n arbitrary: t i)
  case 0
  then show ?case by (simp add: iter_valid)
next
  case (Suc n)
  obtain k v r where r: "rest i = (k, v) # r" and next': "rest (c_iter_next C t i) = r \<or> n = 0"
    using nexts_first(1) [OF Suc.prems(1)] by blast
  note later = nexts_first(2) [OF Suc.prems(1)]
  show ?case
  proof (cases "rest (c_iter_next C t i) = r")
    case True
    then show ?thesis using Suc.IH [OF later] Suc.prems(2,3) r by simp
  next
    case False
    then show ?thesis using next' next_rest [OF r, of t] by auto
  qed
qed

lemma scanLoop_until:
  assumes "\<And>m. m < n \<Longrightarrow> c_iter_valid C (nexts C t i m)" and "\<not> c_iter_valid C (nexts C t i n)"
  shows "\<exists>t'. scanLoop C pre \<lparr>Iterator_c = Some i\<rparr> t acc =
    Some (Inr (addPairs acc (takeWhile (\<lambda>(k, _). HasPrefix k pre) (take n (rest i)))), t')"
  using assms
proof (induction n arbitrary: t i acc)
  case 0
  then show ?case by (subst scanLoop_step) (simp add: iter_valid addPairs_def)
next
  case (Suc n)
  obtain k v r where r: "rest i = (k, v) # r" and next': "rest (c_iter_next C t i) = r \<or> n = 0"
    using nexts_first(1) [OF Suc.prems(1)] by blast
  note later = nexts_first(2) [OF Suc.prems(1)]
  have "take n (rest (c_iter_next C t i)) = take n r" using next' by auto
  then show ?case
    using Suc.IH [where acc = "AList.update k v acc", OF later] Suc.prems(2)
    by (subst scanLoop_step) (simp add: r addPairs_def)
qed

lemma Lookup_scan_until:
  assumes E: "rocksLib E = C" and live: "live w = Some (r, db, dir, s)"
    and act: "Action_Action (queryAction key) = ''SCAN''" and pre: "Action_Key (queryAction key) = pre"
    and valid: "\<And>m. m < n \<Longrightarrow> c_iter_valid C (nexts C (Suc (Suc (calls w))) (scanStart E w s pre) m)"
    and stop: "\<not> c_iter_valid C (nexts C (Suc (Suc (calls w))) (scanStart E w s pre) n)"
  shows "\<exists>t. Lookup E key w = (Ok (marshalMap (take n (filter (\<lambda>(k, _). HasPrefix k pre) (pairs (contents s))))), w\<lparr>calls := t\<rparr>)"
    and "n < length (filter (\<lambda>(k, _). HasPrefix k pre) (pairs (contents s))) \<Longrightarrow>
      c_iter_get_error C (nexts C (Suc (Suc (calls w))) (scanStart E w s pre) n) \<noteq> None"
proof -
  let ?ro = "SetFillCache NewDefaultReadOptions False :: 'n ReadOptions" and ?P = "\<lambda>(k, _). HasPrefix k pre"
  let ?found = "filter ?P (pairs (contents s))" and ?i = "scanStart E w s pre" and ?t = "Suc (Suc (calls w))"
  let ?from = "dropWhile (\<lambda>(k', _). k' < pre) (pairs (contents s))"
  obtain p where p: "cmd_db (commander w) = Some p" and at: "liveAt w p = Some (r, db, dir, s)"
    using live by (rule live_SomeE)
  have "plainRead (ReadOptions_c ?ro) None"
    by (simp add: plainRead_def NewDefaultReadOptions_def SetFillCache_def onRead_def)
  note items = iterator_items [OF this, of "calls w" s]
  have run: "scan E p pre w = runLoop (\<lambda>t. scanLoop C pre \<lparr>Iterator_c = Some (c_iter_seek C t
        (c_create_iterator C (calls w) (ReadOptions_c ?ro) s) pre)\<rparr> (Suc t) []) (w\<lparr>calls := Suc (calls w)\<rparr>)"
    by (simp add: scan_def Let_def derefDb_live [OF at] dbNewIterator_def andThen_apply onDb_live [OF at] E
        iterSeek_def onIter_def)
  have all: "takeWhile ?P ?from = ?found" using takeWhile_prefix [OF sorted_pairs] by simp
  have seek: "rest ?i = ?from \<or> rest ?i = [] \<and> c_iter_get_error C ?i \<noteq> None"
    using seek_rest [of "Suc (calls w)" "c_create_iterator C (calls w) (ReadOptions_c ?ro) s" pre] items
    by (simp add: scanStart_def E Let_def)
  then have zero: "rest ?i = ?from \<or> n = 0" using valid [of 0] by (auto simp: iter_valid)
  have taken: "takeWhile ?P (take n (rest ?i)) = take n ?found"
  proof (cases "n = 0")
    case False
    then show ?thesis using zero by (simp add: takeWhile_of_take all)
  qed simp
  have "distinct (map fst ?found)" by (rule distinct_map_filter) simp
  then have "distinct (map fst (take n ?found))" by (simp only: take_map [symmetric] distinct_take)
  then have "addPairs [] (take n ?found) = take n ?found" using addPairs_fresh [of "[]" "take n ?found"] by simp
  then obtain t' where "scanLoop C pre \<lparr>Iterator_c = Some ?i\<rparr> ?t [] = Some (Inr (take n ?found), t')"
    using scanLoop_until [OF valid stop, of pre "[]"] taken by auto
  then show "\<exists>t. Lookup E key w = (Ok (marshalMap (take n ?found)), w\<lparr>calls := t\<rparr>)"
    by (intro exI [of _ t']) (simp add: Lookup_scan_run [OF p act] pre andThen_apply run runLoop_def ret_apply scanStart_def E Let_def)
  assume n: "n < length ?found"
  show "c_iter_get_error C (nexts C ?t ?i n) \<noteq> None"
  proof (cases "rest ?i = ?from")
    case True
    then have "length ?found \<le> length (rest ?i)" using all length_takeWhile_le by metis
    then show ?thesis using nexts_error [OF valid stop] n by simp
  next
    case False
    then show ?thesis using seek zero by auto
  qed
qed

end

text \<open>
  C38. The loop of a scan does not ask the iterator for its error. Over every library that keeps its
  promises, also when its iterators fail at any of their calls: if the iterator of a scan is
  valid for \<open>n\<close> pairs and then not any more, the answer is a success with the first \<open>n\<close> of the pairs
  that have the prefix, and when these are not all of them, the iterator had an error to report.
\<close>

theorem scan_hides_read_errors:
  assumes "rocks (rocksLib E) contents ops items rest snapped"
    and "liveState w = Some s" and "Action_Action (queryAction key) = ''SCAN''" and "Action_Key (queryAction key) = pre"
    and "\<And>m. m < n \<Longrightarrow> c_iter_valid (rocksLib E) (nexts (rocksLib E) (Suc (Suc (calls w))) (scanStart E w s pre) m)"
    and "\<not> c_iter_valid (rocksLib E) (nexts (rocksLib E) (Suc (Suc (calls w))) (scanStart E w s pre) n)"
  shows "fst (Lookup E key w) = Ok (marshalMap (take n (filter (\<lambda>(k, _). HasPrefix k pre) (pairs (contents s)))))
    \<and> (n < length (filter (\<lambda>(k, _). HasPrefix k pre) (pairs (contents s))) \<longrightarrow>
         c_iter_get_error (rocksLib E) (nexts (rocksLib E) (Suc (Suc (calls w))) (scanStart E w s pre) n) \<noteq> None)"
proof -
  obtain r db dir where live: "live w = Some (r, db, dir, s)" using assms(2) by (rule liveState_E)
  note scan = rocks.Lookup_scan_until [OF assms(1) refl live assms(3-6)]
  from scan(1) show ?thesis using scan(2) by (metis fst_conv)
qed

text \<open>A library that keeps the promises, but whose iterators fail at every \<^verbatim>\<open>Next\<close>.\<close>

definition flakyRocks :: "(refDb, wbop list, refIter, refDb) rocksdb_c" where
  "flakyRocks = refRocks\<lparr>
     c_iter_next := (\<lambda>t (all, r). (all, [])),
     c_iter_get_error := (\<lambda>(all, r). if r = [] then Some ''IO error'' else None)\<rparr>"

interpretation flakyLib: rocks flakyRocks map_of "\<lambda>b. b" fst snd map_of
  by unfold_locales
    (auto simp: flakyRocks_def refRocks_def finite_dom_map_of map_of_applyList plainRead_def sortedPairs_pairs
      split: prod.splits list.splits option.splits)

theorem scan_hides_read_errors_witness:
  "let E = (exampleEnv (\<lambda>_. NoFault))\<lparr>rocksLib := flakyRocks\<rparr>; w = exampleWorld [(''ab'', ''1''), (''ac'', ''2'')] 0
   in fst (Lookup E (marshalAction \<lparr>Action_Action = ''SCAN'', Action_Key = ''a'', Action_Val = ''''\<rparr>) w) = Ok (marshalMap [(''ab'', ''1'')])
     \<and> c_iter_get_error flakyRocks (nexts flakyRocks (Suc (Suc (calls w))) (scanStart E w [(''ab'', ''1''), (''ac'', ''2'')] ''a'') 1) \<noteq> None"
proof -
  let ?E = "(exampleEnv (\<lambda>_. NoFault))\<lparr>rocksLib := flakyRocks\<rparr>" and ?s = "[(''ab'', ''1''), (''ac'', ''2'')]"
  let ?w = "exampleWorld ?s 0" and ?q = "marshalAction \<lparr>Action_Action = ''SCAN'', Action_Key = ''a'', Action_Val = ''''\<rparr>"
  have q: "Action_Action (queryAction ?q) = ''SCAN''" "Action_Key (queryAction ?q) = ''a''"
    by (simp_all add: queryAction_marshal cleanAction_def sanitize_ascii)
  have lib: "rocks (rocksLib ?E) map_of (\<lambda>b. b) fst snd map_of" by (simp add: flakyLib.rocks_axioms)
  have found: "filter (\<lambda>(k, _). HasPrefix k ''a'') (pairs (map_of ?s)) = ?s"
    unfolding sortedPairs_pairs [symmetric] by (simp add: sortedPairs_def HasPrefix_def)
  have start: "scanStart ?E ?w ?s ''a'' = (?s, ?s)"
    by (simp add: scanStart_def flakyRocks_def refRocks_def sortedPairs_def SetFillCache_def NewDefaultReadOptions_def onRead_def)
  have walk: "c_iter_valid flakyRocks (?s, ?s)" "nexts flakyRocks t (?s, ?s) 1 = (?s, [])" "\<not> c_iter_valid flakyRocks (?s, [])" for t
    by (simp_all add: flakyRocks_def refRocks_def)
  have "c_iter_valid (rocksLib ?E) (nexts (rocksLib ?E) t (scanStart ?E ?w ?s ''a'') m)" if "m < 1" for m t
    using that walk(1) by (simp add: start)
  moreover have "\<not> c_iter_valid (rocksLib ?E) (nexts (rocksLib ?E) t (scanStart ?E ?w ?s ''a'') 1)" for t
    using walk(2,3) by (simp add: start)
  ultimately show ?thesis
    using scan_hides_read_errors [OF lib liveState_exampleWorld [of ?s 0] q, of 1] unfolding Let_def found by simp
qed

end
