(* ===== verification/Commander_Snapshot.thy ===== *)
theory Commander_Snapshot
  imports Commander_Update
begin

text \<open>
  Snapshots: what \<^verbatim>\<open>SaveSnapshot\<close> writes as a function of the contents at the time of
  \<^verbatim>\<open>PrepareSnapshot\<close>, that loading inverts it, and the hash of a replica.
\<close>

section \<open>The format\<close>

definition encodePair :: "bytes \<times> bytes \<Rightarrow> bytes" where
  "encodePair = (\<lambda>(k, v). let data = marshalAction (emptyAction\<lparr>Action_Key := k, Action_Val := v\<rparr>)
     in PutUint64 (word_of_nat (length data)) @ data)"

definition encodeSnapshot :: "(bytes \<times> bytes) list \<Rightarrow> bytes" where
  "encodeSnapshot kvs = PutUint64 (word_of_nat (length kvs)) @ concat (map encodePair kvs)"

definition reliableWriter :: "Writer \<Rightarrow> bool" where
  "reliableWriter wr \<longleftrightarrow> wr_fails wr = (\<lambda>_. None)"

lemma writerWrite_reliable:
  "reliableWriter wr \<Longrightarrow> writerWrite wr d = (wr\<lparr>wr_data := wr_data wr @ d, wr_count := Suc (wr_count wr)\<rparr>, None)"
  by (simp add: writerWrite_def reliableWriter_def)

text \<open>How long a record can be: no character takes more than six bytes in JSON.\<close>

lemma length_runes: "length (runes s) \<le> length s"
  by (induction s rule: runes.induct) auto

lemma runeLen_le_4: "runeLen s \<le> 4"
  by (auto simp: runeLen_def split: list.splits)

lemma length_escRune:
  assumes "r \<in> set (runes s)" shows "length (escRune r) \<le> 6"
proof (cases r)
  case (Some w)
  with assms have "length w \<le> 4" using runes_are_runes [of w s] runeLen_le_4 [of w] by (auto simp: isRune_def)
  then show ?thesis
    by (auto simp: Some escRune_def escAscii_def uEscape_def split: list.splits)
qed (simp add: escRune_def uEscape_def)

lemma length_concat_le: "(\<And>x. x \<in> set xs \<Longrightarrow> length (f x) \<le> n) \<Longrightarrow> length (concat (map f xs)) \<le> n * length xs"
proof (induction xs)
  case (Cons x xs)
  have "length (f x) \<le> n" and "length (concat (map f xs)) \<le> n * length xs"
    using Cons.prems Cons.IH by auto
  then show ?case by simp
qed simp

lemma length_quoteString: "length (quoteString s) \<le> 6 * length s + 2"
proof -
  have "length (concat (map escRune (runes s))) \<le> 6 * length (runes s)"
    by (rule length_concat_le) (rule length_escRune)
  then show ?thesis using length_runes [of s] by (simp add: quoteString_def)
qed

lemma length_pairAction:
  "length (marshalAction (emptyAction\<lparr>Action_Key := k, Action_Val := v\<rparr>)) \<le> 6 * (length k + length v) + 200"
proof -
  have "length (quoteString ''Action'') \<le> 38" "length (quoteString ''Key'') \<le> 20" "length (quoteString ''Val'') \<le> 20"
    "length (quoteString '''') \<le> 2"
    using length_quoteString [of "''Action''"] length_quoteString [of "''Key''"] length_quoteString [of "''Val''"]
      length_quoteString [of "''''"] by simp_all
  then show ?thesis
    using length_quoteString [of k] length_quoteString [of v]
    by (simp add: marshalAction_def emptyAction_def printJson.simps)
qed

section \<open>Saving\<close>

context rocks
begin

lemma countLoop_step:
  "countLoop C \<lparr>Iterator_c = Some i\<rparr> t c =
     (if rest i = [] then Some (c, \<lparr>Iterator_c = Some i\<rparr>, t)
      else countLoop C \<lparr>Iterator_c = Some (c_iter_next C t i)\<rparr> (Suc t) (c + 1))"
  by (subst countLoop.simps) (simp add: iterNext_def onIter_def)

lemma countLoop_ends:
  "\<exists>c' i' t'. countLoop C \<lparr>Iterator_c = Some i\<rparr> t c = Some (c', \<lparr>Iterator_c = Some i'\<rparr>, t') \<and> items i' = items i"
proof (induction "length (rest i)" arbitrary: i t c rule: less_induct)
  case less
  show ?case
  proof (cases "rest i = []")
    case True
    then show ?thesis by (subst countLoop_step) simp
  next
    case False
    from less [OF next_rest_shorter [OF False], of t "Suc t" "c + 1"] False show ?thesis
      by (subst countLoop_step) (simp add: next_items)
  qed
qed

lemma writeLoop_step:
  "writeLoop C \<lparr>Iterator_c = Some i\<rparr> t wr =
     (case rest i of
        [] \<Rightarrow> Some (Inr (wr, None), t)
      | (k, v) # _ \<Rightarrow>
          let data = marshalAction (emptyAction\<lparr>Action_Key := k, Action_Val := v\<rparr>)
          in (case writerWrite wr (PutUint64 (word_of_nat (length data))) of
                (wr1, Some e) \<Rightarrow> Some (Inr (wr1, Some e), t)
              | (wr1, None) \<Rightarrow> (case writerWrite wr1 data of
                    (wr2, Some e) \<Rightarrow> Some (Inr (wr2, Some e), t)
                  | (wr2, None) \<Rightarrow> writeLoop C \<lparr>Iterator_c = Some (c_iter_next C t i)\<rparr> (Suc t) wr2)))"
proof (cases "rest i")
  case Nil
  then show ?thesis by (subst writeLoop.simps) simp
next
  case (Cons kv r)
  obtain k v where kv: "kv = (k, v)" by (cases kv)
  obtain sk sv where "iterKey C \<lparr>Iterator_c = Some i\<rparr> = Some sk" "sliceData sk = k"
      "iterValue C \<lparr>Iterator_c = Some i\<rparr> = Some sv" "sliceData sv = v"
    using iter_pair [OF Cons [unfolded kv]] by blast
  then show ?thesis
    by (subst writeLoop.simps) (simp add: Cons kv iterNext_def onIter_def)
qed

text \<open>Saving ends, whatever the iterator and the writer do.\<close>

lemma writeLoop_ends: "\<exists>wr' e t'. writeLoop C \<lparr>Iterator_c = Some i\<rparr> t wr = Some (Inr (wr', e), t')"
proof (induction "length (rest i)" arbitrary: i t wr rule: less_induct)
  case less
  show ?case
  proof (cases "rest i")
    case Nil
    then show ?thesis by (subst writeLoop_step) simp
  next
    case (Cons kv r)
    then have "rest i \<noteq> []" by simp
    from less [OF next_rest_shorter [OF this], of t "Suc t"] Cons show ?thesis
      by (subst writeLoop_step) (auto simp: Let_def split: prod.splits option.splits)
  qed
qed

lemma saveLoops_ends:
  "\<exists>wr' e t'. saveLoops C \<lparr>Iterator_c = Some i\<rparr> wr t = Some (Inr (wr', e), t')"
proof -
  obtain c' i' t1 where "countLoop C (iterSeekToFirst C t \<lparr>Iterator_c = Some i\<rparr>) (Suc t) 0
      = Some (c', \<lparr>Iterator_c = Some i'\<rparr>, t1)"
    using countLoop_ends [of "c_iter_seek_to_first C t i" "Suc t" 0] by (auto simp: iterSeekToFirst_def onIter_def)
  moreover have "\<exists>wr' e t'. writeLoop C (iterSeekToFirst C t1 \<lparr>Iterator_c = Some i'\<rparr>) (Suc t1) wr1 = Some (Inr (wr', e), t')" for wr1
    using writeLoop_ends [of "c_iter_seek_to_first C t1 i'"] by (simp add: iterSeekToFirst_def onIter_def)
  ultimately show ?thesis
    by (auto simp: saveLoops_def split: prod.splits option.splits)
qed

lemma saveToWriter_run:
  assumes E: "rocksLib E = C" and at: "liveAt w p = Some (r, db, dir, s)"
  shows "\<exists>i. items i = pairs (snapped n) \<and>
    saveToWriter E p \<lparr>Snapshot_c = Some n\<rparr> wr w =
      runLoop (saveLoops C \<lparr>Iterator_c = Some i\<rparr> wr) (w\<lparr>calls := Suc (calls w)\<rparr>)"
proof -
  let ?ro = "SetSnapshot NewDefaultReadOptions \<lparr>Snapshot_c = Some n\<rparr> :: 'n ReadOptions"
  have "plainRead (ReadOptions_c ?ro) (Some n)"
    by (simp add: plainRead_def NewDefaultReadOptions_def SetSnapshot_def onRead_def)
  from iterator_items_snapshot [OF this, of "calls w" s] show ?thesis
    by (intro exI conjI, assumption)
      (simp add: saveToWriter_def Let_def derefDb_live [OF at] dbNewIterator_def andThen_apply onDb_live [OF at] E)
qed

end

context rocks_reliable
begin

lemma countLoop_counts:
  "\<exists>i' t'. countLoop C \<lparr>Iterator_c = Some i\<rparr> t c =
      Some (c + word_of_nat (length (rest i)), \<lparr>Iterator_c = Some i'\<rparr>, t') \<and> items i' = items i"
proof (induction "rest i" arbitrary: i t c)
  case Nil
  then show ?case by (subst countLoop_step) simp
next
  case (Cons kv r)
  have tail: "r = rest (c_iter_next C t i)" using next_tail [OF Cons(2) [symmetric]] by simp
  from Cons(1) [OF tail, of "Suc t" "c + 1"] Cons(2) tail show ?case
    by (subst countLoop_step) (auto simp: next_items Cons(2) [symmetric] add.assoc)
qed

lemma writeLoop_writes:
  assumes "reliableWriter wr"
  shows "\<exists>wr' t'. writeLoop C \<lparr>Iterator_c = Some i\<rparr> t wr = Some (Inr (wr', None), t')
    \<and> wr_data wr' = wr_data wr @ concat (map encodePair (rest i))"
  using assms
proof (induction "rest i" arbitrary: i t wr)
  case Nil
  then show ?case by (subst writeLoop_step) simp
next
  case (Cons kv r)
  obtain k v where kv: "kv = (k, v)" by (cases kv)
  have rest: "rest i = (k, v) # r" using Cons(2) kv by simp
  let ?d = "marshalAction (emptyAction\<lparr>Action_Key := k, Action_Val := v\<rparr>)"
  let ?wr1 = "wr\<lparr>wr_data := wr_data wr @ PutUint64 (word_of_nat (length ?d)), wr_count := Suc (wr_count wr)\<rparr>"
  let ?wr2 = "?wr1\<lparr>wr_data := wr_data ?wr1 @ ?d, wr_count := Suc (wr_count ?wr1)\<rparr>"
  have rel: "reliableWriter ?wr1" "reliableWriter ?wr2" using Cons.prems by (simp_all add: reliableWriter_def)
  have tail: "r = rest (c_iter_next C t i)" using next_tail [OF rest] by simp
  have "writeLoop C \<lparr>Iterator_c = Some i\<rparr> t wr = writeLoop C \<lparr>Iterator_c = Some (c_iter_next C t i)\<rparr> (Suc t) ?wr2"
    using Cons.prems rel by (subst writeLoop_step) (simp add: rest writerWrite_reliable Let_def)
  with Cons(1) [OF tail rel(2), of "Suc t"] tail show ?case
    by (auto simp: rest encodePair_def Let_def)
qed

lemma saveLoops_writes:
  assumes "reliableWriter wr"
  shows "\<exists>wr' t'. saveLoops C \<lparr>Iterator_c = Some i\<rparr> wr t = Some (Inr (wr', None), t')
    \<and> wr_data wr' = wr_data wr @ encodeSnapshot (items i)"
proof -
  obtain i' t1 where cnt: "countLoop C (iterSeekToFirst C t \<lparr>Iterator_c = Some i\<rparr>) (Suc t) 0
      = Some (word_of_nat (length (items i)), \<lparr>Iterator_c = Some i'\<rparr>, t1)" and i': "items i' = items i"
    using countLoop_counts [of "c_iter_seek_to_first C t i" "Suc t" 0]
    by (auto simp: iterSeekToFirst_def onIter_def first_all first_items)
  let ?wr1 = "wr\<lparr>wr_data := wr_data wr @ PutUint64 (word_of_nat (length (items i))), wr_count := Suc (wr_count wr)\<rparr>"
  have "reliableWriter ?wr1" using assms by (simp add: reliableWriter_def)
  from writeLoop_writes [OF this, of "c_iter_seek_to_first C t1 i'" "Suc t1"] cnt i' assms show ?thesis
    by (auto simp: saveLoops_def writerWrite_reliable iterSeekToFirst_def onIter_def first_all encodeSnapshot_def)
qed

end

section \<open>Loading\<close>

text \<open>The pairs that a stream holds, read as \<^verbatim>\<open>RecoverFromSnapshot\<close> reads it.\<close>

fun decodePairs :: "nat \<Rightarrow> Reader \<Rightarrow> (bytes \<times> bytes) list loaded" where
  "decodePairs 0 r = Loaded []"
| "decodePairs (Suc n) r =
     (case ReadFull r 8 of
        Inl e \<Rightarrow> LoadErr e
      | Inr (sz, r1) \<Rightarrow>
          let toRead = unat (Uint64 sz)
          in if toRead > maxAlloc then LoadPanic ''makeslice: len out of range''
             else (case ReadFull r1 toRead of
                     Inl e \<Rightarrow> LoadErr e
                   | Inr (data, r2) \<Rightarrow>
                       (case unmarshalAction data emptyAction of
                          (action, Some _) \<Rightarrow> LoadPanic ''json''
                        | (action, None) \<Rightarrow>
                            (case decodePairs n r2 of
                               Loaded kvs \<Rightarrow> Loaded ((Action_Key action, Action_Val action) # kvs)
                             | other \<Rightarrow> other))))"

definition decodeSnapshot :: "Reader \<Rightarrow> (bytes \<times> bytes) list loaded" where
  "decodeSnapshot r =
     (case ReadFull r 8 of
        Inl e \<Rightarrow> LoadErr e
      | Inr (sz, r1) \<Rightarrow> decodePairs (unat (Uint64 sz)) r1)"

lemma ReadFull_append:
  "length d = n \<Longrightarrow> ReadFull \<lparr>rd_data = d @ ds, rd_end = e\<rparr> n = Inr (d, \<lparr>rd_data = ds, rd_end = e\<rparr>)"
  by (simp add: ReadFull_def)

text \<open>Pairs that can be saved: no pair is longer than a terabyte, and their number fits in 64 bits.\<close>

definition savable :: "(bytes \<times> bytes) list \<Rightarrow> bool" where
  "savable kvs \<longleftrightarrow> length kvs < 2 ^ 64 \<and> (\<forall>(k, v) \<in> set kvs. length k + length v \<le> 2 ^ 40)"

lemma savable_record:
  "length k + length v \<le> 2 ^ 40 \<Longrightarrow>
     length (marshalAction (emptyAction\<lparr>Action_Key := k, Action_Val := v\<rparr>)) \<le> maxAlloc"
  using length_pairAction [where k = k and v = v] by (simp add: maxAlloc_def)

definition validPairs :: "(bytes \<times> bytes) list \<Rightarrow> bool" where
  "validPairs kvs \<longleftrightarrow> (\<forall>(k, v) \<in> set kvs. validUtf8 k \<and> validUtf8 v)"

lemma unmarshal_pair:
  assumes "validUtf8 k" and "validUtf8 v"
  shows "unmarshalAction (marshalAction (emptyAction\<lparr>Action_Key := k, Action_Val := v\<rparr>)) emptyAction
     = (emptyAction\<lparr>Action_Key := k, Action_Val := v\<rparr>, None)"
  using assms by (simp add: unmarshalAction_marshal cleanAction_def emptyAction_def)

lemma decodePairs_encode:
  assumes "validPairs kvs" and "\<forall>(k, v) \<in> set kvs. length k + length v \<le> 2 ^ 40"
  shows "decodePairs (length kvs) \<lparr>rd_data = concat (map encodePair kvs) @ junk, rd_end = e\<rparr> = Loaded kvs"
  using assms
proof (induction kvs)
  case (Cons kv kvs)
  obtain k v where kv: "kv = (k, v)" by (cases kv)
  let ?d = "marshalAction (emptyAction\<lparr>Action_Key := k, Action_Val := v\<rparr>)"
  have valid: "validUtf8 k" "validUtf8 v" and len: "length ?d \<le> maxAlloc"
    using Cons.prems savable_record [of k v] by (auto simp: kv validPairs_def)
  then have "length ?d < 2 ^ 64" by (simp add: maxAlloc_def)
  then have un: "unat (word_of_nat (length ?d) :: uint64) = length ?d" by (rule unat_word_of_nat64)
  have "decodePairs (length kvs) \<lparr>rd_data = concat (map encodePair kvs) @ junk, rd_end = e\<rparr> = Loaded kvs"
    using Cons by (simp add: validPairs_def)
  then show ?case
    using un len by (simp add: kv encodePair_def Let_def ReadFull_append unmarshal_pair [OF valid])
qed simp

lemma decodeSnapshot_encode:
  assumes "validPairs kvs" and "savable kvs"
  shows "decodeSnapshot \<lparr>rd_data = encodeSnapshot kvs @ junk, rd_end = e\<rparr> = Loaded kvs"
  using assms decodePairs_encode [OF assms(1)]
  by (simp add: decodeSnapshot_def encodeSnapshot_def ReadFull_append unat_word_of_nat64 savable_def)

lemma decodePairs_Suc:
  assumes "decodePairs (Suc n) r = Loaded kvs"
  obtains data r2 kvs' where "decodePairs n r2 = Loaded kvs'"
    and "kvs = (Action_Key (fst (unmarshalAction data emptyAction)), Action_Val (fst (unmarshalAction data emptyAction))) # kvs'"
proof (cases "ReadFull r 8")
  case (Inr szr)
  obtain sz r1 where szr: "szr = (sz, r1)" by (cases szr)
  show thesis
  proof (cases "ReadFull r1 (unat (Uint64 sz))")
    case (Inr dr)
    obtain data r2 where dr: "dr = (data, r2)" by (cases dr)
    show thesis
    proof (cases "decodePairs n r2")
      case (Loaded kvs')
      show thesis
        by (rule that [OF Loaded, of data])
          (use assms \<open>ReadFull r 8 = Inr szr\<close> Inr Loaded in
            \<open>simp add: szr dr Let_def split: if_splits prod.splits option.splits\<close>)
    qed (use assms \<open>ReadFull r 8 = Inr szr\<close> Inr in
        \<open>simp_all add: szr dr Let_def split: if_splits prod.splits option.splits\<close>)
  qed (use assms Inr in \<open>simp add: szr Let_def split: if_splits\<close>)
qed (use assms in simp)

lemma decodePairs_valid: "decodePairs n r = Loaded kvs \<Longrightarrow> validPairs kvs"
proof (induction n arbitrary: r kvs)
  case (Suc n)
  from Suc.prems obtain data r2 kvs' where "decodePairs n r2 = Loaded kvs'"
    and kvs: "kvs = (Action_Key (fst (unmarshalAction data emptyAction)), Action_Val (fst (unmarshalAction data emptyAction))) # kvs'"
    by (rule decodePairs_Suc)
  then have "validPairs kvs'" using Suc.IH by blast
  then show ?case
    using unmarshalAction_valid [of data] by (simp add: kvs validPairs_def validAction_def)
qed (simp add: validPairs_def)

lemma decodeSnapshot_valid: "decodeSnapshot r = Loaded kvs \<Longrightarrow> validPairs kvs"
  by (auto simp: decodeSnapshot_def split: sum.splits prod.splits dest: decodePairs_valid)

context rocks
begin

lemma loadLoop_decode:
  assumes "WriteBatch_c wb = Some b"
  shows "case decodePairs n r of
      Loaded kvs \<Rightarrow> \<exists>wb' b'. loadLoop C n r wb = Loaded wb' \<and> WriteBatch_c wb' = Some b'
        \<and> ops b' = ops b @ map (\<lambda>(k, v). WPut k v) kvs
    | LoadErr e \<Rightarrow> loadLoop C n r wb = LoadErr e
    | LoadPanic p \<Rightarrow> loadLoop C n r wb = LoadPanic p"
  using assms
proof (induction n arbitrary: r wb b)
  case (Suc n)
  show ?case
  proof (cases "ReadFull r 8")
    case (Inr szr)
    obtain sz r1 where szr: "szr = (sz, r1)" by (cases szr)
    show ?thesis
    proof (cases "unat (Uint64 sz) > maxAlloc \<or> (\<exists>e. ReadFull r1 (unat (Uint64 sz)) = Inl e)")
      case True
      then show ?thesis by (auto simp: Inr szr Let_def)
    next
      case False
      then obtain data r2 where rd: "ReadFull r1 (unat (Uint64 sz)) = Inr (data, r2)"
          and small: "\<not> unat (Uint64 sz) > maxAlloc"
        by (cases "ReadFull r1 (unat (Uint64 sz))") auto
      obtain a eo where um: "unmarshalAction data emptyAction = (a, eo)"
        by (cases "unmarshalAction data emptyAction")
      show ?thesis
      proof (cases eo)
        case None
        let ?wb = "batchPut C wb (Action_Key a) (Action_Val a)"
        have b: "WriteBatch_c ?wb = Some (c_writebatch_put C b (Action_Key a) (Action_Val a))"
          using Suc.prems by (simp add: batchPut_def onBatch_def)
        from Suc.IH [OF b, of r2] show ?thesis
          using small rd um None by (auto simp: Inr szr Let_def batch_put split: loaded.splits)
      qed (use False rd um small in \<open>simp add: Inr szr Let_def\<close>)
    qed
  qed simp
qed simp

end

section \<open>The operations\<close>

context rocks
begin

lemma loadBatch_decode:
  "case decodeSnapshot r of
      Loaded kvs \<Rightarrow> \<exists>wb b. loadBatch C r w = (Ok wb, w) \<and> WriteBatch_c wb = Some b
        \<and> ops b = map (\<lambda>(k, v). WPut k v) kvs
    | LoadErr e \<Rightarrow> loadBatch C r w = (Err e, w)
    | LoadPanic p \<Rightarrow> loadBatch C r w = (Panic p, w)"
proof (cases "ReadFull r 8")
  case (Inr szr)
  obtain sz r1 where szr: "szr = (sz, r1)" by (cases szr)
  have "WriteBatch_c (NewWriteBatch C) = Some (c_writebatch_create C)" by (simp add: NewWriteBatch_def)
  from loadLoop_decode [OF this, of "unat (Uint64 sz)" r1] show ?thesis
    by (auto simp: loadBatch_def decodeSnapshot_def Inr szr batch_create ret_apply err_apply gopanic_apply
        split: loaded.splits)
qed (simp add: loadBatch_def decodeSnapshot_def err_apply)

lemma PrepareSnapshot_live:
  assumes E: "rocksLib E = C" and acc: "accepting w" and live: "live w = Some (r, db, dir, s)"
  shows "\<exists>p n. cmd_db (commander w) = Some p \<and> snapped n = contents s
    \<and> PrepareSnapshot E w = (Ok \<lparr>ctx_db = Some p, ctx_snapshot = \<lparr>Snapshot_c = Some n\<rparr>\<rparr>, w)"
proof -
  obtain p where p: "cmd_db (commander w) = Some p" and at: "liveAt w p = Some (r, db, dir, s)"
    using live by (rule live_SomeE)
  show ?thesis
    by (intro exI [of _ p] exI [of _ "c_create_snapshot C s"])
      (use p acc in \<open>simp add: PrepareSnapshot_def getCommander_def loadDb_def noPtr_def andThen_apply accepting_def
        derefDb_live [OF at] dbNewSnapshot_def onDb_live [OF at] NewNativeSnapshot_def ret_apply E snapshot_contents\<close>)
qed

lemma SaveSnapshot_live:
  assumes acc: "accepting w"
  shows "SaveSnapshot E \<lparr>ctx_db = Some p, ctx_snapshot = ss\<rparr> wr w = saveToWriter E p ss wr w"
  using acc by (simp add: SaveSnapshot_def getCommander_def noPtr_def andThen_apply accepting_def)

lemma saveToWriter_ends:
  assumes E: "rocksLib E = C" and at: "liveAt w p = Some (r, db, dir, s)"
  shows "\<exists>wr' e n'. saveToWriter E p \<lparr>Snapshot_c = Some n\<rparr> wr w = (Ok (wr', e), w\<lparr>calls := n'\<rparr>)"
proof -
  obtain i where run: "saveToWriter E p \<lparr>Snapshot_c = Some n\<rparr> wr w =
      runLoop (saveLoops C \<lparr>Iterator_c = Some i\<rparr> wr) (w\<lparr>calls := Suc (calls w)\<rparr>)"
    using saveToWriter_run [OF E at] by blast
  show ?thesis
    using saveLoops_ends [of i wr "Suc (calls w)"] by (auto simp: run runLoop_def)
qed

end

context rocks_reliable
begin

lemma saveToWriter_exact:
  assumes E: "rocksLib E = C" and at: "liveAt w p = Some (r, db, dir, s)" and "reliableWriter wr"
  shows "\<exists>wr' n'. saveToWriter E p \<lparr>Snapshot_c = Some n\<rparr> wr w = (Ok (wr', None), w\<lparr>calls := n'\<rparr>)
    \<and> wr_data wr' = wr_data wr @ encodeSnapshot (pairs (snapped n))"
proof -
  obtain i where i: "items i = pairs (snapped n)" and run: "saveToWriter E p \<lparr>Snapshot_c = Some n\<rparr> wr w =
      runLoop (saveLoops C \<lparr>Iterator_c = Some i\<rparr> wr) (w\<lparr>calls := Suc (calls w)\<rparr>)"
    using saveToWriter_run [OF E at] by blast
  show ?thesis
    using saveLoops_writes [OF assms(3), of i "Suc (calls w)"] i by (auto simp: run runLoop_def)
qed

lemma GetHash_live:
  assumes E: "rocksLib E = C" and live: "live w = Some (r, db, dir, s)"
  shows "\<exists>n. GetHash E w = (Ok (Uint64 (take 8 (md5 (encodeSnapshot (pairs (contents s)))))), w\<lparr>calls := n\<rparr>)"
proof -
  obtain p where p: "cmd_db (commander w) = Some p" and at: "liveAt w p = Some (r, db, dir, s)"
    using live by (rule live_SomeE)
  have "reliableWriter hashWriter" by (simp add: reliableWriter_def hashWriter_def)
  from saveToWriter_exact [OF E at this, of "c_create_snapshot C s"] show ?thesis
    by (auto simp: GetHash_def loadDb_def noPtr_def p andThen_apply derefDb_live [OF at] dbNewSnapshot_def
        onDb_live [OF at] ret_apply NewNativeSnapshot_def E snapshot_contents hashWriter_def)
qed

end

lemma validPairs_pairs: "finite (dom m) \<Longrightarrow> validContents m \<Longrightarrow> validPairs (pairs m)"
  using set_pairs by (fastforce simp: validPairs_def validContents_def)

section \<open>Properties\<close>

text \<open>
  C16. A snapshot is a point in time and reads back. \<^verbatim>\<open>PrepareSnapshot\<close> on an open replica
  returns; \<^verbatim>\<open>SaveSnapshot\<close> with what it returned, at any later moment while the database is
  open and whatever was written to it in between, writes a stream from which recovery reads
  exactly the pairs of the contents at the time of \<^verbatim>\<open>PrepareSnapshot\<close>; this holds for a
  library whose iterators do not fail, a writer that does not fail, and contents in UTF-8.
\<close>

theorem snapshot_roundtrip:
  fixes E :: "('s, 'b, 'i, 'n) env"
  assumes "rocks_reliable (rocksLib E) contents ops items rest snapped"
    and "accepting w" and "liveState w = Some s" and "validContents (contents s)" and "savable (pairs (contents s))"
  shows "\<exists>ctx. PrepareSnapshot E w = (Ok ctx, w) \<and> ctx_db ctx = cmd_db (commander w) \<and>
    (\<forall>w2 p r db dir s2 wr. accepting w2 \<and> cmd_db (commander w) = Some p \<and> liveAt w2 p = Some (r, db, dir, s2)
        \<and> reliableWriter wr \<and> wr_data wr = [] \<longrightarrow>
      (\<exists>wr' n. SaveSnapshot E ctx wr w2 = (Ok (wr', None), w2\<lparr>calls := n\<rparr>)
        \<and> decodeSnapshot \<lparr>rd_data = wr_data wr', rd_end = EOF\<rparr> = Loaded (pairs (contents s))))"
proof -
  note r = rocks_reliable.axioms(1) [OF assms(1)]
  obtain rr db dir where live: "live w = Some (rr, db, dir, s)" using assms(3) by (rule liveState_E)
  obtain p n where p: "cmd_db (commander w) = Some p" and n: "snapped n = contents s"
    and prep: "PrepareSnapshot E w = (Ok \<lparr>ctx_db = Some p, ctx_snapshot = \<lparr>Snapshot_c = Some n\<rparr>\<rparr>, w)"
    using rocks.PrepareSnapshot_live [OF r refl assms(2) live] by blast
  have dec: "decodeSnapshot \<lparr>rd_data = encodeSnapshot (pairs (contents s)), rd_end = EOF\<rparr> = Loaded (pairs (contents s))"
    using decodeSnapshot_encode [OF validPairs_pairs [OF rocks.finite_contents [OF r] assms(4)] assms(5), of "[]"]
    by simp
  show ?thesis
  proof (rule exI [of _ "\<lparr>ctx_db = Some p, ctx_snapshot = \<lparr>Snapshot_c = Some n\<rparr>\<rparr>"], intro conjI allI impI)
    show "PrepareSnapshot E w = (Ok \<lparr>ctx_db = Some p, ctx_snapshot = \<lparr>Snapshot_c = Some n\<rparr>\<rparr>, w)"
      by (rule prep)
  next
    fix w2 :: "('s, 'n) world" and p' r' db' dir' s2 wr
    assume h: "accepting w2 \<and> cmd_db (commander w) = Some p' \<and> liveAt w2 p' = Some (r', db', dir', s2)
        \<and> reliableWriter wr \<and> wr_data wr = []"
    then have at: "liveAt w2 p = Some (r', db', dir', s2)" and rel: "reliableWriter wr" using p by auto
    from rocks_reliable.saveToWriter_exact [OF assms(1) refl at rel, of n] h
    show "\<exists>wr' n'. SaveSnapshot E \<lparr>ctx_db = Some p, ctx_snapshot = \<lparr>Snapshot_c = Some n\<rparr>\<rparr> wr w2
        = (Ok (wr', None), w2\<lparr>calls := n'\<rparr>)
      \<and> decodeSnapshot \<lparr>rd_data = wr_data wr', rd_end = EOF\<rparr> = Loaded (pairs (contents s))"
      using dec n by (auto simp: rocks.SaveSnapshot_live [OF r])
  qed (simp add: p)
qed

lemma pairs_single: "pairs (map_of [(k, v)]) = [(k, v)]"
  by (simp add: pairs_def)

theorem snapshot_roundtrip_witness:
  "\<exists>ctx wr' n. PrepareSnapshot (exampleEnv (\<lambda>_. NoFault)) (exampleWorld [(''k'', ''v'')] 0)
       = (Ok ctx, exampleWorld [(''k'', ''v'')] 0)
     \<and> SaveSnapshot (exampleEnv (\<lambda>_. NoFault)) ctx hashWriter (exampleWorld [(''x'', ''y'')] 0)
       = (Ok (wr', None), (exampleWorld [(''x'', ''y'')] 0)\<lparr>calls := n\<rparr>)
     \<and> decodeSnapshot \<lparr>rd_data = wr_data wr', rd_end = EOF\<rparr> = Loaded [(''k'', ''v'')]"
proof -

  have s: "validContents (map_of [(''k'', ''v'')])" "savable (pairs (map_of [(''k'', ''v'')]))"
    unfolding pairs_single by (simp_all add: validContents_def savable_def)
  obtain r db where live: "live (exampleWorld [(''x'', ''y'')] 0) = Some (r, db, exampleDir @ ''/'' @ ''1_1'', [(''x'', ''y'')])"
    using live_exampleWorld by blast
  obtain p where p: "cmd_db (commander (exampleWorld [(''x'', ''y'')] 0)) = Some p"
    and at: "liveAt (exampleWorld [(''x'', ''y'')] 0) p = Some (r, db, exampleDir @ ''/'' @ ''1_1'', [(''x'', ''y'')])"
    using live by (rule live_SomeE)
  have p': "cmd_db (commander (exampleWorld [(''k'', ''v'')] 0)) = Some p" using p by (simp add: exampleWorld_def)
  have rel: "reliableWriter hashWriter" "wr_data hashWriter = []" by (simp_all add: reliableWriter_def hashWriter_def)
  have lib: "rocks_reliable (rocksLib (exampleEnv (\<lambda>_. NoFault))) map_of (\<lambda>b. b) fst snd map_of"
    by (simp add: refLib.rocks_reliable_axioms)
  from snapshot_roundtrip [OF lib accepting_exampleWorld(1) liveState_exampleWorld s] p' at rel show ?thesis
    unfolding pairs_single by (meson accepting_exampleWorld(1))
qed

text \<open>
  C31. Saving ends, whatever the iterators of the library and the writer do: \<^verbatim>\<open>SaveSnapshot\<close> of
  a snapshot of an open database returns, possibly with the error of the writer, and changes
  nothing.
\<close>

theorem save_terminates:
  assumes "rocks (rocksLib E) contents ops items rest snapped"
    and "accepting w" and "liveAt w p = Some (r, db, dir, s)"
  shows "\<exists>wr' e n'. SaveSnapshot E \<lparr>ctx_db = Some p, ctx_snapshot = \<lparr>Snapshot_c = Some n\<rparr>\<rparr> wr w
    = (Ok (wr', e), w\<lparr>calls := n'\<rparr>)"
  using rocks.saveToWriter_ends [OF assms(1) refl assms(3)]
  by (simp add: rocks.SaveSnapshot_live [OF assms(1,2)])

theorem save_terminates_witness:
  "\<exists>wr' e n'. SaveSnapshot (exampleEnv (\<lambda>_. NoFault)) \<lparr>ctx_db = Some 0, ctx_snapshot = \<lparr>Snapshot_c = Some []\<rparr>\<rparr>
     \<lparr>wr_data = [], wr_count = 0, wr_fails = (\<lambda>n. if n = 1 then Some EOF else None)\<rparr> (exampleWorld [(''x'', ''y'')] 0)
    = (Ok (wr', e), (exampleWorld [(''x'', ''y'')] 0)\<lparr>calls := n'\<rparr>)"
proof -
  obtain r db where live: "live (exampleWorld [(''x'', ''y'')] 0) = Some (r, db, exampleDir @ ''/'' @ ''1_1'', [(''x'', ''y'')])"
    using live_exampleWorld by blast
  then have at: "liveAt (exampleWorld [(''x'', ''y'')] 0) 0 = Some (r, db, exampleDir @ ''/'' @ ''1_1'', [(''x'', ''y'')])"
    by (simp add: live_def exampleWorld_def NewCommander_def)
  have lib: "rocks (rocksLib (exampleEnv (\<lambda>_. NoFault))) map_of (\<lambda>b. b) fst snd map_of" by (simp add: refRocks_laws)
  show ?thesis by (rule save_terminates [OF lib accepting_exampleWorld(1) at])
qed

text \<open>
  Replicas agree. Two replicas with the same contents that apply the same entries have the
  same contents and the same hash afterwards, each over its own library and environment; the
  hash is a function of the contents.
\<close>

theorem replicas_agree:
  fixes E1 :: "('s1, 'b1, 'i1, 'n1) env" and E2 :: "('s2, 'b2, 'i2, 'n2) env"
  assumes "rocks_reliable (rocksLib E1) contents1 ops1 items1 rest1 snapped1"
    and "rocks_reliable (rocksLib E2) contents2 ops2 items2 rest2 snapped2"
    and "accepting w1" and "liveState w1 = Some s1" and "accepting w2" and "liveState w2 = Some s2"
    and "contents1 s1 = contents2 s2" and "list_all validEntry ents" and "ents \<noteq> []"
    and "Update E1 ents w1 = (Ok es1, w1')" and "Update E2 ents w2 = (Ok es2, w2')"
  shows "es1 = es2 \<and> lastApplied (commander w1') = lastApplied (commander w2')
    \<and> (\<exists>h. fst (GetHash E1 w1') = Ok h \<and> fst (GetHash E2 w2') = Ok h)"
proof -
  note r1 = rocks_reliable.axioms(1) [OF assms(1)] and r2 = rocks_reliable.axioms(1) [OF assms(2)]
  obtain ra da fa where live1: "live w1 = Some (ra, da, fa, s1)" using assms(4) by (rule liveState_E)
  obtain rb db fb where live2: "live w2 = Some (rb, db, fb, s2)" using assms(6) by (rule liveState_E)
  obtain s1' where 1: "live w1' = Some (ra, da, fa, s1')" "contents1 s1' = applyEntries ents (contents1 s1)"
      "es1 = map withResult ents" "lastApplied (commander w1') = Entry_Index (last ents)"
    using rocks.Update_effect [OF r1 refl assms(3) live1 assms(8,9,10)] by auto
  obtain s2' where 2: "live w2' = Some (rb, db, fb, s2')" "contents2 s2' = applyEntries ents (contents2 s2)"
      "es2 = map withResult ents" "lastApplied (commander w2') = Entry_Index (last ents)"
    using rocks.Update_effect [OF r2 refl assms(5) live2 assms(8,9,11)] by auto
  have "contents1 s1' = contents2 s2'" using 1(2) 2(2) assms(7) by simp
  then show ?thesis
    using rocks_reliable.GetHash_live [OF assms(1) refl 1(1)] rocks_reliable.GetHash_live [OF assms(2) refl 2(1)]
      1 2 by auto
qed

theorem replicas_agree_witness:
  "\<exists>w1 w2 h. fst (GetHash (exampleEnv (\<lambda>_. NoFault)) w1) = Ok h \<and> fst (GetHash (exampleEnv (\<lambda>_. NoFault)) w2) = Ok h
     \<and> liveState w1 \<noteq> None \<and> liveState w2 \<noteq> None"
proof -
  let ?E = "exampleEnv (\<lambda>_. NoFault)" and ?e = "exampleEntry 4 ''k'' ''v''"
  have lib: "rocks_reliable (rocksLib ?E) map_of (\<lambda>b. b) fst snd map_of"
    by (simp add: refLib.rocks_reliable_axioms)
  have run: "\<exists>w'. Update ?E [?e] (exampleWorld s i) = (Ok (map withResult [?e]), w') \<and> liveState w' \<noteq> None"
    if "i < 4" for s i
  proof -
    obtain r db where live: "live (exampleWorld s i) = Some (r, db, exampleDir @ ''/'' @ ''1_1'', s)"
      using live_exampleWorld by blast
    obtain x w' where run: "Update ?E [?e] (exampleWorld s i) = (x, w')" by (cases "Update ?E [?e] (exampleWorld s i)")
    have "liveState w' \<noteq> None"
      using rocks.Update_effect [OF refRocks_laws _ _ live _ _ run] by (auto simp: liveState_def)
    moreover have "x = Ok (map withResult [?e])"
      using rocks.Update_run [OF refRocks_laws, of ?E "exampleWorld s i" r db _ s "[?e]"] live run that
      by (auto simp: libCall_def refRocks_def exampleEnv_def not_le [symmetric] split: if_splits)
    ultimately show ?thesis using run by blast
  qed
  obtain w1 where w1: "Update ?E [?e] (exampleWorld [] 1) = (Ok (map withResult [?e]), w1)" "liveState w1 \<noteq> None"
    using run [of 1 "[]"] by auto
  obtain w2 where w2: "Update ?E [?e] (exampleWorld [] 2) = (Ok (map withResult [?e]), w2)" "liveState w2 \<noteq> None"
    using run [of 2 "[]"] by auto
  have "\<exists>h. fst (GetHash ?E w1) = Ok h \<and> fst (GetHash ?E w2) = Ok h"
    using replicas_agree [OF lib lib accepting_exampleWorld(1) liveState_exampleWorld accepting_exampleWorld(1)
        liveState_exampleWorld refl _ _ w1(1) w2(1)] by simp
  then show ?thesis using w1 w2 by blast
qed

end
