(* ===== verification/Commander_Recovery.thy ===== *)
theory Commander_Recovery
  imports Commander_Snapshot
begin

text \<open>
  Recovery: a replica that installs a snapshot has afterwards its old database or the complete
  new one, whatever call fails and wherever the process dies; a replica that opens its data
  directory finds the contents and the index that it had.
\<close>

section \<open>What the file system calls leave alone\<close>

text \<open>They change the tree and the number of calls, and nothing else of the world.\<close>

lemma stable_more [keeps_intros, simp]: "stable (\<lambda>w. disk.more w = z)"
  by auto

lemma keeps_change_more: "keeps (\<lambda>w. disk.more w = z) (change E pre eff)"
  by (rule keeps_change) auto

lemma keeps_more [keeps_intros]:
  "keeps (\<lambda>w. disk.more w = z) (Mkdir E d)" "keeps (\<lambda>w. disk.more w = z) (Create E d)"
  "keeps (\<lambda>w. disk.more w = z) (fileWrite E d x)" "keeps (\<lambda>w. disk.more w = z) (Rename E d d')"
  "keeps (\<lambda>w. disk.more w = z) (RemoveAll E d)"
  by (simp_all add: Mkdir_def Create_def fileWrite_def Rename_def RemoveAll_def keeps_change_more)

lemma keeps_more_mkdirs [keeps_intros]: "keeps (\<lambda>w. disk.more w = z) (mkdirs E ds)"
  by (induction ds) (auto intro!: keeps_intros)

lemma keeps_more_cleanupLoop [keeps_intros]:
  "keeps (\<lambda>w. disk.more w = z) (cleanupLoop E dir dbdir files)"
proof (induction files)
  case (Cons f files)
  then show ?case by (cases f) (auto simp: Let_def intro!: keeps_intros)
qed (simp add: keeps_ret)

lemma keeps_more_dataDir [keeps_intros]:
  "keeps (\<lambda>w. disk.more w = z) (createNodeDataDir E dir)"
  "keeps (\<lambda>w. disk.more w = z) (isNewRun E dir)"
  "keeps (\<lambda>w. disk.more w = z) (getNewRandomDBDirName E dir)"
  "keeps (\<lambda>w. disk.more w = z) (replaceCurrentDBFile E dir)"
  "keeps (\<lambda>w. disk.more w = z) (saveCurrentDBDirName E dir dbdir)"
  "keeps (\<lambda>w. disk.more w = z) (cleanupNodeDataDir E dir)"
  unfolding createNodeDataDir_def MkdirAll_def isNewRun_def getNewRandomDBDirName_def
    replaceCurrentDBFile_def saveCurrentDBDirName_def cleanupNodeDataDir_def Let_def
  by (intro keeps_intros; simp)+

text \<open>The rest of the world, in one value.\<close>

definition memory :: "('s, 'n) world \<Rightarrow> (nat \<Rightarrow> string option) \<times> nat \<times> (nat \<Rightarrow> 'n rocksdb option) \<times> nat \<times> Commander" where
  "memory w = (openDbs w, nextDb w, rheap w, nextPtr w, commander w)"

lemma more_memory: "disk.more w' = disk.more w \<Longrightarrow> memory w' = memory w"
  by (cases w; cases w') (simp add: memory_def)

lemma keeps_memory:
  assumes "\<And>z. keeps (\<lambda>w. disk.more w = z) m" and "m w = (r, w')"
  shows "memory w' = memory w"
  using keepsD [OF assms(1), of w "disk.more w"] assms(2) by (auto intro: more_memory)

section \<open>Running a sequence\<close>

definition isOk :: "'a outcome \<Rightarrow> bool" where
  "isOk x \<longleftrightarrow> (\<exists>a. x = Ok a)"

lemma isOk_simps [simp]: "isOk (Ok a)" "\<not> isOk (Err e)" "\<not> isOk (Panic p)" "\<not> isOk Crash" "\<not> isOk Diverge"
  by (simp_all add: isOk_def)

text \<open>A sequence stops in its first part, or goes on.\<close>

lemma andThen_run:
  assumes "andThen m f w = (x, w')"
  obtains (stop) x1 where "m w = (x1, w')" and "\<not> isOk x1" and "\<not> isOk x"
    | (go) a w1 where "m w = (Ok a, w1)" and "f a w1 = (x, w')"
proof (cases "m w")
  case (Pair x1 w1)
  with assms show thesis
    by (cases x1) (auto simp: andThen_apply intro: that)
qed

lemma orPanic_run:
  assumes "orPanic m p w = (x, w')"
  obtains x1 where "m w = (x1, w')" and "\<And>a. x = Ok a \<longleftrightarrow> x1 = Ok a"
  using assms by (cases "m w") (auto simp: orPanic_apply split: outcome.splits)

lemma getNewRandomDBDirName_run:
  "getNewRandomDBDirName E dir w =
     (Ok (pathJoin [dir, dec (unat (rand_Uint64 E (calls w))) @ ''_'' @ decInt (UnixNano E (Suc (calls w)))]),
      w\<lparr>calls := Suc (Suc (calls w))\<rparr>)"
  by (simp add: getNewRandomDBDirName_def randUint64_def nowUnixNano_def andThen_apply ret_apply)

definition newDbName :: "'e os_scheme \<Rightarrow> nat \<Rightarrow> string" where
  "newDbName E n = dec (unat (rand_Uint64 E n)) @ ''_'' @ decInt (UnixNano E (Suc n))"

lemma plainElem_newDbName: "plainElem (newDbName E n)"
  by (rule plainElem_with_underscore) (simp_all add: newDbName_def)

lemma newDbName_not_file: "newDbName E n \<noteq> currentDBFilename" "newDbName E n \<noteq> updatingDBFilename"
proof -
  have "CHR ''_'' \<in> set (newDbName E n)" by (simp add: newDbName_def)
  then show "newDbName E n \<noteq> currentDBFilename" "newDbName E n \<noteq> updatingDBFilename"
    by (auto simp: currentDBFilename_def updatingDBFilename_def)
qed

lemma getNewRandomDBDirName_plain:
  "plainPath dir \<Longrightarrow> getNewRandomDBDirName E dir w = (Ok (dir @ ''/'' @ newDbName E (calls w)), w\<lparr>calls := Suc (Suc (calls w))\<rparr>)"
  unfolding getNewRandomDBDirName_run
  using pathJoin_plain (1) [OF _ plainElem_newDbName, of dir E "calls w"] by (simp add: newDbName_def)

section \<open>Opening a database\<close>

text \<open>The library's view of a directory that may hold a database.\<close>

definition found :: "('s \<Rightarrow> bytes \<rightharpoonup> bytes) \<Rightarrow> 's tree \<Rightarrow> string \<Rightarrow> (bytes \<rightharpoonup> bytes)" where
  "found contents t d = (case dbAt t d of None \<Rightarrow> Map.empty | Some s \<Rightarrow> contents s)"

lemma found_Some: "dbAt t d = Some s \<Longrightarrow> found contents t d = contents s"
  by (simp add: found_def)

text \<open>The struct that \<^verbatim>\<open>createDB\<close> makes around a database object.\<close>

definition freshStruct :: "DB \<Rightarrow> 'n rocksdb" where
  "freshStruct db = \<lparr>rdb_db = Some db, rdb_ro = NewDefaultReadOptions,
     rdb_wo = SetSync NewDefaultWriteOptions True,
     rdb_opts = SetUseFsync (SetCreateIfMissing NewDefaultOptions True) True, rdb_closed = False\<rparr>"

definition dbObject :: "nat \<Rightarrow> string \<Rightarrow> DB" where
  "dbObject c d = \<lparr>DB_c = c, DB_name = d,
     DB_opts = SetUseFsync (SetCreateIfMissing NewDefaultOptions True) True\<rparr>"

context rocks
begin

text \<open>
  \<^verbatim>\<open>createDB\<close> touches no other path and keeps what is stored in the directory, and when it
  returns, the new struct is in use.
\<close>

lemma createDB_effect:
  assumes E: "rocksLib E = C" and run: "createDB E d w = (x, w')"
  shows "(\<forall>q. q \<noteq> d \<longrightarrow> map_of (tree w') q = map_of (tree w) q)
    \<and> found contents (tree w') d = found contents (tree w) d
    \<and> (dbAt (tree w) d \<noteq> None \<longrightarrow> dbAt (tree w') d \<noteq> None)
    \<and> commander w' = commander w
    \<and> (\<not> isOk x \<longrightarrow> memory w' = memory w)
    \<and> (\<forall>p. x = Ok p \<longrightarrow> p = nextPtr w
         \<and> memory w' = ((openDbs w)(nextDb w \<mapsto> d), Suc (nextDb w),
             (rheap w)(p \<mapsto> freshStruct (dbObject (nextDb w) d)), Suc p, commander w)
         \<and> (\<exists>s. liveAt w' p = Some (freshStruct (dbObject (nextDb w) d), dbObject (nextDb w) d, d, s)
              \<and> contents s = found contents (tree w) d))"
proof -
  let ?opts = "SetUseFsync (SetCreateIfMissing NewDefaultOptions True) True"
  let ?call = "\<lambda>t. c_open C t (Options_c ?opts) (dbAt (tree w) d)"
  obtain e s' where c: "?call (calls w) = (e, s')" by (cases "?call (calls w)")
  have s': "contents s' = found contents (tree w) d"
    using open_contents [OF c] by (simp add: found_def)
  obtain x1 w1 where lc: "libCall E d ?call w = (x1, w1)" by (cases "libCall E d ?call w")
  have unchanged: ?thesis if "w' = w\<lparr>calls := Suc (calls w)\<rparr>" "\<not> isOk x"
    using that by (auto simp: memory_def)
  show ?thesis
  proof (cases "(\<exists>b. map_of (tree w) d = Some (FFile b)) \<or> \<not> isDirAt (tree w) (parentDir d)")
    case True
    then have "w' = w\<lparr>calls := Suc (calls w)\<rparr>" "\<not> isOk x"
      using run by (auto simp: createDB_def OpenDb_def Let_def andThen_apply split: option.splits node.splits if_splits)
    then show ?thesis by (rule unchanged)
  next
    case False
    then have cr: "createDB E d w = andThen (libCall E d ?call) (\<lambda>_ w1.
        (Ok (nextPtr w1), w1\<lparr>openDbs := (openDbs w1)(nextDb w1 \<mapsto> d), nextDb := Suc (nextDb w1),
           rheap := (rheap w1)(nextPtr w1 \<mapsto> freshStruct (dbObject (nextDb w1) d)), nextPtr := Suc (nextPtr w1)\<rparr>)) w"
      by (auto simp: createDB_def OpenDb_def Let_def andThen_apply E freshStruct_def dbObject_def
          split: option.splits node.splits prod.splits outcome.splits)
    from libCall_cases [OF lc c] show ?thesis
    proof (elim disjE conjE)
      assume w1: "x1 \<noteq> Ok ()" "w1 = w\<lparr>calls := Suc (calls w)\<rparr>"
      then have "w' = w\<lparr>calls := Suc (calls w)\<rparr>" "\<not> isOk x"
        using run cr lc by (cases x1; auto simp: andThen_apply)+
      then show ?thesis by (rule unchanged)
    next
      assume w1: "w1 = w\<lparr>calls := Suc (calls w), tree := AList.update d (FDb s') (tree w)\<rparr>"
      have tr: "tree w' = tree w1"
        using run cr lc by (cases x1) (auto simp: andThen_apply)
      have 1: "\<forall>q. q \<noteq> d \<longrightarrow> map_of (tree w') q = map_of (tree w) q"
        by (simp add: tr w1 update_conv)
      have 2: "dbAt (tree w') d = Some s'" by (simp add: tr w1 dbAt_update)
      then have 3: "found contents (tree w') d = found contents (tree w) d"
        using s' by (simp add: found_def)
      show ?thesis
      proof (cases "isOk x1")
        case False
        then have "w' = w1" "\<not> isOk x" using run cr lc by (cases x1; auto simp: andThen_apply)+
        then show ?thesis using 1 2 3 by (auto simp: memory_def w1)
      next
        case True
        then have x: "x = Ok (nextPtr w)" and w': "w' = w1\<lparr>openDbs := (openDbs w1)(nextDb w1 \<mapsto> d), nextDb := Suc (nextDb w1),
           rheap := (rheap w1)(nextPtr w1 \<mapsto> freshStruct (dbObject (nextDb w1) d)), nextPtr := Suc (nextPtr w1)\<rparr>"
          using run cr lc w1 by (auto simp: andThen_apply isOk_def)
        have "liveAt w' (nextPtr w) = Some (freshStruct (dbObject (nextDb w) d), dbObject (nextDb w) d, d, s')"
          by (simp add: liveAt_def w' w1 freshStruct_def dbObject_def dbAt_update)
        then show ?thesis using 1 2 3 s' x by (simp add: memory_def w' w1)
      qed
    qed
  qed
qed

end

section \<open>Installing a snapshot\<close>

text \<open>
  What a node finds when it starts: the file \<^verbatim>\<open>current\<close> names the entry \<open>e\<close> of the node's
  directory, and there is a database with the contents \<open>m\<close>.
\<close>

definition installed :: "('s \<Rightarrow> bytes \<rightharpoonup> bytes) \<Rightarrow> 's tree \<Rightarrow> string \<Rightarrow> string \<Rightarrow> (bytes \<rightharpoonup> bytes) \<Rightarrow> bool" where
  "installed contents t dir e m \<longleftrightarrow>
     map_of t (curFile dir) = Some (FFile (currentContent (dir @ ''/'' @ e)))
     \<and> (\<exists>s. map_of t (dir @ ''/'' @ e) = Some (FDb s) \<and> contents s = m)"

lemma installed_cong:
  "map_of t' (curFile dir) = map_of t (curFile dir) \<Longrightarrow> map_of t' (dir @ ''/'' @ e) = map_of t (dir @ ''/'' @ e)
     \<Longrightarrow> installed contents t' dir e m = installed contents t dir e m"
  by (simp add: installed_def)

lemma andThen_assoc: "andThen (andThen m f) g = andThen m (\<lambda>a. andThen (f a) g)"
  by (rule ext) (simp add: andThen_apply split: prod.splits outcome.splits)

text \<open>A pointer and the handle behind it were handed out before.\<close>

definition wfMem :: "('s, 'n) world \<Rightarrow> bool" where
  "wfMem w \<longleftrightarrow> (\<forall>p. cmd_db (commander w) = Some p \<longrightarrow> p < nextPtr w
     \<and> (\<exists>r. rheap w p = Some r \<and> (\<forall>db. rdb_db r = Some db \<longrightarrow> DB_c db < nextDb w)))"

text \<open>Closing another struct leaves a database in use.\<close>

lemma rocksdb_close_other:
  assumes at: "liveAt w p = Some (r, db, dir, s)" and "q \<noteq> p" and "rheap w q = Some r'"
    and "\<forall>db'. rdb_db r' = Some db' \<longrightarrow> DB_c db' \<noteq> DB_c db"
  shows "\<exists>w'. rocksdb_close q w = (Ok (), w') \<and> tree w' = tree w \<and> commander w' = commander w
    \<and> liveAt w' p = Some (r, db, dir, s)"
  using liveAt_SomeD [OF at] assms(2-)
  by (cases "rdb_db r'") (auto simp: rocksdb_close_def deref_def andThen_apply ret_apply dbClose_def liveAt_def)

lemma liveAt_commander [simp]: "liveAt (w\<lparr>commander := c\<rparr>) p = liveAt w p"
  by (simp add: liveAt_def cong: option.case_cong if_cong)

lemma live_cmd_db: "cmd_db (commander w) = Some p \<Longrightarrow> live w = liveAt w p"
  by (simp add: live_def)

text \<open>The end of a recovery, once the new database is the current one.\<close>

abbreviation finishRecovery :: "('s, 'b, 'i, 'n) env \<Rightarrow> nat \<Rightarrow> string \<Rightarrow> ('s, 'n, unit) op" where
  "finishRecovery E db old \<equiv>
     andThen (orPanic (queryAppliedIndex E db) ''query applied index'') (\<lambda>newLastApplied.
     andThen getCommander (\<lambda>d.
     if lastApplied d > newLastApplied then gopanic ''last applied not moving forward''
     else
       andThen (setCommander (\<lambda>d. d\<lparr>lastApplied := newLastApplied\<rparr>)) (\<lambda>_.
       andThen (swapDb (Some db)) (\<lambda>p.
       andThen (case p of None \<Rightarrow> ret () | Some p \<Rightarrow> rocksdb_close p) (\<lambda>_.
       RemoveAll E old)))))"

lemma RemoveAll_keeps_others:
  assumes "RemoveAll E old w = (x, w')" and "q \<noteq> old" and "\<not> below old q"
  shows "map_of (tree w') q = map_of (tree w) q"
  using assms(2,3) by (intro keeps_atPath_eq [OF keeps_RemoveAll_other assms(1)])

lemma liveAt_cong:
  assumes "memory w' = memory w" and "liveAt w p = Some (r, db, dir, s)" and "map_of (tree w') dir = map_of (tree w) dir"
  shows "liveAt w' p = Some (r, db, dir, s)"
  using assms liveAt_SomeD [OF assms(2)] by (simp add: liveAt_def memory_def dbAt_def)

context rocks
begin

lemma finishRecovery_effect:
  assumes E: "rocksLib E = C" and at: "liveAt w db = Some (r, h, new, s)"
    and old: "new \<noteq> old" "\<not> below old new" "cur \<noteq> old" "\<not> below old cur" "old \<noteq> ''''"
    and wf: "\<forall>p. cmd_db (commander w) = Some p \<longrightarrow> p \<noteq> db
       \<and> (\<exists>r'. rheap w p = Some r' \<and> (\<forall>db'. rdb_db r' = Some db' \<longrightarrow> DB_c db' \<noteq> DB_c h))"
    and run: "finishRecovery E db old w = (x, w')"
  shows "map_of (tree w') cur = map_of (tree w) cur \<and> map_of (tree w') new = map_of (tree w) new
    \<and> (isOk x \<longrightarrow> live w' = Some (r, h, new, s) \<and> map_of (tree w') old = None
         \<and> storedIndex (contents s) = Inr (lastApplied (commander w'))
         \<and> lastApplied (commander w) \<le> lastApplied (commander w'))"
  using run
proof (cases rule: andThen_run)
  case (stop x1)
  obtain x2 where "queryAppliedIndex E db w = (x2, w')" using stop(1) by (rule orPanic_run)
  from queryAppliedIndex_live [OF E at this] stop(3) show ?thesis by auto
next
  case (go n w1)
  obtain x2 where q: "queryAppliedIndex E db w = (x2, w1)" "x2 = Ok n"
    using orPanic_run [OF go(1)] by metis
  from queryAppliedIndex_live [OF E at q(1)] q(2)
  have w1: "w1 = w\<lparr>calls := Suc (calls w)\<rparr>" and n: "storedIndex (contents s) = Inr n" by auto
  show ?thesis
  proof (cases "lastApplied (commander w) > n")
    case True
    then have "w' = w1" "\<not> isOk x" using go(2) by (auto simp: andThen_apply getCommander_def gopanic_apply w1)
    then show ?thesis by (simp add: w1)
  next
    case False
    let ?d = "commander w\<lparr>lastApplied := n, cmd_db := Some db\<rparr>"
    define w2 where "w2 = w1\<lparr>commander := ?d\<rparr>"
    have at2: "liveAt w2 db = Some (r, h, new, s)" using at by (simp add: w2_def w1)
    have close: "\<exists>w3. (case cmd_db (commander w) of None \<Rightarrow> ret () | Some p \<Rightarrow> rocksdb_close p) w2 = (Ok (), w3)
        \<and> tree w3 = tree w2 \<and> commander w3 = commander w2 \<and> liveAt w3 db = Some (r, h, new, s)"
    proof (cases "cmd_db (commander w)")
      case None
      then show ?thesis using at2 by (simp add: ret_apply)
    next
      case (Some p)
      with wf obtain r' where p: "p \<noteq> db" "rheap w p = Some r'" "\<forall>db'. rdb_db r' = Some db' \<longrightarrow> DB_c db' \<noteq> DB_c h" by auto
      then have "rheap w2 p = Some r'" by (simp add: w2_def w1)
      from rocksdb_close_other [OF at2 p(1) this p(3)] Some show ?thesis by simp
    qed
    then obtain w3 where w3: "(case cmd_db (commander w) of None \<Rightarrow> ret () | Some p \<Rightarrow> rocksdb_close p) w2 = (Ok (), w3)"
      "tree w3 = tree w2" "commander w3 = commander w2" "liveAt w3 db = Some (r, h, new, s)" by blast
    have rm: "RemoveAll E old w3 = (x, w')"
      using go(2) False w3(1)
      by (simp add: andThen_apply getCommander_def setCommander_def swapDb_def w1 w2_def)
    have tr: "map_of (tree w') q = map_of (tree w) q" if "q \<noteq> old" "\<not> below old q" for q
      using RemoveAll_keeps_others [OF rm that] w3(2) by (simp add: w2_def w1)
    have mem: "memory w' = memory w3" by (rule keeps_memory [OF keeps_more(5) rm])
    then have cmd: "commander w' = ?d" using w3(3) by (simp add: memory_def w2_def)
    have "map_of (tree w') new = map_of (tree w3) new" using tr [OF old(1,2)] w3(2) by (simp add: w2_def w1)
    from liveAt_cong [OF mem w3(4) this] have "live w' = Some (r, h, new, s)"
      using cmd by (simp add: live_cmd_db)
    moreover have "map_of (tree w') old = None" if "isOk x"
      using that rm RemoveAll_OkD [OF _ old(5), of E w3 _ w'] by (auto simp: isOk_def map_of_dropTree)
    ultimately show ?thesis using tr old n cmd False by auto
  qed
qed

end

lemma RecoverFromSnapshot_alt:
  "RecoverFromSnapshot E r =
     andThen getCommander (\<lambda>d.
     if cmd_closed d then gopanic ''recover from snapshot called after Close()''
     else
      (let dir = getNodeDBDirName (clusterID d) (nodeID d)
       in andThen (getNewRandomDBDirName E dir) (\<lambda>dbdir.
          andThen (getCurrentDBDirName E dir) (\<lambda>oldDirName.
          andThen (createDB E dbdir) (\<lambda>db.
          andThen (loadBatch (rocksLib E) r) (\<lambda>wb.
          andThen (derefDb db (\<lambda>rdb h. dbWrite E h (rdb_wo rdb) wb)) (\<lambda>_.
          andThen (makeCurrent E dir dbdir) (\<lambda>_.
          finishRecovery E db oldDirName))))))))"
  unfolding RecoverFromSnapshot_def andThen_assoc ..

context rocks
begin

text \<open>The write of the loaded pairs into the new database.\<close>

lemma writeLoaded_effect:
  assumes E: "rocksLib E = C" and at: "liveAt w db = Some (r, h, new, s0)"
    and wb: "WriteBatch_c wb = Some b" "ops b = map (\<lambda>(k, v). WPut k v) kvs" and empty: "contents s0 = Map.empty"
    and run: "derefDb db (\<lambda>rdb h. dbWrite E h (rdb_wo rdb) wb) w = (x, w')"
  shows "(\<forall>q. q \<noteq> new \<longrightarrow> map_of (tree w') q = map_of (tree w) q) \<and> memory w' = memory w
    \<and> (isOk x \<longrightarrow> (\<exists>s. liveAt w' db = Some (r, h, new, s) \<and> contents s = map_of (rev kvs)))"
proof -
  let ?call = "\<lambda>t. c_write C t (WriteOptions_c (rdb_wo r)) s0 b"
  have lc: "libCall E new ?call w = (x, w')"
    using run wb(1) by (simp add: derefDb_live [OF at] dbWrite_def onDb_live [OF at] E)
  obtain e s where c: "?call (calls w) = (e, s)" by (cases "?call (calls w)")
  from libCall_cases [OF lc c] show ?thesis
  proof (elim disjE conjE)
    assume "x \<noteq> Ok ()" "w' = w\<lparr>calls := Suc (calls w)\<rparr>"
    then show ?thesis by (auto simp: memory_def isOk_def)
  next
    assume x: "x = Ok () \<longrightarrow> e = None" and w': "w' = w\<lparr>calls := Suc (calls w), tree := AList.update new (FDb s) (tree w)\<rparr>"
    have "liveAt w' db = Some (r, h, new, s)" by (simp only: w' liveAt_update [OF at])
    moreover have "contents s = map_of (rev kvs)" if "isOk x"
      using write_ok [of b] c that x wb(2) empty by (auto simp: isOk_def fold_applyOp_puts)
    ultimately show ?thesis by (simp add: w' update_conv memory_def)
  qed
qed

lemma installed_dbAt: "installed contents t dir e m \<Longrightarrow> dbAt t (dir @ ''/'' @ e) \<noteq> None"
  by (auto simp: installed_def dbAt_def)

end

lemma stable_tree [keeps_intros, simp]: "stable (\<lambda>w. tree w = t)"
  by auto

text \<open>The names of a recovery: the old entry and the new one of the node's directory.\<close>

definition entriesApart :: "string \<Rightarrow> string \<Rightarrow> string \<Rightarrow> bool" where
  "entriesApart dir e e' \<longleftrightarrow> plainPath dir \<and> plainElem e \<and> plainElem e' \<and> e' \<noteq> e
     \<and> {e, e'} \<inter> {updatingDBFilename, currentDBFilename} = {}"

lemma entriesApart_paths:
  assumes "entriesApart dir e e'"
  shows "dir @ ''/'' @ e' \<noteq> dir @ ''/'' @ e" "\<not> below (dir @ ''/'' @ e) (dir @ ''/'' @ e')"
    "curFile dir \<noteq> dir @ ''/'' @ e" "\<not> below (dir @ ''/'' @ e) (curFile dir)" "dir @ ''/'' @ e \<noteq> ''''"
    "dir @ ''/'' @ e' \<noteq> curFile dir" "plainPath dir"
  using assms by (auto simp: entriesApart_def plainElem_def)

lemma makeCurrent_dbs:
  assumes "entriesApart dir e e'" and "makeCurrent E dir (dir @ ''/'' @ e') w = (y, w')"
    and "q = dir @ ''/'' @ e \<or> q = dir @ ''/'' @ e'"
  shows "map_of (tree w') q = map_of (tree w) q"
  using assms(1,3) by (intro keeps_atPath_eq [OF makeCurrent_keeps assms(2)]) (auto simp: entriesApart_def plainElem_def)

context rocks
begin

text \<open>The last phase: the switch to the new database, complete in the tree, and the rest.\<close>

lemma switch_effect:
  assumes E: "rocksLib E = C" and names: "entriesApart dir e e'"
    and new: "new = dir @ ''/'' @ e'" and old: "old = dir @ ''/'' @ e"
    and at: "liveAt w db = Some (rr, h, new, s)"
    and inst: "installed contents (tree w) dir e m"
    and wf: "\<forall>p. cmd_db (commander w) = Some p \<longrightarrow> p \<noteq> db
       \<and> (\<exists>r'. rheap w p = Some r' \<and> (\<forall>db'. rdb_db r' = Some db' \<longrightarrow> DB_c db' \<noteq> DB_c h))"
    and run: "andThen (makeCurrent E dir new) (\<lambda>_. finishRecovery E db old) w = (x, w')"
  shows "installed contents (tree w') dir e m \<and> \<not> isOk x \<or>
    installed contents (tree w') dir e' (contents s)
      \<and> (isOk x \<longrightarrow> liveState w' = Some s \<and> liveDir w' = Some new \<and> storedIndex (contents s) = Inr (lastApplied (commander w'))
           \<and> lastApplied (commander w) \<le> lastApplied (commander w') \<and> map_of (tree w') old = None)"
proof -
  note apart = entriesApart_paths [OF names, folded new old]
  note dir = apart(7) and makeCurrent_dbs = makeCurrent_dbs [OF names, folded new old]
  have tr: "map_of (tree w) new = Some (FDb s)"
    using liveAt_SomeD [OF at] by (auto simp: dbAt_def split: option.splits node.splits)
  from run show ?thesis
  proof (cases rule: andThen_run)
    case (stop x1)
    from makeCurrent_atomic [OF dir stop(1)] makeCurrent_dbs [OF stop(1)] stop(3) inst tr show ?thesis
      by (auto simp: installed_def new old)
  next
    case (go u w1)
    have cur: "map_of (tree w1) (curFile dir) = Some (FFile (currentContent new))"
      using makeCurrent_atomic [OF dir go(1)] by auto
    have mem: "memory w1 = memory w"
      by (rule keeps_memory [OF keeps_andThen [OF keeps_more_dataDir(5) keeps_more_dataDir(4)] go(1)])
    have new1: "map_of (tree w1) new = map_of (tree w) new" using makeCurrent_dbs [OF go(1)] by simp
    note at1 = liveAt_cong [OF mem at new1]
    have wf1: "\<forall>p. cmd_db (commander w1) = Some p \<longrightarrow> p \<noteq> db
       \<and> (\<exists>r'. rheap w1 p = Some r' \<and> (\<forall>db'. rdb_db r' = Some db' \<longrightarrow> DB_c db' \<noteq> DB_c h))"
      using wf mem by (simp add: memory_def)
    note fin = finishRecovery_effect [OF E at1 apart(1,2,3,4,5) wf1 go(2)]
    have "installed contents (tree w') dir e' (contents s)"
      using fin cur tr new1 by (simp add: installed_def new)
    with fin mem show ?thesis by (auto simp: liveState_def liveDir_def memory_def)
  qed
qed

text \<open>The phase before: the new database is created and filled.\<close>

lemma fill_effect:
  fixes w :: "('s, 'n) world"
  assumes E: "rocksLib E = C" and names: "entriesApart dir e e'"
    and new: "new = dir @ ''/'' @ e'" and old: "old = dir @ ''/'' @ e"
    and inst: "installed contents (tree w) dir e m" and fresh: "map_of (tree w) new = None" and wf: "wfMem w"
    and run: "andThen (createDB E new) (\<lambda>db.
          andThen (loadBatch (rocksLib E) r) (\<lambda>wb.
          andThen (derefDb db (\<lambda>rdb h. dbWrite E h (rdb_wo rdb) wb)) (\<lambda>_.
          andThen (makeCurrent E dir new) (\<lambda>_.
          finishRecovery E db old)))) w = (x, w')"
  shows "installed contents (tree w') dir e m \<and> \<not> isOk x \<or>
    (\<exists>kvs. decodeSnapshot r = Loaded kvs \<and> installed contents (tree w') dir e' (map_of (rev kvs))
      \<and> (isOk x \<longrightarrow> (\<exists>s. liveState w' = Some s \<and> liveDir w' = Some new \<and> contents s = map_of (rev kvs)
           \<and> storedIndex (contents s) = Inr (lastApplied (commander w'))
           \<and> lastApplied (commander w) \<le> lastApplied (commander w') \<and> map_of (tree w') old = None)))"
proof -
  note apart = entriesApart_paths [OF names, folded new old]
  have keep: "installed contents (tree w'') dir e m"
    if tr: "\<forall>q. q \<noteq> new \<longrightarrow> map_of (tree w'') q = map_of (tree w) q" for w'' :: "('s, 'n) world"
    using tr [rule_format, OF apart(6) [symmetric]] tr [rule_format, OF apart(1) [symmetric]] inst
    by (simp add: installed_def old)
  from run show ?thesis
  proof (cases rule: andThen_run)
    case (stop x1)
    then show ?thesis using createDB_effect [OF E stop(1)] keep [of w'] by simp
  next
    case (go db w1)
    note cdb = createDB_effect [OF E go(1)]
    let ?h = "dbObject (nextDb w) new"
    obtain s0 where at1: "liveAt w1 db = Some (freshStruct ?h, ?h, new, s0)"
      and s0: "contents s0 = Map.empty" and mem1: "memory w1 = ((openDbs w)(nextDb w \<mapsto> new), Suc (nextDb w),
         (rheap w)(db \<mapsto> freshStruct ?h), Suc db, commander w)" and db: "db = nextPtr w"
    proof -
      have "found contents (tree w) new = Map.empty" using fresh by (simp add: found_def dbAt_def)
      then show thesis using cdb that by (metis (no_types, lifting))
    qed
    from go(2) show ?thesis
    proof (cases rule: andThen_run)
      case (stop x1)
      then have "w' = w1" using loadBatch_decode [of r w1] E by (auto split: loaded.splits)
      then show ?thesis using keep [of w'] cdb stop(3) by simp
    next
      case (go wb w2)
      then obtain kvs b where kvs: "decodeSnapshot r = Loaded kvs" and w2: "w2 = w1"
        and wb: "WriteBatch_c wb = Some b" "ops b = map (\<lambda>(k, v). WPut k v) kvs"
        using loadBatch_decode [of r w1] E by (auto split: loaded.splits)
      from go(2) show ?thesis
      proof (cases rule: andThen_run)
        case (stop x1)
        then show ?thesis using writeLoaded_effect [OF E at1 wb s0, of x1 w'] w2 cdb keep [of w'] by simp
      next
        case (go u w3)
        from writeLoaded_effect [OF E at1 wb s0, of "Ok u" w3] go(1) w2
        obtain s where at3: "liveAt w3 db = Some (freshStruct ?h, ?h, new, s)" and s: "contents s = map_of (rev kvs)"
          and tr3: "\<forall>q. q \<noteq> new \<longrightarrow> map_of (tree w3) q = map_of (tree w1) q" and mem3: "memory w3 = memory w1" by auto
        have inst3: "installed contents (tree w3) dir e m" using keep [of w3] tr3 cdb by simp
        have wf3: "\<forall>p. cmd_db (commander w3) = Some p \<longrightarrow> p \<noteq> db
            \<and> (\<exists>r'. rheap w3 p = Some r' \<and> (\<forall>db'. rdb_db r' = Some db' \<longrightarrow> DB_c db' \<noteq> DB_c ?h))"
          using wf mem3 mem1 db by (fastforce simp: wfMem_def memory_def dbObject_def)
        have "commander w3 = commander w" using mem3 mem1 by (simp add: memory_def)
        then show ?thesis
          using switch_effect [OF E names new old at3 inst3 wf3 go(2)] s kvs by auto
      qed
    qed
  qed
qed

end

lemma wfMem_memory: "memory w' = memory w \<Longrightarrow> wfMem w' = wfMem w"
  by (simp add: wfMem_def memory_def)

context rocks
begin

lemma RecoverFromSnapshot_effect:
  assumes E: "rocksLib E = C" and dir: "dir = getNodeDBDirName (clusterID (commander w)) (nodeID (commander w))"
    and inst: "installed contents (tree w) dir e m" and e: "plainElem e" "e \<noteq> updatingDBFilename"
    and fresh: "map_of (tree w) (dir @ ''/'' @ newDbName E (calls w)) = None" and wf: "wfMem w"
    and run: "RecoverFromSnapshot E r w = (x, w')"
  shows "installed contents (tree w') dir e m \<and> \<not> isOk x \<or>
    (\<exists>kvs. decodeSnapshot r = Loaded kvs \<and> installed contents (tree w') dir (newDbName E (calls w)) (map_of (rev kvs))
      \<and> (isOk x \<longrightarrow> (\<exists>s. liveState w' = Some s \<and> liveDir w' = Some (dir @ ''/'' @ newDbName E (calls w)) \<and> contents s = map_of (rev kvs)
           \<and> storedIndex (contents s) = Inr (lastApplied (commander w'))
           \<and> lastApplied (commander w) \<le> lastApplied (commander w')
           \<and> map_of (tree w') (dir @ ''/'' @ e) = None)))"
proof (cases "cmd_closed (commander w)")
  case True
  then have "w' = w" "\<not> isOk x"
    using run by (auto simp: RecoverFromSnapshot_alt andThen_apply getCommander_def gopanic_apply)
  then show ?thesis using inst by simp
next
  case False
  let ?e' = "newDbName E (calls w)"
  have plain: "plainPath dir" by (simp add: dir getNodeDBDirName_plain)
  have names: "entriesApart dir e ?e'"
    using plain e inst fresh plainElem_newDbName [of E "calls w"] newDbName_not_file [of E "calls w"]
    by (auto simp: entriesApart_def installed_def)
  define w1 where "w1 = w\<lparr>calls := Suc (Suc (calls w))\<rparr>"
  have "andThen (getCurrentDBDirName E dir) (\<lambda>oldDirName.
        andThen (createDB E (dir @ ''/'' @ ?e')) (\<lambda>db.
        andThen (loadBatch (rocksLib E) r) (\<lambda>wb.
        andThen (derefDb db (\<lambda>rdb h. dbWrite E h (rdb_wo rdb) wb)) (\<lambda>_.
        andThen (makeCurrent E dir (dir @ ''/'' @ ?e')) (\<lambda>_.
        finishRecovery E db oldDirName))))) w1 = (x, w')"
    using run False by (simp add: RecoverFromSnapshot_alt andThen_apply getCommander_def dir [symmetric]
        getNewRandomDBDirName_plain [OF plain] w1_def)
  then show ?thesis
  proof (cases rule: andThen_run)
    case (stop x1)
    have "tree w' = tree w1" by (rule keeps_tree_eq [OF keeps_getCurrentDBDirName stop(1)]) auto
    then show ?thesis using inst stop(3) by (simp add: w1_def)
  next
    case (go name w2)
    have "tree w2 = tree w1" by (rule keeps_tree_eq [OF keeps_getCurrentDBDirName go(1)]) auto
    then have tr: "tree w2 = tree w" by (simp add: w1_def)
    have "memory w2 = memory w1" by (rule keeps_memory [OF keeps_getCurrentDBDirName go(1)]) simp
    then have mem: "memory w2 = memory w" by (simp add: w1_def memory_def)
    have name: "name = dir @ ''/'' @ e"
      using getCurrentDBDirName_Ok [OF plain go(1)] inst by (simp add: w1_def installed_def)
    have cmd: "commander w2 = commander w" using mem by (simp add: memory_def)
    have pre: "installed contents (tree w2) dir e m" "map_of (tree w2) (dir @ ''/'' @ ?e') = None" "wfMem w2"
      using inst fresh wf by (simp_all add: tr wfMem_memory [OF mem])
    show ?thesis by (rule fill_effect [OF E names refl refl pre go(2) [unfolded name], unfolded cmd])
  qed
qed

end

section \<open>Opening the data directory\<close>

lemma dirsTo_elems:
  assumes "q \<in> set (dirsTo p)"
  shows "length q \<le> length p \<and> (plainPath p \<longrightarrow> plainPath q)"
proof -
  let ?es = "Split p CHR ''/''"
  from assms obtain n where n: "1 \<le> n" "n \<le> length ?es" and q: "q = Join (take n ?es) ''/''"
    by (auto simp: dirsTo_def Let_def)
  have take: "take n ?es \<noteq> []" using n by (cases n) simp_all
  have "length q \<le> length (Join ?es ''/'')"
  proof (cases "drop n ?es = []")
    case True
    then show ?thesis using q by simp
  next
    case False
    have "Join ?es ''/'' = Join (take n ?es @ drop n ?es) ''/''" by simp
    also have "\<dots> = q @ ''/'' @ Join (drop n ?es) ''/''" using Join_append [OF take False] q by simp
    finally show ?thesis by simp
  qed
  moreover have "plainPath q" if "plainPath p"
    unfolding q using that take by (intro plainPath_Join) (auto simp: plainPath_def list_all_iff dest: in_set_takeD)
  ultimately show ?thesis by (simp add: Join_Split)
qed

lemma mkdirs_keeps:
  assumes "\<forall>d \<in> set ds. q \<noteq> d"
  shows "keeps (atPath q Q) (mkdirs E ds)"
  using assms by (induction ds) (auto intro!: keeps_intros)

lemma createNodeDataDir_keeps:
  "keeps (atPath (dir @ ''/'' @ e) Q) (createNodeDataDir E dir)"
  unfolding createNodeDataDir_def MkdirAll_def
  by (rule mkdirs_keeps) (auto dest: dirsTo_elems)

lemma Mkdir_plain [keeps_intros]: "plainPath d \<Longrightarrow> keeps (\<lambda>w. plainTree (tree w)) (Mkdir E d)"
  unfolding Mkdir_def by (intro keeps_change) (auto simp: atomically_def)

lemma mkdirs_plain:
  "\<forall>d \<in> set ds. plainPath d \<Longrightarrow> keeps (\<lambda>w. plainTree (tree w)) (mkdirs E ds)"
  by (induction ds) (auto intro!: keeps_intros)

lemma createNodeDataDir_plain:
  "plainPath dir \<Longrightarrow> keeps (\<lambda>w. plainTree (tree w)) (createNodeDataDir E dir)"
  unfolding createNodeDataDir_def MkdirAll_def
  by (rule mkdirs_plain) (auto dest: dirsTo_elems)

lemma isNewRun_result:
  assumes "plainPath dir" and "isNewRun E dir w = (Ok b, w')"
  shows "tree w' = tree w \<and> (b \<longrightarrow> map_of (tree w) (curFile dir) = None)"
  using assms
  by (auto simp: isNewRun_def Stat_def query_def syscall_def onErr_apply andThen_apply ret_apply Let_def
      split: fault.splits option.splits)

lemma isNewRun_tree: "isNewRun E dir w = (x, w') \<Longrightarrow> tree w' = tree w"
  by (erule keeps_tree_eq [rotated]) (auto simp: isNewRun_def Let_def intro!: keeps_intros)

lemma statDbDir_tree: "statDbDir E d w = (x, w') \<Longrightarrow> tree w' = tree w"
  by (erule keeps_tree_eq [rotated]) (auto simp: statDbDir_def intro!: keeps_intros)

lemma statDbDir_memory: "statDbDir E d w = (x, w') \<Longrightarrow> memory w' = memory w"
  by (erule keeps_memory [rotated]) (auto simp: statDbDir_def intro!: keeps_intros)

text \<open>Choosing the database directory, when there is a current one.\<close>

lemma openDbDir_named:
  assumes dir: "plainPath dir" and plain: "plainTree (tree w)"
    and cur: "map_of (tree w) (curFile dir) = Some (FFile (currentContent (dir @ ''/'' @ e)))"
    and e: "plainElem e" "e \<noteq> updatingDBFilename" and run: "openDbDir E dir w = (x, w')"
  shows "(\<forall>q. q = dir @ ''/'' @ e \<or> q = curFile dir \<longrightarrow> map_of (tree w') q = map_of (tree w) q)
    \<and> memory w' = memory w \<and> (\<forall>d. x = Ok d \<longrightarrow> d = dir @ ''/'' @ e)"
  using run unfolding openDbDir_def
proof (cases rule: andThen_run)
  case (stop x1)
  then show ?thesis using isNewRun_tree [OF stop(1)] keeps_memory [OF keeps_more_dataDir(2) stop(1)]
    by (auto simp: isOk_def)
next
  case (go new w1)
  have w1: "tree w1 = tree w" "memory w1 = memory w" "\<not> new"
    using isNewRun_result [OF dir go(1)] cur keeps_memory [OF keeps_more_dataDir(2) go(1)] by auto
  have run1: "andThen (cleanupNodeDataDir E dir) (\<lambda>_. andThen (getCurrentDBDirName E dir) (\<lambda>dbdir.
      andThen (statDbDir E dbdir) (\<lambda>_. ret dbdir))) w1 = (x, w')"
    using go(2) w1(3) by simp
  have clean: "(\<forall>q. q = dir @ ''/'' @ e \<or> q = curFile dir \<longrightarrow> map_of (tree w2) q = map_of (tree w) q)
      \<and> memory w2 = memory w" if "cleanupNodeDataDir E dir w1 = (y, w2)" for y w2
  proof -
    have plain1: "plainTree (tree w1)" and cur1: "map_of (tree w1) (curFile dir) = Some (FFile (currentContent (dir @ ''/'' @ e)))"
      using w1 plain cur by simp_all
    have "map_of (tree w2) q = map_of (tree w) q" if "q = dir @ ''/'' @ e \<or> q = curFile dir" for q
      using cleanupNodeDataDir_frame [OF dir plain1 cur1 refl e _ \<open>cleanupNodeDataDir E dir w1 = (y, w2)\<close>, of q] that w1(1) by auto
    then show ?thesis using keeps_memory [OF keeps_more_dataDir(6) that] w1(2) by simp
  qed
  from run1 show ?thesis
  proof (cases rule: andThen_run)
    case (stop x1)
    then show ?thesis using clean [OF stop(1)] by (auto simp: isOk_def)
  next
    case (go u w2)
    note c2 = clean [OF go(1)]
    from go(2) show ?thesis
    proof (cases rule: andThen_run)
      case (stop x1)
      have "tree w' = tree w2" by (rule keeps_tree_eq [OF keeps_getCurrentDBDirName stop(1)]) simp
      moreover have "memory w' = memory w2" by (rule keeps_memory [OF keeps_getCurrentDBDirName stop(1)]) simp
      ultimately show ?thesis using c2 stop(3) by (auto simp: isOk_def)
    next
      case (go name w3)
      have name: "name = dir @ ''/'' @ e" "tree w3 = tree w2"
        using getCurrentDBDirName_Ok [OF dir go(1)] c2 cur by auto
      have mem: "memory w3 = memory w2" by (rule keeps_memory [OF keeps_getCurrentDBDirName go(1)]) simp
      obtain y where st: "statDbDir E name w3 = (y, w')" and x: "\<forall>d. x = Ok d \<longrightarrow> d = name"
        using go(2) by (cases rule: andThen_run) (auto simp: ret_apply isOk_def)
      show ?thesis using statDbDir_tree [OF st] statDbDir_memory [OF st] name mem c2 x by simp
    qed
  qed
qed

lemma openDbDir_existing:
  assumes dir: "plainPath dir" and plain: "plainTree (tree w)" and inst: "installed contents (tree w) dir e m"
    and e: "plainElem e" "e \<noteq> updatingDBFilename" and run: "openDbDir E dir w = (x, w')"
  shows "installed contents (tree w') dir e m \<and> memory w' = memory w \<and> (\<forall>d. x = Ok d \<longrightarrow> d = dir @ ''/'' @ e)"
  using openDbDir_named [OF dir plain _ e run] inst by (simp add: installed_def)

abbreviation attachDb :: "('s, 'b, 'i, 'n) env \<Rightarrow> string \<Rightarrow> ('s, 'n, uint64) op" where
  "attachDb E dbdir \<equiv>
     andThen (createDB E dbdir) (\<lambda>db.
     andThen (swapDb (Some db)) (\<lambda>_.
     andThen (orPanic (queryAppliedIndex E db) ''query applied index'') (\<lambda>appliedIndex.
     andThen (setCommander (\<lambda>d. d\<lparr>lastApplied := appliedIndex\<rparr>)) (\<lambda>_.
     ret appliedIndex))))"

context rocks
begin

text \<open>Opening a database directory, existing or not, and reading the applied index from it.\<close>

lemma attachDb_effect:
  assumes E: "rocksLib E = C" and run: "attachDb E d w = (x, w')"
  shows "(\<forall>q. q \<noteq> d \<longrightarrow> map_of (tree w') q = map_of (tree w) q)
    \<and> found contents (tree w') d = found contents (tree w) d
    \<and> (dbAt (tree w) d \<noteq> None \<longrightarrow> dbAt (tree w') d \<noteq> None)
    \<and> (\<forall>i. x = Ok i \<longrightarrow> (\<exists>s. liveState w' = Some s \<and> contents s = found contents (tree w) d
         \<and> storedIndex (contents s) = Inr i \<and> lastApplied (commander w') = i \<and> wfMem w'
         \<and> liveDir w' = Some d \<and> cmd_closed (commander w') = cmd_closed (commander w)))"
  using run
proof (cases rule: andThen_run)
  case (stop x1)
  then show ?thesis using createDB_effect [OF E stop(1)] by (auto simp: isOk_def)
next
  case (go db w1)
  note cdb = createDB_effect [OF E go(1)]
  let ?h = "dbObject (nextDb w) d"
  have mem: "memory w1 = ((openDbs w)(nextDb w \<mapsto> d), Suc (nextDb w),
      (rheap w)(db \<mapsto> freshStruct ?h), Suc db, commander w)" using cdb by simp
  obtain s where at1: "liveAt w1 db = Some (freshStruct ?h, ?h, d, s)" and s: "contents s = found contents (tree w) d"
    using cdb by blast
  define w2 where "w2 = w1\<lparr>commander := commander w1\<lparr>cmd_db := Some db\<rparr>\<rparr>"
  have at2: "liveAt w2 db = Some (freshStruct ?h, ?h, d, s)" using at1 by (simp add: w2_def)
  have "andThen (orPanic (queryAppliedIndex E db) ''query applied index'') (\<lambda>i.
     andThen (setCommander (\<lambda>d. d\<lparr>lastApplied := i\<rparr>)) (\<lambda>_. ret i)) w2 = (x, w')"
    using go(2) by (simp add: andThen_apply swapDb_def w2_def)
  then show ?thesis
  proof (cases rule: andThen_run)
    case (stop x1)
    obtain x2 where q: "queryAppliedIndex E db w2 = (x2, w')" using stop(1) by (rule orPanic_run)
    have "tree w' = tree w1" using queryAppliedIndex_live [OF E at2 q] by (auto simp: w2_def)
    then show ?thesis using cdb stop(3) by (auto simp: isOk_def)
  next
    case (go i w3)
    obtain x2 where q: "queryAppliedIndex E db w2 = (x2, w3)" "x2 = Ok i" using orPanic_run [OF go(1)] by metis
    from queryAppliedIndex_live [OF E at2 q(1)] q(2)
    have w3: "w3 = w2\<lparr>calls := Suc (calls w2)\<rparr>" and i: "storedIndex (contents s) = Inr i" by auto
    have x: "x = Ok i" and w': "w' = w3\<lparr>commander := commander w3\<lparr>lastApplied := i\<rparr>\<rparr>"
      using go(2) by (auto simp: andThen_apply setCommander_def ret_apply)
    have tr: "tree w' = tree w1" by (simp add: w' w3 w2_def)
    have "liveAt w' db = Some (freshStruct ?h, ?h, d, s)" using at2 by (simp add: w' w3)
    moreover have "cmd_db (commander w') = Some db" by (simp add: w' w3 w2_def)
    ultimately have lv: "live w' = Some (freshStruct ?h, ?h, d, s)" by (simp add: live_cmd_db)
    have "rheap w1 db = Some (freshStruct ?h)" "nextPtr w1 = Suc db" "nextDb w1 = Suc (nextDb w)"
      using mem by (simp_all add: memory_def)
    then have wf: "wfMem w'" by (simp add: wfMem_def w' w3 w2_def freshStruct_def dbObject_def)
    have la: "lastApplied (commander w') = i" "cmd_closed (commander w') = cmd_closed (commander w)"
      using cdb by (simp_all add: w' w3 w2_def)
    show ?thesis using cdb x s i lv wf la by (simp add: tr liveState_def liveDir_def)
  qed
qed

lemma Open_effect:
  assumes E: "rocksLib E = C" and dir: "dir = getNodeDBDirName (clusterID (commander w)) (nodeID (commander w))"
    and plain: "plainTree (tree w)" and inst: "installed contents (tree w) dir e m"
    and e: "plainElem e" "e \<noteq> updatingDBFilename" and run: "Open E w = (x, w')"
  shows "installed contents (tree w') dir e m
    \<and> (\<forall>i. x = Ok i \<longrightarrow> (\<exists>s. liveState w' = Some s \<and> contents s = m \<and> storedIndex m = Inr i
         \<and> lastApplied (commander w') = i \<and> wfMem w'
         \<and> liveDir w' = Some (dir @ ''/'' @ e)))"
proof -
  have dirp: "plainPath dir" by (simp add: dir getNodeDBDirName_plain)
  have "andThen (orPanic (createNodeDataDir E dir) ''mkdir'') (\<lambda>_. andThen (openDbDir E dir) (attachDb E)) w = (x, w')"
    using run by (simp add: Open_def andThen_apply getCommander_def dir [symmetric])
  then show ?thesis
  proof (cases rule: andThen_run)
    case (stop x1)
    obtain x2 where mk: "createNodeDataDir E dir w = (x2, w')" using stop(1) by (rule orPanic_run)
    have "map_of (tree w') (dir @ ''/'' @ n) = map_of (tree w) (dir @ ''/'' @ n)" for n
      by (rule keeps_atPath_eq [OF createNodeDataDir_keeps mk])
    then show ?thesis using inst stop(3) by (auto simp: installed_def isOk_def)
  next
    case (go u w1)
    obtain x2 where mk: "createNodeDataDir E dir w = (x2, w1)" using go(1) by (rule orPanic_run)
    have "map_of (tree w1) (dir @ ''/'' @ n) = map_of (tree w) (dir @ ''/'' @ n)" for n
      by (rule keeps_atPath_eq [OF createNodeDataDir_keeps mk])
    then have inst1: "installed contents (tree w1) dir e m" using inst by (simp add: installed_def)
    have plain1: "plainTree (tree w1)"
      using keepsD [OF createNodeDataDir_plain [OF dirp] plain] mk by (metis snd_conv)
    note od = openDbDir_existing [OF dirp plain1 inst1 e]
    from go(2) show ?thesis
    proof (cases rule: andThen_run)
      case (stop x1)
      then show ?thesis using od [OF stop(1)] by (auto simp: isOk_def)
    next
      case (go d w2)
      have d: "d = dir @ ''/'' @ e" and inst2: "installed contents (tree w2) dir e m" using od [OF go(1)] by auto
      note at = attachDb_effect [OF E go(2)]
      obtain s2 where s2: "map_of (tree w2) d = Some (FDb s2)" "contents s2 = m" using inst2 d by (auto simp: installed_def)
      then have fnd: "found contents (tree w2) d = m" by (simp add: found_def dbAt_def)
      then have "found contents (tree w') d = m" "dbAt (tree w') d \<noteq> None" using at s2(1) by (auto simp: dbAt_def)
      then obtain s' where s': "map_of (tree w') d = Some (FDb s')" "contents s' = m"
        by (auto simp: found_def dbAt_def split: option.splits node.splits)
      have "curFile dir \<noteq> d" using inst2 d by (auto simp: installed_def)
      then have "map_of (tree w') (curFile dir) = map_of (tree w2) (curFile dir)" using at by blast
      then have "installed contents (tree w') dir e m" using inst2 s' by (simp add: installed_def d)
      then show ?thesis using at fnd d by auto
    qed
  qed
qed

end

section \<open>When nothing fails\<close>

definition libraryWell :: "('s, 'b, 'i, 'n) rocksdb_c \<Rightarrow> bool" where
  "libraryWell C \<longleftrightarrow> (\<forall>t opt st. fst (c_open C t opt st) = None) \<and> (\<forall>t wo s b. fst (c_write C t wo s b) = None)
     \<and> (\<forall>t ro s k. fst (c_get C t ro s k) = None)"

lemma saveCurrentDBDirName_well:
  assumes "faultless E" and "plainPath dir" and "isDirAt (tree w) dir" and "\<not> isDirAt (tree w) (updFile dir)"
  shows "\<exists>w'. saveCurrentDBDirName E dir dbdir w = (Ok (), w')"
  using assms parentDir_child [of updatingDBFilename dir]
  by (simp add: saveCurrentDBDirName_def Let_def Create_def fileWrite_def fileSync_def fileClose_def change_well
      query_well SyncDir_well andThen_apply orPanic_apply withDefer_def ret_apply)

lemma replaceCurrentDBFile_well:
  assumes "faultless E" and "plainPath dir" and "isDirAt (tree w) dir" and "\<not> isDirAt (tree w) (curFile dir)"
    and "map_of (tree w) (updFile dir) = Some (FFile x)"
  shows "\<exists>w'. replaceCurrentDBFile E dir w = (Ok (), w')"
  using assms parentDir_child [of currentDBFilename dir]
  by (simp add: replaceCurrentDBFile_def Let_def Rename_def change_well SyncDir_well andThen_apply)

lemma isDirAt_cong: "map_of t' d = map_of t d \<Longrightarrow> isDirAt t' d = isDirAt t d"
  by (simp add: isDirAt_def)

lemma dir_not_file [simp]: "dir \<noteq> dir @ CHR ''/'' # e"
  by (metis append_self_conv list.distinct(1))

lemma makeCurrent_well:
  assumes "faultless E" and "plainPath dir" and "isDirAt (tree w) dir"
    and "\<not> isDirAt (tree w) (updFile dir)" and "\<not> isDirAt (tree w) (curFile dir)"
  shows "\<exists>w'. makeCurrent E dir dbdir w = (Ok (), w')"
proof -
  obtain w1 where save: "saveCurrentDBDirName E dir dbdir w = (Ok (), w1)"
    using saveCurrentDBDirName_well [OF assms(1-4)] by blast
  have same: "map_of (tree w1) q = map_of (tree w) q" if "q \<noteq> updFile dir" for q
    by (rule keeps_atPath_eq [OF saveCurrentDBDirName_keeps [OF assms(2) that] save])
  have "isDirAt (tree w1) dir" "\<not> isDirAt (tree w1) (curFile dir)"
    using assms(3,5) isDirAt_cong [OF same, of dir] isDirAt_cong [OF same, of "curFile dir"] by simp_all
  from replaceCurrentDBFile_well [OF assms(1,2) this saveCurrentDBDirName_Ok [OF assms(2) save]] save
  show ?thesis by (auto simp: andThen_apply)
qed

lemma RemoveAll_well:
  assumes "faultless E" and "plainElem e"
  shows "\<exists>w'. RemoveAll E (dir @ ''/'' @ e) w = (Ok (), w')"
proof -
  have "\<not> suffix ''/.'' (dir @ ''/'' @ e)"
  proof
    assume "suffix ''/.'' (dir @ ''/'' @ e)"
    then obtain z where z: "dir @ ''/'' @ e = z @ ''/'' @ ''.''" by (auto simp: suffix_def)
    have "Split (dir @ ''/'' @ e) CHR ''/'' = Split dir CHR ''/'' @ [e]"
      using assms(2) by (intro Split_child) (simp add: plainElem_def)
    moreover have "Split (z @ ''/'' @ ''.'') CHR ''/'' = Split z CHR ''/'' @ [''.'']"
      by (intro Split_child) simp
    ultimately have "e = ''.''" using z by simp
    with assms(2) show False by (simp add: plainElem_def)
  qed
  then show ?thesis
    using assms by (simp add: RemoveAll_def change_well append_eq_Cons_conv plainElem_def)
qed

lemma libCall_well:
  assumes "faultless E" and "fst (call (calls w)) = None"
  shows "libCall E d call w = (Ok (), w\<lparr>calls := Suc (calls w), tree := AList.update d (FDb (snd (call (calls w)))) (tree w)\<rparr>)"
  using assms by (cases "call (calls w)") (simp add: libCall_def faultless_def)

lemma createDB_well:
  assumes "faultless E" and "libraryWell (rocksLib E)" and "isDirAt (tree w) (parentDir d)" and "map_of (tree w) d = None"
  shows "\<exists>p w'. createDB E d w = (Ok p, w')"
  using assms libCall_well [OF assms(1), of _ w d]
  by (simp add: createDB_def OpenDb_def Let_def andThen_apply libraryWell_def)

context rocks
begin

lemma queryAppliedIndex_well:
  assumes E: "rocksLib E = C" and at: "liveAt w p = Some (r, db, dir, s)" and "libraryWell C"
    and i: "storedIndex (contents s) = Inr i"
  shows "queryAppliedIndex E p w = (Ok i, w\<lparr>calls := Suc (calls w)\<rparr>)"
proof -
  have ro: "rdb_ro r = NewDefaultReadOptions" using liveAt_SomeD [OF at] by simp
  obtain v where get: "c_get C (calls w) (ReadOptions_c NewDefaultReadOptions) s appliedIndexKey = (None, v)"
    using assms(3) by (cases "c_get C (calls w) (ReadOptions_c NewDefaultReadOptions) s appliedIndexKey")
      (metis libraryWell_def fst_conv)
  then have v: "v = contents s appliedIndexKey" using get_value [OF plainRead_default] by blast
  show ?thesis
    using i by (cases v) (auto simp: queryAppliedIndex_def derefDb_live [OF at] dbGet_def onDb_live [OF at] E ro get
        andThen_apply sliceData_NewSlice ret_apply Let_def storedIndex_def v [symmetric] split: if_splits sum.splits)
qed

lemma finishRecovery_well:
  assumes E: "rocksLib E = C" and at: "liveAt w db = Some (r, h, new, s)" and lib: "libraryWell C" and "faultless E"
    and i: "storedIndex (contents s) = Inr i" and "lastApplied (commander w) \<le> i" and "plainElem e"
    and wf: "\<forall>p. cmd_db (commander w) = Some p \<longrightarrow> p \<noteq> db
       \<and> (\<exists>r'. rheap w p = Some r' \<and> (\<forall>db'. rdb_db r' = Some db' \<longrightarrow> DB_c db' \<noteq> DB_c h))"
  shows "\<exists>w'. finishRecovery E db (dir @ ''/'' @ e) w = (Ok (), w')"
proof -
  define w2 where "w2 = w\<lparr>calls := Suc (calls w), commander := commander w\<lparr>lastApplied := i, cmd_db := Some db\<rparr>\<rparr>"
  have "\<exists>w3. (case cmd_db (commander w) of None \<Rightarrow> ret () | Some p \<Rightarrow> rocksdb_close p) w2 = (Ok (), w3)"
  proof (cases "cmd_db (commander w)")
    case (Some p)
    with wf obtain r' where "rheap w p = Some r'" by auto
    then show ?thesis
      by (cases "rdb_db r'") (simp_all add: Some w2_def rocksdb_close_def deref_def andThen_apply ret_apply dbClose_def)
  qed (simp add: ret_apply)
  then obtain w3 where "(case cmd_db (commander w) of None \<Rightarrow> ret () | Some p \<Rightarrow> rocksdb_close p) w2 = (Ok (), w3)" by blast
  moreover obtain w4 where "RemoveAll E (dir @ ''/'' @ e) w3 = (Ok (), w4)"
    using RemoveAll_well [OF assms(4,7)] by blast
  moreover have "\<not> i < lastApplied (commander w)" using assms(6) by simp
  ultimately show ?thesis
    by (simp add: andThen_apply orPanic_apply queryAppliedIndex_well [OF E at lib i] getCommander_def setCommander_def
        swapDb_def w2_def)
qed

end

context rocks
begin

lemma writeLoaded_well:
  assumes E: "rocksLib E = C" and at: "liveAt w db = Some (r, h, new, s0)" and "WriteBatch_c wb = Some b"
    and "faultless E" and "libraryWell C"
  shows "\<exists>w'. derefDb db (\<lambda>rdb h. dbWrite E h (rdb_wo rdb) wb) w = (Ok (), w')"
  using assms(3,5) libCall_well [OF assms(4), of "\<lambda>t. c_write C t (WriteOptions_c (rdb_wo r)) s0 b" w new]
  by (simp add: derefDb_live [OF at] dbWrite_def onDb_live [OF at] E libraryWell_def)

text \<open>The phases of a recovery return: filling the new database, and switching to it.\<close>

lemma switch_returns:
  assumes E: "rocksLib E = C" and well: "faultless E" "libraryWell C" and names: "entriesApart dir e e'"
    and at: "liveAt w db = Some (rr, h, dir @ ''/'' @ e', s)"
    and tree: "isDirAt (tree w) dir" "\<not> isDirAt (tree w) (updFile dir)" "\<not> isDirAt (tree w) (curFile dir)"
    and wf: "\<forall>p. cmd_db (commander w) = Some p \<longrightarrow> p \<noteq> db
       \<and> (\<exists>r'. rheap w p = Some r' \<and> (\<forall>db'. rdb_db r' = Some db' \<longrightarrow> DB_c db' \<noteq> DB_c h))"
    and i: "storedIndex (contents s) = Inr i" "lastApplied (commander w) \<le> i"
  shows "\<exists>w'. andThen (makeCurrent E dir (dir @ ''/'' @ e')) (\<lambda>_. finishRecovery E db (dir @ ''/'' @ e)) w = (Ok (), w')"
proof -
  note plain = entriesApart_paths(7) [OF names]
  obtain w1 where mk: "makeCurrent E dir (dir @ ''/'' @ e') w = (Ok (), w1)"
    using makeCurrent_well [OF well(1) plain tree] by blast
  have mem: "memory w1 = memory w"
    by (rule keeps_memory [OF keeps_andThen [OF keeps_more_dataDir(5) keeps_more_dataDir(4)] mk])
  note at1 = liveAt_cong [OF mem at makeCurrent_dbs [OF names mk disjI2 [OF refl]]]
  have wf1: "\<forall>p. cmd_db (commander w1) = Some p \<longrightarrow> p \<noteq> db
      \<and> (\<exists>r'. rheap w1 p = Some r' \<and> (\<forall>db'. rdb_db r' = Some db' \<longrightarrow> DB_c db' \<noteq> DB_c h))"
    and la: "lastApplied (commander w1) \<le> i"
    using wf i(2) mem by (simp_all add: memory_def)
  have "plainElem e" using names by (simp add: entriesApart_def)
  from finishRecovery_well [OF E at1 well(2,1) i(1) la this wf1] show ?thesis by (simp only: andThen_apply [of "makeCurrent E dir (dir @ ''/'' @ e')"] mk prod.case outcome.case)
qed

lemma fill_returns:
  assumes E: "rocksLib E = C" and well: "faultless E" "libraryWell C" and names: "entriesApart dir e e'"
    and new: "new = dir @ ''/'' @ e'"
    and tree: "isDirAt (tree w) dir" "\<not> isDirAt (tree w) (updFile dir)" "\<not> isDirAt (tree w) (curFile dir)"
    and fresh: "map_of (tree w) new = None" and wf: "wfMem w" and r: "decodeSnapshot r = Loaded kvs"
    and i: "storedIndex (map_of (rev kvs)) = Inr i" "lastApplied (commander w) \<le> i"
  shows "\<exists>w'. andThen (createDB E new) (\<lambda>db.
          andThen (loadBatch (rocksLib E) r) (\<lambda>wb.
          andThen (derefDb db (\<lambda>rdb h. dbWrite E h (rdb_wo rdb) wb)) (\<lambda>_.
          andThen (makeCurrent E dir new) (\<lambda>_.
          finishRecovery E db (dir @ ''/'' @ e))))) w = (Ok (), w')"
proof -
  let ?h = "dbObject (nextDb w) new"
  have parent: "parentDir new = dir"
    unfolding new using names by (intro parentDir_child) (simp add: entriesApart_def plainElem_def)
  obtain db w1 where cr: "createDB E new w = (Ok db, w1)"
    using createDB_well [OF well(1), of w new, unfolded parent] well(2) E tree(1) fresh by auto
  note cdb = createDB_effect [OF E cr]
  obtain s0 where at1: "liveAt w1 db = Some (freshStruct ?h, ?h, new, s0)" and s0: "contents s0 = found contents (tree w) new"
    using cdb by auto
  have empty: "contents s0 = Map.empty" using s0 fresh by (simp add: found_def dbAt_def)
  have mem1: "memory w1 = ((openDbs w)(nextDb w \<mapsto> new), Suc (nextDb w),
      (rheap w)(db \<mapsto> freshStruct ?h), Suc db, commander w)" and db: "db = nextPtr w" using cdb by simp_all
  obtain wb b where wb: "loadBatch C r w1 = (Ok wb, w1)" "WriteBatch_c wb = Some b" "ops b = map (\<lambda>(k, v). WPut k v) kvs"
    using loadBatch_decode [of r w1] r by auto
  obtain w2 where wr: "derefDb db (\<lambda>rdb h. dbWrite E h (rdb_wo rdb) wb) w1 = (Ok (), w2)"
    using writeLoaded_well [OF E at1 wb(2) well] by blast
  from writeLoaded_effect [OF E at1 wb(2,3) empty wr]
  obtain s where at2: "liveAt w2 db = Some (freshStruct ?h, ?h, new, s)" and s: "contents s = map_of (rev kvs)"
    and tr2: "\<And>q. q \<noteq> new \<Longrightarrow> map_of (tree w2) q = map_of (tree w1) q" and mem2: "memory w2 = memory w1" by auto
  have same: "isDirAt (tree w2) q = isDirAt (tree w) q" if "q \<noteq> new" for q
    using tr2 [OF that] cdb that by (intro isDirAt_cong) simp
  have ne: "dir \<noteq> new" "updFile dir \<noteq> new" "curFile dir \<noteq> new" using names by (auto simp: new entriesApart_def)
  have tree2: "isDirAt (tree w2) dir" "\<not> isDirAt (tree w2) (updFile dir)" "\<not> isDirAt (tree w2) (curFile dir)"
    using tree unfolding same [OF ne(1)] same [OF ne(2)] same [OF ne(3)] by blast+
  have wf2: "\<forall>p. cmd_db (commander w2) = Some p \<longrightarrow> p \<noteq> db
      \<and> (\<exists>r'. rheap w2 p = Some r' \<and> (\<forall>db'. rdb_db r' = Some db' \<longrightarrow> DB_c db' \<noteq> DB_c ?h))"
    using wf mem2 mem1 db by (fastforce simp: wfMem_def memory_def dbObject_def)
  have la: "lastApplied (commander w2) \<le> i" using mem2 mem1 i(2) by (simp add: memory_def)
  from switch_returns [OF E well names at2 [unfolded new] tree2 wf2 [unfolded new] i(1) [folded s] la] show ?thesis
    unfolding new [symmetric]
    by (simp only: andThen_apply cr wb(1) [folded E] wr prod.case outcome.case)
qed

lemma RecoverFromSnapshot_returns:
  assumes E: "rocksLib E = C" and well: "faultless E" "libraryWell C"
    and dir: "dir = getNodeDBDirName (clusterID (commander w)) (nodeID (commander w))"
    and inst: "installed contents (tree w) dir e m" and e: "plainElem e" "e \<noteq> updatingDBFilename"
    and tree: "isDirAt (tree w) dir" "\<not> isDirAt (tree w) (updFile dir)"
    and fresh: "map_of (tree w) (dir @ ''/'' @ newDbName E (calls w)) = None" and wf: "wfMem w"
    and nc: "\<not> cmd_closed (commander w)" and r: "decodeSnapshot r = Loaded kvs"
    and i: "storedIndex (map_of (rev kvs)) = Inr i" "lastApplied (commander w) \<le> i"
  shows "\<exists>w'. RecoverFromSnapshot E r w = (Ok (), w')"
proof -
  have plain: "plainPath dir" by (simp add: dir getNodeDBDirName_plain)
  define w1 where "w1 = w\<lparr>calls := Suc (Suc (calls w))\<rparr>"
  define w2 where "w2 = w1\<lparr>calls := calls w1 + 3\<rparr>"
  have cur: "map_of (tree w) (curFile dir) = Some (FFile (currentContent (dir @ ''/'' @ e)))"
    using inst by (simp add: installed_def)
  have names: "entriesApart dir e (newDbName E (calls w))"
    using plain e inst fresh plainElem_newDbName [of E "calls w"] newDbName_not_file [of E "calls w"]
    by (auto simp: entriesApart_def installed_def)
  have get: "getCurrentDBDirName E dir w1 = (Ok (dir @ ''/'' @ e), w2)"
    unfolding w2_def by (rule getCurrentDBDirName_well [OF plain well(1)]) (use cur in \<open>simp_all add: w1_def\<close>)
  have w2: "tree w2 = tree w" "commander w2 = commander w" "wfMem w2 = wfMem w"
    by (simp_all add: w2_def w1_def wfMem_def)
  have "\<not> isDirAt (tree w) (curFile dir)" using cur by (simp add: isDirAt_def)
  with fill_returns [OF E well names refl, of w2 r kvs i] tree fresh wf r i w2
  obtain w3 where "andThen (createDB E (dir @ ''/'' @ newDbName E (calls w))) (\<lambda>db.
          andThen (loadBatch (rocksLib E) r) (\<lambda>wb.
          andThen (derefDb db (\<lambda>rdb h. dbWrite E h (rdb_wo rdb) wb)) (\<lambda>_.
          andThen (makeCurrent E dir (dir @ ''/'' @ newDbName E (calls w))) (\<lambda>_.
          finishRecovery E db (dir @ ''/'' @ e))))) w2 = (Ok (), w3)" by auto
  then show ?thesis
    using nc by (simp only: RecoverFromSnapshot_alt andThen_apply getCommander_def dir [symmetric] Let_def if_False simp_thms
        getNewRandomDBDirName_plain [OF plain] w1_def [symmetric] get prod.case outcome.case)
      (rule exI, rule refl)
qed

end

section \<open>Properties\<close>

text \<open>
  C4. Installing a snapshot is all or nothing. Whatever the stream holds, whatever call of the
  operating system or the library fails, and wherever the process dies, \<^verbatim>\<open>RecoverFromSnapshot\<close>
  leaves a data directory whose \<^verbatim>\<open>current\<close> file names the old database with its old contents, or
  the new database with exactly the pairs of the stream; it is the latter when it returns, and
  then the replica serves the new contents, the index in memory is the one stored and did
  not go back, and the old directory is gone.
\<close>

theorem recover_all_or_nothing:
  assumes "rocks (rocksLib E) contents ops items rest snapped"
    and "dir = getNodeDBDirName (clusterID (commander w)) (nodeID (commander w))"
    and "installed contents (tree w) dir e m" and "plainElem e" and "e \<noteq> updatingDBFilename"
    and "map_of (tree w) (dir @ ''/'' @ newDbName E (calls w)) = None" and "wfMem w"
    and "RecoverFromSnapshot E r w = (x, w')"
  shows "installed contents (tree w') dir e m \<and> x \<noteq> Ok () \<or>
    (\<exists>kvs. decodeSnapshot r = Loaded kvs \<and> installed contents (tree w') dir (newDbName E (calls w)) (map_of (rev kvs))
      \<and> (x = Ok () \<longrightarrow> (\<exists>s. liveState w' = Some s \<and> contents s = map_of (rev kvs)
           \<and> storedIndex (contents s) = Inr (lastApplied (commander w'))
           \<and> lastApplied (commander w) \<le> lastApplied (commander w')
           \<and> map_of (tree w') (dir @ ''/'' @ e) = None)))"
  using rocks.RecoverFromSnapshot_effect [OF assms(1) refl assms(2-8)] by (auto simp: isOk_def)

lemma exampleWorld_dir [simp]:
  "getNodeDBDirName (clusterID (commander (exampleWorld s i))) (nodeID (commander (exampleWorld s i))) = exampleDir"
proof -
  have "dec 1 = ''1''" by code_simp
  then show ?thesis
    by (simp add: getNodeDBDirName_path exampleWorld_def NewCommander_def exampleDir_def testDBDirName_def)
qed

lemma exampleWorld_installed: "installed map_of (tree (exampleWorld s i)) exampleDir ''1_1'' (map_of s)"
  by (simp add: installed_def exampleWorld_def exampleDir_def currentDBFilename_def)

lemma exampleWorld_wf [simp]: "wfMem (exampleWorld s i)"
  by (simp add: wfMem_def exampleWorld_def NewCommander_def)

lemma exampleEnv_newDbName: "newDbName (exampleEnv f) n = ''7_9''"
proof -
  have "dec 7 = ''7''" "dec 9 = ''9''" by code_simp+
  then show ?thesis by (simp add: newDbName_def exampleEnv_def decInt_def)
qed

lemma exampleWorld_fresh: "map_of (tree (exampleWorld s i)) (exampleDir @ ''/'' @ ''7_9'') = None"
  by (simp add: exampleWorld_def exampleDir_def currentDBFilename_def)

theorem recover_all_or_nothing_witness:
  "let E = exampleEnv (\<lambda>n. if n = 12 then Kill 0 else NoFault);
       r = \<lparr>rd_data = encodeSnapshot [(''k'', ''v'')], rd_end = EOF\<rparr>;
       w' = snd (RecoverFromSnapshot E r (exampleWorld [(''a'', ''b'')] 0))
   in installed map_of (tree w') exampleDir ''1_1'' (map_of [(''a'', ''b'')])
      \<or> (\<exists>kvs. decodeSnapshot r = Loaded kvs \<and> installed map_of (tree w') exampleDir ''7_9'' (map_of (rev kvs)))"
proof -
  let ?E = "exampleEnv (\<lambda>n. if n = 12 then Kill 0 else NoFault)" and ?w = "exampleWorld [(''a'', ''b'')] 0"
  have lib: "rocks (rocksLib ?E) map_of (\<lambda>b. b) fst snd map_of" by (simp add: refRocks_laws)
  have e: "plainElem ''1_1''" "''1_1'' \<noteq> updatingDBFilename" by (simp_all add: plainElem_def updatingDBFilename_def)
  have fresh: "map_of (tree ?w) (exampleDir @ ''/'' @ newDbName ?E (calls ?w)) = None"
    unfolding exampleEnv_newDbName by (rule exampleWorld_fresh)
  from recover_all_or_nothing [OF lib exampleWorld_dir [symmetric] exampleWorld_installed e fresh exampleWorld_wf
      prod.collapse [symmetric]]
  show ?thesis unfolding Let_def exampleEnv_newDbName by blast
qed

text \<open>
  A replica finds what it had. When the \<^verbatim>\<open>current\<close> file names a database of the node's
  directory, \<^verbatim>\<open>Open\<close> keeps the file and the contents of the database, whatever fails and
  wherever the process dies; when it returns, the replica serves exactly these contents and
  the index it returns is the one stored in the database.
\<close>

theorem open_recovers:
  assumes "rocks (rocksLib E) contents ops items rest snapped"
    and "dir = getNodeDBDirName (clusterID (commander w)) (nodeID (commander w))"
    and "plainTree (tree w)" and "installed contents (tree w) dir e m" and "plainElem e" and "e \<noteq> updatingDBFilename"
    and "Open E w = (x, w')"
  shows "installed contents (tree w') dir e m
    \<and> (\<forall>i. x = Ok i \<longrightarrow> (\<exists>s. liveState w' = Some s \<and> contents s = m \<and> storedIndex m = Inr i
         \<and> lastApplied (commander w') = i))"
  using rocks.Open_effect [OF assms(1) refl assms(2-7)] by blast

theorem open_recovers_witness:
  "installed map_of (tree (snd (Open (exampleEnv (\<lambda>n. if n = 9 then Kill 1 else NoFault)) (exampleWorld [(''a'', ''b'')] 0))))
     exampleDir ''1_1'' (map_of [(''a'', ''b'')])"
proof -
  let ?E = "exampleEnv (\<lambda>n. if n = 9 then Kill 1 else NoFault)" and ?w = "exampleWorld [(''a'', ''b'')] 0"
  have lib: "rocks (rocksLib ?E) map_of (\<lambda>b. b) fst snd map_of" by (simp add: refRocks_laws)
  have e: "plainElem ''1_1''" "''1_1'' \<noteq> updatingDBFilename" by (simp_all add: plainElem_def updatingDBFilename_def)
  have plain: "plainTree (tree ?w)"
    by (simp add: plainTree_def exampleWorld_def exampleDir_def plainPath_def plainElem_def currentDBFilename_def)
  from open_recovers [OF lib exampleWorld_dir [symmetric] plain exampleWorld_installed e prod.collapse [symmetric]]
  show ?thesis by blast
qed

text \<open>
  A snapshot carries the state of a replica to another one. When the stream that one replica
  saved is installed on another and the installation returns, the second replica has the
  contents that the first one had when the snapshot was prepared, and its index.
\<close>

theorem snapshot_transfer:
  fixes E1 :: "('s1, 'b1, 'i1, 'n1) env" and E2 :: "('s2, 'b2, 'i2, 'n2) env"
  assumes "rocks_reliable (rocksLib E1) contents1 ops1 items1 rest1 snapped1"
    and "rocks (rocksLib E2) contents2 ops2 items2 rest2 snapped2"
    and "accepting w" and "liveState w = Some s" and "validContents (contents1 s)" and "savable (pairs (contents1 s))"
    and "PrepareSnapshot E1 w = (Ok ctx, w1)" and "reliableWriter wr" and "wr_data wr = []"
    and "SaveSnapshot E1 ctx wr w1 = (Ok (wr', None), w2)"
    and "dir = getNodeDBDirName (clusterID (commander v)) (nodeID (commander v))"
    and "installed contents2 (tree v) dir e m" and "plainElem e" and "e \<noteq> updatingDBFilename"
    and "map_of (tree v) (dir @ ''/'' @ newDbName E2 (calls v)) = None" and "wfMem v"
    and "RecoverFromSnapshot E2 \<lparr>rd_data = wr_data wr', rd_end = EOF\<rparr> v = (Ok (), v')"
  shows "\<exists>s'. liveState v' = Some s' \<and> contents2 s' = contents1 s
    \<and> storedIndex (contents1 s) = Inr (lastApplied (commander v'))"
proof -
  note r1 = rocks_reliable.axioms(1) [OF assms(1)]
  note fin = rocks.finite_contents [OF r1, of s]
  obtain r db d where live: "live w = Some (r, db, d, s)" using assms(4) by (rule liveState_E)
  obtain p n where p: "cmd_db (commander w) = Some p" and n: "snapped1 n = contents1 s"
    and ctx: "ctx = \<lparr>ctx_db = Some p, ctx_snapshot = \<lparr>Snapshot_c = Some n\<rparr>\<rparr>" and w1: "w1 = w"
    using rocks.PrepareSnapshot_live [OF r1 refl assms(3) live] assms(7) by auto
  have at: "liveAt w p = Some (r, db, d, s)" using live p by (simp add: live_def)
  have "wr_data wr' = encodeSnapshot (pairs (contents1 s))"
    using rocks_reliable.saveToWriter_exact [OF assms(1) refl at assms(8), of n] assms(9,10) n
    by (auto simp: ctx w1 rocks.SaveSnapshot_live [OF r1 assms(3)])
  then have "decodeSnapshot \<lparr>rd_data = wr_data wr', rd_end = EOF\<rparr> = Loaded (pairs (contents1 s))"
    using decodeSnapshot_encode [OF validPairs_pairs [OF fin assms(5)] assms(6), of "[]"] by simp
  moreover have "map_of (rev (pairs (contents1 s))) = contents1 s"
    using fin by (simp add: map_of_rev_distinct map_of_pairs)
  ultimately show ?thesis
    using rocks.RecoverFromSnapshot_effect [OF assms(2) refl assms(11-17)] by auto
qed

lemma libraryWell_refRocks: "libraryWell refRocks"
  by (simp add: libraryWell_def refRocks_def)

lemma faultless_exampleEnv: "faultless (exampleEnv (\<lambda>_. NoFault))"
  by (simp add: faultless_def exampleEnv_def)

lemma exampleWorld_tree: "isDirAt (tree (exampleWorld s i)) exampleDir" "\<not> isDirAt (tree (exampleWorld s i)) (updFile exampleDir)"
  by (simp_all add: isDirAt_def exampleWorld_def exampleDir_def currentDBFilename_def updatingDBFilename_def)

theorem snapshot_transfer_witness:
  "\<exists>(v' :: (refDb, refDb) world) s'. liveState v' = Some s' \<and> map_of s' = map_of [(''k'', ''v'')]"
proof -
  let ?E = "exampleEnv (\<lambda>_. NoFault)" and ?s = "[(''k'', ''v'')]"
  let ?w = "exampleWorld ?s 0" and ?v = "exampleWorld [] 0"
  have lib: "rocks_reliable (rocksLib ?E) map_of (\<lambda>b. b) fst snd map_of" by (simp add: refLib.rocks_reliable_axioms)
  note lib' = rocks_reliable.axioms(1) [OF lib]
  have sv: "validContents (map_of ?s)" "savable (pairs (map_of ?s))"
    unfolding pairs_single by (simp_all add: validContents_def savable_def)
  have rel: "reliableWriter hashWriter" "wr_data hashWriter = []" by (simp_all add: reliableWriter_def hashWriter_def)
  obtain r db where live: "live ?w = Some (r, db, exampleDir @ ''/'' @ ''1_1'', ?s)" using live_exampleWorld by blast
  obtain p n where p: "cmd_db (commander ?w) = Some p" and n: "map_of n = map_of ?s"
    and prep: "PrepareSnapshot ?E ?w = (Ok \<lparr>ctx_db = Some p, ctx_snapshot = \<lparr>Snapshot_c = Some n\<rparr>\<rparr>, ?w)"
    using rocks.PrepareSnapshot_live [OF lib' refl accepting_exampleWorld(1) live] by blast
  have at: "liveAt ?w p = Some (r, db, exampleDir @ ''/'' @ ''1_1'', ?s)" using live p by (simp add: live_def)
  obtain wr' k where save: "SaveSnapshot ?E \<lparr>ctx_db = Some p, ctx_snapshot = \<lparr>Snapshot_c = Some n\<rparr>\<rparr> hashWriter ?w
      = (Ok (wr', None), ?w\<lparr>calls := k\<rparr>)" and data: "wr_data wr' = encodeSnapshot ?s"
    using rocks_reliable.saveToWriter_exact [OF lib refl at rel(1), of n] n rel(2)
    by (auto simp: rocks.SaveSnapshot_live [OF lib' accepting_exampleWorld(1)] pairs_single [of "''k''" "''v''", simplified])
  have e: "plainElem ''1_1''" "''1_1'' \<noteq> updatingDBFilename" by (simp_all add: plainElem_def updatingDBFilename_def)
  have fresh: "map_of (tree ?v) (exampleDir @ ''/'' @ newDbName ?E (calls ?v)) = None"
    unfolding exampleEnv_newDbName by (rule exampleWorld_fresh)
  have dec: "decodeSnapshot \<lparr>rd_data = wr_data wr', rd_end = EOF\<rparr> = Loaded ?s"
    using decodeSnapshot_encode [of ?s "[]" EOF] sv(2) unfolding pairs_single data by (simp add: validPairs_def)
  have idx: "storedIndex (map_of (rev ?s)) = Inr 0" by (simp add: storedIndex_def appliedIndexKey_def)
  obtain v' where rec: "RecoverFromSnapshot ?E \<lparr>rd_data = wr_data wr', rd_end = EOF\<rparr> ?v = (Ok (), v')"
    using rocks.RecoverFromSnapshot_returns [OF lib' refl faultless_exampleEnv _ exampleWorld_dir [symmetric] exampleWorld_installed e
        exampleWorld_tree fresh exampleWorld_wf accepting_exampleWorld(2) dec idx] libraryWell_refRocks by auto
  from snapshot_transfer [OF lib lib' accepting_exampleWorld(1) liveState_exampleWorld sv prep rel save exampleWorld_dir [symmetric]
      exampleWorld_installed e fresh exampleWorld_wf rec] show ?thesis by blast
qed

text \<open>
  C30. A recovery returns. When no call fails and the library reports no error, a stream that
  holds a complete snapshot whose index is not behind the replica is installed.
\<close>

theorem recover_returns:
  assumes "rocks (rocksLib E) contents ops items rest snapped" and "faultless E" and "libraryWell (rocksLib E)"
    and "dir = getNodeDBDirName (clusterID (commander w)) (nodeID (commander w))"
    and "installed contents (tree w) dir e m" and "plainElem e" and "e \<noteq> updatingDBFilename"
    and "isDirAt (tree w) dir" and "\<not> isDirAt (tree w) (updFile dir)"
    and "map_of (tree w) (dir @ ''/'' @ newDbName E (calls w)) = None" and "wfMem w" and "\<not> cmd_closed (commander w)"
    and "decodeSnapshot r = Loaded kvs" and "storedIndex (map_of (rev kvs)) = Inr i" and "lastApplied (commander w) \<le> i"
  shows "\<exists>w'. RecoverFromSnapshot E r w = (Ok (), w')"
  using rocks.RecoverFromSnapshot_returns [OF assms(1) refl assms(2-15)] .

theorem recover_returns_witness:
  "\<exists>w'. RecoverFromSnapshot (exampleEnv (\<lambda>_. NoFault)) \<lparr>rd_data = encodeSnapshot [], rd_end = EOF\<rparr> (exampleWorld [] 0) = (Ok (), w')"
proof -
  let ?E = "exampleEnv (\<lambda>_. NoFault)"
  have lib: "rocks (rocksLib ?E) map_of (\<lambda>b. b) fst snd map_of" by (simp add: refRocks_laws)
  have e: "plainElem ''1_1''" "''1_1'' \<noteq> updatingDBFilename" by (simp_all add: plainElem_def updatingDBFilename_def)
  have fresh: "map_of (tree (exampleWorld [] 0)) (exampleDir @ ''/'' @ newDbName ?E (calls (exampleWorld [] 0))) = None"
    unfolding exampleEnv_newDbName by (rule exampleWorld_fresh)
  have dec: "decodeSnapshot \<lparr>rd_data = encodeSnapshot [], rd_end = EOF\<rparr> = Loaded []"
    using decodeSnapshot_encode [of "[]" "[]" EOF] by (simp add: validPairs_def savable_def)
  have idx: "storedIndex (map_of (rev [])) = Inr 0" by (simp add: storedIndex_def)
  show ?thesis
    using recover_returns [OF lib faultless_exampleEnv _ exampleWorld_dir [symmetric] exampleWorld_installed e
        exampleWorld_tree fresh exampleWorld_wf accepting_exampleWorld(2) dec idx] libraryWell_refRocks by simp
qed

end
