(* ===== verification/Commander_Life.thy ===== *)
theory Commander_Life
  imports Commander_Recovery
begin

text \<open>
  The life of a replica over its restarts. A process opens the data directory, applies updates,
  answers queries, installs snapshots and closes, in any order; it may be killed in every call
  and is started again later. What is on the disk between two steps is always one current
  database, and its contents is the one that the finished updates and snapshots leave.
\<close>

section \<open>What the operations leave alone\<close>

lemma keeps_deref [keeps_intros]: "(\<And>r. keeps P (f r)) \<Longrightarrow> keeps P (deref p f)"
  by (auto simp: deref_def keeps_def split: option.splits)

lemma keeps_derefDb [keeps_intros]: "(\<And>r db. keeps P (f r db)) \<Longrightarrow> keeps P (derefDb p f)"
  unfolding derefDb_def by (intro keeps_intros)

lemma keeps_noPtr [keeps_intros]: "(\<And>q. keeps P (f q)) \<Longrightarrow> keeps P (noPtr p f)"
  unfolding noPtr_def by (intro keeps_intros)

lemma keeps_loadDb [keeps_intros]: "keeps P loadDb"
  by (simp add: loadDb_def keeps_def)

lemma keeps_getCommander [keeps_intros]: "keeps P getCommander"
  by (simp add: getCommander_def keeps_def)

lemma keeps_onDb:
  assumes "\<And>w d s. P w \<Longrightarrow> dbAt (tree w) d = Some s \<Longrightarrow> P (snd (f d s w))"
  shows "keeps P (onDb db f)"
  using assms by (auto simp: onDb_def keeps_def split: option.splits)

lemma keeps_dbGet [keeps_intros]: "stable P \<Longrightarrow> keeps P (dbGet E db opts key)"
  unfolding dbGet_def by (rule keeps_onDb) (auto simp: stable_def split: prod.splits)

lemma keeps_dbNewIterator [keeps_intros]: "stable P \<Longrightarrow> keeps P (dbNewIterator E db opts)"
  unfolding dbNewIterator_def by (rule keeps_onDb) (auto simp: stable_def)

lemma keeps_dbNewSnapshot [keeps_intros]: "keeps P (dbNewSnapshot E db)"
  unfolding dbNewSnapshot_def by (rule keeps_onDb) (simp add: ret_apply)

lemma keeps_runLoop [keeps_intros]: "stable P \<Longrightarrow> keeps P (runLoop f)"
  by (auto simp: runLoop_def stable_def keeps_def split: option.splits sum.splits)

lemma snd_libCall:
  "\<exists>s' n. snd (libCall E dir call w) = w\<lparr>calls := n\<rparr>
     \<or> snd (libCall E dir call w) = w\<lparr>calls := n, tree := AList.update dir (FDb s') (tree w)\<rparr>"
  by (auto simp: libCall_def Let_def split: prod.splits fault.splits option.splits)

lemma keeps_libCall:
  assumes "stable P" and "\<And>w s. P w \<Longrightarrow> P (w\<lparr>tree := AList.update d (FDb s) (tree w)\<rparr>)"
  shows "keeps P (libCall E d call)"
proof
  fix w assume P: "P w"
  then have 1: "P (w\<lparr>calls := n\<rparr>)" for n using assms(1) by (simp add: stable_def)
  have "P (w\<lparr>calls := n, tree := AList.update d (FDb s) (tree w)\<rparr>)" for n s
    using assms(2) [OF 1 [of n], of s] by simp
  with 1 snd_libCall [of E d call w] show "P (snd (libCall E d call w))" by auto
qed

lemma keeps_dbWrite:
  assumes "stable P"
    and "\<And>w d s s'. P w \<Longrightarrow> dbAt (tree w) d = Some s \<Longrightarrow> P (w\<lparr>tree := AList.update d (FDb s') (tree w)\<rparr>)"
  shows "keeps P (dbWrite E db wo batch)"
proof -
  have "P (snd (libCall E d call w))" if P: "P w" and d: "dbAt (tree w) d = Some s" for w d s call
  proof -
    have 1: "P (w\<lparr>calls := n\<rparr>)" for n using assms(1) P by (simp add: stable_def)
    have "P (w\<lparr>calls := n, tree := AList.update d (FDb s) (tree w)\<rparr>)" for n s
      using assms(2) [OF 1 [of n], of d _ s] d by simp
    with 1 snd_libCall [of E d call w] show ?thesis by auto
  qed
  then show ?thesis
    unfolding dbWrite_def by (intro keeps_intros keeps_onDb) auto
qed

subsection \<open>Queries\<close>

text \<open>A query changes nothing but the number of calls.\<close>

definition sameWorld :: "'s tree \<Rightarrow> (nat \<Rightarrow> string option) \<times> nat \<times> (nat \<Rightarrow> 'n rocksdb option) \<times> nat \<times> Commander
    \<Rightarrow> ('s, 'n) world \<Rightarrow> bool" where
  "sameWorld t m w \<longleftrightarrow> tree w = t \<and> memory w = m"

lemma stable_sameWorld [keeps_intros, simp]: "stable (sameWorld t m)"
  by (auto simp: sameWorld_def memory_def)

lemma keeps_saveToWriter [keeps_intros]: "stable P \<Longrightarrow> keeps P (saveToWriter E p ss wr)"
  unfolding saveToWriter_def Let_def by (intro keeps_intros)

lemma keeps_case_prod [keeps_intros]: "(\<And>a b. keeps P (f a b)) \<Longrightarrow> keeps P (case x of (a, b) \<Rightarrow> f a b)"
  by (cases x) simp

lemma keeps_queries:
  assumes "stable P"
  shows "keeps P (Lookup E key)" "keeps P (PrepareSnapshot E)" "keeps P (SaveSnapshot E ctx wr)"
    "keeps P (GetHash E)" "keeps P Sync" "keeps P (queryAppliedIndex E p)"
  using assms
  unfolding Lookup_def scan_def rocksdb_lookup_def PrepareSnapshot_def SaveSnapshot_def GetHash_def Sync_def
    queryAppliedIndex_def Let_def
  by (intro keeps_intros; simp)+

subsection \<open>The memory of a process\<close>

text \<open>
  The pointers and the handles of the structs on the heap were handed out before; the replica
  is the one that the process was started for and neither closed nor aborted.
\<close>

definition heapOk :: "(nat \<Rightarrow> string option) \<times> nat \<times> (nat \<Rightarrow> 'n rocksdb option) \<times> nat \<times> Commander \<Rightarrow> bool" where
  "heapOk = (\<lambda>(opens, nd, heap, np, c). \<forall>p r. heap p = Some r \<longrightarrow> p < np \<and> (\<forall>db. rdb_db r = Some db \<longrightarrow> DB_c db < nd))"

definition serves :: "uint64 \<Rightarrow> uint64 \<Rightarrow> (nat \<Rightarrow> string option) \<times> nat \<times> (nat \<Rightarrow> 'n rocksdb option) \<times> nat \<times> Commander \<Rightarrow> bool" where
  "serves cid nid = (\<lambda>(opens, nd, heap, np, c).
     clusterID c = cid \<and> nodeID c = nid \<and> \<not> cmd_closed c \<and> \<not> cmd_aborted c)"

definition procOk :: "uint64 \<Rightarrow> uint64 \<Rightarrow> ('s, 'n) world \<Rightarrow> bool" where
  "procOk cid nid w \<longleftrightarrow> heapOk (memory w) \<and> serves cid nid (memory w)"

lemma procOk_simps:
  "procOk cid nid w \<longleftrightarrow>
     (\<forall>p r. rheap w p = Some r \<longrightarrow> p < nextPtr w \<and> (\<forall>db. rdb_db r = Some db \<longrightarrow> DB_c db < nextDb w))
     \<and> clusterID (commander w) = cid \<and> nodeID (commander w) = nid
     \<and> \<not> cmd_closed (commander w) \<and> \<not> cmd_aborted (commander w)"
  by (auto simp: procOk_def heapOk_def serves_def memory_def)

lemma stable_procOk [keeps_intros, simp]: "stable (procOk cid nid)"
  by (rule stableI) (simp add: procOk_simps)

lemma keeps_procOk:
  fixes m :: "('s, 'n, 'a) op"
  assumes "\<And>z. keeps (\<lambda>w. disk.more w = z) m" shows "keeps (procOk cid nid) m"
proof
  fix w :: "('s, 'n) world" assume "procOk cid nid w"
  moreover have "memory (snd (m w)) = memory w" by (rule keeps_memory [OF assms prod.collapse [symmetric]])
  ultimately show "procOk cid nid (snd (m w))" by (simp add: procOk_def)
qed

lemma procOk_tree [simp]: "procOk cid nid (w\<lparr>tree := t\<rparr>) = procOk cid nid w"
  by (simp add: procOk_simps)

lemmas keeps_procOk_disk [keeps_intros] = keeps_more_dataDir [THEN keeps_procOk] keeps_more(5) [THEN keeps_procOk]

lemma procOk_wfMem: "procOk cid nid w \<Longrightarrow> live w \<noteq> None \<Longrightarrow> wfMem w"
  by (auto simp: procOk_simps wfMem_def live_def liveAt_def split: option.splits)

lemma keeps_procOk_createDB [keeps_intros]:
  fixes E :: "('s, 'b, 'i, 'n) env"
  shows "keeps (procOk cid nid) (createDB E d)"
proof
  fix w :: "('s, 'n) world" assume P: "procOk cid nid w"
  have lib: "procOk cid nid (snd (libCall E d call w))" for call
    by (rule keepsD [where P = "procOk cid nid", OF keeps_libCall P]) simp_all
  show "procOk cid nid (snd (createDB E d w))"
    using P lib [of "\<lambda>t. c_open (rocksLib E) t (Options_c (SetUseFsync (SetCreateIfMissing NewDefaultOptions True) True)) (dbAt (tree w) d)"]
    by (auto simp: createDB_def OpenDb_def Let_def andThen_apply procOk_simps less_Suc_eq
        split: option.splits node.splits prod.splits outcome.splits)
qed

lemma keeps_procOk_ops [keeps_intros]:
  "keeps (procOk cid nid) (swapDb p)" "keeps (procOk cid nid) (setCommander (\<lambda>d. d\<lparr>lastApplied := i\<rparr>))"
  "keeps (procOk cid nid) (dbWrite E db wo batch)" "keeps (procOk cid nid) (rocksdb_close q)"
proof -
  show "keeps (procOk cid nid) (swapDb p)" "keeps (procOk cid nid) (setCommander (\<lambda>d. d\<lparr>lastApplied := i\<rparr>))"
    by (auto simp: swapDb_def setCommander_def procOk_simps keeps_def)
  show "keeps (procOk cid nid) (dbWrite E db wo batch)" by (rule keeps_dbWrite) simp_all
  show "keeps (procOk cid nid) (rocksdb_close q)"
    by (auto simp: rocksdb_close_def deref_def procOk_simps keeps_def andThen_apply dbClose_def ret_apply
        split: option.splits)
qed

lemma keeps_loadBatch [keeps_intros]: "keeps P (loadBatch C r)"
  by (auto simp: loadBatch_def keeps_def err_apply gopanic_apply ret_apply split: sum.splits loaded.splits)

lemma keeps_openDbDir_more: "keeps (\<lambda>w. disk.more w = z) (openDbDir E dir)"
  unfolding openDbDir_def statDbDir_def by (intro keeps_intros; simp)

lemma keeps_procOk_Open: "keeps (procOk cid nid) (Open E)"
  unfolding Open_def Let_def by (intro keeps_intros keeps_procOk keeps_queries keeps_openDbDir_more stable_procOk)

lemma keeps_procOk_Update: "keeps (procOk cid nid) (Update E ents)"
  unfolding Update_def Let_def by (intro keeps_intros)

lemma keeps_procOk_Recover: "keeps (procOk cid nid) (RecoverFromSnapshot E r)"
  unfolding RecoverFromSnapshot_def Let_def by (intro keeps_intros keeps_queries stable_procOk)

subsection \<open>The names in the tree\<close>

text \<open>The program creates only plain names in the node's directory.\<close>

lemma plainTree_map_of: "plainTree t \<longleftrightarrow> (\<forall>q. map_of t q \<noteq> None \<longrightarrow> plainPath q)"
  by (auto simp: plainTree_def map_of_eq_None_iff)

lemma dbAt_plain: "plainTree t \<Longrightarrow> dbAt t d = Some s \<Longrightarrow> plainPath d"
  by (auto simp: plainTree_map_of dbAt_def split: option.splits)

lemma keeps_plain_Create: "plainPath p \<Longrightarrow> keeps (\<lambda>w. plainTree (tree w)) (Create E p)"
  unfolding Create_def by (intro keeps_change) (auto simp: atomically_def)

lemma plainTree_mapD: "map_of t p = Some y \<Longrightarrow> plainTree t \<Longrightarrow> plainPath p"
  by (auto simp: plainTree_map_of)

lemma keeps_plain_fileWrite: "keeps (\<lambda>w. plainTree (tree w)) (fileWrite E p x)"
  unfolding fileWrite_def
  by (intro keeps_change) (auto intro: plainTree_update plainTree_mapD split: option.splits node.splits)

lemma Split_append: "Split (a @ c # b) c = Split a c @ Split b c"
  by (induction a) (auto split: list.splits)

lemma plainPath_append: "plainPath (a @ CHR ''/'' # b) \<longleftrightarrow> plainPath a \<and> plainPath b"
  by (simp add: plainPath_def Split_append)

lemma plainPath_movePath:
  assumes "plainPath q" and "plainPath b"
  shows "plainPath (movePath a b q)"
proof (cases "below a q")
  case True
  then obtain r where "q = a @ CHR ''/'' # r" by (auto simp: below_def HasPrefix_iff prefix_def)
  with assms show ?thesis by (simp add: movePath_def plainPath_append)
qed (use assms in \<open>simp add: movePath_def\<close>)

lemma plainTree_Rename: "plainTree t \<Longrightarrow> plainPath b \<Longrightarrow> plainTree (map (\<lambda>(q, n). (movePath a b q, n)) t)"
  by (auto simp: plainTree_def plainPath_movePath)

lemma keeps_plain_Rename: "plainPath b \<Longrightarrow> keeps (\<lambda>w. plainTree (tree w)) (Rename E a b)"
  unfolding Rename_def
  by (intro keeps_change) (auto simp: atomically_def dropTree_def plainTree_Rename split: option.splits node.splits)

lemma plainPath_names [simp]: "plainPath dir \<Longrightarrow> plainElem e \<Longrightarrow> plainPath (dir @ CHR ''/'' # e)"
  by (simp add: plainPath_append plainElem_plainPath)

lemma keeps_plain_cleanupLoop: "keeps (\<lambda>w. plainTree (tree w)) (cleanupLoop E dir dbdir files)"
proof (induction files)
  case (Cons f files)
  then show ?case by (cases f) (auto simp: Let_def intro!: keeps_intros)
qed (simp add: keeps_ret)

lemma keeps_plain_dataDir:
  assumes "plainPath dir"
  shows "keeps (\<lambda>w. plainTree (tree w)) (saveCurrentDBDirName E dir dbdir)"
    and "keeps (\<lambda>w. plainTree (tree w)) (replaceCurrentDBFile E dir)"
    and "keeps (\<lambda>w. plainTree (tree w)) (cleanupNodeDataDir E dir)"
  using assms unfolding saveCurrentDBDirName_def replaceCurrentDBFile_def cleanupNodeDataDir_def Let_def
  by (intro keeps_intros keeps_plain_Create keeps_plain_fileWrite keeps_plain_Rename keeps_plain_cleanupLoop; simp)+

lemma keeps_plain_createDB:
  assumes "plainPath d"
  shows "keeps (\<lambda>w. plainTree (tree w)) (createDB E d)"
proof
  fix w :: "('a, 'b) world" assume P: "plainTree (tree w)"
  have "plainTree (tree (snd (libCall E d call w)))" for call
    by (rule keepsD [where P = "\<lambda>w. plainTree (tree w)", OF keeps_libCall P]) (simp_all add: assms)
  from this [of "\<lambda>t. c_open (rocksLib E) t (Options_c (SetUseFsync (SetCreateIfMissing NewDefaultOptions True) True)) (dbAt (tree w) d)"]
  show "plainTree (tree (snd (createDB E d w)))"
    using P by (auto simp: createDB_def OpenDb_def Let_def andThen_apply
        split: option.splits node.splits prod.splits outcome.splits)
qed

lemma keeps_plain_ops:
  "keeps (\<lambda>w. plainTree (tree w)) (swapDb p)" "keeps (\<lambda>w. plainTree (tree w)) (setCommander f)"
  "keeps (\<lambda>w. plainTree (tree w)) (dbWrite E db wo batch)" "keeps (\<lambda>w. plainTree (tree w)) (rocksdb_close q)"
proof -
  show "keeps (\<lambda>w. plainTree (tree w)) (swapDb p)" "keeps (\<lambda>w. plainTree (tree w)) (setCommander f)"
    by (auto simp: swapDb_def setCommander_def keeps_def)
  show "keeps (\<lambda>w. plainTree (tree w)) (dbWrite E db wo batch)"
    by (rule keeps_dbWrite) (auto intro: plainTree_update dbAt_plain)
  show "keeps (\<lambda>w. plainTree (tree w)) (rocksdb_close q)"
    by (auto simp: rocksdb_close_def deref_def keeps_def andThen_apply dbClose_def ret_apply split: option.splits)
qed

lemma keeps_plain_Update: "keeps (\<lambda>w. plainTree (tree w)) (Update E ents)"
  unfolding Update_def Let_def by (intro keeps_intros keeps_plain_ops)

section \<open>Opening and recovering, with what they keep\<close>

lemma keeps_plain_openDbDir: "plainPath dir \<Longrightarrow> keeps (\<lambda>w. plainTree (tree w)) (openDbDir E dir)"
  unfolding openDbDir_def isNewRun_def statDbDir_def getNewRandomDBDirName_def Let_def
  by (intro keeps_intros keeps_plain_dataDir; simp)

lemma Recover_plain:
  assumes "plainTree (tree w)" and "RecoverFromSnapshot E r w = (x, w')"
  shows "plainTree (tree w')"
proof -
  let ?dir = "getNodeDBDirName (clusterID (commander w)) (nodeID (commander w))"
  note dir = getNodeDBDirName_plain [of "clusterID (commander w)" "nodeID (commander w)"]
  let ?new = "?dir @ ''/'' @ newDbName E (calls w)"
  have new: "plainPath ?new" using dir plainElem_newDbName [of E "calls w"] by simp
  have "keeps (\<lambda>w. plainTree (tree w)) (andThen (getCurrentDBDirName E ?dir) (\<lambda>old.
        andThen (createDB E ?new) (\<lambda>db.
        andThen (loadBatch (rocksLib E) r) (\<lambda>wb.
        andThen (derefDb db (\<lambda>rdb h. dbWrite E h (rdb_wo rdb) wb)) (\<lambda>_.
        andThen (makeCurrent E ?dir ?new) (\<lambda>_.
        finishRecovery E db old))))))"
    by (intro keeps_andThen keeps_plain_createDB keeps_plain_dataDir new dir)
      (intro keeps_intros keeps_plain_ops keeps_queries stable_plainTree)+
  from keepsD [OF this, of "w\<lparr>calls := Suc (Suc (calls w))\<rparr>"] show ?thesis
    using assms by (auto simp: RecoverFromSnapshot_alt andThen_apply getCommander_def gopanic_apply Let_def
        getNewRandomDBDirName_plain [OF dir] split: if_splits)
qed

context rocks
begin

lemma attachDb_plain:
  assumes E: "rocksLib E = C" and run: "attachDb E d w = (x, w')" and "plainPath d" and "plainTree (tree w)"
  shows "plainTree (tree w')"
  using attachDb_effect [OF E run] assms(3,4) by (metis plainTree_map_of)

lemma Open_plain:
  assumes E: "rocksLib E = C" and dir: "dir = getNodeDBDirName (clusterID (commander w)) (nodeID (commander w))"
    and plain: "plainTree (tree w)" and inst: "installed contents (tree w) dir e m"
    and e: "plainElem e" "e \<noteq> updatingDBFilename" and run: "Open E w = (x, w')"
  shows "plainTree (tree w')"
proof -
  have dirp: "plainPath dir" by (simp add: dir getNodeDBDirName_plain)
  have mkplain: "plainTree (tree w1)" if "createNodeDataDir E dir w = (y, w1)" for y w1
    using keepsD [OF createNodeDataDir_plain [OF dirp] plain] that by (metis snd_conv)
  have "andThen (orPanic (createNodeDataDir E dir) ''mkdir'') (\<lambda>_. andThen (openDbDir E dir) (attachDb E)) w = (x, w')"
    using run by (simp add: Open_def andThen_apply getCommander_def dir [symmetric])
  then show ?thesis
  proof (cases rule: andThen_run)
    case (stop x1)
    from stop(1) obtain y where "createNodeDataDir E dir w = (y, w')" by (rule orPanic_run)
    then show ?thesis by (rule mkplain)
  next
    case (go u w1)
    from go(1) obtain y where mk: "createNodeDataDir E dir w = (y, w1)" by (rule orPanic_run)
    have "map_of (tree w1) (dir @ ''/'' @ n) = map_of (tree w) (dir @ ''/'' @ n)" for n
      by (rule keeps_atPath_eq [OF createNodeDataDir_keeps mk])
    then have inst1: "installed contents (tree w1) dir e m" using inst by (simp add: installed_def)
    have od: "plainTree (tree w2)" if "openDbDir E dir w1 = (y, w2)" for y w2
      using keepsD [OF keeps_plain_openDbDir [OF dirp] mkplain [OF mk]] that by (metis snd_conv)
    from go(2) show ?thesis
    proof (cases rule: andThen_run)
      case (stop x1)
      show ?thesis by (rule od [OF stop(1)])
    next
      case (go d w2)
      have "plainPath d" using openDbDir_existing [OF dirp mkplain [OF mk] inst1 e go(1)] dirp e(1) by simp
      then show ?thesis by (rule attachDb_plain [OF E go(2) _ od [OF go(1)]])
    qed
  qed
qed

end

section \<open>The life of a replica\<close>

text \<open>
  A process that starts has an empty memory and a new \<^verbatim>\<open>Commander\<close>; the tree is what the ones
  before have left.
\<close>

definition restart :: "uint64 \<Rightarrow> uint64 \<Rightarrow> ('s, 'n) world \<Rightarrow> ('s, 'n) world" where
  "restart cid nid w = w\<lparr>openDbs := (\<lambda>_. None), nextDb := 0, rheap := (\<lambda>_. None), nextPtr := 0,
     commander := NewCommander cid nid\<rparr>"

text \<open>
  The raft library opens the replica when its process starts, applies committed entries, saves
  and installs snapshots, and passes queries on. It goes on after a query that returned an
  error; any other call that does not return a value ends the replica until the next start. A
  process may also be closed, or killed between two calls; that it is killed in a call is the
  outcome of the call. A state is a world and whether the replica runs in it.
\<close>

datatype event = Boot | Apply "Entry list" | Install Reader | Ask | Stop | Killed

definition survives :: "'a outcome \<Rightarrow> bool" where
  "survives x \<longleftrightarrow> isOk x \<or> (\<exists>e. x = Err e)"

inductive lifeStep :: "('s, 'b, 'i, 'n) env \<Rightarrow> uint64 \<Rightarrow> uint64 \<Rightarrow> ('s, 'n) world \<times> bool \<Rightarrow> event
    \<Rightarrow> ('s, 'n) world \<times> bool \<Rightarrow> bool" for E cid nid where
  boot: "Open E (restart cid nid w) = (x, w') \<Longrightarrow> lifeStep E cid nid (w, False) Boot (w', isOk x)"
| update: "Update E ents w = (x, w') \<Longrightarrow> lifeStep E cid nid (w, True) (Apply ents) (w', isOk x)"
| recover: "map_of (tree w) (getNodeDBDirName cid nid @ ''/'' @ newDbName E (calls w)) = None
    \<Longrightarrow> RecoverFromSnapshot E r w = (x, w') \<Longrightarrow> lifeStep E cid nid (w, True) (Install r) (w', isOk x)"
| lookup: "Lookup E key w = (x, w') \<Longrightarrow> lifeStep E cid nid (w, True) Ask (w', survives x)"
| prepare: "PrepareSnapshot E w = (x, w') \<Longrightarrow> lifeStep E cid nid (w, True) Ask (w', survives x)"
| save: "SaveSnapshot E ctx wr w = (x, w') \<Longrightarrow> lifeStep E cid nid (w, True) Ask (w', survives x)"
| hash: "GetHash E w = (x, w') \<Longrightarrow> lifeStep E cid nid (w, True) Ask (w', survives x)"
| sync: "Sync w = (x, w') \<Longrightarrow> lifeStep E cid nid (w, True) Ask (w', survives x)"
| stop: "Close w = (x, w') \<Longrightarrow> lifeStep E cid nid (w, True) Stop (w', False)"
| killed: "lifeStep E cid nid (w, on) Killed (w, False)"

inductive lifeRun :: "('s, 'b, 'i, 'n) env \<Rightarrow> uint64 \<Rightarrow> uint64 \<Rightarrow> ('s, 'n) world \<times> bool \<Rightarrow> (event \<times> bool) list
    \<Rightarrow> ('s, 'n) world \<times> bool \<Rightarrow> bool" for E cid nid where
  init: "lifeRun E cid nid st [] st"
| step: "lifeRun E cid nid st evs st1 \<Longrightarrow> lifeStep E cid nid st1 ev st2
    \<Longrightarrow> lifeRun E cid nid st (evs @ [(ev, snd st2)]) st2"

text \<open>
  What it means: a map. Updates and installations that are finished change it as they should,
  and those that are not may have changed it in the same way or not at all; nothing else does.
\<close>

fun absStep :: "event \<Rightarrow> bool \<Rightarrow> (bytes \<rightharpoonup> bytes) \<Rightarrow> (bytes \<rightharpoonup> bytes) \<Rightarrow> bool" where
  "absStep (Apply ents) fin m m' \<longleftrightarrow>
     ents \<noteq> [] \<and> list_all validEntry ents \<and> m' = applyEntries ents m \<or> \<not> fin \<and> m' = m"
| "absStep (Install r) fin m m' \<longleftrightarrow>
     (\<exists>kvs. decodeSnapshot r = Loaded kvs \<and> m' = map_of (rev kvs)) \<or> \<not> fin \<and> m' = m"
| "absStep _ fin m m' \<longleftrightarrow> m' = m"

inductive absRun :: "(event \<times> bool) list \<Rightarrow> (bytes \<rightharpoonup> bytes) \<Rightarrow> (bytes \<rightharpoonup> bytes) \<Rightarrow> bool" where
  init: "absRun [] m m"
| step: "absRun evs m m1 \<Longrightarrow> absStep ev fin m1 m2 \<Longrightarrow> absRun (evs @ [(ev, fin)]) m m2"

inductive_simps absRun_Nil: "absRun [] m m'"
inductive_simps absRun_snoc: "absRun (evs @ [x]) m m'"

text \<open>
  The relation of the two: one current database with the contents of the map, and a running
  replica that serves it with the index stored in it.
\<close>

definition lifeInv :: "('s \<Rightarrow> bytes \<rightharpoonup> bytes) \<Rightarrow> uint64 \<Rightarrow> uint64 \<Rightarrow> ('s, 'n) world \<times> bool \<Rightarrow> (bytes \<rightharpoonup> bytes) \<Rightarrow> bool" where
  "lifeInv contents cid nid st m \<longleftrightarrow>
     (let w = fst st; dir = getNodeDBDirName cid nid
      in plainTree (tree w)
         \<and> (\<exists>e. plainElem e \<and> e \<noteq> updatingDBFilename \<and> installed contents (tree w) dir e m
              \<and> (snd st \<longrightarrow> liveDir w = Some (dir @ ''/'' @ e)))
         \<and> (snd st \<longrightarrow> procOk cid nid w
              \<and> (\<exists>s. liveState w = Some s \<and> contents s = m \<and> storedIndex m = Inr (lastApplied (commander w)))))"

lemma live_same:
  assumes "tree w' = tree w" and "memory w' = memory w"
  shows "live w' = live w"
proof -
  have "rheap w' = rheap w" "openDbs w' = openDbs w" "commander w' = commander w"
    using assms(2) by (simp_all add: memory_def)
  moreover from this assms(1) have "liveAt w' p = liveAt w p" for p
    by (simp add: liveAt_def cong: option.case_cong if_cong)
  ultimately show ?thesis by (cases "cmd_db (commander w)") (simp_all add: live_def)
qed

lemma live_node:
  assumes "live w = Some (r, db, dir, s)" shows "map_of (tree w) dir = Some (FDb s)"
proof -
  obtain p where "liveAt w p = Some (r, db, dir, s)" using assms by (rule live_SomeE)
  then have "dbAt (tree w) dir = Some s" by (auto dest: liveAt_SomeD)
  then show ?thesis by (auto simp: dbAt_def split: option.splits node.splits)
qed

lemma lifeInv_same:
  assumes "lifeInv contents cid nid (w, on) m" and "tree w' = tree w" and "on' \<longrightarrow> on \<and> memory w' = memory w"
  shows "lifeInv contents cid nid (w', on') m"
proof (cases on')
  case True
  then have mem: "memory w' = memory w" "on" using assms(3) by simp_all
  note lv = live_same [OF assms(2) mem(1)]
  have "commander w' = commander w" using mem(1) by (simp add: memory_def)
  then show ?thesis
    using assms(1,2) mem lv by (auto simp: lifeInv_def Let_def procOk_def liveState_def liveDir_def)
qed (use assms(1,2) in \<open>auto simp: lifeInv_def Let_def\<close>)

lemma keeps_Close_tree: "keeps (\<lambda>w. tree w = t) Close"
proof -
  have "keeps (\<lambda>w. tree w = t) (rocksdb_close q)" for q
    by (auto simp: rocksdb_close_def deref_def keeps_def andThen_apply dbClose_def ret_apply split: option.splits)
  then show ?thesis
    unfolding Close_def swapDb_def setCommander_def
    by (intro keeps_andThen keeps_case_option keeps_intros) (auto simp: keeps_def)
qed

lemma Update_empty: "accepting w \<Longrightarrow> Update E [] w = (Panic ''index out of range [-1]'', w)"
  by (simp add: Update_def accepting_def getCommander_def loadDb_def andThen_apply gopanic_apply Let_def)

lemma restart_simps [simp]:
  "tree (restart cid nid w) = tree w" "clusterID (commander (restart cid nid w)) = cid"
  "nodeID (commander (restart cid nid w)) = nid" "procOk cid nid (restart cid nid w)"
  by (simp_all add: restart_def NewCommander_def procOk_simps)

context rocks
begin

lemma life_boot:
  assumes E: "rocksLib E = C" and inv: "lifeInv contents cid nid (w, False) m"
    and run: "Open E (restart cid nid w) = (x, w')"
  shows "lifeInv contents cid nid (w', isOk x) m"
proof -
  let ?dir = "getNodeDBDirName cid nid" and ?w = "restart cid nid w"
  obtain e where e: "plainElem e" "e \<noteq> updatingDBFilename" and inst: "installed contents (tree ?w) ?dir e m"
    and plain: "plainTree (tree ?w)" using inv by (auto simp: lifeInv_def Let_def)
  have dir: "?dir = getNodeDBDirName (clusterID (commander ?w)) (nodeID (commander ?w))" by simp
  have "procOk cid nid w'" using keepsD [OF keeps_procOk_Open, of cid nid ?w E] run by simp
  then show ?thesis
    using Open_effect [OF E dir plain inst e run] Open_plain [OF E dir plain inst e run] e
    by (auto simp: lifeInv_def Let_def isOk_def)
qed

lemma life_update:
  assumes E: "rocksLib E = C" and inv: "lifeInv contents cid nid (w, True) m"
    and run: "Update E ents w = (x, w')"
  shows "\<exists>m'. absStep (Apply ents) (isOk x) m m' \<and> lifeInv contents cid nid (w', isOk x) m'"
proof -
  let ?dir = "getNodeDBDirName cid nid"
  obtain e s where e: "plainElem e" "e \<noteq> updatingDBFilename" and inst: "installed contents (tree w) ?dir e m"
    and dir: "liveDir w = Some (?dir @ ''/'' @ e)" and s: "liveState w = Some s" "contents s = m"
    and proc: "procOk cid nid w" and plain: "plainTree (tree w)"
    using inv by (auto simp: lifeInv_def Let_def)
  obtain r db where live: "live w = Some (r, db, ?dir @ ''/'' @ e, s)"
    using s(1) dir by (auto simp: liveState_def liveDir_def)
  have acc: "accepting w" using proc by (simp add: accepting_def procOk_simps)
  show ?thesis
  proof (cases "ents \<noteq> [] \<and> list_all validEntry ents")
    case False
    then have "w' = w \<and> \<not> isOk x"
      using run acc by (cases "ents = []") (auto simp: Update_empty Update_invalid)
    then show ?thesis using inv by (intro exI [of _ m]) (auto intro: lifeInv_same)
  next
    case True
    then obtain s' where s': "live w' = Some (r, db, ?dir @ ''/'' @ e, s')"
        "contents s' = m \<or> contents s' = applyEntries ents m"
      and tr: "\<forall>d. d \<noteq> ?dir @ ''/'' @ e \<longrightarrow> map_of (tree w') d = map_of (tree w) d"
      and ok: "isOk x \<Longrightarrow> contents s' = applyEntries ents m \<and> lastApplied (commander w') = Entry_Index (last ents)"
      using Update_effect [OF E acc live _ _ run] s(2) by (auto simp: isOk_def)
    have "curFile ?dir \<noteq> ?dir @ ''/'' @ e" using inst by (auto simp: installed_def)
    then have "map_of (tree w') (curFile ?dir) = map_of (tree w) (curFile ?dir)" using tr by blast
    moreover have "map_of (tree w') (?dir @ ''/'' @ e) = Some (FDb s')"
      by (rule live_node [OF s'(1)])
    ultimately have "installed contents (tree w') ?dir e (contents s')"
      using inst by (simp add: installed_def)
    moreover have "procOk cid nid w'" using keepsD [OF keeps_procOk_Update proc, of E ents] run by simp
    moreover have "plainTree (tree w')" using keepsD [OF keeps_plain_Update, of w E ents] plain run by simp
    ultimately have "lifeInv contents cid nid (w', isOk x) (contents s')"
      using e s'(1) ok storedIndex_applyEntries [of ents m]
      by (auto simp: lifeInv_def Let_def liveState_def liveDir_def)
    then show ?thesis using s'(2) ok True by (intro exI [of _ "contents s'"]) auto
  qed
qed

lemma life_recover:
  assumes E: "rocksLib E = C" and inv: "lifeInv contents cid nid (w, True) m"
    and fresh: "map_of (tree w) (getNodeDBDirName cid nid @ ''/'' @ newDbName E (calls w)) = None"
    and run: "RecoverFromSnapshot E r w = (x, w')"
  shows "\<exists>m'. absStep (Install r) (isOk x) m m' \<and> lifeInv contents cid nid (w', isOk x) m'"
proof -
  let ?dir = "getNodeDBDirName cid nid" and ?new = "newDbName E (calls w)"
  obtain e s where e: "plainElem e" "e \<noteq> updatingDBFilename" and inst: "installed contents (tree w) ?dir e m"
    and s: "liveState w = Some s" and proc: "procOk cid nid w" and plain: "plainTree (tree w)"
    using inv by (auto simp: lifeInv_def Let_def)
  have wf: "wfMem w" using procOk_wfMem [OF proc] s by (auto simp: liveState_def)
  have dir: "?dir = getNodeDBDirName (clusterID (commander w)) (nodeID (commander w))"
    using proc by (simp add: procOk_simps)
  have proc': "procOk cid nid w'" using keepsD [OF keeps_procOk_Recover proc, of E r] run by simp
  note plain' = Recover_plain [OF plain run]
  from RecoverFromSnapshot_effect [OF E dir inst e fresh wf run] show ?thesis
  proof (elim disjE conjE exE)
    assume "installed contents (tree w') ?dir e m" "\<not> isOk x"
    then show ?thesis using e plain' by (intro exI [of _ m]) (auto simp: lifeInv_def Let_def)
  next
    fix kvs assume kvs: "decodeSnapshot r = Loaded kvs" "installed contents (tree w') ?dir ?new (map_of (rev kvs))"
      and ok: "isOk x \<longrightarrow> (\<exists>s. liveState w' = Some s \<and> liveDir w' = Some (?dir @ ''/'' @ ?new) \<and> contents s = map_of (rev kvs)
           \<and> storedIndex (contents s) = Inr (lastApplied (commander w'))
           \<and> lastApplied (commander w) \<le> lastApplied (commander w')
           \<and> map_of (tree w') (?dir @ ''/'' @ e) = None)"
    then have "lifeInv contents cid nid (w', isOk x) (map_of (rev kvs))"
      using plain' proc' plainElem_newDbName [of E "calls w"] newDbName_not_file [of E "calls w"]
      by (auto simp: lifeInv_def Let_def)
    then show ?thesis using kvs(1) by (intro exI [of _ "map_of (rev kvs)"]) auto
  qed
qed

text \<open>Every step of a replica is one of the map.\<close>

lemma life_step:
  assumes E: "rocksLib E = C" and step: "lifeStep E cid nid st ev st'" and inv: "lifeInv contents cid nid st m"
  shows "\<exists>m'. absStep ev (snd st') m m' \<and> lifeInv contents cid nid st' m'"
proof -
  have ask: "lifeInv contents cid nid (w', on) m"
    if "keeps (sameWorld (tree w) (memory w)) f" "f w = (x, w')" "st = (w, True)" for f :: "('s, 'n, 'z) op" and w w' x on
  proof (rule lifeInv_same)
    show "lifeInv contents cid nid (w, True) m" using inv that(3) by simp
    show "tree w' = tree w" "on \<longrightarrow> True \<and> memory w' = memory w"
      using keepsD [OF that(1), of w] that(2) by (simp_all add: sameWorld_def)
  qed
  note q = keeps_queries [OF stable_sameWorld]
  from step show ?thesis
  proof (cases rule: lifeStep.cases)
    case boot
    then show ?thesis using life_boot [OF E] inv by auto
  next
    case update
    then show ?thesis using life_update [OF E] inv by simp
  next
    case recover
    then show ?thesis using life_recover [OF E] inv by simp
  next
    case lookup
    then show ?thesis using ask [OF q(1) lookup(4) lookup(1)] by auto
  next
    case prepare
    then show ?thesis using ask [OF q(2) prepare(4) prepare(1)] by auto
  next
    case save
    then show ?thesis using ask [OF q(3) save(4) save(1)] by auto
  next
    case hash
    then show ?thesis using ask [OF q(4) hash(4) hash(1)] by auto
  next
    case sync
    then show ?thesis using ask [OF q(5) sync(4) sync(1)] by auto
  next
    case (stop w x w')
    have "tree w' = tree w" using keepsD [OF keeps_Close_tree, of w "tree w"] stop(4) by simp
    then show ?thesis using lifeInv_same [of contents cid nid w True m w' False] inv stop by auto
  next
    case (killed w on)
    then show ?thesis using lifeInv_same [of contents cid nid w on m w False] inv by auto
  qed
qed

lemma life_run:
  assumes E: "rocksLib E = C" and run: "lifeRun E cid nid st evs st'" and inv: "lifeInv contents cid nid st m"
  shows "\<exists>m'. absRun evs m m' \<and> lifeInv contents cid nid st' m'"
  using run inv
proof (induction rule: lifeRun.induct)
  case (init st)
  then show ?case by (auto intro: absRun.init)
next
  case (step st evs st1 ev st2)
  then obtain m1 where m1: "absRun evs m m1" "lifeInv contents cid nid st1 m1" by auto
  from life_step [OF E step.hyps(2) m1(2)] m1(1) show ?case by (auto intro: absRun.step)
qed

end

section \<open>Starting when nothing fails\<close>

lemma mkdirs_well:
  assumes "faultless E" and "\<forall>d \<in> set ds. isDirAt (tree w) d \<and> d \<noteq> ''''"
  shows "\<exists>n. mkdirs E ds w = (Ok (), w\<lparr>calls := n\<rparr>)"
  using assms(2)
proof (induction ds arbitrary: w)
  case Nil
  then show ?case by (intro exI [of _ "calls w"]) (simp add: ret_apply)
next
  case (Cons d ds)
  then have "Mkdir E d w = (Ok (), w\<lparr>calls := Suc (calls w)\<rparr>)"
    using assms(1) by (auto simp: Mkdir_def change_well isDirAt_def split: option.splits node.splits)
  moreover obtain n where "mkdirs E ds (w\<lparr>calls := Suc (calls w)\<rparr>) = (Ok (), w\<lparr>calls := n\<rparr>)"
    using Cons.IH [of "w\<lparr>calls := Suc (calls w)\<rparr>"] Cons.prems by auto
  ultimately show ?case by (intro exI [of _ n]) (simp add: andThen_apply)
qed

lemma cleanupLoop_well:
  assumes "faultless E" and "plainPath dir" and "\<forall>(name, _) \<in> set files. plainElem name"
  shows "\<exists>w'. cleanupLoop E dir dbdir files w = (Ok (), w')"
  using assms(3)
proof (induction files arbitrary: w)
  case (Cons f files)
  obtain n isDir where f: "f = (n, isDir)" by (cases f)
  with Cons.prems assms(2) have n: "plainElem n" "pathJoin [dir, n] = dir @ ''/'' @ n" by (auto simp: pathJoin_plain)
  obtain w1 where "RemoveAll E (dir @ ''/'' @ n) w = (Ok (), w1)" using RemoveAll_well [OF assms(1) n(1)] by blast
  then show ?case using Cons.IH [of w] Cons.IH [of w1] Cons.prems n(2) by (auto simp: f Let_def andThen_apply)
qed (simp add: ret_apply)

lemma cleanupNodeDataDir_well:
  assumes E: "faultless E" and dir: "plainPath dir" and plain: "plainTree (tree w)"
    and cur: "map_of (tree w) (curFile dir) = Some (FFile (currentContent name))" "name \<noteq> ''''"
    and isdir: "isDirAt (tree w) dir"
  shows "\<exists>w'. cleanupNodeDataDir E dir w = (Ok (), w') \<and> isDirAt (tree w') dir"
proof -
  obtain w1 where rm: "RemoveAll E (updFile dir) w = (Ok (), w1)"
    using RemoveAll_well [OF E, of updatingDBFilename dir] by auto
  have same: "map_of (tree w1) q = map_of (tree w) q" if "q \<noteq> updFile dir" "\<not> below (updFile dir) q" for q
    by (rule RemoveAll_keeps_others [OF rm that])
  have above: "\<not> below (dir @ CHR ''/'' # n) dir" for n
    by (auto simp: below_def HasPrefix_iff dest: prefix_length_le)
  have w1: "map_of (tree w1) (curFile dir) = Some (FFile (currentContent name))" "isDirAt (tree w1) dir"
    using cur(1) isdir same [of "curFile dir"] isDirAt_cong [OF same, of dir] above by simp_all
  have "plainTree (tree w1)" using keepsD [OF keeps_RemoveAll_plain plain] rm by (metis snd_conv)
  then have ents: "\<forall>(name, _) \<in> set (entries dir (tree w1)). plainElem name" using entries_plain by blast
  obtain w2 where loop: "cleanupLoop E dir name (entries dir (tree w1)) (w1\<lparr>calls := calls w1 + 4\<rparr>) = (Ok (), w2)"
    using cleanupLoop_well [OF E dir ents] by blast
  have "cleanupNodeDataDir E dir w = (Ok (), w2)"
    using w1 rm loop by (simp add: cleanupNodeDataDir_def pathJoin_names [OF dir] ignoreErr_def onErr_apply andThen_apply
        getCurrentDBDirName_well [OF dir E w1(1) cur(2)] ReadDir_def query_well [OF E] eval_nat_numeral)
  moreover have "map_of (tree w2) dir = map_of (tree w1) dir"
    using keeps_atPath_eq [OF cleanupLoop_keeps [OF dir ents] loop, of dir] above by simp
  ultimately show ?thesis using isDirAt_cong [of "tree w2" dir "tree w1"] w1(2) by auto
qed

lemma createDB_well_existing:
  assumes "faultless E" and "libraryWell (rocksLib E)" and "isDirAt (tree w) (parentDir d)" and "map_of (tree w) d = Some (FDb s)"
  shows "\<exists>p w'. createDB E d w = (Ok p, w')"
  using assms libCall_well [OF assms(1), of _ w d]
  by (simp add: createDB_def OpenDb_def Let_def andThen_apply libraryWell_def)

context rocks
begin

lemma Open_returns:
  assumes E: "rocksLib E = C" and wellE: "faultless E" "libraryWell C"
    and dir: "dir = getNodeDBDirName (clusterID (commander w)) (nodeID (commander w))"
    and plain: "plainTree (tree w)" and dirs: "\<forall>d \<in> set (dirsTo dir). isDirAt (tree w) d"
    and inst: "installed contents (tree w) dir e m" and e: "plainElem e" "e \<noteq> updatingDBFilename"
    and i: "storedIndex m = Inr i"
  shows "\<exists>w'. Open E w = (Ok i, w')"
proof -
  have dirp: "plainPath dir" by (simp add: dir getNodeDBDirName_plain)
  have "\<forall>d \<in> set (dirsTo dir). isDirAt (tree w) d \<and> d \<noteq> ''''"
    using dirs dirsTo_elems dirp by (fastforce simp: plainPath_def plainElem_def)
  from mkdirs_well [OF wellE(1) this] obtain n where
    mk: "createNodeDataDir E dir w = (Ok (), w\<lparr>calls := n\<rparr>)" by (auto simp: createNodeDataDir_def MkdirAll_def)
  have "length (Split dir CHR ''/'') \<ge> 1" by (simp add: Suc_le_eq)
  then have dirin: "dir \<in> set (dirsTo dir)"
    by (force simp: dirsTo_def Let_def Join_Split image_iff intro!: bexI [of _ "length (Split dir CHR ''/'')"])
  define w1 where "w1 = w\<lparr>calls := Suc n\<rparr>"
  have cur: "map_of (tree w) (curFile dir) = Some (FFile (currentContent (dir @ ''/'' @ e)))"
    using inst by (simp add: installed_def)
  have new: "isNewRun E dir (w\<lparr>calls := n\<rparr>) = (Ok False, w1)"
    using cur by (simp add: isNewRun_def Let_def pathJoin_names [OF dirp] Stat_def query_well [OF wellE(1)] onErr_apply
        andThen_apply ret_apply w1_def)
  obtain w2 where cl: "cleanupNodeDataDir E dir w1 = (Ok (), w2)" and isdir: "isDirAt (tree w2) dir"
    using cleanupNodeDataDir_well [OF wellE(1) dirp, of w1] plain cur dirs dirin by (auto simp: w1_def)
  have same: "map_of (tree w2) q = map_of (tree w) q" if "q = dir @ ''/'' @ e \<or> q = curFile dir" for q
    using cleanupNodeDataDir_frame [OF dirp _ _ refl e _ cl, of q] that plain cur by (auto simp: w1_def)
  obtain s where s: "map_of (tree w2) (dir @ ''/'' @ e) = Some (FDb s)" "contents s = m"
    using inst same by (auto simp: installed_def)
  have get: "getCurrentDBDirName E dir w2 = (Ok (dir @ ''/'' @ e), w2\<lparr>calls := calls w2 + 3\<rparr>)"
    using cur same by (intro getCurrentDBDirName_well [OF dirp wellE(1)]) auto
  define w3 where "w3 = w2\<lparr>calls := Suc (calls w2 + 3)\<rparr>"
  have st: "statDbDir E (dir @ ''/'' @ e) (w2\<lparr>calls := calls w2 + 3\<rparr>) = (Ok (), w3)"
    using s by (simp add: statDbDir_def Stat_def query_well [OF wellE(1)] onErr_apply andThen_apply ret_apply w3_def)
  have od: "openDbDir E dir (w\<lparr>calls := n\<rparr>) = (Ok (dir @ ''/'' @ e), w3)"
    unfolding openDbDir_def by (simp add: andThen_apply new cl get st [simplified] ret_apply)
  have "isDirAt (tree w3) (parentDir (dir @ ''/'' @ e))" "map_of (tree w3) (dir @ ''/'' @ e) = Some (FDb s)"
    using isdir s e(1) parentDir_child [of e dir] by (simp_all add: w3_def plainElem_def)
  then obtain p w4 where cr: "createDB E (dir @ ''/'' @ e) w3 = (Ok p, w4)"
    using createDB_well_existing [OF wellE(1)] wellE(2) E by metis
  obtain r h d s4 where at: "liveAt w4 p = Some (r, h, d, s4)" and s4: "contents s4 = m"
    using createDB_effect [OF E cr] s by (auto simp: found_def dbAt_def w3_def)
  have at5: "liveAt (w4\<lparr>commander := c\<rparr>) p = Some (r, h, d, s4)" for c using at by simp
  have "fst (attachDb E (dir @ ''/'' @ e) w3) = Ok i"
    using queryAppliedIndex_well [OF E at5 wellE(2)] s4 i
    by (simp add: andThen_apply cr [simplified] swapDb_def orPanic_apply setCommander_def ret_apply)
  then show ?thesis
    using mk od by (cases "attachDb E (dir @ ''/'' @ e) w3")
      (simp add: Open_def andThen_apply getCommander_def dir [symmetric] orPanic_apply)
qed

end

section \<open>A current file without its database\<close>

definition dangling :: "'s tree \<Rightarrow> string \<Rightarrow> string \<Rightarrow> bool" where
  "dangling t dir e \<longleftrightarrow> map_of t (curFile dir) = Some (FFile (currentContent (dir @ ''/'' @ e)))
     \<and> map_of t (dir @ ''/'' @ e) = None"

lemma dangling_cong:
  assumes "\<And>q. q = dir @ ''/'' @ e \<or> q = curFile dir \<Longrightarrow> map_of t' q = map_of t q" and "dangling t dir e"
  shows "dangling t' dir e"
  using assms by (simp add: dangling_def)

text \<open>Calls of the system that the process may not survive, but that do not fail.\<close>

definition noFailures :: "'e os_scheme \<Rightarrow> bool" where
  "noFailures E \<longleftrightarrow> (\<forall>n. \<exists>k. faults E n = NoFault \<or> faults E n = Kill k)"

lemma statDbDir_missing:
  assumes "noFailures E" and "map_of (tree w) d = None" and "statDbDir E d w = (x, w')"
  shows "\<not> isOk x"
proof -
  obtain k where "faults E (calls w) = NoFault \<or> faults E (calls w) = Kill k"
    using assms(1) unfolding noFailures_def by blast
  then show ?thesis
    using assms(2,3) by (auto simp: statDbDir_def Stat_def query_def syscall_def onErr_apply andThen_apply gopanic_apply)
qed

lemma openDbDir_dangling:
  assumes E: "noFailures E" and dir: "plainPath dir" and plain: "plainTree (tree w)" and dang: "dangling (tree w) dir e"
    and e: "plainElem e" "e \<noteq> updatingDBFilename" and run: "openDbDir E dir w = (x, w')"
  shows "dangling (tree w') dir e \<and> \<not> isOk x"
proof -
  have cur: "map_of (tree w) (curFile dir) = Some (FFile (currentContent (dir @ ''/'' @ e)))"
    using dang by (simp add: dangling_def)
  from run show ?thesis unfolding openDbDir_def
  proof (cases rule: andThen_run)
    case (stop x1)
    then show ?thesis using isNewRun_tree [OF stop(1)] dang by simp
  next
    case (go new w1)
    have w1: "tree w1 = tree w" "\<not> new" using isNewRun_result [OF dir go(1)] cur by auto
    have run1: "andThen (cleanupNodeDataDir E dir) (\<lambda>_. andThen (getCurrentDBDirName E dir) (\<lambda>dbdir.
        andThen (statDbDir E dbdir) (\<lambda>_. ret dbdir))) w1 = (x, w')"
      using go(2) w1(2) by simp
    have clean: "dangling (tree w2) dir e" if "cleanupNodeDataDir E dir w1 = (y, w2)" for y w2
    proof (rule dangling_cong [OF _ dang])
      fix q assume "q = dir @ ''/'' @ e \<or> q = curFile dir"
      then show "map_of (tree w2) q = map_of (tree w) q"
        using cleanupNodeDataDir_frame [OF dir _ _ refl e _ that, of q] plain cur w1(1) by auto
    qed
    from run1 show ?thesis
    proof (cases rule: andThen_run)
      case (stop x1)
      then show ?thesis using clean [OF stop(1)] by simp
    next
      case (go u w2)
      note c2 = clean [OF go(1)]
      from go(2) show ?thesis
      proof (cases rule: andThen_run)
        case (stop x1)
        have "tree w' = tree w2" by (rule keeps_tree_eq [OF keeps_getCurrentDBDirName stop(1)]) simp
        then show ?thesis using c2 stop(3) by simp
      next
        case (go name w3)
        have name: "name = dir @ ''/'' @ e" "tree w3 = tree w2"
          using getCurrentDBDirName_Ok [OF dir go(1)] c2 by (auto simp: dangling_def)
        obtain y where st: "statDbDir E name w3 = (y, w')" and x: "isOk x \<Longrightarrow> isOk y"
          using go(2) by (cases rule: andThen_run) (auto simp: ret_apply)
        show ?thesis
          using statDbDir_missing [OF E _ st] statDbDir_tree [OF st] name c2 x by (auto simp: dangling_def)
      qed
    qed
  qed
qed

lemma Open_dangling:
  assumes E: "noFailures E" and dir: "dir = getNodeDBDirName (clusterID (commander w)) (nodeID (commander w))"
    and plain: "plainTree (tree w)" and dang: "dangling (tree w) dir e"
    and e: "plainElem e" "e \<noteq> updatingDBFilename" and run: "Open E w = (x, w')"
  shows "dangling (tree w') dir e \<and> \<not> isOk x"
proof -
  have dirp: "plainPath dir" by (simp add: dir getNodeDBDirName_plain)
  have mk: "dangling (tree w1) dir e" "plainTree (tree w1)" if "createNodeDataDir E dir w = (y, w1)" for y w1
  proof -
    have "map_of (tree w1) (dir @ ''/'' @ n) = map_of (tree w) (dir @ ''/'' @ n)" for n
      by (rule keeps_atPath_eq [OF createNodeDataDir_keeps that])
    then show "dangling (tree w1) dir e" using dang by (simp add: dangling_def)
    show "plainTree (tree w1)" using keepsD [OF createNodeDataDir_plain [OF dirp] plain] that by (metis snd_conv)
  qed
  have "andThen (orPanic (createNodeDataDir E dir) ''mkdir'') (\<lambda>_. andThen (openDbDir E dir) (attachDb E)) w = (x, w')"
    using run by (simp add: Open_def andThen_apply getCommander_def dir [symmetric])
  then show ?thesis
  proof (cases rule: andThen_run)
    case (stop x1)
    from stop(1) obtain y where "createNodeDataDir E dir w = (y, w')" by (rule orPanic_run)
    then show ?thesis using mk(1) stop(3) by simp
  next
    case (go u w1)
    from go(1) obtain y where "createNodeDataDir E dir w = (y, w1)" by (rule orPanic_run)
    note mk = mk [OF this]
    from go(2) show ?thesis
    proof (cases rule: andThen_run)
      case (stop x1)
      then show ?thesis using openDbDir_dangling [OF E dirp mk(2,1) e stop(1)] by simp
    next
      case (go d w2)
      then show ?thesis using openDbDir_dangling [OF E dirp mk(2,1) e go(1)] by simp
    qed
  qed
qed

section \<open>An index that does not move forward\<close>

context rocks
begin

lemma Update_stale:
  assumes E: "rocksLib E = C" and acc: "accepting w" and live: "live w = Some (r, db, dir, s)"
    and ents: "list_all validEntry ents" "ents \<noteq> []"
    and well: "faultless E" "libraryWell C"
    and stale: "Entry_Index (last ents) \<le> lastApplied (commander w)"
  shows "\<exists>w' s'. Update E ents w = (Panic ''lastApplied not moving forward'', w')
    \<and> live w' = Some (r, db, dir, s') \<and> contents s' = applyEntries ents (contents s)"
proof -
  obtain b where b: "ops b = map (\<lambda>(k, v). WPut k v) (entryPuts ents)" and run: "Update E ents w =
      (case libCall E dir (\<lambda>t. c_write C t (WriteOptions_c (rdb_wo r)) s b) w of
         (Ok _, w1) \<Rightarrow>
           if Entry_Index (last ents) \<le> lastApplied (commander w1)
           then (Panic ''lastApplied not moving forward'', w1)
           else (Ok (map withResult ents),
                 w1\<lparr>commander := (commander w1)\<lparr>lastApplied := Entry_Index (last ents)\<rparr>\<rparr>)
       | (Err e, w1) \<Rightarrow> (Err e, w1)
       | (Panic p, w1) \<Rightarrow> (Panic p, w1)
       | (Crash, w1) \<Rightarrow> (Crash, w1)
       | (Diverge, w1) \<Rightarrow> (Diverge, w1))"
    using Update_run [OF E acc live ents] by blast
  obtain e s' where c: "c_write C (calls w) (WriteOptions_c (rdb_wo r)) s b = (e, s')"
    by (cases "c_write C (calls w) (WriteOptions_c (rdb_wo r)) s b")
  then have "e = None" using well(2) by (metis libraryWell_def fst_conv)
  then have "contents s' = applyEntries ents (contents s)"
    using write_puts [OF b c] by (simp add: applyEntries_def)
  moreover have "libCall E dir (\<lambda>t. c_write C t (WriteOptions_c (rdb_wo r)) s b) w
      = (Ok (), w\<lparr>calls := Suc (calls w), tree := AList.update dir (FDb s') (tree w)\<rparr>)"
    using c \<open>e = None\<close> by (subst libCall_well [OF well(1)]) simp_all
  ultimately show ?thesis using run stale live_tree_update [OF live] by auto
qed

end

section \<open>Properties\<close>

lemma exampleWorld_plain: "plainTree (tree (exampleWorld s i))"
  by (simp add: plainTree_def exampleWorld_def exampleDir_def plainPath_def plainElem_def currentDBFilename_def)

lemma getNodeDBDirName_example: "getNodeDBDirName 1 1 = exampleDir"
  using exampleWorld_dir by (simp add: exampleWorld_def NewCommander_def)

lemma exampleWorld_dirs: "\<forall>d \<in> set (dirsTo exampleDir). isDirAt (tree (exampleWorld s i)) d"
  by (simp add: dirsTo_def exampleDir_def exampleWorld_def isDirAt_def Let_def upt_rec)

lemma example_elem: "plainElem ''1_1''" "''1_1'' \<noteq> updatingDBFilename"
  by (simp_all add: plainElem_def updatingDBFilename_def)


lemma exampleWorld_off: "lifeInv map_of 1 1 (exampleWorld [] 0, False) Map.empty"
  using example_elem exampleWorld_plain exampleWorld_installed [of "[]" 0]
  by (auto simp: lifeInv_def Let_def getNodeDBDirName_example)

text \<open>A start, an update, a kill: the update that returned is there.\<close>

lemma example_run:
  "\<exists>w1 w2. Open (exampleEnv (\<lambda>_. NoFault)) (restart 1 1 (exampleWorld [] 0)) = (Ok 0, w1)
    \<and> Update (exampleEnv (\<lambda>_. NoFault)) [exampleEntry 1 k v] w1 = (Ok (map withResult [exampleEntry 1 k v]), w2)"
proof -
  let ?E = "exampleEnv (\<lambda>_. NoFault)" and ?w = "exampleWorld [] 0" and ?e = "exampleEntry 1 k v"
  have lib: "rocks (rocksLib ?E) map_of (\<lambda>b. b) fst snd map_of" by (simp add: refRocks_laws)
  have dir: "exampleDir = getNodeDBDirName (clusterID (commander (restart 1 1 ?w))) (nodeID (commander (restart 1 1 ?w)))"
    by (simp add: getNodeDBDirName_example)
  have idx: "storedIndex (map_of []) = Inr 0" by (simp add: storedIndex_def)
  have lw: "libraryWell (rocksLib ?E)" using libraryWell_refRocks by simp
  note tr = restart_simps(1) [of 1 1 ?w]
  obtain w1 where w1: "Open ?E (restart 1 1 ?w) = (Ok 0, w1)"
    using rocks.Open_returns [OF lib refl faultless_exampleEnv lw dir exampleWorld_plain [of "[]" 0, folded tr]
        exampleWorld_dirs [of "[]" 0, folded tr] exampleWorld_installed [of "[]" 0, folded tr] example_elem idx] by blast
  have inv: "lifeInv map_of 1 1 (w1, True) Map.empty"
    using rocks.life_boot [OF lib refl exampleWorld_off w1] by simp
  obtain s where s: "liveState w1 = Some s" and "accepting w1" and la: "lastApplied (commander w1) = 0"
    using inv idx by (auto simp: lifeInv_def Let_def accepting_def procOk_simps)
  then obtain w2 where w2: "Update ?E [?e] w1 = (Ok (map withResult [?e]), w2)"
    using rocks.Update_moves_forward [OF lib refl, of w1 _ _ _ s "[?e]"] libraryWell_refRocks faultless_exampleEnv
    by (auto simp: libraryWell_def faultless_def elim!: liveState_E)
  with w1 show ?thesis by blast
qed


text \<open>
  C29. A replica starts again. When nothing fails, \<^verbatim>\<open>Open\<close> returns the index stored in the
  current database, whatever else the processes before have left in the directory.
\<close>

theorem open_returns:
  assumes "rocks (rocksLib E) contents ops items rest snapped" and "faultless E" and "libraryWell (rocksLib E)"
    and "dir = getNodeDBDirName (clusterID (commander w)) (nodeID (commander w))"
    and "plainTree (tree w)" and "\<forall>d \<in> set (dirsTo dir). isDirAt (tree w) d"
    and "installed contents (tree w) dir e m" and "plainElem e" and "e \<noteq> updatingDBFilename"
    and "storedIndex m = Inr i"
  shows "\<exists>w'. Open E w = (Ok i, w')"
  using rocks.Open_returns [OF assms(1) refl assms(2-10)] .

theorem open_returns_witness:
  "\<exists>w'. Open (exampleEnv (\<lambda>_. NoFault)) (exampleWorld [(appliedIndexKey, ''5'')] 0) = (Ok 5, w')"
proof -
  let ?E = "exampleEnv (\<lambda>_. NoFault)" and ?s = "[(appliedIndexKey, ''5'')]"
  have lib: "rocks (rocksLib ?E) map_of (\<lambda>b. b) fst snd map_of" by (simp add: refRocks_laws)
  have "dec 5 = ''5''" by code_simp
  then have "storedIndex (map_of ?s) = Inr 5" using ParseUint_dec [of 5] by (simp add: storedIndex_def)
  from open_returns [OF lib faultless_exampleEnv _ exampleWorld_dir [symmetric] exampleWorld_plain exampleWorld_dirs
      exampleWorld_installed example_elem this] libraryWell_refRocks show ?thesis by simp
qed

text \<open>
  C33. A node whose first start was cut short never starts again. \<^verbatim>\<open>Open\<close> names the database
  directory in \<^verbatim>\<open>current\<close> before it creates the database; when the file names a directory that
  does not exist, no start returns, and each leaves it so, unless a call of the system fails.
\<close>

theorem dangling_never_opens:
  assumes "noFailures E" and "dir = getNodeDBDirName (clusterID (commander w)) (nodeID (commander w))"
    and "plainTree (tree w)" and "dangling (tree w) dir e" and "plainElem e" and "e \<noteq> updatingDBFilename"
    and "Open E w = (x, w')"
  shows "dangling (tree w') dir e \<and> (\<forall>i. x \<noteq> Ok i)"
  using Open_dangling [OF assms] by (auto simp: isOk_def)

text \<open>A first start that is killed when it opens the new database is such a start.\<close>

definition newWorld :: "(refDb, refDb) world" where
  "newWorld = exampleWorld [] 0\<lparr>tree := [(''dcrontab-data'', FDir), (exampleDir, FDir)]\<rparr>"

lemma query_at: "faults E (calls w) = NoFault \<Longrightarrow> query E f w = (f (tree w), w\<lparr>calls := Suc (calls w)\<rparr>)"
  by (simp add: query_def syscall_def)

lemma change_at:
  "faults E (calls w) = NoFault \<Longrightarrow> change E pre eff w = (case pre (tree w) of
     Some e \<Rightarrow> (Err e, w\<lparr>calls := Suc (calls w)\<rparr>)
   | None \<Rightarrow> (Ok (), w\<lparr>calls := Suc (calls w), tree := eff None (tree w)\<rparr>))"
  by (simp add: change_def syscall_def split: option.splits)

lemma createDB_killed:
  assumes "faults E (calls w) = Kill 0" and "map_of t d = None" and "tree w = t" and "isDirAt t (parentDir d)"
  shows "createDB E d w = (Crash, w\<lparr>calls := Suc (calls w)\<rparr>)"
  using assms by (simp add: createDB_def OpenDb_def Let_def libCall_def andThen_apply split: prod.splits)

lemma newWorld_cut_short:
  "\<exists>w1. Open (exampleEnv (\<lambda>n. if n = 13 then Kill 0 else NoFault)) newWorld = (Crash, w1)
     \<and> dangling (tree w1) exampleDir ''7_9'' \<and> plainTree (tree w1)"
proof -
  let ?E = "exampleEnv (\<lambda>n. if n = 13 then Kill 0 else NoFault)" and ?new = "exampleDir @ ''/7_9''"
  let ?W = "\<lambda>n t. newWorld\<lparr>calls := n, tree := t\<rparr>" and ?t0 = "[(''dcrontab-data'', FDir), (exampleDir, FDir)]"
  define t1 :: "refDb tree" where "t1 = AList.update (updFile exampleDir) (FFile (currentContent ?new)) [(''dcrontab-data'', FDir), (exampleDir, FDir)]"
  define t2 where "t2 = AList.update (curFile exampleDir) (FFile (currentContent ?new)) (dropTree (updFile exampleDir) t1)"
  have w: "newWorld = ?W 0 ?t0" by (simp add: newWorld_def exampleWorld_def)
  have well [simp]: "faults ?E n = (if n = 13 then Kill 0 else NoFault)" "lib_SyncDir ?E n d = None" for n d
    by (simp_all add: exampleEnv_def)
  have dirs: "dirsTo exampleDir = [''dcrontab-data'', exampleDir]"
    by (simp add: dirsTo_def exampleDir_def Let_def upt_rec)
  have par: "parentDir (curFile exampleDir) = exampleDir" "parentDir (updFile exampleDir) = exampleDir"
    "parentDir ?new = exampleDir"
    using parentDir_child [of currentDBFilename exampleDir] parentDir_child [of updatingDBFilename exampleDir]
      parentDir_child [of "''7_9''" exampleDir] by simp_all
  have ne: "exampleDir \<noteq> ''dcrontab-data''" "''dcrontab-data'' \<noteq> exampleDir" "exampleDir \<noteq> ''''"
    "exampleDir @ CHR ''/'' # e \<noteq> ''dcrontab-data''" "''dcrontab-data'' \<noteq> exampleDir @ CHR ''/'' # e" for e
    by (simp_all add: exampleDir_def)
  have 1: "createNodeDataDir ?E exampleDir (?W 0 ?t0) = (Ok (), ?W 2 ?t0)"
    by (simp add: createNodeDataDir_def MkdirAll_def dirs Mkdir_def change_at andThen_apply ret_apply isDirAt_def ne)
  have 2: "isNewRun ?E exampleDir (?W 2 ?t0) = (Ok True, ?W 3 ?t0)"
    by (simp add: isNewRun_def Let_def Stat_def query_at onErr_apply andThen_apply ret_apply ne)
  have 3: "getNewRandomDBDirName ?E exampleDir (?W 3 ?t0) = (Ok ?new, ?W 5 ?t0)"
    by (simp add: getNewRandomDBDirName_plain [OF plainPath_exampleDir] exampleEnv_newDbName)
  have 4: "saveCurrentDBDirName ?E exampleDir ?new (?W 5 ?t0) = (Ok (), ?W 11 t1)"
    by (simp add: saveCurrentDBDirName_def Let_def Create_def fileWrite_def fileSync_def fileClose_def SyncDir_def
        change_at query_at andThen_apply orPanic_apply withDefer_def ret_apply isDirAt_def par [simplified] ne currentContent_def update_conv t1_def)
  have up: "map_of t1 (updFile exampleDir) = Some (FFile (currentContent ?new))"
    "isDirAt t1 exampleDir" "\<not> isDirAt t1 (curFile exampleDir)" by (simp_all add: t1_def update_conv isDirAt_def ne)
  have 5: "replaceCurrentDBFile ?E exampleDir (?W 11 t1) = (Ok (), ?W 13 t2)"
    using up by (simp add: replaceCurrentDBFile_def Let_def Rename_def SyncDir_def change_at query_at andThen_apply
        par [simplified] t2_def)
  have n: "''7_9'' \<noteq> currentDBFilename" by (simp add: currentDBFilename_def)
  have none: "map_of t2 ?new = None" by (simp add: t1_def t2_def update_conv map_of_dropTree ne n)
  have dirAt: "isDirAt t2 (parentDir ?new)" unfolding par by (simp add: t1_def t2_def isDirAt_def update_conv map_of_dropTree ne below_def HasPrefix_def)
  have 6: "createDB ?E ?new (?W 13 t2) = (Crash, ?W 14 t2)"
    using createDB_killed [OF _ none, of ?E "?W 13 t2"] dirAt by simp
  have nd: "getNodeDBDirName (clusterID (commander newWorld)) (nodeID (commander newWorld)) = exampleDir"
    by (simp add: newWorld_def)
  have "Open ?E newWorld = Open ?E (?W 0 ?t0)" by (subst w) (rule refl)
  then have "Open ?E newWorld = (Crash, ?W 14 t2)"
    by (simp add: Open_def openDbDir_def getCommander_def nd andThen_apply orPanic_apply ret_apply
        1 [simplified] 2 [simplified] 3 [simplified] 4 [simplified] 5 [simplified] 6 [simplified])
  moreover have "dangling t2 exampleDir ''7_9''" using none by (simp add: dangling_def t2_def update_conv)
  moreover have "plainPath ''dcrontab-data''" by (simp add: plainPath_def plainElem_def)
  then have "plainTree t2" by (simp add: t1_def t2_def dropTree_def plainTree_def)
  ultimately show ?thesis by auto
qed

theorem dangling_never_opens_witness:
  "let w1 = snd (Open (exampleEnv (\<lambda>n. if n = 13 then Kill 0 else NoFault)) newWorld);
       run2 = Open (exampleEnv (\<lambda>_. NoFault)) (restart 1 1 w1)
   in dangling (tree w1) exampleDir ''7_9'' \<and> dangling (tree (snd run2)) exampleDir ''7_9'' \<and> (\<nexists>i. fst run2 = Ok i)"
proof -
  obtain w1 where w1: "Open (exampleEnv (\<lambda>n. if n = 13 then Kill 0 else NoFault)) newWorld = (Crash, w1)"
    "dangling (tree w1) exampleDir ''7_9''" "plainTree (tree w1)" using newWorld_cut_short by blast
  have E: "noFailures (exampleEnv (\<lambda>_. NoFault))" by (simp add: noFailures_def exampleEnv_def)
  have dir: "exampleDir = getNodeDBDirName (clusterID (commander (restart 1 1 w1))) (nodeID (commander (restart 1 1 w1)))"
    by (simp add: getNodeDBDirName_example)
  have e: "plainElem ''7_9''" "''7_9'' \<noteq> updatingDBFilename" by (simp_all add: plainElem_def updatingDBFilename_def)
  note tr = restart_simps(1) [of 1 1 w1]
  from dangling_never_opens [OF E dir w1(3) [folded tr] w1(2) [folded tr] e prod.collapse [symmetric]]
  show ?thesis using w1 by (simp add: Let_def)
qed

text \<open>
  C36. An update whose index does not move forward is refused too late: \<^verbatim>\<open>Update\<close> panics, but
  it has stored the entries and the old index before, and the next start reads them.
\<close>

theorem stale_update_is_stored:
  assumes "rocks (rocksLib E) contents ops items rest snapped" and "faultless E" and "libraryWell (rocksLib E)"
    and "accepting w" and "liveState w = Some s" and "list_all validEntry ents" and "ents \<noteq> []"
    and "Entry_Index (last ents) \<le> lastApplied (commander w)"
  shows "\<exists>w' s'. Update E ents w = (Panic ''lastApplied not moving forward'', w') \<and> liveState w' = Some s'
    \<and> contents s' = applyEntries ents (contents s) \<and> storedIndex (contents s') = Inr (Entry_Index (last ents))"
proof -
  obtain r db dir where "live w = Some (r, db, dir, s)" using assms(5) by (rule liveState_E)
  from rocks.Update_stale [OF assms(1) refl assms(4) this assms(6,7,2,3,8)] show ?thesis
    by (auto simp: liveState_def storedIndex_applyEntries)
qed

theorem stale_update_is_stored_witness:
  "\<exists>w' s'. Update (exampleEnv (\<lambda>_. NoFault)) [exampleEntry 3 ''k'' ''old''] (exampleWorld [] 5)
      = (Panic ''lastApplied not moving forward'', w')
    \<and> liveState w' = Some s' \<and> storedIndex (map_of s') = Inr 3"
proof -
  let ?E = "exampleEnv (\<lambda>_. NoFault)" and ?w = "exampleWorld [] 5" and ?e = "exampleEntry 3 ''k'' ''old''"
  have lib: "rocks (rocksLib ?E) map_of (\<lambda>b. b) fst snd map_of" by (simp add: refRocks_laws)
  from stale_update_is_stored [OF lib faultless_exampleEnv _ accepting_exampleWorld(1) [of "[]" 5] liveState_exampleWorld, of "[?e]"]
  show ?thesis using libraryWell_refRocks by auto
qed

end
