(* ===== verification/First_Start.thy ===== *)
theory First_Start
  imports Commander_Life
begin

text \<open>
  The first start of a replica, on a directory in which no database was ever named. \<^verbatim>\<open>Open\<close>
  names a new database in the \<^verbatim>\<open>current\<close> file before it creates it, so that a first start that
  is cut short may leave a name without a database. With this theory a replica can be followed
  from an empty disk on.
\<close>

section \<open>A directory without a database\<close>

definition blank :: "'s tree \<Rightarrow> string \<Rightarrow> bool" where
  "blank t dir \<longleftrightarrow> map_of t (curFile dir) = None
     \<and> (\<forall>e. plainElem e \<longrightarrow> e \<noteq> updatingDBFilename \<longrightarrow> map_of t (dir @ ''/'' @ e) = None)"

lemma blank_cong:
  assumes "\<And>e. plainElem e \<Longrightarrow> e \<noteq> updatingDBFilename \<Longrightarrow> map_of t' (dir @ ''/'' @ e) = map_of t (dir @ ''/'' @ e)"
    and "blank t dir"
  shows "blank t' dir"
  using assms assms(1) [OF plainElem_names(1)] by (simp add: blank_def)

text \<open>A clean-up without a \<^verbatim>\<open>current\<close> file removes nothing but the temporary one, and does not return.\<close>

lemma cleanup_blank:
  assumes dir: "plainPath dir" and cur: "map_of (tree w) (curFile dir) = None"
    and run: "cleanupNodeDataDir E dir w = (x, w')"
  shows "\<not> isOk x \<and> (\<forall>e. plainElem e \<longrightarrow> e \<noteq> updatingDBFilename
    \<longrightarrow> map_of (tree w') (dir @ ''/'' @ e) = map_of (tree w) (dir @ ''/'' @ e))"
proof -
  obtain r1 w1 where rm: "ignoreErr (RemoveAll E (updFile dir)) w = (r1, w1)"
    by (cases "ignoreErr (RemoveAll E (updFile dir)) w")
  have same: "map_of (tree w1) (dir @ ''/'' @ e) = map_of (tree w) (dir @ ''/'' @ e)"
    if "plainElem e" "e \<noteq> updatingDBFilename" for e
    using that by (intro keeps_atPath_eq [OF keeps_ignoreErr [OF keeps_RemoveAll_other] rm]) (auto simp: plainElem_def)
  have cur1: "map_of (tree w1) (curFile dir) = None" using same [of currentDBFilename] cur by simp
  show ?thesis
  proof (cases "isOk r1")
    case True
    obtain r2 w2 where get: "getCurrentDBDirName E dir w1 = (r2, w2)" by (cases "getCurrentDBDirName E dir w1")
    have "tree w2 = tree w1" by (rule keeps_tree_eq [OF keeps_getCurrentDBDirName get]) simp
    moreover have "\<not> isOk r2" using getCurrentDBDirName_Ok [OF dir] get cur1 by (fastforce simp: isOk_def)
    ultimately show ?thesis
      using run rm get True same dir by (cases r1; cases r2) (auto simp: cleanupNodeDataDir_def andThen_apply isOk_def)
  next
    case False
    then show ?thesis
      using run rm same dir by (cases r1) (auto simp: cleanupNodeDataDir_def andThen_apply isOk_def)
  qed
qed

lemma makeCurrent_others:
  assumes "plainPath dir" and "makeCurrent E dir d w = (x, w')"
    and "plainElem e" and "e \<noteq> updatingDBFilename" and "e \<noteq> currentDBFilename"
  shows "map_of (tree w') (dir @ ''/'' @ e) = map_of (tree w) (dir @ ''/'' @ e)"
  using assms(1,3-5) by (intro keeps_atPath_eq [OF makeCurrent_keeps assms(2)]) (auto simp: plainElem_def)

text \<open>Naming the database: a name is there only when the whole phase is done, and then nothing else.\<close>

lemma makeCurrent_blank:
  assumes dir: "plainPath dir" and blank: "blank (tree w) dir"
    and e: "plainElem e" "e \<noteq> updatingDBFilename" "e \<noteq> currentDBFilename"
    and run: "makeCurrent E dir (dir @ ''/'' @ e) w = (x, w')"
  shows "blank (tree w') dir \<and> \<not> isOk x \<or> dangling (tree w') dir e"
proof -
  note others = makeCurrent_others [OF dir run]
  from makeCurrent_atomic [OF dir run] show ?thesis
  proof (elim disjE conjE)
    assume cur: "map_of (tree w') (curFile dir) = map_of (tree w) (curFile dir)" and x: "x \<noteq> Ok ()"
    have "blank (tree w') dir"
    proof (rule blank_cong [OF _ blank])
      fix e' assume "plainElem e'" "e' \<noteq> updatingDBFilename"
      then show "map_of (tree w') (dir @ ''/'' @ e') = map_of (tree w) (dir @ ''/'' @ e')"
        using others [of e'] cur by (cases "e' = currentDBFilename") simp_all
    qed
    then show ?thesis using x by (auto simp: isOk_def)
  next
    assume "map_of (tree w') (curFile dir) = Some (FFile (currentContent (dir @ ''/'' @ e)))"
    moreover have "map_of (tree w') (dir @ ''/'' @ e) = None"
      using others [OF e] blank e by (simp add: blank_def)
    ultimately show ?thesis by (simp add: dangling_def)
  qed
qed

section \<open>Starting on it\<close>

text \<open>What a first start that did not end leaves: no name, or a name without a database.\<close>

definition unopened :: "'s tree \<Rightarrow> string \<Rightarrow> bool" where
  "unopened t dir \<longleftrightarrow> blank t dir \<or> (\<exists>e. plainElem e \<and> e \<noteq> updatingDBFilename \<and> dangling t dir e)"

lemma unopenedI: "plainElem e \<Longrightarrow> e \<noteq> updatingDBFilename \<Longrightarrow> dangling t dir e \<Longrightarrow> unopened t dir"
  by (auto simp: unopened_def)

lemma openDbDir_blank:
  assumes dir: "plainPath dir" and blank: "blank (tree w) dir" and run: "openDbDir E dir w = (x, w')"
  shows "unopened (tree w') dir
    \<and> (\<forall>d. x = Ok d \<longrightarrow> (\<exists>e. d = dir @ ''/'' @ e \<and> plainElem e \<and> e \<noteq> updatingDBFilename \<and> dangling (tree w') dir e))"
  using run unfolding openDbDir_def
proof (cases rule: andThen_run)
  case (stop x1)
  then show ?thesis using isNewRun_tree [OF stop(1)] blank by (auto simp: unopened_def isOk_def)
next
  case (go new w1)
  have w1: "tree w1 = tree w" using isNewRun_tree [OF go(1)] .
  show ?thesis
  proof (cases new)
    case True
    let ?e = "newDbName E (calls w1)" and ?w2 = "w1\<lparr>calls := Suc (Suc (calls w1))\<rparr>"
    note e = plainElem_newDbName [of E "calls w1"] newDbName_not_file(2,1) [of E "calls w1"]
    have "andThen (saveCurrentDBDirName E dir (dir @ ''/'' @ ?e)) (\<lambda>_.
        andThen (replaceCurrentDBFile E dir) (\<lambda>_. ret (dir @ ''/'' @ ?e))) ?w2 = (x, w')"
      using go(2) True by (simp add: andThen_apply getNewRandomDBDirName_plain [OF dir])
    then have "\<exists>y. makeCurrent E dir (dir @ ''/'' @ ?e) ?w2 = (y, w') \<and> (\<forall>d. x = Ok d \<longrightarrow> isOk y \<and> d = dir @ ''/'' @ ?e)"
      by (auto simp: andThen_apply ret_apply isOk_def split: prod.splits outcome.splits)
    then obtain y where y: "makeCurrent E dir (dir @ ''/'' @ ?e) ?w2 = (y, w')"
        "\<And>d. x = Ok d \<Longrightarrow> isOk y \<and> d = dir @ ''/'' @ ?e" by blast
    have "blank (tree ?w2) dir" using blank w1 by simp
    from makeCurrent_blank [OF dir this e y(1)] y(2) e show ?thesis by (auto simp: unopened_def)
  next
    case False
    then have run1: "andThen (cleanupNodeDataDir E dir) (\<lambda>_. andThen (getCurrentDBDirName E dir) (\<lambda>dbdir.
        andThen (statDbDir E dbdir) (\<lambda>_. ret dbdir))) w1 = (x, w')"
      using go(2) by simp
    have cur: "map_of (tree w1) (curFile dir) = None" using blank w1 by (simp add: blank_def)
    obtain y w2 where cl: "cleanupNodeDataDir E dir w1 = (y, w2)" by (cases "cleanupNodeDataDir E dir w1")
    note clean = cleanup_blank [OF dir cur cl]
    then have w': "w' = w2" "\<not> isOk x" using run1 cl by (cases y; auto simp: andThen_apply isOk_def)+
    have "blank (tree w2) dir" using clean w1 by (intro blank_cong [OF _ blank]) simp
    then show ?thesis using w' by (auto simp: unopened_def isOk_def)
  qed
qed

lemma openDbDir_unopened:
  assumes dir: "plainPath dir" and plain: "plainTree (tree w)" and un: "unopened (tree w) dir"
    and run: "openDbDir E dir w = (x, w')"
  shows "unopened (tree w') dir
    \<and> (\<forall>d. x = Ok d \<longrightarrow> (\<exists>e. d = dir @ ''/'' @ e \<and> plainElem e \<and> e \<noteq> updatingDBFilename \<and> dangling (tree w') dir e))"
  using un unfolding unopened_def [of "tree w"]
proof (elim disjE exE conjE)
  assume "blank (tree w) dir"
  then show ?thesis by (rule openDbDir_blank [OF dir _ run])
next
  fix e assume e: "plainElem e" "e \<noteq> updatingDBFilename" and dang: "dangling (tree w) dir e"
  then have "map_of (tree w) (curFile dir) = Some (FFile (currentContent (dir @ ''/'' @ e)))" by (simp add: dangling_def)
  note named = openDbDir_named [OF dir plain this e run]
  have "dangling (tree w') dir e" using named by (intro dangling_cong [OF _ dang]) blast
  moreover have "\<forall>d. x = Ok d \<longrightarrow> d = dir @ ''/'' @ e" using named by blast
  ultimately
  show ?thesis using e by (auto simp: unopened_def)
qed

text \<open>Creating the database that is missing: it is there and empty, or still missing.\<close>

definition noneOrDb :: "string \<Rightarrow> 's tree \<Rightarrow> bool" where
  "noneOrDb d t \<longleftrightarrow> map_of t d = None \<or> (\<exists>s. map_of t d = Some (FDb s))"

lemma stable_noneOrDb [simp, keeps_intros]: "stable (\<lambda>w. noneOrDb d (tree w))"
  by (rule stableI) simp

lemma noneOrDb_update [simp]: "noneOrDb d (AList.update d (FDb s) t)"
  by (simp add: noneOrDb_def update_conv)

lemma keeps_noneOrDb_createDB: "keeps (\<lambda>w. noneOrDb d (tree w)) (createDB E d)"
proof
  fix w :: "('a, 'b) world" assume P: "noneOrDb d (tree w)"
  have "noneOrDb d (tree (snd (libCall E d call w)))" for call
    by (rule keepsD [where P = "\<lambda>w. noneOrDb d (tree w)", OF keeps_libCall P]) simp_all
  from this [of "\<lambda>t. c_open (rocksLib E) t (Options_c (SetUseFsync (SetCreateIfMissing NewDefaultOptions True) True)) (dbAt (tree w) d)"]
  show "noneOrDb d (tree (snd (createDB E d w)))"
    using P by (auto simp: createDB_def OpenDb_def Let_def andThen_apply
        split: option.splits node.splits prod.splits outcome.splits)
qed

lemma keeps_noneOrDb_attachDb: "keeps (\<lambda>w. noneOrDb d (tree w)) (attachDb E d)"
proof -
  have set: "keeps (\<lambda>w. noneOrDb d (tree w)) (swapDb p)" "keeps (\<lambda>w. noneOrDb d (tree w)) (setCommander f)" for p f
    by (auto simp: swapDb_def setCommander_def keeps_def)
  show ?thesis
    by (intro keeps_andThen keeps_noneOrDb_createDB set keeps_ret) (intro keeps_intros keeps_queries; simp)+
qed

context rocks
begin

lemma attachDb_dangling:
  assumes E: "rocksLib E = C" and e: "plainElem e" "e \<noteq> updatingDBFilename" and dang: "dangling (tree w) dir e"
    and run: "attachDb E (dir @ ''/'' @ e) w = (x, w')"
  shows "dangling (tree w') dir e \<and> \<not> isOk x \<or>
    installed contents (tree w') dir e Map.empty
    \<and> (\<forall>i. x = Ok i \<longrightarrow> i = 0 \<and> (\<exists>s. liveState w' = Some s \<and> contents s = Map.empty)
         \<and> lastApplied (commander w') = 0 \<and> liveDir w' = Some (dir @ ''/'' @ e))"
proof -
  let ?d = "dir @ ''/'' @ e"
  note at = attachDb_effect [OF E run]
  have none: "map_of (tree w) ?d = None" and cur: "map_of (tree w) (curFile dir) = Some (FFile (currentContent ?d))"
    using dang by (simp_all add: dangling_def)
  then have "e \<noteq> currentDBFilename" and empty: "found contents (tree w) ?d = Map.empty"
    by (auto simp: found_def dbAt_def)
  then have cur': "map_of (tree w') (curFile dir) = Some (FFile (currentContent ?d))" using at cur by simp
  have "noneOrDb ?d (tree w)" using none by (simp add: noneOrDb_def)
  from keepsD [OF keeps_noneOrDb_attachDb [of ?d E] this] run
  have "noneOrDb ?d (tree w')" by simp
  then consider "map_of (tree w') ?d = None" | s where "map_of (tree w') ?d = Some (FDb s)"
    by (auto simp: noneOrDb_def)
  then show ?thesis
  proof cases
    case 1
    have "\<not> isOk x"
    proof
      assume "isOk x"
      then obtain s where "liveState w' = Some s" "liveDir w' = Some ?d" using at by (auto simp: isOk_def)
      then obtain r db where "live w' = Some (r, db, ?d, s)" by (auto simp: liveState_def liveDir_def)
      from live_node [OF this] 1 show False by simp
    qed
    then show ?thesis using 1 cur' by (simp add: dangling_def)
  next
    case 2
    then have "contents s = Map.empty" using at empty by (simp add: found_def dbAt_def)
    then have "installed contents (tree w') dir e Map.empty" using 2 cur' by (simp add: installed_def)
    moreover have "storedIndex Map.empty = Inr 0" by (simp add: storedIndex_def)
    ultimately show ?thesis using at empty by auto
  qed
qed

text \<open>
  \<^verbatim>\<open>Open\<close> on a directory without a database leaves one, which is empty and current, or leaves
  the directory without one; when it returns, it returns the index 0 and the database is in use.
\<close>

lemma Open_unopened:
  assumes E: "rocksLib E = C" and dir: "dir = getNodeDBDirName (clusterID (commander w)) (nodeID (commander w))"
    and plain: "plainTree (tree w)" and un: "unopened (tree w) dir" and run: "Open E w = (x, w')"
  shows "plainTree (tree w') \<and> (unopened (tree w') dir \<and> \<not> isOk x \<or>
    (\<exists>e. plainElem e \<and> e \<noteq> updatingDBFilename \<and> installed contents (tree w') dir e Map.empty
      \<and> (\<forall>i. x = Ok i \<longrightarrow> i = 0 \<and> (\<exists>s. liveState w' = Some s \<and> contents s = Map.empty)
           \<and> lastApplied (commander w') = 0 \<and> liveDir w' = Some (dir @ ''/'' @ e))))"
proof -
  have dirp: "plainPath dir" by (simp add: dir getNodeDBDirName_plain)
  have mk: "unopened (tree w1) dir" "plainTree (tree w1)" if "createNodeDataDir E dir w = (y, w1)" for y w1
  proof -
    have "map_of (tree w1) (dir @ ''/'' @ n) = map_of (tree w) (dir @ ''/'' @ n)" for n
      by (rule keeps_atPath_eq [OF createNodeDataDir_keeps that])
    then show "unopened (tree w1) dir" using un by (simp add: unopened_def blank_def dangling_def)
    show "plainTree (tree w1)" using keepsD [OF createNodeDataDir_plain [OF dirp] plain] that by (metis snd_conv)
  qed
  have "andThen (orPanic (createNodeDataDir E dir) ''mkdir'') (\<lambda>_. andThen (openDbDir E dir) (attachDb E)) w = (x, w')"
    using run by (simp add: Open_def andThen_apply getCommander_def dir [symmetric])
  then show ?thesis
  proof (cases rule: andThen_run)
    case (stop x1)
    from stop(1) obtain y where "createNodeDataDir E dir w = (y, w')" by (rule orPanic_run)
    then show ?thesis using mk stop(3) by simp
  next
    case (go u w1)
    from go(1) obtain y where "createNodeDataDir E dir w = (y, w1)" by (rule orPanic_run)
    note mk = mk [OF this]
    from go(2) show ?thesis
    proof (cases rule: andThen_run)
      case (stop x1)
      then show ?thesis
        using openDbDir_unopened [OF dirp mk(2,1) stop(1)] keepsD [OF keeps_plain_openDbDir [OF dirp], of w1 E] mk(2) by simp
    next
      case (go d w2)
      obtain e where e: "d = dir @ ''/'' @ e" "plainElem e" "e \<noteq> updatingDBFilename" "dangling (tree w2) dir e"
        using openDbDir_unopened [OF dirp mk(2,1) go(1)] by auto
      have "plainTree (tree w2)" using keepsD [OF keeps_plain_openDbDir [OF dirp], of w1 E] mk(2) go(1) by simp
      from attachDb_plain [OF E go(2) _ this] e dirp have "plainTree (tree w')" by simp
      moreover have "unopened (tree w') dir" if "dangling (tree w') dir e" by (rule unopenedI [OF e(2,3) that])
      ultimately show ?thesis using attachDb_dangling [OF E e(2,3,4) go(2) [unfolded e(1)]] e(2,3) by metis
    qed
  qed
qed

end

section \<open>The life of a replica from its first start on\<close>

text \<open>A replica that has lived before, or one whose first start has not yet made a database.\<close>

definition bornInv :: "('s \<Rightarrow> bytes \<rightharpoonup> bytes) \<Rightarrow> uint64 \<Rightarrow> uint64 \<Rightarrow> ('s, 'n) world \<times> bool \<Rightarrow> (bytes \<rightharpoonup> bytes) \<Rightarrow> bool" where
  "bornInv contents cid nid st m \<longleftrightarrow> lifeInv contents cid nid st m
     \<or> \<not> snd st \<and> m = Map.empty \<and> plainTree (tree (fst st)) \<and> unopened (tree (fst st)) (getNodeDBDirName cid nid)"

inductive_cases lifeStep_offE: "lifeStep E cid nid (w, False) ev st'"

context rocks
begin

lemma born_boot:
  assumes E: "rocksLib E = C" and un: "unopened (tree w) (getNodeDBDirName cid nid)" and plain: "plainTree (tree w)"
    and run: "Open E (restart cid nid w) = (x, w')"
  shows "bornInv contents cid nid (w', isOk x) Map.empty"
proof -
  let ?dir = "getNodeDBDirName cid nid" and ?w = "restart cid nid w"
  have dir: "?dir = getNodeDBDirName (clusterID (commander ?w)) (nodeID (commander ?w))" by simp
  have un': "plainTree (tree ?w)" "unopened (tree ?w) ?dir" using un plain by simp_all
  have "procOk cid nid w'" using keepsD [OF keeps_procOk_Open, of cid nid ?w E] run by simp
  moreover have "storedIndex Map.empty = Inr 0" by (simp add: storedIndex_def)
  ultimately show ?thesis
    using Open_unopened [OF E dir un' run] by (fastforce simp: bornInv_def lifeInv_def Let_def isOk_def)
qed

lemma born_step:
  assumes E: "rocksLib E = C" and step: "lifeStep E cid nid st ev st'" and inv: "bornInv contents cid nid st m"
  shows "\<exists>m'. absStep ev (snd st') m m' \<and> bornInv contents cid nid st' m'"
  using inv unfolding bornInv_def [of contents cid nid st]
proof (elim disjE conjE)
  assume "lifeInv contents cid nid st m"
  from life_step [OF E step this] show ?thesis by (auto simp: bornInv_def)
next
  assume off: "\<not> snd st" and m: "m = Map.empty" and plain: "plainTree (tree (fst st))"
    and un: "unopened (tree (fst st)) (getNodeDBDirName cid nid)"
  obtain w where st: "st = (w, False)" using off by (cases st) simp
  from step [unfolded st] consider (boot) x w' where "ev = Boot" "st' = (w', isOk x)" "Open E (restart cid nid w) = (x, w')"
    | (killed) "ev = Killed" "st' = (w, False)"
    by (auto elim: lifeStep_offE)
  then show ?thesis
  proof cases
    case boot
    then show ?thesis using born_boot [OF E _ _ boot(3)] un plain m st by auto
  next
    case killed
    then show ?thesis using un plain m st by (auto simp: bornInv_def)
  qed
qed

end

end
