(* ===== verification/Replicated_Log.thy ===== *)
theory Replicated_Log
  imports First_Start
begin

text \<open>
  Many replicas of one log. The raft library behind \<^verbatim>\<open>NodeHost\<close> gives every replica the committed
  entries in the order of the log, starting after the index that \<^verbatim>\<open>Open\<close> returned, has snapshots
  prepared and saved, and sends them to replicas that are behind. The model has the states of
  all replicas and what the library remembers of them; every replica has its own machine, where
  each call may fail, and may be killed and started again at any time.
\<close>

section \<open>The log\<close>

text \<open>
  What the raft library promises of a log: the indexes of the entries grow and start after 0.
  The bounds on the sizes are the ones under which a snapshot can be written at all.
\<close>

definition logOk :: "Entry list \<Rightarrow> bool" where
  "logOk log \<longleftrightarrow> sorted_wrt (<) (map Entry_Index log) \<and> (\<forall>e \<in> set log. 0 < Entry_Index e)
     \<and> length log < 2 ^ 63
     \<and> (\<forall>e \<in> set log. length (Action_Key (entryAction e)) + length (Action_Val (entryAction e)) \<le> 2 ^ 40)"

text \<open>The contents after the first \<open>n\<close> entries, and the index of the last one of them.\<close>

definition after :: "Entry list \<Rightarrow> nat \<Rightarrow> (bytes \<rightharpoonup> bytes)" where
  "after log n = (if n = 0 then Map.empty else applyEntries (take n log) Map.empty)"

definition indexAt :: "Entry list \<Rightarrow> nat \<Rightarrow> uint64" where
  "indexAt log n = (if n = 0 then 0 else Entry_Index (log ! (n - 1)))"

lemma after_0 [simp]: "after log 0 = Map.empty"
  by (simp add: after_def)

lemma indexAt_0 [simp]: "indexAt log 0 = 0"
  by (simp add: indexAt_def)

lemma last_take: "0 < n \<Longrightarrow> n \<le> length log \<Longrightarrow> last (take n log) = log ! (n - 1)"
  by (subst last_conv_nth) (auto simp: min_def)

lemma storedIndex_empty: "storedIndex Map.empty = Inr 0"
  by (simp add: storedIndex_def)

lemma storedIndex_after: "n \<le> length log \<Longrightarrow> storedIndex (after log n) = Inr (indexAt log n)"
  by (cases "n = 0") (simp_all add: after_def indexAt_def storedIndex_applyEntries last_take storedIndex_empty)

lemma indexAt_strict:
  assumes "logOk log" and "n < n'" and "n' \<le> length log"
  shows "indexAt log n < indexAt log n'"
proof (cases "n = 0")
  case True
  then show ?thesis using assms by (simp add: indexAt_def logOk_def)
next
  case False
  then show ?thesis
    using sorted_wrt_nth_less [of "(<)" "map Entry_Index log" "n - 1" "n' - 1"] assms
    by (simp add: logOk_def indexAt_def)
qed

lemma indexAt_less_iff:
  assumes "logOk log" and "n \<le> length log" and "n' \<le> length log"
  shows "indexAt log n < indexAt log n' \<longleftrightarrow> n < n'"
  using indexAt_strict [OF assms(1), of n n'] indexAt_strict [OF assms(1), of n' n] assms(2,3)
  by (cases n n' rule: linorder_cases) auto

lemma indexAt_inject:
  assumes "logOk log" and "n \<le> length log" and "n' \<le> length log" and "indexAt log n = indexAt log n'"
  shows "n = n'"
  using indexAt_less_iff [OF assms(1-3)] indexAt_less_iff [OF assms(1,3,2)] assms(4) by simp

text \<open>The entries after an index are the ones behind the prefix that ends there.\<close>

lemma entries_after:
  assumes "logOk log" and "n \<le> length log"
  shows "filter (\<lambda>e. indexAt log n < Entry_Index e) log = drop n log"
proof -
  let ?P = "\<lambda>e. indexAt log n < Entry_Index e"
  have ix: "?P (log ! i) \<longleftrightarrow> n \<le> i" if "i < length log" for i
    using indexAt_less_iff [OF assms, of "Suc i"] that by (simp add: indexAt_def less_Suc_eq_le)
  have "filter ?P (take n log) = []"
    using assms(2) by (auto simp: filter_empty_conv in_set_conv_nth ix)
  moreover have "filter ?P (drop n log) = drop n log"
    using assms(2) by (auto simp: filter_id_conv in_set_conv_nth ix)
  ultimately have "filter ?P (take n log @ drop n log) = drop n log" by (simp only: filter_append append_Nil)
  then show ?thesis by simp
qed

lemma after_step:
  assumes "take k (drop n log) \<noteq> []"
  shows "applyEntries (take k (drop n log)) (after log n) = after log (n + length (take k (drop n log)))"
proof -
  let ?es = "take k (drop n log)"
  have "take (n + length ?es) log = take n log @ ?es" by (simp add: take_add min_def)
  then show ?thesis
    using assms applyEntries_append [OF assms, of "take n log" Map.empty]
    by (cases "n = 0") (auto simp: after_def)
qed

lemma last_step:
  assumes "take k (drop n log) \<noteq> []"
  shows "Entry_Index (last (take k (drop n log))) = indexAt log (n + length (take k (drop n log)))"
  using assms by (auto simp: last_conv_nth indexAt_def min_def)

subsection \<open>Every prefix can be saved\<close>

lemma validContents_after: "validContents (after log n)"
  using validContents_applyEntries [of Map.empty] by (simp add: after_def) (simp add: validContents_def)

lemma length_dec: "m < 10 ^ Suc k \<Longrightarrow> length (dec m) \<le> Suc k"
proof (induction k arbitrary: m)
  case (Suc k)
  then have "length (dec (m div 10)) \<le> Suc k" by (intro Suc.IH) simp
  then show ?case by (subst dec.simps) simp
qed (simp add: dec.simps)

lemma length_dec_unat: "length (dec (unat (i :: uint64))) \<le> 20"
  using unat64_less [of i] length_dec [of "unat i" 19] by simp

lemma applyEntries_SomeD:
  assumes "applyEntries es Map.empty k = Some v"
  shows "(\<exists>e \<in> set es. k = Action_Key (entryAction e) \<and> v = Action_Val (entryAction e))
    \<or> k = appliedIndexKey \<and> v = dec (unat (Entry_Index (last es)))"
proof (cases "k = appliedIndexKey")
  case False
  have "\<exists>e \<in> set es'. k = Action_Key (entryAction e) \<and> v = Action_Val (entryAction e)"
    if "foldl (\<lambda>m e. m(Action_Key (entryAction e) \<mapsto> Action_Val (entryAction e))) Map.empty es' k = Some v" for es'
    using that by (induction es' rule: rev_induct) (auto split: if_splits)
  then show ?thesis using assms False by (simp add: applyEntries_alt)
qed (use assms in \<open>simp add: applyEntries_alt\<close>)

lemma after_SomeD:
  assumes "after log n k = Some v"
  shows "(\<exists>e \<in> set log. k = Action_Key (entryAction e) \<and> v = Action_Val (entryAction e))
    \<or> k = appliedIndexKey \<and> length v \<le> 20"
proof (cases "n = 0")
  case False
  then have "applyEntries (take n log) Map.empty k = Some v" using assms by (simp add: after_def)
  from applyEntries_SomeD [OF this] show ?thesis using length_dec_unat by (auto dest: in_set_takeD)
qed (use assms in simp)

lemma dom_after: "dom (after log n) \<subseteq> insert appliedIndexKey ((\<lambda>e. Action_Key (entryAction e)) ` set log)"
  by (auto dest!: after_SomeD)

lemma finite_dom_after [simp]: "finite (dom (after log n))"
  by (rule finite_subset [OF dom_after]) simp

lemma savable_after:
  assumes "logOk log" shows "savable (pairs (after log n))"
proof -
  let ?keys = "(\<lambda>e. Action_Key (entryAction e)) ` set log"
  have "card ?keys \<le> length log" using card_image_le [of "set log"] card_length [of log] le_trans by blast
  then have "card (insert appliedIndexKey ?keys) \<le> Suc (length log)" by (simp add: card_insert_if)
  moreover have "card (dom (after log n)) \<le> card (insert appliedIndexKey ?keys)" by (intro card_mono dom_after) simp
  ultimately have "length (pairs (after log n)) < 2 ^ 64" using assms by (simp add: pairs_def logOk_def)
  moreover have "length k + length v \<le> 2 ^ 40" if "(k, v) \<in> set (pairs (after log n))" for k v
  proof -
    have "after log n k = Some v" using that by (simp add: set_pairs)
    from after_SomeD [OF this] show ?thesis using assms by (auto simp: logOk_def appliedIndexKey_def)
  qed
  ultimately show ?thesis by (auto simp: savable_def)
qed

section \<open>Streams that are cut short\<close>

lemma ReadFull_more:
  "ReadFull \<lparr>rd_data = d, rd_end = e\<rparr> n = Inr (x, r) \<Longrightarrow>
     \<exists>d1. r = \<lparr>rd_data = d1, rd_end = e\<rparr> \<and> ReadFull \<lparr>rd_data = d @ d', rd_end = e'\<rparr> n = Inr (x, \<lparr>rd_data = d1 @ d', rd_end = e'\<rparr>)"
  by (auto simp: ReadFull_def split: if_splits)

text \<open>What was read without an error is read again when more follows.\<close>

lemma decodePairs_more:
  assumes "decodePairs n \<lparr>rd_data = d, rd_end = e\<rparr> = Loaded kvs"
  shows "decodePairs n \<lparr>rd_data = d @ d', rd_end = e'\<rparr> = Loaded kvs"
  using assms
proof (induction n arbitrary: d kvs)
  case (Suc n)
  obtain sz d1 where 1: "ReadFull \<lparr>rd_data = d, rd_end = e\<rparr> 8 = Inr (sz, \<lparr>rd_data = d1, rd_end = e\<rparr>)"
      "ReadFull \<lparr>rd_data = d @ d', rd_end = e'\<rparr> 8 = Inr (sz, \<lparr>rd_data = d1 @ d', rd_end = e'\<rparr>)"
    using Suc.prems ReadFull_more [of d e 8] by (fastforce split: sum.splits)
  then obtain data d2 where 2: "ReadFull \<lparr>rd_data = d1, rd_end = e\<rparr> (unat (Uint64 sz)) = Inr (data, \<lparr>rd_data = d2, rd_end = e\<rparr>)"
      "ReadFull \<lparr>rd_data = d1 @ d', rd_end = e'\<rparr> (unat (Uint64 sz)) = Inr (data, \<lparr>rd_data = d2 @ d', rd_end = e'\<rparr>)"
    using Suc.prems ReadFull_more [of d1 e "unat (Uint64 sz)"] by (fastforce simp: Let_def split: sum.splits if_splits)
  show ?case
    using Suc.prems Suc.IH [of d2] 1 2 by (auto simp: Let_def split: if_splits prod.splits option.splits loaded.splits)
qed simp

lemma decodeSnapshot_more:
  assumes "decodeSnapshot \<lparr>rd_data = d, rd_end = e\<rparr> = Loaded kvs"
  shows "decodeSnapshot \<lparr>rd_data = d @ d', rd_end = e'\<rparr> = Loaded kvs"
proof -
  obtain sz d1 where "ReadFull \<lparr>rd_data = d, rd_end = e\<rparr> 8 = Inr (sz, \<lparr>rd_data = d1, rd_end = e\<rparr>)"
      "ReadFull \<lparr>rd_data = d @ d', rd_end = e'\<rparr> 8 = Inr (sz, \<lparr>rd_data = d1 @ d', rd_end = e'\<rparr>)"
    using assms ReadFull_more [of d e 8] by (fastforce simp: decodeSnapshot_def split: sum.splits)
  then show ?thesis using assms decodePairs_more [of _ d1 e kvs] by (simp add: decodeSnapshot_def)
qed

text \<open>A part of a saved stream holds all of it or cannot be read.\<close>

lemma decodeSnapshot_cut:
  assumes "validPairs kvs" and "savable kvs"
    and "decodeSnapshot \<lparr>rd_data = take k (encodeSnapshot kvs), rd_end = e\<rparr> = Loaded kvs'"
  shows "kvs' = kvs"
proof -
  have "decodeSnapshot \<lparr>rd_data = take k (encodeSnapshot kvs) @ drop k (encodeSnapshot kvs), rd_end = EOF\<rparr> = Loaded kvs'"
    by (rule decodeSnapshot_more [OF assms(3)])
  then show ?thesis using decodeSnapshot_encode [OF assms(1,2), of "[]" EOF] by simp
qed

lemma decode_after:
  assumes "logOk log"
    and "decodeSnapshot \<lparr>rd_data = take k (encodeSnapshot (pairs (after log n))), rd_end = e\<rparr> = Loaded kvs"
  shows "map_of (rev kvs) = after log n"
proof -
  have "validPairs (pairs (after log n))" by (simp add: validPairs_pairs validContents_after)
  from decodeSnapshot_cut [OF this savable_after [OF assms(1)] assms(2)]
  show ?thesis by (simp add: map_of_rev_distinct map_of_pairs)
qed

section \<open>Saves that report success\<close>

text \<open>A save that returns no error has written the whole snapshot, whatever the writer may do.\<close>

context rocks_reliable
begin

lemma writeLoop_complete:
  assumes "writeLoop C \<lparr>Iterator_c = Some i\<rparr> t wr = Some (Inr (wr', None), t')"
  shows "wr_data wr' = wr_data wr @ concat (map encodePair (rest i))"
  using assms
proof (induction "rest i" arbitrary: i t wr)
  case Nil
  then show ?case by (simp add: writeLoop_step)
next
  case (Cons kv r)
  obtain k v where kv: "kv = (k, v)" by (cases kv)
  have rest: "rest i = (k, v) # r" using Cons(2) kv by simp
  have tail: "r = rest (c_iter_next C t i)" using next_tail [OF rest] by simp
  let ?d = "marshalAction (emptyAction\<lparr>Action_Key := k, Action_Val := v\<rparr>)"
  obtain wr1 where 1: "writerWrite wr (PutUint64 (word_of_nat (length ?d))) = (wr1, None)"
    using Cons.prems by (subst (asm) writeLoop_step) (auto simp: rest Let_def split: prod.splits option.splits)
  obtain wr2 where 2: "writerWrite wr1 ?d = (wr2, None)"
    using Cons.prems 1 by (subst (asm) writeLoop_step) (auto simp: rest Let_def split: prod.splits option.splits)
  have "writeLoop C \<lparr>Iterator_c = Some (c_iter_next C t i)\<rparr> (Suc t) wr2 = Some (Inr (wr', None), t')"
    using Cons.prems 1 2 by (subst (asm) writeLoop_step) (simp add: rest Let_def)
  from Cons(1) [OF tail this] tail 1 2 show ?case
    by (auto simp: rest encodePair_def Let_def writerWrite_def split: option.splits)
qed

lemma saveLoops_complete:
  assumes "saveLoops C \<lparr>Iterator_c = Some i\<rparr> wr t = Some (Inr (wr', None), t')"
  shows "wr_data wr' = wr_data wr @ encodeSnapshot (items i)"
proof -
  obtain i' t1 where cnt: "countLoop C (iterSeekToFirst C t \<lparr>Iterator_c = Some i\<rparr>) (Suc t) 0
      = Some (word_of_nat (length (items i)), \<lparr>Iterator_c = Some i'\<rparr>, t1)" and i': "items i' = items i"
    using countLoop_counts [of "c_iter_seek_to_first C t i" "Suc t" 0]
    by (auto simp: iterSeekToFirst_def onIter_def first_all first_items)
  obtain wr1 where 1: "writerWrite wr (PutUint64 (word_of_nat (length (items i)))) = (wr1, None)"
    using assms cnt by (auto simp: saveLoops_def split: prod.splits option.splits)
  then have "writeLoop C \<lparr>Iterator_c = Some (c_iter_seek_to_first C t1 i')\<rparr> (Suc t1) wr1 = Some (Inr (wr', None), t')"
    using assms cnt by (simp add: saveLoops_def iterSeekToFirst_def onIter_def)
  from writeLoop_complete [OF this] 1 i' show ?thesis
    by (auto simp: first_all encodeSnapshot_def writerWrite_def split: option.splits)
qed

lemma SaveSnapshot_complete:
  assumes E: "rocksLib E = C" and ctx: "ctx_snapshot ctx = \<lparr>Snapshot_c = Some n\<rparr>"
    and run: "SaveSnapshot E ctx wr w = (Ok (wr', None), w')"
  shows "wr_data wr' = wr_data wr @ encodeSnapshot (pairs (snapped n))"
proof -
  let ?ro = "SetSnapshot NewDefaultReadOptions \<lparr>Snapshot_c = Some n\<rparr>"
  have plain: "plainRead (ReadOptions_c ?ro) (Some n)"
    by (simp add: plainRead_def NewDefaultReadOptions_def SetSnapshot_def onRead_def)
  obtain p where "saveToWriter E p \<lparr>Snapshot_c = Some n\<rparr> wr w = (Ok (wr', None), w')"
    using run ctx by (auto simp: SaveSnapshot_def getCommander_def noPtr_def andThen_apply gopanic_apply
        split: if_splits option.splits)
  then obtain s t where loop: "runLoop (saveLoops C \<lparr>Iterator_c = Some (c_create_iterator C (calls w) (ReadOptions_c ?ro) s)\<rparr> wr)
      (w\<lparr>calls := t\<rparr>) = (Ok (wr', None), w')"
    by (auto simp: saveToWriter_def Let_def derefDb_def deref_def dbNewIterator_def onDb_def andThen_apply gopanic_apply E
        split: option.splits)
  then have "wr_data wr' = wr_data wr @ encodeSnapshot (items (c_create_iterator C (calls w) (ReadOptions_c ?ro) s))"
    by (auto simp: runLoop_def split: option.splits sum.splits intro!: saveLoops_complete)
  then show ?thesis using iterator_items_snapshot [OF plain, of "calls w" s] by simp
qed

end

section \<open>The replicas and the raft library\<close>

text \<open>
  The state of every replica, and what the library remembers: the index up to which it has fed
  each replica, the snapshots that were prepared in a process and the indexes that they were
  prepared at, and the saved streams with their indexes.
\<close>

record ('s, 'n) raft =
  replicas :: "nat \<Rightarrow> ('s, 'n) world \<times> bool"
  fed :: "nat \<Rightarrow> uint64"
  prepared :: "nat \<Rightarrow> ('n CommanderCtx \<times> uint64) list"
  streams :: "(bytes \<times> uint64) list"

definition setReplica :: "nat \<Rightarrow> ('s, 'n) world \<times> bool \<Rightarrow> uint64 \<Rightarrow> ('s, 'n) raft \<Rightarrow> ('s, 'n) raft" where
  "setReplica i st f c = c\<lparr>replicas := (replicas c)(i := st), fed := (fed c)(i := f)\<rparr>"

text \<open>
  The steps. A batch holds some of the next entries of the log. A stream may reach the replica
  in full or only in part, and is installed only when it is newer than what was fed. All other
  calls, a close and a kill are the steps of the replica by itself.
\<close>

inductive raftStep :: "(nat \<Rightarrow> ('s, 'b, 'i, 'n) env) \<Rightarrow> uint64 \<Rightarrow> (nat \<Rightarrow> uint64) \<Rightarrow> Entry list
    \<Rightarrow> ('s, 'n) raft \<Rightarrow> ('s, 'n) raft \<Rightarrow> bool" for E cid nid log where
  open_: "replicas c i = (w, False) \<Longrightarrow> Open (E i) (restart cid (nid i) w) = (x, w')
    \<Longrightarrow> raftStep E cid nid log c
      ((setReplica i (w', isOk x) (case x of Ok j \<Rightarrow> j | _ \<Rightarrow> fed c i) c)\<lparr>prepared := (prepared c)(i := [])\<rparr>)"
| apply_: "replicas c i = (w, True) \<Longrightarrow> ents = take k (filter (\<lambda>e. fed c i < Entry_Index e) log)
    \<Longrightarrow> Update (E i) ents w = (x, w')
    \<Longrightarrow> raftStep E cid nid log c
      (setReplica i (w', isOk x) (if isOk x then Entry_Index (last ents) else fed c i) c)"
| prepare: "replicas c i = (w, True) \<Longrightarrow> PrepareSnapshot (E i) w = (x, w')
    \<Longrightarrow> raftStep E cid nid log c
      ((setReplica i (w', survives x) (fed c i) c)\<lparr>prepared := (prepared c)
         (i := (case x of Ok ctx \<Rightarrow> [(ctx, fed c i)] | _ \<Rightarrow> []) @ prepared c i)\<rparr>)"
| save: "replicas c i = (w, True) \<Longrightarrow> (ctx, j) \<in> set (prepared c i) \<Longrightarrow> wr_data wr = []
    \<Longrightarrow> SaveSnapshot (E i) ctx wr w = (x, w')
    \<Longrightarrow> raftStep E cid nid log c
      ((setReplica i (w', survives x) (fed c i) c)\<lparr>streams :=
         (case x of Ok (wr', None) \<Rightarrow> [(wr_data wr', j)] | _ \<Rightarrow> []) @ streams c\<rparr>)"
| install: "replicas c i = (w, True) \<Longrightarrow> (stream, j) \<in> set (streams c) \<Longrightarrow> fed c i < j
    \<Longrightarrow> map_of (tree w) (getNodeDBDirName cid (nid i) @ ''/'' @ newDbName (E i) (calls w)) = None
    \<Longrightarrow> RecoverFromSnapshot (E i) \<lparr>rd_data = take k stream, rd_end = e\<rparr> w = (x, w')
    \<Longrightarrow> raftStep E cid nid log c
      (setReplica i (w', isOk x) (if isOk x then j else fed c i) c)"
| alone: "lifeStep (E i) cid (nid i) (replicas c i) ev st' \<Longrightarrow> ev \<in> {Ask, Stop, Killed}
    \<Longrightarrow> raftStep E cid nid log c (setReplica i st' (fed c i) c)"

text \<open>
  New replicas: none runs, and the directory of each is empty or has an empty database in it.
\<close>

definition raftStart :: "('s \<Rightarrow> bytes \<rightharpoonup> bytes) \<Rightarrow> uint64 \<Rightarrow> (nat \<Rightarrow> uint64) \<Rightarrow> ('s, 'n) raft \<Rightarrow> bool" where
  "raftStart contents cid nid c \<longleftrightarrow> streams c = [] \<and> (\<forall>i. prepared c i = [] \<and> (\<exists>w. replicas c i = (w, False)
     \<and> plainTree (tree w)
     \<and> (let dir = getNodeDBDirName cid (nid i)
        in blank (tree w) dir
           \<or> (\<exists>e. plainElem e \<and> e \<noteq> updatingDBFilename \<and> installed contents (tree w) dir e Map.empty))))"

section \<open>The invariant\<close>

text \<open>
  A replica holds a prefix of the log, and one that runs was fed exactly this prefix; prepared
  and saved snapshots are prefixes too, with their indexes.
\<close>

definition holdsPrefix :: "('s \<Rightarrow> bytes \<rightharpoonup> bytes) \<Rightarrow> uint64 \<Rightarrow> uint64 \<Rightarrow> Entry list \<Rightarrow> ('s, 'n) world \<times> bool \<Rightarrow> uint64 \<Rightarrow> nat \<Rightarrow> bool" where
  "holdsPrefix contents cid nid log st f n \<longleftrightarrow>
     n \<le> length log \<and> bornInv contents cid nid st (after log n) \<and> (snd st \<longrightarrow> f = indexAt log n)"

definition preparedOk :: "('n \<Rightarrow> bytes \<rightharpoonup> bytes) \<Rightarrow> Entry list \<Rightarrow> 'n CommanderCtx \<times> uint64 \<Rightarrow> bool" where
  "preparedOk snapped log = (\<lambda>(ctx, j). \<exists>n ss. n \<le> length log \<and> ctx_snapshot ctx = \<lparr>Snapshot_c = Some ss\<rparr>
     \<and> snapped ss = after log n \<and> j = indexAt log n)"

definition streamOk :: "Entry list \<Rightarrow> bytes \<times> uint64 \<Rightarrow> bool" where
  "streamOk log = (\<lambda>(stream, j). \<exists>n. n \<le> length log
     \<and> stream = encodeSnapshot (pairs (after log n)) \<and> j = indexAt log n)"

definition raftInv :: "('s \<Rightarrow> bytes \<rightharpoonup> bytes) \<Rightarrow> ('n \<Rightarrow> bytes \<rightharpoonup> bytes) \<Rightarrow> uint64 \<Rightarrow> (nat \<Rightarrow> uint64) \<Rightarrow> Entry list
    \<Rightarrow> (nat \<Rightarrow> nat) \<Rightarrow> ('s, 'n) raft \<Rightarrow> bool" where
  "raftInv contents snapped cid nid log ns c \<longleftrightarrow>
     (\<forall>i. holdsPrefix contents cid (nid i) log (replicas c i) (fed c i) (ns i)
        \<and> list_all (preparedOk snapped log) (prepared c i))
     \<and> list_all (streamOk log) (streams c)"

lemma setReplica_simps [simp]:
  "replicas (setReplica i st f c) = (replicas c)(i := st)" "fed (setReplica i st f c) = (fed c)(i := f)"
  "prepared (setReplica i st f c) = prepared c" "streams (setReplica i st f c) = streams c"
  by (simp_all add: setReplica_def)

text \<open>A step of one replica, with what it adds to the prepared and the saved snapshots.\<close>

lemma raftInv_set:
  assumes "raftInv contents snapped cid nid log ns c"
    and "holdsPrefix contents cid (nid i) log st f n" and "ns i \<le> n"
    and "replicas c' = (replicas c)(i := st)" and "fed c' = (fed c)(i := f)"
    and "\<And>j. list_all (preparedOk snapped log) (prepared c' j)" and "list_all (streamOk log) (streams c')"
  shows "\<exists>ns'. raftInv contents snapped cid nid log ns' c' \<and> (\<forall>j. ns j \<le> ns' j)"
  using assms by (intro exI [of _ "ns(i := n)"]) (simp add: raftInv_def)

lemma raftStart_inv:
  assumes "raftStart contents cid nid c"
  shows "raftInv contents snapped cid nid log (\<lambda>_. 0) c"
proof -
  have "holdsPrefix contents cid (nid i) log (replicas c i) (fed c i) 0" for i
  proof -
    obtain w where w: "replicas c i = (w, False)" and plain: "plainTree (tree w)"
      and disk: "blank (tree w) (getNodeDBDirName cid (nid i)) \<or>
        (\<exists>e. plainElem e \<and> e \<noteq> updatingDBFilename \<and> installed contents (tree w) (getNodeDBDirName cid (nid i)) e Map.empty)"
      using assms unfolding raftStart_def Let_def by blast
    show ?thesis
      using plain disk by (auto simp: w holdsPrefix_def bornInv_def lifeInv_def Let_def unopened_def)
  qed
  then show ?thesis using assms by (simp add: raftInv_def raftStart_def)
qed

lemma Open_index: "Open E w = (Ok j, w') \<Longrightarrow> lastApplied (commander w') = j"
  by (auto simp: Open_def getCommander_def setCommander_def swapDb_def ret_apply Let_def andThen_apply
      split: prod.splits outcome.splits)

lemma Update_index: "Update E ents w = (Ok es, w') \<Longrightarrow> lastApplied (commander w') = Entry_Index (last ents)"
  by (auto simp: Update_def getCommander_def setCommander_def loadDb_def noPtr_def derefDb_def deref_def gopanic_apply
      ret_apply Let_def andThen_apply split: prod.splits outcome.splits if_splits sum.splits option.splits)

lemma holdsPrefix_running:
  "holdsPrefix contents cid nid log (w, True) f n \<longleftrightarrow>
     n \<le> length log \<and> lifeInv contents cid nid (w, True) (after log n) \<and> f = indexAt log n"
  by (simp add: holdsPrefix_def bornInv_def)

lemma lifeInv_running:
  assumes "lifeInv contents cid nid (w, True) m"
  obtains s where "liveState w = Some s" and "contents s = m" and "storedIndex m = Inr (lastApplied (commander w))"
    and "accepting w"
  using assms by (auto simp: lifeInv_def Let_def accepting_def procOk_simps)

lemma holdsPrefix_same:
  assumes "holdsPrefix contents cid nid log (w, True) f n" and "bornInv contents cid nid st' (after log n)"
  shows "holdsPrefix contents cid nid log st' f n"
  using assms by (auto simp: holdsPrefix_def)

context rocks
begin

lemma holds_open:
  assumes E: "rocksLib E = C" and holds: "holdsPrefix contents cid nid log (w, False) f n"
    and run: "Open E (restart cid nid w) = (x, w')"
  shows "holdsPrefix contents cid nid log (w', isOk x) (case x of Ok j \<Rightarrow> j | _ \<Rightarrow> f) n"
proof -
  have n: "n \<le> length log" and inv: "bornInv contents cid nid (w, False) (after log n)"
    using holds by (simp_all add: holdsPrefix_def)
  have "lifeStep E cid nid (w, False) Boot (w', isOk x)" using run by (rule lifeStep.boot)
  from born_step [OF E this inv] have inv': "bornInv contents cid nid (w', isOk x) (after log n)" by simp
  have "j = indexAt log n" if x: "x = Ok j" for j
  proof -
    have "lifeInv contents cid nid (w', True) (after log n)" using inv' x by (simp add: bornInv_def)
    then have "storedIndex (after log n) = Inr (lastApplied (commander w'))" by (rule lifeInv_running)
    then have "lastApplied (commander w') = indexAt log n" using storedIndex_after [OF n] by simp
    moreover have "lastApplied (commander w') = j" using Open_index [OF run [unfolded x]] .
    ultimately show ?thesis by simp
  qed
  then show ?thesis using n inv' by (auto simp: holdsPrefix_def isOk_def split: outcome.splits)
qed

lemma holds_update:
  assumes E: "rocksLib E = C" and log: "logOk log" and holds: "holdsPrefix contents cid nid log (w, True) f n"
    and ents: "ents = take k (filter (\<lambda>e. f < Entry_Index e) log)" and run: "Update E ents w = (x, w')"
  shows "\<exists>n' \<ge> n. holdsPrefix contents cid nid log (w', isOk x) (if isOk x then Entry_Index (last ents) else f) n'"
proof -
  have n: "n \<le> length log" and f: "f = indexAt log n" and inv: "bornInv contents cid nid (w, True) (after log n)"
    using holds by (simp_all add: holdsPrefix_def)
  have es: "ents = take k (drop n log)" using entries_after [OF log n] by (simp add: ents f)
  have "lifeStep E cid nid (w, True) (Apply ents) (w', isOk x)" using run by (rule lifeStep.update)
  from born_step [OF E this inv] obtain m' where abs: "absStep (Apply ents) (isOk x) (after log n) m'"
    and inv': "bornInv contents cid nid (w', isOk x) m'" by auto
  show ?thesis
  proof (cases "ents \<noteq> [] \<and> m' = applyEntries ents (after log n)")
    case True
    then have "holdsPrefix contents cid nid log (w', isOk x) (if isOk x then Entry_Index (last ents) else f) (n + length ents)"
      using inv' n after_step [of k n log] last_step [of k n log] by (auto simp: holdsPrefix_def es)
    then show ?thesis by (intro exI [of _ "n + length ents"]) simp
  next
    case False
    then have "\<not> isOk x" "m' = after log n" using abs by auto
    then show ?thesis using inv' n by (intro exI [of _ n]) (simp add: holdsPrefix_def)
  qed
qed

lemma holds_install:
  assumes E: "rocksLib E = C" and log: "logOk log" and holds: "holdsPrefix contents cid nid log (w, True) f n"
    and stream: "streamOk log (stream, j)" and newer: "f < j"
    and fresh: "map_of (tree w) (getNodeDBDirName cid nid @ ''/'' @ newDbName E (calls w)) = None"
    and run: "RecoverFromSnapshot E \<lparr>rd_data = take k stream, rd_end = e\<rparr> w = (x, w')"
  shows "\<exists>n' \<ge> n. holdsPrefix contents cid nid log (w', isOk x) (if isOk x then j else f) n'"
proof -
  have n: "n \<le> length log" and f: "f = indexAt log n" and inv: "bornInv contents cid nid (w, True) (after log n)"
    using holds by (simp_all add: holdsPrefix_def)
  obtain ns where ns: "ns \<le> length log" "stream = encodeSnapshot (pairs (after log ns))" "j = indexAt log ns"
    using stream by (auto simp: streamOk_def)
  have le: "n < ns" using newer indexAt_less_iff [OF log n ns(1)] by (simp add: f ns(3))
  have "lifeStep E cid nid (w, True) (Install \<lparr>rd_data = take k stream, rd_end = e\<rparr>) (w', isOk x)"
    using fresh run by (rule lifeStep.recover)
  from born_step [OF E this inv] obtain m' where abs: "absStep (Install \<lparr>rd_data = take k stream, rd_end = e\<rparr>) (isOk x) (after log n) m'"
    and inv': "bornInv contents cid nid (w', isOk x) m'" by auto
  from abs consider "m' = after log ns" | "\<not> isOk x" "m' = after log n"
    using decode_after [OF log, of k ns e] by (auto simp: ns(2))
  then show ?thesis
  proof cases
    case 1
    then show ?thesis using inv' ns le by (intro exI [of _ ns]) (simp add: holdsPrefix_def)
  next
    case 2
    then show ?thesis using inv' n by (intro exI [of _ n]) (simp add: holdsPrefix_def)
  qed
qed

text \<open>A call that leaves the database alone.\<close>

lemma holds_alone:
  assumes E: "rocksLib E = C" and holds: "holdsPrefix contents cid nid log st f n"
    and step: "lifeStep E cid nid st ev st'" and ev: "ev \<in> {Ask, Stop, Killed}"
  shows "holdsPrefix contents cid nid log st' f n"
proof -
  have "bornInv contents cid nid st (after log n)" using holds by (simp add: holdsPrefix_def)
  from born_step [OF E step this] ev have "bornInv contents cid nid st' (after log n)" by auto
  moreover have "snd st' \<longrightarrow> snd st" using step ev by (auto elim: lifeStep.cases)
  ultimately show ?thesis using holds by (simp add: holdsPrefix_def)
qed

lemma prepared_ok:
  assumes E: "rocksLib E = C" and holds: "holdsPrefix contents cid nid log (w, True) f n"
    and run: "PrepareSnapshot E w = (Ok ctx, w')"
  shows "preparedOk snapped log (ctx, f)"
proof -
  have n: "n \<le> length log" and inv: "lifeInv contents cid nid (w, True) (after log n)" and f: "f = indexAt log n"
    using holds by (simp_all add: holdsPrefix_running)
  obtain s where s: "liveState w = Some s" "contents s = after log n" "accepting w" using inv by (rule lifeInv_running)
  obtain r db dir where live: "live w = Some (r, db, dir, s)" using s(1) by (rule liveState_E)
  from PrepareSnapshot_live [OF E s(3) live] run obtain p ss where
    "ctx = \<lparr>ctx_db = Some p, ctx_snapshot = \<lparr>Snapshot_c = Some ss\<rparr>\<rparr>" "snapped ss = contents s" by auto
  then show ?thesis using n f s(2) by (auto simp: preparedOk_def)
qed

end

section \<open>Every step keeps it\<close>

lemma raft_step:
  assumes lib: "\<And>i. rocks_reliable (rocksLib (E i)) contents ops items rest snapped" and log: "logOk log" and step: "raftStep E cid nid log c c'"
    and inv: "raftInv contents snapped cid nid log ns c"
  shows "\<exists>ns'. raftInv contents snapped cid nid log ns' c' \<and> (\<forall>j. ns j \<le> ns' j)"
proof -
  note lib' = rocks_reliable.axioms(1) [OF lib]
  have holds: "holdsPrefix contents cid (nid i) log (replicas c i) (fed c i) (ns i)" for i
    using inv by (simp add: raftInv_def)
  have prep: "list_all (preparedOk snapped log) (prepared c i)" for i using inv by (simp add: raftInv_def)
  have str: "list_all (streamOk log) (streams c)" using inv by (simp add: raftInv_def)
  note set = raftInv_set [OF inv]
  from step show ?thesis
  proof (cases rule: raftStep.cases)
    case (open_ i w x w')
    from rocks.holds_open [OF lib' refl holds [of i, unfolded open_(2)] open_(3)]
    show ?thesis by (rule set) (simp_all add: open_(1) prep str)
  next
    case (apply_ i w ents k x w')
    from rocks.holds_update [OF lib' refl log holds [of i, unfolded apply_(2)] apply_(3,4)] obtain n' where
      "ns i \<le> n'" "holdsPrefix contents cid (nid i) log (w', isOk x) (if isOk x then Entry_Index (last ents) else fed c i) n'"
      by blast
    from this(2,1) show ?thesis by (rule set) (simp_all add: apply_(1) prep str)
  next
    case (prepare i w x w')
    have "lifeStep (E i) cid (nid i) (w, True) Ask (w', survives x)" using prepare(3) by (rule lifeStep.prepare)
    from rocks.holds_alone [OF lib' refl holds [of i, unfolded prepare(2)] this]
    have st: "holdsPrefix contents cid (nid i) log (w', survives x) (fed c i) (ns i)" by simp
    have "list_all (preparedOk snapped log) (case x of Ok ctx \<Rightarrow> [(ctx, fed c i)] | _ \<Rightarrow> [])"
      using rocks.prepared_ok [OF lib' refl holds [of i, unfolded prepare(2)]] prepare(3) by (cases x) simp_all
    with st show ?thesis by (intro set [OF st]) (simp_all add: prepare(1) prep str)
  next
    case (save i w ctx j wr x w')
    have "lifeStep (E i) cid (nid i) (w, True) Ask (w', survives x)" using save(5) by (rule lifeStep.save)
    from rocks.holds_alone [OF lib' refl holds [of i, unfolded save(2)] this]
    have st: "holdsPrefix contents cid (nid i) log (w', survives x) (fed c i) (ns i)" by simp
    obtain n ss where ok: "n \<le> length log" "ctx_snapshot ctx = \<lparr>Snapshot_c = Some ss\<rparr>" "snapped ss = after log n" "j = indexAt log n"
      using prep [of i] save(3) by (fastforce simp: list_all_iff preparedOk_def)
    have "streamOk log (wr_data wr', j)" if "x = Ok (wr', None)" for wr'
      using rocks_reliable.SaveSnapshot_complete [OF lib refl ok(2) save(5) [unfolded that]] ok save(4) by (auto simp: streamOk_def)
    then have "list_all (streamOk log) (case x of Ok (wr', None) \<Rightarrow> [(wr_data wr', j)] | _ \<Rightarrow> [])"
      by (auto split: outcome.splits option.splits)
    with st show ?thesis by (intro set [OF st]) (simp_all add: save(1) prep str)
  next
    case (install i w stream j k e x w')
    have "streamOk log (stream, j)" using str install(3) by (simp add: list_all_iff)
    from rocks.holds_install [OF lib' refl log holds [of i, unfolded install(2)] this install(4,5,6)] obtain n' where
      "ns i \<le> n'" "holdsPrefix contents cid (nid i) log (w', isOk x) (if isOk x then j else fed c i) n'" by blast
    from this(2,1) show ?thesis by (rule set) (simp_all add: install(1) prep str)
  next
    case (alone i ev st')
    from rocks.holds_alone [OF lib' refl holds alone(2,3)]
    show ?thesis by (rule set) (simp_all add: alone(1) prep str)
  qed
qed

lemma raft_steps:
  assumes lib: "\<And>i. rocks_reliable (rocksLib (E i)) contents ops items rest snapped" and log: "logOk log" and steps: "(raftStep E cid nid log)\<^sup>*\<^sup>* c c'"
    and inv: "raftInv contents snapped cid nid log ns c"
  shows "\<exists>ns'. raftInv contents snapped cid nid log ns' c' \<and> (\<forall>j. ns j \<le> ns' j)"
  using steps
proof (induction rule: rtranclp_induct)
  case base
  show ?case using inv by blast
next
  case (step c1 c2)
  then obtain ns1 where "raftInv contents snapped cid nid log ns1 c1" "\<forall>j. ns j \<le> ns1 j" by blast
  with raft_step [OF lib log step(2)] show ?case by (meson le_trans)
qed

section \<open>What is on a disk\<close>

text \<open>
  The contents of the current database of a replica, the empty one when none was made yet, and
  what a replica that runs serves.
\<close>

definition diskHolds :: "('s \<Rightarrow> bytes \<rightharpoonup> bytes) \<Rightarrow> string \<Rightarrow> 's tree \<Rightarrow> (bytes \<rightharpoonup> bytes) \<Rightarrow> bool" where
  "diskHolds contents dir t m \<longleftrightarrow> (\<exists>e. installed contents t dir e m) \<or> unopened t dir \<and> m = Map.empty"

definition servesIndex :: "('s \<Rightarrow> bytes \<rightharpoonup> bytes) \<Rightarrow> ('s, 'n) world \<Rightarrow> (bytes \<rightharpoonup> bytes) \<Rightarrow> uint64 \<Rightarrow> bool" where
  "servesIndex contents w m j \<longleftrightarrow> (\<exists>s. liveState w = Some s \<and> contents s = m) \<and> lastApplied (commander w) = j"

lemma holdsPrefix_disk:
  assumes "holdsPrefix contents cid nid log (w, on) f n"
  shows "n \<le> length log \<and> diskHolds contents (getNodeDBDirName cid nid) (tree w) (after log n)
    \<and> (on \<longrightarrow> servesIndex contents w (after log n) (indexAt log n) \<and> f = indexAt log n)"
  using assms storedIndex_after [of n log]
  by (auto simp: holdsPrefix_def bornInv_def lifeInv_def Let_def diskHolds_def servesIndex_def)

section \<open>Properties\<close>

text \<open>
  C1. Every replica holds a prefix of the log, and never a shorter one later. Take new replicas,
  on empty disks or on empty databases, and any sequence of their steps: starts, batches of
  entries, snapshots that are prepared, saved, sent in full or in part and installed,
  queries, closes and kills, where every call of the system and every opening, reading of a key and
  writing of the library may fail or be the last of its process; only its iterators are taken not
  to fail, since the code would not notice, and the name drawn for an installation to be new. At any time the current database of each replica holds what the first entries
  of the log give, every one applied once and in order; a replica that runs serves this
  contents, and its index is the one of the last of these entries and the one up to which
  the raft library has fed it. Nothing that was applied is lost afterwards.
\<close>

theorem replicas_hold_prefix:
  fixes E :: "nat \<Rightarrow> ('s, 'b, 'i, 'n) env"
  assumes "\<And>i. rocks_reliable (rocksLib (E i)) contents ops items rest snapped" and "logOk log"
    and "raftStart contents cid nid c0"
    and "(raftStep E cid nid log)\<^sup>*\<^sup>* c0 c1" and "(raftStep E cid nid log)\<^sup>*\<^sup>* c1 c2"
    and "replicas c1 i = (w1, on1)" and "replicas c2 i = (w2, on2)"
  shows "\<exists>n1 n2. n1 \<le> n2 \<and> n2 \<le> length log
    \<and> diskHolds contents (getNodeDBDirName cid (nid i)) (tree w1) (after log n1)
    \<and> diskHolds contents (getNodeDBDirName cid (nid i)) (tree w2) (after log n2)
    \<and> (on2 \<longrightarrow> servesIndex contents w2 (after log n2) (indexAt log n2) \<and> fed c2 i = indexAt log n2)"
proof -
  obtain ns1 where ns1: "raftInv contents snapped cid nid log ns1 c1"
    using raft_steps [OF assms(1,2,4) raftStart_inv [OF assms(3)]] by blast
  obtain ns2 where ns2: "raftInv contents snapped cid nid log ns2 c2" "\<And>j. ns1 j \<le> ns2 j"
    using raft_steps [OF assms(1,2,5) ns1] by blast
  have "holdsPrefix contents cid (nid i) log (w1, on1) (fed c1 i) (ns1 i)"
    "holdsPrefix contents cid (nid i) log (w2, on2) (fed c2 i) (ns2 i)"
    using ns1 ns2(1) assms(6,7) by (auto simp: raftInv_def dest: spec [of _ i])
  from this [THEN holdsPrefix_disk] ns2(2) [of i] show ?thesis by blast
qed

text \<open>
  C2. Replicas agree. Two replicas of one cluster that run and have applied the log up to the
  same index have the same contents and report the same hash, whatever crashes, restarts and
  transfers of snapshots brought them there. As before the iterators of the library are taken not to
  fail: a snapshot that one of them cuts short is saved and installed without an error, and a hash
  is computed over what they show.
\<close>

theorem same_index_same_state:
  fixes E :: "nat \<Rightarrow> ('s, 'b, 'i, 'n) env"
  assumes "\<And>i. rocks_reliable (rocksLib (E i)) contents ops items rest snapped" and "logOk log"
    and "raftStart contents cid nid c0" and "(raftStep E cid nid log)\<^sup>*\<^sup>* c0 c"
    and "replicas c i = (w, True)" and "replicas c j = (v, True)"
    and "lastApplied (commander w) = lastApplied (commander v)"
  shows "\<exists>s t h. liveState w = Some s \<and> liveState v = Some t \<and> contents s = contents t
    \<and> fst (GetHash (E i) w) = Ok h \<and> fst (GetHash (E j) v) = Ok h"
proof -
  obtain ns where ns: "raftInv contents snapped cid nid log ns c"
    using raft_steps [OF assms(1,2,4) raftStart_inv [OF assms(3)]] by blast
  have "holdsPrefix contents cid (nid i) log (w, True) (fed c i) (ns i)"
    "holdsPrefix contents cid (nid j) log (v, True) (fed c j) (ns j)"
    using ns assms(5,6) by (auto simp: raftInv_def dest: spec [of _ i] spec [of _ j])
  note 1 = this [THEN holdsPrefix_disk]
  then have "ns i = ns j" using assms(7) by (intro indexAt_inject [OF assms(2)]) (auto simp: servesIndex_def)
  then obtain s t where st: "liveState w = Some s" "liveState v = Some t" "contents s = contents t"
    using 1 by (auto simp: servesIndex_def)
  obtain r db d where s: "live w = Some (r, db, d, s)" using st(1) by (rule liveState_E)
  obtain r' db' d' where t: "live v = Some (r', db', d', t)" using st(2) by (rule liveState_E)
  from rocks_reliable.GetHash_live [OF assms(1) refl s] rocks_reliable.GetHash_live [OF assms(1) refl t] st
  show ?thesis by (metis fst_conv)
qed

text \<open>A cluster of replicas on empty databases, in which two start and apply the first entry.\<close>

definition exampleCluster :: "(refDb, refDb) raft" where
  "exampleCluster = \<lparr>replicas = (\<lambda>_. (exampleWorld [] 0, False)), fed = (\<lambda>_. 0), prepared = (\<lambda>_. []), streams = []\<rparr>"

lemma exampleCluster_start: "raftStart map_of 1 (\<lambda>_. 1) exampleCluster"
  using exampleWorld_plain [of "[]" 0] exampleWorld_installed [of "[]" 0] example_elem
  by (auto simp: raftStart_def exampleCluster_def Let_def getNodeDBDirName_example)

abbreviation exampleLog :: "Entry list" where
  "exampleLog \<equiv> [exampleEntry 1 ''k'' ''v'']"

lemma exampleLog_ok: "logOk exampleLog"
proof -
  have "entryAction (exampleEntry 1 ''k'' ''v'') = \<lparr>Action_Action = ''PUT'', Action_Key = ''k'', Action_Val = ''v''\<rparr>"
    by (subst entryAction_marshal [of _ "\<lparr>Action_Action = ''PUT'', Action_Key = ''k'', Action_Val = ''v''\<rparr>"])
      (simp_all add: exampleEntry_def cleanAction_def)
  then show ?thesis by (simp add: logOk_def)
qed

lemma example_catches_up:
  assumes "replicas c i = (exampleWorld [] 0, False)"
  shows "\<exists>w c'. (raftStep (\<lambda>_. exampleEnv (\<lambda>_. NoFault)) 1 (\<lambda>_. 1) exampleLog)\<^sup>*\<^sup>* c c'
    \<and> replicas c' = (replicas c)(i := (w, True)) \<and> fed c' i = 1 \<and> lastApplied (commander w) = 1"
proof -
  let ?E = "exampleEnv (\<lambda>_. NoFault)" and ?e = "exampleEntry 1 ''k'' ''v''"
  let ?step = "raftStep (\<lambda>_. ?E) 1 (\<lambda>_. 1) exampleLog"
  obtain w1 w2 where w1: "Open ?E (restart 1 1 (exampleWorld [] 0)) = (Ok 0, w1)"
    and w2: "Update ?E [?e] w1 = (Ok (map withResult [?e]), w2)"
    using example_run by blast
  define c1 where "c1 = (setReplica i (w1, True) 0 c)\<lparr>prepared := (prepared c)(i := [])\<rparr>"
  define c2 where "c2 = setReplica i (w2, True) 1 c1"
  have "?step c c1" using raftStep.open_ [OF assms, of "\<lambda>_. ?E" 1 "\<lambda>_. 1" "Ok 0" w1] w1 by (simp add: c1_def)
  moreover have "replicas c1 i = (w1, True)" by (simp add: c1_def)
  from raftStep.apply_ [OF this, of "[?e]" 1 exampleLog "\<lambda>_. ?E" "Ok (map withResult [?e])" w2 1 "\<lambda>_. 1"] w2
  have "?step c1 c2" by (simp add: c2_def c1_def)
  ultimately have "?step\<^sup>*\<^sup>* c c2" by (meson r_into_rtranclp rtranclp.rtrancl_into_rtrancl)
  moreover have "replicas c2 = (replicas c)(i := (w2, True))" "fed c2 i = 1" by (simp_all add: c2_def c1_def)
  moreover have "lastApplied (commander w2) = 1" using Update_index [OF w2] by simp
  ultimately show ?thesis by blast
qed

theorem replicas_hold_prefix_witness:
  "\<exists>w c. (raftStep (\<lambda>_. exampleEnv (\<lambda>_. NoFault)) 1 (\<lambda>_. 1) exampleLog)\<^sup>*\<^sup>* exampleCluster c \<and> replicas c 0 = (w, True)
     \<and> diskHolds map_of exampleDir (tree w) (after exampleLog 1)"
proof -
  let ?E = "exampleEnv (\<lambda>_. NoFault)"
  have lib: "rocks_reliable (rocksLib ?E) map_of (\<lambda>b. b) fst snd map_of" by (simp add: refLib.rocks_reliable_axioms)
  obtain w c where run: "(raftStep (\<lambda>_. ?E) 1 (\<lambda>_. 1) exampleLog)\<^sup>*\<^sup>* exampleCluster c"
    and c: "replicas c 0 = (w, True)" "fed c 0 = 1"
    using example_catches_up [of exampleCluster 0] by (auto simp: exampleCluster_def)
  have c0: "replicas exampleCluster 0 = (exampleWorld [] 0, False)" by (simp add: exampleCluster_def)
  from replicas_hold_prefix [of "\<lambda>_. ?E", OF lib exampleLog_ok exampleCluster_start rtranclp.rtrancl_refl run c0 c(1)]
  obtain n where n: "n \<le> length exampleLog" "diskHolds map_of exampleDir (tree w) (after exampleLog n)" "fed c 0 = indexAt exampleLog n"
    by (auto simp: getNodeDBDirName_example)
  then have "n = 1" using c(2) by (cases n) (auto simp: indexAt_def)
  then show ?thesis using run c(1) n(2) by blast
qed

theorem same_index_same_state_witness:
  "\<exists>w v c h. (raftStep (\<lambda>_. exampleEnv (\<lambda>_. NoFault)) 1 (\<lambda>_. 1) exampleLog)\<^sup>*\<^sup>* exampleCluster c
     \<and> replicas c 0 = (w, True) \<and> replicas c 1 = (v, True)
     \<and> fst (GetHash (exampleEnv (\<lambda>_. NoFault)) w) = Ok h \<and> fst (GetHash (exampleEnv (\<lambda>_. NoFault)) v) = Ok h"
proof -
  let ?E = "exampleEnv (\<lambda>_. NoFault)"
  have lib: "rocks_reliable (rocksLib ?E) map_of (\<lambda>b. b) fst snd map_of" by (simp add: refLib.rocks_reliable_axioms)
  obtain w c1 where 1: "(raftStep (\<lambda>_. ?E) 1 (\<lambda>_. 1) exampleLog)\<^sup>*\<^sup>* exampleCluster c1"
      "replicas c1 = (replicas exampleCluster)(0 := (w, True))" "lastApplied (commander w) = 1"
    using example_catches_up [of exampleCluster 0] by (auto simp: exampleCluster_def)
  then have "replicas c1 1 = (exampleWorld [] 0, False)" by (simp add: exampleCluster_def)
  from example_catches_up [OF this] obtain v c where 2: "(raftStep (\<lambda>_. ?E) 1 (\<lambda>_. 1) exampleLog)\<^sup>*\<^sup>* c1 c"
      "replicas c = (replicas c1)(1 := (v, True))" "lastApplied (commander v) = 1" by blast
  have run: "(raftStep (\<lambda>_. ?E) 1 (\<lambda>_. 1) exampleLog)\<^sup>*\<^sup>* exampleCluster c" using 1(1) 2(1) by (rule rtranclp_trans)
  have c: "replicas c 0 = (w, True)" "replicas c 1 = (v, True)" using 1(2) 2(2) by simp_all
  have "lastApplied (commander w) = lastApplied (commander v)" using 1(3) 2(3) by simp
  from same_index_same_state [of "\<lambda>_. ?E", OF lib exampleLog_ok exampleCluster_start run c this] run c
  show ?thesis by blast
qed

end
