(* ===== verification/Commander_Concurrent.thy ===== *)
theory Commander_Concurrent
  imports Commander_Life
begin

text \<open>
  Lookups beside updates, installations and a close. The raft library calls \<^verbatim>\<open>Lookup\<close> from
  many goroutines while another one applies entries, installs snapshots and closes the replica;
  \<^verbatim>\<open>Commander\<close> and its \<^verbatim>\<open>rocksdb\<close> structs are shared. A lookup is cut into steps at every access to
  the shared state, and so is the exchange of the database: the atomic pointer \<^verbatim>\<open>d.db\<close>, the flag
  \<^verbatim>\<open>d.closed\<close>, the read-write mutex of a \<^verbatim>\<open>rocksdb\<close> struct and its flag \<^verbatim>\<open>closed\<close>. The steps of one
  goroutine alone are those of the sequential definitions. A panic would end the process; here the
  other goroutines may go on, so that all states before a panic are there and some more.
\<close>

section \<open>The lookups\<close>

definition isScan :: "bytes \<Rightarrow> bool" where
  "isScan q \<longleftrightarrow> Action_Action (queryAction q) = ''SCAN''"

text \<open>A \<^verbatim>\<open>sync.RWMutex\<close>: its readers, a writer that waits for them, and the writer.\<close>

record rwmutex =
  rw_readers :: "nat set"
  rw_pending :: bool
  rw_writer :: bool

text \<open>
  Where a goroutine is in \<^verbatim>\<open>Lookup\<close>: about to load \<^verbatim>\<open>d.db\<close>; in \<^verbatim>\<open>db.lookup\<close> with the loaded pointer,
  before taking the mutex, before looking at \<^verbatim>\<open>r.closed\<close>, before the read, and with the result
  before the deferred unlock; before looking at \<^verbatim>\<open>d.closed\<close>; in a scan with the loaded pointer,
  before the iterator is placed, and in its loop; returned.
\<close>

datatype 'i call =
    Called bytes
  | Loaded bytes nat | Locked bytes nat | Reading bytes nat | Answered bytes nat "bytes outcome"
  | Unlocked bytes "bytes outcome"
  | ScanCreate bytes nat | Seeking bytes DB "'i Iterator" | Scanning bytes DB "'i Iterator" gomap
  | Returned bytes "bytes outcome"

text \<open>
  Where the goroutine is that writes: between two calls; in \<^verbatim>\<open>r.close()\<close> on a struct that was
  taken out of \<^verbatim>\<open>d.db\<close>, with the directory that is to be removed afterwards; before the removal;
  past its last call. In \<^verbatim>\<open>close\<close> it sets \<^verbatim>\<open>d.closed\<close> (only in \<^verbatim>\<open>Close\<close>), asks for the mutex, waits for the
  readers, sets \<^verbatim>\<open>r.closed\<close>, closes the database and drops the objects, and unlocks.
\<close>

datatype stage = Marking | Locking | Waiting | Flagging | Shutting | Unlocking

datatype master = Ready | Closer stage nat "string option" | Removing string | Ended

record ('s, 'n, 'i) conc =
  c_world :: "('s, 'n) world"
  c_locks :: "nat \<Rightarrow> rwmutex"
  c_calls :: "nat \<Rightarrow> 'i call"
  c_master :: master

text \<open>The outcomes of a part that end the whole call.\<close>

definition failed :: "'a outcome \<Rightarrow> bytes outcome" where
  "failed x = (case x of Ok _ \<Rightarrow> Diverge | Err e \<Rightarrow> Err e | Panic p \<Rightarrow> Panic p | Crash \<Rightarrow> Crash | Diverge \<Rightarrow> Diverge)"

definition goto :: "nat \<Rightarrow> 'i call \<Rightarrow> ('s, 'n, 'i) conc \<Rightarrow> ('s, 'n, 'i) conc" where
  "goto t c s = s\<lparr>c_calls := (c_calls s)(t := c)\<rparr>"

definition withLock :: "nat \<Rightarrow> (rwmutex \<Rightarrow> rwmutex) \<Rightarrow> ('s, 'n, 'i) conc \<Rightarrow> ('s, 'n, 'i) conc" where
  "withLock p f s = s\<lparr>c_locks := (c_locks s)(p := f (c_locks s p))\<rparr>"

definition withWorld :: "('s, 'n) world \<Rightarrow> ('s, 'n, 'i) conc \<Rightarrow> ('s, 'n, 'i) conc" where
  "withWorld w s = s\<lparr>c_world := w\<rparr>"

definition become :: "master \<Rightarrow> ('s, 'n, 'i) conc \<Rightarrow> ('s, 'n, 'i) conc" where
  "become m s = s\<lparr>c_master := m\<rparr>"

text \<open>The read of \<^verbatim>\<open>db.lookup\<close> under the mutex, and the first call of a scan.\<close>

definition readKey :: "('s, 'b, 'i, 'n) env \<Rightarrow> nat \<Rightarrow> bytes \<Rightarrow> ('s, 'n, bytes) op" where
  "readKey E p key = derefDb p (\<lambda>r db. andThen (dbGet E db (rdb_ro r) key) (\<lambda>val.
     let data = sliceData val in if length data = 0 then ret '''' else ret data))"

definition scanIterator :: "('s, 'b, 'i, 'n) env \<Rightarrow> nat \<Rightarrow> ('s, 'n, DB \<times> 'i Iterator) op" where
  "scanIterator E p = (let ro = SetFillCache NewDefaultReadOptions False
     in derefDb p (\<lambda>r db. andThen (dbNewIterator E db ro) (\<lambda>it. ret (db, it))))"

text \<open>
  The loop of a scan, one round at a time. Its iterator is an object of the database: using it
  when the database is closed is using freed memory, which ends the process here.
\<close>

definition useIterator :: "DB \<Rightarrow> (('s, 'n) world \<Rightarrow> 'a outcome \<times> ('s, 'n) world) \<Rightarrow> ('s, 'n, 'a) op" where
  "useIterator h f = (\<lambda>w. if openDbs w (DB_c h) = None then (Panic ''use of a closed database'', w) else f w)"

definition seekStep :: "('s, 'b, 'i, 'n) env \<Rightarrow> DB \<Rightarrow> 'i Iterator \<Rightarrow> string \<Rightarrow> ('s, 'n, 'i Iterator) op" where
  "seekStep E h it pre = useIterator h (\<lambda>w. (Ok (iterSeek (rocksLib E) (calls w) it pre), w\<lparr>calls := Suc (calls w)\<rparr>))"

definition scanStep :: "('s, 'b, 'i, 'n) env \<Rightarrow> DB \<Rightarrow> 'i Iterator \<Rightarrow> string \<Rightarrow> gomap
    \<Rightarrow> ('s, 'n, gomap + 'i Iterator \<times> gomap) op" where
  "scanStep E h it pre acc = useIterator h (\<lambda>w.
     let C = rocksLib E
     in if \<not> iterValid C it then (Ok (Inl acc), w)
        else (case iterKey C it of
                None \<Rightarrow> (Panic nilDeref, w)
              | Some key \<Rightarrow> (case iterValue C it of
                  None \<Rightarrow> (Panic nilDeref, w)
                | Some value \<Rightarrow>
                    let k = sliceData key
                    in if \<not> HasPrefix k pre then (Ok (Inl acc), w)
                       else (Ok (Inr (iterNext C (calls w) it, AList.update k (sliceData value) acc)),
                             w\<lparr>calls := Suc (calls w)\<rparr>))))"

inductive callStep :: "('s, 'b, 'i, 'n) env \<Rightarrow> nat \<Rightarrow> ('s, 'n, 'i) conc \<Rightarrow> ('s, 'n, 'i) conc \<Rightarrow> bool" for E t where
  load_none: "c_calls s t = Called q \<Longrightarrow> cmd_db (commander (c_world s)) = None
    \<Longrightarrow> callStep E t s (goto t (Returned q (Err (ErrorString ''db closed''))) s)"
| load: "c_calls s t = Called q \<Longrightarrow> cmd_db (commander (c_world s)) = Some p
    \<Longrightarrow> callStep E t s (goto t (if isScan q then ScanCreate q p else Loaded q p) s)"
| rlock: "c_calls s t = Loaded q p \<Longrightarrow> \<not> rw_writer (c_locks s p) \<Longrightarrow> \<not> rw_pending (c_locks s p)
    \<Longrightarrow> callStep E t s (goto t (Locked q p) (withLock p (\<lambda>m. m\<lparr>rw_readers := insert t (rw_readers m)\<rparr>) s))"
| check: "c_calls s t = Locked q p \<Longrightarrow> rheap (c_world s) p = Some r
    \<Longrightarrow> callStep E t s (goto t (if rdb_closed r then Answered q p (Err (ErrorString ''db already closed'')) else Reading q p) s)"
| read: "c_calls s t = Reading q p \<Longrightarrow> readKey E p (Action_Key (queryAction q)) (c_world s) = (x, w')
    \<Longrightarrow> callStep E t s (goto t (Answered q p x) (withWorld w' s))"
| runlock: "c_calls s t = Answered q p x
    \<Longrightarrow> callStep E t s (goto t (Unlocked q x) (withLock p (\<lambda>m. m\<lparr>rw_readers := rw_readers m - {t}\<rparr>) s))"
| finish: "c_calls s t = Unlocked q x
    \<Longrightarrow> callStep E t s (goto t (Returned q (if (\<exists>v. x = Ok v) \<and> cmd_closed (commander (c_world s))
           then Panic ''lookup returned valid result when Commander is already closed'' else x)) s)"
| create: "c_calls s t = ScanCreate q p \<Longrightarrow> scanIterator E p (c_world s) = (x, w')
    \<Longrightarrow> callStep E t s (goto t (case x of Ok (h, it) \<Rightarrow> Seeking q h it | _ \<Rightarrow> Returned q (failed x)) (withWorld w' s))"
| seek: "c_calls s t = Seeking q h it \<Longrightarrow> seekStep E h it (Action_Key (queryAction q)) (c_world s) = (x, w')
    \<Longrightarrow> callStep E t s (goto t (case x of Ok it' \<Rightarrow> Scanning q h it' [] | _ \<Rightarrow> Returned q (failed x)) (withWorld w' s))"
| scan: "c_calls s t = Scanning q h it acc
    \<Longrightarrow> scanStep E h it (Action_Key (queryAction q)) acc (c_world s) = (x, w')
    \<Longrightarrow> callStep E t s (goto t (case x of Ok (Inl res) \<Rightarrow> Returned q (Ok (marshalMap res))
           | Ok (Inr (it', acc')) \<Rightarrow> Scanning q h it' acc' | _ \<Rightarrow> Returned q (failed x)) (withWorld w' s))"

section \<open>The writer\<close>

text \<open>\<^verbatim>\<open>RecoverFromSnapshot\<close> up to the exchange of \<^verbatim>\<open>d.db\<close>: the old pointer and the old directory.\<close>

definition installHead :: "('s, 'b, 'i, 'n) env \<Rightarrow> Reader \<Rightarrow> ('s, 'n, nat option \<times> string) op" where
  "installHead E r =
     andThen getCommander (\<lambda>d.
     if cmd_closed d then gopanic ''recover from snapshot called after Close()''
     else
      (let dir = getNodeDBDirName (clusterID d) (nodeID d)
       in andThen (getNewRandomDBDirName E dir) (\<lambda>dbdir.
          andThen (getCurrentDBDirName E dir) (\<lambda>oldDirName.
          andThen (createDB E dbdir) (\<lambda>db.
          andThen (loadBatch (rocksLib E) r) (\<lambda>wb.
          andThen (derefDb db (\<lambda>rdb h. dbWrite E h (rdb_wo rdb) wb)) (\<lambda>_.
          andThen (saveCurrentDBDirName E dir dbdir) (\<lambda>_.
          andThen (replaceCurrentDBFile E dir) (\<lambda>_.
          andThen (orPanic (queryAppliedIndex E db) ''query applied index'') (\<lambda>newLastApplied.
          andThen getCommander (\<lambda>d.
          if lastApplied d > newLastApplied then gopanic ''last applied not moving forward''
          else
            andThen (setCommander (\<lambda>d. d\<lparr>lastApplied := newLastApplied\<rparr>)) (\<lambda>_.
            andThen (swapDb (Some db)) (\<lambda>old. ret (old, oldDirName))))))))))))))"

lemma RecoverFromSnapshot_head:
  "RecoverFromSnapshot E r = andThen (installHead E r) (\<lambda>(old, dir).
     andThen (case old of None \<Rightarrow> ret () | Some p \<Rightarrow> rocksdb_close p) (\<lambda>_. RemoveAll E dir))"
  by (rule ext) (simp add: RecoverFromSnapshot_def installHead_def Let_def andThen_apply getCommander_def gopanic_apply
      setCommander_def swapDb_def ret_apply split: prod.splits outcome.splits)

text \<open>The two parts of \<^verbatim>\<open>r.close()\<close> under the mutex.\<close>

definition setClosed :: "nat \<Rightarrow> ('s, 'n, unit) op" where
  "setClosed p = deref p (\<lambda>r w. (Ok (), w\<lparr>rheap := (rheap w)(p \<mapsto> r\<lparr>rdb_closed := True\<rparr>)\<rparr>))"

definition shutDb :: "nat \<Rightarrow> ('s, 'n, unit) op" where
  "shutDb p = deref p (\<lambda>r.
     andThen (case rdb_db r of None \<Rightarrow> ret () | Some db \<Rightarrow> dbClose db) (\<lambda>_ w.
       (Ok (), w\<lparr>rheap := (rheap w)(p \<mapsto> r\<lparr>rdb_db := None,
          rdb_opts := OptionsDestroy (rdb_opts r), rdb_wo := WriteOptionsDestroy (rdb_wo r),
          rdb_ro := ReadOptionsDestroy (rdb_ro r)\<rparr>)\<rparr>)))"

lemma rocksdb_close_parts: "rocksdb_close p = andThen (setClosed p) (\<lambda>_. shutDb p)"
  by (rule ext) (simp add: rocksdb_close_def setClosed_def shutDb_def deref_def andThen_apply ret_apply dbClose_def
      split: option.splits)

text \<open>
  The steps of the writer. An update changes one thing that a lookup can see, the contents of
  the database, by one write of the library; an installation changes nothing that a lookup can
  see before it exchanges \<^verbatim>\<open>d.db\<close>. So each of them is one step. The new directory of an
  installation is not there before: its name is a random number and the time.
\<close>

inductive masterStep :: "('s, 'b, 'i, 'n) env \<Rightarrow> ('s, 'n, 'i) conc \<Rightarrow> ('s, 'n, 'i) conc \<Rightarrow> bool" for E where
  update: "c_master s = Ready \<Longrightarrow> Update E ents (c_world s) = (x, w')
    \<Longrightarrow> masterStep E s (become (if isOk x then Ready else Ended) (withWorld w' s))"
| install: "c_master s = Ready
    \<Longrightarrow> map_of (tree (c_world s)) (getNodeDBDirName (clusterID (commander (c_world s))) (nodeID (commander (c_world s)))
          @ ''/'' @ newDbName E (calls (c_world s))) = None
    \<Longrightarrow> installHead E r (c_world s) = (x, w')
    \<Longrightarrow> masterStep E s (become (case x of Ok (Some p, d) \<Rightarrow> Closer Locking p (Some d)
          | Ok (None, d) \<Rightarrow> Removing d | _ \<Rightarrow> Ended) (withWorld w' s))"
| close: "c_master s = Ready \<Longrightarrow> swapDb None (c_world s) = (Ok db, w')
    \<Longrightarrow> masterStep E s (become (case db of None \<Rightarrow> Ended | Some p \<Rightarrow> Closer Marking p None) (withWorld w' s))"
| mark: "c_master s = Closer Marking p a \<Longrightarrow> setCommander (\<lambda>d. d\<lparr>cmd_closed := True\<rparr>) (c_world s) = (Ok u, w')
    \<Longrightarrow> masterStep E s (become (Closer Locking p a) (withWorld w' s))"
| lock: "c_master s = Closer Locking p a
    \<Longrightarrow> masterStep E s (become (Closer Waiting p a) (withLock p (\<lambda>m. m\<lparr>rw_pending := True\<rparr>) s))"
| acquire: "c_master s = Closer Waiting p a \<Longrightarrow> rw_readers (c_locks s p) = {}
    \<Longrightarrow> masterStep E s (become (Closer Flagging p a) (withLock p (\<lambda>m. m\<lparr>rw_pending := False, rw_writer := True\<rparr>) s))"
| flag: "c_master s = Closer Flagging p a \<Longrightarrow> setClosed p (c_world s) = (Ok u, w')
    \<Longrightarrow> masterStep E s (become (Closer Shutting p a) (withWorld w' s))"
| shut: "c_master s = Closer Shutting p a \<Longrightarrow> shutDb p (c_world s) = (Ok u, w')
    \<Longrightarrow> masterStep E s (become (Closer Unlocking p a) (withWorld w' s))"
| unlock: "c_master s = Closer Unlocking p a
    \<Longrightarrow> masterStep E s (become (case a of None \<Rightarrow> Ended | Some d \<Rightarrow> Removing d)
          (withLock p (\<lambda>m. m\<lparr>rw_writer := False\<rparr>) s))"
| remove: "c_master s = Removing d \<Longrightarrow> RemoveAll E d (c_world s) = (x, w')
    \<Longrightarrow> masterStep E s (become (if isOk x then Ready else Ended) (withWorld w' s))"

definition concStep :: "('s, 'b, 'i, 'n) env \<Rightarrow> ('s, 'n, 'i) conc \<Rightarrow> ('s, 'n, 'i) conc \<Rightarrow> bool" where
  "concStep E s s' \<longleftrightarrow> masterStep E s s' \<or> (\<exists>t. callStep E t s s')"

text \<open>At the start a replica serves its database and every goroutine is about to look something up.\<close>

definition concStart :: "('s, 'n) world \<Rightarrow> (nat \<Rightarrow> bytes) \<Rightarrow> ('s, 'n, 'i) conc" where
  "concStart w queries = \<lparr>c_world = w, c_locks = (\<lambda>_. \<lparr>rw_readers = {}, rw_pending = False, rw_writer = False\<rparr>),
     c_calls = (\<lambda>t. Called (queries t)), c_master = Ready\<rparr>"

section \<open>One goroutine alone\<close>

lemma goto_simps [simp]:
  "c_world (goto t c s) = c_world s" "c_locks (goto t c s) = c_locks s" "c_master (goto t c s) = c_master s"
  "c_calls (goto t c s) = (c_calls s)(t := c)" "goto t c' (goto t c s) = goto t c' s"
  "c_world (withLock p f s) = c_world s" "c_calls (withLock p f s) = c_calls s" "c_master (withLock p f s) = c_master s"
  "c_locks (withLock p f s) = (c_locks s)(p := f (c_locks s p))" "withLock p f (goto t c s) = goto t c (withLock p f s)"
  "c_world (withWorld w s) = w" "c_locks (withWorld w s) = c_locks s" "c_calls (withWorld w s) = c_calls s"
  "c_master (withWorld w s) = c_master s" "withWorld w (goto t c s) = goto t c (withWorld w s)"
  "withWorld w (withLock p f s) = withLock p f (withWorld w s)" "withWorld w' (withWorld w s) = withWorld w' s"
  "c_world (become m s) = c_world s" "c_locks (become m s) = c_locks s" "c_calls (become m s) = c_calls s"
  "c_master (become m s) = m"
  by (simp_all add: goto_def withLock_def withWorld_def become_def)

lemma withLock_readers:
  assumes "t \<notin> rw_readers (c_locks s p)"
  shows "withLock p (\<lambda>m. m\<lparr>rw_readers := rw_readers m - {t}\<rparr>) (withLock p (\<lambda>m. m\<lparr>rw_readers := insert t (rw_readers m)\<rparr>) s) = s"
  using assms by (simp add: withLock_def)

lemma iterator_open: "openDbs w (DB_c h) \<noteq> None \<Longrightarrow> useIterator h f w = f w"
  by (auto simp: useIterator_def)

text \<open>The rounds of a scan are its loop.\<close>

definition scanResult :: "string + gomap \<Rightarrow> bytes outcome" where
  "scanResult res = (case res of Inl p \<Rightarrow> Panic p | Inr m \<Rightarrow> Ok (marshalMap m))"

lemma scan_rounds:
  fixes E :: "('s, 'b, 'i, 'n) env"
  assumes "scanLoop (rocksLib E) (Action_Key (queryAction q)) it n acc = Some (res, n')"
    and "c_calls s t = Scanning q h it acc" and "calls (c_world s) = n" and "openDbs (c_world s) (DB_c h) \<noteq> None"
  shows "(callStep E t)\<^sup>*\<^sup>* s (goto t (Returned q (scanResult res)) (withWorld ((c_world s)\<lparr>calls := n'\<rparr>) s))"
proof -
  let ?C = "rocksLib E" and ?pre = "Action_Key (queryAction q)"
  have "C = ?C \<longrightarrow> pre = ?pre \<longrightarrow> (\<forall>s. c_calls s t = Scanning q h it acc \<longrightarrow> calls (c_world s) = n \<longrightarrow>
      openDbs (c_world s) (DB_c h) \<noteq> None \<longrightarrow>
      (callStep E t)\<^sup>*\<^sup>* s (goto t (Returned q (scanResult (fst y))) (withWorld ((c_world s)\<lparr>calls := snd y\<rparr>) s)))"
    if "scanLoop C pre it n acc = Some y" for C pre it n acc y
  proof (rule scanLoop.raw_induct [OF _ that], goal_cases)
    case (1 f C pre it n acc y)
    show ?case
    proof (intro impI allI)
      fix s :: "('s, 'n, 'i) conc"
      assume C: "C = ?C" "pre = ?pre" and s: "c_calls s t = Scanning q h it acc" "calls (c_world s) = n"
        "openDbs (c_world s) (DB_c h) \<noteq> None"
      note open' = iterator_open [OF s(3)]
      obtain x w1 where step: "scanStep E h it ?pre acc (c_world s) = (x, w1)" by (metis surj_pair)
      let ?s1 = "goto t (case x of Ok (Inl res) \<Rightarrow> Returned q (Ok (marshalMap res))
           | Ok (Inr (it', acc')) \<Rightarrow> Scanning q h it' acc' | _ \<Rightarrow> Returned q (failed x)) (withWorld w1 s)"
      have one: "callStep E t s ?s1" using callStep.scan [OF s(1) step] .
      have same: "(c_world s)\<lparr>calls := n\<rparr> = c_world s" using s(2) by simp
      show "(callStep E t)\<^sup>*\<^sup>* s (goto t (Returned q (scanResult (fst y))) (withWorld ((c_world s)\<lparr>calls := snd y\<rparr>) s))"
      proof (cases "\<exists>it' acc'. x = Ok (Inr (it', acc'))")
        case False
        then have "(case x of Ok (Inl res) \<Rightarrow> Returned q (Ok (marshalMap res)) | Ok (Inr (it', acc')) \<Rightarrow> Scanning q h it' acc'
            | _ \<Rightarrow> Returned q (failed x)) = Returned q (scanResult (fst y)) \<and> w1 = (c_world s)\<lparr>calls := snd y\<rparr>"
          using step 1(2) same by (auto simp: scanStep_def open' Let_def C scanResult_def failed_def
              split: option.splits if_splits)
        then show ?thesis using one by auto
      next
        case True
        then obtain it' acc' where x: "x = Ok (Inr (it', acc'))" by blast
        have f: "f C pre it' (Suc n) acc' = Some y" and w1: "w1 = (c_world s)\<lparr>calls := Suc n\<rparr>"
          using step 1(2) x s(2) by (auto simp: scanStep_def open' Let_def C split: option.splits if_splits)
        have "(callStep E t)\<^sup>*\<^sup>* ?s1 (goto t (Returned q (scanResult (fst y))) (withWorld ((c_world ?s1)\<lparr>calls := snd y\<rparr>) ?s1))"
          using 1(1) [OF f, rule_format, OF C, of ?s1] s(3) by (simp add: x w1)
        then show ?thesis using one by (simp add: x w1)
      qed
    qed
  qed
  from this [OF assms(1)] assms(2-) show ?thesis by simp
qed

text \<open>
  A lookup whose mutex nobody asks for: its steps, one after the other, end where the sequential
  \<^verbatim>\<open>Lookup\<close> ends, with the same result.
\<close>

lemma get_read:
  assumes s: "c_calls s t = Called q" and q: "\<not> isScan q" and p: "cmd_db (commander (c_world s)) = Some p"
    and lock: "\<not> rw_writer (c_locks s p)" "\<not> rw_pending (c_locks s p)" "t \<notin> rw_readers (c_locks s p)"
    and r: "rheap (c_world s) p = Some r"
    and y: "(if rdb_closed r then err (ErrorString ''db already closed'')
      else readKey E p (Action_Key (queryAction q))) (c_world s) = (y, w1)"
  shows "(callStep E t)\<^sup>*\<^sup>* s (goto t (Unlocked q y) (withWorld w1 s))"
proof -
  let ?rl = "withLock p (\<lambda>m. m\<lparr>rw_readers := insert t (rw_readers m)\<rparr>) s"
  have 1: "(callStep E t)\<^sup>*\<^sup>* s (goto t (Locked q p) ?rl)"
    using callStep.load [OF s p] callStep.rlock [of "goto t (Loaded q p) s" t q p E] lock q
    by (auto intro: converse_rtranclp_into_rtranclp)
  have 2: "(callStep E t)\<^sup>*\<^sup>* (goto t (Locked q p) ?rl) (goto t (Answered q p y) (withWorld w1 ?rl))"
  proof (cases "rdb_closed r")
    case True
    then have "y = Err (ErrorString ''db already closed'')" "w1 = c_world s" using y by (simp_all add: err_apply)
    then show ?thesis using callStep.check [of "goto t (Locked q p) ?rl" t q p r E] r True
      by (auto simp: withWorld_def withLock_def goto_def)
  next
    case False
    then show ?thesis
      using callStep.check [of "goto t (Locked q p) ?rl" t q p r E] r y
        callStep.read [of "goto t (Reading q p) ?rl" t q p E y w1]
      by (auto intro: converse_rtranclp_into_rtranclp)
  qed
  have unl: "withLock p (\<lambda>m. m\<lparr>rw_readers := rw_readers m - {t}\<rparr>) (withWorld w1 ?rl) = withWorld w1 s"
    using withLock_readers [of t "withWorld w1 s" p] lock(3) by simp
  have 3: "callStep E t (goto t (Answered q p y) (withWorld w1 ?rl)) (goto t (Unlocked q y) (withWorld w1 s))"
    using callStep.runlock [of "goto t (Answered q p y) (withWorld w1 ?rl)" t q p y E] unl by simp
  from 1 2 3 show ?thesis by (meson rtranclp_trans rtranclp.rtrancl_into_rtrancl)
qed

lemma get_alone:
  assumes s: "c_calls s t = Called q" and q: "\<not> isScan q" and p: "cmd_db (commander (c_world s)) = Some p"
    and lock: "\<not> rw_writer (c_locks s p)" "\<not> rw_pending (c_locks s p)" "t \<notin> rw_readers (c_locks s p)"
    and r: "rheap (c_world s) p = Some r"
    and run: "Lookup E q (c_world s) = (x, w')"
  shows "(callStep E t)\<^sup>*\<^sup>* s (goto t (Returned q x) (withWorld w' s))"
proof -
  obtain y w1 where y: "(if rdb_closed r then err (ErrorString ''db already closed'')
      else readKey E p (Action_Key (queryAction q))) (c_world s) = (y, w1)" by (metis surj_pair)
  have w': "w' = w1" and x: "x = (if (\<exists>v. y = Ok v) \<and> cmd_closed (commander w1)
      then Panic ''lookup returned valid result when Commander is already closed'' else y)"
    using run y q p r
    by (auto simp: Lookup_def loadDb_def Let_def rocksdb_lookup_def deref_def readKey_def andThen_apply err_apply
        queryAction_def [symmetric] isScan_def getCommander_def gopanic_apply ret_apply
        split: if_splits prod.splits outcome.splits)
  have "callStep E t (goto t (Unlocked q y) (withWorld w1 s)) (goto t (Returned q x) (withWorld w1 s))"
    using callStep.finish [of "goto t (Unlocked q y) (withWorld w1 s)" t q y E] x by auto
  with get_read [OF s q p lock r y] w' show ?thesis by (meson rtranclp.rtrancl_into_rtrancl)
qed

lemma scan_alone:
  fixes E :: "('s, 'b, 'i, 'n) env"
  assumes s: "c_calls s t = Called q" and q: "isScan q" and p: "cmd_db (commander (c_world s)) = Some p"
    and run: "Lookup E q (c_world s) = (x, w')" and x: "x \<noteq> Diverge"
  shows "(callStep E t)\<^sup>*\<^sup>* s (goto t (Returned q x) (withWorld w' s))"
proof -
  let ?pre = "Action_Key (queryAction q)" and ?C = "rocksLib E"
  let ?scan = "andThen (scanIterator E p) (\<lambda>(h, it). runLoop (\<lambda>n. scanLoop ?C ?pre (iterSeek ?C n it ?pre) (Suc n) []))"
  have sc: "scan E p ?pre = ?scan"
    by (rule ext) (simp add: scan_def scanIterator_def Let_def derefDb_def deref_def andThen_apply ret_apply gopanic_apply
        split: option.splits prod.splits outcome.splits)
  have run': "andThen ?scan (\<lambda>m. ret (marshalMap m)) (c_world s) = (x, w')"
    using run p q by (simp add: Lookup_def loadDb_def andThen_apply Let_def queryAction_def [symmetric] isScan_def sc)
  have 1: "callStep E t s (goto t (ScanCreate q p) s)" using callStep.load [OF s p] q by auto
  obtain y w1 where y: "scanIterator E p (c_world s) = (y, w1)" by (metis surj_pair)
  have 2: "callStep E t (goto t (ScanCreate q p) s) (goto t (case y of Ok (h, it) \<Rightarrow> Seeking q h it
      | _ \<Rightarrow> Returned q (failed y)) (withWorld w1 s))"
    using callStep.create [of "goto t (ScanCreate q p) s" t q p E y w1] y by auto
  show ?thesis
  proof (cases "\<exists>h it. y = Ok (h, it)")
    case False
    then have "x = failed y" "w' = w1" using run' y by (auto simp: andThen_apply failed_def split: outcome.splits)
    then show ?thesis using 1 2 False by (auto split: outcome.splits intro: converse_rtranclp_into_rtranclp)
  next
    case True
    then obtain h it where hit: "y = Ok (h, it)" by blast
    have o: "openDbs w1 (DB_c h) \<noteq> None"
      using y hit by (auto simp: scanIterator_def derefDb_def deref_def dbNewIterator_def onDb_def andThen_apply ret_apply
          gopanic_apply Let_def split: option.splits)
    let ?it = "iterSeek ?C (calls w1) it ?pre" and ?w2 = "w1\<lparr>calls := Suc (calls w1)\<rparr>"
    have seek: "seekStep E h it ?pre w1 = (Ok ?it, ?w2)" by (simp add: seekStep_def iterator_open [OF o])
    have 3: "callStep E t (goto t (Seeking q h it) (withWorld w1 s)) (goto t (Scanning q h ?it []) (withWorld ?w2 s))"
      using callStep.seek [of "goto t (Seeking q h it) (withWorld w1 s)" t q h it E "Ok ?it" ?w2] seek by simp
    obtain res n' where loop: "scanLoop ?C ?pre ?it (Suc (calls w1)) [] = Some (res, n')"
      using run' y hit x
      by (cases "scanLoop ?C ?pre ?it (Suc (calls w1)) []") (auto simp: andThen_apply runLoop_def)
    have xw: "x = scanResult res" "w' = w1\<lparr>calls := n'\<rparr>"
      using run' y hit loop by (auto simp: andThen_apply runLoop_def scanResult_def ret_apply split: sum.splits)
    have 4: "(callStep E t)\<^sup>*\<^sup>* (goto t (Scanning q h ?it []) (withWorld ?w2 s)) (goto t (Returned q x) (withWorld w' s))"
      using scan_rounds [OF loop, of "goto t (Scanning q h ?it []) (withWorld ?w2 s)" t h] o xw by simp
    from 1 2 3 4 hit show ?thesis by (auto intro: converse_rtranclp_into_rtranclp)
  qed
qed

lemma lookup_alone:
  fixes E :: "('s, 'b, 'i, 'n) env"
  assumes s: "c_calls s t = Called q" and run: "Lookup E q (c_world s) = (x, w')" and x: "x \<noteq> Diverge"
    and lock: "\<And>p. cmd_db (commander (c_world s)) = Some p \<Longrightarrow> c_locks s p = \<lparr>rw_readers = {}, rw_pending = False, rw_writer = False\<rparr>
      \<and> rheap (c_world s) p \<noteq> None"
  shows "(callStep E t)\<^sup>*\<^sup>* s (goto t (Returned q x) (withWorld w' s))"
proof (cases "cmd_db (commander (c_world s))")
  case None
  then have "x = Err (ErrorString ''db closed'')" "w' = c_world s" using run Lookup_not_open [OF None, of E q] by simp_all
  then show ?thesis using callStep.load_none [OF s None, of E] by (auto simp: withWorld_def)
next
  case (Some p)
  from lock [OF Some] obtain r where l: "\<not> rw_writer (c_locks s p)" "\<not> rw_pending (c_locks s p)" "t \<notin> rw_readers (c_locks s p)"
    "rheap (c_world s) p = Some r" by auto
  show ?thesis using get_alone [OF s _ Some l run] scan_alone [OF s _ Some run x] by blast
qed

text \<open>So are the steps of a close.\<close>

lemma close_alone:
  assumes m: "c_master s = Closer Locking p a" and r: "rheap (c_world s) p = Some r"
    and lock: "c_locks s p = \<lparr>rw_readers = {}, rw_pending = False, rw_writer = False\<rparr>"
    and run: "rocksdb_close p (c_world s) = (x, w')"
  shows "x = Ok () \<and> (masterStep E)\<^sup>*\<^sup>* s (become (case a of None \<Rightarrow> Ended | Some d \<Rightarrow> Removing d) (withWorld w' s))"
proof -
  obtain w1 where w1: "setClosed p (c_world s) = (Ok (), w1)" using r by (simp add: setClosed_def deref_def)
  then have "rheap w1 p = Some (r\<lparr>rdb_closed := True\<rparr>)" using r by (auto simp: setClosed_def deref_def)
  then obtain w2 where w2: "shutDb p w1 = (Ok (), w2)"
    by (cases "rdb_db r") (auto simp: shutDb_def deref_def andThen_apply ret_apply dbClose_def)
  have x: "x = Ok ()" "w' = w2" using run w1 w2 by (simp_all add: rocksdb_close_parts andThen_apply)
  define s1 where "s1 = become (Closer Waiting p a) (withLock p (\<lambda>m. m\<lparr>rw_pending := True\<rparr>) s)"
  define s2 where "s2 = become (Closer Flagging p a) (withLock p (\<lambda>m. m\<lparr>rw_pending := False, rw_writer := True\<rparr>) s1)"
  define s3 where "s3 = become (Closer Shutting p a) (withWorld w1 s2)"
  define s4 where "s4 = become (Closer Unlocking p a) (withWorld w2 s3)"
  define s5 where "s5 = become (case a of None \<Rightarrow> Ended | Some d \<Rightarrow> Removing d) (withLock p (\<lambda>m. m\<lparr>rw_writer := False\<rparr>) s4)"
  have "masterStep E s s1" unfolding s1_def by (rule masterStep.lock [OF m])
  moreover have "masterStep E s1 s2" unfolding s2_def
    by (rule masterStep.acquire) (simp_all add: s1_def lock)
  moreover have "masterStep E s2 s3" unfolding s3_def
    by (rule masterStep.flag) (simp_all add: s1_def s2_def w1)
  moreover have "masterStep E s3 s4" unfolding s4_def
    by (rule masterStep.shut) (simp_all add: s3_def w2)
  moreover have "masterStep E s4 s5" unfolding s5_def
    by (rule masterStep.unlock) (simp add: s4_def)
  moreover have "(c_locks s)(p := \<lparr>rw_readers = {}, rw_pending = False, rw_writer = False\<rparr>) = c_locks s"
    using lock by (rule fun_upd_idem)
  then have "s5 = become (case a of None \<Rightarrow> Ended | Some d \<Rightarrow> Removing d) (withWorld w' s)"
    using lock by (simp add: s5_def s4_def s3_def s2_def s1_def x(2) become_def withLock_def withWorld_def)
  ultimately show ?thesis using x(1) by (auto intro: converse_rtranclp_into_rtranclp)
qed

end
