(* ===== verification/Concurrent_Invariant.thy ===== *)
theory Concurrent_Invariant
  imports Commander_Concurrent
begin

text \<open>
  What holds in every interleaving of lookups with the writer: the mutex of a struct has either
  readers or one writer, the current database is open, a struct that is being closed is out of
  \<^verbatim>\<open>d.db\<close> and usable until its mutex is taken, and a lookup refers to the current struct, the one
  being closed, or one that is marked as closed.
\<close>

section \<open>What the writer does to the world\<close>

text \<open>A replica that serves its current database, the entry \<open>e\<close> of the node's directory.\<close>

definition settled :: "('s \<Rightarrow> bytes \<rightharpoonup> bytes) \<Rightarrow> uint64 \<Rightarrow> uint64 \<Rightarrow> string \<Rightarrow> ('s, 'n) world \<Rightarrow> bool" where
  "settled contents cid nid e w \<longleftrightarrow>
     (let dir = getNodeDBDirName cid nid
      in plainElem e \<and> e \<noteq> updatingDBFilename \<and> (\<exists>m. installed contents (tree w) dir e m)
         \<and> liveDir w = Some (dir @ ''/'' @ e) \<and> procOk cid nid w)"

lemma lifeInv_settled: "lifeInv contents cid nid (w, True) m \<Longrightarrow> \<exists>e. settled contents cid nid e w"
  by (auto simp: lifeInv_def settled_def Let_def)

lemma settled_live:
  assumes "settled contents cid nid e w"
  obtains p r db s where "cmd_db (commander w) = Some p"
    and "liveAt w p = Some (r, db, getNodeDBDirName cid nid @ ''/'' @ e, s)"
proof -
  from assms obtain r db s where l: "live w = Some (r, db, getNodeDBDirName cid nid @ ''/'' @ e, s)"
    by (auto simp: settled_def Let_def liveDir_def)
  from live_SomeE [OF l] that show thesis by metis
qed

lemma settled_transfer:
  assumes st: "settled contents cid nid e w" and mem: "memory w' = memory w"
    and tr: "map_of (tree w') (curFile (getNodeDBDirName cid nid)) = map_of (tree w) (curFile (getNodeDBDirName cid nid))"
      "map_of (tree w') (getNodeDBDirName cid nid @ ''/'' @ e) = map_of (tree w) (getNodeDBDirName cid nid @ ''/'' @ e)"
  shows "settled contents cid nid e w'"
proof -
  obtain p r db s where p: "cmd_db (commander w) = Some p" and at: "liveAt w p = Some (r, db, getNodeDBDirName cid nid @ ''/'' @ e, s)"
    using st by (rule settled_live)
  have "commander w' = commander w" using mem by (simp add: memory_def)
  then have "liveDir w' = Some (getNodeDBDirName cid nid @ ''/'' @ e)"
    using liveAt_cong [OF mem at tr(2)] p by (simp add: liveDir_def live_def)
  moreover have "installed contents (tree w') (getNodeDBDirName cid nid) e = installed contents (tree w) (getNodeDBDirName cid nid) e"
    by (rule ext) (rule installed_cong [OF tr])
  moreover have "procOk cid nid w'" using st mem by (simp add: settled_def Let_def procOk_def)
  ultimately show ?thesis using st by (simp add: settled_def Let_def)
qed

context rocks
begin

text \<open>
  Up to the exchange the new struct and the new directory are the only things that an
  installation adds; when it is complete, the new database is the current one.
\<close>

lemma installHead_effect:
  fixes w :: "('s, 'n) world"
  assumes E: "rocksLib E = C" and st: "settled contents cid nid e w"
    and fresh: "map_of (tree w) (getNodeDBDirName cid nid @ ''/'' @ newDbName E (calls w)) = None"
    and run: "installHead E r w = (x, w')"
  shows "map_of (tree w') (getNodeDBDirName cid nid @ ''/'' @ e) = map_of (tree w) (getNodeDBDirName cid nid @ ''/'' @ e)
    \<and> (\<forall>q. q < nextPtr w \<longrightarrow> rheap w' q = rheap w q) \<and> (\<forall>c. c < nextDb w \<longrightarrow> openDbs w' c = openDbs w c)
    \<and> (\<not> isOk x \<longrightarrow> commander w' = commander w)
    \<and> (\<forall>old d. x = Ok (old, d) \<longrightarrow> old = cmd_db (commander w) \<and> d = getNodeDBDirName cid nid @ ''/'' @ e
         \<and> entriesApart (getNodeDBDirName cid nid) e (newDbName E (calls w))
         \<and> settled contents cid nid (newDbName E (calls w)) w'
         \<and> cmd_db (commander w') = Some (nextPtr w)
         \<and> (\<exists>s. liveAt w' (nextPtr w) = Some (freshStruct (dbObject (nextDb w) (getNodeDBDirName cid nid @ ''/'' @ newDbName E (calls w))),
               dbObject (nextDb w) (getNodeDBDirName cid nid @ ''/'' @ newDbName E (calls w)),
               getNodeDBDirName cid nid @ ''/'' @ newDbName E (calls w), s)))"
    (is "?main x w'")
proof -
  define dir where "dir = getNodeDBDirName cid nid"
  define e' where "e' = newDbName E (calls w)"
  define new where "new = dir @ ''/'' @ e'"
  define h where "h = dbObject (nextDb w) new"
  have newp: "dir @ CHR ''/'' # e' = new" by (simp add: new_def)
  have plain: "plainPath dir" by (simp add: dir_def getNodeDBDirName_plain)
  have st': "plainElem e" "e \<noteq> updatingDBFilename" "procOk cid nid w" using st by (simp_all add: settled_def Let_def)
  obtain m where inst: "installed contents (tree w) dir e m" using st by (auto simp: settled_def Let_def dir_def)
  have fr: "map_of (tree w) new = None" using fresh by (simp add: new_def dir_def e'_def)
  have names: "entriesApart dir e e'"
    using plain st' inst fr plainElem_newDbName [of E "calls w"] newDbName_not_file [of E "calls w"]
    by (auto simp: entriesApart_def installed_def e'_def new_def)
  note apart = entriesApart_paths [OF names, folded new_def]
  have cmd: "clusterID (commander w) = cid" "nodeID (commander w) = nid" "\<not> cmd_closed (commander w)"
    using st'(3) by (simp_all add: procOk_simps)
  define mem2 where "mem2 = ((openDbs w)(nextDb w \<mapsto> new), Suc (nextDb w), (rheap w)(nextPtr w \<mapsto> freshStruct h :: 'n rocksdb),
     Suc (nextPtr w), commander w)"
  have early: "?main x' w1"
    if "\<not> isOk x'" "map_of (tree w1) (dir @ ''/'' @ e) = map_of (tree w) (dir @ ''/'' @ e)" "memory w1 = memory w \<or> memory w1 = mem2"
    for x' :: "(nat option \<times> string) outcome" and w1 :: "('s, 'n) world"
    using that by (auto simp: memory_def mem2_def dir_def [symmetric])
  define w1 where "w1 = w\<lparr>calls := Suc (Suc (calls w))\<rparr>"
  have run1: "andThen (getCurrentDBDirName E dir) (\<lambda>oldDirName.
        andThen (createDB E new) (\<lambda>db.
        andThen (loadBatch (rocksLib E) r) (\<lambda>wb.
        andThen (derefDb db (\<lambda>rdb h. dbWrite E h (rdb_wo rdb) wb)) (\<lambda>_.
        andThen (makeCurrent E dir new) (\<lambda>_.
        andThen (orPanic (queryAppliedIndex E db) ''query applied index'') (\<lambda>newLastApplied.
        andThen getCommander (\<lambda>d.
          if lastApplied d > newLastApplied then gopanic ''last applied not moving forward''
          else
            andThen (setCommander (\<lambda>d. d\<lparr>lastApplied := newLastApplied\<rparr>)) (\<lambda>_.
            andThen (swapDb (Some db)) (\<lambda>old. ret (old, oldDirName)))))))))) w1 = (x, w')"
    using run cmd unfolding installHead_def Let_def andThen_assoc
    by (simp add: andThen_apply getCommander_def dir_def [symmetric] getNewRandomDBDirName_plain [OF plain] w1_def
        new_def e'_def)
  from run1 show ?thesis
  proof (cases rule: andThen_run)
    case (stop x1)
    have "tree w' = tree w1" by (rule keeps_tree_eq [OF keeps_getCurrentDBDirName stop(1)]) auto
    moreover have "memory w' = memory w1" by (rule keeps_memory [OF keeps_getCurrentDBDirName stop(1)]) simp
    ultimately show ?thesis using stop(3) by (intro early) (simp_all add: w1_def memory_def)
  next
    case (go name w2)
    have "tree w2 = tree w1" by (rule keeps_tree_eq [OF keeps_getCurrentDBDirName go(1)]) auto
    then have tr2: "tree w2 = tree w" by (simp add: w1_def)
    have "memory w2 = memory w1" by (rule keeps_memory [OF keeps_getCurrentDBDirName go(1)]) simp
    then have memw2: "memory w2 = memory w" by (simp add: w1_def memory_def)
    have name: "name = dir @ ''/'' @ e"
      using getCurrentDBDirName_Ok [OF plain go(1)] inst by (simp add: w1_def installed_def)
    have w2: "nextPtr w2 = nextPtr w" "nextDb w2 = nextDb w" using memw2 by (simp_all add: memory_def)
    from go(2) show ?thesis
    proof (cases rule: andThen_run)
      case (stop x1)
      then show ?thesis using createDB_effect [OF E stop(1)] apart(1) memw2 tr2 by (intro early) simp_all
    next
      case (go db w3)
      note cdb = createDB_effect [OF E go(1)]
      have f0: "found contents (tree w2) new = Map.empty" using fr by (simp add: found_def dbAt_def tr2)
      have db: "db = nextPtr w" and memw3: "memory w3 = mem2"
        using cdb memw2 w2 by (simp_all add: mem2_def h_def memory_def)
      obtain s0 where at3: "liveAt w3 db = Some (freshStruct h, h, new, s0)" and s0: "contents s0 = Map.empty"
        using cdb f0 w2 by (auto simp: h_def)
      have old3: "map_of (tree w3) (dir @ ''/'' @ e) = map_of (tree w) (dir @ ''/'' @ e)"
        using cdb apart(1) tr2 by simp
      from go(2) show ?thesis
      proof (cases rule: andThen_run)
        case (stop x1)
        have "w' = w3" using stop(1) loadBatch_decode [of r w3] E by (auto split: loaded.splits)
        then show ?thesis using stop(3) memw3 old3 by (intro early) simp_all
      next
        case (go wb w4)
        then obtain kvs b where w4: "w4 = w3" and wb: "WriteBatch_c wb = Some b" "ops b = map (\<lambda>(k, v). WPut k v) kvs"
          using loadBatch_decode [of r w3] E by (auto split: loaded.splits)
        from go(2) show ?thesis unfolding w4
        proof (cases rule: andThen_run)
          case (stop x1)
          then show ?thesis using writeLoaded_effect [OF E at3 wb s0 stop(1)] memw3 old3 apart(1) by (intro early) simp_all
        next
          case (go u w5)
          note wr = writeLoaded_effect [OF E at3 wb s0 go(1)]
          obtain s where at5: "liveAt w5 db = Some (freshStruct h, h, new, s)" using wr by auto
          have memw5: "memory w5 = mem2" and old5: "map_of (tree w5) (dir @ ''/'' @ e) = map_of (tree w) (dir @ ''/'' @ e)"
            using wr memw3 old3 apart(1) by simp_all
          from go(2) show ?thesis
          proof (cases rule: andThen_run)
            case (stop x1)
            have "memory w' = memory w5"
              by (rule keeps_memory [OF keeps_andThen [OF keeps_more_dataDir(5) keeps_more_dataDir(4)] stop(1)])
            then show ?thesis
              using stop(3) makeCurrent_dbs [OF names, folded new_def, OF stop(1)] memw5 old5 by (intro early) simp_all
          next
            case (go u' w6)
            have memw6: "memory w6 = mem2"
              using keeps_memory [OF keeps_andThen [OF keeps_more_dataDir(5) keeps_more_dataDir(4)] go(1)] memw5 by simp
            have old6: "map_of (tree w6) (dir @ ''/'' @ e) = map_of (tree w) (dir @ ''/'' @ e)"
              and new6: "map_of (tree w6) new = map_of (tree w5) new"
              using makeCurrent_dbs [OF names, folded new_def, OF go(1)] old5 by simp_all
            have at6: "liveAt w6 db = Some (freshStruct h, h, new, s)"
              by (rule liveAt_cong [OF _ at5 new6]) (simp add: memw6 memw5)
            have cur6: "map_of (tree w6) (curFile dir) = Some (FFile (currentContent new))"
              using makeCurrent_atomic [OF plain go(1)] by auto
            have mem6: "openDbs w6 = (openDbs w)(nextDb w \<mapsto> new)" "nextDb w6 = Suc (nextDb w)"
              "rheap w6 = (rheap w)(nextPtr w \<mapsto> freshStruct h)" "nextPtr w6 = Suc (nextPtr w)" "commander w6 = commander w"
              using memw6 by (simp_all add: memory_def mem2_def)
            from go(2) show ?thesis
            proof (cases rule: andThen_run)
              case (stop x1)
              obtain x2 where "queryAppliedIndex E db w6 = (x2, w')" using stop(1) by (rule orPanic_run)
              from queryAppliedIndex_live [OF E at6 this] show ?thesis
                using stop(3) old6 memw6 by (intro early) (auto simp: memory_def)
            next
              case (go n w7)
              obtain x2 where "queryAppliedIndex E db w6 = (x2, w7)" using go(1) by (rule orPanic_run)
              from queryAppliedIndex_live [OF E at6 this] have w7: "w7 = w6\<lparr>calls := Suc (calls w6)\<rparr>" by blast
              show ?thesis
              proof (cases "lastApplied (commander w) > n")
                case True
                then have "w' = w7" "\<not> isOk x"
                  using go(2) by (auto simp: andThen_apply getCommander_def gopanic_apply w7 mem6)
                then show ?thesis using old6 memw6 by (intro early) (simp_all add: w7 memory_def)
              next
                case False
                have x: "x = Ok (cmd_db (commander w), name)"
                  and w': "w' = w7\<lparr>commander := (commander w)\<lparr>lastApplied := n, cmd_db := Some db\<rparr>\<rparr>"
                  using go(2) False by (auto simp: andThen_apply getCommander_def setCommander_def swapDb_def ret_apply w7 mem6)
                have at': "liveAt w' db = Some (freshStruct h, h, new, s)" using at6 by (simp add: w' w7)
                have tr: "map_of (tree w') new = Some (FDb s)"
                  using liveAt_SomeD [OF at'] by (auto simp: dbAt_def split: option.splits node.splits)
                have proc: "procOk cid nid w'"
                  using st'(3) cmd by (auto simp: procOk_simps w' w7 mem6 h_def dbObject_def freshStruct_def less_Suc_eq
                      split: if_splits)
                have "settled contents cid nid e' w'"
                  using names cur6 tr at' proc
                  by (auto simp: settled_def Let_def installed_def dir_def [symmetric] newp entriesApart_def
                      liveDir_def live_def w' w7)
                moreover have "\<forall>q. q < nextPtr w \<longrightarrow> rheap w' q = rheap w q" "\<forall>c. c < nextDb w \<longrightarrow> openDbs w' c = openDbs w c"
                  "map_of (tree w') (dir @ ''/'' @ e) = map_of (tree w) (dir @ ''/'' @ e)"
                  using old6 by (auto simp: w' w7 mem6)
                ultimately show ?thesis
                  using at' names unfolding dir_def [symmetric] e'_def [symmetric] new_def [symmetric] h_def [symmetric]
                  by (simp add: x name w' db)
              qed
            qed
          qed
        qed
      qed
    qed
  qed
qed

end

text \<open>An update changes the contents of the current database and the applied index.\<close>

definition updateFrame :: "('s, 'n) world \<Rightarrow> ('s, 'n) world \<Rightarrow> bool" where
  "updateFrame w w' \<longleftrightarrow> rheap w' = rheap w \<and> openDbs w' = openDbs w \<and> nextPtr w' = nextPtr w \<and> nextDb w' = nextDb w
     \<and> (\<exists>i. commander w' = (commander w)\<lparr>lastApplied := i\<rparr>)"

lemma keeps_updateFrame: "keeps (updateFrame w) (Update E ents)"
proof -
  have st: "stable (updateFrame w)" by (rule stableI) (simp add: updateFrame_def)
  have set: "keeps (updateFrame w) (setCommander (\<lambda>d. d\<lparr>lastApplied := i\<rparr>))" for i
    by (auto simp: setCommander_def updateFrame_def keeps_def)
  have "keeps (updateFrame w) (dbWrite E db wo batch)" for db wo batch
    by (rule keeps_dbWrite [OF st]) (simp add: updateFrame_def)
  then show ?thesis unfolding Update_def Let_def by (intro keeps_intros set)
qed

lemma procOk_updateFrame: "updateFrame w w' \<Longrightarrow> procOk cid nid w' = procOk cid nid w"
  by (auto simp: updateFrame_def procOk_simps)

context rocks
begin

lemma Update_settled:
  assumes E: "rocksLib E = C" and st: "settled contents cid nid e w" and run: "Update E ents w = (x, w')"
  shows "settled contents cid nid e w'"
proof -
  let ?dir = "getNodeDBDirName cid nid"
  have frame: "updateFrame w w'"
    using keepsD [OF keeps_updateFrame [of w E ents], of w] run by (simp add: updateFrame_def exI [of _ "lastApplied (commander w)"])
  obtain r db s where l: "live w = Some (r, db, ?dir @ ''/'' @ e, s)"
    using st by (auto simp: settled_def Let_def liveDir_def)
  have acc: "accepting w" using st by (simp add: settled_def Let_def procOk_simps accepting_def)
  show ?thesis
  proof (cases "list_all validEntry ents \<and> ents \<noteq> []")
    case False
    then have "w' = w" using run Update_invalid [OF acc, of ents E] Update_empty [of w E] acc by (auto simp: accepting_def)
    then show ?thesis using st by simp
  next
    case True
    then obtain s' where l': "live w' = Some (r, db, ?dir @ ''/'' @ e, s')"
      and tr: "\<forall>d. d \<noteq> ?dir @ ''/'' @ e \<longrightarrow> map_of (tree w') d = map_of (tree w) d"
      using Update_effect [OF E acc l _ _ run] by blast
    have e: "plainElem e" "e \<noteq> updatingDBFilename" "procOk cid nid w" using st by (simp_all add: settled_def Let_def)
    obtain m where inst: "installed contents (tree w) ?dir e m" using st by (auto simp: settled_def Let_def)
    have "curFile ?dir \<noteq> ?dir @ ''/'' @ e" using inst by (auto simp: installed_def)
    then have "installed contents (tree w') ?dir e (contents s')"
      using inst tr live_node [OF l'] by (auto simp: installed_def)
    moreover have "liveDir w' = Some (?dir @ ''/'' @ e)" using l' by (simp add: liveDir_def)
    ultimately show ?thesis using e procOk_updateFrame [OF frame] by (auto simp: settled_def Let_def)
  qed
qed

end

section \<open>The invariant\<close>

text \<open>Whose mutex a goroutine holds, and which struct a lookup for a key refers to.\<close>

fun holding :: "'i call \<Rightarrow> nat option" where
  "holding (Locked q p) = Some p" | "holding (Reading q p) = Some p" | "holding (Answered q p x) = Some p"
| "holding _ = None"

fun refers :: "'i call \<Rightarrow> nat option" where
  "refers (Loaded q p) = Some p" | "refers (Locked q p) = Some p" | "refers (Reading q p) = Some p"
| "refers _ = None"

fun writing :: "master \<Rightarrow> nat option" where
  "writing (Closer st p a) = (if st \<in> {Flagging, Shutting, Unlocking} then Some p else None)" | "writing _ = None"

fun asking :: "master \<Rightarrow> nat option" where
  "asking (Closer Waiting p a) = Some p" | "asking _ = None"

definition lockInv :: "('s, 'n, 'i) conc \<Rightarrow> bool" where
  "lockInv s \<longleftrightarrow> (\<forall>t p. holding (c_calls s t) = Some p \<longleftrightarrow> t \<in> rw_readers (c_locks s p))
     \<and> (\<forall>p. (rw_writer (c_locks s p) \<longleftrightarrow> writing (c_master s) = Some p) \<and> (rw_pending (c_locks s p) \<longleftrightarrow> asking (c_master s) = Some p)
          \<and> (rw_writer (c_locks s p) \<longrightarrow> rw_readers (c_locks s p) = {}))"

lemma lockInv_start: "lockInv (concStart w queries)"
  by (simp add: lockInv_def concStart_def)

text \<open>A step of a lookup counts calls of the library, and takes or returns a mutex.\<close>

lemma reads_world:
  "\<exists>n. snd (readKey E p k w) = w\<lparr>calls := n\<rparr>" "\<exists>n. snd (scanIterator E p w) = w\<lparr>calls := n\<rparr>"
  "\<exists>n. snd (seekStep E h it pre w) = w\<lparr>calls := n\<rparr>" "\<exists>n. snd (scanStep E h it pre acc w) = w\<lparr>calls := n\<rparr>"
proof -
  have same: "\<exists>n. w = w\<lparr>calls := n\<rparr>" by (rule exI [of _ "calls w"]) simp
  show "\<exists>n. snd (readKey E p k w) = w\<lparr>calls := n\<rparr>"
    using same by (auto simp: readKey_def derefDb_def deref_def dbGet_def onDb_def andThen_apply ret_apply gopanic_apply Let_def
        split: option.splits prod.splits)
  show "\<exists>n. snd (scanIterator E p w) = w\<lparr>calls := n\<rparr>"
    using same by (auto simp: scanIterator_def derefDb_def deref_def dbNewIterator_def onDb_def andThen_apply ret_apply
        gopanic_apply Let_def split: option.splits)
  show "\<exists>n. snd (seekStep E h it pre w) = w\<lparr>calls := n\<rparr>" using same by (auto simp: seekStep_def useIterator_def)
  show "\<exists>n. snd (scanStep E h it pre acc w) = w\<lparr>calls := n\<rparr>"
    using same by (auto simp: scanStep_def useIterator_def Let_def split: option.splits)
qed

lemma callStep_shape:
  assumes "callStep E t s s'"
  obtains c n where "c_calls s' = (c_calls s)(t := c)" and "c_world s' = (c_world s)\<lparr>calls := n\<rparr>" and "c_master s' = c_master s"
    and "c_locks s' = c_locks s \<and> holding c = holding (c_calls s t)
      \<or> (\<exists>q p. c_calls s t = Loaded q p \<and> c = Locked q p \<and> \<not> rw_writer (c_locks s p) \<and> \<not> rw_pending (c_locks s p)
          \<and> c_locks s' = (c_locks s)(p := (c_locks s p)\<lparr>rw_readers := insert t (rw_readers (c_locks s p))\<rparr>))
      \<or> (\<exists>p. holding (c_calls s t) = Some p \<and> holding c = None
          \<and> c_locks s' = (c_locks s)(p := (c_locks s p)\<lparr>rw_readers := rw_readers (c_locks s p) - {t}\<rparr>))"
proof -
  note goal = that
  have quiet: thesis if s': "s' = goto t c (withWorld w' s)" and w': "\<exists>n. w' = (c_world s)\<lparr>calls := n\<rparr>"
      and h: "holding c = holding (c_calls s t)" for c w'
  proof -
    obtain n where "w' = (c_world s)\<lparr>calls := n\<rparr>" using w' by blast
    then show thesis using h by (intro goal [of c n]) (simp_all add: s')
  qed
  have stay: thesis if s': "s' = goto t c s" and h: "holding c = holding (c_calls s t)" for c
  proof (rule quiet [OF _ _ h])
    show "s' = goto t c (withWorld (c_world s) s)" using s' by (simp add: withWorld_def)
    show "\<exists>n. c_world s = (c_world s)\<lparr>calls := n\<rparr>" by (rule exI [of _ "calls (c_world s)"]) simp
  qed
  from assms show thesis
  proof cases
    case (load_none q)
    show thesis by (rule stay [OF load_none(1)]) (simp add: load_none(2))
  next
    case (load q p)
    show thesis by (rule stay [OF load(1)]) (simp add: load(2))
  next
    case (rlock q p)
    then show thesis by (intro that [of "Locked q p" "calls (c_world s)"]) simp_all
  next
    case (check q p r)
    show thesis by (rule stay [OF check(1)]) (simp add: check(2))
  next
    case (read q p x w')
    have "\<exists>n. w' = (c_world s)\<lparr>calls := n\<rparr>" using reads_world(1) [of E p "Action_Key (queryAction q)" "c_world s"] read(3) by simp
    then show thesis using read by (intro quiet [OF read(1)]) simp_all
  next
    case (runlock q p x)
    then show thesis by (intro that [of "Unlocked q x" "calls (c_world s)"]) simp_all
  next
    case (finish q x)
    show thesis by (rule stay [OF finish(1)]) (simp add: finish(2))
  next
    case (create q p x w')
    have "\<exists>n. w' = (c_world s)\<lparr>calls := n\<rparr>" using reads_world(2) [of E p "c_world s"] create(3) by simp
    then show thesis using create by (intro quiet [OF create(1)]) (simp_all split: outcome.splits prod.splits)
  next
    case (seek q h it x w')
    have "\<exists>n. w' = (c_world s)\<lparr>calls := n\<rparr>" using reads_world(3) [of E h it "Action_Key (queryAction q)" "c_world s"] seek(3) by simp
    then show thesis using seek by (intro quiet [OF seek(1)]) (simp_all split: outcome.splits prod.splits)
  next
    case (scan q h it acc x w')
    have "\<exists>n. w' = (c_world s)\<lparr>calls := n\<rparr>" using reads_world(4) [of E h it "Action_Key (queryAction q)" acc "c_world s"] scan(3) by simp
    then show thesis using scan by (intro quiet [OF scan(1)]) (simp_all split: outcome.splits sum.splits prod.splits)
  qed
qed

lemma lockInv_call:
  assumes inv: "lockInv s" and step: "callStep E t s s'"
  shows "lockInv s'"
proof -
  have held: "holding (c_calls s u) = Some p \<longleftrightarrow> u \<in> rw_readers (c_locks s p)" for u p
    using inv by (simp add: lockInv_def)
  have rest: "rw_writer (c_locks s p) \<longleftrightarrow> writing (c_master s) = Some p" "rw_pending (c_locks s p) \<longleftrightarrow> asking (c_master s) = Some p"
    "rw_writer (c_locks s p) \<longrightarrow> rw_readers (c_locks s p) = {}" for p using inv by (simp_all add: lockInv_def)
  from step show ?thesis
  proof (cases rule: callStep_shape)
    case (1 c n)
    from 1(4) show ?thesis
    proof (elim disjE exE conjE)
      assume "c_locks s' = c_locks s" "holding c = holding (c_calls s t)"
      then show ?thesis using 1 held rest by (simp add: lockInv_def)
    next
      fix q p assume "c_calls s t = Loaded q p" "c = Locked q p" "\<not> rw_writer (c_locks s p)"
        "c_locks s' = (c_locks s)(p := (c_locks s p)\<lparr>rw_readers := insert t (rw_readers (c_locks s p))\<rparr>)"
      then show ?thesis using 1(1,3) held [of t] held rest by (auto simp: lockInv_def)
    next
      fix p assume "holding (c_calls s t) = Some p" "holding c = None"
        "c_locks s' = (c_locks s)(p := (c_locks s p)\<lparr>rw_readers := rw_readers (c_locks s p) - {t}\<rparr>)"
      then have h: "holding (c_calls s' u) = Some p' \<longleftrightarrow> u \<in> rw_readers (c_locks s' p')"
        and w: "rw_writer (c_locks s' p') = rw_writer (c_locks s p')" "rw_pending (c_locks s' p') = rw_pending (c_locks s p')"
          "rw_readers (c_locks s' p') \<subseteq> rw_readers (c_locks s p')" for u p'
        using 1(1) held [of u p'] held [of t p'] by (cases "u = t"; cases "p' = p"; force)+
      show ?thesis unfolding lockInv_def h w 1(3) using rest w(3) by blast
    qed
  qed
qed

lemma lockInv_master:
  assumes inv: "lockInv s" and step: "masterStep E s s'"
  shows "lockInv s'"
proof -
  have held: "holding (c_calls s u) = Some p \<longleftrightarrow> u \<in> rw_readers (c_locks s p)" for u p
    using inv by (simp add: lockInv_def)
  have rest: "rw_writer (c_locks s p) \<longleftrightarrow> writing (c_master s) = Some p" "rw_pending (c_locks s p) \<longleftrightarrow> asking (c_master s) = Some p"
    "rw_writer (c_locks s p) \<longrightarrow> rw_readers (c_locks s p) = {}" for p using inv by (simp_all add: lockInv_def)
  from step show ?thesis
  proof cases
    case (update ents x w')
    then show ?thesis using held rest by (simp add: lockInv_def)
  next
    case (install r x w')
    then show ?thesis using held rest by (simp add: lockInv_def split: outcome.splits option.splits prod.splits)
  next
    case (close db w')
    then show ?thesis using held rest by (simp add: lockInv_def split: option.splits)
  next
    case (acquire p a)
    then show ?thesis using held rest by (auto simp: lockInv_def)
  next
    case (lock p a)
    then show ?thesis using held rest by (auto simp: lockInv_def)
  next
    case (unlock p a)
    then show ?thesis using held rest by (auto simp: lockInv_def split: option.splits)
  next
    case (remove d x w')
    then show ?thesis using held rest by (simp add: lockInv_def)
  qed (use held rest in \<open>simp_all add: lockInv_def\<close>)
qed

text \<open>
  Where the writer stands: between two calls the replica serves its current database; while it
  closes a struct, this one is not in \<^verbatim>\<open>d.db\<close> any more, still usable before the mutex is taken
  and marked as closed afterwards; and the directory to be removed is not the current one.
\<close>

definition handlesApart :: "('s, 'n) world \<Rightarrow> nat \<Rightarrow> bool" where
  "handlesApart w p \<longleftrightarrow> (\<forall>r db q r' db'. rheap w p = Some r \<longrightarrow> rdb_db r = Some db \<longrightarrow> cmd_db (commander w) = Some q
     \<longrightarrow> rheap w q = Some r' \<longrightarrow> rdb_db r' = Some db' \<longrightarrow> DB_c db \<noteq> DB_c db')"

definition retired :: "('s, 'n) world \<Rightarrow> stage \<Rightarrow> nat \<Rightarrow> bool" where
  "retired w st p \<longleftrightarrow> cmd_db (commander w) \<noteq> Some p \<and> handlesApart w p
     \<and> (if st \<in> {Shutting, Unlocking} then \<exists>r. rheap w p = Some r \<and> rdb_closed r else liveAt w p \<noteq> None)"

definition replaced :: "('s \<Rightarrow> bytes \<rightharpoonup> bytes) \<Rightarrow> uint64 \<Rightarrow> uint64 \<Rightarrow> string \<Rightarrow> ('s, 'n) world \<Rightarrow> bool" where
  "replaced contents cid nid d w \<longleftrightarrow> (\<exists>e e'. entriesApart (getNodeDBDirName cid nid) e e'
     \<and> d = getNodeDBDirName cid nid @ ''/'' @ e \<and> settled contents cid nid e' w)"

fun masterInv :: "('s \<Rightarrow> bytes \<rightharpoonup> bytes) \<Rightarrow> uint64 \<Rightarrow> uint64 \<Rightarrow> ('s, 'n) world \<Rightarrow> master \<Rightarrow> bool" where
  "masterInv contents cid nid w Ready \<longleftrightarrow> (\<exists>e. settled contents cid nid e w)"
| "masterInv contents cid nid w (Closer st p (Some d)) \<longleftrightarrow> retired w st p \<and> st \<noteq> Marking \<and> replaced contents cid nid d w"
| "masterInv contents cid nid w (Closer st p None) \<longleftrightarrow> retired w st p \<and> cmd_db (commander w) = None"
| "masterInv contents cid nid w (Removing d) \<longleftrightarrow> replaced contents cid nid d w"
| "masterInv contents cid nid w Ended \<longleftrightarrow> True"

definition known :: "('s, 'n) world \<Rightarrow> master \<Rightarrow> nat \<Rightarrow> bool" where
  "known w m p \<longleftrightarrow> (\<exists>r. rheap w p = Some r \<and> (rdb_closed r \<or> cmd_db (commander w) = Some p \<or> (\<exists>st a. m = Closer st p a)))"

definition structInv :: "('s \<Rightarrow> bytes \<rightharpoonup> bytes) \<Rightarrow> uint64 \<Rightarrow> uint64 \<Rightarrow> ('s, 'n, 'i) conc \<Rightarrow> bool" where
  "structInv contents cid nid s \<longleftrightarrow>
     (\<forall>p. cmd_db (commander (c_world s)) = Some p \<longrightarrow> liveAt (c_world s) p \<noteq> None)
     \<and> masterInv contents cid nid (c_world s) (c_master s)
     \<and> (\<forall>t p. refers (c_calls s t) = Some p \<longrightarrow> known (c_world s) (c_master s) p)
     \<and> (\<forall>t q p. c_calls s t = Reading q p \<longrightarrow> (\<exists>r. rheap (c_world s) p = Some r \<and> \<not> rdb_closed r))"

lemma settled_calls [simp]: "settled contents cid nid e (w\<lparr>calls := n\<rparr>) = settled contents cid nid e w"
  by (simp add: settled_def liveDir_def procOk_simps)

lemma masterInv_calls [simp]: "masterInv contents cid nid (w\<lparr>calls := n\<rparr>) m = masterInv contents cid nid w m"
proof (cases m)
  case (Closer st p a)
  then show ?thesis by (cases a) (auto simp: retired_def handlesApart_def replaced_def)
qed (auto simp: replaced_def)

lemma callStep_refers:
  assumes "callStep E t s s'" and "refers (c_calls s' t) = Some p"
  shows "refers (c_calls s t) = Some p \<or> cmd_db (commander (c_world s)) = Some p"
  using assms by cases (auto split: if_splits outcome.splits prod.splits sum.splits)

lemma callStep_reading:
  assumes "callStep E t s s'" and "c_calls s' t = Reading q p"
  shows "\<exists>r. rheap (c_world s) p = Some r \<and> \<not> rdb_closed r"
  using assms by cases (auto split: if_splits outcome.splits prod.splits sum.splits)

lemma structInv_call:
  assumes inv: "structInv contents cid nid s" and step: "callStep E t s s'"
  shows "structInv contents cid nid s'"
proof -
  from step obtain c n where c: "c_calls s' = (c_calls s)(t := c)" and w: "c_world s' = (c_world s)\<lparr>calls := n\<rparr>"
    and m: "c_master s' = c_master s" by (rule callStep_shape) blast
  have cur: "known (c_world s) (c_master s) p" if "cmd_db (commander (c_world s)) = Some p" for p
    using inv that by (auto simp: structInv_def known_def dest!: liveAt_SomeD)
  have "known (c_world s) (c_master s) p" if "refers (c_calls s' u) = Some p" for u p
    using that callStep_refers [OF step] cur inv by (cases "u = t") (auto simp: structInv_def c)
  moreover have "\<exists>r. rheap (c_world s) p = Some r \<and> \<not> rdb_closed r" if "c_calls s' u = Reading q p" for u q p
    using that callStep_reading [OF step, of q p] inv by (cases "u = t") (auto simp: structInv_def c)
  ultimately show ?thesis
    using inv by (simp add: structInv_def w m known_def)
qed

subsection \<open>The steps of the writer\<close>

lemma settled_current:
  "settled contents cid nid e w \<Longrightarrow> cmd_db (commander w) = Some p \<Longrightarrow> liveAt w p \<noteq> None"
  by (elim settled_live) simp

lemma settled_heap: "settled contents cid nid e w \<Longrightarrow> rheap w p = Some r \<Longrightarrow> p < nextPtr w"
  by (simp add: settled_def Let_def procOk_simps)

lemma settled_handle: "settled contents cid nid e w \<Longrightarrow> rheap w p = Some r \<Longrightarrow> rdb_db r = Some db \<Longrightarrow> DB_c db < nextDb w"
  by (simp add: settled_def Let_def procOk_simps)

lemma settled_other:
  assumes st: "settled contents cid nid e w" and "tree w' = tree w" and "commander w' = commander w" and "procOk cid nid w'"
    and "\<And>q. cmd_db (commander w) = Some q \<Longrightarrow> liveAt w' q = liveAt w q"
  shows "settled contents cid nid e w'"
proof -
  obtain p r db s where "cmd_db (commander w) = Some p" "liveAt w p = Some (r, db, getNodeDBDirName cid nid @ ''/'' @ e, s)"
    using st by (rule settled_live)
  then have "liveDir w' = liveDir w" using assms(3,5) by (simp add: liveDir_def live_def)
  then show ?thesis using assms by (simp add: settled_def Let_def)
qed

text \<open>Closing a struct that is not the current one.\<close>

lemma setClosed_effect:
  assumes "rheap w p = Some r" and "setClosed p w = (x, w')"
  shows "w' = w\<lparr>rheap := (rheap w)(p \<mapsto> r\<lparr>rdb_closed := True\<rparr>)\<rparr> \<and> (\<forall>q. q \<noteq> p \<longrightarrow> liveAt w' q = liveAt w q)
    \<and> (procOk cid nid w \<longrightarrow> procOk cid nid w')"
  using assms by (auto simp: setClosed_def deref_def liveAt_def procOk_simps split: if_splits cong: option.case_cong if_cong)

lemma shutDb_effect:
  assumes "rheap w p = Some r" and "shutDb p w = (x, w')"
  shows "tree w' = tree w \<and> commander w' = commander w \<and> nextPtr w' = nextPtr w
    \<and> (\<forall>q. q \<noteq> p \<longrightarrow> rheap w' q = rheap w q)
    \<and> (\<exists>r'. rheap w' p = Some r' \<and> rdb_closed r' = rdb_closed r \<and> rdb_db r' = None)
    \<and> (\<forall>q r' db'. q \<noteq> p \<longrightarrow> rheap w q = Some r' \<longrightarrow> rdb_db r' = Some db'
         \<longrightarrow> (\<forall>db. rdb_db r = Some db \<longrightarrow> DB_c db \<noteq> DB_c db') \<longrightarrow> liveAt w' q = liveAt w q)
    \<and> (procOk cid nid w \<longrightarrow> procOk cid nid w')"
  using assms
  by (cases "rdb_db r") (auto simp: shutDb_def deref_def andThen_apply ret_apply dbClose_def liveAt_def procOk_simps
      split: if_splits cong: option.case_cong if_cong)

lemma RemoveAll_settled:
  assumes st: "settled contents cid nid e' w" and names: "entriesApart (getNodeDBDirName cid nid) e e'"
    and run: "RemoveAll E (getNodeDBDirName cid nid @ ''/'' @ e) w = (x, w')"
  shows "settled contents cid nid e' w'"
proof -
  have "memory w' = memory w" by (rule keeps_memory [OF keeps_more(5) run])
  then show ?thesis
    using entriesApart_paths [OF names] RemoveAll_keeps_others [OF run] by (intro settled_transfer [OF st]) auto
qed

lemma structInv_masterI:
  assumes inv: "structInv contents cid nid s" and calls: "c_calls s' = c_calls s"
    and cur: "\<And>p. cmd_db (commander (c_world s')) = Some p \<Longrightarrow> liveAt (c_world s') p \<noteq> None"
    and m: "masterInv contents cid nid (c_world s') (c_master s')"
    and heap: "\<And>p r. rheap (c_world s) p = Some r \<Longrightarrow> \<exists>r'. rheap (c_world s') p = Some r' \<and> (rdb_closed r \<longrightarrow> rdb_closed r')
       \<and> (\<not> rdb_closed r \<longrightarrow> rdb_closed r' \<longrightarrow> (\<forall>t q. c_calls s t \<noteq> Reading q p))"
    and ptr: "\<And>p. cmd_db (commander (c_world s)) = Some p \<Longrightarrow> cmd_db (commander (c_world s')) = Some p \<or> (\<exists>st a. c_master s' = Closer st p a)"
    and closer: "\<And>st p a r. c_master s = Closer st p a \<Longrightarrow> rheap (c_world s') p = Some r \<Longrightarrow>
       rdb_closed r \<or> (\<exists>st a. c_master s' = Closer st p a)"
  shows "structInv contents cid nid s'"
proof -
  have "known (c_world s') (c_master s') p" if k: "known (c_world s) (c_master s) p" for p
  proof -
    obtain r where r: "rheap (c_world s) p = Some r"
      and why: "rdb_closed r \<or> cmd_db (commander (c_world s)) = Some p \<or> (\<exists>st a. c_master s = Closer st p a)"
      using k unfolding known_def by blast
    obtain r' where "rheap (c_world s') p = Some r'" "rdb_closed r \<longrightarrow> rdb_closed r'" using heap [OF r] by blast
    then show ?thesis using why ptr [of p] closer [of _ p _ r'] by (auto simp: known_def)
  qed
  moreover have "\<exists>r'. rheap (c_world s') p = Some r' \<and> \<not> rdb_closed r'" if k: "c_calls s t = Reading q p" for t q p
  proof -
    obtain r where r: "rheap (c_world s) p = Some r" "\<not> rdb_closed r" using inv k unfolding structInv_def by blast
    with heap [OF r(1)] k show ?thesis by auto
  qed
  ultimately show ?thesis using inv cur m by (simp add: structInv_def calls)
qed

context rocks
begin

lemma structInv_update:
  assumes E: "rocksLib E = C" and inv: "structInv contents cid nid s" and m: "c_master s = Ready"
    and run: "Update E ents (c_world s) = (x, w')"
  shows "structInv contents cid nid (become (if isOk x then Ready else Ended) (withWorld w' s))"
proof -
  obtain e where st: "settled contents cid nid e (c_world s)" using inv m by (auto simp: structInv_def)
  have st': "settled contents cid nid e w'" by (rule Update_settled [OF E st run])
  have frame: "updateFrame (c_world s) w'"
    using keepsD [OF keeps_updateFrame [of "c_world s" E ents], of "c_world s"] run
    by (simp add: updateFrame_def exI [of _ "lastApplied (commander (c_world s))"])
  show ?thesis
    using st' m frame settled_current [OF st'] by (intro structInv_masterI [OF inv]) (auto simp: updateFrame_def)
qed

lemma structInv_install:
  fixes s :: "('s, 'n, 'i) conc"
  assumes E: "rocksLib E = C" and inv: "structInv contents cid nid s" and m: "c_master s = Ready"
    and fresh: "map_of (tree (c_world s)) (getNodeDBDirName (clusterID (commander (c_world s))) (nodeID (commander (c_world s)))
          @ ''/'' @ newDbName E (calls (c_world s))) = None"
    and run: "installHead E r (c_world s) = (x, w')"
  shows "structInv contents cid nid (become (case x of Ok (Some p, d) \<Rightarrow> Closer Locking p (Some d)
          | Ok (None, d) \<Rightarrow> Removing d | _ \<Rightarrow> Ended) (withWorld w' s))"
proof -
  let ?w = "c_world s" and ?dir = "getNodeDBDirName cid nid"
  obtain e where st: "settled contents cid nid e ?w" using inv m by (auto simp: structInv_def)
  have ids: "clusterID (commander ?w) = cid" "nodeID (commander ?w) = nid" using st by (simp_all add: settled_def Let_def procOk_simps)
  note eff = installHead_effect [OF E st fresh [unfolded ids] run]
  obtain p0 r0 db0 s0 where p0: "cmd_db (commander ?w) = Some p0" and at0: "liveAt ?w p0 = Some (r0, db0, ?dir @ ''/'' @ e, s0)"
    using st by (rule settled_live)
  have heap: "rheap w' p = Some r" if "rheap ?w p = Some r" for p r
    using eff settled_heap [OF st that] that by simp
  note l0 = liveAt_SomeD [OF at0]
  have "openDbs w' (DB_c db0) = openDbs ?w (DB_c db0)" using eff settled_handle [OF st, of p0 r0 db0] l0 by simp
  moreover have "map_of (tree w') (?dir @ ''/'' @ e) = map_of (tree ?w) (?dir @ ''/'' @ e)" using eff by simp
  ultimately have at0': "liveAt w' p0 = Some (r0, db0, ?dir @ ''/'' @ e, s0)"
    using l0 heap by (simp add: liveAt_def dbAt_def)
  show ?thesis
  proof (cases "isOk x")
    case False
    then have "commander w' = commander ?w" using eff by simp
    then show ?thesis using at0' p0 heap m False
      by (intro structInv_masterI [OF inv]) (auto split: outcome.splits simp: isOk_def)
  next
    case True
    then obtain d where x: "x = Ok (Some p0, d)" using eff p0 by (cases x) auto
    with eff obtain s' where d: "d = ?dir @ ''/'' @ e" and names: "entriesApart ?dir e (newDbName E (calls ?w))"
      and st': "settled contents cid nid (newDbName E (calls ?w)) w'" and new: "cmd_db (commander w') = Some (nextPtr ?w)"
      and at': "liveAt w' (nextPtr ?w) = Some (freshStruct (dbObject (nextDb ?w) (?dir @ ''/'' @ newDbName E (calls ?w))),
          dbObject (nextDb ?w) (?dir @ ''/'' @ newDbName E (calls ?w)), ?dir @ ''/'' @ newDbName E (calls ?w), s')" by blast
    have ne: "p0 \<noteq> nextPtr ?w" using settled_heap [OF st, of p0 r0] l0 by simp
    have "handlesApart w' p0"
      using liveAt_SomeD [OF at'] liveAt_SomeD [OF at0'] settled_handle [OF st, of p0 r0 db0] l0 new
      by (auto simp: handlesApart_def dbObject_def freshStruct_def)
    then have "masterInv contents cid nid w' (Closer Locking p0 (Some d))"
      using ne new at0' names st' d by (auto simp: retired_def replaced_def)
    then show ?thesis
      using at' p0 heap m new by (intro structInv_masterI [OF inv]) (auto simp: x)
  qed
qed

end

text \<open>The steps of closing.\<close>

lemma masterInv_Closer:
  "masterInv contents cid nid w (Closer st p a) \<longleftrightarrow> retired w st p
     \<and> (case a of None \<Rightarrow> cmd_db (commander w) = None | Some d \<Rightarrow> st \<noteq> Marking \<and> replaced contents cid nid d w)"
  by (cases a) auto

lemma structInv_close:
  assumes inv: "structInv contents cid nid s" and m: "c_master s = Ready" and run: "swapDb None (c_world s) = (Ok db, w')"
  shows "structInv contents cid nid (become (case db of None \<Rightarrow> Ended | Some p \<Rightarrow> Closer Marking p None) (withWorld w' s))"
proof -
  have w': "w' = (c_world s)\<lparr>commander := (commander (c_world s))\<lparr>cmd_db := None\<rparr>\<rparr>" and db: "db = cmd_db (commander (c_world s))"
    using run by (auto simp: swapDb_def)
  show ?thesis
  proof (cases db)
    case None
    then show ?thesis using m db by (intro structInv_masterI [OF inv]) (simp_all add: w')
  next
    case (Some p)
    then have p: "cmd_db (commander (c_world s)) = Some p" using db by simp
    then have "liveAt (c_world s) p \<noteq> None" using inv by (simp add: structInv_def)
    then show ?thesis using m p unfolding Some
      by (intro structInv_masterI [OF inv]) (simp_all add: w' retired_def handlesApart_def)
  qed
qed

lemma structInv_mark:
  assumes inv: "structInv contents cid nid s" and m: "c_master s = Closer Marking p a"
    and run: "setCommander (\<lambda>d. d\<lparr>cmd_closed := True\<rparr>) (c_world s) = (Ok u, w')"
  shows "structInv contents cid nid (become (Closer Locking p a) (withWorld w' s))"
proof -
  have w': "w' = (c_world s)\<lparr>commander := (commander (c_world s))\<lparr>cmd_closed := True\<rparr>\<rparr>"
    using run by (simp add: setCommander_def)
  have "masterInv contents cid nid (c_world s) (Closer Marking p a)" using inv m by (simp add: structInv_def)
  then have "a = None" "retired (c_world s) Marking p" "cmd_db (commander (c_world s)) = None"
    by (auto simp: masterInv_Closer split: option.splits)
  then show ?thesis using m
    by (intro structInv_masterI [OF inv]) (simp_all add: w' retired_def handlesApart_def)
qed

text \<open>Steps that leave the world as it is.\<close>

lemma structInv_still:
  assumes inv: "structInv contents cid nid s" and m: "c_master s = Closer st p a" "c_master s' = Closer st' p a"
    and same: "c_world s' = c_world s" "c_calls s' = c_calls s"
    and st: "st \<in> {Locking, Waiting}" "st' \<in> {Waiting, Flagging}"
  shows "structInv contents cid nid s'"
proof -
  have "masterInv contents cid nid (c_world s) (Closer st p a)" using inv m by (simp add: structInv_def)
  then have "masterInv contents cid nid (c_world s) (Closer st' p a)"
    using st by (auto simp: masterInv_Closer retired_def split: option.splits)
  then show ?thesis using m inv by (intro structInv_masterI [OF inv same(2)]) (simp_all add: same structInv_def)
qed

lemma structInv_flag:
  assumes inv: "structInv contents cid nid s" and locks: "lockInv s" and m: "c_master s = Closer Flagging p a"
    and run: "setClosed p (c_world s) = (Ok u, w')"
  shows "structInv contents cid nid (become (Closer Shutting p a) (withWorld w' s))"
proof -
  let ?w = "c_world s"
  have mi: "masterInv contents cid nid ?w (Closer Flagging p a)" using inv m by (simp add: structInv_def)
  then have ret: "cmd_db (commander ?w) \<noteq> Some p" "handlesApart ?w p" "liveAt ?w p \<noteq> None"
    by (auto simp: masterInv_Closer retired_def)
  then obtain r where r: "rheap ?w p = Some r" by (auto dest: liveAt_SomeD)
  note eff = setClosed_effect [OF r run, of cid nid]
  have w': "w' = ?w\<lparr>rheap := (rheap ?w)(p \<mapsto> r\<lparr>rdb_closed := True\<rparr>)\<rparr>" using eff by blast
  have others: "liveAt w' q = liveAt ?w q" if "cmd_db (commander ?w) = Some q" for q using eff ret(1) that by auto
  have none: "c_calls s t \<noteq> Reading q p" for t q
  proof
    assume "c_calls s t = Reading q p"
    then have "holding (c_calls s t) = Some p" by simp
    then have "t \<in> rw_readers (c_locks s p)" using locks by (simp add: lockInv_def)
    moreover have "rw_writer (c_locks s p)" using locks m by (simp add: lockInv_def)
    ultimately show False using locks by (simp add: lockInv_def)
  qed
  have "replaced contents cid nid d w'" if k: "replaced contents cid nid d ?w" for d
  proof -
    obtain e e' where e: "entriesApart (getNodeDBDirName cid nid) e e'" "d = getNodeDBDirName cid nid @ ''/'' @ e"
      "settled contents cid nid e' ?w" using k unfolding replaced_def by blast
    have "settled contents cid nid e' w'"
      by (rule settled_other [OF e(3)]) (use e(3) eff others in \<open>auto simp: w' settled_def Let_def\<close>)
    then show ?thesis using e(1,2) by (auto simp: replaced_def)
  qed
  then have "masterInv contents cid nid w' (Closer Shutting p a)"
    using mi ret by (auto simp: masterInv_Closer retired_def handlesApart_def w' r split: option.splits)
  then show ?thesis
    using m none others inv ret by (intro structInv_masterI [OF inv]) (auto simp: w' structInv_def)
qed

lemma structInv_shut:
  assumes inv: "structInv contents cid nid s" and m: "c_master s = Closer Shutting p a"
    and run: "shutDb p (c_world s) = (Ok u, w')"
  shows "structInv contents cid nid (become (Closer Unlocking p a) (withWorld w' s))"
proof -
  let ?w = "c_world s"
  have mi: "masterInv contents cid nid ?w (Closer Shutting p a)" using inv m by (simp add: structInv_def)
  then obtain r where ret: "cmd_db (commander ?w) \<noteq> Some p" "handlesApart ?w p" and r: "rheap ?w p = Some r" "rdb_closed r"
    by (auto simp: masterInv_Closer retired_def)
  note eff = shutDb_effect [OF r(1) run, of cid nid]
  obtain r' where r': "rheap w' p = Some r'" "rdb_closed r'" "rdb_db r' = None" using eff r(2) by auto
  have cmd: "commander w' = commander ?w" and heap: "rheap w' q = rheap ?w q" if "q \<noteq> p" for q using eff that by auto
  have cmd: "commander w' = commander ?w" using eff by simp
  have others: "liveAt w' q = liveAt ?w q" if q: "cmd_db (commander ?w) = Some q" for q
  proof -
    have "liveAt ?w q \<noteq> None" using inv q by (simp add: structInv_def)
    then obtain rq dbq where "rheap ?w q = Some rq" "rdb_db rq = Some dbq" by (auto dest: liveAt_SomeD)
    moreover have "\<forall>db. rdb_db r = Some db \<longrightarrow> DB_c db \<noteq> DB_c dbq" using ret(2) r(1) q calculation by (simp add: handlesApart_def)
    moreover have "q \<noteq> p" using ret(1) q by auto
    ultimately show ?thesis using eff by blast
  qed
  have "replaced contents cid nid d w'" if k: "replaced contents cid nid d ?w" for d
  proof -
    obtain e e' where e: "entriesApart (getNodeDBDirName cid nid) e e'" "d = getNodeDBDirName cid nid @ ''/'' @ e"
      "settled contents cid nid e' ?w" using k unfolding replaced_def by blast
    have "procOk cid nid w'" using e(3) eff by (simp add: settled_def Let_def)
    then have "settled contents cid nid e' w'" using eff others by (intro settled_other [OF e(3)]) auto
    then show ?thesis using e(1,2) by (auto simp: replaced_def)
  qed
  then have "masterInv contents cid nid w' (Closer Unlocking p a)"
    using mi ret r' by (auto simp: masterInv_Closer retired_def handlesApart_def cmd split: option.splits)
  moreover have "\<exists>r''. rheap w' q = Some r'' \<and> rdb_closed r'' = rdb_closed rq" if "rheap ?w q = Some rq" for q rq
    using that r r' heap by (cases "q = p") auto
  ultimately show ?thesis
    using m others inv by (intro structInv_masterI [OF inv]) (fastforce simp: structInv_def cmd)+
qed

lemma structInv_unlock:
  assumes inv: "structInv contents cid nid s" and m: "c_master s = Closer Unlocking p a"
    and same: "c_world s' = c_world s" "c_calls s' = c_calls s" and m': "c_master s' = (case a of None \<Rightarrow> Ended | Some d \<Rightarrow> Removing d)"
  shows "structInv contents cid nid s'"
proof -
  have mi: "masterInv contents cid nid (c_world s) (Closer Unlocking p a)" using inv m by (simp add: structInv_def)
  then have "masterInv contents cid nid (c_world s) (c_master s')" by (simp add: masterInv_Closer m' split: option.splits)
  then show ?thesis using m mi inv
    by (intro structInv_masterI [OF inv same(2)]) (auto simp: same structInv_def masterInv_Closer retired_def)
qed

lemma structInv_remove:
  assumes inv: "structInv contents cid nid s" and m: "c_master s = Removing d" and run: "RemoveAll E d (c_world s) = (x, w')"
  shows "structInv contents cid nid (become (if isOk x then Ready else Ended) (withWorld w' s))"
proof -
  have "replaced contents cid nid d (c_world s)" using inv m by (simp add: structInv_def)
  then obtain e e' where names: "entriesApart (getNodeDBDirName cid nid) e e'" and d: "d = getNodeDBDirName cid nid @ ''/'' @ e"
    and st: "settled contents cid nid e' (c_world s)" by (auto simp: replaced_def)
  have st': "settled contents cid nid e' w'" by (rule RemoveAll_settled [OF st names run [unfolded d]])
  have "memory w' = memory (c_world s)" by (rule keeps_memory [OF keeps_more(5) run])
  then have "rheap w' = rheap (c_world s)" "commander w' = commander (c_world s)" by (simp_all add: memory_def)
  then show ?thesis using m st' settled_current [OF st'] by (intro structInv_masterI [OF inv]) auto
qed

context rocks
begin

lemma structInv_master:
  assumes E: "rocksLib E = C" and inv: "structInv contents cid nid s" and locks: "lockInv s" and step: "masterStep E s s'"
  shows "structInv contents cid nid s'"
  using step
proof cases
  case (update ents x w')
  show ?thesis unfolding update(1) by (rule structInv_update [OF E inv update(2,3)])
next
  case (install r x w')
  show ?thesis unfolding install(1) by (rule structInv_install [OF E inv install(2-4)])
next
  case (close db w')
  show ?thesis unfolding close(1) by (rule structInv_close [OF inv close(2,3)])
next
  case (mark p a u w')
  show ?thesis unfolding mark(1) by (rule structInv_mark [OF inv mark(2,3)])
next
  case (lock p a)
  then show ?thesis by (intro structInv_still [OF inv lock(2), of s' Waiting]) simp_all
next
  case (acquire p a)
  then show ?thesis by (intro structInv_still [OF inv acquire(2), of s' Flagging]) simp_all
next
  case (flag p a u w')
  show ?thesis unfolding flag(1) by (rule structInv_flag [OF inv locks flag(2,3)])
next
  case (shut p a u w')
  show ?thesis unfolding shut(1) by (rule structInv_shut [OF inv shut(2,3)])
next
  case (unlock p a)
  then show ?thesis by (intro structInv_unlock [OF inv unlock(2)]) simp_all
next
  case (remove d x w')
  show ?thesis unfolding remove(1) by (rule structInv_remove [OF inv remove(2,3)])
qed

text \<open>The invariant holds in every reachable state.\<close>

lemma conc_invariant:
  assumes E: "rocksLib E = C" and st: "settled contents cid nid e w" and reach: "(concStep E)\<^sup>*\<^sup>* (concStart w queries) s"
  shows "lockInv s \<and> structInv contents cid nid s"
  using reach
proof (induction rule: rtranclp_induct)
  case base
  have "structInv contents cid nid (concStart w queries)"
    using st settled_current [OF st] by (auto simp: structInv_def concStart_def)
  then show ?case by (simp add: lockInv_start)
next
  case (step s1 s2)
  then show ?case
    unfolding concStep_def
    using lockInv_call lockInv_master structInv_call structInv_master [OF E] by blast
qed

end

end
