(* ===== verification/Concurrent_Lookups.thy ===== *)
theory Concurrent_Lookups
  imports Concurrent_Invariant
begin

text \<open>
  What a lookup gets in every interleaving with the writer: a lookup for a key never reads a closed
  database, and the value that it returns was the one stored at some time during the lookup. A lookup may panic when the replica is closed beside it, and a scan may
  use a closed database: both are reachable.
\<close>

section \<open>Reads\<close>

text \<open>Under the mutex a struct that is not marked as closed is usable.\<close>

lemma known_live:
  assumes inv: "structInv contents cid nid s" and k: "known (c_world s) (c_master s) p"
    and r: "rheap (c_world s) p = Some r" "\<not> rdb_closed r"
  shows "liveAt (c_world s) p \<noteq> None"
proof -
  have "cmd_db (commander (c_world s)) = Some p \<or> (\<exists>st a. c_master s = Closer st p a)"
    using k r by (simp add: known_def)
  then show ?thesis
  proof (elim disjE exE)
    assume "cmd_db (commander (c_world s)) = Some p"
    then show ?thesis using inv by (simp add: structInv_def)
  next
    fix st a assume m: "c_master s = Closer st p a"
    then have "retired (c_world s) st p" using inv by (simp add: structInv_def masterInv_Closer)
    then show ?thesis using r by (auto simp: retired_def split: if_splits)
  qed
qed

lemma reading_live:
  assumes inv: "structInv contents cid nid s" and rd: "c_calls s t = Reading q p"
  shows "liveAt (c_world s) p \<noteq> None"
proof -
  obtain r where "rheap (c_world s) p = Some r" "\<not> rdb_closed r" using inv rd unfolding structInv_def by blast
  moreover have "known (c_world s) (c_master s) p" using inv rd unfolding structInv_def by (metis refers.simps(3))
  ultimately show ?thesis by (intro known_live [OF inv])
qed

text \<open>The value that a lookup for a key should have.\<close>

definition valueOf :: "(bytes \<rightharpoonup> bytes) \<Rightarrow> bytes \<Rightarrow> bytes" where
  "valueOf m q = (case m (Action_Key (queryAction q)) of None \<Rightarrow> '''' | Some v \<Rightarrow> v)"

context rocks
begin

lemma readKey_live:
  assumes E: "rocksLib E = C" and at: "liveAt w p = Some (r, db, d, s)"
    and run: "readKey E p (Action_Key (queryAction q)) w = (x, w')"
  shows "(\<exists>e. x = Err e) \<or> x = Ok (valueOf (contents s) q)"
  using dbGet_live [OF E at, of "Action_Key (queryAction q)"] run liveAt_SomeD [OF at]
  by (auto simp: readKey_def derefDb_live [OF at] andThen_apply sliceData_NewSlice valueOf_def ret_apply Let_def
      split: option.splits if_splits)

end

text \<open>What a lookup for a key can end in.\<close>

definition closedPanic :: "bytes outcome" where
  "closedPanic = Panic ''lookup returned valid result when Commander is already closed''"

definition plainResult :: "bytes outcome \<Rightarrow> bool" where
  "plainResult x \<longleftrightarrow> (\<exists>v. x = Ok v) \<or> (\<exists>e. x = Err e)"

fun resultInv :: "bool \<Rightarrow> 'i call \<Rightarrow> bool" where
  "resultInv d (Answered q p x) \<longleftrightarrow> plainResult x"
| "resultInv d (Unlocked q x) \<longleftrightarrow> plainResult x"
| "resultInv d (Returned q x) \<longleftrightarrow> (isScan q \<or> plainResult x \<or> x = closedPanic \<and> d)"
| "resultInv d (ScanCreate q p) \<longleftrightarrow> isScan q"
| "resultInv d (Seeking q h it) \<longleftrightarrow> isScan q"
| "resultInv d (Scanning q h it acc) \<longleftrightarrow> isScan q"
| "resultInv d _ \<longleftrightarrow> True"

lemma resultInv_mono: "resultInv False c \<Longrightarrow> resultInv d c" "resultInv d c \<Longrightarrow> resultInv True c"
  by (cases c; auto)+

lemma masterStep_closed:
  assumes step: "masterStep E s s'" and c: "cmd_closed (commander (c_world s))"
  shows "cmd_closed (commander (c_world s'))"
  using step
proof cases
  case (update ents x w')
  have "updateFrame (c_world s) w'"
    using keepsD [OF keeps_updateFrame [of "c_world s" E ents], of "c_world s"] update(3)
    by (simp add: updateFrame_def exI [of _ "lastApplied (commander (c_world s))"])
  then show ?thesis using c update by (auto simp: updateFrame_def)
next
  case (install r x w')
  then show ?thesis using c by (auto simp: installHead_def andThen_apply getCommander_def gopanic_apply)
next
  case (flag p a u w')
  then show ?thesis using c by (auto simp: setClosed_def deref_def split: option.splits)
next
  case (shut p a u w')
  then show ?thesis using c
    by (auto simp: shutDb_def deref_def andThen_apply ret_apply dbClose_def split: option.splits)
next
  case (remove d x w')
  have "memory w' = memory (c_world s)" by (rule keeps_memory [OF keeps_more(5) remove(3)])
  then show ?thesis using c remove by (simp add: memory_def)
qed (use c in \<open>auto simp: swapDb_def setCommander_def split: option.splits\<close>)

context rocks
begin

lemma resultInv_call:
  assumes E: "rocksLib E = C" and inv: "structInv contents cid nid s" and step: "callStep E t s s'"
    and res: "\<And>u. resultInv (cmd_closed (commander (c_world s))) (c_calls s u)"
  shows "resultInv (cmd_closed (commander (c_world s'))) (c_calls s' u)"
proof -
  from step obtain c n where c: "c_calls s' = (c_calls s)(t := c)" and w: "c_world s' = (c_world s)\<lparr>calls := n\<rparr>"
    by (rule callStep_shape) blast
  have "resultInv (cmd_closed (commander (c_world s))) (c_calls s' t)"
    using step
  proof cases
    case (read q p x w')
    then obtain r db d st where "liveAt (c_world s) p = Some (r, db, d, st)" using reading_live [OF inv] by fastforce
    from readKey_live [OF E this read(3)] read show ?thesis by (auto simp: plainResult_def)
  next
    case (finish q x)
    then show ?thesis using res [of t] by (auto simp: closedPanic_def plainResult_def)
  qed (use res [of t] in \<open>auto simp: plainResult_def split: outcome.splits sum.splits prod.splits\<close>)
  then show ?thesis using res [of u] by (cases "u = t") (simp_all add: c w)
qed

lemma resultInv_reach:
  assumes E: "rocksLib E = C" and st: "settled contents cid nid e w" and reach: "(concStep E)\<^sup>*\<^sup>* (concStart w queries) s"
  shows "resultInv (cmd_closed (commander (c_world s))) (c_calls s t)"
  using reach
proof (induction arbitrary: t rule: rtranclp_induct)
  case base
  then show ?case by (simp add: concStart_def)
next
  case (step s1 s2)
  note inv = conc_invariant [OF E st step.hyps(1)]
  from step.hyps(2) show ?case
    unfolding concStep_def
  proof (elim disjE exE)
    assume m: "masterStep E s1 s2"
    then have "c_calls s2 = c_calls s1" by cases simp_all
    then show ?thesis
      using step.IH [of t] masterStep_closed [OF m] resultInv_mono [where c = "c_calls s1 t"]
      by (cases "cmd_closed (commander (c_world s1))") auto
  next
    fix u assume "callStep E u s1 s2"
    from resultInv_call [OF E _ this step.IH] inv show ?thesis by blast
  qed
qed

end

section \<open>Linearizability\<close>

text \<open>
  A struct that is not the current one after a step was usable before, if it is usable after,
  and had the same contents.
\<close>

lemma liveAt_fewer:
  assumes "liveAt w' p = Some x" and "tree w' = tree w" and "rheap w' p = rheap w p"
    and "\<And>c d. openDbs w' c = Some d \<Longrightarrow> openDbs w c = Some d"
  shows "liveAt w p = Some x"
  using assms by (auto simp: liveAt_def split: option.splits)

lemma shutDb_opens:
  "shutDb p w = (x, w') \<Longrightarrow> openDbs w' c = Some d \<Longrightarrow> openDbs w c = Some d"
  by (auto simp: shutDb_def deref_def andThen_apply ret_apply dbClose_def split: option.splits if_splits)

lemma liveAt_closed: "rheap w p = Some r \<Longrightarrow> rdb_closed r \<Longrightarrow> liveAt w p = None"
  by (simp add: liveAt_def split: option.splits)

context rocks
begin

lemma masterStep_keeps_db:
  fixes s :: "('s, 'n, 'i) conc"
  assumes E: "rocksLib E = C" and inv: "structInv contents cid nid s" and step: "masterStep E s s'"
    and k: "known (c_world s) (c_master s) p" and nc: "cmd_db (commander (c_world s')) \<noteq> Some p"
    and l: "liveAt (c_world s') p = Some x"
  shows "liveAt (c_world s) p = Some x"
proof -
  let ?w = "c_world s"
  obtain r where r: "rheap ?w p = Some r"
    and why: "rdb_closed r \<or> cmd_db (commander ?w) = Some p \<or> (\<exists>st a. c_master s = Closer st p a)"
    using k unfolding known_def by blast
  from step show ?thesis
  proof cases
    case (update ents y w')
    have "updateFrame ?w w'"
      using keepsD [OF keeps_updateFrame [of ?w E ents], of ?w] update(3)
      by (simp add: updateFrame_def exI [of _ "lastApplied (commander ?w)"])
    then have "rheap w' p = Some r" "cmd_db (commander w') = cmd_db (commander ?w)" using r by (auto simp: updateFrame_def)
    then have "rdb_closed r" "rheap w' p = Some r" using why nc update by auto
    then show ?thesis using l update liveAt_closed by fastforce
  next
    case (install rd y w')
    obtain e where st: "settled contents cid nid e ?w" using inv install(2) by (auto simp: structInv_def)
    have ids: "clusterID (commander ?w) = cid" "nodeID (commander ?w) = nid"
      using st by (simp_all add: settled_def Let_def procOk_simps)
    note eff = installHead_effect [OF E st install(3) [unfolded ids] install(4)]
    have heap: "rheap w' p = Some r" using eff settled_heap [OF st r] r by simp
    have "\<not> rdb_closed r" using l install(1) heap liveAt_closed [of w' p r] by auto
    then have p: "cmd_db (commander ?w) = Some p" using why install(2) by simp
    obtain r0 db0 s0 where at: "liveAt ?w p = Some (r0, db0, getNodeDBDirName cid nid @ ''/'' @ e, s0)"
      using settled_live [OF st] p by (metis option.inject)
    note l0 = liveAt_SomeD [OF at]
    have "openDbs w' (DB_c db0) = openDbs ?w (DB_c db0)" using eff settled_handle [OF st, of p r0 db0] l0 by simp
    moreover have "map_of (tree w') (getNodeDBDirName cid nid @ ''/'' @ e) = map_of (tree ?w) (getNodeDBDirName cid nid @ ''/'' @ e)"
      using eff by simp
    ultimately have "liveAt w' p = Some (r0, db0, getNodeDBDirName cid nid @ ''/'' @ e, s0)"
      using l0 heap r by (simp add: liveAt_def dbAt_def)
    then show ?thesis using l at install(1) by simp
  next
    case (close db w')
    then show ?thesis using l by (auto simp: swapDb_def)
  next
    case (mark q a u w')
    then show ?thesis using l by (auto simp: setCommander_def)
  next
    case (flag q a u w')
    show ?thesis
    proof (cases "q = p")
      case True
      then have "rheap w' p = Some (r\<lparr>rdb_closed := True\<rparr>)" using flag(3) r by (auto simp: setClosed_def deref_def)
      then show ?thesis using l flag(1) liveAt_closed [of w' p] by simp
    next
      case False
      have "\<exists>rq. rheap ?w q = Some rq" using flag(3) by (auto simp: setClosed_def deref_def split: option.splits)
      then show ?thesis using l flag False setClosed_effect [of ?w q _ _ w'] by fastforce
    qed
  next
    case (shut q a u w')
    obtain rq where rq: "rheap ?w q = Some rq" using shut(3) by (auto simp: shutDb_def deref_def split: option.splits)
    note eff = shutDb_effect [OF rq shut(3), of cid nid]
    show ?thesis
    proof (cases "q = p")
      case True
      then have "liveAt w' p = None" using eff by (auto simp: liveAt_def)
      then show ?thesis using l shut(1) by simp
    next
      case False
      show ?thesis
        by (rule liveAt_fewer [of w']) (use l shut(1) eff False shutDb_opens [OF shut(3)] in auto)
    qed
  next
    case (remove d y w')
    have "memory w' = memory ?w" by (rule keeps_memory [OF keeps_more(5) remove(3)])
    then have m: "rheap w' = rheap ?w" "commander w' = commander ?w" by (simp_all add: memory_def)
    then have "rdb_closed r" using why nc remove by simp
    then show ?thesis using l remove(1) m r liveAt_closed [of w' p r] by simp
  qed (use l in auto)
qed

end

text \<open>
  What is known of a lookup for the key of \<open>q\<close> since a state: the struct that it refers to was the
  current one at some time since then, and has the same contents still; the value that it is going
  to return was stored at some time since then.
\<close>

definition since :: "('s, 'b, 'i, 'n) env \<Rightarrow> ('s, 'n, 'i) conc \<Rightarrow> ('s, 'n, 'i) conc \<Rightarrow> 's \<Rightarrow> bool" where
  "since E s0 s st \<longleftrightarrow> (\<exists>s1. (concStep E)\<^sup>*\<^sup>* s0 s1 \<and> (concStep E)\<^sup>*\<^sup>* s1 s \<and> liveState (c_world s1) = Some st)"

lemma since_step: "since E s0 s st \<Longrightarrow> concStep E s s' \<Longrightarrow> since E s0 s' st"
  by (meson since_def rtranclp.rtrancl_into_rtrancl)

lemma since_now: "(concStep E)\<^sup>*\<^sup>* s0 s \<Longrightarrow> liveState (c_world s) = Some st \<Longrightarrow> since E s0 s st"
  by (meson since_def rtranclp.rtrancl_refl)

definition seen :: "('s, 'b, 'i, 'n) env \<Rightarrow> ('s \<Rightarrow> bytes \<rightharpoonup> bytes) \<Rightarrow> ('s, 'n, 'i) conc \<Rightarrow> ('s, 'n, 'i) conc \<Rightarrow> nat \<Rightarrow> bool" where
  "seen E contents s0 s p \<longleftrightarrow> (\<exists>st. since E s0 s st
     \<and> (\<forall>r db d st'. liveAt (c_world s) p = Some (r, db, d, st') \<longrightarrow> contents st' = contents st))"

definition was :: "('s, 'b, 'i, 'n) env \<Rightarrow> ('s \<Rightarrow> bytes \<rightharpoonup> bytes) \<Rightarrow> ('s, 'n, 'i) conc \<Rightarrow> ('s, 'n, 'i) conc \<Rightarrow> bytes
    \<Rightarrow> bytes outcome \<Rightarrow> bool" where
  "was E contents s0 s q x \<longleftrightarrow> (\<forall>v. x = Ok v \<longrightarrow> (\<exists>st. since E s0 s st \<and> v = valueOf (contents st) q))"

fun linInv :: "('s, 'b, 'i, 'n) env \<Rightarrow> ('s \<Rightarrow> bytes \<rightharpoonup> bytes) \<Rightarrow> ('s, 'n, 'i) conc \<Rightarrow> ('s, 'n, 'i) conc \<Rightarrow> bytes
    \<Rightarrow> 'i call \<Rightarrow> bool" where
  "linInv E contents s0 s q (Called q') \<longleftrightarrow> q' = q"
| "linInv E contents s0 s q (Loaded q' p) \<longleftrightarrow> q' = q \<and> seen E contents s0 s p"
| "linInv E contents s0 s q (Locked q' p) \<longleftrightarrow> q' = q \<and> seen E contents s0 s p"
| "linInv E contents s0 s q (Reading q' p) \<longleftrightarrow> q' = q \<and> seen E contents s0 s p"
| "linInv E contents s0 s q (Answered q' p x) \<longleftrightarrow> q' = q \<and> was E contents s0 s q x"
| "linInv E contents s0 s q (Unlocked q' x) \<longleftrightarrow> q' = q \<and> was E contents s0 s q x"
| "linInv E contents s0 s q (Returned q' x) \<longleftrightarrow> q' = q \<and> was E contents s0 s q x"
| "linInv E contents s0 s q _ \<longleftrightarrow> False"

lemma was_step: "was E contents s0 s q x \<Longrightarrow> concStep E s s' \<Longrightarrow> was E contents s0 s' q x"
  using since_step [of E s0 s _ s'] unfolding was_def by blast

context rocks
begin

lemma seen_step:
  fixes s :: "('s, 'n, 'i) conc"
  assumes E: "rocksLib E = C" and reach: "(concStep E)\<^sup>*\<^sup>* s0 s" and inv: "structInv contents cid nid s"
    and step: "concStep E s s'" and inv': "structInv contents cid nid s'"
    and k: "known (c_world s) (c_master s) p" and sn: "seen E contents s0 s p"
  shows "seen E contents s0 s' p"
proof (cases "cmd_db (commander (c_world s')) = Some p")
  case True
  then have "liveAt (c_world s') p \<noteq> None" using inv' by (simp add: structInv_def)
  then obtain r db d st where at: "liveAt (c_world s') p = Some (r, db, d, st)" by auto
  then have "liveState (c_world s') = Some st" using True by (simp add: liveState_def live_def)
  then have "since E s0 s' st" using since_now [of E s0 s' st] rtranclp.rtrancl_into_rtrancl [OF reach step] by blast
  then show ?thesis using at by (auto simp: seen_def)
next
  case False
  have same: "liveAt (c_world s) p = Some y" if "liveAt (c_world s') p = Some y" for y
    using step unfolding concStep_def
  proof (elim disjE exE)
    assume "masterStep E s s'"
    from masterStep_keeps_db [OF E inv this k False that] show ?thesis .
  next
    fix u assume "callStep E u s s'"
    then obtain n where "c_world s' = (c_world s)\<lparr>calls := n\<rparr>" by (rule callStep_shape) blast
    then show ?thesis using that by simp
  qed
  then show ?thesis using sn since_step [OF _ step] by (fastforce simp: seen_def)
qed

lemma linInv_other:
  fixes s :: "('s, 'n, 'i) conc"
  assumes E: "rocksLib E = C" and reach: "(concStep E)\<^sup>*\<^sup>* s0 s" and inv: "structInv contents cid nid s"
    and step: "concStep E s s'" and inv': "structInv contents cid nid s'"
    and lin: "linInv E contents s0 s q (c_calls s t)"
  shows "linInv E contents s0 s' q (c_calls s t)"
proof -
  have "seen E contents s0 s' p" if "seen E contents s0 s p" "refers (c_calls s t) = Some p" for p
  proof -
    have "known (c_world s) (c_master s) p" using inv that(2) by (simp add: structInv_def)
    then show ?thesis using seen_step [OF E reach inv step inv'] that(1) by blast
  qed
  then show ?thesis using lin was_step [OF _ step] by (cases "c_calls s t") auto
qed

lemma linInv_own:
  fixes s :: "('s, 'n, 'i) conc"
  assumes E: "rocksLib E = C" and reach: "(concStep E)\<^sup>*\<^sup>* s0 s" and inv: "structInv contents cid nid s"
    and step: "callStep E t s s'" and q: "\<not> isScan q"
    and lin: "linInv E contents s0 s q (c_calls s t)"
  shows "linInv E contents s0 s' q (c_calls s' t)"
proof -
  have cs: "concStep E s s'" using step by (auto simp: concStep_def)
  obtain n where w: "c_world s' = (c_world s)\<lparr>calls := n\<rparr>" using step by (rule callStep_shape) blast
  have sn: "seen E contents s0 s' p" if "seen E contents s0 s p" for p
    using that since_step [OF _ cs] by (auto simp: seen_def w)
  have new: "seen E contents s0 s' p" if "cmd_db (commander (c_world s)) = Some p" for p
  proof (rule sn)
    have "liveAt (c_world s) p \<noteq> None" using inv that by (simp add: structInv_def)
    then obtain r db d st where at: "liveAt (c_world s) p = Some (r, db, d, st)" by auto
    then have "since E s0 s st" using since_now [OF reach, of st] that by (simp add: liveState_def live_def)
    then show "seen E contents s0 s p" using at by (auto simp: seen_def)
  qed
  from step show ?thesis
  proof cases
    case (load q' p)
    then show ?thesis using lin q new by auto
  next
    case (check q' p r)
    then show ?thesis using lin sn by (auto simp: was_def)
  next
    case (read q' p x w')
    obtain r db d st' where at: "liveAt (c_world s) p = Some (r, db, d, st')"
      using reading_live [OF inv read(2)] by auto
    obtain st where "since E s0 s st" "contents st' = contents st" using lin read(2) at by (auto simp: seen_def)
    then have "was E contents s0 s' q x"
      using readKey_live [OF E at read(3)] since_step [OF _ cs] lin read(2) by (auto simp: was_def)
    then show ?thesis using lin read by simp
  next
    case (runlock q' p x)
    then show ?thesis using lin was_step [OF _ cs] by simp
  next
    case (finish q' x)
    then show ?thesis using lin was_step [OF _ cs, of contents s0 q x] by (auto simp: was_def)
  next
    case (load_none q')
    then show ?thesis using lin by (simp add: was_def)
  next
    case (rlock q' p)
    then show ?thesis using lin sn by simp
  qed (use lin in simp_all)
qed

lemma linInv_reach:
  fixes s0 s :: "('s, 'n, 'i) conc"
  assumes E: "rocksLib E = C" and st: "settled contents cid nid e w"
    and reach: "(concStep E)\<^sup>*\<^sup>* (concStart w queries) s0" and q: "c_calls s0 t = Called q" "\<not> isScan q"
    and more: "(concStep E)\<^sup>*\<^sup>* s0 s"
  shows "linInv E contents s0 s q (c_calls s t)"
  using more
proof (induction rule: rtranclp_induct)
  case base
  then show ?case using q(1) by simp
next
  case (step s1 s2)
  have inv1: "structInv contents cid nid s1"
    using conc_invariant [OF E st rtranclp_trans [OF reach step.hyps(1)]] by blast
  have inv2: "structInv contents cid nid s2"
    using conc_invariant [OF E st rtranclp_trans [OF reach rtranclp.rtrancl_into_rtrancl [OF step.hyps(1,2)]]] by blast
  have other: "linInv E contents s0 s2 q (c_calls s1 t)"
    by (rule linInv_other [OF E step.hyps(1) inv1 step.hyps(2) inv2 step.IH])
  from step.hyps(2) show ?case
    unfolding concStep_def
  proof (elim disjE exE)
    assume "masterStep E s1 s2"
    then have "c_calls s2 = c_calls s1" by cases simp_all
    then show ?thesis using other by simp
  next
    fix u assume u: "callStep E u s1 s2"
    show ?thesis
    proof (cases "u = t")
      case True
      then show ?thesis using linInv_own [OF E step.hyps(1) inv1 _ q(2) step.IH] u by simp
    next
      case False
      then have "c_calls s2 t = c_calls s1 t" using callStep_shape [OF u] by (metis fun_upd_other)
      then show ?thesis using other by simp
    qed
  qed
qed

end

section \<open>Progress\<close>

text \<open>The writer can go on in a close, unless it waits for readers.\<close>

lemma closer_enabled:
  assumes inv: "structInv contents cid nid s" and m: "c_master s = Closer st p a"
    and free: "st = Waiting \<Longrightarrow> rw_readers (c_locks s p) = {}"
  shows "\<exists>s'. masterStep E s s'"
proof -
  have ret: "retired (c_world s) st p" using inv m by (simp add: structInv_def masterInv_Closer)
  then have heap: "\<exists>r. rheap (c_world s) p = Some r" by (auto simp: retired_def dest: liveAt_SomeD split: if_splits)
  show ?thesis
  proof (cases st)
    case Marking
    have "setCommander (\<lambda>d. d\<lparr>cmd_closed := True\<rparr>) (c_world s) = (Ok (), snd (setCommander (\<lambda>d. d\<lparr>cmd_closed := True\<rparr>) (c_world s)))"
      by (simp add: setCommander_def)
    then show ?thesis using masterStep.mark [OF m [unfolded Marking]] by blast
  next
    case Locking
    then show ?thesis using masterStep.lock m by blast
  next
    case Waiting
    then show ?thesis using masterStep.acquire m free by blast
  next
    case Flagging
    obtain r where "rheap (c_world s) p = Some r" using heap by blast
    then have "setClosed p (c_world s) = (Ok (), snd (setClosed p (c_world s)))" by (simp add: setClosed_def deref_def)
    then show ?thesis using masterStep.flag [OF m [unfolded Flagging]] by blast
  next
    case Shutting
    obtain r where "rheap (c_world s) p = Some r" using heap by blast
    then have "shutDb p (c_world s) = (Ok (), snd (shutDb p (c_world s)))"
      by (cases "rdb_db r") (simp_all add: shutDb_def deref_def andThen_apply ret_apply dbClose_def)
    then show ?thesis using masterStep.shut [OF m [unfolded Shutting]] by blast
  next
    case Unlocking
    then show ?thesis using masterStep.unlock m by blast
  qed
qed

section \<open>Properties\<close>

text \<open>
  C6. A lookup for a key is atomic. However it interleaves with other lookups, updates, installations
  of snapshots and a close, a value that it returns is the one that the replica stored for
  the key at some time between its begin and its end, also when the database that it read from was
  replaced in between.
\<close>

theorem get_linearizable:
  assumes "rocks (rocksLib E) contents ops items rest snapped" and "lifeInv contents cid nid (w, True) m"
    and "(concStep E)\<^sup>*\<^sup>* (concStart w queries) s0" and "c_calls s0 t = Called q" and "\<not> isScan q"
    and "(concStep E)\<^sup>*\<^sup>* s0 s2" and "c_calls s2 t = Returned q' (Ok v)"
  shows "\<exists>s1 st. (concStep E)\<^sup>*\<^sup>* s0 s1 \<and> (concStep E)\<^sup>*\<^sup>* s1 s2 \<and> liveState (c_world s1) = Some st
    \<and> v = (case contents st (Action_Key (queryAction q)) of None \<Rightarrow> '''' | Some x \<Rightarrow> x)"
proof -
  obtain e where "settled contents cid nid e w" using lifeInv_settled [OF assms(2)] by blast
  from rocks.linInv_reach [OF assms(1) refl this assms(3-6)] assms(7)
  show ?thesis by (auto simp: was_def since_def valueOf_def)
qed

text \<open>
  C9. A lookup for a key never touches a closed database: when it is about to read, the struct that
  it holds is open and its database is there. It returns a value or an error; the one panic
  that it can end in is the one of the code, and only in a replica that was closed meanwhile.
\<close>

theorem get_reads_open_database:
  assumes "rocks (rocksLib E) contents ops items rest snapped" and "lifeInv contents cid nid (w, True) m"
    and "(concStep E)\<^sup>*\<^sup>* (concStart w queries) s"
  shows "(\<forall>t q p. c_calls s t = Reading q p \<longrightarrow> liveAt (c_world s) p \<noteq> None)
    \<and> (\<forall>t q x. c_calls s t = Returned q x \<longrightarrow> \<not> isScan q \<longrightarrow> (\<exists>v. x = Ok v) \<or> (\<exists>e. x = Err e)
         \<or> x = Panic ''lookup returned valid result when Commander is already closed'' \<and> cmd_closed (commander (c_world s)))"
proof -
  obtain e where st: "settled contents cid nid e w" using lifeInv_settled [OF assms(2)] by blast
  have inv: "structInv contents cid nid s" using rocks.conc_invariant [OF assms(1) refl st assms(3)] by blast
  show ?thesis
  proof (intro conjI allI impI)
    show "liveAt (c_world s) p \<noteq> None" if "c_calls s t = Reading q p" for t q p by (rule reading_live [OF inv that])
    show "(\<exists>v. x = Ok v) \<or> (\<exists>e. x = Err e)
         \<or> x = Panic ''lookup returned valid result when Commander is already closed'' \<and> cmd_closed (commander (c_world s))"
      if "c_calls s t = Returned q x" "\<not> isScan q" for t q x
      using rocks.resultInv_reach [OF assms(1) refl st assms(3), of t] that by (simp add: plainResult_def closedPanic_def)
  qed
qed

text \<open>Alone, a lookup for a key gets to its end, when the library reports no error.\<close>

lemma callSteps_concSteps: "(callStep E t)\<^sup>*\<^sup>* s s' \<Longrightarrow> (concStep E)\<^sup>*\<^sup>* s s'"
  by (rule rtranclp_mono [THEN predicate2D]) (auto simp: concStep_def)

lemma masterSteps_concSteps: "(masterStep E)\<^sup>*\<^sup>* s s' \<Longrightarrow> (concStep E)\<^sup>*\<^sup>* s s'"
  by (rule rtranclp_mono [THEN predicate2D]) (auto simp: concStep_def)

lemma readKey_ok:
  assumes "\<And>t ro s k. fst (c_get (rocksLib E) t ro s k) = None" and at: "liveAt w p = Some (r, db, d, s)"
  shows "\<exists>v. readKey E p k w = (Ok v, w\<lparr>calls := Suc (calls w)\<rparr>)"
proof -
  obtain v where "c_get (rocksLib E) (calls w) (ReadOptions_c (rdb_ro r)) s k = (None, v)"
    using assms(1) [of "calls w" "ReadOptions_c (rdb_ro r)" s k]
    by (cases "c_get (rocksLib E) (calls w) (ReadOptions_c (rdb_ro r)) s k") simp
  then show ?thesis
    by (simp add: readKey_def derefDb_live [OF at] dbGet_def onDb_live [OF at] andThen_apply ret_apply Let_def)
qed

lemma get_finishes:
  assumes ok: "\<And>t ro s k. fst (c_get (rocksLib E) t ro s k) = None" and st: "settled contents cid nid e w" and q: "\<not> isScan q"
  shows "\<exists>v. (concStep E)\<^sup>*\<^sup>* (concStart w (\<lambda>_. q))
    (goto t (Unlocked q (Ok v)) (withWorld (w\<lparr>calls := Suc (calls w)\<rparr>) (concStart w (\<lambda>_. q))))"
proof -
  obtain p r db s where p: "cmd_db (commander w) = Some p"
    and at: "liveAt w p = Some (r, db, getNodeDBDirName cid nid @ ''/'' @ e, s)" using st by (rule settled_live)
  obtain v where v: "readKey E p (Action_Key (queryAction q)) w = (Ok v, w\<lparr>calls := Suc (calls w)\<rparr>)"
    using readKey_ok [OF ok at] by blast
  have "(callStep E t)\<^sup>*\<^sup>* (concStart w (\<lambda>_. q)) (goto t (Unlocked q (Ok v)) (withWorld (w\<lparr>calls := Suc (calls w)\<rparr>) (concStart w (\<lambda>_. q))))"
    by (rule get_read [where p = p and r = r]) (use p v q liveAt_SomeD [OF at] in \<open>simp_all add: concStart_def\<close>)
  then show ?thesis using callSteps_concSteps by blast
qed

text \<open>A close between the loading of the pointer and the scan.\<close>

lemma scan_after_close:
  fixes E :: "('s, 'b, 'i, 'n) env"
  assumes st: "settled contents cid nid e w" and q: "isScan q"
  shows "\<exists>s. (concStep E)\<^sup>*\<^sup>* (concStart w (\<lambda>_. q)) s \<and> c_calls s t = Returned q (Panic nilDeref)"
proof -
  obtain p r db st0 where p: "cmd_db (commander w) = Some p"
    and at: "liveAt w p = Some (r, db, getNodeDBDirName cid nid @ ''/'' @ e, st0)" using st by (rule settled_live)
  define s0 :: "('s, 'n, 'i) conc" where "s0 = concStart w (\<lambda>_. q)"
  have s0: "c_world s0 = w" "c_calls s0 t = Called q" "c_master s0 = Ready"
    "c_locks s0 p = \<lparr>rw_readers = {}, rw_pending = False, rw_writer = False\<rparr>" by (simp_all add: s0_def concStart_def)
  define s1 where "s1 = goto t (ScanCreate q p) s0"
  have 1: "callStep E t s0 s1" using callStep.load [of s0 t q p E] s0 p q by (simp add: s1_def)
  define w1 where "w1 = w\<lparr>commander := (commander w)\<lparr>cmd_db := None\<rparr>\<rparr>"
  define s2 where "s2 = become (Closer Marking p None) (withWorld w1 s1)"
  have 2: "masterStep E s1 s2"
    using masterStep.close [of s1 "Some p" w1 E] s0 p by (simp add: s1_def s2_def w1_def swapDb_def)
  define w2 where "w2 = w1\<lparr>commander := (commander w1)\<lparr>cmd_closed := True\<rparr>\<rparr>"
  define s3 where "s3 = become (Closer Locking p None) (withWorld w2 s2)"
  have 3: "masterStep E s2 s3"
    using masterStep.mark [of s2 p None "()" w2 E] by (simp add: s2_def s3_def w2_def setCommander_def)
  have r: "rheap w2 p = Some r" using liveAt_SomeD [OF at] by (simp add: w1_def w2_def)
  then obtain w3 where w3: "rocksdb_close p w2 = (Ok (), w3)" and nodb: "\<exists>r'. rheap w3 p = Some r' \<and> rdb_db r' = None"
    by (cases "rdb_db r") (auto simp: rocksdb_close_def deref_def andThen_apply ret_apply dbClose_def)
  define s4 where "s4 = become Ended (withWorld w3 s3)"
  have 4: "(masterStep E)\<^sup>*\<^sup>* s3 s4"
    using close_alone [of s3 p None r "Ok ()" w3 E] r w3 s0 by (simp add: s4_def s3_def s2_def s1_def)
  have pan: "scanIterator E p w3 = (Panic nilDeref, w3)"
    using nodb by (auto simp: scanIterator_def derefDb_def deref_def gopanic_apply Let_def)
  have 5: "callStep E t s4 (goto t (Returned q (Panic nilDeref)) (withWorld w3 s4))"
    using callStep.create [of s4 t q p E "Panic nilDeref" w3] pan
    by (simp add: s4_def s3_def s2_def s1_def failed_def)
  have "concStep E s0 s1" "concStep E s1 s2" "concStep E s2 s3" using 1 2 3 by (auto simp: concStep_def)
  moreover have "(concStep E)\<^sup>*\<^sup>* s3 s4" using masterSteps_concSteps [OF 4] .
  moreover have "concStep E s4 (goto t (Returned q (Panic nilDeref)) (withWorld w3 s4))" using 5 by (auto simp: concStep_def)
  ultimately have "(concStep E)\<^sup>*\<^sup>* s0 (goto t (Returned q (Panic nilDeref)) (withWorld w3 s4))"
    by (meson converse_rtranclp_into_rtranclp rtranclp.rtrancl_into_rtrancl)
  moreover have "c_calls (goto t (Returned q (Panic nilDeref)) (withWorld w3 s4)) t = Returned q (Panic nilDeref)"
    by (simp add: goto_def)
  ultimately show ?thesis unfolding s0_def by blast
qed

lemma get_before_close:
  assumes ok: "\<And>t ro s k. fst (c_get (rocksLib E) t ro s k) = None" and st: "settled contents cid nid e w" and q: "\<not> isScan q"
  shows "\<exists>s. (concStep E)\<^sup>*\<^sup>* (concStart w (\<lambda>_. q)) s \<and> c_calls s t = Returned q closedPanic"
proof -
  obtain p where p: "cmd_db (commander w) = Some p" using st by (rule settled_live)
  obtain v where 1: "(concStep E)\<^sup>*\<^sup>* (concStart w (\<lambda>_. q))
    (goto t (Unlocked q (Ok v)) (withWorld (w\<lparr>calls := Suc (calls w)\<rparr>) (concStart w (\<lambda>_. q))))"
    (is "(concStep E)\<^sup>*\<^sup>* _ ?s1") using get_finishes [OF ok st q] by blast
  define w1 where "w1 = w\<lparr>calls := Suc (calls w), commander := (commander w)\<lparr>cmd_db := None\<rparr>\<rparr>"
  define s2 where "s2 = become (Closer Marking p None) (withWorld w1 ?s1)"
  have 2: "masterStep E ?s1 s2"
    using masterStep.close [of ?s1 "Some p" w1 E] p by (simp add: s2_def w1_def swapDb_def concStart_def)
  define w2 where "w2 = w1\<lparr>commander := (commander w1)\<lparr>cmd_closed := True\<rparr>\<rparr>"
  define s3 where "s3 = become (Closer Locking p None) (withWorld w2 s2)"
  have 3: "masterStep E s2 s3"
    using masterStep.mark [of s2 p None "()" w2 E] by (simp add: s2_def s3_def w2_def setCommander_def)
  have 4: "callStep E t s3 (goto t (Returned q closedPanic) s3)"
    using callStep.finish [of s3 t q "Ok v" E] by (simp add: s3_def s2_def w2_def closedPanic_def)
  have "concStep E ?s1 s2" "concStep E s2 s3" "concStep E s3 (goto t (Returned q closedPanic) s3)"
    using 2 3 4 by (auto simp: concStep_def)
  with 1 have "(concStep E)\<^sup>*\<^sup>* (concStart w (\<lambda>_. q)) (goto t (Returned q closedPanic) s3)"
    by (meson rtranclp.rtrancl_into_rtrancl)
  moreover have "c_calls (goto t (Returned q closedPanic) s3) t = Returned q closedPanic" by (simp add: goto_def)
  ultimately show ?thesis by blast
qed

text \<open>
  C34. Closing a replica beside a lookup can end the process. For every replica in service and every
  query there is an interleaving with \<^verbatim>\<open>Close\<close> in which \<^verbatim>\<open>Lookup\<close> panics: a lookup for a key because
  it holds a valid result when it sees that the replica is closed, a scan because it uses the
  database without the mutex and finds it closed.
\<close>

theorem close_panics_lookups:
  assumes "rocks (rocksLib E) contents ops items rest snapped" and "lifeInv contents cid nid (w, True) m"
    and "\<And>n ro s k. fst (c_get (rocksLib E) n ro s k) = None"
  shows "\<exists>s. (concStep E)\<^sup>*\<^sup>* (concStart w (\<lambda>_. q)) s \<and> c_calls s t = Returned q (Panic
    (if isScan q then nilDeref else ''lookup returned valid result when Commander is already closed''))"
proof -
  obtain e where st: "settled contents cid nid e w" using lifeInv_settled [OF assms(2)] by blast
  then show ?thesis
    using get_before_close [OF assms(3) st, of q t] scan_after_close [OF st, of q E t] by (auto simp: closedPanic_def)
qed

text \<open>The example: a replica with one pair.\<close>

lemma example_life: "lifeInv map_of 1 1 (exampleWorld [(''k'', ''v'')] 0, True) (map_of [(''k'', ''v'')])"
proof -
  have "storedIndex (map_of [(''k'', ''v'')]) = Inr 0" by (simp add: storedIndex_def appliedIndexKey_def)
  moreover have "procOk 1 1 (exampleWorld [(''k'', ''v'')] 0)"
    by (simp add: procOk_simps exampleWorld_def NewCommander_def)
  moreover obtain r db where "live (exampleWorld [(''k'', ''v'')] 0) = Some (r, db, exampleDir @ ''/'' @ ''1_1'', [(''k'', ''v'')])"
    using live_exampleWorld by blast
  ultimately show ?thesis
    using exampleWorld_plain exampleWorld_installed [of "[(''k'', ''v'')]" 0] example_elem
    by (auto simp: lifeInv_def Let_def getNodeDBDirName_example liveDir_def intro!: exI [of _ "''1_1''"])
qed

definition exampleGet :: bytes where
  "exampleGet = marshalAction \<lparr>Action_Action = ''GET'', Action_Key = ''k'', Action_Val = ''''\<rparr>"

definition exampleScan :: bytes where
  "exampleScan = marshalAction \<lparr>Action_Action = ''SCAN'', Action_Key = ''k'', Action_Val = ''''\<rparr>"

lemma example_queries: "\<not> isScan exampleGet" "isScan exampleScan"
  by (simp_all add: isScan_def exampleGet_def exampleScan_def queryAction_marshal cleanAction_def sanitize_ascii)

lemma example_reads: "fst (c_get (rocksLib (exampleEnv f)) n ro s k) = None"
  by (simp add: refRocks_def)

theorem get_linearizable_witness:
  "let E = exampleEnv (\<lambda>_. NoFault); s0 = concStart (exampleWorld [(''k'', ''v'')] 0) (\<lambda>_. exampleGet)
   in \<exists>s2 v s1 st. (concStep E)\<^sup>*\<^sup>* s0 s1 \<and> (concStep E)\<^sup>*\<^sup>* s1 s2 \<and> c_calls s2 0 = Returned exampleGet (Ok v)
     \<and> liveState (c_world s1) = Some st \<and> v = (case map_of st (Action_Key (queryAction exampleGet)) of None \<Rightarrow> '''' | Some x \<Rightarrow> x)"
proof -
  let ?E = "exampleEnv (\<lambda>_. NoFault)" and ?w = "exampleWorld [(''k'', ''v'')] 0"
  let ?s0 = "concStart ?w (\<lambda>_. exampleGet)"
  have lib: "rocks (rocksLib ?E) map_of (\<lambda>b. b) fst snd map_of" by (simp add: refRocks_laws)
  obtain e where st: "settled map_of 1 1 e ?w" using lifeInv_settled [OF example_life] by blast
  obtain v where 1: "(concStep ?E)\<^sup>*\<^sup>* ?s0 (goto 0 (Unlocked exampleGet (Ok v)) (withWorld (?w\<lparr>calls := Suc (calls ?w)\<rparr>) ?s0))"
    (is "(concStep _)\<^sup>*\<^sup>* _ ?s1") using get_finishes [OF example_reads st example_queries(1), of _ 0] by blast
  have "callStep ?E 0 ?s1 (goto 0 (Returned exampleGet (Ok v)) ?s1)"
    using callStep.finish [of ?s1 0 exampleGet "Ok v" ?E] by (simp add: exampleWorld_def NewCommander_def)
  then have 2: "(concStep ?E)\<^sup>*\<^sup>* ?s0 (goto 0 (Returned exampleGet (Ok v)) ?s1)" (is "(concStep _)\<^sup>*\<^sup>* _ ?s2")
    using rtranclp.rtrancl_into_rtrancl [OF 1, of ?s2] by (auto simp: concStep_def)
  have c: "c_calls ?s0 0 = Called exampleGet" "c_calls ?s2 0 = Returned exampleGet (Ok v)"
    by (simp_all add: concStart_def goto_def)
  from get_linearizable [OF lib example_life rtranclp.rtrancl_refl c(1) example_queries(1) 2 c(2)] c(2)
  show ?thesis unfolding Let_def by blast
qed

theorem get_reads_open_database_witness:
  "let E = exampleEnv (\<lambda>_. NoFault); s0 = concStart (exampleWorld [(''k'', ''v'')] 0) (\<lambda>_. exampleGet)
   in \<exists>s x. (concStep E)\<^sup>*\<^sup>* s0 s \<and> c_calls s 0 = Returned exampleGet x \<and> x = closedPanic \<and> cmd_closed (commander (c_world s))"
proof -
  let ?E = "exampleEnv (\<lambda>_. NoFault)" and ?w = "exampleWorld [(''k'', ''v'')] 0"
  have lib: "rocks (rocksLib ?E) map_of (\<lambda>b. b) fst snd map_of" by (simp add: refRocks_laws)
  obtain e where st: "settled map_of 1 1 e ?w" using lifeInv_settled [OF example_life] by blast
  obtain s where s: "(concStep ?E)\<^sup>*\<^sup>* (concStart ?w (\<lambda>_. exampleGet)) s" "c_calls s 0 = Returned exampleGet closedPanic"
    using get_before_close [OF example_reads st example_queries(1), of _ 0] by blast
  have "cmd_closed (commander (c_world s))"
    using get_reads_open_database [OF lib example_life s(1), THEN conjunct2, rule_format, OF s(2) example_queries(1)]
    by (simp add: closedPanic_def)
  with s show ?thesis unfolding Let_def by blast
qed

theorem close_panics_lookups_witness:
  "let E = exampleEnv (\<lambda>_. NoFault); w = exampleWorld [(''k'', ''v'')] 0
   in (\<exists>s. (concStep E)\<^sup>*\<^sup>* (concStart w (\<lambda>_. exampleGet)) s \<and> c_calls s 0 = Returned exampleGet
         (Panic ''lookup returned valid result when Commander is already closed''))
      \<and> (\<exists>s. (concStep E)\<^sup>*\<^sup>* (concStart w (\<lambda>_. exampleScan)) s \<and> c_calls s 0 = Returned exampleScan (Panic nilDeref))"
proof -
  let ?E = "exampleEnv (\<lambda>_. NoFault)"
  have lib: "rocks (rocksLib ?E) map_of (\<lambda>b. b) fst snd map_of" by (simp add: refRocks_laws)
  show ?thesis
    using close_panics_lookups [OF lib example_life example_reads, of exampleGet 0]
      close_panics_lookups [OF lib example_life example_reads, of exampleScan 0] example_queries
    unfolding Let_def by simp
qed

end
