(* ===== verification/Concurrent_Saves.thy ===== *)
theory Concurrent_Saves
  imports Concurrent_Lookups
begin

text \<open>
  Saving beside lookups, updates, installations and a close. The raft library prepares a snapshot
  between two writing calls, and has it saved by another goroutine while the writer and the
  lookups go on; a goroutine that asks for the hash saves too, into the hash. The goroutines of
  \<^verbatim>\<open>Concurrent_Lookups\<close> run as there, and the savers hold the read locks of the structs beside the
  lookups: the writer of a mutex waits for both.
\<close>

section \<open>The savers\<close>

text \<open>
  Where a saver is: about to prepare a snapshot; with the context, before \<^verbatim>\<open>SaveSnapshot\<close> looks at
  the flags; before it takes the mutex; before it creates the iterator; before the iterator is
  placed; in the loop that counts, with the count; in the loop that writes; with its result before the deferred
  unlock; returned. A goroutine in \<^verbatim>\<open>GetHash\<close> loads \<^verbatim>\<open>d.db\<close> and makes a snapshot in place of the
  first steps; the flag tells the two apart.
\<close>

type_synonym saved = "Writer \<times> error option"

datatype ('n, 'i) saver =
    SaveTo Writer | Prepared "'n CommanderCtx" Writer
  | HashCalled | HashLoaded nat
  | Snapped bool nat "'n Snapshot" Writer
  | SaveLocked bool nat "'n Snapshot" Writer
  | SavePlacing bool nat DB "'i Iterator" Writer
  | Counting bool nat DB "'i Iterator" uint64 Writer
  | Writing bool nat DB "'i Iterator" Writer
  | SaveAnswered bool nat "saved outcome"
  | Saved "saved outcome" | Hashed "uint64 outcome"

text \<open>The lookups and the writer, the savers, and which of these hold the mutex of a struct.\<close>

record ('s, 'n, 'i) saving =
  sv_conc :: "('s, 'n, 'i) conc"
  sv_savers :: "nat \<Rightarrow> ('n, 'i) saver"
  sv_readers :: "nat \<Rightarrow> nat set"

definition saver :: "nat \<Rightarrow> ('n, 'i) saver \<Rightarrow> ('s, 'n, 'i) saving \<Rightarrow> ('s, 'n, 'i) saving" where
  "saver t v s = s\<lparr>sv_savers := (sv_savers s)(t := v)\<rparr>"

definition savingWorld :: "('s, 'n) world \<Rightarrow> ('s, 'n, 'i) saving \<Rightarrow> ('s, 'n, 'i) saving" where
  "savingWorld w s = s\<lparr>sv_conc := withWorld w (sv_conc s)\<rparr>"

definition savingReaders :: "nat \<Rightarrow> (nat set \<Rightarrow> nat set) \<Rightarrow> ('s, 'n, 'i) saving \<Rightarrow> ('s, 'n, 'i) saving" where
  "savingReaders p f s = s\<lparr>sv_readers := (sv_readers s)(p := f (sv_readers s p))\<rparr>"

abbreviation sv_world :: "('s, 'n, 'i) saving \<Rightarrow> ('s, 'n) world" where
  "sv_world s \<equiv> c_world (sv_conc s)"

text \<open>An outcome that is not a value, of a part that has failed.\<close>

definition broken :: "'a outcome \<Rightarrow> 'b outcome" where
  "broken x = (case x of Ok _ \<Rightarrow> Diverge | Err e \<Rightarrow> Err e | Panic p \<Rightarrow> Panic p | Crash \<Rightarrow> Crash | Diverge \<Rightarrow> Diverge)"

text \<open>
  The parts of \<^verbatim>\<open>saveToWriter\<close>: the iterator; a round of the loop that counts, whose end writes the
  count and places the iterator again; a round of the loop that writes. Their result is the
  one of the whole function, or the state of the loop.
\<close>

definition saveIterator :: "('s, 'b, 'i, 'n) env \<Rightarrow> nat \<Rightarrow> 'n Snapshot \<Rightarrow> ('s, 'n, DB \<times> 'i Iterator) op" where
  "saveIterator E p ss = (let ro = SetSnapshot NewDefaultReadOptions ss
     in derefDb p (\<lambda>r db. andThen (dbNewIterator E db ro) (\<lambda>it. ret (db, it))))"

definition placeStep :: "('s, 'b, 'i, 'n) env \<Rightarrow> DB \<Rightarrow> 'i Iterator \<Rightarrow> ('s, 'n, 'i Iterator) op" where
  "placeStep E h it = useIterator h (\<lambda>w.
     (Ok (iterSeekToFirst (rocksLib E) (calls w) it), w\<lparr>calls := Suc (calls w)\<rparr>))"

datatype 'i counted = CountFailed saved | CountNext "'i Iterator" uint64 | CountDone "'i Iterator" Writer

definition countStep :: "('s, 'b, 'i, 'n) env \<Rightarrow> DB \<Rightarrow> 'i Iterator \<Rightarrow> uint64 \<Rightarrow> Writer \<Rightarrow> ('s, 'n, 'i counted) op" where
  "countStep E h it count wr = useIterator h (\<lambda>w.
     let C = rocksLib E
     in if iterValid C it
        then (Ok (CountNext (iterNext C (calls w) it) (count + 1)), w\<lparr>calls := Suc (calls w)\<rparr>)
        else (case writerWrite wr (PutUint64 count) of
                (wr1, Some e) \<Rightarrow> (Ok (CountFailed (wr1, Some e)), w)
              | (wr1, None) \<Rightarrow> (Ok (CountDone (iterSeekToFirst C (calls w) it) wr1), w\<lparr>calls := Suc (calls w)\<rparr>)))"

definition writeStep :: "('s, 'b, 'i, 'n) env \<Rightarrow> DB \<Rightarrow> 'i Iterator \<Rightarrow> Writer \<Rightarrow> ('s, 'n, saved + 'i Iterator \<times> Writer) op" where
  "writeStep E h it wr = useIterator h (\<lambda>w.
     let C = rocksLib E
     in if \<not> iterValid C it then (Ok (Inl (wr, None)), w)
        else (case iterKey C it of
                None \<Rightarrow> (Panic nilDeref, w)
              | Some key \<Rightarrow> (case iterValue C it of
                  None \<Rightarrow> (Panic nilDeref, w)
                | Some val \<Rightarrow>
                    let data = marshalAction (emptyAction\<lparr>Action_Key := sliceData key, Action_Val := sliceData val\<rparr>)
                    in (case writerWrite wr (PutUint64 (word_of_nat (length data))) of
                          (wr1, Some e) \<Rightarrow> (Ok (Inl (wr1, Some e)), w)
                        | (wr1, None) \<Rightarrow> (case writerWrite wr1 data of
                              (wr2, Some e) \<Rightarrow> (Ok (Inl (wr2, Some e)), w)
                            | (wr2, None) \<Rightarrow> (Ok (Inr (iterNext C (calls w) it, wr2)), w\<lparr>calls := Suc (calls w)\<rparr>))))))"

text \<open>What \<^verbatim>\<open>GetHash\<close> makes of the end of \<^verbatim>\<open>saveToWriter\<close>.\<close>

definition hashResult :: "saved outcome \<Rightarrow> uint64 outcome" where
  "hashResult x = (case x of
       Ok (wr, None) \<Rightarrow> Ok (Uint64 (take 8 (md5 (wr_data wr))))
     | Ok (wr, Some e) \<Rightarrow> Err e
     | _ \<Rightarrow> broken x)"

text \<open>The flags that \<^verbatim>\<open>SaveSnapshot\<close> looks at before it takes the mutex.\<close>

definition saveCheck :: "'n CommanderCtx \<Rightarrow> Writer \<Rightarrow> Commander \<Rightarrow> ('n, 'i) saver" where
  "saveCheck ctx wr d =
     (if cmd_closed d then Saved (Panic ''prepare snapshot called after Close()'')
      else if cmd_aborted d then Saved (Panic ''prepare snapshot called after abort'')
      else (case ctx_db ctx of None \<Rightarrow> Saved (Panic nilDeref) | Some p \<Rightarrow> Snapped False p (ctx_snapshot ctx) wr))"

inductive saverStep :: "('s, 'b, 'i, 'n) env \<Rightarrow> nat \<Rightarrow> ('s, 'n, 'i) saving \<Rightarrow> ('s, 'n, 'i) saving \<Rightarrow> bool" for E t where
  prepare: "sv_savers s t = SaveTo wr \<Longrightarrow> c_master (sv_conc s) = Ready \<Longrightarrow> PrepareSnapshot E (sv_world s) = (x, w')
    \<Longrightarrow> saverStep E t s (saver t (case x of Ok ctx \<Rightarrow> Prepared ctx wr | _ \<Rightarrow> Saved (broken x)) (savingWorld w' s))"
| check: "sv_savers s t = Prepared ctx wr
    \<Longrightarrow> saverStep E t s (saver t (saveCheck ctx wr (commander (sv_world s))) s)"
| load: "sv_savers s t = HashCalled
    \<Longrightarrow> saverStep E t s (saver t (case cmd_db (commander (sv_world s)) of
          None \<Rightarrow> Hashed (Panic nilDeref) | Some p \<Rightarrow> HashLoaded p) s)"
| snap: "sv_savers s t = HashLoaded p \<Longrightarrow> derefDb p (\<lambda>r rdb. dbNewSnapshot E rdb) (sv_world s) = (x, w')
    \<Longrightarrow> saverStep E t s (saver t (case x of Ok ss \<Rightarrow> Snapped True p ss hashWriter | _ \<Rightarrow> Hashed (broken x)) (savingWorld w' s))"
| rlock: "sv_savers s t = Snapped h p ss wr
    \<Longrightarrow> \<not> rw_writer (c_locks (sv_conc s) p) \<Longrightarrow> \<not> rw_pending (c_locks (sv_conc s) p)
    \<Longrightarrow> saverStep E t s (saver t (SaveLocked h p ss wr) (savingReaders p (insert t) s))"
| create: "sv_savers s t = SaveLocked h p ss wr \<Longrightarrow> saveIterator E p ss (sv_world s) = (x, w')
    \<Longrightarrow> saverStep E t s (saver t (case x of Ok (db, it) \<Rightarrow> SavePlacing h p db it wr
          | _ \<Rightarrow> SaveAnswered h p (broken x)) (savingWorld w' s))"
| place: "sv_savers s t = SavePlacing h p db it wr \<Longrightarrow> placeStep E db it (sv_world s) = (x, w')
    \<Longrightarrow> saverStep E t s (saver t (case x of Ok it' \<Rightarrow> Counting h p db it' 0 wr
          | _ \<Rightarrow> SaveAnswered h p (broken x)) (savingWorld w' s))"
| count: "sv_savers s t = Counting h p db it n wr \<Longrightarrow> countStep E db it n wr (sv_world s) = (x, w')
    \<Longrightarrow> saverStep E t s (saver t (case x of Ok (CountFailed res) \<Rightarrow> SaveAnswered h p (Ok res)
          | Ok (CountNext it' n') \<Rightarrow> Counting h p db it' n' wr
          | Ok (CountDone it' wr') \<Rightarrow> Writing h p db it' wr'
          | _ \<Rightarrow> SaveAnswered h p (broken x)) (savingWorld w' s))"
| put: "sv_savers s t = Writing h p db it wr \<Longrightarrow> writeStep E db it wr (sv_world s) = (x, w')
    \<Longrightarrow> saverStep E t s (saver t (case x of Ok (Inl res) \<Rightarrow> SaveAnswered h p (Ok res)
          | Ok (Inr (it', wr')) \<Rightarrow> Writing h p db it' wr'
          | _ \<Rightarrow> SaveAnswered h p (broken x)) (savingWorld w' s))"
| unlock: "sv_savers s t = SaveAnswered h p x
    \<Longrightarrow> saverStep E t s (saver t (if h then Hashed (hashResult x) else Saved x) (savingReaders p (\<lambda>ts. ts - {t}) s))"

text \<open>All goroutines. The one that closes a struct waits for the savers that read it, too.\<close>

inductive savingStep :: "('s, 'b, 'i, 'n) env \<Rightarrow> ('s, 'n, 'i) saving \<Rightarrow> ('s, 'n, 'i) saving \<Rightarrow> bool" for E where
  lookup: "callStep E t (sv_conc s) c \<Longrightarrow> savingStep E s (s\<lparr>sv_conc := c\<rparr>)"
| master: "masterStep E (sv_conc s) c \<Longrightarrow> (\<And>p a. c_master (sv_conc s) = Closer Waiting p a \<Longrightarrow> sv_readers s p = {})
    \<Longrightarrow> savingStep E s (s\<lparr>sv_conc := c\<rparr>)"
| saver: "saverStep E t s s' \<Longrightarrow> savingStep E s s'"

text \<open>At the start a replica serves its database, and every saver is about to save or to hash.\<close>

definition savingStart :: "('s, 'n) world \<Rightarrow> (nat \<Rightarrow> bytes) \<Rightarrow> (nat \<Rightarrow> Writer option) \<Rightarrow> ('s, 'n, 'i) saving" where
  "savingStart w queries writers = \<lparr>sv_conc = concStart w queries,
     sv_savers = (\<lambda>t. case writers t of None \<Rightarrow> HashCalled | Some wr \<Rightarrow> SaveTo wr), sv_readers = (\<lambda>_. {})\<rparr>"

lemma saver_simps [simp]:
  "sv_conc (saver t v s) = sv_conc s" "sv_savers (saver t v s) = (sv_savers s)(t := v)" "sv_readers (saver t v s) = sv_readers s"
  "sv_conc (savingWorld w s) = withWorld w (sv_conc s)" "sv_savers (savingWorld w s) = sv_savers s"
  "sv_readers (savingWorld w s) = sv_readers s"
  "sv_conc (savingReaders p f s) = sv_conc s" "sv_savers (savingReaders p f s) = sv_savers s"
  "sv_readers (savingReaders p f s) = (sv_readers s)(p := f (sv_readers s p))"
  "saver t v' (saver t v s) = saver t v' s" "savingWorld w (saver t v s) = saver t v (savingWorld w s)"
  "savingWorld w' (savingWorld w s) = savingWorld w' s"
  "savingReaders p f (saver t v s) = saver t v (savingReaders p f s)"
  "savingReaders p f (savingWorld w s) = savingWorld w (savingReaders p f s)"
  by (simp_all add: saver_def savingWorld_def savingReaders_def withWorld_def)

section \<open>What a step of a saver changes\<close>

fun sholding :: "('n, 'i) saver \<Rightarrow> nat option" where
  "sholding (SaveLocked h p ss wr) = Some p" | "sholding (SavePlacing h p db it wr) = Some p"
| "sholding (Counting h p db it n wr) = Some p" | "sholding (Writing h p db it wr) = Some p"
| "sholding (SaveAnswered h p x) = Some p" | "sholding _ = None"

lemma same_calls: "\<exists>n. w = w\<lparr>calls := n\<rparr>"
  by (rule exI [of _ "calls w"]) simp

lemma same_world: "tree w' = tree w \<Longrightarrow> memory w' = memory w \<Longrightarrow> \<exists>n. w' = w\<lparr>calls := n\<rparr>"
  by (rule exI [of _ "calls w'"]) (simp add: memory_def)

lemma saves_world:
  "\<exists>n. snd (PrepareSnapshot E w) = w\<lparr>calls := n\<rparr>" "\<exists>n. snd (derefDb p (\<lambda>r rdb. dbNewSnapshot E rdb) w) = w\<lparr>calls := n\<rparr>"
  "\<exists>n. snd (saveIterator E p ss w) = w\<lparr>calls := n\<rparr>" "\<exists>n. snd (placeStep E h it w) = w\<lparr>calls := n\<rparr>"
  "\<exists>n. snd (countStep E h it c wr w) = w\<lparr>calls := n\<rparr>" "\<exists>n. snd (writeStep E h it wr w) = w\<lparr>calls := n\<rparr>"
proof -
  have "sameWorld (tree w) (memory w) (snd (PrepareSnapshot E w))"
    by (rule keepsD [OF keeps_queries(2) [OF stable_sameWorld]]) (simp add: sameWorld_def)
  then show "\<exists>n. snd (PrepareSnapshot E w) = w\<lparr>calls := n\<rparr>" by (intro same_world) (simp_all add: sameWorld_def)
  show "\<exists>n. snd (derefDb p (\<lambda>r rdb. dbNewSnapshot E rdb) w) = w\<lparr>calls := n\<rparr>" using same_calls [of w]
    by (auto simp: derefDb_def deref_def dbNewSnapshot_def onDb_def ret_apply gopanic_apply split: option.splits)
  show "\<exists>n. snd (saveIterator E p ss w) = w\<lparr>calls := n\<rparr>" using same_calls [of w]
    by (auto simp: saveIterator_def derefDb_def deref_def dbNewIterator_def onDb_def andThen_apply ret_apply
        gopanic_apply Let_def split: option.splits)
  show "\<exists>n. snd (placeStep E h it w) = w\<lparr>calls := n\<rparr>" using same_calls [of w] by (auto simp: placeStep_def useIterator_def)
  show "\<exists>n. snd (countStep E h it c wr w) = w\<lparr>calls := n\<rparr>" using same_calls [of w]
    by (auto simp: countStep_def useIterator_def Let_def split: option.splits prod.splits)
  show "\<exists>n. snd (writeStep E h it wr w) = w\<lparr>calls := n\<rparr>" using same_calls [of w]
    by (auto simp: writeStep_def useIterator_def Let_def split: option.splits prod.splits)
qed

lemma saverStep_shape:
  assumes "saverStep E t s s'"
  obtains v n where "sv_conc s' = withWorld ((sv_world s)\<lparr>calls := n\<rparr>) (sv_conc s)" and "sv_savers s' = (sv_savers s)(t := v)"
    and "sv_readers s' = sv_readers s \<and> sholding v = sholding (sv_savers s t)
      \<or> (\<exists>p. sholding (sv_savers s t) = None \<and> sholding v = Some p \<and> \<not> rw_writer (c_locks (sv_conc s) p)
          \<and> sv_readers s' = (sv_readers s)(p := insert t (sv_readers s p)))
      \<or> (\<exists>p. sholding (sv_savers s t) = Some p \<and> sholding v = None
          \<and> sv_readers s' = (sv_readers s)(p := sv_readers s p - {t}))"
proof -
  note goal = that
  have quiet: thesis if s': "s' = saver t v (savingWorld w' s)" and w': "\<exists>n. w' = (sv_world s)\<lparr>calls := n\<rparr>"
      and h: "sholding v = sholding (sv_savers s t)" for v w'
  proof -
    obtain n where "w' = (sv_world s)\<lparr>calls := n\<rparr>" using w' by blast
    then show thesis using h by (intro goal [of n v]) (simp_all add: s')
  qed
  have own: "sv_conc s = withWorld ((sv_world s)\<lparr>calls := calls (sv_world s)\<rparr>) (sv_conc s)" by (simp add: withWorld_def)
  have stay: thesis if s': "s' = saver t v s" and h: "sholding v = sholding (sv_savers s t)" for v
    using h own by (intro goal [of "calls (sv_world s)" v]) (simp_all add: s')
  from assms show thesis
  proof cases
    case (prepare wr x w')
    have "\<exists>n. w' = (sv_world s)\<lparr>calls := n\<rparr>" using saves_world(1) [of E "sv_world s"] prepare(4) by simp
    then show thesis using prepare by (intro quiet [OF prepare(1)]) (simp_all split: outcome.splits)
  next
    case (check ctx wr)
    then show thesis by (intro stay [OF check(1)]) (simp add: saveCheck_def split: option.splits)
  next
    case load
    then show thesis by (intro stay [OF load(1)]) (simp split: option.splits)
  next
    case (snap p x w')
    have "\<exists>n. w' = (sv_world s)\<lparr>calls := n\<rparr>" using saves_world(2) [of p E "sv_world s"] snap(3) by simp
    then show thesis using snap by (intro quiet [OF snap(1)]) (simp_all split: outcome.splits)
  next
    case (rlock h p ss wr)
    then show thesis using own by (intro goal [of "calls (sv_world s)" "SaveLocked h p ss wr"]) simp_all
  next
    case (create h p ss wr x w')
    have "\<exists>n. w' = (sv_world s)\<lparr>calls := n\<rparr>" using saves_world(3) [of E p ss "sv_world s"] create(3) by simp
    then show thesis using create by (intro quiet [OF create(1)]) (simp_all split: outcome.splits)
  next
    case (place h p db it wr x w')
    have "\<exists>n. w' = (sv_world s)\<lparr>calls := n\<rparr>" using saves_world(4) [of E db it "sv_world s"] place(3) by simp
    then show thesis using place by (intro quiet [OF place(1)]) (simp_all split: outcome.splits)
  next
    case (count h p db it n wr x w')
    have "\<exists>n. w' = (sv_world s)\<lparr>calls := n\<rparr>" using saves_world(5) [of E db it n wr "sv_world s"] count(3) by simp
    then show thesis using count by (intro quiet [OF count(1)]) (simp_all split: outcome.splits counted.splits)
  next
    case (put h p db it wr x w')
    have "\<exists>n. w' = (sv_world s)\<lparr>calls := n\<rparr>" using saves_world(6) [of E db it wr "sv_world s"] put(3) by simp
    then show thesis using put by (intro quiet [OF put(1)]) (simp_all split: outcome.splits sum.splits)
  next
    case (unlock h p x)
    then show thesis using own
      by (intro goal [of "calls (sv_world s)" "if h then Hashed (hashResult x) else Saved x"]) simp_all
  qed
qed

section \<open>The invariant\<close>

text \<open>Steps of a saver leave what lookups and the writer rely on.\<close>

lemma conc_calls:
  "lockInv (withWorld w c) = lockInv c"
  "structInv contents cid nid (withWorld ((c_world c)\<lparr>calls := n\<rparr>) c) = structInv contents cid nid c"
  by (simp_all add: lockInv_def structInv_def known_def)

text \<open>A saver is among the readers of the mutex that it holds, and a writer has no reader beside it.\<close>

definition readersInv :: "('s, 'n, 'i) saving \<Rightarrow> bool" where
  "readersInv s \<longleftrightarrow> (\<forall>t p. sholding (sv_savers s t) = Some p \<longleftrightarrow> t \<in> sv_readers s p)
     \<and> (\<forall>p. writing (c_master (sv_conc s)) = Some p \<longrightarrow> sv_readers s p = {})"

lemma readersInv_saver:
  assumes inv: "readersInv s" and locks: "lockInv (sv_conc s)" and step: "saverStep E t s s'"
  shows "readersInv s'"
proof -
  have held: "sholding (sv_savers s u) = Some p \<longleftrightarrow> u \<in> sv_readers s p" for u p using inv by (simp add: readersInv_def)
  have wr: "writing (c_master (sv_conc s)) = Some p \<Longrightarrow> sv_readers s p = {}" for p using inv by (simp add: readersInv_def)
  from step show ?thesis
  proof (cases rule: saverStep_shape)
    case (1 v n)
    have m: "c_master (sv_conc s') = c_master (sv_conc s)" using 1(1) by simp
    from 1(3) show ?thesis
    proof (elim disjE exE conjE)
      assume "sv_readers s' = sv_readers s" "sholding v = sholding (sv_savers s t)"
      then show ?thesis using 1(2) m held wr by (simp add: readersInv_def)
    next
      fix p assume p: "sholding (sv_savers s t) = None" "sholding v = Some p" "\<not> rw_writer (c_locks (sv_conc s) p)"
        and r: "sv_readers s' = (sv_readers s)(p := insert t (sv_readers s p))"
      have "writing (c_master (sv_conc s)) \<noteq> Some p" using locks p(3) by (simp add: lockInv_def)
      moreover have "sholding (sv_savers s' u) = Some p' \<longleftrightarrow> u \<in> sv_readers s' p'" for u p'
        using held [of u p'] held [of t p'] p r 1(2) by (cases "u = t"; cases "p' = p") simp_all
      ultimately show ?thesis using m wr r by (simp add: readersInv_def)
    next
      fix p assume p: "sholding (sv_savers s t) = Some p" "sholding v = None"
        and r: "sv_readers s' = (sv_readers s)(p := sv_readers s p - {t})"
      have "sholding (sv_savers s' u) = Some p' \<longleftrightarrow> u \<in> sv_readers s' p'" for u p'
        using held [of u p'] held [of t p'] p r 1(2) by (cases "u = t"; cases "p' = p") auto
      then show ?thesis using m wr r by (simp add: readersInv_def)
    qed
  qed
qed

lemma masterStep_writing:
  assumes "masterStep E c c'" and "writing (c_master c') = Some p"
  shows "writing (c_master c) = Some p \<or> (\<exists>a. c_master c = Closer Waiting p a)"
  using assms by cases (auto split: outcome.splits option.splits prod.splits if_splits)

lemma readersInv_step:
  assumes inv: "readersInv s" and locks: "lockInv (sv_conc s)" and step: "savingStep E s s'"
  shows "readersInv s'"
  using step
proof cases
  case (lookup t c)
  then have "c_master c = c_master (sv_conc s)" by (auto elim: callStep_shape)
  then show ?thesis using inv lookup by (simp add: readersInv_def)
next
  case (master c)
  then show ?thesis using inv masterStep_writing [OF master(2)] by (auto simp: readersInv_def)
next
  case (saver t)
  from readersInv_saver [OF inv locks this] show ?thesis .
qed

subsection \<open>The structs\<close>

text \<open>
  What the writer does to a struct: it marks the one that it closes, then takes the database out
  of it, and touches no other.
\<close>

context rocks
begin

lemma masterStep_struct:
  assumes E: "rocksLib E = C" and inv: "structInv contents cid nid c" and step: "masterStep E c c'"
    and r: "rheap (c_world c) p = Some r"
  shows "\<exists>r'. rheap (c_world c') p = Some r'
    \<and> (\<forall>a. c_master c = Closer Flagging p a \<longrightarrow> c_master c' = Closer Shutting p a \<and> r' = r\<lparr>rdb_closed := True\<rparr>)
    \<and> (\<forall>a. c_master c = Closer Shutting p a \<longrightarrow> rdb_closed r' = rdb_closed r \<and> rdb_db r' = None)
    \<and> ((\<forall>a. c_master c \<noteq> Closer Flagging p a \<and> c_master c \<noteq> Closer Shutting p a) \<longrightarrow> r' = r)"
  using step
proof cases
  case (update ents x w')
  have "updateFrame (c_world c) w'"
    using keepsD [OF keeps_updateFrame [of "c_world c" E ents], of "c_world c"] update(3)
    by (simp add: updateFrame_def exI [of _ "lastApplied (commander (c_world c))"])
  then show ?thesis using r update by (simp add: updateFrame_def)
next
  case (install rd x w')
  obtain e where st: "settled contents cid nid e (c_world c)" using inv install(2) by (auto simp: structInv_def)
  have ids: "clusterID (commander (c_world c)) = cid" "nodeID (commander (c_world c)) = nid"
    using st by (simp_all add: settled_def Let_def procOk_simps)
  have "rheap w' p = rheap (c_world c) p"
    using installHead_effect [OF E st install(3) [unfolded ids] install(4)] settled_heap [OF st r] by blast
  then show ?thesis using r install by simp
next
  case (flag q a u w')
  obtain rq where rq: "rheap (c_world c) q = Some rq" using flag(3) by (auto simp: setClosed_def deref_def split: option.splits)
  note eff = setClosed_effect [OF rq flag(3), of cid nid]
  then show ?thesis using r rq flag(1,2) by (cases "q = p") auto
next
  case (shut q a u w')
  obtain rq where rq: "rheap (c_world c) q = Some rq" using shut(3) by (auto simp: shutDb_def deref_def split: option.splits)
  note eff = shutDb_effect [OF rq shut(3), of cid nid]
  then show ?thesis using r rq shut(1,2) by (cases "q = p") auto
next
  case (remove d x w')
  have "memory w' = memory (c_world c)" by (rule keeps_memory [OF keeps_more(5) remove(3)])
  then show ?thesis using r remove by (simp add: memory_def)
qed (use r in \<open>auto simp: swapDb_def setCommander_def\<close>)

lemma masterStep_known:
  assumes E: "rocksLib E = C" and inv: "structInv contents cid nid c" and step: "masterStep E c c'"
    and k: "known (c_world c) (c_master c) p"
  shows "known (c_world c') (c_master c') p"
proof -
  obtain r where r: "rheap (c_world c) p = Some r"
    and why: "rdb_closed r \<or> cmd_db (commander (c_world c)) = Some p \<or> (\<exists>st a. c_master c = Closer st p a)"
    using k unfolding known_def by blast
  obtain r' where r': "rheap (c_world c') p = Some r'" "rdb_closed r \<Longrightarrow> rdb_closed r'"
    using masterStep_struct [OF E inv step r] by (cases "c_master c") fastforce+
  have "rdb_closed r \<or> cmd_db (commander (c_world c')) = Some p \<or> (\<exists>st a. c_master c' = Closer st p a)"
    using step
  proof cases
    case (update ents x w')
    have "updateFrame (c_world c) w'"
      using keepsD [OF keeps_updateFrame [of "c_world c" E ents], of "c_world c"] update(3)
      by (simp add: updateFrame_def exI [of _ "lastApplied (commander (c_world c))"])
    then have "cmd_db (commander w') = cmd_db (commander (c_world c))" by (auto simp: updateFrame_def)
    then show ?thesis using why update by simp
  next
    case (install rd x w')
    obtain e where st: "settled contents cid nid e (c_world c)" using inv install(2) by (auto simp: structInv_def)
    have ids: "clusterID (commander (c_world c)) = cid" "nodeID (commander (c_world c)) = nid"
      using st by (simp_all add: settled_def Let_def procOk_simps)
    note eff = installHead_effect [OF E st install(3) [unfolded ids] install(4)]
    show ?thesis
    proof (cases "isOk x")
      case True
      then obtain old d where "x = Ok (old, d)" by (auto simp: isOk_def)
      then show ?thesis using eff why install(1,2) by (cases old) auto
    next
      case False
      then show ?thesis using eff why install(1,2) by auto
    qed
  next
    case (unlock q a)
    have "retired (c_world c) Unlocking q" using inv unlock(2) by (simp add: structInv_def masterInv_Closer)
    then show ?thesis using why r unlock by (auto simp: retired_def)
  next
    case (flag q a u w')
    then show ?thesis using why by (auto simp: setClosed_def deref_def split: option.splits)
  next
    case (shut q a u w')
    then show ?thesis using why
      by (auto simp: shutDb_def deref_def andThen_apply ret_apply dbClose_def split: option.splits)
  next
    case (remove d x w')
    have "memory w' = memory (c_world c)" by (rule keeps_memory [OF keeps_more(5) remove(3)])
    then show ?thesis using why remove by (simp add: memory_def)
  qed (use why in \<open>auto simp: swapDb_def setCommander_def split: option.splits\<close>)
  then show ?thesis using r' by (auto simp: known_def)
qed

end

text \<open>
  A struct that a saver refers to is known, and when it is closed its database is out of it, but for the
  moment in between. While a saver uses an iterator, its struct is open and has the database of the iterator.
\<close>

definition sknown :: "('s, 'n, 'i) conc \<Rightarrow> nat \<Rightarrow> bool" where
  "sknown c p \<longleftrightarrow> known (c_world c) (c_master c) p \<and> (\<forall>r. rheap (c_world c) p = Some r \<longrightarrow> rdb_closed r \<longrightarrow>
     (\<exists>a. c_master c = Closer Shutting p a) \<or> rdb_db r = None)"

definition inUse :: "('s, 'n, 'i) conc \<Rightarrow> nat \<Rightarrow> DB \<Rightarrow> bool" where
  "inUse c p db \<longleftrightarrow> (\<exists>r. rheap (c_world c) p = Some r \<and> \<not> rdb_closed r \<and> rdb_db r = Some db)"

fun saverOk :: "('s, 'n, 'i) conc \<Rightarrow> ('n, 'i) saver \<Rightarrow> bool" where
  "saverOk c (Prepared ctx wr) \<longleftrightarrow> (\<exists>p. ctx_db ctx = Some p \<and> sknown c p)"
| "saverOk c (HashLoaded p) \<longleftrightarrow> sknown c p"
| "saverOk c (Snapped h p ss wr) \<longleftrightarrow> sknown c p"
| "saverOk c (SaveLocked h p ss wr) \<longleftrightarrow> sknown c p"
| "saverOk c (SavePlacing h p db it wr) \<longleftrightarrow> sknown c p \<and> inUse c p db"
| "saverOk c (Counting h p db it n wr) \<longleftrightarrow> sknown c p \<and> inUse c p db"
| "saverOk c (Writing h p db it wr) \<longleftrightarrow> sknown c p \<and> inUse c p db"
| "saverOk c _ \<longleftrightarrow> True"

lemma saverOk_same:
  assumes "saverOk c v" and "rheap (c_world c') = rheap (c_world c)" and "commander (c_world c') = commander (c_world c)"
    and "c_master c' = c_master c"
  shows "saverOk c' v"
  using assms by (cases v) (simp_all add: sknown_def known_def inUse_def)

lemma sknown_current:
  assumes "structInv contents cid nid c" and "cmd_db (commander (c_world c)) = Some p"
  shows "sknown c p"
proof -
  have "liveAt (c_world c) p \<noteq> None" using assms by (simp add: structInv_def)
  then obtain r where "rheap (c_world c) p = Some r" "\<not> rdb_closed r" by (auto dest: liveAt_SomeD)
  then show ?thesis using assms(2) by (auto simp: sknown_def known_def)
qed

lemma saveIterator_Ok:
  "saveIterator E p ss w = (Ok (db, it), w') \<Longrightarrow> \<exists>r. rheap w p = Some r \<and> rdb_db r = Some db"
  by (auto simp: saveIterator_def derefDb_def deref_def dbNewIterator_def onDb_def andThen_apply ret_apply gopanic_apply Let_def
      split: option.splits)

context rocks
begin

lemma sknown_master:
  assumes E: "rocksLib E = C" and inv: "structInv contents cid nid c" and step: "masterStep E c c'" and k: "sknown c p"
  shows "sknown c' p"
proof -
  have "known (c_world c) (c_master c) p" using k by (simp add: sknown_def)
  then obtain r where r: "rheap (c_world c) p = Some r" by (auto simp: known_def)
  note s = masterStep_struct [OF E inv step r]
  have "(\<exists>a. c_master c' = Closer Shutting p a) \<or> rdb_db r' = None" if "rheap (c_world c') p = Some r'" "rdb_closed r'" for r'
  proof (cases "\<exists>a. c_master c = Closer Flagging p a \<or> c_master c = Closer Shutting p a")
    case True
    then show ?thesis using s that by auto
  next
    case False
    then have "r' = r" using s that(1) by auto
    then show ?thesis using k r that(2) False by (auto simp: sknown_def)
  qed
  then show ?thesis using masterStep_known [OF E inv step] k by (auto simp: sknown_def)
qed

lemma inUse_master:
  assumes E: "rocksLib E = C" and inv: "structInv contents cid nid c" and step: "masterStep E c c'" and u: "inUse c p db"
    and free: "writing (c_master c) \<noteq> Some p"
  shows "inUse c' p db"
proof -
  obtain r where r: "rheap (c_world c) p = Some r" "\<not> rdb_closed r" "rdb_db r = Some db" using u by (auto simp: inUse_def)
  have "c_master c \<noteq> Closer Flagging p a \<and> c_master c \<noteq> Closer Shutting p a" for a using free by auto
  then show ?thesis using masterStep_struct [OF E inv step r(1)] r by (auto simp: inUse_def)
qed

lemma saverOk_master:
  assumes E: "rocksLib E = C" and inv: "structInv contents cid nid c" and step: "masterStep E c c'" and ok: "saverOk c v"
    and free: "\<And>p. sholding v = Some p \<Longrightarrow> writing (c_master c) \<noteq> Some p"
  shows "saverOk c' v"
  using ok free sknown_master [OF E inv step] inUse_master [OF E inv step] by (cases v) auto

text \<open>What a saver finds at its own step.\<close>

lemma prepare_ready:
  assumes E: "rocksLib E = C" and inv: "structInv contents cid nid c" and m: "c_master c = Ready"
    and run: "PrepareSnapshot E (c_world c) = (x, w')"
  shows "\<exists>p n s. x = Ok \<lparr>ctx_db = Some p, ctx_snapshot = \<lparr>Snapshot_c = Some n\<rparr>\<rparr> \<and> cmd_db (commander (c_world c)) = Some p
    \<and> w' = c_world c \<and> liveState (c_world c) = Some s \<and> snapped n = contents s"
proof -
  obtain e where st: "settled contents cid nid e (c_world c)" using inv m by (auto simp: structInv_def)
  then have acc: "accepting (c_world c)" by (simp add: settled_def Let_def procOk_simps accepting_def)
  obtain r db s where l: "live (c_world c) = Some (r, db, getNodeDBDirName cid nid @ ''/'' @ e, s)"
    using st by (auto simp: settled_def Let_def liveDir_def)
  from PrepareSnapshot_live [OF E acc l] run l show ?thesis by (auto simp: liveState_def)
qed

lemma saverOk_saver:
  assumes E: "rocksLib E = C" and inv: "structInv contents cid nid (sv_conc s)" and readers: "readersInv s"
    and ok: "saverOk (sv_conc s) (sv_savers s t)" and step: "saverStep E t s s'"
  shows "saverOk (sv_conc s) (sv_savers s' t)"
  using step
proof cases
  case (prepare wr x w')
  from prepare_ready [OF E inv prepare(3,4)] sknown_current [OF inv] prepare(1) show ?thesis by auto
next
  case (check ctx wr)
  then show ?thesis using ok by (auto simp: saveCheck_def split: option.splits)
next
  case load
  then show ?thesis using sknown_current [OF inv] by (auto split: option.splits)
next
  case (snap p x w')
  then show ?thesis using ok by (auto split: outcome.splits)
next
  case (rlock h p ss wr)
  then show ?thesis using ok by simp
next
  case (create h p ss wr x w')
  have "sknown (sv_conc s) p" using ok create(2) by simp
  moreover have "writing (c_master (sv_conc s)) \<noteq> Some p"
  proof -
    have "sholding (sv_savers s t) = Some p" using create(2) by simp
    then have "t \<in> sv_readers s p" using readers unfolding readersInv_def by blast
    then show ?thesis using readers unfolding readersInv_def by blast
  qed
  then have "c_master (sv_conc s) \<noteq> Closer Shutting p a" for a by auto
  ultimately have "inUse (sv_conc s) p db" if "x = Ok (db, it)" for db it
    using saveIterator_Ok [of E p ss "sv_world s" db it w'] create(3) that by (auto simp: sknown_def inUse_def)
  then show ?thesis using create(1) \<open>sknown (sv_conc s) p\<close> by (auto split: outcome.splits)
next
  case (place h p db it wr x w')
  then show ?thesis using ok by (auto split: outcome.splits)
next
  case (count h p db it n wr x w')
  then show ?thesis using ok by (auto split: outcome.splits counted.splits)
next
  case (put h p db it wr x w')
  then show ?thesis using ok by (auto split: outcome.splits sum.splits)
next
  case (unlock h p x)
  then show ?thesis by simp
qed

definition savingInv :: "uint64 \<Rightarrow> uint64 \<Rightarrow> ('s, 'n, 'x) saving \<Rightarrow> bool" where
  "savingInv cid nid s \<longleftrightarrow> lockInv (sv_conc s) \<and> structInv contents cid nid (sv_conc s) \<and> readersInv s
     \<and> (\<forall>t. saverOk (sv_conc s) (sv_savers s t))"

lemma savingInv_step:
  assumes E: "rocksLib E = C" and inv: "savingInv cid nid s" and step: "savingStep E s s'"
  shows "savingInv cid nid s'"
proof -
  have locks: "lockInv (sv_conc s)" and struct: "structInv contents cid nid (sv_conc s)" and readers: "readersInv s"
    and ok: "\<And>t. saverOk (sv_conc s) (sv_savers s t)" using inv by (simp_all add: savingInv_def)
  note readers' = readersInv_step [OF readers locks step]
  from step show ?thesis
  proof cases
    case (lookup t c)
    obtain n where w: "c_world c = (sv_world s)\<lparr>calls := n\<rparr>" and m: "c_master c = c_master (sv_conc s)"
      using lookup(2) by (rule callStep_shape) blast
    have "saverOk c (sv_savers s u)" for u by (rule saverOk_same [OF ok]) (simp_all add: w m)
    then show ?thesis
      using lookup lockInv_call [OF locks lookup(2)] structInv_call [OF struct lookup(2)] readers' by (simp add: savingInv_def)
  next
    case (master c)
    have "writing (c_master (sv_conc s)) \<noteq> Some p" if h: "sholding (sv_savers s u) = Some p" for u p
    proof -
      have "u \<in> sv_readers s p" using readers h unfolding readersInv_def by blast
      then show ?thesis using readers unfolding readersInv_def by blast
    qed
    then have "saverOk c (sv_savers s u)" for u by (intro saverOk_master [OF E struct master(2) ok]) blast
    then show ?thesis
      using master lockInv_master [OF locks master(2)] structInv_master [OF E struct locks master(2)] readers'
      by (simp add: savingInv_def)
  next
    case (saver t)
    obtain v n where c: "sv_conc s' = withWorld ((sv_world s)\<lparr>calls := n\<rparr>) (sv_conc s)" and v: "sv_savers s' = (sv_savers s)(t := v)"
      using saver by (rule saverStep_shape) blast
    have "saverOk (sv_conc s) (sv_savers s' u)" for u
      using saverOk_saver [OF E struct readers ok saver] ok [of u] v by (cases "u = t") simp_all
    then have "saverOk (sv_conc s') (sv_savers s' u)" for u by (rule saverOk_same) (simp_all add: c)
    then show ?thesis using readers' locks struct by (simp add: savingInv_def c conc_calls)
  qed
qed

lemma savingInv_reach:
  assumes E: "rocksLib E = C" and st: "settled contents cid nid e w"
    and reach: "(savingStep E)\<^sup>*\<^sup>* (savingStart w queries writers) s"
  shows "savingInv cid nid s"
  using reach
proof (induction rule: rtranclp_induct)
  case base
  show ?case using conc_invariant [OF E st rtranclp.rtrancl_refl, of queries]
    by (auto simp: savingInv_def savingStart_def readersInv_def split: option.splits)
next
  case (step s1 s2)
  then show ?case using savingInv_step [OF E] by blast
qed

end

end
