(* ===== verification/Concurrent_Snapshots.thy ===== *)
theory Concurrent_Snapshots
  imports Concurrent_Saves
begin

text \<open>
  What the savers of \<^verbatim>\<open>Concurrent_Saves\<close> write and how they end: in every interleaving a snapshot that is
  saved without an error is the contents of the replica at one time, and a saver never uses a closed
  database. The steps of one saver alone are \<^verbatim>\<open>SaveSnapshot\<close> as it stands in \<^verbatim>\<open>Commander\<close>.
\<close>

section \<open>What is saved\<close>

lemma broken_not_Ok [simp]: "broken x \<noteq> Ok y"
  by (cases x) (simp_all add: broken_def)

context rocks_reliable
begin

text \<open>
  A save in terms of the states \<open>S\<close> of the database that it may be of: the snapshot and the iterator
  hold the pairs of one of them, the count and the pairs left make up all, and what is written are
  their number and the pairs before the iterator.
\<close>

fun dataOk where
  "dataOk S (SaveTo wr) \<longleftrightarrow> wr_data wr = []"
| "dataOk S (Prepared ctx wr) \<longleftrightarrow> wr_data wr = []
     \<and> (\<exists>n st. ctx_snapshot ctx = \<lparr>Snapshot_c = Some n\<rparr> \<and> snapped n = contents st \<and> S st)"
| "dataOk S (Snapped h p ss wr) \<longleftrightarrow> \<not> h \<and> wr_data wr = []
     \<and> (\<exists>n st. ss = \<lparr>Snapshot_c = Some n\<rparr> \<and> snapped n = contents st \<and> S st)"
| "dataOk S (SaveLocked h p ss wr) \<longleftrightarrow> \<not> h \<and> wr_data wr = []
     \<and> (\<exists>n st. ss = \<lparr>Snapshot_c = Some n\<rparr> \<and> snapped n = contents st \<and> S st)"
| "dataOk S (SavePlacing h p db it wr) \<longleftrightarrow> \<not> h \<and> wr_data wr = []
     \<and> (\<exists>i st. it = \<lparr>Iterator_c = Some i\<rparr> \<and> items i = pairs (contents st) \<and> S st)"
| "dataOk S (Counting h p db it c wr) \<longleftrightarrow> \<not> h \<and> wr_data wr = []
     \<and> (\<exists>i st. it = \<lparr>Iterator_c = Some i\<rparr> \<and> items i = pairs (contents st) \<and> S st
          \<and> c + word_of_nat (length (rest i)) = word_of_nat (length (items i)))"
| "dataOk S (Writing h p db it wr) \<longleftrightarrow> \<not> h
     \<and> (\<exists>i st before. it = \<lparr>Iterator_c = Some i\<rparr> \<and> items i = pairs (contents st) \<and> S st \<and> items i = before @ rest i
          \<and> wr_data wr = PutUint64 (word_of_nat (length (items i))) @ concat (map encodePair before))"
| "dataOk S (SaveAnswered h p x) \<longleftrightarrow> \<not> h
     \<and> (\<forall>wr'. x = Ok (wr', None) \<longrightarrow> (\<exists>st. S st \<and> wr_data wr' = encodeSnapshot (pairs (contents st))))"
| "dataOk S (Saved x) \<longleftrightarrow>
     (\<forall>wr'. x = Ok (wr', None) \<longrightarrow> (\<exists>st. S st \<and> wr_data wr' = encodeSnapshot (pairs (contents st))))"
| "dataOk S _ \<longleftrightarrow> False"

lemma dataOk_mono:
  assumes "dataOk S v" and mono: "\<And>st. S st \<Longrightarrow> S' st"
  shows "dataOk S' v"
  using assms(1) by (cases v) (fastforce dest: mono)+

lemma saveIterator_items:
  assumes E: "rocksLib E = C" and run: "saveIterator E p \<lparr>Snapshot_c = Some n\<rparr> w = (Ok (db, it), w')"
  shows "\<exists>i. it = \<lparr>Iterator_c = Some i\<rparr> \<and> items i = pairs (snapped n)"
proof -
  have "plainRead (ReadOptions_c (SetSnapshot NewDefaultReadOptions \<lparr>Snapshot_c = Some n\<rparr>)) (Some n)"
    by (simp add: plainRead_def NewDefaultReadOptions_def SetSnapshot_def onRead_def)
  note items = iterator_items_snapshot [OF this]
  show ?thesis using run
    by (auto simp: saveIterator_def derefDb_def deref_def dbNewIterator_def onDb_def andThen_apply ret_apply gopanic_apply
        Let_def E items split: option.splits)
qed

lemma countStep_data:
  assumes E: "rocksLib E = C" and run: "countStep E db \<lparr>Iterator_c = Some i\<rparr> c wr w = (Ok res, w')" and wr: "wr_data wr = []"
    and c: "c + word_of_nat (length (rest i)) = word_of_nat (length (items i))"
  shows "case res of CountFailed y \<Rightarrow> snd y \<noteq> None
    | CountNext it' c' \<Rightarrow> (\<exists>i'. it' = \<lparr>Iterator_c = Some i'\<rparr> \<and> items i' = items i
        \<and> c' + word_of_nat (length (rest i')) = word_of_nat (length (items i)))
    | CountDone it' wr' \<Rightarrow> (\<exists>i'. it' = \<lparr>Iterator_c = Some i'\<rparr> \<and> items i' = items i \<and> rest i' = items i
        \<and> wr_data wr' = PutUint64 (word_of_nat (length (items i))))"
proof (cases "rest i")
  case Nil
  then have "c = word_of_nat (length (items i))" using c by simp
  then show ?thesis
    using run wr Nil by (auto simp: countStep_def useIterator_def Let_def E writerWrite_def iterSeekToFirst_def onIter_def
        first_items first_all split: if_splits option.splits)
next
  case (Cons kv r)
  obtain k v where kv: "kv = (k, v)" by (cases kv)
  have "rest (c_iter_next C (calls w) i) = r" using next_tail [OF Cons [unfolded kv]] .
  then show ?thesis
    using run c Cons by (auto simp: countStep_def useIterator_def Let_def E iterNext_def onIter_def next_items add.assoc
        split: if_splits)
qed

lemma writeStep_data:
  assumes E: "rocksLib E = C" and run: "writeStep E db \<lparr>Iterator_c = Some i\<rparr> wr w = (Ok res, w')"
    and before: "items i = before @ rest i" "wr_data wr = header @ concat (map encodePair before)"
  shows "case res of Inl (wr', e) \<Rightarrow> e = None \<longrightarrow> wr_data wr' = header @ concat (map encodePair (items i))
    | Inr (it', wr') \<Rightarrow> (\<exists>i' before'. it' = \<lparr>Iterator_c = Some i'\<rparr> \<and> items i' = items i \<and> items i' = before' @ rest i'
        \<and> wr_data wr' = header @ concat (map encodePair before'))"
proof (cases "rest i")
  case Nil
  then show ?thesis using run before by (auto simp: writeStep_def useIterator_def Let_def E split: if_splits)
next
  case (Cons kv r)
  obtain k v where kv: "kv = (k, v)" by (cases kv)
  have tail: "rest (c_iter_next C (calls w) i) = r" using next_tail [OF Cons [unfolded kv]] .
  obtain sk sv where key: "iterKey C \<lparr>Iterator_c = Some i\<rparr> = Some sk" "sliceData sk = k"
      "iterValue C \<lparr>Iterator_c = Some i\<rparr> = Some sv" "sliceData sv = v"
    using iter_pair [OF Cons [unfolded kv]] by blast
  let ?d = "marshalAction (emptyAction\<lparr>Action_Key := k, Action_Val := v\<rparr>)"
  have res: "(\<exists>y e. res = Inl (y, Some e)) \<or> (\<exists>wr'. res = Inr (\<lparr>Iterator_c = Some (c_iter_next C (calls w) i)\<rparr>, wr')
      \<and> wr_data wr' = wr_data wr @ encodePair (k, v))"
    using run key Cons
    by (auto simp: writeStep_def useIterator_def Let_def E writerWrite_def iterNext_def onIter_def encodePair_def
        split: if_splits option.splits)
  then show ?thesis
  proof (elim disjE exE conjE)
    fix wr' assume "res = Inr (\<lparr>Iterator_c = Some (c_iter_next C (calls w) i)\<rparr>, wr')" "wr_data wr' = wr_data wr @ encodePair (k, v)"
    moreover have "items i = (before @ [(k, v)]) @ rest (c_iter_next C (calls w) i)" using before(1) tail Cons kv by simp
    moreover have "rest i \<noteq> []" using Cons by simp
    ultimately show ?thesis using before(2) by (auto simp: next_items intro!: exI [of _ "before @ [(k, v)]"])
  qed auto
qed

lemma dataOk_step:
  assumes E: "rocksLib E = C" and inv: "savingInv cid nid s" and step: "saverStep E t s s'"
    and ok: "dataOk S (sv_savers s t)"
    and mono: "\<And>st. S st \<Longrightarrow> S' st" and now: "\<And>st. liveState (sv_world s) = Some st \<Longrightarrow> S' st"
  shows "dataOk S' (sv_savers s' t)"
  using step
proof cases
  case (prepare wr x w')
  have "structInv contents cid nid (sv_conc s)" using inv by (simp add: savingInv_def)
  from prepare_ready [OF E this prepare(3,4)] now ok prepare(1,2) show ?thesis by auto
next
  case (check ctx wr)
  then show ?thesis using ok mono by (auto simp: saveCheck_def split: option.splits)
next
  case (rlock h p ss wr)
  then show ?thesis using ok mono by auto
next
  case (create h p ss wr x w')
  then obtain n st where ss: "ss = \<lparr>Snapshot_c = Some n\<rparr>" "snapped n = contents st" "S st" and h: "\<not> h" "wr_data wr = []"
    using ok by auto
  have "\<exists>i. it = \<lparr>Iterator_c = Some i\<rparr> \<and> items i = pairs (contents st)" if "x = Ok (db, it)" for db it
    using saveIterator_items [OF E, of p n "sv_world s" db it w'] create(3) that by (simp add: ss)
  then show ?thesis using create(1) h mono [OF ss(3)] by (fastforce split: outcome.splits)
next
  case (place h p db it wr x w')
  then obtain i st where it: "it = \<lparr>Iterator_c = Some i\<rparr>" "items i = pairs (contents st)" "S st" and h: "\<not> h" "wr_data wr = []"
    using ok by auto
  have "x = Ok it' \<Longrightarrow> it' = \<lparr>Iterator_c = Some (c_iter_seek_to_first C (calls (sv_world s)) i)\<rparr>" for it'
    using place(3) by (auto simp: placeStep_def useIterator_def E it(1) iterSeekToFirst_def onIter_def split: if_splits)
  then show ?thesis using place(1) h it mono [OF it(3)] by (auto simp: first_items first_all split: outcome.splits)
next
  case (count h p db it c wr x w')
  then obtain i st where it: "it = \<lparr>Iterator_c = Some i\<rparr>" "items i = pairs (contents st)" "S st" and h: "\<not> h" "wr_data wr = []"
    and c: "c + word_of_nat (length (rest i)) = word_of_nat (length (items i))" using ok by auto
  note data = countStep_data [OF E _ h(2) c, of db "sv_world s" _ w']
  show ?thesis
  proof (cases x)
    case (Ok res)
    note data = data [of res] 
    show ?thesis
      using data count(1,3) h it mono [OF it(3)] Ok
      by (cases res) (auto simp: it(1) intro!: exI [of _ "[]"] split: prod.splits)
  qed (use count(1) h in simp_all)
next
  case (put h p db it wr x w')
  then obtain i st before where it: "it = \<lparr>Iterator_c = Some i\<rparr>" "items i = pairs (contents st)" "S st" and h: "\<not> h"
    and before: "items i = before @ rest i"
      "wr_data wr = PutUint64 (word_of_nat (length (items i))) @ concat (map encodePair before)" using ok by auto
  note data = writeStep_data [OF E _ before, of db "sv_world s" _ w']
  show ?thesis
  proof (cases x)
    case (Ok res)
    note data = data [of res]
    show ?thesis
    proof (cases res)
      case (Inl y)
      then show ?thesis using data put(1,3) h it mono [OF it(3)] Ok by (auto simp: it(1) encodeSnapshot_def)
    next
      case (Inr y)
      obtain it' wr' where y: "y = (it', wr')" by (cases y)
      then obtain i' before' where "it' = \<lparr>Iterator_c = Some i'\<rparr>" "items i' = items i" "items i' = before' @ rest i'"
        "wr_data wr' = PutUint64 (word_of_nat (length (items i))) @ concat (map encodePair before')"
        using data [OF put(3) [unfolded Ok it(1)]] unfolding Inr y sum.case prod.case by (elim exE conjE) (rule that)
      then show ?thesis using put(1) h it(2) mono [OF it(3)] Ok Inr y by (auto intro!: exI [of _ st] exI [of _ before'])
    qed
  qed (use put(1) h in simp_all)
next
  case (unlock h p x)
  then show ?thesis using ok mono by (fastforce dest: mono)
qed (use ok in auto)

end

text \<open>The states of the current database since a state of the system.\<close>

definition servedSince :: "('s, 'b, 'i, 'n) env \<Rightarrow> ('s, 'n, 'i) saving \<Rightarrow> ('s, 'n, 'i) saving \<Rightarrow> 's \<Rightarrow> bool" where
  "servedSince E s0 s st \<longleftrightarrow> (\<exists>s1. (savingStep E)\<^sup>*\<^sup>* s0 s1 \<and> (savingStep E)\<^sup>*\<^sup>* s1 s \<and> liveState (sv_world s1) = Some st)"

lemma servedSince_step: "servedSince E s0 s st \<Longrightarrow> savingStep E s s' \<Longrightarrow> servedSince E s0 s' st"
  by (meson servedSince_def rtranclp.rtrancl_into_rtrancl)

lemma servedSince_now: "(savingStep E)\<^sup>*\<^sup>* s0 s \<Longrightarrow> savingStep E s s' \<Longrightarrow> liveState (sv_world s) = Some st \<Longrightarrow> servedSince E s0 s' st"
  by (meson servedSince_def r_into_rtranclp)

lemma savingStep_others:
  assumes "savingStep E s s'" and "\<not> saverStep E t s s'"
  shows "sv_savers s' t = sv_savers s t"
  using assms(1)
proof cases
  case (saver u)
  then have "u \<noteq> t" using assms(2) by auto
  with saver show ?thesis by (auto elim: saverStep_shape)
qed simp_all

context rocks_reliable
begin

lemma dataOk_reach:
  assumes E: "rocksLib E = C" and st: "settled contents cid nid e w"
    and reach: "(savingStep E)\<^sup>*\<^sup>* (savingStart w queries writers) s0" and t: "sv_savers s0 t = SaveTo wr" "wr_data wr = []"
    and more: "(savingStep E)\<^sup>*\<^sup>* s0 s"
  shows "dataOk (servedSince E s0 s) (sv_savers s t)"
  using more
proof (induction rule: rtranclp_induct)
  case base
  then show ?case using t by simp
next
  case (step s1 s2)
  have inv: "savingInv cid nid s1" by (rule savingInv_reach [OF E st rtranclp_trans [OF reach step.hyps(1)]])
  note mono = servedSince_step [OF _ step.hyps(2)]
  show ?case
  proof (cases "saverStep E t s1 s2")
    case True
    show ?thesis
      by (rule dataOk_step [OF E inv True step.IH mono]) (assumption, rule servedSince_now [OF step.hyps])
  next
    case False
    then have "sv_savers s2 t = sv_savers s1 t" by (rule savingStep_others [OF step.hyps(2)])
    then show ?thesis using dataOk_mono [OF step.IH mono] by simp
  qed
qed

end

section \<open>One saver alone\<close>

text \<open>The rounds of the two loops are the loops, and the steps of a save are \<^verbatim>\<open>SaveSnapshot\<close>.\<close>

lemma count_rounds:
  fixes E :: "('s, 'b, 'i, 'n) env" and s :: "('s, 'n, 'i) saving"
  assumes "countLoop (rocksLib E) it n c = Some (c', it', n')"
    and "sv_savers s t = Counting h p db it c wr" and "calls (sv_world s) = n" and "openDbs (sv_world s) (DB_c db) \<noteq> None"
  shows "(saverStep E t)\<^sup>*\<^sup>* s (saver t (Counting h p db it' c' wr) (savingWorld ((sv_world s)\<lparr>calls := n'\<rparr>) s))
    \<and> \<not> iterValid (rocksLib E) it'"
proof -
  have "C = rocksLib E \<longrightarrow> (\<forall>s :: ('s, 'n, 'i) saving. sv_savers s t = Counting h p db it c wr \<longrightarrow> calls (sv_world s) = n \<longrightarrow>
      openDbs (sv_world s) (DB_c db) \<noteq> None \<longrightarrow>
      (saverStep E t)\<^sup>*\<^sup>* s (saver t (Counting h p db (fst (snd y)) (fst y) wr)
        (savingWorld ((sv_world s)\<lparr>calls := snd (snd y)\<rparr>) s)) \<and> \<not> iterValid (rocksLib E) (fst (snd y)))"
    if "countLoop C it n c = Some y" for C it n c y
  proof (rule countLoop.raw_induct [OF _ that], goal_cases)
    case (1 f C it n c y)
    show ?case
    proof (intro impI allI)
      fix s :: "('s, 'n, 'i) saving"
      assume C: "C = rocksLib E" and s: "sv_savers s t = Counting h p db it c wr" "calls (sv_world s) = n"
        "openDbs (sv_world s) (DB_c db) \<noteq> None"
      have same: "savingWorld ((sv_world s)\<lparr>calls := n\<rparr>) s = s" "saver t (Counting h p db it c wr) s = s"
        using s(1,2) by (simp_all add: savingWorld_def withWorld_def saver_def fun_upd_idem)
      show "(saverStep E t)\<^sup>*\<^sup>* s (saver t (Counting h p db (fst (snd y)) (fst y) wr)
        (savingWorld ((sv_world s)\<lparr>calls := snd (snd y)\<rparr>) s)) \<and> \<not> iterValid (rocksLib E) (fst (snd y))"
      proof (cases "iterValid C it")
        case False
        then show ?thesis using 1(2) same C by auto
      next
        case True
        let ?it = "iterNext C n it" and ?w = "(sv_world s)\<lparr>calls := Suc n\<rparr>"
        let ?s = "saver t (Counting h p db ?it (c + 1) wr) (savingWorld ?w s)"
        have "countStep E db it c wr (sv_world s) = (Ok (CountNext ?it (c + 1)), ?w)"
          using True s(2) by (simp add: countStep_def iterator_open [OF s(3)] Let_def C)
        from saverStep.count [OF s(1) this] have one: "saverStep E t s ?s" by simp
        have f: "f C ?it (Suc n) (c + 1) = Some y" using 1(2) True by simp
        have two: "(saverStep E t)\<^sup>*\<^sup>* ?s (saver t (Counting h p db (fst (snd y)) (fst y) wr)
            (savingWorld ((sv_world s)\<lparr>calls := snd (snd y)\<rparr>) s)) \<and> \<not> iterValid (rocksLib E) (fst (snd y))"
          using 1(1) [OF f, rule_format, OF C, of ?s] s(3) by simp
        with one show ?thesis by (meson converse_rtranclp_into_rtranclp)
      qed
    qed
  qed
  from this [OF assms(1)] assms(2-) show ?thesis by simp
qed

lemma write_rounds:
  fixes E :: "('s, 'b, 'i, 'n) env" and s :: "('s, 'n, 'i) saving"
  assumes "writeLoop (rocksLib E) it n wr = Some (res, n')"
    and "sv_savers s t = Writing h p db it wr" and "calls (sv_world s) = n" and "openDbs (sv_world s) (DB_c db) \<noteq> None"
  shows "(saverStep E t)\<^sup>*\<^sup>* s (saver t (SaveAnswered h p (case res of Inl e \<Rightarrow> Panic e | Inr y \<Rightarrow> Ok y))
    (savingWorld ((sv_world s)\<lparr>calls := n'\<rparr>) s))"
proof -
  let ?stop = "\<lambda>y s. saver t (SaveAnswered h p (case fst y of Inl e \<Rightarrow> Panic e | Inr y \<Rightarrow> Ok y))
    (savingWorld ((sv_world s)\<lparr>calls := snd y\<rparr>) s)"
  have "C = rocksLib E \<longrightarrow> (\<forall>s :: ('s, 'n, 'i) saving. sv_savers s t = Writing h p db it wr \<longrightarrow> calls (sv_world s) = n \<longrightarrow>
      openDbs (sv_world s) (DB_c db) \<noteq> None \<longrightarrow> (saverStep E t)\<^sup>*\<^sup>* s (?stop y s))"
    if "writeLoop C it n wr = Some y" for C it n wr y
  proof (rule writeLoop.raw_induct [OF _ that], goal_cases)
    case (1 f C it n wr y)
    show ?case
    proof (intro impI allI)
      fix s :: "('s, 'n, 'i) saving"
      assume C: "C = rocksLib E" and s: "sv_savers s t = Writing h p db it wr" "calls (sv_world s) = n"
        "openDbs (sv_world s) (DB_c db) \<noteq> None"
      obtain x w1 where step: "writeStep E db it wr (sv_world s) = (x, w1)" by (metis surj_pair)
      from saverStep.put [OF s(1) step] have one: "saverStep E t s (saver t (case x of Ok (Inl res) \<Rightarrow> SaveAnswered h p (Ok res)
          | Ok (Inr (it', wr')) \<Rightarrow> Writing h p db it' wr' | _ \<Rightarrow> SaveAnswered h p (broken x)) (savingWorld w1 s))"
        (is "saverStep E t s ?s1") .
      have same: "(sv_world s)\<lparr>calls := n\<rparr> = sv_world s" using s(2) by simp
      show "(saverStep E t)\<^sup>*\<^sup>* s (?stop y s)"
      proof (cases "\<exists>it' wr'. x = Ok (Inr (it', wr'))")
        case False
        then have "?s1 = ?stop y s"
          using step 1(2) same by (auto simp: writeStep_def iterator_open [OF s(3)] Let_def C broken_def
              split: option.splits if_splits prod.splits)
        then show ?thesis using one by auto
      next
        case True
        then obtain it' wr' where x: "x = Ok (Inr (it', wr'))" by blast
        have f: "f C it' (Suc n) wr' = Some y" and w1: "w1 = (sv_world s)\<lparr>calls := Suc n\<rparr>"
          using step 1(2) x s(2) by (auto simp: writeStep_def iterator_open [OF s(3)] Let_def C
              split: option.splits if_splits prod.splits)
        have "(saverStep E t)\<^sup>*\<^sup>* ?s1 (?stop y s)" using 1(1) [OF f, rule_format, OF C, of ?s1] s(3) by (simp add: x w1)
        with one show ?thesis by (meson converse_rtranclp_into_rtranclp)
      qed
    qed
  qed
  from this [OF assms(1)] assms(2-) show ?thesis by simp
qed

lemma saveLoops_alone:
  fixes E :: "('s, 'b, 'i, 'n) env" and s :: "('s, 'n, 'i) saving"
  assumes s: "sv_savers s t = SavePlacing h p db it wr" and o: "openDbs (sv_world s) (DB_c db) \<noteq> None"
    and run: "runLoop (saveLoops (rocksLib E) it wr) (sv_world s) = (x, w')" and x: "x \<noteq> Diverge"
  shows "(saverStep E t)\<^sup>*\<^sup>* s (saver t (SaveAnswered h p x) (savingWorld w' s))"
proof -
  let ?C = "rocksLib E" and ?n = "calls (sv_world s)" and ?w = "\<lambda>n. (sv_world s)\<lparr>calls := n\<rparr>"
  obtain c it1 n1 where cnt: "countLoop ?C (iterSeekToFirst ?C ?n it) (Suc ?n) 0 = Some (c, it1, n1)"
    using run x by (auto simp: runLoop_def saveLoops_def split: option.splits)
  have "placeStep E db it (sv_world s) = (Ok (iterSeekToFirst ?C ?n it), ?w (Suc ?n))"
    by (simp add: placeStep_def iterator_open [OF o])
  from saverStep.place [OF s this]
  have 1: "saverStep E t s (saver t (Counting h p db (iterSeekToFirst ?C ?n it) 0 wr) (savingWorld (?w (Suc ?n)) s))"
    (is "saverStep E t s ?s1") by simp
  have 2: "(saverStep E t)\<^sup>*\<^sup>* ?s1 (saver t (Counting h p db it1 c wr) (savingWorld (?w n1) s))"
    (is "(saverStep E t)\<^sup>*\<^sup>* _ ?s2") and end1: "\<not> iterValid ?C it1"
    using count_rounds [OF cnt, of ?s1 t h p db wr] o by simp_all
  have o2: "openDbs (?w n1) (DB_c db) \<noteq> None" using o by simp
  obtain wr1 e where wr1: "writerWrite wr (PutUint64 c) = (wr1, e)" by (metis surj_pair)
  show ?thesis
  proof (cases e)
    case (Some er)
    then have x: "x = Ok (wr1, Some er)" "w' = ?w n1" using run cnt wr1 by (auto simp: runLoop_def saveLoops_def)
    have "countStep E db it1 c wr (?w n1) = (Ok (CountFailed (wr1, Some er)), ?w n1)"
      using wr1 Some end1 by (simp add: countStep_def iterator_open [OF o2] Let_def)
    from saverStep.count [of ?s2 t h p db it1 c wr E "Ok (CountFailed (wr1, Some er))" "?w n1"] this
    have "saverStep E t ?s2 (saver t (SaveAnswered h p x) (savingWorld w' s))" by (simp add: x)
    then show ?thesis using 1 2 by (meson converse_rtranclp_into_rtranclp rtranclp.rtrancl_into_rtrancl)
  next
    case None
    let ?it2 = "iterSeekToFirst ?C n1 it1"
    obtain res n2 where wl: "writeLoop ?C ?it2 (Suc n1) wr1 = Some (res, n2)"
      using run x cnt wr1 None by (auto simp: runLoop_def saveLoops_def split: option.splits)
    then have x: "x = (case res of Inl er \<Rightarrow> Panic er | Inr y \<Rightarrow> Ok y)" "w' = ?w n2"
      using run cnt wr1 None by (auto simp: runLoop_def saveLoops_def split: sum.splits)
    have "countStep E db it1 c wr (?w n1) = (Ok (CountDone ?it2 wr1), ?w (Suc n1))"
      using wr1 None end1 by (simp add: countStep_def iterator_open [OF o2] Let_def)
    from saverStep.count [of ?s2 t h p db it1 c wr E "Ok (CountDone ?it2 wr1)" "?w (Suc n1)"] this
    have 3: "saverStep E t ?s2 (saver t (Writing h p db ?it2 wr1) (savingWorld (?w (Suc n1)) s))"
      (is "saverStep E t _ ?s3") by simp
    have "(saverStep E t)\<^sup>*\<^sup>* ?s3 (saver t (SaveAnswered h p x) (savingWorld w' s))"
      using write_rounds [OF wl, of ?s3 t h p db] o by (simp add: x)
    then show ?thesis using 1 2 3 by (meson converse_rtranclp_into_rtranclp rtranclp_trans)
  qed
qed

lemma save_alone:
  fixes E :: "('s, 'b, 'i, 'n) env" and s :: "('s, 'n, 'i) saving"
  assumes s: "sv_savers s t = Prepared ctx wr"
    and lock: "\<And>p. ctx_db ctx = Some p \<Longrightarrow> \<not> rw_writer (c_locks (sv_conc s) p) \<and> \<not> rw_pending (c_locks (sv_conc s) p) \<and> t \<notin> sv_readers s p"
    and run: "SaveSnapshot E ctx wr (sv_world s) = (x, w')" and x: "x \<noteq> Diverge"
  shows "(saverStep E t)\<^sup>*\<^sup>* s (saver t (Saved x) (savingWorld w' s))"
proof -
  let ?d = "commander (sv_world s)"
  from saverStep.check [OF s] have 1: "saverStep E t s (saver t (saveCheck ctx wr ?d) s)" .
  have own: "savingWorld (sv_world s) s = s" by (simp add: savingWorld_def withWorld_def)
  show ?thesis
  proof (cases "cmd_closed ?d \<or> cmd_aborted ?d \<or> ctx_db ctx = None")
    case True
    then have "saver t (saveCheck ctx wr ?d) s = saver t (Saved x) s" "w' = sv_world s"
      using run by (auto simp: SaveSnapshot_def saveCheck_def getCommander_def andThen_apply gopanic_apply noPtr_def split: if_splits)
    then have "saver t (Saved x) (savingWorld w' s) = saver t (saveCheck ctx wr ?d) s" by (simp only: own)
    then show ?thesis using r_into_rtranclp [of "saverStep E t", OF 1] by (simp only:)
  next
    case False
    then obtain p where p: "ctx_db ctx = Some p" by auto
    let ?ss = "ctx_snapshot ctx" and ?L = "savingReaders p (insert t) s"
    have save: "saveToWriter E p ?ss wr (sv_world s) = (x, w')"
      using run False p by (simp add: SaveSnapshot_def getCommander_def andThen_apply noPtr_def)
    have check: "saver t (saveCheck ctx wr ?d) s = saver t (Snapped False p ?ss wr) s" using False p by (simp add: saveCheck_def)
    have 2: "saverStep E t (saver t (Snapped False p ?ss wr) s) (saver t (SaveLocked False p ?ss wr) ?L)"
      using saverStep.rlock [of "saver t (Snapped False p ?ss wr) s" t False p ?ss wr E] lock [OF p] by simp
    obtain y w1 where y: "saveIterator E p ?ss (sv_world s) = (y, w1)" by (metis surj_pair)
    have 3: "saverStep E t (saver t (SaveLocked False p ?ss wr) ?L) (saver t (case y of Ok (db, it) \<Rightarrow> SavePlacing False p db it wr
          | _ \<Rightarrow> SaveAnswered False p (broken y)) (savingWorld w1 ?L))"
      using saverStep.create [of "saver t (SaveLocked False p ?ss wr) ?L" t False p ?ss wr E y w1] y by simp
    have split: "saveToWriter E p ?ss wr = andThen (saveIterator E p ?ss) (\<lambda>(db, it). runLoop (saveLoops (rocksLib E) it wr))"
      by (rule ext) (simp add: saveToWriter_def saveIterator_def Let_def derefDb_def deref_def andThen_apply ret_apply gopanic_apply
          split: option.splits prod.splits outcome.splits)
    have 4: "(saverStep E t)\<^sup>*\<^sup>* (saver t (case y of Ok (db, it) \<Rightarrow> SavePlacing False p db it wr
          | _ \<Rightarrow> SaveAnswered False p (broken y)) (savingWorld w1 ?L)) (saver t (SaveAnswered False p x) (savingWorld w' ?L))"
    proof (cases "\<exists>db it. y = Ok (db, it)")
      case True
      then obtain db it where hit: "y = Ok (db, it)" by blast
      have o: "openDbs w1 (DB_c db) \<noteq> None"
        using y hit by (auto simp: saveIterator_def derefDb_def deref_def dbNewIterator_def onDb_def andThen_apply ret_apply
            gopanic_apply Let_def split: option.splits)
      have "runLoop (saveLoops (rocksLib E) it wr) w1 = (x, w')" using save y hit by (simp add: split andThen_apply)
      then show ?thesis
        using saveLoops_alone [of "saver t (SavePlacing False p db it wr) (savingWorld w1 ?L)" t False p db it wr E x w'] o x
        by (simp add: hit)
    next
      case False
      then have "x = broken y" "w' = w1" using save y by (auto simp: split andThen_apply broken_def split: outcome.splits)
      then show ?thesis using False by (auto split: outcome.splits)
    qed
    have unl: "savingReaders p (\<lambda>ts. ts - {t}) (savingWorld w' ?L) = savingWorld w' s"
      using lock [OF p] by (simp add: savingReaders_def savingWorld_def)
    have 5: "saverStep E t (saver t (SaveAnswered False p x) (savingWorld w' ?L)) (saver t (Saved x) (savingWorld w' s))"
      using saverStep.unlock [of "saver t (SaveAnswered False p x) (savingWorld w' ?L)" t False p x E] unl by simp
    from 1 2 3 4 5 show ?thesis unfolding check
      by (meson converse_rtranclp_into_rtranclp rtranclp.rtrancl_into_rtrancl)
  qed
qed

section \<open>What a save ends in\<close>

text \<open>The struct and the handle of a saver that uses its iterator.\<close>

fun usingDb :: "('n, 'i) saver \<Rightarrow> (nat \<times> DB) option" where
  "usingDb (SavePlacing h p db it wr) = Some (p, db)" | "usingDb (Counting h p db it n wr) = Some (p, db)"
| "usingDb (Writing h p db it wr) = Some (p, db)" | "usingDb _ = None"

lemma inUse_live:
  assumes inv: "structInv contents cid nid c" and k: "sknown c p" and u: "inUse c p db"
  shows "\<exists>r d st. liveAt (c_world c) p = Some (r, db, d, st)"
proof -
  obtain r where r: "rheap (c_world c) p = Some r" "\<not> rdb_closed r" "rdb_db r = Some db" using u by (auto simp: inUse_def)
  have "liveAt (c_world c) p \<noteq> None" using known_live [OF inv _ r(1,2)] k by (simp add: sknown_def)
  then obtain r' db' d st where at: "liveAt (c_world c) p = Some (r', db', d, st)" by auto
  then show ?thesis using liveAt_SomeD [OF at] r by auto
qed

lemma usingDb_inUse: "saverOk c v \<Longrightarrow> usingDb v = Some (p, db) \<Longrightarrow> sknown c p \<and> inUse c p db"
  by (cases v) auto

lemma inUse_open: "structInv contents cid nid c \<Longrightarrow> sknown c p \<Longrightarrow> inUse c p db \<Longrightarrow> openDbs (c_world c) (DB_c db) \<noteq> None"
  using inUse_live [of contents cid nid c p db] by (auto dest: liveAt_SomeD)

text \<open>
  A struct is closed, which a struct in service never is; the results that a save can have; and the
  iterator of a saver is there.
\<close>

definition someClosed :: "('s, 'n) world \<Rightarrow> bool" where
  "someClosed w \<longleftrightarrow> (\<exists>p r. rheap w p = Some r \<and> rdb_closed r)"

fun endOk :: "('s, 'n) world \<Rightarrow> ('n, 'i) saver \<Rightarrow> bool" where
  "endOk w (SavePlacing h p db it wr) \<longleftrightarrow> Iterator_c it \<noteq> None"
| "endOk w (Counting h p db it n wr) \<longleftrightarrow> Iterator_c it \<noteq> None"
| "endOk w (Writing h p db it wr) \<longleftrightarrow> Iterator_c it \<noteq> None"
| "endOk w (SaveAnswered h p x) \<longleftrightarrow> (\<exists>y. x = Ok y) \<or> x = Panic nilDeref \<and> someClosed w"
| "endOk w (Saved x) \<longleftrightarrow> (\<exists>y. x = Ok y) \<or> x = Panic nilDeref \<and> someClosed w
     \<or> x = Panic ''prepare snapshot called after Close()'' \<and> cmd_closed (commander w)"
| "endOk w _ \<longleftrightarrow> True"

lemma endOk_mono:
  assumes "endOk w v" and "someClosed w \<Longrightarrow> someClosed w'" and "cmd_closed (commander w) \<Longrightarrow> cmd_closed (commander w')"
  shows "endOk w' v"
  using assms by (cases v) auto

lemma endOk_calls [simp]: "endOk (w\<lparr>calls := n\<rparr>) v = endOk w v"
  by (cases v) (simp_all add: someClosed_def)

context rocks
begin

lemma someClosed_master:
  assumes E: "rocksLib E = C" and inv: "structInv contents cid nid c" and step: "masterStep E c c'"
    and k: "someClosed (c_world c)"
  shows "someClosed (c_world c')"
proof -
  obtain p r where r: "rheap (c_world c) p = Some r" "rdb_closed r" using k by (auto simp: someClosed_def)
  obtain r' where "rheap (c_world c') p = Some r'" "rdb_closed r'"
    using masterStep_struct [OF E inv step r(1)] r(2) by (cases "c_master c") fastforce+
  then show ?thesis by (auto simp: someClosed_def)
qed

lemma aborted_master:
  assumes E: "rocksLib E = C" and inv: "structInv contents cid nid c" and step: "masterStep E c c'"
    and k: "\<not> cmd_aborted (commander (c_world c))"
  shows "\<not> cmd_aborted (commander (c_world c'))"
  using step
proof cases
  case (update ents x w')
  have "updateFrame (c_world c) w'"
    using keepsD [OF keeps_updateFrame [of "c_world c" E ents], of "c_world c"] update(3)
    by (simp add: updateFrame_def exI [of _ "lastApplied (commander (c_world c))"])
  then show ?thesis using k update by (auto simp: updateFrame_def)
next
  case (install rd x w')
  obtain e where st: "settled contents cid nid e (c_world c)" using inv install(2) by (auto simp: structInv_def)
  have ids: "clusterID (commander (c_world c)) = cid" "nodeID (commander (c_world c)) = nid"
    using st by (simp_all add: settled_def Let_def procOk_simps)
  note eff = installHead_effect [OF E st install(3) [unfolded ids] install(4)]
  show ?thesis
  proof (cases "isOk x")
    case True
    then obtain old d where "x = Ok (old, d)" by (auto simp: isOk_def)
    then have "settled contents cid nid (newDbName E (calls (c_world c))) w'" using eff by blast
    then show ?thesis using install(1) by (simp add: settled_def Let_def procOk_simps)
  qed (use eff k install(1) in simp)
next
  case (flag p a u w')
  then show ?thesis using k by (auto simp: setClosed_def deref_def split: option.splits)
next
  case (shut p a u w')
  then show ?thesis using k
    by (auto simp: shutDb_def deref_def andThen_apply ret_apply dbClose_def split: option.splits)
next
  case (remove d x w')
  have "memory w' = memory (c_world c)" by (rule keeps_memory [OF keeps_more(5) remove(3)])
  then show ?thesis using k remove by (simp add: memory_def)
qed (use k in \<open>auto simp: swapDb_def setCommander_def split: option.splits\<close>)

text \<open>What the parts of \<^verbatim>\<open>saveToWriter\<close> end in, on an open database with an iterator that is there.\<close>

lemma saveIterator_end:
  assumes E: "rocksLib E = C" and inv: "structInv contents cid nid c" and k: "sknown c p"
    and free: "\<And>a. c_master c \<noteq> Closer Shutting p a"
    and run: "saveIterator E p ss (c_world c) = (x, w')"
  shows "(\<exists>db it. x = Ok (db, it) \<and> Iterator_c it \<noteq> None) \<or> x = Panic nilDeref \<and> someClosed (c_world c)"
proof -
  obtain r where r: "rheap (c_world c) p = Some r" using k by (auto simp: sknown_def known_def)
  show ?thesis
  proof (cases "rdb_closed r")
    case True
    then have "rdb_db r = None" using k r free by (auto simp: sknown_def)
    then have "x = Panic nilDeref"
      using run r by (simp add: saveIterator_def derefDb_def deref_def gopanic_apply andThen_apply Let_def)
    then show ?thesis using r True by (auto simp: someClosed_def)
  next
    case False
    have "known (c_world c) (c_master c) p" using k by (simp add: sknown_def)
    then obtain r' db d st where at: "liveAt (c_world c) p = Some (r', db, d, st)" using known_live [OF inv _ r False] by fastforce
    show ?thesis using run
      by (auto simp: saveIterator_def derefDb_live [OF at] dbNewIterator_def onDb_live [OF at] andThen_apply ret_apply
          Let_def split: prod.splits)
  qed
qed

end

context rocks
begin

lemma endOk_saver:
  assumes E: "rocksLib E = C" and inv: "savingInv cid nid s" and step: "saverStep E t s s'"
    and na: "\<not> cmd_aborted (commander (sv_world s))" and ok: "endOk (sv_world s) (sv_savers s t)"
  shows "endOk (sv_world s) (sv_savers s' t)"
proof -
  have struct: "structInv contents cid nid (sv_conc s)" and readers: "readersInv s" and so: "saverOk (sv_conc s) (sv_savers s t)"
    using inv by (simp_all add: savingInv_def)
  have opened: "openDbs (sv_world s) (DB_c db) \<noteq> None" if "usingDb (sv_savers s t) = Some (p, db)" for p db
    using inUse_open [OF struct] usingDb_inUse [OF so that] by blast
  show ?thesis
    using step
  proof cases
    case (prepare wr x w')
    from prepare_ready [OF E struct prepare(3,4)] prepare(1) show ?thesis by auto
  next
    case (check ctx wr)
    then show ?thesis using na so by (auto simp: saveCheck_def split: option.splits)
  next
    case (create h p ss wr x w')
    have "sholding (sv_savers s t) = Some p" using create(2) by simp
    then have "writing (c_master (sv_conc s)) \<noteq> Some p" using readers unfolding readersInv_def by blast
    then have "c_master (sv_conc s) \<noteq> Closer Shutting p a" for a by auto
    moreover have "sknown (sv_conc s) p" using so create(2) by simp
    ultimately show ?thesis
      using saveIterator_end [OF E struct _ _ create(3)] create(1) by (auto simp: broken_def)
  next
    case (place h p db it wr x w')
    then have "Iterator_c it \<noteq> None" using ok by simp
    then show ?thesis using place(1,3) opened [of p db] place(2)
      by (auto simp: placeStep_def useIterator_def iterSeekToFirst_def onIter_def)
  next
    case (count h p db it n wr x w')
    then have "Iterator_c it \<noteq> None" using ok by simp
    then show ?thesis using count(1,3) opened [of p db] count(2)
      by (auto simp: countStep_def useIterator_def iterSeekToFirst_def iterNext_def onIter_def Let_def
          split: option.splits prod.splits if_splits)
  next
    case (put h p db it wr x w')
    then obtain i where it: "it = \<lparr>Iterator_c = Some i\<rparr>" using ok by (cases it) auto
    show ?thesis
    proof (cases "rest i")
      case Nil
      then show ?thesis using put(1,3) opened [of p db] put(2) by (auto simp: writeStep_def useIterator_def Let_def it E)
    next
      case (Cons kv r)
      obtain k v where "kv = (k, v)" by (cases kv)
      with Cons obtain sk sv where "iterKey C \<lparr>Iterator_c = Some i\<rparr> = Some sk" "iterValue C \<lparr>Iterator_c = Some i\<rparr> = Some sv"
        using iter_pair [of i k v r] by blast
      then show ?thesis using put(1,3) opened [of p db] put(2) Cons
        by (auto simp: writeStep_def useIterator_def Let_def it E iterNext_def onIter_def split: prod.splits option.splits)
    qed
  qed (use ok in \<open>auto split: option.splits outcome.splits\<close>)
qed

lemma endOk_reach:
  assumes E: "rocksLib E = C" and st: "settled contents cid nid e w"
    and reach: "(savingStep E)\<^sup>*\<^sup>* (savingStart w queries writers) s"
  shows "\<not> cmd_aborted (commander (sv_world s)) \<and> (\<forall>t. endOk (sv_world s) (sv_savers s t))"
  using reach
proof (induction rule: rtranclp_induct)
  case base
  then show ?case using st by (simp add: savingStart_def concStart_def settled_def Let_def procOk_simps split: option.splits)
next
  case (step s1 s2)
  have inv: "savingInv cid nid s1" by (rule savingInv_reach [OF E st step.hyps(1)])
  then have struct: "structInv contents cid nid (sv_conc s1)" by (simp add: savingInv_def)
  have na: "\<not> cmd_aborted (commander (sv_world s1))" and ok: "\<And>t. endOk (sv_world s1) (sv_savers s1 t)" using step.IH by auto
  from step.hyps(2) show ?case
  proof cases
    case (lookup u c)
    obtain n where "c_world c = (sv_world s1)\<lparr>calls := n\<rparr>" using lookup(2) by (rule callStep_shape) blast
    then show ?thesis using na ok lookup(1) by simp
  next
    case (master c)
    show ?thesis
      using endOk_mono [OF ok someClosed_master [OF E struct master(2)] masterStep_closed [OF master(2)]]
        aborted_master [OF E struct master(2) na] master(1) by simp
  next
    case (saver u)
    obtain v n where c: "sv_conc s2 = withWorld ((sv_world s1)\<lparr>calls := n\<rparr>) (sv_conc s1)" and v: "sv_savers s2 = (sv_savers s1)(u := v)"
      using saver by (rule saverStep_shape) blast
    have "endOk (sv_world s1) (sv_savers s2 t)" for t
      using endOk_saver [OF E inv saver na ok] ok [of t] v by (cases "t = u") simp_all
    then show ?thesis using na by (simp add: c)
  qed
qed

end

section \<open>Properties\<close>

text \<open>
  C7. A snapshot is consistent. With a library whose iterators do not fail (the code never asks them for
  their error), and however the saving of a snapshot interleaves with updates,
  installations of snapshots, a close, lookups and other savers, what it has written when it
  returns without an error is the encoding of the contents that the replica had at one time
  between the begin and the end of the saving, and not a mix of the contents of several times.
\<close>

theorem save_linearizable:
  assumes "rocks_reliable (rocksLib E) contents ops items rest snapped" and "lifeInv contents cid nid (w, True) m"
    and "(savingStep E)\<^sup>*\<^sup>* (savingStart w queries writers) s0" and "sv_savers s0 t = SaveTo wr" and "wr_data wr = []"
    and "(savingStep E)\<^sup>*\<^sup>* s0 s2" and "sv_savers s2 t = Saved (Ok (wr', None))"
  shows "\<exists>s1 st. (savingStep E)\<^sup>*\<^sup>* s0 s1 \<and> (savingStep E)\<^sup>*\<^sup>* s1 s2 \<and> liveState (sv_world s1) = Some st
    \<and> wr_data wr' = encodeSnapshot (pairs (contents st))"
proof -
  obtain e where "settled contents cid nid e w" using lifeInv_settled [OF assms(2)] by blast
  from rocks_reliable.dataOk_reach [OF assms(1) refl this assms(3-6)] assms(7)
  have "rocks_reliable.dataOk contents items rest snapped (servedSince E s0 s2) (Saved (Ok (wr', None)))" by simp
  then show ?thesis by (auto simp: rocks_reliable.dataOk.simps [OF assms(1)] servedSince_def)
qed

text \<open>
  C10. A saver never touches a closed database: while it places, counts or writes with its iterator,
  the struct is open and its database is the one of the iterator, whatever the writer does
  beside it. A save returns, or it ends in the panic of the code in a closed replica, or in the
  dereference of the database that is gone from a struct that was closed since it was prepared.
\<close>

theorem saves_read_open_database:
  assumes "rocks (rocksLib E) contents ops items rest snapped" and "lifeInv contents cid nid (w, True) m"
    and "(savingStep E)\<^sup>*\<^sup>* (savingStart w queries writers) s"
  shows "(\<forall>t p db. usingDb (sv_savers s t) = Some (p, db) \<longrightarrow> (\<exists>r d st. liveAt (sv_world s) p = Some (r, db, d, st)))
    \<and> (\<forall>t x. sv_savers s t = Saved x \<longrightarrow> (\<exists>y. x = Ok y)
         \<or> x = Panic nilDeref \<and> (\<exists>p r. rheap (sv_world s) p = Some r \<and> rdb_closed r)
         \<or> x = Panic ''prepare snapshot called after Close()'' \<and> cmd_closed (commander (sv_world s)))"
proof -
  obtain e where st: "settled contents cid nid e w" using lifeInv_settled [OF assms(2)] by blast
  note inv = rocks.savingInv_reach [OF assms(1) refl st assms(3), unfolded rocks.savingInv_def [OF assms(1)]]
  have using_live: "\<exists>r d st. liveAt (sv_world s) p = Some (r, db, d, st)" if "usingDb (sv_savers s t) = Some (p, db)" for t p db
    using inUse_live [of contents cid nid "sv_conc s"] usingDb_inUse [OF _ that] inv by blast
  have "endOk (sv_world s) (sv_savers s t)" for t
    using rocks.endOk_reach [OF assms(1) refl st assms(3)] by blast
  then show ?thesis using using_live by (metis endOk.simps(5) someClosed_def)
qed

text \<open>The example: one saver alone, to its end, and the close of the replica after its preparation.\<close>

lemma example_prepared:
  "\<exists>p n. cmd_db (commander (exampleWorld [(''k'', ''v'')] 0)) = Some p \<and> map_of n = map_of [(''k'', ''v'')]
    \<and> saverStep (exampleEnv (\<lambda>_. NoFault)) t (savingStart (exampleWorld [(''k'', ''v'')] 0) queries (\<lambda>_. Some hashWriter))
        (saver t (Prepared \<lparr>ctx_db = Some p, ctx_snapshot = \<lparr>Snapshot_c = Some n\<rparr>\<rparr> hashWriter)
          (savingStart (exampleWorld [(''k'', ''v'')] 0) queries (\<lambda>_. Some hashWriter)))"
proof -
  let ?E = "exampleEnv (\<lambda>_. NoFault)" and ?w = "exampleWorld [(''k'', ''v'')] 0"
  let ?s = "savingStart ?w queries (\<lambda>_. Some hashWriter) :: (refDb, refDb, refIter) saving"
  have lib: "rocks (rocksLib ?E) map_of (\<lambda>b. b) fst snd map_of" by (simp add: refRocks_laws)
  obtain r db where live: "live ?w = Some (r, db, exampleDir @ ''/'' @ ''1_1'', [(''k'', ''v'')])" using live_exampleWorld by blast
  obtain p n where p: "cmd_db (commander ?w) = Some p" "map_of n = map_of [(''k'', ''v'')]"
    and run: "PrepareSnapshot ?E ?w = (Ok \<lparr>ctx_db = Some p, ctx_snapshot = \<lparr>Snapshot_c = Some n\<rparr>\<rparr>, ?w)"
    using rocks.PrepareSnapshot_live [OF lib refl accepting_exampleWorld(1) live] by blast
  have same: "savingWorld ?w ?s = ?s" by (simp add: savingWorld_def savingStart_def withWorld_def concStart_def)
  have "sv_savers ?s t = SaveTo hashWriter" "c_master (sv_conc ?s) = Ready" "sv_world ?s = ?w"
    by (simp_all add: savingStart_def concStart_def)
  then have "saverStep ?E t ?s (saver t (Prepared \<lparr>ctx_db = Some p, ctx_snapshot = \<lparr>Snapshot_c = Some n\<rparr>\<rparr> hashWriter) (savingWorld ?w ?s))"
    using saverStep.prepare [of ?s t hashWriter ?E "Ok \<lparr>ctx_db = Some p, ctx_snapshot = \<lparr>Snapshot_c = Some n\<rparr>\<rparr>" ?w] run
    by simp
  then show ?thesis using p unfolding same by blast
qed

lemma saverSteps_savingSteps: "(saverStep E t)\<^sup>*\<^sup>* s s' \<Longrightarrow> (savingStep E)\<^sup>*\<^sup>* s s'"
  by (induction rule: rtranclp_induct) (auto intro: rtranclp.rtrancl_into_rtrancl savingStep.saver)

theorem save_linearizable_witness:
  "let E = exampleEnv (\<lambda>_. NoFault); s0 = savingStart (exampleWorld [(''k'', ''v'')] 0) (\<lambda>_. '''') (\<lambda>_. Some hashWriter)
   in \<exists>s2 wr' s1 st. (savingStep E)\<^sup>*\<^sup>* s0 s1 \<and> (savingStep E)\<^sup>*\<^sup>* s1 s2 \<and> sv_savers s2 0 = Saved (Ok (wr', None))
     \<and> liveState (sv_world s1) = Some st \<and> wr_data wr' = encodeSnapshot (pairs (map_of st))"
proof -
  let ?E = "exampleEnv (\<lambda>_. NoFault)" and ?w = "exampleWorld [(''k'', ''v'')] 0"
  let ?s0 = "savingStart ?w (\<lambda>_. '''') (\<lambda>_. Some hashWriter) :: (refDb, refDb, refIter) saving"
  have lib: "rocks_reliable (rocksLib ?E) map_of (\<lambda>b. b) fst snd map_of" by (simp add: refLib.rocks_reliable_axioms)
  note lib' = rocks_reliable.axioms(1) [OF lib]
  have rel: "reliableWriter hashWriter" "wr_data hashWriter = []" by (simp_all add: reliableWriter_def hashWriter_def)
  obtain p n where p: "cmd_db (commander ?w) = Some p" and step: "saverStep ?E 0 ?s0
      (saver 0 (Prepared \<lparr>ctx_db = Some p, ctx_snapshot = \<lparr>Snapshot_c = Some n\<rparr>\<rparr> hashWriter) ?s0)" (is "saverStep _ _ _ ?s1")
    using example_prepared [of 0 "\<lambda>_. ''''"] by blast
  obtain r db where at: "liveAt ?w p = Some (r, db, exampleDir @ ''/'' @ ''1_1'', [(''k'', ''v'')])"
    using live_exampleWorld [of "[(''k'', ''v'')]" 0] p by (auto simp: live_def)
  obtain wr' k where save: "SaveSnapshot ?E \<lparr>ctx_db = Some p, ctx_snapshot = \<lparr>Snapshot_c = Some n\<rparr>\<rparr> hashWriter ?w
      = (Ok (wr', None), ?w\<lparr>calls := k\<rparr>)"
    using rocks_reliable.saveToWriter_exact [OF lib refl at rel(1), of n]
    by (auto simp: rocks.SaveSnapshot_live [OF lib' accepting_exampleWorld(1)])
  have w: "sv_world ?s1 = ?w" and l: "\<And>q. \<not> rw_writer (c_locks (sv_conc ?s1) q) \<and> \<not> rw_pending (c_locks (sv_conc ?s1) q) \<and> 0 \<notin> sv_readers ?s1 q"
    by (simp_all add: savingStart_def concStart_def)
  have "(saverStep ?E 0)\<^sup>*\<^sup>* ?s1 (saver 0 (Saved (Ok (wr', None))) (savingWorld (?w\<lparr>calls := k\<rparr>) ?s1))" (is "_\<^sup>*\<^sup>* _ ?s2")
    by (rule save_alone [of ?s1 0 "\<lparr>ctx_db = Some p, ctx_snapshot = \<lparr>Snapshot_c = Some n\<rparr>\<rparr>" hashWriter]) (use save l w in simp_all)
  then have run: "(savingStep ?E)\<^sup>*\<^sup>* ?s0 ?s2"
    using saverSteps_savingSteps converse_rtranclp_into_rtranclp [of "saverStep ?E 0" ?s0 ?s1, OF step] by blast
  have "sv_savers ?s0 0 = SaveTo hashWriter" "sv_savers ?s2 0 = Saved (Ok (wr', None))" by (simp_all add: savingStart_def)
  from save_linearizable [OF lib example_life rtranclp.rtrancl_refl this(1) rel(2) run this(2)] this(2)
  show ?thesis unfolding Let_def by blast
qed

theorem saves_read_open_database_witness:
  "let E = exampleEnv (\<lambda>_. NoFault); s0 = savingStart (exampleWorld [(''k'', ''v'')] 0) (\<lambda>_. '''') (\<lambda>_. Some hashWriter)
   in \<exists>s. (savingStep E)\<^sup>*\<^sup>* s0 s \<and> sv_savers s 0 = Saved (Panic ''prepare snapshot called after Close()'')
     \<and> cmd_closed (commander (sv_world s))"
proof -
  let ?E = "exampleEnv (\<lambda>_. NoFault)" and ?w = "exampleWorld [(''k'', ''v'')] 0"
  let ?s0 = "savingStart ?w (\<lambda>_. '''') (\<lambda>_. Some hashWriter) :: (refDb, refDb, refIter) saving"
  have lib: "rocks (rocksLib ?E) map_of (\<lambda>b. b) fst snd map_of" by (simp add: refRocks_laws)
  obtain p n where p: "cmd_db (commander ?w) = Some p" and 1: "saverStep ?E 0 ?s0
      (saver 0 (Prepared \<lparr>ctx_db = Some p, ctx_snapshot = \<lparr>Snapshot_c = Some n\<rparr>\<rparr> hashWriter) ?s0)" (is "saverStep _ _ _ ?s1")
    using example_prepared [of 0 "\<lambda>_. ''''"] by blast
  define w1 where "w1 = ?w\<lparr>commander := (commander ?w)\<lparr>cmd_db := None\<rparr>\<rparr>"
  define c2 where "c2 = become (Closer Marking p None) (withWorld w1 (sv_conc ?s1))"
  have 2: "savingStep ?E ?s1 (?s1\<lparr>sv_conc := c2\<rparr>)"
    using masterStep.close [of "sv_conc ?s1" "Some p" w1 ?E] p
    by (intro savingStep.master) (simp_all add: c2_def w1_def swapDb_def savingStart_def concStart_def)
  define w2 where "w2 = w1\<lparr>commander := (commander w1)\<lparr>cmd_closed := True\<rparr>\<rparr>"
  define c3 where "c3 = become (Closer Locking p None) (withWorld w2 c2)"
  have 3: "savingStep ?E (?s1\<lparr>sv_conc := c2\<rparr>) (?s1\<lparr>sv_conc := c3\<rparr>)"
    using savingStep.master [of ?E "?s1\<lparr>sv_conc := c2\<rparr>" c3] masterStep.mark [of c2 p None "()" w2 ?E]
    by (simp add: c2_def c3_def w2_def setCommander_def)
  let ?s3 = "?s1\<lparr>sv_conc := c3\<rparr>"
  let ?s4 = "saver 0 (Saved (Panic ''prepare snapshot called after Close()'')) ?s3"
  have "saverStep ?E 0 ?s3 ?s4"
    using saverStep.check [of ?s3 0 "\<lparr>ctx_db = Some p, ctx_snapshot = \<lparr>Snapshot_c = Some n\<rparr>\<rparr>" hashWriter ?E]
    by (simp add: c3_def w2_def saveCheck_def)
  with 1 2 3 have run: "(savingStep ?E)\<^sup>*\<^sup>* ?s0 ?s4"
    by (meson r_into_rtranclp rtranclp.rtrancl_into_rtrancl savingStep.saver)
  have saved: "sv_savers ?s4 0 = Saved (Panic ''prepare snapshot called after Close()'')" by simp
  have "cmd_closed (commander (sv_world ?s4))"
    using saves_read_open_database [OF lib example_life run, THEN conjunct2, rule_format, OF saved] by (simp add: nilDeref_def)
  then show ?thesis using run saved unfolding Let_def by blast
qed

end
