(* ===== verification/Concurrent_Progress.thy ===== *)
theory Concurrent_Progress
  imports Concurrent_Snapshots
begin

text \<open>
  No goroutine waits for ever: from every reachable state of the lookups, the savers and the
  writer, each operation that has begun can be brought to its end by the steps of such
  operations alone. A lock that is not given back, or two goroutines that wait for each other, would
  leave a close or a lookup without an end.
\<close>

section \<open>Operations under way\<close>

fun begunCall :: "'i call \<Rightarrow> bool" where
  "begunCall (Called q) \<longleftrightarrow> False" | "begunCall _ \<longleftrightarrow> True"

fun begunSave :: "('n, 'i) saver \<Rightarrow> bool" where
  "begunSave (SaveTo wr) \<longleftrightarrow> False" | "begunSave HashCalled \<longleftrightarrow> False" | "begunSave _ \<longleftrightarrow> True"

definition returned :: "'i call \<Rightarrow> bool" where
  "returned c \<longleftrightarrow> (\<exists>q x. c = Returned q x)"

definition finished :: "('n, 'i) saver \<Rightarrow> bool" where
  "finished v \<longleftrightarrow> (\<exists>x. v = Saved x) \<or> (\<exists>x. v = Hashed x)"

text \<open>A step of a lookup or of a saver that has begun, or of the writer in a close.\<close>

definition callGo :: "('s, 'b, 'i, 'n) env \<Rightarrow> nat \<Rightarrow> ('s, 'n, 'i) conc \<Rightarrow> ('s, 'n, 'i) conc \<Rightarrow> bool" where
  "callGo E t c c' \<longleftrightarrow> begunCall (c_calls c t) \<and> callStep E t c c'"

definition saverGo :: "('s, 'b, 'i, 'n) env \<Rightarrow> nat \<Rightarrow> ('s, 'n, 'i) saving \<Rightarrow> ('s, 'n, 'i) saving \<Rightarrow> bool" where
  "saverGo E t s s' \<longleftrightarrow> begunSave (sv_savers s t) \<and> saverStep E t s s'"

inductive flightStep :: "('s, 'b, 'i, 'n) env \<Rightarrow> ('s, 'n, 'i) saving \<Rightarrow> ('s, 'n, 'i) saving \<Rightarrow> bool" for E where
  lookup: "callGo E t (sv_conc s) c \<Longrightarrow> flightStep E s (s\<lparr>sv_conc := c\<rparr>)"
| saver: "saverGo E t s s' \<Longrightarrow> flightStep E s s'"
| closer: "c_master (sv_conc s) = Closer st p a \<Longrightarrow> masterStep E (sv_conc s) c
    \<Longrightarrow> (st = Waiting \<Longrightarrow> sv_readers s p = {}) \<Longrightarrow> flightStep E s (s\<lparr>sv_conc := c\<rparr>)"

lemma flight_saving: "flightStep E s s' \<Longrightarrow> savingStep E s s'"
  by (induction rule: flightStep.induct) (auto simp: callGo_def saverGo_def intro: savingStep.intros)

lemma flights_savings: "(flightStep E)\<^sup>*\<^sup>* s s' \<Longrightarrow> (savingStep E)\<^sup>*\<^sup>* s s'"
  by (rule rtranclp_mono [THEN predicate2D]) (auto intro: flight_saving)

lemma calls_flights: "(callGo E t)\<^sup>*\<^sup>* (sv_conc s) c \<Longrightarrow> (flightStep E)\<^sup>*\<^sup>* s (s\<lparr>sv_conc := c\<rparr>)"
proof (induction rule: rtranclp_induct)
  case (step c1 c2)
  then show ?case using flightStep.lookup [of E t "s\<lparr>sv_conc := c1\<rparr>" c2] by (simp add: rtranclp.rtrancl_into_rtrancl)
qed simp

lemma savers_flights: "(saverGo E t)\<^sup>*\<^sup>* s s' \<Longrightarrow> (flightStep E)\<^sup>*\<^sup>* s s'"
  by (rule rtranclp_mono [THEN predicate2D]) (auto intro: flightStep.saver)

text \<open>What has begun stays begun.\<close>

lemma callStep_begun: "callStep E t c c' \<Longrightarrow> begunCall (c_calls c' t)"
  by (erule callStep.cases) (auto split: outcome.splits sum.splits prod.splits)

lemma saverStep_begun: "saverStep E t s s' \<Longrightarrow> begunSave (sv_savers s' t)"
  by (erule saverStep.cases)
    (auto simp: saveCheck_def split: outcome.splits sum.splits prod.splits option.splits counted.splits)

lemma masterStep_calls: "masterStep E c c' \<Longrightarrow> c_calls c' = c_calls c"
  by (erule masterStep.cases) simp_all

lemma flight_begun:
  assumes "flightStep E s s'"
  shows "begunCall (c_calls (sv_conc s) t) \<Longrightarrow> begunCall (c_calls (sv_conc s') t)"
    and "begunSave (sv_savers s t) \<Longrightarrow> begunSave (sv_savers s' t)"
proof -
  have "(begunCall (c_calls (sv_conc s) t) \<longrightarrow> begunCall (c_calls (sv_conc s') t))
      \<and> (begunSave (sv_savers s t) \<longrightarrow> begunSave (sv_savers s' t))"
    using assms
  proof cases
    case (lookup u c)
    then have step: "callStep E u (sv_conc s) c" by (simp add: callGo_def)
    then obtain d where "c_calls c = (c_calls (sv_conc s))(u := d)" by (rule callStep_shape) blast
    then show ?thesis using lookup(1) callStep_begun [OF step] by (cases "u = t") auto
  next
    case (saver u)
    then have step: "saverStep E u s s'" by (simp add: saverGo_def)
    then obtain v n where "sv_conc s' = withWorld ((sv_world s)\<lparr>calls := n\<rparr>) (sv_conc s)" "sv_savers s' = (sv_savers s)(u := v)"
      by (rule saverStep_shape) blast
    then show ?thesis using saverStep_begun [OF step] by (cases "u = t") auto
  next
    case (closer st p a c)
    then show ?thesis using masterStep_calls [OF closer(3)] by simp
  qed
  then show "begunCall (c_calls (sv_conc s) t) \<Longrightarrow> begunCall (c_calls (sv_conc s') t)"
    and "begunSave (sv_savers s t) \<Longrightarrow> begunSave (sv_savers s' t)" by simp_all
qed

lemma flights_begun:
  assumes "(flightStep E)\<^sup>*\<^sup>* s s'"
  shows "begunCall (c_calls (sv_conc s) t) \<Longrightarrow> begunCall (c_calls (sv_conc s') t)"
    and "begunSave (sv_savers s t) \<Longrightarrow> begunSave (sv_savers s' t)"
  using assms by (induction rule: rtranclp_induct) (auto dest: flight_begun)

text \<open>To get to a state by steps of a relation.\<close>

definition gets :: "('a \<Rightarrow> 'a \<Rightarrow> bool) \<Rightarrow> ('a \<Rightarrow> bool) \<Rightarrow> 'a \<Rightarrow> bool" where
  "gets R P c \<longleftrightarrow> (\<exists>c'. R\<^sup>*\<^sup>* c c' \<and> P c')"

lemma gets_now: "P c \<Longrightarrow> gets R P c"
  by (auto simp: gets_def)

lemma gets_step: "R c c' \<Longrightarrow> gets R P c' \<Longrightarrow> gets R P c"
  by (auto simp: gets_def intro: converse_rtranclp_into_rtranclp)

lemma gets_steps: "R\<^sup>*\<^sup>* c c' \<Longrightarrow> gets R P c' \<Longrightarrow> gets R P c"
  by (auto simp: gets_def intro: rtranclp_trans)

section \<open>A lookup to its end\<close>

lemma call_gets: "begunCall (c_calls c t) \<Longrightarrow> callStep E t c c' \<Longrightarrow> gets (callGo E t) P c' \<Longrightarrow> gets (callGo E t) P c"
  by (rule gets_step) (simp_all add: callGo_def)

text \<open>A lookup that holds a mutex gives it back.\<close>

lemma answered_leaves:
  assumes c: "c_calls c t = Answered q p x"
  shows "gets (callGo E t) (\<lambda>c. \<exists>q x. c_calls c t = Unlocked q x) c"
  by (rule call_gets [OF _ callStep.runlock [OF c] gets_now]) (simp_all add: c)

lemma reading_leaves:
  assumes c: "c_calls c t = Reading q p"
  shows "gets (callGo E t) (\<lambda>c. \<exists>q x. c_calls c t = Unlocked q x) c"
  by (rule call_gets [OF _ callStep.read [OF c surjective_pairing]]) (simp_all add: c answered_leaves)

lemma locked_leaves:
  assumes c: "c_calls c t = Locked q p" and r: "rheap (c_world c) p \<noteq> None"
  shows "gets (callGo E t) (\<lambda>c. \<exists>q x. c_calls c t = Unlocked q x) c"
proof -
  obtain r where "rheap (c_world c) p = Some r" using r by blast
  from callStep.check [OF c this] show ?thesis
    by (rule call_gets [rotated]) (auto simp: c intro: answered_leaves reading_leaves)
qed

lemma holder_leaves:
  assumes "holding (c_calls c t) = Some p" and "rheap (c_world c) p \<noteq> None"
  shows "gets (callGo E t) (\<lambda>c. \<exists>q x. c_calls c t = Unlocked q x) c"
  using assms answered_leaves reading_leaves locked_leaves by (cases "c_calls c t") fastforce+

text \<open>A lookup that wants no mutex, or one that it can have, returns.\<close>

lemma unlocked_returns:
  assumes c: "c_calls c t = Unlocked q x"
  shows "gets (callGo E t) (\<lambda>c. returned (c_calls c t)) c"
  by (rule call_gets [OF _ callStep.finish [OF c] gets_now]) (simp_all add: c returned_def)

lemma leaves_returns:
  assumes "gets (callGo E t) (\<lambda>c. \<exists>q x. c_calls c t = Unlocked q x) c"
  shows "gets (callGo E t) (\<lambda>c. returned (c_calls c t)) c"
proof -
  obtain c' q x where "(callGo E t)\<^sup>*\<^sup>* c c'" "c_calls c' t = Unlocked q x" using assms by (auto simp: gets_def)
  then show ?thesis using unlocked_returns by (blast intro: gets_steps)
qed

lemma loaded_returns:
  assumes c: "c_calls c t = Loaded q p" and "\<not> rw_writer (c_locks c p)" "\<not> rw_pending (c_locks c p)"
    and r: "rheap (c_world c) p \<noteq> None"
  shows "gets (callGo E t) (\<lambda>c. returned (c_calls c t)) c"
  by (rule call_gets [OF _ callStep.rlock [OF c assms(2,3)]])
    (simp_all add: c r leaves_returns locked_leaves)

context rocks
begin

lemma scanStep_next:
  assumes "scanStep E h it pre acc w = (Ok (Inr (it', acc')), w')"
  shows "\<exists>i. it = \<lparr>Iterator_c = Some i\<rparr> \<and> c_iter_valid (rocksLib E) i \<and> it' = \<lparr>Iterator_c = Some (c_iter_next (rocksLib E) (calls w) i)\<rparr>"
proof (cases it)
  case (fields c)
  then show ?thesis
    using assms by (cases c) (auto simp: scanStep_def useIterator_def Let_def iterValid_def iterNext_def onIter_def
        split: if_splits option.splits)
qed

lemma scanning_returns:
  assumes E: "rocksLib E = C" and "c_calls c t = Scanning q h it acc"
  shows "gets (callGo E t) (\<lambda>c. returned (c_calls c t)) c"
  using assms(2)
proof (induction "case Iterator_c it of None \<Rightarrow> 0 | Some i \<Rightarrow> length (rest i)" arbitrary: c it acc rule: less_induct)
  case less
  obtain x w' where run: "scanStep E h it (Action_Key (queryAction q)) acc (c_world c) = (x, w')" by (metis surj_pair)
  note step = callStep.scan [OF less.prems run]
  show ?case
  proof (cases "\<exists>it' acc'. x = Ok (Inr (it', acc'))")
    case True
    then obtain it' acc' where x: "x = Ok (Inr (it', acc'))" by blast
    obtain i where i: "it = \<lparr>Iterator_c = Some i\<rparr>" "c_iter_valid C i" "it' = \<lparr>Iterator_c = Some (c_iter_next C (calls (c_world c)) i)\<rparr>"
      using scanStep_next [OF run [unfolded x]] by (auto simp: E)
    have "length (rest (c_iter_next C (calls (c_world c)) i)) < length (rest i)"
      using next_rest_shorter i(2) by (simp add: iter_valid)
    then show ?thesis
      using less.hyps [of it'] i by (intro call_gets [OF _ step]) (simp_all add: less.prems x)
  next
    case False
    then show ?thesis
      by (intro call_gets [OF _ step] gets_now) (auto simp: less.prems returned_def split: outcome.splits sum.splits)
  qed
qed

lemma seeking_returns:
  assumes E: "rocksLib E = C" and c: "c_calls c t = Seeking q h it"
  shows "gets (callGo E t) (\<lambda>c. returned (c_calls c t)) c"
proof -
  obtain x w' where "seekStep E h it (Action_Key (queryAction q)) (c_world c) = (x, w')" by (metis surj_pair)
  from callStep.seek [OF c this] show ?thesis
    by (rule call_gets [rotated])
      (auto simp: c returned_def intro: gets_now scanning_returns [OF E, unfolded returned_def] split: outcome.splits)
qed

lemma creating_returns:
  assumes E: "rocksLib E = C" and c: "c_calls c t = ScanCreate q p"
  shows "gets (callGo E t) (\<lambda>c. returned (c_calls c t)) c"
proof -
  obtain x w' where "scanIterator E p (c_world c) = (x, w')" by (metis surj_pair)
  from callStep.create [OF c this] show ?thesis
    by (rule call_gets [rotated])
      (auto simp: c returned_def intro: gets_now seeking_returns [OF E, unfolded returned_def] split: outcome.splits)
qed

lemma lookup_returns:
  assumes E: "rocksLib E = C" and "begunCall (c_calls c t)"
    and "\<And>p. \<not> rw_writer (c_locks c p) \<and> \<not> rw_pending (c_locks c p)"
    and "\<And>p. refers (c_calls c t) = Some p \<Longrightarrow> rheap (c_world c) p \<noteq> None"
  shows "gets (callGo E t) (\<lambda>c. returned (c_calls c t)) c"
proof (cases "c_calls c t")
  case (Loaded q p)
  then show ?thesis using assms by (intro loaded_returns) auto
next
  case (Locked q p)
  then show ?thesis using assms by (intro leaves_returns locked_leaves) auto
qed (use assms(2) in \<open>auto simp: returned_def intro: gets_now leaves_returns [unfolded returned_def] reading_leaves answered_leaves
      unlocked_returns [unfolded returned_def] creating_returns [OF E, unfolded returned_def]
      seeking_returns [OF E, unfolded returned_def] scanning_returns [OF E, unfolded returned_def]\<close>)

end

section \<open>A saver to its end\<close>

lemma save_gets: "begunSave (sv_savers s t) \<Longrightarrow> saverStep E t s s' \<Longrightarrow> gets (saverGo E t) P s' \<Longrightarrow> gets (saverGo E t) P s"
  by (rule gets_step) (simp_all add: saverGo_def)

abbreviation finishes :: "('s, 'b, 'i, 'n) env \<Rightarrow> nat \<Rightarrow> ('s, 'n, 'i) saving \<Rightarrow> bool" where
  "finishes E t \<equiv> gets (saverGo E t) (\<lambda>s. finished (sv_savers s t))"

lemma finished_now: "sv_savers s t = Saved x \<Longrightarrow> finishes E t s" "sv_savers s t = Hashed y \<Longrightarrow> finishes E t s"
  by (auto simp: finished_def intro: gets_now)

lemma answered_finishes:
  assumes s: "sv_savers s t = SaveAnswered h p x"
  shows "finishes E t s"
  by (rule save_gets [OF _ saverStep.unlock [OF s] gets_now]) (simp_all add: s finished_def)

context rocks
begin

lemma writeStep_next:
  assumes "writeStep E db it wr w = (Ok (Inr (it', wr')), w')"
  shows "\<exists>i. it = \<lparr>Iterator_c = Some i\<rparr> \<and> c_iter_valid (rocksLib E) i \<and> it' = \<lparr>Iterator_c = Some (c_iter_next (rocksLib E) (calls w) i)\<rparr>"
proof (cases it)
  case (fields c)
  then show ?thesis
    using assms by (cases c) (auto simp: writeStep_def useIterator_def Let_def iterValid_def iterNext_def onIter_def
        split: if_splits option.splits prod.splits)
qed

lemma countStep_next:
  assumes "countStep E db it n wr w = (Ok (CountNext it' n'), w')"
  shows "\<exists>i. it = \<lparr>Iterator_c = Some i\<rparr> \<and> c_iter_valid (rocksLib E) i \<and> it' = \<lparr>Iterator_c = Some (c_iter_next (rocksLib E) (calls w) i)\<rparr>"
proof (cases it)
  case (fields c)
  then show ?thesis
    using assms by (cases c) (auto simp: countStep_def useIterator_def Let_def iterValid_def iterNext_def onIter_def
        split: if_splits option.splits prod.splits)
qed

lemma writing_finishes:
  assumes E: "rocksLib E = C" and "sv_savers s t = Writing h p db it wr"
  shows "finishes E t s"
  using assms(2)
proof (induction "case Iterator_c it of None \<Rightarrow> 0 | Some i \<Rightarrow> length (rest i)" arbitrary: s it wr rule: less_induct)
  case less
  obtain x w' where run: "writeStep E db it wr (sv_world s) = (x, w')" by (metis surj_pair)
  note step = saverStep.put [OF less.prems run]
  show ?case
  proof (cases "\<exists>it' wr'. x = Ok (Inr (it', wr'))")
    case True
    then obtain it' wr' where x: "x = Ok (Inr (it', wr'))" by blast
    obtain i where i: "it = \<lparr>Iterator_c = Some i\<rparr>" "c_iter_valid C i" "it' = \<lparr>Iterator_c = Some (c_iter_next C (calls (sv_world s)) i)\<rparr>"
      using writeStep_next [OF run [unfolded x]] by (auto simp: E)
    have "length (rest (c_iter_next C (calls (sv_world s)) i)) < length (rest i)"
      using next_rest_shorter i(2) by (simp add: iter_valid)
    then show ?thesis using less.hyps [of it'] i by (intro save_gets [OF _ step]) (simp_all add: less.prems x)
  next
    case False
    then show ?thesis
      by (intro save_gets [OF _ step]) (auto simp: less.prems intro: answered_finishes split: outcome.splits sum.splits)
  qed
qed

lemma counting_finishes:
  assumes E: "rocksLib E = C" and "sv_savers s t = Counting h p db it n wr"
  shows "finishes E t s"
  using assms(2)
proof (induction "case Iterator_c it of None \<Rightarrow> 0 | Some i \<Rightarrow> length (rest i)" arbitrary: s it n wr rule: less_induct)
  case less
  obtain x w' where run: "countStep E db it n wr (sv_world s) = (x, w')" by (metis surj_pair)
  note step = saverStep.count [OF less.prems run]
  show ?case
  proof (cases "\<exists>it' n'. x = Ok (CountNext it' n')")
    case True
    then obtain it' n' where x: "x = Ok (CountNext it' n')" by blast
    obtain i where i: "it = \<lparr>Iterator_c = Some i\<rparr>" "c_iter_valid C i" "it' = \<lparr>Iterator_c = Some (c_iter_next C (calls (sv_world s)) i)\<rparr>"
      using countStep_next [OF run [unfolded x]] by (auto simp: E)
    have "length (rest (c_iter_next C (calls (sv_world s)) i)) < length (rest i)"
      using next_rest_shorter i(2) by (simp add: iter_valid)
    then show ?thesis using less.hyps [of it'] i by (intro save_gets [OF _ step]) (simp_all add: less.prems x)
  next
    case False
    then show ?thesis
      by (intro save_gets [OF _ step])
        (auto simp: less.prems intro: answered_finishes writing_finishes [OF E] split: outcome.splits counted.splits)
  qed
qed

lemma placing_finishes:
  assumes E: "rocksLib E = C" and s: "sv_savers s t = SavePlacing h p db it wr"
  shows "finishes E t s"
proof -
  obtain x w' where "placeStep E db it (sv_world s) = (x, w')" by (metis surj_pair)
  from saverStep.place [OF s this] show ?thesis
    by (rule save_gets [rotated]) (auto simp: s intro: answered_finishes counting_finishes [OF E] split: outcome.splits)
qed

lemma creating_finishes:
  assumes E: "rocksLib E = C" and s: "sv_savers s t = SaveLocked h p ss wr"
  shows "finishes E t s"
proof -
  obtain x w' where "saveIterator E p ss (sv_world s) = (x, w')" by (metis surj_pair)
  from saverStep.create [OF s this] show ?thesis
    by (rule save_gets [rotated]) (auto simp: s intro: answered_finishes placing_finishes [OF E] split: outcome.splits)
qed

text \<open>A saver that holds a mutex gives it back; one that can have the mutex that it wants returns, too.\<close>

lemma reader_finishes:
  assumes E: "rocksLib E = C" and "sholding (sv_savers s t) = Some p"
  shows "finishes E t s"
  using assms(2) answered_finishes writing_finishes [OF E] counting_finishes [OF E] placing_finishes [OF E] creating_finishes [OF E]
  by (cases "sv_savers s t") simp_all

lemma snapped_finishes:
  assumes E: "rocksLib E = C" and s: "sv_savers s t = Snapped h p ss wr"
    and "\<not> rw_writer (c_locks (sv_conc s) p)" "\<not> rw_pending (c_locks (sv_conc s) p)"
  shows "finishes E t s"
  by (rule save_gets [OF _ saverStep.rlock [OF s assms(3,4)]]) (simp_all add: s creating_finishes [OF E])

lemma saver_finishes:
  assumes E: "rocksLib E = C" and b: "begunSave (sv_savers s t)"
    and free: "\<And>p. \<not> rw_writer (c_locks (sv_conc s) p) \<and> \<not> rw_pending (c_locks (sv_conc s) p)"
  shows "finishes E t s"
proof (cases "sv_savers s t")
  case (Prepared ctx wr)
  show ?thesis
    by (rule save_gets [OF _ saverStep.check [OF Prepared]])
      (use free in \<open>auto simp: Prepared saveCheck_def intro: finished_now snapped_finishes [OF E] split: option.splits\<close>)
next
  case (HashLoaded p)
  obtain x w' where "derefDb p (\<lambda>r rdb. dbNewSnapshot E rdb) (sv_world s) = (x, w')" by (metis surj_pair)
  from saverStep.snap [OF HashLoaded this] show ?thesis
    by (rule save_gets [rotated]) (use free in \<open>auto simp: HashLoaded intro: finished_now snapped_finishes [OF E] split: outcome.splits\<close>)
qed (use b free in \<open>auto intro: finished_now snapped_finishes [OF E] reader_finishes [OF E]\<close>)

end

section \<open>The writer in a close\<close>

text \<open>The steps of one goroutine leave the others where they are.\<close>

lemma calls_others:
  assumes "(callGo E t)\<^sup>*\<^sup>* c c'"
  shows "c_master c' = c_master c \<and> (\<forall>u. u \<noteq> t \<longrightarrow> c_calls c' u = c_calls c u)"
  using assms
proof (induction rule: rtranclp_induct)
  case (step c1 c2)
  from step.hyps(2) have "callStep E t c1 c2" by (simp add: callGo_def)
  then obtain d where "c_calls c2 = (c_calls c1)(t := d)" "c_master c2 = c_master c1" by (rule callStep_shape) blast
  with step.IH show ?case by simp
qed simp

lemma savers_others:
  assumes "(saverGo E t)\<^sup>*\<^sup>* s s'"
  shows "c_master (sv_conc s') = c_master (sv_conc s) \<and> c_locks (sv_conc s') = c_locks (sv_conc s)
    \<and> (\<forall>u. u \<noteq> t \<longrightarrow> sv_savers s' u = sv_savers s u)"
  using assms
proof (induction rule: rtranclp_induct)
  case (step s1 s2)
  from step.hyps(2) have "saverStep E t s1 s2" by (simp add: saverGo_def)
  then obtain v n where "sv_savers s2 = (sv_savers s1)(t := v)" "sv_conc s2 = withWorld ((sv_world s1)\<lparr>calls := n\<rparr>) (sv_conc s1)"
    by (rule saverStep_shape) blast
  with step.IH show ?case by simp
qed simp

text \<open>Only finitely many goroutines hold a mutex.\<close>

definition finiteReaders :: "('s, 'n, 'i) saving \<Rightarrow> bool" where
  "finiteReaders s \<longleftrightarrow> (\<forall>p. finite (rw_readers (c_locks (sv_conc s) p)) \<and> finite (sv_readers s p))"

lemma callStep_readers:
  assumes "callStep E t c c'" and "finite (rw_readers (c_locks c p))"
  shows "finite (rw_readers (c_locks c' p))"
  using assms by (elim callStep_shape) auto

lemma masterStep_readers: "masterStep E c c' \<Longrightarrow> rw_readers (c_locks c' p) = rw_readers (c_locks c p)"
  by (erule masterStep.cases) simp_all

lemma finiteReaders_step:
  assumes "savingStep E s s'" and fin: "finiteReaders s"
  shows "finiteReaders s'"
  using assms(1)
proof cases
  case (lookup t c)
  then show ?thesis using fin callStep_readers [OF lookup(2)] by (simp add: finiteReaders_def)
next
  case (master c)
  then show ?thesis using fin masterStep_readers [OF master(2)] by (simp add: finiteReaders_def)
next
  case (saver t)
  then show ?thesis
  proof (cases rule: saverStep_shape)
    case (1 v n)
    from 1(3) show ?thesis
      by (elim disjE exE conjE) (use fin 1(1) in \<open>simp_all add: finiteReaders_def\<close>)
  qed
qed

lemma finiteReaders_reach: "(savingStep E)\<^sup>*\<^sup>* (savingStart w queries writers) s \<Longrightarrow> finiteReaders s"
proof (induction rule: rtranclp_induct)
  case base
  show ?case by (simp add: finiteReaders_def savingStart_def concStart_def)
next
  case (step s1 s2)
  show ?case by (rule finiteReaders_step [OF step.hyps(2) step.IH])
qed

text \<open>The stages of a close, and the master after its end.\<close>

fun stagesLeft :: "stage \<Rightarrow> nat" where
  "stagesLeft Marking = 5" | "stagesLeft Locking = 4" | "stagesLeft Waiting = 3"
| "stagesLeft Flagging = 2" | "stagesLeft Shutting = 1" | "stagesLeft Unlocking = 0"

definition closed :: "string option \<Rightarrow> master" where
  "closed a = (case a of None \<Rightarrow> Ended | Some d \<Rightarrow> Removing d)"

lemma closer_next:
  assumes "masterStep E c c'" and "c_master c = Closer st p a"
  shows "c_master c' = closed a \<or> (\<exists>st'. c_master c' = Closer st' p a \<and> stagesLeft st' < stagesLeft st)"
  using assms by cases (simp_all add: closed_def)

context rocks
begin

lemma waiting_drains:
  assumes E: "rocksLib E = C" and st: "settled contents cid nid e w"
    and "(savingStep E)\<^sup>*\<^sup>* (savingStart w queries writers) s" and "c_master (sv_conc s) = Closer Waiting p a"
  shows "gets (flightStep E) (\<lambda>s. c_master (sv_conc s) = Closer Waiting p a
    \<and> rw_readers (c_locks (sv_conc s) p) = {} \<and> sv_readers s p = {}) s"
  using assms(3,4)
proof (induction "card (rw_readers (c_locks (sv_conc s) p)) + card (sv_readers s p)" arbitrary: s rule: less_induct)
  case less
  let ?L = "rw_readers (c_locks (sv_conc s) p)" and ?S = "sv_readers s p"
  have inv: "savingInv cid nid s'" if "(flightStep E)\<^sup>*\<^sup>* s s'" for s'
    using savingInv_reach [OF E st rtranclp_trans [OF less.prems(1) flights_savings [OF that]]] .
  have fin: "finite ?L" "finite ?S" using finiteReaders_reach [OF less.prems(1)] by (simp_all add: finiteReaders_def)
  have heldL: "holding (c_calls (sv_conc s') u) = Some p \<longleftrightarrow> u \<in> rw_readers (c_locks (sv_conc s') p)"
    and heldS: "sholding (sv_savers s' u) = Some p \<longleftrightarrow> u \<in> sv_readers s' p" if "(flightStep E)\<^sup>*\<^sup>* s s'" for s' u
    using inv [OF that] by (simp_all add: savingInv_def lockInv_def readersInv_def)
  have again: ?case if s': "(flightStep E)\<^sup>*\<^sup>* s s'" and m: "c_master (sv_conc s') = c_master (sv_conc s)"
    and L: "rw_readers (c_locks (sv_conc s') p) \<subseteq> ?L" and S: "sv_readers s' p \<subseteq> ?S"
    and one: "rw_readers (c_locks (sv_conc s') p) \<noteq> ?L \<or> sv_readers s' p \<noteq> ?S" for s'
  proof -
    have "card (rw_readers (c_locks (sv_conc s') p)) + card (sv_readers s' p) < card ?L + card ?S"
      using one card_mono [OF fin(1) L] card_mono [OF fin(2) S] psubset_card_mono [OF fin(1), of "rw_readers (c_locks (sv_conc s') p)"]
        psubset_card_mono [OF fin(2), of "sv_readers s' p"] L S by fastforce
    from gets_steps [OF s' less.hyps [OF this]] show ?thesis
      using less.prems m rtranclp_trans [OF less.prems(1) flights_savings [OF s']] by simp
  qed
  show ?case
  proof (cases "?L = {}")
    case False
    then obtain t where t: "t \<in> ?L" by blast
    then have h: "holding (c_calls (sv_conc s) t) = Some p" using heldL [OF rtranclp.rtrancl_refl] by blast
    have "retired (sv_world s) Waiting p"
      using inv [OF rtranclp.rtrancl_refl] less.prems(2) by (simp add: savingInv_def structInv_def masterInv_Closer)
    then have "rheap (sv_world s) p \<noteq> None" by (auto simp: retired_def dest: liveAt_SomeD)
    then obtain c q x where c: "(callGo E t)\<^sup>*\<^sup>* (sv_conc s) c" "c_calls c t = Unlocked q x"
      using holder_leaves [OF h, of E] unfolding gets_def by blast
    note fl = calls_flights [OF c(1)] and others = calls_others [OF c(1)]
    have "rw_readers (c_locks c p) = ?L - {t}"
    proof (rule set_eqI)
      fix u show "u \<in> rw_readers (c_locks c p) \<longleftrightarrow> u \<in> ?L - {t}"
        using heldL [OF fl, of u] heldL [OF rtranclp.rtrancl_refl, of u] others c(2) by (cases "u = t") auto
    qed
    then show ?thesis using again [OF fl] others t by auto
  next
    case L: True
    show ?thesis
    proof (cases "?S = {}")
      case False
      then obtain t where t: "t \<in> ?S" by blast
      then have "sholding (sv_savers s t) = Some p" using heldS [OF rtranclp.rtrancl_refl] by blast
      then obtain s' where s': "(saverGo E t)\<^sup>*\<^sup>* s s'" "finished (sv_savers s' t)"
        using reader_finishes [OF E, of s t p] unfolding gets_def by blast
      note fl = savers_flights [OF s'(1)] and others = savers_others [OF s'(1)]
      have "sv_readers s' p = ?S - {t}"
      proof (rule set_eqI)
        fix u show "u \<in> sv_readers s' p \<longleftrightarrow> u \<in> ?S - {t}"
          using heldS [OF fl, of u] heldS [OF rtranclp.rtrancl_refl, of u] others s'(2) by (cases "u = t") (auto simp: finished_def)
      qed
      then show ?thesis using again [OF fl] others t by auto
    next
      case True
      then show ?thesis using L less.prems(2) by (intro gets_now) simp
    qed
  qed
qed

lemma close_ends:
  assumes E: "rocksLib E = C" and st: "settled contents cid nid e w"
    and "(savingStep E)\<^sup>*\<^sup>* (savingStart w queries writers) s" and "c_master (sv_conc s) = Closer sg p a"
  shows "gets (flightStep E) (\<lambda>s. c_master (sv_conc s) = closed a) s"
  using assms(3,4)
proof (induction "stagesLeft sg" arbitrary: s sg rule: less_induct)
  case less
  have go: ?case if s': "(flightStep E)\<^sup>*\<^sup>* s s'" and m: "c_master (sv_conc s') = Closer sg p a"
    and free: "sg = Waiting \<Longrightarrow> rw_readers (c_locks (sv_conc s') p) = {} \<and> sv_readers s' p = {}" for s'
  proof -
    have reach: "(savingStep E)\<^sup>*\<^sup>* (savingStart w queries writers) s'"
      using less.prems(1) flights_savings [OF s'] by (rule rtranclp_trans)
    have "structInv contents cid nid (sv_conc s')" using savingInv_reach [OF E st reach] by (simp add: savingInv_def)
    then obtain c where step: "masterStep E (sv_conc s') c" using closer_enabled [OF _ m] free by blast
    have fl: "flightStep E s' (s'\<lparr>sv_conc := c\<rparr>)" (is "flightStep E s' ?s") using flightStep.closer [OF m step] free by blast
    have reach': "(savingStep E)\<^sup>*\<^sup>* (savingStart w queries writers) ?s"
      using reach flight_saving [OF fl] by (rule rtranclp.rtrancl_into_rtrancl)
    have "gets (flightStep E) (\<lambda>s. c_master (sv_conc s) = closed a) ?s"
      using closer_next [OF step m] less.hyps [OF _ reach'] by (auto intro: gets_now)
    from gets_steps [OF s' gets_step [OF fl this]] show ?thesis .
  qed
  show ?case
  proof (cases "sg = Waiting")
    case True
    then show ?thesis using waiting_drains [OF E st less.prems(1)] less.prems(2) go by (auto simp: gets_def)
  next
    case False
    then show ?thesis using go [OF rtranclp.rtrancl_refl less.prems(2)] by blast
  qed
qed

text \<open>So from every reachable state one without a close is reached, and there the mutexes are free.\<close>

lemma gets_free:
  assumes E: "rocksLib E = C" and st: "settled contents cid nid e w"
    and reach: "(savingStep E)\<^sup>*\<^sup>* (savingStart w queries writers) s"
  shows "\<exists>s'. (flightStep E)\<^sup>*\<^sup>* s s' \<and> savingInv cid nid s'
    \<and> (\<forall>p. \<not> rw_writer (c_locks (sv_conc s') p) \<and> \<not> rw_pending (c_locks (sv_conc s') p))"
proof -
  obtain s' where s': "(flightStep E)\<^sup>*\<^sup>* s s'" and no: "\<nexists>st p a. c_master (sv_conc s') = Closer st p a"
  proof (cases "c_master (sv_conc s)")
    case (Closer sg p a)
    from close_ends [OF E st reach this] show thesis
      by (auto simp: gets_def closed_def split: option.splits intro: that)
  qed (auto intro: that [OF rtranclp.rtrancl_refl])
  have inv: "savingInv cid nid s'" by (rule savingInv_reach [OF E st rtranclp_trans [OF reach flights_savings [OF s']]])
  have "writing (c_master (sv_conc s')) = None \<and> asking (c_master (sv_conc s')) = None"
    using no by (cases "c_master (sv_conc s')") auto
  then have "\<not> rw_writer (c_locks (sv_conc s') p) \<and> \<not> rw_pending (c_locks (sv_conc s') p)" for p
    using inv by (simp add: savingInv_def lockInv_def)
  with s' inv show ?thesis by blast
qed

end

section \<open>Properties\<close>

text \<open>
  C35. Nobody waits for ever. Whatever lookups, savers, updates, installations and a close have done so
  far, each operation that has begun can be brought to its end, and by steps of operations alone
  that have begun: a close gets the mutex that it waits for and ends, in \<^verbatim>\<open>Close\<close> with the end of
  the writer and in an installation with the removal of the old directory left; every lookup
  returns; every saving and every hash returns, also when it had to wait for a close.
\<close>

theorem operations_complete:
  assumes "rocks (rocksLib E) contents ops items rest snapped" and "lifeInv contents cid nid (w, True) m"
    and "(savingStep E)\<^sup>*\<^sup>* (savingStart w queries writers) s"
  shows "(\<forall>st p a. c_master (sv_conc s) = Closer st p a \<longrightarrow>
      (\<exists>s'. (flightStep E)\<^sup>*\<^sup>* s s' \<and> c_master (sv_conc s') = (case a of None \<Rightarrow> Ended | Some d \<Rightarrow> Removing d)))
    \<and> (\<forall>t. begunCall (c_calls (sv_conc s) t) \<longrightarrow>
      (\<exists>s' q x. (flightStep E)\<^sup>*\<^sup>* s s' \<and> c_calls (sv_conc s') t = Returned q x))
    \<and> (\<forall>t. begunSave (sv_savers s t) \<longrightarrow>
      (\<exists>s'. (flightStep E)\<^sup>*\<^sup>* s s' \<and> ((\<exists>x. sv_savers s' t = Saved x) \<or> (\<exists>x. sv_savers s' t = Hashed x))))"
proof -
  obtain e where st: "settled contents cid nid e w" using lifeInv_settled [OF assms(2)] by blast
  obtain s1 where s1: "(flightStep E)\<^sup>*\<^sup>* s s1" and inv: "rocks.savingInv contents cid nid s1"
    and free: "\<forall>p. \<not> rw_writer (c_locks (sv_conc s1) p) \<and> \<not> rw_pending (c_locks (sv_conc s1) p)"
    using rocks.gets_free [OF assms(1) refl st assms(3)] by blast
  have "gets (flightStep E) (\<lambda>s. c_master (sv_conc s) = closed a) s" if "c_master (sv_conc s) = Closer sg p a" for sg p a
    by (rule rocks.close_ends [OF assms(1) refl st assms(3) that])
  moreover have "\<exists>s' q x. (flightStep E)\<^sup>*\<^sup>* s s' \<and> c_calls (sv_conc s') t = Returned q x" if b: "begunCall (c_calls (sv_conc s) t)" for t
  proof -
    have "known (sv_world s1) (c_master (sv_conc s1)) p" if "refers (c_calls (sv_conc s1) t) = Some p" for p
      using inv that by (simp add: rocks.savingInv_def [OF assms(1)] structInv_def)
    then obtain c where c: "(callGo E t)\<^sup>*\<^sup>* (sv_conc s1) c" "returned (c_calls c t)"
      using rocks.lookup_returns [OF assms(1) refl flights_begun(1) [OF s1 b] spec [OF free]] unfolding gets_def known_def by blast
    from rtranclp_trans [OF s1 calls_flights [OF c(1)]] c(2) show ?thesis by (auto simp: returned_def)
  qed
  moreover have "\<exists>s'. (flightStep E)\<^sup>*\<^sup>* s s' \<and> ((\<exists>x. sv_savers s' t = Saved x) \<or> (\<exists>x. sv_savers s' t = Hashed x))"
    if b: "begunSave (sv_savers s t)" for t
  proof -
    obtain s' where s': "(saverGo E t)\<^sup>*\<^sup>* s1 s'" "finished (sv_savers s' t)"
      using rocks.saver_finishes [OF assms(1) refl flights_begun(2) [OF s1 b] spec [OF free]] unfolding gets_def by blast
    from rtranclp_trans [OF s1 savers_flights [OF s'(1)]] s'(2) show ?thesis by (auto simp: finished_def)
  qed
  ultimately show ?thesis unfolding gets_def closed_def by blast
qed

text \<open>
  The example: a saver and a lookup hold the mutex of the one struct, and a close has asked for it; the
  close ends.
\<close>

theorem operations_complete_witness:
  "let E = exampleEnv (\<lambda>_. NoFault); s0 = savingStart (exampleWorld [(''k'', ''v'')] 0) (\<lambda>_. exampleGet) (\<lambda>_. None)
   in \<exists>s p s'. (savingStep E)\<^sup>*\<^sup>* s0 s \<and> c_calls (sv_conc s) 0 = Locked exampleGet p \<and> c_master (sv_conc s) = Closer Waiting p None
     \<and> (flightStep E)\<^sup>*\<^sup>* s s' \<and> c_master (sv_conc s') = Ended"
proof -
  let ?E = "exampleEnv (\<lambda>_. NoFault)" and ?w = "exampleWorld [(''k'', ''v'')] 0"
  let ?s0 = "savingStart ?w (\<lambda>_. exampleGet) (\<lambda>_. None) :: (refDb, refDb, refIter) saving"
  have lib: "rocks (rocksLib ?E) map_of (\<lambda>b. b) fst snd map_of" by (simp add: refRocks_laws)
  obtain e where "settled map_of 1 1 e ?w" using lifeInv_settled [OF example_life] by blast
  then obtain p where p: "cmd_db (commander ?w) = Some p" by (rule settled_live)
  define c0 where "c0 = sv_conc ?s0"
  have c0: "c_world c0 = ?w" "c_calls c0 0 = Called exampleGet" "c_master c0 = Ready"
    "c_locks c0 p = \<lparr>rw_readers = {}, rw_pending = False, rw_writer = False\<rparr>" by (simp_all add: c0_def savingStart_def concStart_def)
  define c1 where "c1 = goto 0 (Loaded exampleGet p) c0"
  have 1: "callStep ?E 0 c0 c1" using callStep.load [of c0 0 exampleGet p ?E] c0 p example_queries(1) by (simp add: c1_def)
  define c2 where "c2 = goto 0 (Locked exampleGet p) (withLock p (\<lambda>m. m\<lparr>rw_readers := insert 0 (rw_readers m)\<rparr>) c1)"
  have 2: "callStep ?E 0 c1 c2" using callStep.rlock [of c1 0 exampleGet p ?E] c0 by (simp add: c1_def c2_def)
  define w1 where "w1 = ?w\<lparr>commander := (commander ?w)\<lparr>cmd_db := None\<rparr>\<rparr>"
  define c3 where "c3 = become (Closer Marking p None) (withWorld w1 c2)"
  have 3: "masterStep ?E c2 c3"
    using masterStep.close [of c2 "Some p" w1 ?E] c0 p by (simp add: c1_def c2_def c3_def w1_def swapDb_def)
  define w2 where "w2 = w1\<lparr>commander := (commander w1)\<lparr>cmd_closed := True\<rparr>\<rparr>"
  define c4 where "c4 = become (Closer Locking p None) (withWorld w2 c3)"
  have 4: "masterStep ?E c3 c4" using masterStep.mark [of c3 p None "()" w2 ?E] by (simp add: c3_def c4_def w2_def setCommander_def)
  define c5 where "c5 = become (Closer Waiting p None) (withLock p (\<lambda>m. m\<lparr>rw_pending := True\<rparr>) c4)"
  have 5: "masterStep ?E c4 c5" using masterStep.lock [of c4 p None ?E] by (simp add: c4_def c5_def)
  have look: "callStep ?E 0 c c' \<Longrightarrow> savingStep ?E (?s0\<lparr>sv_conc := c\<rparr>) (?s0\<lparr>sv_conc := c'\<rparr>)" for c c'
    using savingStep.lookup [of ?E 0 "?s0\<lparr>sv_conc := c\<rparr>" c'] by simp
  have master: "masterStep ?E c c' \<Longrightarrow> savingStep ?E (?s0\<lparr>sv_conc := c\<rparr>) (?s0\<lparr>sv_conc := c'\<rparr>)" for c c'
    using savingStep.master [of ?E "?s0\<lparr>sv_conc := c\<rparr>" c'] by (simp add: savingStart_def)
  have "?s0\<lparr>sv_conc := c0\<rparr> = ?s0" by (simp add: c0_def)
  with look [OF 1] look [OF 2] master [OF 3] master [OF 4] master [OF 5]
  have run: "(savingStep ?E)\<^sup>*\<^sup>* ?s0 (?s0\<lparr>sv_conc := c5\<rparr>)" by (simp only: converse_rtranclp_into_rtranclp rtranclp.rtrancl_refl)
  have c5: "c_master (sv_conc (?s0\<lparr>sv_conc := c5\<rparr>)) = Closer Waiting p None" "c_calls (sv_conc (?s0\<lparr>sv_conc := c5\<rparr>)) 0 = Locked exampleGet p"
    by (simp_all add: c2_def c3_def c4_def c5_def)
  from operations_complete [OF lib example_life run, THEN conjunct1, rule_format, OF c5(1)] run c5
  show ?thesis unfolding Let_def option.case by blast
qed

end
