(* ===== verification/Cgo.thy ===== *)
theory Cgo
  imports Gorocksdb
begin

text \<open>
  The memory that the binding shares with the C library: blocks from \<^verbatim>\<open>malloc\<close>, the conversions of
  \<^verbatim>\<open>util.go\<close>, \<^verbatim>\<open>array.go\<close> and \<^verbatim>\<open>cf_handle.go\<close>, and the patterns in which the Go code allocates,
  passes and frees them. A block that is freed twice, or never was allocated, ends the process.
  The logic of ownership is that of \<open>noleak\<close>: whatever a fragment returns, the blocks that were
  live before are live and unchanged afterwards, and no others are.
\<close>

section \<open>The C heap\<close>

record 'd cworld =
  mem :: "nat \<Rightarrow> bytes option"
  brk :: nat
  lib :: 'd

type_synonym ('d, 'a) cop = "('d cworld, 'a) go"

text \<open>Pointers are numbers, nil is 0. \<^verbatim>\<open>malloc\<close> gives a block that was never used.\<close>

definition wfHeap :: "'d cworld \<Rightarrow> bool" where
  "wfHeap h \<longleftrightarrow> 0 < brk h \<and> mem h 0 = None \<and> (\<forall>p \<ge> brk h. mem h p = None)"

definition malloc :: "bytes \<Rightarrow> ('d, nat) cop" where
  "malloc b = (\<lambda>h. (Ok (brk h), h\<lparr>mem := (mem h)(brk h \<mapsto> b), brk := Suc (brk h)\<rparr>))"

definition cfree :: "nat \<Rightarrow> ('d, unit) cop" where
  "cfree p = (\<lambda>h. if p = 0 then (Ok (), h)
     else case mem h p of None \<Rightarrow> (Panic ''invalid free'', h) | Some _ \<Rightarrow> (Ok (), h\<lparr>mem := (mem h)(p := None)\<rparr>))"

definition NUL :: char where "NUL = byte 0"

text \<open>\<^verbatim>\<open>C.CString\<close> appends a zero byte, \<^verbatim>\<open>C.GoString\<close> reads up to the first one.\<close>

definition CString :: "string \<Rightarrow> ('d, nat) cop" where
  "CString s = malloc (s @ [NUL])"

definition cstr :: "bytes \<Rightarrow> string" where
  "cstr b = takeWhile (\<lambda>c. c \<noteq> NUL) b"

definition GoString :: "nat \<Rightarrow> ('d, string) cop" where
  "GoString p = (\<lambda>h. (Ok (case mem h p of None \<Rightarrow> '''' | Some b \<Rightarrow> cstr b), h))"

text \<open>util.go: \<^verbatim>\<open>cByteSlice\<close> copies a slice to the C heap, nil for an empty one.\<close>

definition cByteSlice :: "bytes \<Rightarrow> ('d, nat) cop" where
  "cByteSlice b = (if length b > 0 then malloc b else ret 0)"

text \<open>
  array.go: a slice of byte slices as pointers to copies and their lengths, and the function that
  frees the copies.
\<close>

fun mallocAll :: "bytes list \<Rightarrow> ('d, nat list) cop" where
  "mallocAll [] = ret []"
| "mallocAll (b # bs) = andThen (malloc b) (\<lambda>p. andThen (mallocAll bs) (\<lambda>ps. ret (p # ps)))"

definition byteSlicesToCSlices :: "bytes list \<Rightarrow> ('d, nat list \<times> nat list) cop" where
  "byteSlicesToCSlices vals =
     (if length vals = 0 then ret ([], [])
      else andThen (mallocAll vals) (\<lambda>chars. ret (chars, map length vals)))"

fun charsDestroy :: "nat list \<Rightarrow> ('d, unit) cop" where
  "charsDestroy [] = ret ()"
| "charsDestroy (p # ps) = andThen (cfree p) (\<lambda>_. charsDestroy ps)"

text \<open>cf_handle.go: a column family handle is the C library's.\<close>

record ColumnFamilyHandle =
  cf_c :: nat

definition NewNativeColumnFamilyHandle :: "nat \<Rightarrow> ColumnFamilyHandle" where
  "NewNativeColumnFamilyHandle c = \<lparr>cf_c = c\<rparr>"

definition toCSlice :: "ColumnFamilyHandle list \<Rightarrow> nat list" where
  "toCSlice cfs = map cf_c cfs"

section \<open>Patterns\<close>

text \<open>\<^verbatim>\<open>p := C.CString(s); defer C.free(p)\<close>, and the same for a list of strings.\<close>

definition withCString :: "string \<Rightarrow> (nat \<Rightarrow> ('d, 'a) cop) \<Rightarrow> ('d, 'a) cop" where
  "withCString s f = andThen (CString s) (\<lambda>p. withDefer (f p) (cfree p))"

definition withCStrings :: "string list \<Rightarrow> (nat list \<Rightarrow> ('d, 'a) cop) \<Rightarrow> ('d, 'a) cop" where
  "withCStrings ss f = andThen (mallocAll (map (\<lambda>s. s @ [NUL]) ss)) (\<lambda>ps. withDefer (f ps) (charsDestroy ps))"

text \<open>What the library reads through a pointer to a C string.\<close>

definition readC :: "nat \<Rightarrow> (string \<Rightarrow> ('d, 'a) cop) \<Rightarrow> ('d, 'a) cop" where
  "readC p f = andThen (GoString p) f"

fun readCs :: "nat list \<Rightarrow> (string list \<Rightarrow> ('d, 'a) cop) \<Rightarrow> ('d, 'a) cop" where
  "readCs [] f = f []"
| "readCs (p # ps) f = readC p (\<lambda>s. readCs ps (\<lambda>ss. f (s # ss)))"

text \<open>A call of the library: it changes its own state, and allocates its error message.\<close>

definition allocErr :: "string option \<Rightarrow> ('d, nat) cop" where
  "allocErr e = (case e of None \<Rightarrow> ret 0 | Some s \<Rightarrow> CString s)"

definition libCallC :: "('d \<Rightarrow> 'r \<times> 'd) \<Rightarrow> ('d, 'r) cop" where
  "libCallC f = (\<lambda>h. case f (lib h) of (r, d) \<Rightarrow> (Ok r, h\<lparr>lib := d\<rparr>))"

definition callErr :: "('d \<Rightarrow> (string option \<times> 'r) \<times> 'd) \<Rightarrow> (nat \<Rightarrow> 'r \<Rightarrow> ('d, 'a) cop) \<Rightarrow> ('d, 'a) cop" where
  "callErr f k = andThen (libCallC f) (\<lambda>(e, r). andThen (allocErr e) (\<lambda>cErr. k cErr r))"

text \<open>\<^verbatim>\<open>if cErr != nil { defer C.free(cErr); return errors.New(C.GoString(cErr)) }\<close>\<close>

definition checkErr :: "nat \<Rightarrow> ('d, 'a) cop \<Rightarrow> ('d, 'a) cop" where
  "checkErr cErr m = (if cErr \<noteq> 0
     then withDefer (andThen (GoString cErr) (\<lambda>s. err (ErrorString s))) (cfree cErr) else m)"

text \<open>\<^verbatim>\<open>&xs[0]\<close> panics for an empty slice.\<close>

definition firstElem :: "'x list \<Rightarrow> ('d, 'a) cop \<Rightarrow> ('d, 'a) cop" where
  "firstElem xs m = (if xs = [] then gopanic ''index out of range [0] with length 0'' else m)"

section \<open>Ownership\<close>

text \<open>The blocks allocated since \<open>h\<close> and still live are those at \<open>ps\<close>; the older ones are untouched.\<close>

definition extends :: "'d cworld \<Rightarrow> 'd cworld \<Rightarrow> nat set \<Rightarrow> bool" where
  "extends h h' ps \<longleftrightarrow> wfHeap h' \<and> brk h \<le> brk h' \<and> (\<forall>p < brk h. mem h' p = mem h p)
     \<and> (\<forall>p \<ge> brk h. mem h' p \<noteq> None \<longleftrightarrow> p \<in> ps) \<and> (\<forall>p \<in> ps. brk h \<le> p)"

text \<open>A fragment of the binding frees nothing twice, is not killed and does not loop.\<close>

definition sane :: "'a outcome \<Rightarrow> bool" where
  "sane r \<longleftrightarrow> r \<noteq> Panic ''invalid free'' \<and> r \<noteq> Crash \<and> r \<noteq> Diverge"

lemma sane_simps [simp]: "sane (Ok a)" "sane (Err e)" "sane (Panic p) \<longleftrightarrow> p \<noteq> ''invalid free''" "\<not> sane Crash" "\<not> sane Diverge"
  by (simp_all add: sane_def)

definition noleak :: "('d, 'a) cop \<Rightarrow> bool" where
  "noleak m \<longleftrightarrow> (\<forall>h. wfHeap h \<longrightarrow> extends h (snd (m h)) {} \<and> sane (fst (m h)))"

named_theorems noleak_intros \<open>rules that build up absence of leaks along the code\<close>

lemma noleakD: "noleak m \<Longrightarrow> wfHeap h \<Longrightarrow> m h = (r, h') \<Longrightarrow> extends h h' {} \<and> sane r"
  unfolding noleak_def by force

lemma noleakI: "(\<And>h r h'. wfHeap h \<Longrightarrow> m h = (r, h') \<Longrightarrow> extends h h' {} \<and> sane r) \<Longrightarrow> noleak m"
  unfolding noleak_def by (metis prod.collapse)

lemma extends_refl: "wfHeap h \<Longrightarrow> extends h h {}"
  by (auto simp: extends_def wfHeap_def)

lemma extends_mem: "extends h h' {} \<Longrightarrow> wfHeap h \<Longrightarrow> mem h' = mem h"
  by (rule ext) (metis (mono_tags) empty_iff extends_def linorder_not_le wfHeap_def)

lemma extends_trans:
  assumes "extends h h1 ps" and "extends h1 h2 qs"
  shows "extends h h2 (ps \<union> qs)"
  unfolding extends_def
proof (intro conjI allI impI ballI)
  show "wfHeap h2" "brk h \<le> brk h2" using assms by (auto simp: extends_def)
  show "mem h2 p = mem h p" if "p < brk h" for p using assms that by (auto simp: extends_def)
  show "brk h \<le> p" if "p \<in> ps \<union> qs" for p using assms that by (fastforce simp: extends_def)
  show "mem h2 p \<noteq> None \<longleftrightarrow> p \<in> ps \<union> qs" if "brk h \<le> p" for p
    using assms that by (cases "p < brk h1") (auto simp: extends_def wfHeap_def not_less)
qed

lemma extends_wf: "extends h h' ps \<Longrightarrow> wfHeap h'"
  by (simp add: extends_def)

lemma malloc_run:
  assumes "wfHeap h"
  shows "\<exists>h'. malloc b h = (Ok (brk h), h') \<and> extends h h' {brk h} \<and> mem h' (brk h) = Some b \<and> brk h \<noteq> 0 \<and> lib h' = lib h"
  using assms by (auto simp: malloc_def extends_def wfHeap_def)

lemma cfree_run:
  assumes "extends h h' (insert p ps)" and "p \<notin> ps" and "wfHeap h"
  shows "\<exists>h''. cfree p h' = (Ok (), h'') \<and> extends h h'' ps \<and> lib h'' = lib h'"
proof -
  have "brk h \<le> p" "p \<noteq> 0" using assms by (auto simp: extends_def wfHeap_def)
  moreover then obtain b where "mem h' p = Some b" using assms(1) by (force simp: extends_def)
  ultimately show ?thesis
    using assms by (auto simp: cfree_def extends_def wfHeap_def)
qed

lemma noleak_ret [noleak_intros]: "noleak (ret a)"
  by (rule noleakI) (auto simp: ret_apply intro: extends_refl)

lemma noleak_err [noleak_intros]: "noleak (err e)"
  by (rule noleakI) (auto simp: err_apply intro: extends_refl)

lemma noleak_gopanic: "p \<noteq> ''invalid free'' \<Longrightarrow> noleak (gopanic p)"
  by (rule noleakI) (auto simp: gopanic_apply intro: extends_refl)

lemma noleak_GoString [noleak_intros]: "noleak (GoString p)"
  by (rule noleakI) (auto simp: GoString_def intro: extends_refl)

lemma noleak_libCallC [noleak_intros]: "noleak (libCallC f)"
proof (rule noleakI)
  fix h :: "'a cworld" and r :: "'b outcome" and h'
  assume "wfHeap h" "libCallC f h = (r, h')"
  then show "extends h h' {} \<and> sane r"
    by (auto simp: libCallC_def extends_def wfHeap_def split: prod.splits)
qed

lemma noleak_andThen [noleak_intros]:
  assumes m: "noleak m" and f: "\<And>a. noleak (f a)"
  shows "noleak (andThen m f)"
proof (rule noleakI)
  fix h r h' assume wf: "wfHeap h" and run: "andThen m f h = (r, h')"
  obtain r1 h1 where m1: "m h = (r1, h1)" by (cases "m h")
  note e1 = noleakD [OF m wf m1]
  show "extends h h' {} \<and> sane r"
  proof (cases r1)
    case (Ok a)
    then have "f a h1 = (r, h')" using run m1 by (simp add: andThen_apply)
    from noleakD [OF f extends_wf [of h h1 "{}"] this] show ?thesis
      using e1 extends_trans [of h h1 "{}" h' "{}"] by simp
  qed (use e1 run m1 in \<open>auto simp: andThen_apply\<close>)
qed

lemma noleak_readC [noleak_intros]: "(\<And>s. noleak (f s)) \<Longrightarrow> noleak (readC p f)"
  unfolding readC_def by (intro noleak_intros)

lemma noleak_readCs [noleak_intros]: "(\<And>ss. noleak (f ss)) \<Longrightarrow> noleak (readCs ps f)"
  by (induction ps arbitrary: f) (auto intro: noleak_intros)

lemma noleak_firstElem [noleak_intros]: "noleak m \<Longrightarrow> noleak (firstElem xs m)"
  by (auto simp: firstElem_def intro: noleak_gopanic)

lemma noleak_if [noleak_intros]: "noleak m \<Longrightarrow> noleak m' \<Longrightarrow> noleak (if c then m else m')"
  by simp

lemma noleak_case_prod [noleak_intros]: "(\<And>x y. noleak (f x y)) \<Longrightarrow> noleak (case p of (x, y) \<Rightarrow> f x y)"
  by (cases p) simp

lemma withDefer_run:
  assumes "m h = (r, h1)" and "sane r" and "d h1 = (Ok (), h2)"
  shows "withDefer m d h = (r, h2)"
  using assms by (cases r) (simp_all add: withDefer_def)

text \<open>Allocating many blocks, and freeing them again.\<close>

lemma mallocAll_run:
  assumes "wfHeap h"
  shows "\<exists>ps h'. mallocAll bs h = (Ok ps, h') \<and> extends h h' (set ps) \<and> distinct ps \<and> length ps = length bs
    \<and> 0 \<notin> set ps \<and> (\<forall>i < length bs. mem h' (ps ! i) = Some (bs ! i)) \<and> lib h' = lib h"
  using assms
proof (induction bs arbitrary: h)
  case Nil
  then show ?case by (intro exI [of _ "[]"] exI [of _ h]) (simp add: ret_apply extends_refl)
next
  case (Cons b bs)
  obtain h1 where h1: "malloc b h = (Ok (brk h), h1)" "extends h h1 {brk h}" "mem h1 (brk h) = Some b" "brk h \<noteq> 0"
    "lib h1 = lib h" using malloc_run [OF Cons.prems] by blast
  obtain ps h2 where h2: "mallocAll bs h1 = (Ok ps, h2)" "extends h1 h2 (set ps)" "distinct ps" "length ps = length bs"
    "0 \<notin> set ps" "\<forall>i < length bs. mem h2 (ps ! i) = Some (bs ! i)" "lib h2 = lib h1"
    using Cons.IH [OF extends_wf [OF h1(2)]] by blast
  have lt: "brk h < brk h1" using h1(2,3) by (auto simp: extends_def wfHeap_def not_less [symmetric])
  then have fresh: "brk h \<notin> set ps" and keep: "mem h2 (brk h) = Some b"
    using h2(2) h1(3) by (auto simp: extends_def)
  have "extends h h2 (insert (brk h) (set ps))"
    using extends_trans [OF h1(2) h2(2)] by simp
  moreover have "mem h2 ((brk h # ps) ! i) = Some ((b # bs) ! i)" if "i < length (b # bs)" for i
    using that keep h2(6) by (cases i) simp_all
  ultimately show ?case
    using h1 h2 fresh by (intro exI [of _ "brk h # ps"] exI [of _ h2]) (auto simp: andThen_apply ret_apply)
qed

lemma charsDestroy_run:
  assumes "wfHeap h" and "extends h h' (set ps \<union> qs)" and "distinct ps" and "set ps \<inter> qs = {}"
  shows "\<exists>h''. charsDestroy ps h' = (Ok (), h'') \<and> extends h h'' qs \<and> lib h'' = lib h'"
  using assms(2-4)
proof (induction ps arbitrary: h')
  case Nil
  then show ?case by (simp add: ret_apply)
next
  case (Cons p ps)
  obtain h1 where h1: "cfree p h' = (Ok (), h1)" "extends h h1 (set ps \<union> qs)" "lib h1 = lib h'"
    using cfree_run [of h h' p "set ps \<union> qs"] Cons.prems assms(1) by auto
  from Cons.IH [OF h1(2)] Cons.prems h1 show ?case by (auto simp: andThen_apply)
qed

lemma noleak_withCString [noleak_intros]:
  assumes "\<And>p. noleak (f p)"
  shows "noleak (withCString s f)"
proof (rule noleakI)
  fix h r h' assume wf: "wfHeap h" and run: "withCString s f h = (r, h')"
  obtain h1 where h1: "malloc (s @ [NUL]) h = (Ok (brk h), h1)" "extends h h1 {brk h}"
    using malloc_run [OF wf] by blast
  obtain r2 h2 where r2: "f (brk h) h1 = (r2, h2)" by (cases "f (brk h) h1")
  have n2: "extends h1 h2 {}" "sane r2" using noleakD [OF assms extends_wf [OF h1(2)] r2] by simp_all
  have "extends h h2 (insert (brk h) {})" using extends_trans [OF h1(2) n2(1)] by simp
  then obtain h3 where h3: "cfree (brk h) h2 = (Ok (), h3)" "extends h h3 {}"
    using cfree_run [of h h2 "brk h" "{}"] wf by auto
  have "withCString s f h = (r2, h3)"
    using h1(1) withDefer_run [where m = "f (brk h)" and d = "cfree (brk h)", OF r2 n2(2) h3(1)]
    by (simp add: withCString_def CString_def andThen_apply)
  with run h3(2) n2(2) show "extends h h' {} \<and> sane r" by simp
qed

lemma noleak_withCStrings [noleak_intros]:
  assumes "\<And>ps. noleak (f ps)"
  shows "noleak (withCStrings ss f)"
proof (rule noleakI)
  fix h r h' assume wf: "wfHeap h" and run: "withCStrings ss f h = (r, h')"
  let ?bs = "map (\<lambda>s. s @ [NUL]) ss"
  obtain ps h1 where h1: "mallocAll ?bs h = (Ok ps, h1)" "extends h h1 (set ps)" "distinct ps"
    using mallocAll_run [OF wf, of ?bs] by blast
  obtain r2 h2 where r2: "f ps h1 = (r2, h2)" by (cases "f ps h1")
  have n2: "extends h1 h2 {}" "sane r2" using noleakD [OF assms extends_wf [OF h1(2)] r2] by simp_all
  have "extends h h2 (set ps \<union> {})" using extends_trans [OF h1(2) n2(1)] .
  then obtain h3 where h3: "charsDestroy ps h2 = (Ok (), h3)" "extends h h3 {}"
    using charsDestroy_run [OF wf _ h1(3), of h2 "{}"] by auto
  have "withCStrings ss f h = (r2, h3)"
    using h1(1) withDefer_run [where m = "f ps" and d = "charsDestroy ps", OF r2 n2(2) h3(1)] by (simp add: withCStrings_def andThen_apply)
  with run h3(2) n2(2) show "extends h h' {} \<and> sane r" by simp
qed

lemma checkErr_run:
  assumes wf: "wfHeap h" and ext: "extends h h1 {p}" and b: "mem h1 p = Some b"
  shows "\<exists>h2. checkErr p m h1 = (Err (ErrorString (cstr b)), h2) \<and> extends h h2 {} \<and> lib h2 = lib h1"
proof -
  have "p \<noteq> 0" using wf ext by (auto simp: extends_def wfHeap_def)
  moreover obtain h2 where "cfree p h1 = (Ok (), h2)" "extends h h2 {}" "lib h2 = lib h1"
    using cfree_run [of h h1 p "{}"] wf ext by auto
  ultimately show ?thesis
    by (simp add: checkErr_def withDefer_def andThen_apply GoString_def b err_apply)
qed

text \<open>The pattern of nearly every operation: a call, the check of its error, and the rest.\<close>

lemma callErr_run:
  assumes wf: "wfHeap h" and call: "f (lib h) = ((e, r), d)"
  shows "case e of
      None \<Rightarrow> callErr f (\<lambda>cErr r. checkErr cErr (k r)) h = k r (h\<lparr>lib := d\<rparr>)
    | Some s \<Rightarrow> \<exists>h'. callErr f (\<lambda>cErr r. checkErr cErr (k r)) h = (Err (ErrorString (cstr (s @ [NUL]))), h')
        \<and> extends h h' {} \<and> lib h' = d"
proof (cases e)
  case None
  then show ?thesis
    by (simp add: callErr_def libCallC_def call andThen_apply allocErr_def ret_apply checkErr_def)
next
  case (Some s)
  let ?h = "h\<lparr>lib := d\<rparr>"
  have wf': "wfHeap ?h" using wf by (simp add: wfHeap_def)
  obtain h1 where h1: "malloc (s @ [NUL]) ?h = (Ok (brk h), h1)" "extends ?h h1 {brk h}" "mem h1 (brk h) = Some (s @ [NUL])"
    "lib h1 = d" using malloc_run [OF wf', of "s @ [NUL]"] by auto
  obtain h2 where h2: "checkErr (brk h) (k r) h1 = (Err (ErrorString (cstr (s @ [NUL]))), h2)" "extends ?h h2 {}" "lib h2 = lib h1"
    using checkErr_run [OF wf' h1(2,3)] by blast
  have "extends h h2 {}" using h2(2) by (simp add: extends_def)
  with h1 h2 Some show ?thesis
    by (simp add: callErr_def libCallC_def call andThen_apply allocErr_def CString_def)
qed

lemma noleak_callErr [noleak_intros]:
  assumes "\<And>r. noleak (k r)"
  shows "noleak (callErr f (\<lambda>cErr r. checkErr cErr (k r)))"
proof (rule noleakI)
  fix h x h' assume wf: "wfHeap h" and run: "callErr f (\<lambda>cErr r. checkErr cErr (k r)) h = (x, h')"
  obtain e r d where call: "f (lib h) = ((e, r), d)" by (metis surj_pair)
  show "extends h h' {} \<and> sane x"
  proof (cases e)
    case None
    have wf': "wfHeap (h\<lparr>lib := d\<rparr>)" using wf by (simp add: wfHeap_def)
    have "k r (h\<lparr>lib := d\<rparr>) = (x, h')"
      using callErr_run [where f = f and k = k, OF wf call] run None by simp
    from noleakD [OF assms wf' this] show ?thesis by (simp add: extends_def)
  next
    case (Some s)
    with callErr_run [where f = f and k = k, OF wf call] run show ?thesis by auto
  qed
qed

end
