(* ===== verification/Cgo_Calls.thy ===== *)
theory Cgo_Calls
  imports Cgo
begin

text \<open>
  What the binding promises its users of a call into the C library: the call is made once, with the
  strings that C reads up to their first zero byte; its error message comes back as a Go error and
  its result as the result; and the C heap is left as it was. \<open>calls\<close> states this for a whole
  operation, \<open>yields\<close> for a fragment that makes no call, \<open>fetches\<close> for an operation that hands a
  block of the C heap to its caller as a slice.
\<close>

section \<open>Results on the C heap\<close>

type_synonym ('d, 'r) ccall = "'d \<Rightarrow> (string option \<times> 'r) \<times> 'd"

text \<open>slice.go again, with the pointer that \<^verbatim>\<open>Free\<close> releases.\<close>

record CSlice =
  cs_data :: nat
  cs_size :: nat
  cs_freed :: bool

definition NewCSlice :: "nat \<Rightarrow> nat \<Rightarrow> CSlice" where
  "NewCSlice p n = \<lparr>cs_data = p, cs_size = n, cs_freed = False\<rparr>"

definition csData :: "'d cworld \<Rightarrow> CSlice \<Rightarrow> bytes" where
  "csData h s = charToByte (mem h (cs_data s)) (cs_size s)"

definition csFree :: "CSlice \<Rightarrow> ('d, CSlice) cop" where
  "csFree s = (if \<not> cs_freed s then andThen (cfree (cs_data s)) (\<lambda>_. ret (s\<lparr>cs_freed := True\<rparr>)) else ret s)"

fun csDestroy :: "CSlice list \<Rightarrow> ('d, CSlice list) cop" where
  "csDestroy [] = ret []"
| "csDestroy (s # ss) = andThen (csFree s) (\<lambda>s'. andThen (csDestroy ss) (\<lambda>ss'. ret (s' # ss')))"

text \<open>
  A value that the library returns: a block of its size, or nil with size 0. When the library
  reports an error it returns no value.
\<close>

definition allocValue :: "bytes option \<Rightarrow> ('d, CSlice) cop" where
  "allocValue v = (case v of None \<Rightarrow> ret (NewCSlice 0 0)
     | Some b \<Rightarrow> andThen (malloc b) (\<lambda>p. ret (NewCSlice p (length b))))"

section \<open>Contracts\<close>

definition goError :: "string \<Rightarrow> error" where
  "goError s = ErrorString (cstr s)"

definition yields :: "('d, 'a) cop \<Rightarrow> 'a \<Rightarrow> bool" where
  "yields m a \<longleftrightarrow> (\<forall>h. wfHeap h \<longrightarrow> (\<exists>h'. m h = (Ok a, h') \<and> extends h h' {} \<and> lib h' = lib h))"

definition calls :: "('d, 'a) cop \<Rightarrow> ('d, 'r) ccall \<Rightarrow> ('r \<Rightarrow> 'a) \<Rightarrow> bool" where
  "calls m f g \<longleftrightarrow> (\<forall>h. wfHeap h \<longrightarrow> (case f (lib h) of ((e, r), d) \<Rightarrow>
     \<exists>h'. m h = (case e of None \<Rightarrow> Ok (g r) | Some s \<Rightarrow> Err (goError s), h') \<and> extends h h' {} \<and> lib h' = d))"

definition fetches :: "('d, CSlice) cop \<Rightarrow> ('d, bytes option) ccall \<Rightarrow> bool" where
  "fetches m f \<longleftrightarrow> (\<forall>h. wfHeap h \<longrightarrow> (case f (lib h) of ((e, v), d) \<Rightarrow>
     \<exists>h'. lib h' = d \<and> (case (e, v) of
         (Some s, _) \<Rightarrow> m h = (Err (goError s), h') \<and> extends h h' {}
       | (None, None) \<Rightarrow> m h = (Ok (NewCSlice 0 0), h') \<and> extends h h' {}
       | (None, Some b) \<Rightarrow> \<exists>p. m h = (Ok (NewCSlice p (length b)), h') \<and> extends h h' {p} \<and> mem h' p = Some b)))"

named_theorems calls_intros \<open>rules that build up the contract of an operation along its code\<close>

lemma cstr_NUL [simp]: "cstr (s @ [NUL]) = cstr s"
  by (induction s) (simp_all add: cstr_def)

lemma callsI:
  assumes "\<And>h e r d. wfHeap h \<Longrightarrow> f (lib h) = ((e, r), d) \<Longrightarrow>
    \<exists>h'. m h = (case e of None \<Rightarrow> Ok (g r) | Some s \<Rightarrow> Err (goError s), h') \<and> extends h h' {} \<and> lib h' = d"
  shows "calls m f g"
  unfolding calls_def
proof (intro allI impI)
  fix h :: "'a cworld" assume wf: "wfHeap h"
  obtain e r d where call: "f (lib h) = ((e, r), d)" by (metis surj_pair)
  show "case f (lib h) of ((e, r), d) \<Rightarrow> \<exists>h'. m h = (case e of None \<Rightarrow> Ok (g r) | Some s \<Rightarrow> Err (goError s), h')
      \<and> extends h h' {} \<and> lib h' = d"
    using assms [OF wf call] by (simp add: call)
qed

lemma callsD:
  assumes "calls m f g" and "wfHeap h" and "f (lib h) = ((e, r), d)"
  obtains h' where "m h = (case e of None \<Rightarrow> Ok (g r) | Some s \<Rightarrow> Err (goError s), h')" "extends h h' {}" "lib h' = d"
  using assms unfolding calls_def by fastforce

lemma yieldsD:
  assumes "yields m a" and "wfHeap h"
  obtains h' where "m h = (Ok a, h')" "extends h h' {}" "lib h' = lib h"
  using assms unfolding yields_def by blast

lemma extends_lib [simp]: "extends (h\<lparr>lib := d\<rparr>) h' ps = extends h h' ps"
  by (simp add: extends_def)

lemma wfHeap_lib [simp]: "wfHeap (h\<lparr>lib := d\<rparr>) = wfHeap h"
  by (simp add: wfHeap_def)

lemma yields_ret [calls_intros]: "yields (ret a) a"
  by (auto simp: yields_def ret_apply extends_refl)

lemma calls_callErr_at:
  assumes "\<And>e r d d'. f d = ((e, r), d') \<Longrightarrow> yields (k r) (g r)"
  shows "calls (callErr f (\<lambda>cErr r. checkErr cErr (k r))) f g"
proof (rule callsI)
  fix h e r d assume wf: "wfHeap h" and call: "f (lib h) = ((e, r), d)"
  obtain h' where h': "k r (h\<lparr>lib := d\<rparr>) = (Ok (g r), h')" "extends h h' {}" "lib h' = d"
    by (rule yieldsD [OF assms [OF call], of "h\<lparr>lib := d\<rparr>"]) (use wf in auto)
  show "\<exists>h'. callErr f (\<lambda>cErr r. checkErr cErr (k r)) h
      = (case e of None \<Rightarrow> Ok (g r) | Some s \<Rightarrow> Err (goError s), h') \<and> extends h h' {} \<and> lib h' = d"
    using callErr_run [where f = f and k = k, OF wf call] h' by (cases e) (auto simp: goError_def)
qed

lemma calls_callErr [calls_intros]:
  assumes "\<And>r. yields (k r) (g r)"
  shows "calls (callErr f (\<lambda>cErr r. checkErr cErr (k r))) f g"
  by (rule calls_callErr_at) (rule assms)

lemma readCs_run:
  assumes "length ps = length bs" and "\<forall>i < length bs. mem h (ps ! i) = Some (bs ! i)"
  shows "readCs ps k h = k (map cstr bs) h"
  using assms
proof (induction ps arbitrary: bs k)
  case (Cons p ps)
  then obtain b bs' where bs: "bs = b # bs'" by (cases bs) auto
  have "mem h p = Some b" using Cons.prems(2) bs by auto
  moreover have "readCs ps (\<lambda>ss. k (cstr b # ss)) h = k (cstr b # map cstr bs') h"
    using Cons.prems bs by (intro Cons.IH) auto
  ultimately show ?case by (simp add: readC_def GoString_def andThen_apply bs)
qed simp

text \<open>Strings that are passed for the time of the call only.\<close>

lemma withCStrings_run:
  assumes wf: "wfHeap h"
    and run: "\<And>ps h1. extends h h1 (set ps) \<Longrightarrow> length ps = length ss \<Longrightarrow> lib h1 = lib h
      \<Longrightarrow> \<forall>i < length ss. mem h1 (ps ! i) = Some (ss ! i @ [NUL])
      \<Longrightarrow> \<exists>h2. f ps h1 = (r, h2) \<and> extends h1 h2 qs \<and> lib h2 = d"
    and r: "sane r"
  shows "\<exists>h'. withCStrings ss f h = (r, h') \<and> extends h h' qs \<and> lib h' = d"
proof -
  let ?bs = "map (\<lambda>s. s @ [NUL]) ss"
  obtain ps h1 where h1: "mallocAll ?bs h = (Ok ps, h1)" "extends h h1 (set ps)" "distinct ps" "length ps = length ss"
    "\<forall>i < length ss. mem h1 (ps ! i) = Some (ss ! i @ [NUL])" "lib h1 = lib h"
    using mallocAll_run [OF wf, of ?bs] by auto
  obtain h2 where h2: "f ps h1 = (r, h2)" "extends h1 h2 qs" "lib h2 = d" using run h1 by blast
  have "set ps \<inter> qs = {}"
  proof (rule ccontr)
    assume "set ps \<inter> qs \<noteq> {}"
    then obtain p where p: "p \<in> set ps" "p \<in> qs" by blast
    then have "brk h1 \<le> p" "mem h1 p \<noteq> None" using h1(2) h2(2) by (auto simp: extends_def)
    then show False using extends_wf [OF h1(2)] by (simp add: wfHeap_def)
  qed
  then obtain h3 where h3: "charsDestroy ps h2 = (Ok (), h3)" "extends h h3 qs" "lib h3 = lib h2"
    using charsDestroy_run [OF wf extends_trans [OF h1(2) h2(2)] h1(3)] by auto
  have "withCStrings ss f h = (r, h3)"
    using h1(1) withDefer_run [where m = "f ps" and d = "charsDestroy ps", OF h2(1) r h3(1)]
    by (simp add: withCStrings_def andThen_apply)
  with h3 h2 show ?thesis by auto
qed

lemma calls_withCStrings [calls_intros]:
  assumes "calls (k (map cstr ss)) f g"
  shows "calls (withCStrings ss (\<lambda>ps. readCs ps k)) f g"
proof (rule callsI)
  fix h e r d assume wf: "wfHeap h" and call: "f (lib h) = ((e, r), d)"
  show "\<exists>h'. withCStrings ss (\<lambda>ps. readCs ps k) h
      = (case e of None \<Rightarrow> Ok (g r) | Some s \<Rightarrow> Err (goError s), h') \<and> extends h h' {} \<and> lib h' = d"
  proof (rule withCStrings_run [OF wf])
    fix ps h1 assume h1: "extends h h1 (set ps)" "length ps = length ss" "lib h1 = lib h"
      "\<forall>i < length ss. mem h1 (ps ! i) = Some (ss ! i @ [NUL])"
    have "readCs ps k h1 = k (map cstr ss) h1"
      using readCs_run [of ps "map (\<lambda>s. s @ [NUL]) ss" h1 k] h1 by (simp add: comp_def)
    then show "\<exists>h2. readCs ps k h1 = (case e of None \<Rightarrow> Ok (g r) | Some s \<Rightarrow> Err (goError s), h2) \<and> extends h1 h2 {} \<and> lib h2 = d"
      using callsD [OF assms extends_wf [OF h1(1)], of e r d] call h1(3) by metis
  qed (cases e; simp)
qed

text \<open>One string is the list of one.\<close>

lemma withDefer_one: "withDefer m (charsDestroy [p]) h = withDefer m (cfree p) h"
  by (cases "fst (m h)"; cases "m h") (auto simp: withDefer_def andThen_apply ret_apply cfree_def split: option.splits)

lemma withCString_as_list: "withCString s F h = withCStrings [s] (\<lambda>ps. F (hd ps)) h"
proof -
  obtain h1 where "malloc (s @ [NUL]) h = (Ok (brk h), h1)" by (simp add: malloc_def)
  then show ?thesis
    by (simp add: withCString_def withCStrings_def CString_def andThen_apply ret_apply withDefer_one
        del: charsDestroy.simps)
qed

lemma calls_withCString [calls_intros]:
  assumes "calls (k (cstr s)) f g"
  shows "calls (withCString s (\<lambda>p. readC p k)) f g"
proof -
  have "calls (withCStrings [s] (\<lambda>ps. readCs ps (\<lambda>ss. k (hd ss)))) f g"
    by (rule calls_withCStrings) (simp add: assms)
  moreover have "withCString s (\<lambda>p. readC p k) h = withCStrings [s] (\<lambda>ps. readCs ps (\<lambda>ss. k (hd ss))) h" for h
    by (auto simp: withCString_as_list withCStrings_def andThen_apply ret_apply malloc_def)
  ultimately show ?thesis by (simp add: calls_def)
qed

lemma calls_firstElem [calls_intros]:
  assumes "ss \<noteq> []" and "calls (withCStrings ss F) f g"
  shows "calls (withCStrings ss (\<lambda>ps. firstElem ps (F ps))) f g"
proof -
  have "withCStrings ss (\<lambda>ps. firstElem ps (F ps)) h = withCStrings ss F h" if "wfHeap h" for h
    using mallocAll_run [OF that, of "map (\<lambda>s. s @ [NUL]) ss"] assms(1)
    by (auto simp: withCStrings_def andThen_apply firstElem_def withDefer_def)
  with assms(2) show ?thesis by (simp add: calls_def)
qed

text \<open>A contract implies that nothing is leaked.\<close>

lemma calls_noleak: "calls m f g \<Longrightarrow> noleak m"
proof (rule noleakI)
  fix h r h' assume m: "calls m f g" and wf: "wfHeap h" and run: "m h = (r, h')"
  obtain e x d where call: "f (lib h) = ((e, x), d)" by (metis surj_pair)
  show "extends h h' {} \<and> sane r"
    by (rule callsD [OF m wf call]) (use run in \<open>auto split: option.splits\<close>)
qed

section \<open>Values handed over\<close>

lemma fetches_callErr [calls_intros]:
  "fetches (callErr f (\<lambda>cErr v. checkErr cErr (allocValue v))) f"
  unfolding fetches_def
proof (intro allI impI)
  fix h :: "'a cworld" assume wf: "wfHeap h"
  obtain e v d where call: "f (lib h) = ((e, v), d)" by (metis surj_pair)
  let ?m = "callErr f (\<lambda>cErr v. checkErr cErr (allocValue v))"
  let ?h = "h\<lparr>lib := d\<rparr>"
  note run = callErr_run [where f = f and k = allocValue, OF wf call]
  show "case f (lib h) of ((e, v), d) \<Rightarrow> \<exists>h'. lib h' = d \<and> (case (e, v) of
         (Some s, _) \<Rightarrow> ?m h = (Err (goError s), h') \<and> extends h h' {}
       | (None, None) \<Rightarrow> ?m h = (Ok (NewCSlice 0 0), h') \<and> extends h h' {}
       | (None, Some b) \<Rightarrow> \<exists>p. ?m h = (Ok (NewCSlice p (length b)), h') \<and> extends h h' {p} \<and> mem h' p = Some b)"
  proof (cases e)
    case (Some s)
    with run show ?thesis by (auto simp: call goError_def)
  next
    case None
    with run have m: "?m h = allocValue v ?h" by simp
    show ?thesis
    proof (cases v)
      case N: None
      with m None show ?thesis
        using extends_refl [OF wf] wf by (auto simp: call allocValue_def ret_apply extends_def)
    next
      case (Some b)
      obtain h1 where "malloc b ?h = (Ok (brk h), h1)" "extends h h1 {brk h}" "mem h1 (brk h) = Some b" "lib h1 = d"
        using malloc_run [of ?h b] wf by auto
      with m None Some show ?thesis
        by (auto simp: call allocValue_def andThen_apply ret_apply)
    qed
  qed
qed

text \<open>The blocks that a list of slices owns; \<^verbatim>\<open>Destroy\<close> gives them back, and once more does nothing.\<close>

definition owned :: "CSlice list \<Rightarrow> nat list" where
  "owned ss = filter (\<lambda>p. p \<noteq> 0) (map cs_data (filter (\<lambda>s. \<not> cs_freed s) ss))"

lemma owned_simps [simp]:
  "owned [] = []"
  "owned (s # ss) = (if \<not> cs_freed s \<and> cs_data s \<noteq> 0 then cs_data s # owned ss else owned ss)"
  by (simp_all add: owned_def)

lemma csFree_run:
  assumes wf: "wfHeap h" and ext: "extends h h1 (set (owned [s]) \<union> qs)" and disj: "set (owned [s]) \<inter> qs = {}"
  shows "\<exists>h2. csFree s h1 = (Ok (s\<lparr>cs_freed := True\<rparr>), h2) \<and> extends h h2 qs \<and> lib h2 = lib h1"
proof (cases "cs_freed s")
  case True
  then show ?thesis using ext by (auto simp: csFree_def ret_apply)
next
  case fresh: False
  show ?thesis
  proof (cases "cs_data s = 0")
    case True
    then show ?thesis using fresh ext by (auto simp: csFree_def andThen_apply cfree_def ret_apply)
  next
    case False
    then obtain h2 where "cfree (cs_data s) h1 = (Ok (), h2)" "extends h h2 qs" "lib h2 = lib h1"
      using cfree_run [of h h1 "cs_data s" qs] fresh wf ext disj by auto
    then show ?thesis using fresh by (auto simp: csFree_def andThen_apply ret_apply)
  qed
qed

lemma csDestroy_run:
  assumes wf: "wfHeap h" and ext: "extends h h1 (set (owned ss) \<union> qs)" and d: "distinct (owned ss)"
    and disj: "set (owned ss) \<inter> qs = {}"
  shows "\<exists>h2. csDestroy ss h1 = (Ok (map (cs_freed_update (\<lambda>_. True)) ss), h2) \<and> extends h h2 qs \<and> lib h2 = lib h1"
  using ext d disj
proof (induction ss arbitrary: h1)
  case Nil
  then show ?case by (simp add: ret_apply)
next
  case (Cons s ss)
  have own: "set (owned (s # ss)) = set (owned [s]) \<union> set (owned ss)" by auto
  obtain h2 where h2: "csFree s h1 = (Ok (s\<lparr>cs_freed := True\<rparr>), h2)" "extends h h2 (set (owned ss) \<union> qs)" "lib h2 = lib h1"
    using csFree_run [OF wf, of h1 s "set (owned ss) \<union> qs"] Cons.prems by (auto simp: Un_assoc split: if_splits)
  obtain h3 where h3: "csDestroy ss h2 = (Ok (map (cs_freed_update (\<lambda>_. True)) ss), h3)" "extends h h3 qs" "lib h3 = lib h2"
    using Cons.IH [OF h2(2)] Cons.prems by (auto split: if_splits)
  from h2 h3 show ?case by (auto simp: andThen_apply ret_apply)
qed

end
