(* ===== verification/Db_Calls.thy ===== *)
theory Db_Calls
  imports Cgo_Calls
begin

text \<open>
  The operations of \<^verbatim>\<open>gorocksdb/db.go\<close> on the C heap: opening with column families, the column
  family variants of the data operations, properties, sizes, live files, compaction, flush, ingestion
  and checkpoints, and the helpers \<^verbatim>\<open>DestroyDb\<close> and \<^verbatim>\<open>RepairDb\<close>. Each takes the C function that
  it calls as its first argument: what that function does to the library's state, the error
  message it reports and its result.
\<close>

section \<open>Opening\<close>

definition OpenDbForReadOnly ::
  "(c_options option \<Rightarrow> string \<Rightarrow> nat \<Rightarrow> ('d, nat) ccall) \<Rightarrow> Options \<Rightarrow> string \<Rightarrow> bool \<Rightarrow> ('d, DB) cop" where
  "OpenDbForReadOnly rocksdb_open_for_read_only opts name errorIfLogFileExist =
     withCString name (\<lambda>cName. readC cName (\<lambda>n.
       callErr (rocksdb_open_for_read_only (Options_c opts) n (boolToChar errorIfLogFileExist)) (\<lambda>cErr db.
         checkErr cErr (ret \<lparr>DB_c = db, DB_name = name, DB_opts = opts\<rparr>))))"

text \<open>
  The library fills one handle for each column family: its result is the handle of the database
  and the handle at each index.
\<close>

definition cfHandles :: "nat \<Rightarrow> (nat \<Rightarrow> nat) \<Rightarrow> ColumnFamilyHandle list" where
  "cfHandles n cHandles = map (\<lambda>i. NewNativeColumnFamilyHandle (cHandles i)) [0..<n]"

definition OpenDbColumnFamilies ::
  "(c_options option \<Rightarrow> string \<Rightarrow> string list \<Rightarrow> c_options option list \<Rightarrow> ('d, nat \<times> (nat \<Rightarrow> nat)) ccall)
    \<Rightarrow> Options \<Rightarrow> string \<Rightarrow> string list \<Rightarrow> Options list \<Rightarrow> ('d, DB \<times> ColumnFamilyHandle list) cop" where
  "OpenDbColumnFamilies rocksdb_open_column_families opts name cfNames cfOpts =
     (let numColumnFamilies = length cfNames in
      if numColumnFamilies \<noteq> length cfOpts
      then err (ErrorString ''must provide the same number of column family names and options'')
      else withCString name (\<lambda>cName. readC cName (\<lambda>n.
        withCStrings cfNames (\<lambda>cNames. firstElem cNames (readCs cNames (\<lambda>ns.
          callErr (rocksdb_open_column_families (Options_c opts) n ns (map Options_c cfOpts)) (\<lambda>cErr r.
            checkErr cErr (ret (\<lparr>DB_c = fst r, DB_name = name, DB_opts = opts\<rparr>,
              cfHandles numColumnFamilies (snd r))))))))))"

definition OpenDbForReadOnlyColumnFamilies ::
  "(c_options option \<Rightarrow> string \<Rightarrow> string list \<Rightarrow> c_options option list \<Rightarrow> nat \<Rightarrow> ('d, nat \<times> (nat \<Rightarrow> nat)) ccall)
    \<Rightarrow> Options \<Rightarrow> string \<Rightarrow> string list \<Rightarrow> Options list \<Rightarrow> bool \<Rightarrow> ('d, DB \<times> ColumnFamilyHandle list) cop" where
  "OpenDbForReadOnlyColumnFamilies rocksdb_open_for_read_only_column_families opts name cfNames cfOpts errorIfLogFileExist =
     (let numColumnFamilies = length cfNames in
      if numColumnFamilies \<noteq> length cfOpts
      then err (ErrorString ''must provide the same number of column family names and options'')
      else withCString name (\<lambda>cName. readC cName (\<lambda>n.
        withCStrings cfNames (\<lambda>cNames. firstElem cNames (readCs cNames (\<lambda>ns.
          callErr (rocksdb_open_for_read_only_column_families (Options_c opts) n ns (map Options_c cfOpts)
              (boolToChar errorIfLogFileExist)) (\<lambda>cErr r.
            checkErr cErr (ret (\<lparr>DB_c = fst r, DB_name = name, DB_opts = opts\<rparr>,
              cfHandles numColumnFamilies (snd r))))))))))"

text \<open>
  The library allocates the array of names and the names; \<^verbatim>\<open>rocksdb_list_column_families_destroy\<close>
  frees them. The array is read through a slice of an array of \<^verbatim>\<open>1 << 30\<close> pointers.
\<close>

definition ListColumnFamilies ::
  "(c_options option \<Rightarrow> string \<Rightarrow> ('d, string list) ccall) \<Rightarrow> Options \<Rightarrow> string \<Rightarrow> ('d, string list) cop" where
  "ListColumnFamilies rocksdb_list_column_families opts name =
     withCString name (\<lambda>cName. readC cName (\<lambda>n.
       callErr (rocksdb_list_column_families (Options_c opts) n) (\<lambda>cErr names. checkErr cErr
         (andThen (mallocAll ([] # map (\<lambda>s. s @ [NUL]) names)) (\<lambda>cNames.
            if length names > 2 ^ 30 then gopanic ''slice bounds out of range''
            else readCs (tl cNames) (\<lambda>ns. andThen (charsDestroy cNames) (\<lambda>_. ret ns)))))))"

section \<open>Data operations on a column family\<close>

definition GetCF ::
  "(nat \<Rightarrow> 'n c_readoptions option \<Rightarrow> nat \<Rightarrow> bytes \<Rightarrow> ('d, bytes option) ccall)
    \<Rightarrow> DB \<Rightarrow> 'n ReadOptions \<Rightarrow> ColumnFamilyHandle \<Rightarrow> bytes \<Rightarrow> ('d, CSlice) cop" where
  "GetCF rocksdb_get_cf db opts cf key =
     callErr (rocksdb_get_cf (DB_c db) (ReadOptions_c opts) (cf_c cf) key) (\<lambda>cErr cValue. checkErr cErr (allocValue cValue))"

definition PutCF ::
  "(nat \<Rightarrow> c_writeoptions option \<Rightarrow> nat \<Rightarrow> bytes \<Rightarrow> bytes \<Rightarrow> ('d, unit) ccall)
    \<Rightarrow> DB \<Rightarrow> WriteOptions \<Rightarrow> ColumnFamilyHandle \<Rightarrow> bytes \<Rightarrow> bytes \<Rightarrow> ('d, unit) cop" where
  "PutCF rocksdb_put_cf db opts cf key value =
     callErr (rocksdb_put_cf (DB_c db) (WriteOptions_c opts) (cf_c cf) key value) (\<lambda>cErr _. checkErr cErr (ret ()))"

definition DeleteCF ::
  "(nat \<Rightarrow> c_writeoptions option \<Rightarrow> nat \<Rightarrow> bytes \<Rightarrow> ('d, unit) ccall)
    \<Rightarrow> DB \<Rightarrow> WriteOptions \<Rightarrow> ColumnFamilyHandle \<Rightarrow> bytes \<Rightarrow> ('d, unit) cop" where
  "DeleteCF rocksdb_delete_cf db opts cf key =
     callErr (rocksdb_delete_cf (DB_c db) (WriteOptions_c opts) (cf_c cf) key) (\<lambda>cErr _. checkErr cErr (ret ()))"

definition MergeCF ::
  "(nat \<Rightarrow> c_writeoptions option \<Rightarrow> nat \<Rightarrow> bytes \<Rightarrow> bytes \<Rightarrow> ('d, unit) ccall)
    \<Rightarrow> DB \<Rightarrow> WriteOptions \<Rightarrow> ColumnFamilyHandle \<Rightarrow> bytes \<Rightarrow> bytes \<Rightarrow> ('d, unit) cop" where
  "MergeCF rocksdb_merge_cf db opts cf key value =
     callErr (rocksdb_merge_cf (DB_c db) (WriteOptions_c opts) (cf_c cf) key value) (\<lambda>cErr _. checkErr cErr (ret ()))"

section \<open>Properties and column families\<close>

text \<open>The value of a property is a C string, nil for an unknown property.\<close>

definition propertyValue :: "('d \<Rightarrow> string option \<times> 'd) \<Rightarrow> ('d, string) cop" where
  "propertyValue f = andThen (libCallC f) (\<lambda>v. andThen (allocErr v) (\<lambda>cValue.
     withDefer (GoString cValue) (cfree cValue)))"

definition GetProperty ::
  "(nat \<Rightarrow> string \<Rightarrow> 'd \<Rightarrow> string option \<times> 'd) \<Rightarrow> DB \<Rightarrow> string \<Rightarrow> ('d, string) cop" where
  "GetProperty rocksdb_property_value db propName =
     withCString propName (\<lambda>cprop. readC cprop (\<lambda>p. propertyValue (rocksdb_property_value (DB_c db) p)))"

definition GetPropertyCF ::
  "(nat \<Rightarrow> nat \<Rightarrow> string \<Rightarrow> 'd \<Rightarrow> string option \<times> 'd) \<Rightarrow> DB \<Rightarrow> string \<Rightarrow> ColumnFamilyHandle \<Rightarrow> ('d, string) cop" where
  "GetPropertyCF rocksdb_property_value_cf db propName cf =
     withCString propName (\<lambda>cProp. readC cProp (\<lambda>p. propertyValue (rocksdb_property_value_cf (DB_c db) (cf_c cf) p)))"

definition CreateColumnFamily ::
  "(nat \<Rightarrow> c_options option \<Rightarrow> string \<Rightarrow> ('d, nat) ccall) \<Rightarrow> DB \<Rightarrow> Options \<Rightarrow> string \<Rightarrow> ('d, ColumnFamilyHandle) cop" where
  "CreateColumnFamily rocksdb_create_column_family db opts name =
     withCString name (\<lambda>cName. readC cName (\<lambda>n.
       callErr (rocksdb_create_column_family (DB_c db) (Options_c opts) n) (\<lambda>cErr cHandle.
         checkErr cErr (ret (NewNativeColumnFamilyHandle cHandle)))))"

definition DropColumnFamily ::
  "(nat \<Rightarrow> nat \<Rightarrow> ('d, unit) ccall) \<Rightarrow> DB \<Rightarrow> ColumnFamilyHandle \<Rightarrow> ('d, unit) cop" where
  "DropColumnFamily rocksdb_drop_column_family db c =
     callErr (rocksdb_drop_column_family (DB_c db) (cf_c c)) (\<lambda>cErr _. checkErr cErr (ret ()))"

section \<open>Ranges\<close>

record Range =
  Start :: bytes
  Limit :: bytes

text \<open>The library writes one size for each range; the bounds are passed as pointer and length.\<close>

definition GetApproximateSizes ::
  "(nat \<Rightarrow> bytes option list \<Rightarrow> nat list \<Rightarrow> bytes option list \<Rightarrow> nat list \<Rightarrow> 'd \<Rightarrow> (nat \<Rightarrow> uint64) \<times> 'd)
    \<Rightarrow> DB \<Rightarrow> Range list \<Rightarrow> ('d, uint64 list) cop" where
  "GetApproximateSizes rocksdb_approximate_sizes db ranges =
     (if length ranges = 0 then ret []
      else andThen (libCallC (rocksdb_approximate_sizes (DB_c db)
             (map (\<lambda>r. byteToChar (Start r)) ranges) (map (\<lambda>r. length (Start r)) ranges)
             (map (\<lambda>r. byteToChar (Limit r)) ranges) (map (\<lambda>r. length (Limit r)) ranges)))
           (\<lambda>sizes. ret (map sizes [0..<length ranges])))"

definition GetApproximateSizesCF ::
  "(nat \<Rightarrow> nat \<Rightarrow> bytes option list \<Rightarrow> nat list \<Rightarrow> bytes option list \<Rightarrow> nat list \<Rightarrow> 'd \<Rightarrow> (nat \<Rightarrow> uint64) \<times> 'd)
    \<Rightarrow> DB \<Rightarrow> ColumnFamilyHandle \<Rightarrow> Range list \<Rightarrow> ('d, uint64 list) cop" where
  "GetApproximateSizesCF rocksdb_approximate_sizes_cf db cf ranges =
     (if length ranges = 0 then ret []
      else andThen (libCallC (rocksdb_approximate_sizes_cf (DB_c db) (cf_c cf)
             (map (\<lambda>r. byteToChar (Start r)) ranges) (map (\<lambda>r. length (Start r)) ranges)
             (map (\<lambda>r. byteToChar (Limit r)) ranges) (map (\<lambda>r. length (Limit r)) ranges)))
           (\<lambda>sizes. ret (map sizes [0..<length ranges])))"

definition CompactRange ::
  "(nat \<Rightarrow> bytes option \<Rightarrow> nat \<Rightarrow> bytes option \<Rightarrow> nat \<Rightarrow> 'd \<Rightarrow> unit \<times> 'd) \<Rightarrow> DB \<Rightarrow> Range \<Rightarrow> ('d, unit) cop" where
  "CompactRange rocksdb_compact_range db r =
     libCallC (rocksdb_compact_range (DB_c db) (byteToChar (Start r)) (length (Start r)) (byteToChar (Limit r)) (length (Limit r)))"

definition CompactRangeCF ::
  "(nat \<Rightarrow> nat \<Rightarrow> bytes option \<Rightarrow> nat \<Rightarrow> bytes option \<Rightarrow> nat \<Rightarrow> 'd \<Rightarrow> unit \<times> 'd)
    \<Rightarrow> DB \<Rightarrow> ColumnFamilyHandle \<Rightarrow> Range \<Rightarrow> ('d, unit) cop" where
  "CompactRangeCF rocksdb_compact_range_cf db cf r =
     libCallC (rocksdb_compact_range_cf (DB_c db) (cf_c cf) (byteToChar (Start r)) (length (Start r))
       (byteToChar (Limit r)) (length (Limit r)))"

section \<open>Live files\<close>

record LiveFileMetadata =
  lf_Name :: string
  lf_Level :: int
  lf_Size :: int
  lf_SmallestKey :: bytes
  lf_LargestKey :: bytes

text \<open>
  \<^verbatim>\<open>C.GoBytes(p, C.int(n))\<close>: the length is truncated to 32 bits, and a negative one makes the
  runtime panic.
\<close>

definition int32 :: "nat \<Rightarrow> int" where
  "int32 n = sint (word_of_nat n :: 32 word)"

definition GoBytes :: "bytes \<Rightarrow> ('d, bytes) cop" where
  "GoBytes b = (let n = int32 (length b) in
     if n < 0 then gopanic ''gobytes: length out of range'' else ret (take (nat n) b))"

text \<open>The accessors of the library's list of live files, and the state in which it keeps the list.\<close>

record 'd livefiles_c =
  c_livefiles :: "nat \<Rightarrow> 'd \<Rightarrow> nat \<times> 'd"
  c_livefiles_count :: "nat \<Rightarrow> 'd \<Rightarrow> int"
  c_livefiles_name :: "nat \<Rightarrow> int \<Rightarrow> 'd \<Rightarrow> string"
  c_livefiles_level :: "nat \<Rightarrow> int \<Rightarrow> 'd \<Rightarrow> int"
  c_livefiles_size :: "nat \<Rightarrow> int \<Rightarrow> 'd \<Rightarrow> uint64"
  c_livefiles_smallestkey :: "nat \<Rightarrow> int \<Rightarrow> 'd \<Rightarrow> bytes"
  c_livefiles_largestkey :: "nat \<Rightarrow> int \<Rightarrow> 'd \<Rightarrow> bytes"
  c_livefiles_destroy :: "nat \<Rightarrow> 'd \<Rightarrow> unit \<times> 'd"

definition askC :: "('d \<Rightarrow> 'r) \<Rightarrow> ('d, 'r) cop" where
  "askC f = libCallC (\<lambda>d. (f d, d))"

definition liveFile :: "'d livefiles_c \<Rightarrow> nat \<Rightarrow> int \<Rightarrow> ('d, LiveFileMetadata) cop" where
  "liveFile L lf i =
     andThen (askC (c_livefiles_name L lf i)) (\<lambda>name.
     andThen (askC (c_livefiles_level L lf i)) (\<lambda>level.
     andThen (askC (c_livefiles_size L lf i)) (\<lambda>size.
     andThen (askC (c_livefiles_smallestkey L lf i)) (\<lambda>k1. andThen (GoBytes k1) (\<lambda>smallest.
     andThen (askC (c_livefiles_largestkey L lf i)) (\<lambda>k2. andThen (GoBytes k2) (\<lambda>largest.
     ret \<lparr>lf_Name = cstr name, lf_Level = level, lf_Size = sint size,
       lf_SmallestKey = smallest, lf_LargestKey = largest\<rparr>)))))))"

fun liveFilesLoop :: "'d livefiles_c \<Rightarrow> nat \<Rightarrow> int list \<Rightarrow> ('d, LiveFileMetadata list) cop" where
  "liveFilesLoop L lf [] = ret []"
| "liveFilesLoop L lf (i # is) =
     andThen (liveFile L lf i) (\<lambda>f. andThen (liveFilesLoop L lf is) (\<lambda>fs. ret (f # fs)))"

definition GetLiveFilesMetaData :: "'d livefiles_c \<Rightarrow> DB \<Rightarrow> ('d, LiveFileMetadata list) cop" where
  "GetLiveFilesMetaData L db =
     andThen (libCallC (c_livefiles L (DB_c db))) (\<lambda>lf.
       withDefer
         (andThen (askC (c_livefiles_count L lf)) (\<lambda>count.
            if count < 0 then gopanic ''makeslice: len out of range''
            else liveFilesLoop L lf (map int [0..<nat count])))
         (libCallC (c_livefiles_destroy L lf)))"

section \<open>Flush, file deletions and ingestion\<close>

text \<open>options_flush.go and options_ingest.go; the \<^verbatim>\<open>create\<close> functions of the library give the defaults.\<close>

record c_flushoptions =
  fo_wait :: bool

record FlushOptions =
  FlushOptions_c :: "c_flushoptions option"

definition NewNativeFlushOptions :: "c_flushoptions \<Rightarrow> FlushOptions" where
  "NewNativeFlushOptions c = \<lparr>FlushOptions_c = Some c\<rparr>"

definition NewDefaultFlushOptions :: "c_flushoptions \<Rightarrow> FlushOptions" where
  "NewDefaultFlushOptions rocksdb_flushoptions_create = NewNativeFlushOptions rocksdb_flushoptions_create"

definition SetWait :: "FlushOptions \<Rightarrow> bool \<Rightarrow> FlushOptions" where
  "SetWait opts value =
     opts\<lparr>FlushOptions_c := map_option (\<lambda>c. c\<lparr>fo_wait := (boolToChar value \<noteq> 0)\<rparr>) (FlushOptions_c opts)\<rparr>"

definition FlushOptionsDestroy :: "FlushOptions \<Rightarrow> FlushOptions" where
  "FlushOptionsDestroy opts = opts\<lparr>FlushOptions_c := None\<rparr>"

record c_ingestoptions =
  ig_move_files :: bool
  ig_snapshot_consistency :: bool
  ig_allow_global_seqno :: bool
  ig_allow_blocking_flush :: bool
  ig_ingest_behind :: bool

record IngestExternalFileOptions =
  IngestExternalFileOptions_c :: "c_ingestoptions option"

definition NewNativeIngestExternalFileOptions :: "c_ingestoptions \<Rightarrow> IngestExternalFileOptions" where
  "NewNativeIngestExternalFileOptions c = \<lparr>IngestExternalFileOptions_c = Some c\<rparr>"

definition NewDefaultIngestExternalFileOptions :: "c_ingestoptions \<Rightarrow> IngestExternalFileOptions" where
  "NewDefaultIngestExternalFileOptions rocksdb_ingestexternalfileoptions_create =
     NewNativeIngestExternalFileOptions rocksdb_ingestexternalfileoptions_create"

definition onIngest :: "(c_ingestoptions \<Rightarrow> c_ingestoptions) \<Rightarrow> IngestExternalFileOptions \<Rightarrow> IngestExternalFileOptions" where
  "onIngest f opts = opts\<lparr>IngestExternalFileOptions_c := map_option f (IngestExternalFileOptions_c opts)\<rparr>"

definition SetMoveFiles :: "IngestExternalFileOptions \<Rightarrow> bool \<Rightarrow> IngestExternalFileOptions" where
  "SetMoveFiles opts flag = onIngest (\<lambda>c. c\<lparr>ig_move_files := (boolToChar flag \<noteq> 0)\<rparr>) opts"

definition SetSnapshotConsistency :: "IngestExternalFileOptions \<Rightarrow> bool \<Rightarrow> IngestExternalFileOptions" where
  "SetSnapshotConsistency opts flag = onIngest (\<lambda>c. c\<lparr>ig_snapshot_consistency := (boolToChar flag \<noteq> 0)\<rparr>) opts"

definition SetAllowGlobalSeqNo :: "IngestExternalFileOptions \<Rightarrow> bool \<Rightarrow> IngestExternalFileOptions" where
  "SetAllowGlobalSeqNo opts flag = onIngest (\<lambda>c. c\<lparr>ig_allow_global_seqno := (boolToChar flag \<noteq> 0)\<rparr>) opts"

definition SetAllowBlockingFlush :: "IngestExternalFileOptions \<Rightarrow> bool \<Rightarrow> IngestExternalFileOptions" where
  "SetAllowBlockingFlush opts flag = onIngest (\<lambda>c. c\<lparr>ig_allow_blocking_flush := (boolToChar flag \<noteq> 0)\<rparr>) opts"

definition SetIngestionBehind :: "IngestExternalFileOptions \<Rightarrow> bool \<Rightarrow> IngestExternalFileOptions" where
  "SetIngestionBehind opts flag = onIngest (\<lambda>c. c\<lparr>ig_ingest_behind := (boolToChar flag \<noteq> 0)\<rparr>) opts"

definition IngestExternalFileOptionsDestroy :: "IngestExternalFileOptions \<Rightarrow> IngestExternalFileOptions" where
  "IngestExternalFileOptionsDestroy opts = opts\<lparr>IngestExternalFileOptions_c := None\<rparr>"

definition Flush ::
  "(nat \<Rightarrow> c_flushoptions option \<Rightarrow> ('d, unit) ccall) \<Rightarrow> DB \<Rightarrow> FlushOptions \<Rightarrow> ('d, unit) cop" where
  "Flush rocksdb_flush db opts =
     callErr (rocksdb_flush (DB_c db) (FlushOptions_c opts)) (\<lambda>cErr _. checkErr cErr (ret ()))"

definition DisableFileDeletions :: "(nat \<Rightarrow> ('d, unit) ccall) \<Rightarrow> DB \<Rightarrow> ('d, unit) cop" where
  "DisableFileDeletions rocksdb_disable_file_deletions db =
     callErr (rocksdb_disable_file_deletions (DB_c db)) (\<lambda>cErr _. checkErr cErr (ret ()))"

definition EnableFileDeletions :: "(nat \<Rightarrow> nat \<Rightarrow> ('d, unit) ccall) \<Rightarrow> DB \<Rightarrow> bool \<Rightarrow> ('d, unit) cop" where
  "EnableFileDeletions rocksdb_enable_file_deletions db force =
     callErr (rocksdb_enable_file_deletions (DB_c db) (boolToChar force)) (\<lambda>cErr _. checkErr cErr (ret ()))"

definition DeleteFile :: "(nat \<Rightarrow> string \<Rightarrow> 'd \<Rightarrow> unit \<times> 'd) \<Rightarrow> DB \<Rightarrow> string \<Rightarrow> ('d, unit) cop" where
  "DeleteFile rocksdb_delete_file db name =
     withCString name (\<lambda>cName. readC cName (\<lambda>n. libCallC (rocksdb_delete_file (DB_c db) n)))"

definition IngestExternalFile ::
  "(nat \<Rightarrow> string list \<Rightarrow> c_ingestoptions option \<Rightarrow> ('d, unit) ccall)
    \<Rightarrow> DB \<Rightarrow> string list \<Rightarrow> IngestExternalFileOptions \<Rightarrow> ('d, unit) cop" where
  "IngestExternalFile rocksdb_ingest_external_file db filePaths opts =
     withCStrings filePaths (\<lambda>cFilePaths. firstElem cFilePaths (readCs cFilePaths (\<lambda>ps.
       callErr (rocksdb_ingest_external_file (DB_c db) ps (IngestExternalFileOptions_c opts))
         (\<lambda>cErr _. checkErr cErr (ret ())))))"

definition IngestExternalFileCF ::
  "(nat \<Rightarrow> nat \<Rightarrow> string list \<Rightarrow> c_ingestoptions option \<Rightarrow> ('d, unit) ccall)
    \<Rightarrow> DB \<Rightarrow> ColumnFamilyHandle \<Rightarrow> string list \<Rightarrow> IngestExternalFileOptions \<Rightarrow> ('d, unit) cop" where
  "IngestExternalFileCF rocksdb_ingest_external_file_cf db handle filePaths opts =
     withCStrings filePaths (\<lambda>cFilePaths. firstElem cFilePaths (readCs cFilePaths (\<lambda>ps.
       callErr (rocksdb_ingest_external_file_cf (DB_c db) (cf_c handle) ps (IngestExternalFileOptions_c opts))
         (\<lambda>cErr _. checkErr cErr (ret ())))))"

section \<open>Checkpoints, removal and repair\<close>

record Checkpoint =
  Checkpoint_c :: "nat option"

definition NewNativeCheckpoint :: "nat \<Rightarrow> Checkpoint" where
  "NewNativeCheckpoint c = \<lparr>Checkpoint_c = Some c\<rparr>"

definition NewCheckpoint :: "(nat \<Rightarrow> ('d, nat) ccall) \<Rightarrow> DB \<Rightarrow> ('d, Checkpoint) cop" where
  "NewCheckpoint rocksdb_checkpoint_object_create db =
     callErr (rocksdb_checkpoint_object_create (DB_c db)) (\<lambda>cErr cCheckpoint.
       checkErr cErr (ret (NewNativeCheckpoint cCheckpoint)))"

definition DestroyDb :: "(c_options option \<Rightarrow> string \<Rightarrow> ('d, unit) ccall) \<Rightarrow> string \<Rightarrow> Options \<Rightarrow> ('d, unit) cop" where
  "DestroyDb rocksdb_destroy_db name opts =
     withCString name (\<lambda>cName. readC cName (\<lambda>n.
       callErr (rocksdb_destroy_db (Options_c opts) n) (\<lambda>cErr _. checkErr cErr (ret ()))))"

definition RepairDb :: "(c_options option \<Rightarrow> string \<Rightarrow> ('d, unit) ccall) \<Rightarrow> string \<Rightarrow> Options \<Rightarrow> ('d, unit) cop" where
  "RepairDb rocksdb_repair_db name opts =
     withCString name (\<lambda>cName. readC cName (\<lambda>n.
       callErr (rocksdb_repair_db (Options_c opts) n) (\<lambda>cErr _. checkErr cErr (ret ()))))"

section \<open>Contracts of the operations\<close>

text \<open>
  The operations that report errors make exactly one call of the library, with the arguments that C
  can read (names up to a zero byte), and give its result or its error message back; the C heap is
  afterwards what it was, on every branch.
\<close>

theorem db_calls_exact:
  "calls (OpenDbForReadOnly open_ro opts name e) (open_ro (Options_c opts) (cstr name) (if e then 1 else 0))
     (\<lambda>db. \<lparr>DB_c = db, DB_name = name, DB_opts = opts\<rparr>)
   \<and> calls (PutCF put_cf db wo cf k v) (put_cf (DB_c db) (WriteOptions_c wo) (cf_c cf) k v) (\<lambda>_. ())
   \<and> calls (DeleteCF delete_cf db wo cf k) (delete_cf (DB_c db) (WriteOptions_c wo) (cf_c cf) k) (\<lambda>_. ())
   \<and> calls (MergeCF merge_cf db wo cf k v) (merge_cf (DB_c db) (WriteOptions_c wo) (cf_c cf) k v) (\<lambda>_. ())
   \<and> calls (CreateColumnFamily create_cf db opts name) (create_cf (DB_c db) (Options_c opts) (cstr name)) (\<lambda>c. \<lparr>cf_c = c\<rparr>)
   \<and> calls (DropColumnFamily drop_cf db cf) (drop_cf (DB_c db) (cf_c cf)) (\<lambda>_. ())
   \<and> calls (Flush flush db fo) (flush (DB_c db) (FlushOptions_c fo)) (\<lambda>_. ())
   \<and> calls (DisableFileDeletions disable db) (disable (DB_c db)) (\<lambda>_. ())
   \<and> calls (EnableFileDeletions enable db e) (enable (DB_c db) (if e then 1 else 0)) (\<lambda>_. ())
   \<and> calls (NewCheckpoint checkpoint db) (checkpoint (DB_c db)) (\<lambda>c. \<lparr>Checkpoint_c = Some c\<rparr>)
   \<and> calls (DestroyDb destroy name opts) (destroy (Options_c opts) (cstr name)) (\<lambda>_. ())
   \<and> calls (RepairDb repair name opts) (repair (Options_c opts) (cstr name)) (\<lambda>_. ())"
  unfolding OpenDbForReadOnly_def PutCF_def DeleteCF_def MergeCF_def CreateColumnFamily_def DropColumnFamily_def Flush_def
    DisableFileDeletions_def EnableFileDeletions_def NewCheckpoint_def DestroyDb_def RepairDb_def
    NewNativeColumnFamilyHandle_def NewNativeCheckpoint_def boolToChar_def
  by (intro conjI calls_intros)

text \<open>The operations that take a list of names take the address of its first element.\<close>

definition listCall :: "string list \<Rightarrow> ('d, 'a) cop \<Rightarrow> ('d, 'r) ccall \<Rightarrow> ('r \<Rightarrow> 'a) \<Rightarrow> bool" where
  "listCall ss m f g \<longleftrightarrow> (if ss = []
     then \<forall>h. wfHeap h \<longrightarrow> (\<exists>h'. m h = (Panic ''index out of range [0] with length 0'', h') \<and> extends h h' {} \<and> lib h' = lib h)
     else calls m f g)"

lemma firstElem_empty:
  assumes "wfHeap h"
  shows "\<exists>h'. withCStrings [] (\<lambda>ps. firstElem ps (F ps)) h = (Panic ''index out of range [0] with length 0'', h')
    \<and> extends h h' {} \<and> lib h' = lib h"
  by (rule withCStrings_run [OF assms])
    (auto simp: firstElem_def gopanic_apply extends_wf intro: extends_refl)

lemma listCall_firstElem:
  assumes "calls (k (map cstr ss)) f g"
  shows "listCall ss (withCStrings ss (\<lambda>ps. firstElem ps (readCs ps k))) f g"
  using calls_firstElem [OF _ calls_withCStrings [where k = k, OF assms]] firstElem_empty
  by (auto simp: listCall_def)

lemma listCall_withCString:
  assumes "listCall ss (k (cstr s)) f g"
  shows "listCall ss (withCString s (\<lambda>p. readC p k)) f g"
proof (cases "ss = []")
  case True
  have "\<exists>h'. withCString s (\<lambda>p. readC p k) h = (Panic ''index out of range [0] with length 0'', h') \<and> extends h h' {} \<and> lib h' = lib h"
    if wf: "wfHeap h" for h
    unfolding withCString_as_list
  proof (rule withCStrings_run [OF wf])
    fix ps h1 assume h1: "extends h h1 (set ps)" "length ps = length [s]" "lib h1 = lib h"
      "\<forall>i < length [s]. mem h1 (ps ! i) = Some ([s] ! i @ [NUL])"
    obtain p where ps: "ps = [p]" using h1(2) by (cases ps) auto
    have "readC (hd ps) k h1 = k (cstr s) h1" using h1(4) by (simp add: ps readC_def GoString_def andThen_apply)
    then show "\<exists>h2. readC (hd ps) k h1 = (Panic ''index out of range [0] with length 0'', h2) \<and> extends h1 h2 {} \<and> lib h2 = lib h"
      using assms True extends_wf [OF h1(1)] h1(3) by (auto simp: listCall_def)
  qed simp
  with True show ?thesis by (simp add: listCall_def)
next
  case False
  with assms show ?thesis by (auto simp: listCall_def intro: calls_withCString)
qed

text \<open>
  C32. Opening with column families fails at once, without a call, when names and options differ in
  number; panics for an empty list of column families, and so does the ingestion of no files; and
  otherwise makes one call with all names, wraps the handles in the order of the names and leaves
  nothing on the C heap.
\<close>

theorem column_family_lists_exact:
  "(if length cfNames \<noteq> length cfOpts
    then OpenDbColumnFamilies open_cfs opts name cfNames cfOpts h
         = (Err (ErrorString ''must provide the same number of column family names and options''), h)
    else listCall cfNames (OpenDbColumnFamilies open_cfs opts name cfNames cfOpts)
           (open_cfs (Options_c opts) (cstr name) (map cstr cfNames) (map Options_c cfOpts))
           (\<lambda>(db, hs). (\<lparr>DB_c = db, DB_name = name, DB_opts = opts\<rparr>, map (\<lambda>i. \<lparr>cf_c = hs i\<rparr>) [0..<length cfNames])))
   \<and> (if length cfNames \<noteq> length cfOpts
    then OpenDbForReadOnlyColumnFamilies open_ro_cfs opts name cfNames cfOpts e h
         = (Err (ErrorString ''must provide the same number of column family names and options''), h)
    else listCall cfNames (OpenDbForReadOnlyColumnFamilies open_ro_cfs opts name cfNames cfOpts e)
           (open_ro_cfs (Options_c opts) (cstr name) (map cstr cfNames) (map Options_c cfOpts) (if e then 1 else 0))
           (\<lambda>(db, hs). (\<lparr>DB_c = db, DB_name = name, DB_opts = opts\<rparr>, map (\<lambda>i. \<lparr>cf_c = hs i\<rparr>) [0..<length cfNames])))
   \<and> listCall filePaths (IngestExternalFile ingest db filePaths io)
       (ingest (DB_c db) (map cstr filePaths) (IngestExternalFileOptions_c io)) (\<lambda>_. ())
   \<and> listCall filePaths (IngestExternalFileCF ingest_cf db cf filePaths io)
       (ingest_cf (DB_c db) (cf_c cf) (map cstr filePaths) (IngestExternalFileOptions_c io)) (\<lambda>_. ())"
  unfolding OpenDbColumnFamilies_def OpenDbForReadOnlyColumnFamilies_def IngestExternalFile_def IngestExternalFileCF_def
    cfHandles_def NewNativeColumnFamilyHandle_def boolToChar_def Let_def
  by (auto simp: err_apply split_def intro!: listCall_withCString listCall_firstElem calls_intros)

lemma yields_names:
  assumes "length names \<le> 2 ^ 30"
  shows "yields (andThen (mallocAll ([] # map (\<lambda>s. s @ [NUL]) names)) (\<lambda>cNames.
      if length names > 2 ^ 30 then gopanic ''slice bounds out of range''
      else readCs (tl cNames) (\<lambda>ns. andThen (charsDestroy cNames) (\<lambda>_. ret ns)))) (map cstr names)"
  unfolding yields_def
proof (intro allI impI)
  fix h :: "'a cworld" assume wf: "wfHeap h"
  let ?bs = "[] # map (\<lambda>s. s @ [NUL]) names"
  obtain ps h1 where h1: "mallocAll ?bs h = (Ok ps, h1)" "extends h h1 (set ps)" "distinct ps" "length ps = Suc (length names)"
    "\<forall>i < length ?bs. mem h1 (ps ! i) = Some (?bs ! i)" "lib h1 = lib h"
    using mallocAll_run [OF wf, of ?bs] by auto
  have at: "\<forall>i < length names. mem h1 (tl ps ! i) = Some (map (\<lambda>s. s @ [NUL]) names ! i)"
    using h1(4,5) by (auto simp: nth_tl)
  obtain h2 where h2: "charsDestroy ps h1 = (Ok (), h2)" "extends h h2 {}" "lib h2 = lib h1"
    using charsDestroy_run [OF wf _ h1(3), of h1 "{}"] h1(2) by auto
  have "readCs (tl ps) (\<lambda>ns. andThen (charsDestroy ps) (\<lambda>_. ret ns)) h1 = (Ok (map cstr names), h2)"
    using readCs_run [of "tl ps" "map (\<lambda>s. s @ [NUL]) names" h1 "\<lambda>ns. andThen (charsDestroy ps) (\<lambda>_. ret ns)"] at h1(4) h2(1)
    by (simp add: andThen_apply ret_apply comp_def)
  with assms h1 h2 show "\<exists>h'. andThen (mallocAll ?bs) (\<lambda>cNames.
      if length names > 2 ^ 30 then gopanic ''slice bounds out of range''
      else readCs (tl cNames) (\<lambda>ns. andThen (charsDestroy cNames) (\<lambda>_. ret ns))) h = (Ok (map cstr names), h')
      \<and> extends h h' {} \<and> lib h' = lib h"
    by (auto simp: andThen_apply)
qed

lemma list_column_families_exact:
  assumes "\<And>d e names d'. list (Options_c opts) (cstr name) d = ((e, names), d') \<Longrightarrow> length names \<le> 2 ^ 30"
  shows "calls (ListColumnFamilies list opts name) (list (Options_c opts) (cstr name)) (map cstr)"
  unfolding ListColumnFamilies_def
  by (intro calls_withCString calls_callErr_at yields_names) (rule assms)

text \<open>Calls of library functions that report no error.\<close>

definition pureCall :: "('d \<Rightarrow> 'r \<times> 'd) \<Rightarrow> ('d, 'r) ccall" where
  "pureCall f = (\<lambda>d. case f d of (r, d') \<Rightarrow> ((None, r), d'))"

lemma calls_libThen [calls_intros]:
  assumes "\<And>r. yields (k r) (g r)"
  shows "calls (andThen (libCallC f) k) (pureCall f) g"
proof (rule callsI)
  fix h e r d assume wf: "wfHeap h" and call: "pureCall f (lib h) = ((e, r), d)"
  then have f: "f (lib h) = (r, d)" "e = None" by (auto simp: pureCall_def split: prod.splits)
  obtain h' where h': "k r (h\<lparr>lib := d\<rparr>) = (Ok (g r), h')" "extends h h' {}" "lib h' = d"
    by (rule yieldsD [OF assms [of r], of "h\<lparr>lib := d\<rparr>"]) (use wf in auto)
  with f show "\<exists>h'. andThen (libCallC f) k h = (case e of None \<Rightarrow> Ok (g r) | Some s \<Rightarrow> Err (goError s), h')
      \<and> extends h h' {} \<and> lib h' = d"
    by (auto simp: andThen_apply libCallC_def)
qed

lemma calls_libCallC [calls_intros]: "calls (libCallC f) (pureCall f) (\<lambda>r. r)"
proof -
  have "calls (andThen (libCallC f) ret) (pureCall f) (\<lambda>r. r)" by (intro calls_intros)
  moreover have "andThen (libCallC f) ret = libCallC f"
    by (rule ext) (auto simp: andThen_apply libCallC_def ret_apply split: prod.splits)
  ultimately show ?thesis by simp
qed

lemma calls_libUnit [calls_intros]: "calls (libCallC f) (pureCall f) (\<lambda>_. ())"
  using calls_libCallC [of f] by simp

lemma yields_optString:
  "yields (andThen (allocErr v) (\<lambda>c. withDefer (GoString c) (cfree c))) (case v of None \<Rightarrow> '''' | Some s \<Rightarrow> cstr s)"
  unfolding yields_def
proof (intro allI impI)
  fix h :: "'a cworld" assume wf: "wfHeap h"
  show "\<exists>h'. andThen (allocErr v) (\<lambda>c. withDefer (GoString c) (cfree c)) h
      = (Ok (case v of None \<Rightarrow> '''' | Some s \<Rightarrow> cstr s), h') \<and> extends h h' {} \<and> lib h' = lib h"
  proof (cases v)
    case None
    have "mem h 0 = None" using wf by (simp add: wfHeap_def)
    with None show ?thesis
      using extends_refl [OF wf] by (auto simp: allocErr_def andThen_apply ret_apply withDefer_def GoString_def cfree_def)
  next
    case (Some s)
    obtain h1 where h1: "malloc (s @ [NUL]) h = (Ok (brk h), h1)" "extends h h1 {brk h}"
      "mem h1 (brk h) = Some (s @ [NUL])" "lib h1 = lib h" using malloc_run [OF wf] by blast
    obtain h2 where "cfree (brk h) h1 = (Ok (), h2)" "extends h h2 {}" "lib h2 = lib h1"
      using cfree_run [of h h1 "brk h" "{}"] wf h1(2) by auto
    with Some h1 show ?thesis
      by (auto simp: allocErr_def CString_def andThen_apply withDefer_def GoString_def)
  qed
qed

text \<open>
  The operations without an error result make their one call as well: a property is the library's
  text, empty for an unknown property; sizes come one for each range, none and no call for no
  ranges; and the C heap is left as it was.
\<close>

theorem db_queries_exact:
  "calls (GetProperty property db name) (pureCall (property (DB_c db) (cstr name)))
     (\<lambda>v. case v of None \<Rightarrow> '''' | Some s \<Rightarrow> cstr s)
   \<and> calls (GetPropertyCF property_cf db name cf) (pureCall (property_cf (DB_c db) (cf_c cf) (cstr name)))
     (\<lambda>v. case v of None \<Rightarrow> '''' | Some s \<Rightarrow> cstr s)
   \<and> (if ranges = [] then GetApproximateSizes sizes db ranges h = (Ok [], h)
      else calls (GetApproximateSizes sizes db ranges)
        (pureCall (sizes (DB_c db) (map (byteToChar \<circ> Start) ranges) (map (length \<circ> Start) ranges)
          (map (byteToChar \<circ> Limit) ranges) (map (length \<circ> Limit) ranges)))
        (\<lambda>s. map s [0..<length ranges]))
   \<and> (if ranges = [] then GetApproximateSizesCF sizes_cf db cf ranges h = (Ok [], h)
      else calls (GetApproximateSizesCF sizes_cf db cf ranges)
        (pureCall (sizes_cf (DB_c db) (cf_c cf) (map (byteToChar \<circ> Start) ranges) (map (length \<circ> Start) ranges)
          (map (byteToChar \<circ> Limit) ranges) (map (length \<circ> Limit) ranges)))
        (\<lambda>s. map s [0..<length ranges]))
   \<and> calls (CompactRange compact db r) (pureCall (compact (DB_c db) (byteToChar (Start r)) (length (Start r))
        (byteToChar (Limit r)) (length (Limit r)))) (\<lambda>_. ())
   \<and> calls (CompactRangeCF compact_cf db cf r) (pureCall (compact_cf (DB_c db) (cf_c cf) (byteToChar (Start r)) (length (Start r))
        (byteToChar (Limit r)) (length (Limit r)))) (\<lambda>_. ())
   \<and> calls (DeleteFile delete db name) (pureCall (delete (DB_c db) (cstr name))) (\<lambda>_. ())"
  unfolding GetProperty_def GetPropertyCF_def propertyValue_def GetApproximateSizes_def GetApproximateSizesCF_def
    CompactRange_def CompactRangeCF_def DeleteFile_def comp_def
  by (intro conjI) (auto simp: ret_apply intro!: calls_withCString calls_libThen yields_optString yields_ret calls_libUnit)

section \<open>Live files\<close>

lemma GoBytes_run: "length b < 2 ^ 31 \<Longrightarrow> GoBytes b h = (Ok b, h)"
proof -
  assume "length b < 2 ^ 31"
  then have "int32 (length b) = int (length b)"
    unfolding int32_def signed_of_nat by (simp add: signed_take_bit_int_eq_self)
  then show ?thesis by (simp add: GoBytes_def Let_def ret_apply)
qed

definition liveFileOf :: "'d livefiles_c \<Rightarrow> nat \<Rightarrow> 'd \<Rightarrow> int \<Rightarrow> LiveFileMetadata" where
  "liveFileOf L lf d i = \<lparr>lf_Name = cstr (c_livefiles_name L lf i d), lf_Level = c_livefiles_level L lf i d,
     lf_Size = sint (c_livefiles_size L lf i d), lf_SmallestKey = c_livefiles_smallestkey L lf i d,
     lf_LargestKey = c_livefiles_largestkey L lf i d\<rparr>"

lemma askC_run [simp]: "askC f h = (Ok (f (lib h)), h)"
  by (simp add: askC_def libCallC_def)

definition keysFit :: "'d livefiles_c \<Rightarrow> nat \<Rightarrow> 'd \<Rightarrow> int \<Rightarrow> bool" where
  "keysFit L lf d i \<longleftrightarrow> length (c_livefiles_smallestkey L lf i d) < 2 ^ 31 \<and> length (c_livefiles_largestkey L lf i d) < 2 ^ 31"

lemma liveFilesLoop_run:
  "\<forall>i \<in> set is. keysFit L lf (lib h) i \<Longrightarrow> liveFilesLoop L lf is h = (Ok (map (liveFileOf L lf (lib h)) is), h)"
  by (induction "is") (simp_all add: liveFile_def liveFileOf_def keysFit_def andThen_apply ret_apply GoBytes_run)

lemma live_files_exact:
  assumes "c_livefiles L (DB_c db) (lib h) = (lf, d)" and "c_livefiles_count L lf d = int n"
    and "\<forall>i < n. keysFit L lf d (int i)"
  shows "GetLiveFilesMetaData L db h
    = (Ok (map (\<lambda>i. liveFileOf L lf d (int i)) [0..<n]), h\<lparr>lib := snd (c_livefiles_destroy L lf d)\<rparr>)"
proof -
  have "liveFilesLoop L lf (map int [0..<n]) (h\<lparr>lib := d\<rparr>) = (Ok (map (liveFileOf L lf d) (map int [0..<n])), h\<lparr>lib := d\<rparr>)"
    using liveFilesLoop_run [of "map int [0..<n]" L lf "h\<lparr>lib := d\<rparr>"] assms(3) by auto
  then show ?thesis using assms(1,2)
    by (auto simp: GetLiveFilesMetaData_def andThen_apply libCallC_def withDefer_def comp_def split: prod.splits)
qed

end
