(* ===== verification/Callbacks.thy ===== *)
theory Callbacks
  imports Db_Calls
begin

text \<open>
  Go objects that the C library calls back: the copy-on-write list that holds them (\<^verbatim>\<open>cow.go\<close>), as a
  sequential object and as a step relation of concurrent \<^verbatim>\<open>Append\<close> calls, and the merge operators
  (\<^verbatim>\<open>merge_operator.go\<close>) and comparators (\<^verbatim>\<open>comparator.go\<close>) that are registered there.
\<close>

section \<open>The copy-on-write list\<close>

record 'a COWList =
  cow_v :: "'a list"
  cow_mu :: "nat option"

definition NewCOWList :: "'a COWList" where
  "NewCOWList = \<lparr>cow_v = [], cow_mu = None\<rparr>"

definition Append :: "'a COWList \<Rightarrow> 'a \<Rightarrow> 'a COWList \<times> nat" where
  "Append c i = (let list = cow_v c; newLen = length list + 1; newList = list @ [i]
     in (c\<lparr>cow_v := newList\<rparr>, newLen - 1))"

text \<open>\<^verbatim>\<open>Get\<close> loads the list without the mutex; an index out of range panics.\<close>

definition Get :: "'a COWList \<Rightarrow> int \<Rightarrow> 'a option" where
  "Get c index = (if 0 \<le> index \<and> index < int (length (cow_v c)) then Some (cow_v c ! nat index) else None)"

text \<open>
  Concurrent calls: each thread appends one item, one atomic access to the shared state at a time.
  The copy is made of the list that was loaded.
\<close>

datatype 'a pc = Begin 'a | Locked 'a | Loaded 'a "'a list" | Stored 'a nat | Returned 'a nat

record 'a threads = "'a COWList" +
  pcs :: "nat \<Rightarrow> 'a pc"

inductive cowStep :: "'a threads \<Rightarrow> 'a threads \<Rightarrow> bool" where
  lock: "pcs s t = Begin x \<Longrightarrow> cow_mu s = None
    \<Longrightarrow> cowStep s (s\<lparr>cow_mu := Some t, pcs := (pcs s)(t := Locked x)\<rparr>)"
| load: "pcs s t = Locked x \<Longrightarrow> cowStep s (s\<lparr>pcs := (pcs s)(t := Loaded x (cow_v s))\<rparr>)"
| store: "pcs s t = Loaded x list
    \<Longrightarrow> cowStep s (s\<lparr>cow_v := list @ [x], pcs := (pcs s)(t := Stored x (length list))\<rparr>)"
| unlock: "pcs s t = Stored x n \<Longrightarrow> cowStep s (s\<lparr>cow_mu := None, pcs := (pcs s)(t := Returned x n)\<rparr>)"

definition cowStart :: "(nat \<Rightarrow> 'a) \<Rightarrow> 'a threads" where
  "cowStart items = \<lparr>cow_v = [], cow_mu = None, pcs = (\<lambda>t. Begin (items t))\<rparr>"

definition cowReach :: "'a threads \<Rightarrow> 'a threads \<Rightarrow> bool" where
  "cowReach = cowStep\<^sup>*\<^sup>*"

section \<open>Every interleaving is an order of appends\<close>

text \<open>The thread inside the critical section is the holder; what it loaded is what is stored.\<close>

definition placed :: "'a pc \<Rightarrow> ('a \<times> nat) option" where
  "placed p = (case p of Stored x n \<Rightarrow> Some (x, n) | Returned x n \<Rightarrow> Some (x, n) | _ \<Rightarrow> None)"

definition inside :: "'a pc \<Rightarrow> bool" where
  "inside p = (case p of Locked _ \<Rightarrow> True | Loaded _ _ \<Rightarrow> True | Stored _ _ \<Rightarrow> True | _ \<Rightarrow> False)"

definition cowInv :: "'a threads \<Rightarrow> bool" where
  "cowInv s \<longleftrightarrow> (\<forall>t. inside (pcs s t) \<longleftrightarrow> cow_mu s = Some t)
     \<and> (\<forall>t x l. pcs s t = Loaded x l \<longrightarrow> l = cow_v s)
     \<and> (\<forall>t x n. placed (pcs s t) = Some (x, n) \<longrightarrow> n < length (cow_v s) \<and> cow_v s ! n = x)
     \<and> (\<forall>n < length (cow_v s). \<exists>!t. \<exists>x. placed (pcs s t) = Some (x, n))"

lemma cowInv_start: "cowInv (cowStart items)"
  by (simp add: cowInv_def cowStart_def inside_def placed_def)

lemma cowStep_cases:
  assumes "cowStep s s'"
  obtains (quiet) t p where "cow_v s' = cow_v s" "pcs s' = (pcs s)(t := p)"
      "placed p = placed (pcs s t)" "\<forall>x l. p = Loaded x l \<longrightarrow> l = cow_v s"
    | (put) t x l where "pcs s t = Loaded x l" "cow_v s' = l @ [x]" "pcs s' = (pcs s)(t := Stored x (length l))"
  using assms
proof cases
  case (lock t x)
  then show thesis by (intro quiet [of t "Locked x"]) (auto simp: placed_def)
next
  case (load t x)
  then show thesis by (intro quiet [of t "Loaded x (cow_v s)"]) (auto simp: placed_def)
next
  case (store t x l)
  then show thesis by (intro put [of t x l]) auto
next
  case (unlock t x n)
  then show thesis by (intro quiet [of t "Returned x n"]) (auto simp: placed_def)
qed

lemma cowInv_mutex:
  assumes "cowInv s" and "cowStep s s'"
  shows "\<forall>t. inside (pcs s' t) \<longleftrightarrow> cow_mu s' = Some t"
proof -
  have mu: "inside (pcs s t) \<longleftrightarrow> cow_mu s = Some t" for t using assms(1) by (simp add: cowInv_def)
  have in_holder: "cow_mu s = Some t" if "inside (pcs s t)" for t using mu that by simp
  from assms(2) show ?thesis
  proof cases
    case (lock t x)
    then show ?thesis using mu by (auto simp: inside_def)
  next
    case (load t x)
    then have "cow_mu s = Some t" using in_holder [of t] by (simp add: inside_def)
    then show ?thesis using load mu by (auto simp: inside_def)
  next
    case (store t x l)
    then have "cow_mu s = Some t" using in_holder [of t] by (simp add: inside_def)
    then show ?thesis using store mu by (auto simp: inside_def)
  next
    case (unlock t x n)
    then have "cow_mu s = Some t" using in_holder [of t] by (simp add: inside_def)
    then show ?thesis using unlock mu by (auto simp: inside_def)
  qed
qed

lemma cowInv_step:
  assumes inv: "cowInv s" and step: "cowStep s s'"
  shows "cowInv s'"
proof -
  have loaded: "l = cow_v s" if "pcs s t = Loaded x l" for t x l
    using inv that unfolding cowInv_def by blast
  have at: "n < length (cow_v s)" "cow_v s ! n = x" if "placed (pcs s t) = Some (x, n)" for t x n
    using inv that unfolding cowInv_def by blast+
  have only: "\<exists>!t. \<exists>x. placed (pcs s t) = Some (x, n)" if "n < length (cow_v s)" for n
    using inv that unfolding cowInv_def by blast
  from step show ?thesis
  proof (cases rule: cowStep_cases)
    case (quiet t p)
    then have pl: "placed (pcs s' u) = placed (pcs s u)" for u by auto
    have ld: "pcs s' u = Loaded x l \<Longrightarrow> l = cow_v s'" for u x l
      using quiet loaded [of u x l] by (cases "u = t") auto
    show ?thesis
      unfolding cowInv_def pl quiet(1)
      using cowInv_mutex [OF inv step] ld at only by (simp add: quiet(1))
  next
    case (put t x l)
    have l: "l = cow_v s" using loaded put(1) .
    have alone: "u = t" if "pcs s u = Loaded y k" for u y k
    proof -
      have "inside (pcs s u)" "inside (pcs s t)" using that put(1) by (simp_all add: inside_def)
      then have "cow_mu s = Some u" "cow_mu s = Some t" using inv unfolding cowInv_def by blast+
      then show ?thesis by simp
    qed
    have pl: "placed (pcs s' u) = (if u = t then Some (x, length (cow_v s)) else placed (pcs s u))" for u
      using put(3) l by (auto simp: placed_def)
    have none: "placed (pcs s t) = None" using put(1) by (simp add: placed_def)
    have v: "cow_v s' = cow_v s @ [x]" using put(2) l by simp
    have ld: "pcs s' u = Loaded y k \<Longrightarrow> k = cow_v s'" for u y k
      using put(3) alone [of u y k] by (cases "u = t") auto
    have at': "n < length (cow_v s') \<and> cow_v s' ! n = y" if "placed (pcs s' u) = Some (y, n)" for u y n
      using that at [of u y n] by (auto simp: pl v nth_append split: if_splits)
    have only': "\<exists>!u. \<exists>y. placed (pcs s' u) = Some (y, n)" if "n < length (cow_v s')" for n
    proof (cases "n = length (cow_v s)")
      case True
      then show ?thesis using at by (intro ex1I [of _ t]) (auto simp: pl split: if_splits)
    next
      case False
      with that obtain u where u: "\<exists>y. placed (pcs s u) = Some (y, n)" and
        un: "\<And>w. \<exists>y. placed (pcs s w) = Some (y, n) \<Longrightarrow> w = u"
        using only [of n] by (auto simp: v)
      show ?thesis
      proof (rule ex1I [of _ u])
        show "\<exists>y. placed (pcs s' u) = Some (y, n)" using u none by (auto simp: pl)
        show "w = u" if "\<exists>y. placed (pcs s' w) = Some (y, n)" for w
          using that False un [of w] by (auto simp: pl split: if_splits)
      qed
    qed
    show ?thesis
      unfolding cowInv_def using cowInv_mutex [OF inv step] ld at' only' by blast
  qed
qed

lemma cowReach_inv: "cowReach s s' \<Longrightarrow> cowInv s \<Longrightarrow> cowInv s'"
  unfolding cowReach_def by (induction rule: rtranclp_induct) (auto intro: cowInv_step)

lemma cowReach_grows: "cowReach s s' \<Longrightarrow> cowInv s \<Longrightarrow> \<exists>more. cow_v s' = cow_v s @ more"
  unfolding cowReach_def
proof (induction rule: rtranclp_induct)
  case (step s1 s2)
  have inv: "cowInv s1" using cowReach_inv [of s s1] step.hyps(1) step.prems by (simp add: cowReach_def)
  obtain more where more: "cow_v s1 = cow_v s @ more" using step.IH step.prems by blast
  from step.hyps(2) show ?case
  proof (cases rule: cowStep_cases)
    case (put t x l)
    then have "l = cow_v s1" using inv unfolding cowInv_def by blast
    then show ?thesis using put more by auto
  qed (use more in auto)
qed simp

lemma cowStep_progress:
  assumes inv: "cowInv s" and t: "\<not> (\<exists>x n. pcs s t = Returned x n)"
  shows "\<exists>s'. cowStep s s'"
proof (cases "cow_mu s")
  case None
  then have "\<not> inside (pcs s t)" using inv by (simp add: cowInv_def)
  with t obtain x where "pcs s t = Begin x" by (cases "pcs s t") (auto simp: inside_def)
  with None show ?thesis by (blast intro: cowStep.lock)
next
  case (Some u)
  then have "inside (pcs s u)" using inv by (simp add: cowInv_def)
  then show ?thesis
    by (cases "pcs s u") (auto simp: inside_def intro: cowStep.load cowStep.store cowStep.unlock)
qed

text \<open>
  C22. However concurrent \<^verbatim>\<open>Append\<close> calls interleave, each one returns an index of its own, at which
  \<^verbatim>\<open>Get\<close> finds its item from then on, whatever is appended later; every element of the list was
  put there by exactly one call; and as long as a call has not returned, some call can go on.
\<close>

theorem append_linearizable:
  assumes "cowReach (cowStart items) s" and "cowReach s s'"
  shows "(\<forall>t x n. pcs s t = Returned x n \<longrightarrow> Get (COWList.truncate s') (int n) = Some x)
    \<and> (\<forall>t u x y n. pcs s t = Returned x n \<and> pcs s u = Returned y n \<longrightarrow> t = u)
    \<and> (\<forall>n < length (cow_v s). \<exists>!t. \<exists>x. placed (pcs s t) = Some (x, n))
    \<and> (\<forall>t. (\<exists>x n. pcs s t = Returned x n) \<or> (\<exists>s1. cowStep s s1))"
proof -
  have inv: "cowInv s" using cowReach_inv [OF assms(1) cowInv_start] .
  have at: "n < length (cow_v s) \<and> cow_v s ! n = x" if "pcs s t = Returned x n" for t x n
  proof -
    have "placed (pcs s t) = Some (x, n)" using that by (simp add: placed_def)
    then show ?thesis using inv unfolding cowInv_def by blast
  qed
  obtain more where more: "cow_v s' = cow_v s @ more" using cowReach_grows [OF assms(2) inv] by blast
  have one: "\<forall>n < length (cow_v s). \<exists>!t. \<exists>x. placed (pcs s t) = Some (x, n)"
    using inv by (simp add: cowInv_def)
  have uniq: "t = u" if "pcs s t = Returned x n" "pcs s u = Returned y n" for t u x y n
  proof -
    have "placed (pcs s t) = Some (x, n)" "placed (pcs s u) = Some (y, n)" using that by (simp_all add: placed_def)
    then show ?thesis using one at [OF that(1)] by blast
  qed
  have "Get (COWList.truncate s') (int n) = Some x" if "pcs s t = Returned x n" for t x n
    using at [OF that] more by (simp add: Get_def COWList.defs nth_append)
  then show ?thesis using uniq one cowStep_progress [OF inv] by blast
qed

text \<open>Run alone, the four steps are the sequential \<^verbatim>\<open>Append\<close>.\<close>

lemma append_alone:
  assumes "pcs s t = Begin x" and "cow_mu s = None"
  shows "cowReach s (s\<lparr>cow_v := cow_v (fst (Append (COWList.truncate s) x)),
    pcs := (pcs s)(t := Returned x (snd (Append (COWList.truncate s) x)))\<rparr>)"
proof -
  let ?s1 = "s\<lparr>cow_mu := Some t, pcs := (pcs s)(t := Locked x)\<rparr>"
  let ?s2 = "?s1\<lparr>pcs := (pcs ?s1)(t := Loaded x (cow_v ?s1))\<rparr>"
  let ?s3 = "?s2\<lparr>cow_v := cow_v ?s1 @ [x], pcs := (pcs ?s2)(t := Stored x (length (cow_v ?s1)))\<rparr>"
  let ?s4 = "?s3\<lparr>cow_mu := None, pcs := (pcs ?s3)(t := Returned x (length (cow_v ?s1)))\<rparr>"
  have "cowStep s ?s1" by (rule cowStep.lock) (use assms in auto)
  moreover have "cowStep ?s1 ?s2" by (rule cowStep.load) auto
  moreover have "cowStep ?s2 ?s3" by (rule cowStep.store) auto
  moreover have "cowStep ?s3 ?s4" by (rule cowStep.unlock) auto
  ultimately have "cowReach s ?s4"
    unfolding cowReach_def by (meson converse_rtranclp_into_rtranclp rtranclp.rtrancl_refl)
  moreover have "?s4 = s\<lparr>cow_v := cow_v (fst (Append (COWList.truncate s) x)),
    pcs := (pcs s)(t := Returned x (snd (Append (COWList.truncate s) x)))\<rparr>"
    using assms(2) by (cases s) (auto simp: Append_def COWList.defs Let_def)
  ultimately show ?thesis by simp
qed

theorem append_linearizable_witness:
  "\<exists>s. cowReach (cowStart (\<lambda>t. t)) s \<and> pcs s 7 = Returned 7 0 \<and> Get (COWList.truncate s) 0 = Some (7::nat)"
proof -
  let ?start = "cowStart (\<lambda>t. t :: nat)"
  let ?done = "?start\<lparr>cow_v := [7], pcs := (pcs ?start)(7 := Returned 7 0)\<rparr>"
  have r: "cowReach ?start ?done"
  proof -
    have trunc: "COWList.truncate ?start = NewCOWList"
      by (simp add: cowStart_def NewCOWList_def COWList.truncate_def)
    have "cow_v (fst (Append (COWList.truncate ?start) 7)) = [7]" "snd (Append (COWList.truncate ?start) 7) = 0"
      unfolding trunc by (simp_all add: Append_def NewCOWList_def)
    then show ?thesis using append_alone [of ?start 7 7] by (simp add: cowStart_def)
  qed
  have at: "pcs ?done 7 = Returned 7 0" by simp
  have refl: "cowReach ?done ?done" unfolding cowReach_def by (rule rtranclp.rtrancl_refl)
  have "Get (COWList.truncate ?done) (int 0) = Some 7"
    using append_linearizable [OF r refl, THEN conjunct1] at by blast
  then show ?thesis using r at by (intro exI [of _ ?done]) simp
qed

section \<open>Merge operators\<close>

text \<open>
  The interface \<^verbatim>\<open>MergeOperator\<close>; a nil existing value means that the key did not exist. The wrapper
  keeps the name as a C string.
\<close>

record MergeOperator =
  FullMerge :: "bytes \<Rightarrow> bytes option \<Rightarrow> bytes list \<Rightarrow> bytes \<times> bool"
  PartialMerge :: "bytes \<Rightarrow> bytes \<Rightarrow> bytes \<Rightarrow> bytes \<times> bool"
  MergeName :: string

definition NewNativeMergeOperator :: MergeOperator where
  "NewNativeMergeOperator = \<lparr>FullMerge = (\<lambda>key existing operands. ([], False)),
     PartialMerge = (\<lambda>key left right. ([], False)), MergeName = ''''\<rparr>"

record mergeOperatorWrapper =
  mo_name :: nat
  mo_mergeOperator :: MergeOperator

definition registerMergeOperator ::
  "mergeOperatorWrapper COWList \<Rightarrow> MergeOperator \<Rightarrow> ('d, mergeOperatorWrapper COWList \<times> nat) cop" where
  "registerMergeOperator mergeOperators merger =
     andThen (CString (MergeName merger)) (\<lambda>cname. ret (Append mergeOperators \<lparr>mo_name = cname, mo_mergeOperator = merger\<rparr>))"

definition withEntry :: "'e COWList \<Rightarrow> int \<Rightarrow> ('e \<Rightarrow> ('d, 'a) cop) \<Rightarrow> ('d, 'a) cop" where
  "withEntry registry idx f = (case Get registry idx of None \<Rightarrow> gopanic ''index out of range'' | Some e \<Rightarrow> f e)"

text \<open>The library passes pointers and lengths; the callbacks return the new value on the C heap, its length and success.\<close>

definition gorocksdb_mergeoperator_full_merge ::
  "mergeOperatorWrapper COWList \<Rightarrow> int \<Rightarrow> bytes option \<Rightarrow> nat \<Rightarrow> bytes option \<Rightarrow> nat \<Rightarrow> bytes option list \<Rightarrow> nat list
    \<Rightarrow> ('d, nat \<times> nat \<times> nat) cop" where
  "gorocksdb_mergeoperator_full_merge mergeOperators idx cKey cKeyLen cExistingValue cExistingValueLen cOperands cOperandsLen =
     (let key = charToByte cKey cKeyLen;
          existingValue = map_option (\<lambda>_. charToByte cExistingValue cExistingValueLen) cExistingValue;
          operands = map2 charToByte cOperands cOperandsLen
      in withEntry mergeOperators idx (\<lambda>w.
        case FullMerge (mo_mergeOperator w) key existingValue operands of (newValue, success) \<Rightarrow>
          andThen (cByteSlice newValue) (\<lambda>p. ret (p, length newValue, boolToChar success))))"

fun partialLoop :: "(bytes \<Rightarrow> bytes \<Rightarrow> bytes \<times> bool) \<Rightarrow> bytes \<Rightarrow> bytes \<Rightarrow> bytes list \<Rightarrow> bytes \<times> bool" where
  "partialLoop merge leftOperand newValue [] = (newValue, True)"
| "partialLoop merge leftOperand newValue (operand # operands) =
     (case merge leftOperand operand of (v, success) \<Rightarrow>
        if \<not> success then (v, False) else partialLoop merge v v operands)"

definition gorocksdb_mergeoperator_partial_merge_multi ::
  "mergeOperatorWrapper COWList \<Rightarrow> int \<Rightarrow> bytes option \<Rightarrow> nat \<Rightarrow> bytes option list \<Rightarrow> nat list \<Rightarrow> ('d, nat \<times> nat \<times> nat) cop" where
  "gorocksdb_mergeoperator_partial_merge_multi mergeOperators idx cKey cKeyLen cOperands cOperandsLen =
     (let key = charToByte cKey cKeyLen; operands = map2 charToByte cOperands cOperandsLen
      in withEntry mergeOperators idx (\<lambda>w.
        case operands of
          [] \<Rightarrow> gopanic ''index out of range [0] with length 0''
        | leftOperand # rest \<Rightarrow>
            (case partialLoop (PartialMerge (mo_mergeOperator w) key) leftOperand [] rest of (newValue, success) \<Rightarrow>
               andThen (cByteSlice newValue) (\<lambda>p. ret (p, length newValue, boolToChar success)))))"

definition gorocksdb_mergeoperator_name :: "mergeOperatorWrapper COWList \<Rightarrow> int \<Rightarrow> ('d, nat) cop" where
  "gorocksdb_mergeoperator_name mergeOperators idx = withEntry mergeOperators idx (\<lambda>w. ret (mo_name w))"

section \<open>Comparators\<close>

record Comparator =
  Compare :: "bytes \<Rightarrow> bytes \<Rightarrow> int"
  ComparatorName :: string

record comperatorWrapper =
  cmp_name :: nat
  cmp_comparator :: Comparator

definition registerComperator :: "comperatorWrapper COWList \<Rightarrow> Comparator \<Rightarrow> ('d, comperatorWrapper COWList \<times> nat) cop" where
  "registerComperator comperators cmp =
     andThen (CString (ComparatorName cmp)) (\<lambda>cname. ret (Append comperators \<lparr>cmp_name = cname, cmp_comparator = cmp\<rparr>))"

definition gorocksdb_comparator_compare ::
  "comperatorWrapper COWList \<Rightarrow> int \<Rightarrow> bytes option \<Rightarrow> nat \<Rightarrow> bytes option \<Rightarrow> nat \<Rightarrow> ('d, int) cop" where
  "gorocksdb_comparator_compare comperators idx cKeyA cKeyALen cKeyB cKeyBLen =
     withEntry comperators idx (\<lambda>w.
       ret (sint (word_of_int (Compare (cmp_comparator w) (charToByte cKeyA cKeyALen) (charToByte cKeyB cKeyBLen)) :: 32 word)))"

definition gorocksdb_comparator_name :: "comperatorWrapper COWList \<Rightarrow> int \<Rightarrow> ('d, nat) cop" where
  "gorocksdb_comparator_name comperators idx = withEntry comperators idx (\<lambda>w. ret (cmp_name w))"

section \<open>What the callbacks do\<close>

lemma cByteSlice_run:
  assumes "wfHeap h"
  shows "\<exists>p h'. cByteSlice b h = (Ok p, h') \<and> (p = 0 \<longleftrightarrow> b = []) \<and> extends h h' (if b = [] then {} else {p})
    \<and> charToByte (mem h' p) (length b) = b"
proof (cases "b = []")
  case True
  then show ?thesis using assms
    by (auto simp: cByteSlice_def ret_apply extends_refl charToByte_def split: option.splits)
next
  case False
  then show ?thesis using malloc_run [OF assms, of b]
    by (auto simp: cByteSlice_def charToByte_def)
qed

lemma Append_Get: "Append l x = (l', n) \<Longrightarrow> Get l' (int n) = Some x"
  by (auto simp: Append_def Get_def Let_def)

text \<open>Merging operands pairwise, for an operator that keeps its documented promise.\<close>

definition mergeLaw :: "MergeOperator \<Rightarrow> bool" where
  "mergeLaw m \<longleftrightarrow> (\<forall>key left right v existing pre post. PartialMerge m key left right = (v, True)
     \<longrightarrow> FullMerge m key existing (pre @ left # right # post) = FullMerge m key existing (pre @ v # post))"

lemma partialLoop_fold:
  assumes "mergeLaw m" and "partialLoop (PartialMerge m key) left left rest = (v, True)"
  shows "FullMerge m key existing (pre @ left # rest @ post) = FullMerge m key existing (pre @ v # post)"
  using assms(2)
proof (induction rest arbitrary: left)
  case (Cons r rest)
  obtain w ok where w: "PartialMerge m key left r = (w, ok)" by (cases "PartialMerge m key left r")
  with Cons.prems have ok: "ok" and next_v: "partialLoop (PartialMerge m key) w w rest = (v, True)"
    by (auto split: if_splits)
  have "FullMerge m key existing (pre @ left # r # (rest @ post)) = FullMerge m key existing (pre @ w # (rest @ post))"
    using assms(1) [unfolded mergeLaw_def, rule_format, of key left r w existing pre "rest @ post"] w ok by simp
  with Cons.IH [OF next_v] show ?case by simp
qed simp

lemma partialLoop_first: "rest \<noteq> [] \<Longrightarrow> partialLoop merge left v rest = partialLoop merge left v' rest"
  by (cases rest) auto

text \<open>
  C23. When the library asks to merge two or more operands of a registered operator, a success means
  that the value on the C heap may replace them: for an operator that keeps the promise documented
  in the interface, a full merge with the value in their place, between any other operands, gives
  the same. The block of the value is all that is added to the C heap, none for an empty value.
\<close>

theorem partial_merge_sound:
  assumes wf: "wfHeap h" and reg: "Get mergeOperators idx = Some w" and law: "mergeLaw (mo_mergeOperator w)"
    and two: "2 \<le> length cOperands" and lens: "length cOperandsLen = length cOperands"
    and run: "gorocksdb_mergeoperator_partial_merge_multi mergeOperators idx cKey cKeyLen cOperands cOperandsLen h = (Ok (p, n, 1), h')"
  shows "FullMerge (mo_mergeOperator w) (charToByte cKey cKeyLen) existing (pre @ map2 charToByte cOperands cOperandsLen @ post)
      = FullMerge (mo_mergeOperator w) (charToByte cKey cKeyLen) existing (pre @ [charToByte (mem h' p) n] @ post)
    \<and> extends h h' (if n = 0 then {} else {p})"
proof -
  let ?ops = "map2 charToByte cOperands cOperandsLen"
  let ?m = "PartialMerge (mo_mergeOperator w) (charToByte cKey cKeyLen)"
  have "length ?ops \<ge> 2" using two lens by simp
  then obtain left r rest where ops: "?ops = left # r # rest" by (cases ?ops; cases "tl ?ops") auto
  obtain v ok where v: "partialLoop ?m left [] (r # rest) = (v, ok)" by (cases "partialLoop ?m left [] (r # rest)")
  obtain q h1 where q: "cByteSlice v h = (Ok q, h1)" "extends h h1 (if v = [] then {} else {q})"
    "charToByte (mem h1 q) (length v) = v" using cByteSlice_run [OF wf, of v] by blast
  have "gorocksdb_mergeoperator_partial_merge_multi mergeOperators idx cKey cKeyLen cOperands cOperandsLen h
      = (Ok (q, length v, boolToChar ok), h1)"
    using q(1) v by (simp add: gorocksdb_mergeoperator_partial_merge_multi_def Let_def withEntry_def reg ops andThen_apply ret_apply)
  from trans [OF run [symmetric] this] have eqs: "p = q" "n = length v" "h' = h1" and one: "boolToChar ok = 1" by simp_all
  from one have "ok" by (cases ok) (simp_all add: boolToChar_def)
  with v have "partialLoop ?m left left (r # rest) = (v, True)"
    using partialLoop_first [of "r # rest" ?m left "[]" left] by simp
  from partialLoop_fold [OF law this, of existing pre post] show ?thesis
    using q eqs by (auto simp: ops split: if_splits)
qed

text \<open>The operator that concatenates.\<close>

definition concatOperator :: MergeOperator where
  "concatOperator = \<lparr>FullMerge = (\<lambda>key existing operands. (case_option [] id existing @ concat operands, True)),
     PartialMerge = (\<lambda>key left right. (left @ right, True)), MergeName = ''concat''\<rparr>"

theorem partial_merge_sound_witness:
  "\<exists>p h'. gorocksdb_mergeoperator_partial_merge_multi \<lparr>cow_v = [\<lparr>mo_name = 0, mo_mergeOperator = concatOperator\<rparr>], cow_mu = None\<rparr>
      0 (Some ''k'') 1 [Some ''ab'', Some ''c''] [2, 1] \<lparr>mem = (\<lambda>_. None), brk = 1, lib = ()\<rparr> = (Ok (p, 3, 1), h')
    \<and> FullMerge concatOperator ''k'' (Some ''x'') (''y'' # [''ab'', ''c'', ''z'']) = FullMerge concatOperator ''k'' (Some ''x'') (''y'' # [charToByte (mem h' p) 3, ''z''])"
proof -
  let ?w = "\<lparr>mo_name = 0, mo_mergeOperator = concatOperator\<rparr>"
  let ?reg = "\<lparr>cow_v = [?w], cow_mu = None\<rparr>"
  let ?h = "\<lparr>mem = (\<lambda>_. None), brk = 1, lib = ()\<rparr>"
  let ?h' = "?h\<lparr>mem := (mem ?h)(1 \<mapsto> ''abc''), brk := 2\<rparr>"
  have wf: "wfHeap ?h" by (simp add: wfHeap_def)
  have reg: "Get ?reg 0 = Some ?w" by (simp add: Get_def)
  have law: "mergeLaw (mo_mergeOperator ?w)" by (simp add: mergeLaw_def concatOperator_def)
  have run: "gorocksdb_mergeoperator_partial_merge_multi ?reg 0 (Some ''k'') 1 [Some ''ab'', Some ''c''] [2, 1] ?h = (Ok (1, 3, 1), ?h')"
    by (simp add: gorocksdb_mergeoperator_partial_merge_multi_def withEntry_def Get_def charToByte_def concatOperator_def
        cByteSlice_def malloc_def andThen_apply ret_apply boolToChar_def)
  note ex = partial_merge_sound [OF wf reg law _ _ run, of "Some ''x''" "[''y'']" "[''z'']"]
  show ?thesis using run ex by (intro exI [of _ 1] exI [of _ ?h']) (simp add: charToByte_def)
qed

text \<open>
  The result of a comparator is cut to 32 bits on the way to C: one that answers with a difference
  of at least a factor of 2 to the 32 tells the library that two different keys are equal, against the contract
  that the comparison is zero only for equal keys.
\<close>

theorem comparator_truncates:
  "gorocksdb_comparator_compare \<lparr>cow_v = [\<lparr>cmp_name = 0, cmp_comparator = \<lparr>Compare = (\<lambda>a b. 2 ^ 32 * (int (length a) - int (length b))),
      ComparatorName = ''length''\<rparr>\<rparr>], cow_mu = None\<rparr> 0 (Some ''long'') 4 (Some ''k'') 1 h = (Ok 0, h)"
proof -
  have "word_of_int (2 ^ 32 * 3) = (0 :: 32 word)" by simp
  then show ?thesis
    by (simp add: gorocksdb_comparator_compare_def withEntry_def Get_def charToByte_def ret_apply)
qed

lemma comparator_in_range:
  assumes "Get comperators idx = Some w"
    and "- (2 ^ 31) \<le> Compare (cmp_comparator w) a b" and "Compare (cmp_comparator w) a b < 2 ^ 31"
  shows "gorocksdb_comparator_compare comperators idx (Some a) (length a) (Some b) (length b) h
    = (Ok (Compare (cmp_comparator w) a b), h)"
proof -
  have "sint (word_of_int (Compare (cmp_comparator w) a b) :: 32 word) = Compare (cmp_comparator w) a b"
    unfolding signed_of_int using assms(2,3) by (simp add: signed_take_bit_int_eq_self)
  then show ?thesis
    by (simp add: gorocksdb_comparator_compare_def withEntry_def assms(1) charToByte_def ret_apply)
qed

text \<open>A registered operator is the one that the library reaches through the index.\<close>

lemma registered_full_merge:
  assumes wf: "wfHeap h" and reg: "registerMergeOperator l m h0 = (Ok (l', idx), h)"
  shows "\<exists>p h'. gorocksdb_mergeoperator_full_merge l' (int idx) (Some key) (length key) existing (case_option 0 length existing)
        (map Some operands) (map length operands) h
      = (Ok (p, length (fst (FullMerge m key existing operands)), if snd (FullMerge m key existing operands) then 1 else 0), h')
    \<and> charToByte (mem h' p) (length (fst (FullMerge m key existing operands))) = fst (FullMerge m key existing operands)"
proof -
  obtain c where "Append l \<lparr>mo_name = c, mo_mergeOperator = m\<rparr> = (l', idx)"
    using reg by (auto simp: registerMergeOperator_def CString_def malloc_def andThen_apply ret_apply)
  then have get: "Get l' (int idx) = Some \<lparr>mo_name = c, mo_mergeOperator = m\<rparr>" by (rule Append_Get)
  have ops: "map2 charToByte (map Some operands) (map length operands) = operands"
    by (induction operands) (simp_all add: charToByte_def)
  have ex: "map_option (\<lambda>_. charToByte existing (case_option 0 length existing)) existing = existing"
    by (cases existing) (simp_all add: charToByte_def)
  have key: "charToByte (Some key) (length key) = key" by (simp add: charToByte_def)
  obtain v ok where v: "FullMerge m key existing operands = (v, ok)" by (cases "FullMerge m key existing operands")
  obtain p h' where "cByteSlice v h = (Ok p, h')" "charToByte (mem h' p) (length v) = v"
    using cByteSlice_run [OF wf, of v] by blast
  then show ?thesis
    by (simp add: gorocksdb_mergeoperator_full_merge_def Let_def withEntry_def get ops ex key v andThen_apply ret_apply boolToChar_def)
qed

text \<open>With a single operand the callback reports success and an empty value.\<close>

lemma partial_merge_one_operand:
  assumes "Get mergeOperators idx = Some w"
  shows "gorocksdb_mergeoperator_partial_merge_multi mergeOperators idx cKey cKeyLen [op] [n] h = (Ok (0, 0, 1), h)"
  using assms by (simp add: gorocksdb_mergeoperator_partial_merge_multi_def withEntry_def cByteSlice_def
      andThen_apply ret_apply boolToChar_def)

end
