(* ===== verification/Callbacks_Filters.thy ===== *)
theory Callbacks_Filters
  imports Callbacks
begin

text \<open>
  The other Go objects that the C library calls back: compaction filters (\<^verbatim>\<open>compaction_filter.go\<close>),
  filter policies (\<^verbatim>\<open>filter_policy.go\<close>) and slice transforms (\<^verbatim>\<open>slice_transform.go\<close>), with the native
  objects, which stand for one of the C library and are never called from Go.
\<close>

section \<open>Native objects\<close>

text \<open>
  A value of one of the callback interfaces is a wrapper around an object of the C library or a Go
  object with its methods.
\<close>

datatype 'i iface = Native nat | GoObject 'i

definition nativeComparator :: Comparator where
  "nativeComparator = \<lparr>Compare = (\<lambda>a b. 0), ComparatorName = ''''\<rparr>"

definition NewNativeComparator :: "nat \<Rightarrow> Comparator iface" where
  "NewNativeComparator c = Native c"

section \<open>Compaction filters\<close>

text \<open>The new value of a filter is a slice that may be nil: \<open>None\<close> keeps the value.\<close>

record CompactionFilter =
  Filter :: "int \<Rightarrow> bytes \<Rightarrow> bytes \<Rightarrow> bool \<times> bytes option"
  FilterName :: string

definition NewNativeCompactionFilter :: "nat \<Rightarrow> CompactionFilter iface" where
  "NewNativeCompactionFilter c = Native c"

definition nativeCompactionFilter :: CompactionFilter where
  "nativeCompactionFilter = \<lparr>Filter = (\<lambda>level key val. (False, None)), FilterName = ''''\<rparr>"

record compactionFilterWrapper =
  cof_name :: nat
  cof_filter :: CompactionFilter

definition registerCompactionFilter ::
  "compactionFilterWrapper COWList \<Rightarrow> CompactionFilter \<Rightarrow> ('d, compactionFilterWrapper COWList \<times> nat) cop" where
  "registerCompactionFilter compactionFilters filt =
     andThen (CString (FilterName filt)) (\<lambda>cname. ret (Append compactionFilters \<lparr>cof_name = cname, cof_filter = filt\<rparr>))"

text \<open>
  The result is the number returned and what is written through the three pointers, if anything
  is: the pointer to the new value, which is Go memory, its length, and the mark of a change.
\<close>

definition gorocksdb_compactionfilter_filter ::
  "compactionFilterWrapper COWList \<Rightarrow> int \<Rightarrow> int \<Rightarrow> bytes option \<Rightarrow> nat \<Rightarrow> bytes option \<Rightarrow> nat
    \<Rightarrow> ('d, nat \<times> (bytes option \<times> nat \<times> nat) option) cop" where
  "gorocksdb_compactionfilter_filter compactionFilters idx cLevel cKey cKeyLen cVal cValLen =
     (let key = charToByte cKey cKeyLen; val = charToByte cVal cValLen
      in withEntry compactionFilters idx (\<lambda>w.
        case Filter (cof_filter w) cLevel key val of (remove, newVal) \<Rightarrow>
          if remove then ret (1, None)
          else (case newVal of
                  Some v \<Rightarrow> ret (0, Some (byteToChar v, length v, 1))
                | None \<Rightarrow> ret (0, None))))"

definition gorocksdb_compactionfilter_name :: "compactionFilterWrapper COWList \<Rightarrow> int \<Rightarrow> ('d, nat) cop" where
  "gorocksdb_compactionfilter_name compactionFilters idx = withEntry compactionFilters idx (\<lambda>w. ret (cof_name w))"

section \<open>Filter policies\<close>

record FilterPolicy =
  CreateFilter :: "bytes list \<Rightarrow> bytes"
  KeyMayMatch :: "bytes \<Rightarrow> bytes \<Rightarrow> bool"
  PolicyName :: string

definition NewNativeFilterPolicy :: "nat \<Rightarrow> FilterPolicy iface" where
  "NewNativeFilterPolicy c = Native c"

definition nativeFilterPolicy :: FilterPolicy where
  "nativeFilterPolicy = \<lparr>CreateFilter = (\<lambda>keys. []), KeyMayMatch = (\<lambda>key filt. False), PolicyName = ''''\<rparr>"

definition NewBloomFilter :: "(32 word \<Rightarrow> 'd \<Rightarrow> nat \<times> 'd) \<Rightarrow> uint64 \<Rightarrow> ('d, FilterPolicy iface) cop" where
  "NewBloomFilter rocksdb_filterpolicy_create_bloom bitsPerKey =
     andThen (libCallC (rocksdb_filterpolicy_create_bloom (ucast bitsPerKey))) (\<lambda>c. ret (NewNativeFilterPolicy c))"

record filterPolicyWrapper =
  fp_name :: nat
  fp_filterPolicy :: FilterPolicy

definition registerFilterPolicy ::
  "filterPolicyWrapper COWList \<Rightarrow> FilterPolicy \<Rightarrow> ('d, filterPolicyWrapper COWList \<times> nat) cop" where
  "registerFilterPolicy filterPolicies fp =
     andThen (CString (PolicyName fp)) (\<lambda>cname. ret (Append filterPolicies \<lparr>fp_name = cname, fp_filterPolicy = fp\<rparr>))"

text \<open>
  The C arrays of pointers and of lengths are lists here, and a Go slice over one has the length that
  it is given (\<^verbatim>\<open>util.go\<close>); the loop fills the keys one by one.
\<close>

definition charSlice :: "bytes option list \<Rightarrow> nat \<Rightarrow> bytes option list" where
  "charSlice data len = take len data"

definition sizeSlice :: "nat list \<Rightarrow> nat \<Rightarrow> nat list" where
  "sizeSlice data len = take len data"

fun keysLoop :: "bytes option list \<Rightarrow> nat list \<Rightarrow> nat \<Rightarrow> bytes list \<Rightarrow> bytes list" where
  "keysLoop rawKeys [] i keys = keys"
| "keysLoop rawKeys (len # keysLen) i keys =
     keysLoop rawKeys keysLen (Suc i) (keys[i := charToByte (rawKeys ! i) len])"

definition gorocksdb_filterpolicy_create_filter ::
  "filterPolicyWrapper COWList \<Rightarrow> int \<Rightarrow> bytes option list \<Rightarrow> nat list \<Rightarrow> nat \<Rightarrow> ('d, nat \<times> nat) cop" where
  "gorocksdb_filterpolicy_create_filter filterPolicies idx cKeys cKeysLen cNumKeys =
     (let rawKeys = charSlice cKeys cNumKeys; keysLen = sizeSlice cKeysLen cNumKeys;
          keys = keysLoop rawKeys keysLen 0 (replicate cNumKeys [])
      in withEntry filterPolicies idx (\<lambda>w.
        let dst = CreateFilter (fp_filterPolicy w) keys
        in andThen (cByteSlice dst) (\<lambda>p. ret (p, length dst))))"

definition gorocksdb_filterpolicy_key_may_match ::
  "filterPolicyWrapper COWList \<Rightarrow> int \<Rightarrow> bytes option \<Rightarrow> nat \<Rightarrow> bytes option \<Rightarrow> nat \<Rightarrow> ('d, nat) cop" where
  "gorocksdb_filterpolicy_key_may_match filterPolicies idx cKey cKeyLen cFilter cFilterLen =
     (let key = charToByte cKey cKeyLen; filt = charToByte cFilter cFilterLen
      in withEntry filterPolicies idx (\<lambda>w. ret (boolToChar (KeyMayMatch (fp_filterPolicy w) key filt))))"

definition gorocksdb_filterpolicy_name :: "filterPolicyWrapper COWList \<Rightarrow> int \<Rightarrow> ('d, nat) cop" where
  "gorocksdb_filterpolicy_name filterPolicies idx = withEntry filterPolicies idx (\<lambda>w. ret (fp_name w))"

section \<open>Slice transforms\<close>

record SliceTransform =
  Transform :: "bytes \<Rightarrow> bytes"
  InDomain :: "bytes \<Rightarrow> bool"
  InRange :: "bytes \<Rightarrow> bool"
  TransformName :: string

definition NewNativeSliceTransform :: "nat \<Rightarrow> SliceTransform iface" where
  "NewNativeSliceTransform c = Native c"

definition nativeSliceTransform :: SliceTransform where
  "nativeSliceTransform = \<lparr>Transform = (\<lambda>src. []), InDomain = (\<lambda>src. False), InRange = (\<lambda>src. False),
     TransformName = ''''\<rparr>"

definition NewFixedPrefixTransform :: "(uint64 \<Rightarrow> 'd \<Rightarrow> nat \<times> 'd) \<Rightarrow> uint64 \<Rightarrow> ('d, SliceTransform iface) cop" where
  "NewFixedPrefixTransform rocksdb_slicetransform_create_fixed_prefix prefixLen =
     andThen (libCallC (rocksdb_slicetransform_create_fixed_prefix prefixLen)) (\<lambda>c. ret (NewNativeSliceTransform c))"

record sliceTransformWrapper =
  st_name :: nat
  st_sliceTransform :: SliceTransform

definition registerSliceTransform ::
  "sliceTransformWrapper COWList \<Rightarrow> SliceTransform \<Rightarrow> ('d, sliceTransformWrapper COWList \<times> nat) cop" where
  "registerSliceTransform sliceTransforms st =
     andThen (CString (TransformName st)) (\<lambda>cname. ret (Append sliceTransforms \<lparr>st_name = cname, st_sliceTransform = st\<rparr>))"

definition gorocksdb_slicetransform_transform ::
  "sliceTransformWrapper COWList \<Rightarrow> int \<Rightarrow> bytes option \<Rightarrow> nat \<Rightarrow> ('d, nat \<times> nat) cop" where
  "gorocksdb_slicetransform_transform sliceTransforms idx cKey cKeyLen =
     (let key = charToByte cKey cKeyLen
      in withEntry sliceTransforms idx (\<lambda>w.
        let dst = Transform (st_sliceTransform w) key
        in andThen (cByteSlice dst) (\<lambda>p. ret (p, length dst))))"

definition gorocksdb_slicetransform_in_domain ::
  "sliceTransformWrapper COWList \<Rightarrow> int \<Rightarrow> bytes option \<Rightarrow> nat \<Rightarrow> ('d, nat) cop" where
  "gorocksdb_slicetransform_in_domain sliceTransforms idx cKey cKeyLen =
     (let key = charToByte cKey cKeyLen
      in withEntry sliceTransforms idx (\<lambda>w. ret (boolToChar (InDomain (st_sliceTransform w) key))))"

definition gorocksdb_slicetransform_in_range ::
  "sliceTransformWrapper COWList \<Rightarrow> int \<Rightarrow> bytes option \<Rightarrow> nat \<Rightarrow> ('d, nat) cop" where
  "gorocksdb_slicetransform_in_range sliceTransforms idx cKey cKeyLen =
     (let key = charToByte cKey cKeyLen
      in withEntry sliceTransforms idx (\<lambda>w. ret (boolToChar (InRange (st_sliceTransform w) key))))"

definition gorocksdb_slicetransform_name :: "sliceTransformWrapper COWList \<Rightarrow> int \<Rightarrow> ('d, nat) cop" where
  "gorocksdb_slicetransform_name sliceTransforms idx = withEntry sliceTransforms idx (\<lambda>w. ret (st_name w))"

section \<open>What the callbacks do\<close>

text \<open>The loop over the lengths decodes every key in its place.\<close>

lemma keysLoop_from:
  "length keys = i + length keysLen \<Longrightarrow> length rawKeys = i + length keysLen \<Longrightarrow>
     keysLoop rawKeys keysLen i keys = take i keys @ map2 charToByte (drop i rawKeys) keysLen"
proof (induction keysLen arbitrary: i keys)
  case (Cons len keysLen)
  let ?keys = "keys[i := charToByte (rawKeys ! i) len]"
  have "drop i rawKeys = rawKeys ! i # drop (Suc i) rawKeys"
    using Cons.prems by (intro Cons_nth_drop_Suc [symmetric]) simp
  moreover have "take (Suc i) ?keys = take i keys @ [charToByte (rawKeys ! i) len]"
    using Cons.prems by (simp add: take_Suc_conv_app_nth)
  ultimately show ?case using Cons.IH [of ?keys "Suc i"] Cons.prems by simp
qed simp

lemma keysLoop_all:
  "length rawKeys = length keysLen \<Longrightarrow> length keys = length keysLen \<Longrightarrow>
     keysLoop rawKeys keysLen 0 keys = map2 charToByte rawKeys keysLen"
  using keysLoop_from [of keys 0 keysLen rawKeys] by simp

lemma map2_charToByte_Some: "map2 charToByte (map Some bs) (map length bs) = bs"
  by (induction bs) (simp_all add: charToByte_def)

lemma charToByte_Some [simp]: "charToByte (Some b) (length b) = b"
  by (simp add: charToByte_def)

lemma charToByte_byteToChar [simp]: "charToByte (byteToChar b) (length b) = b"
  by (simp add: charToByte_def byteToChar_def)

text \<open>What the library makes of the answer of a compaction filter: the new value, \<open>None\<close> to remove the pair.\<close>

definition compacted :: "bytes \<Rightarrow> nat \<times> (bytes option \<times> nat \<times> nat) option \<Rightarrow> bytes option" where
  "compacted val = (\<lambda>(r, out). if r \<noteq> 0 then None
     else (case out of Some (p, n, changed) \<Rightarrow> if changed \<noteq> 0 then Some (charToByte p n) else Some val
                     | None \<Rightarrow> Some val))"

lemma compaction_filter_run:
  assumes "Get compactionFilters idx = Some w"
  shows "\<exists>ans. gorocksdb_compactionfilter_filter compactionFilters idx level (Some key) (length key) (Some val) (length val) h = (Ok ans, h)
    \<and> compacted val ans = (case Filter (cof_filter w) level key val of
        (True, _) \<Rightarrow> None | (False, Some v) \<Rightarrow> Some v | (False, None) \<Rightarrow> Some val)"
  by (cases "Filter (cof_filter w) level key val")
    (auto simp: gorocksdb_compactionfilter_filter_def withEntry_def assms ret_apply compacted_def split: option.splits)

lemma create_filter_run:
  assumes "wfHeap h" and "Get filterPolicies idx = Some w"
  shows "\<exists>p h'. gorocksdb_filterpolicy_create_filter filterPolicies idx (map Some keys) (map length keys) (length keys) h
      = (Ok (p, length (CreateFilter (fp_filterPolicy w) keys)), h')
    \<and> charToByte (mem h' p) (length (CreateFilter (fp_filterPolicy w) keys)) = CreateFilter (fp_filterPolicy w) keys
    \<and> extends h h' (if CreateFilter (fp_filterPolicy w) keys = [] then {} else {p})"
proof -
  have keys: "keysLoop (map Some keys) (map length keys) 0 (replicate (length keys) []) = keys"
    using keysLoop_all [of "map Some keys" "map length keys" "replicate (length keys) []"] map2_charToByte_Some [of keys] by simp
  obtain p h' where "cByteSlice (CreateFilter (fp_filterPolicy w) keys) h = (Ok p, h')"
    "extends h h' (if CreateFilter (fp_filterPolicy w) keys = [] then {} else {p})"
    "charToByte (mem h' p) (length (CreateFilter (fp_filterPolicy w) keys)) = CreateFilter (fp_filterPolicy w) keys"
    using cByteSlice_run [OF assms(1), of "CreateFilter (fp_filterPolicy w) keys"] by blast
  then show ?thesis
    by (simp add: gorocksdb_filterpolicy_create_filter_def Let_def withEntry_def charSlice_def sizeSlice_def assms(2) keys andThen_apply ret_apply)
qed

lemma transform_run:
  assumes "wfHeap h" and "Get sliceTransforms idx = Some w"
  shows "\<exists>p h'. gorocksdb_slicetransform_transform sliceTransforms idx (Some src) (length src) h
      = (Ok (p, length (Transform (st_sliceTransform w) src)), h')
    \<and> charToByte (mem h' p) (length (Transform (st_sliceTransform w) src)) = Transform (st_sliceTransform w) src
    \<and> extends h h' (if Transform (st_sliceTransform w) src = [] then {} else {p})"
proof -
  obtain p h' where "cByteSlice (Transform (st_sliceTransform w) src) h = (Ok p, h')"
    "extends h h' (if Transform (st_sliceTransform w) src = [] then {} else {p})"
    "charToByte (mem h' p) (length (Transform (st_sliceTransform w) src)) = Transform (st_sliceTransform w) src"
    using cByteSlice_run [OF assms(1), of "Transform (st_sliceTransform w) src"] by blast
  then show ?thesis
    by (simp add: gorocksdb_slicetransform_transform_def Let_def withEntry_def assms(2) andThen_apply ret_apply)
qed

section \<open>Properties\<close>

text \<open>
  A filter never hides a key. For a filter policy that keeps the promise of its interface, and
  whatever is registered beside it, the library that has a filter created for some keys, and later
  passes the block it got back with one of these keys, is told that the key may match; creating
  the filter adds the block, none for an empty filter, and nothing else to the C heap.
\<close>

theorem filter_no_false_negatives:
  assumes "wfHeap h" and "registerFilterPolicy filterPolicies fp h0 = (Ok (filterPolicies', idx), h)"
    and "\<And>keys key. key \<in> set keys \<Longrightarrow> KeyMayMatch fp key (CreateFilter fp keys)" and "key \<in> set keys"
  shows "\<exists>p n h'. gorocksdb_filterpolicy_create_filter filterPolicies' (int idx) (map Some keys) (map length keys) (length keys) h
      = (Ok (p, n), h')
    \<and> gorocksdb_filterpolicy_key_may_match filterPolicies' (int idx) (Some key) (length key) (mem h' p) n h' = (Ok 1, h')
    \<and> extends h h' (if n = 0 then {} else {p})"
proof -
  obtain c where "Append filterPolicies \<lparr>fp_name = c, fp_filterPolicy = fp\<rparr> = (filterPolicies', idx)"
    using assms(2) by (auto simp: registerFilterPolicy_def CString_def malloc_def andThen_apply ret_apply)
  then have get: "Get filterPolicies' (int idx) = Some \<lparr>fp_name = c, fp_filterPolicy = fp\<rparr>" by (rule Append_Get)
  let ?f = "CreateFilter fp keys"
  obtain p h' where run: "gorocksdb_filterpolicy_create_filter filterPolicies' (int idx) (map Some keys) (map length keys) (length keys) h
      = (Ok (p, length ?f), h')" "charToByte (mem h' p) (length ?f) = ?f" "extends h h' (if ?f = [] then {} else {p})"
    using create_filter_run [OF assms(1) get, of keys] by auto
  have "gorocksdb_filterpolicy_key_may_match filterPolicies' (int idx) (Some key) (length key) (mem h' p) (length ?f) h' = (Ok 1, h')"
    using run(2) assms(3) [OF assms(4)]
    by (simp add: gorocksdb_filterpolicy_key_may_match_def Let_def withEntry_def get ret_apply boolToChar_def)
  then show ?thesis using run by auto
qed

text \<open>A policy whose filter is the list of the first bytes.\<close>

definition firstBytes :: FilterPolicy where
  "firstBytes = \<lparr>CreateFilter = (\<lambda>keys. map (\<lambda>k. case k of [] \<Rightarrow> NUL | c # _ \<Rightarrow> c) keys),
     KeyMayMatch = (\<lambda>key filt. (case key of [] \<Rightarrow> NUL | c # _ \<Rightarrow> c) \<in> set filt), PolicyName = ''first''\<rparr>"

theorem filter_no_false_negatives_witness:
  "\<exists>l idx h p n h'. registerFilterPolicy NewCOWList firstBytes \<lparr>mem = (\<lambda>_. None), brk = 1, lib = ()\<rparr> = (Ok (l, idx), h)
    \<and> gorocksdb_filterpolicy_create_filter l (int idx) [Some ''ab'', Some ''cd''] [2, 2] 2 h = (Ok (p, n), h')
    \<and> gorocksdb_filterpolicy_key_may_match l (int idx) (Some ''cd'') 2 (mem h' p) n h' = (Ok 1, h')"
proof -
  let ?start = "\<lparr>mem = (\<lambda>_. None), brk = 1, lib = ()\<rparr>"
  let ?reg = "?start\<lparr>mem := (mem ?start)(1 \<mapsto> ''first'' @ [NUL]), brk := 2\<rparr>"
  let ?l = "\<lparr>cow_v = [\<lparr>fp_name = 1, fp_filterPolicy = firstBytes\<rparr>], cow_mu = None\<rparr>"
  have reg: "registerFilterPolicy NewCOWList firstBytes ?start = (Ok (?l, 0), ?reg)"
    by (simp add: registerFilterPolicy_def CString_def malloc_def andThen_apply ret_apply Append_def NewCOWList_def firstBytes_def)
  have wf: "wfHeap ?reg" by (simp add: wfHeap_def)
  have law: "KeyMayMatch firstBytes key (CreateFilter firstBytes keys)" if "key \<in> set keys" for keys key
    using that by (force simp: firstBytes_def)
  have two: "length ''cd'' = 2" "length [''ab'', ''cd''] = 2" "map length [''ab'', ''cd''] = [2, 2]"
    "map Some [''ab'', ''cd''] = [Some ''ab'', Some ''cd'']" by simp_all
  have "''cd'' \<in> set [''ab'', ''cd'']" by simp
  from filter_no_false_negatives [OF wf reg law this, unfolded two] reg show ?thesis by blast
qed

text \<open>
  What a compaction filter answers is what the library does with the pair: it removes it, changes
  the value, also to the empty one, or leaves it. Its memory is not touched.
\<close>

theorem compaction_filter_exact:
  assumes "registerCompactionFilter compactionFilters filt h0 = (Ok (compactionFilters', idx), h)"
  shows "\<exists>ans. gorocksdb_compactionfilter_filter compactionFilters' (int idx) level (Some key) (length key) (Some val) (length val) h
      = (Ok ans, h)
    \<and> compacted val ans = (case Filter filt level key val of
        (True, _) \<Rightarrow> None | (False, Some v) \<Rightarrow> Some v | (False, None) \<Rightarrow> Some val)"
proof -
  obtain c where "Append compactionFilters \<lparr>cof_name = c, cof_filter = filt\<rparr> = (compactionFilters', idx)"
    using assms by (auto simp: registerCompactionFilter_def CString_def malloc_def andThen_apply ret_apply)
  from compaction_filter_run [OF Append_Get [OF this], of level key val h] show ?thesis by simp
qed

end
