(* ===== verification/Slice_Headers.thy ===== *)
theory Slice_Headers
  imports Callbacks_Filters "HOL-Library.Word"
begin

text \<open>
  Where the binding reads and writes the headers of Go slices and strings: the conversions of
  \<^verbatim>\<open>util.go\<close> and the methods \<^verbatim>\<open>c\<close> of \<^verbatim>\<open>array.go\<close>, over a memory of cells at addresses. The other theories
  have these conversions on the contents alone; here they are the same on the memory behind a header,
  and the methods \<^verbatim>\<open>c\<close> undo the conversions from C arrays.
\<close>

section \<open>Headers\<close>

text \<open>The headers of Go's \<^verbatim>\<open>reflect\<close>; an \<^verbatim>\<open>int\<close> is a word of 64 bits that is read with its sign.\<close>

record SliceHeader =
  sh_Data :: uint64
  sh_Len :: uint64
  sh_Cap :: uint64

record StringHeader =
  str_Data :: uint64
  str_Len :: uint64

definition nilSlice :: SliceHeader where
  "nilSlice = \<lparr>sh_Data = 0, sh_Len = 0, sh_Cap = 0\<rparr>"

text \<open>\<^verbatim>\<open>charToByte\<close>, \<^verbatim>\<open>charSlice\<close> and \<^verbatim>\<open>sizeSlice\<close> fill in the header of a nil slice.\<close>

definition charToByteH :: "uint64 \<Rightarrow> uint64 \<Rightarrow> SliceHeader" where
  "charToByteH data len = nilSlice\<lparr>sh_Cap := len, sh_Len := len, sh_Data := data\<rparr>"

definition charSliceH :: "uint64 \<Rightarrow> 32 word \<Rightarrow> SliceHeader" where
  "charSliceH data len = nilSlice\<lparr>sh_Cap := scast len, sh_Len := scast len, sh_Data := data\<rparr>"

definition sizeSliceH :: "uint64 \<Rightarrow> 32 word \<Rightarrow> SliceHeader" where
  "sizeSliceH data len = nilSlice\<lparr>sh_Cap := scast len, sh_Len := scast len, sh_Data := data\<rparr>"

definition byteToCharH :: "SliceHeader \<Rightarrow> uint64" where
  "byteToCharH b = (if sint (sh_Len b) > 0 then sh_Data b else 0)"

definition stringToChar :: "StringHeader \<Rightarrow> uint64" where
  "stringToChar s = str_Data s"

definition charsSlice_c :: "SliceHeader \<Rightarrow> uint64" where
  "charsSlice_c s = sh_Data s"

definition sizeTSlice_c :: "SliceHeader \<Rightarrow> uint64" where
  "sizeTSlice_c s = sh_Data s"

definition columnFamilySlice_c :: "SliceHeader \<Rightarrow> uint64" where
  "columnFamilySlice_c s = sh_Data s"

section \<open>What a header stands for\<close>

text \<open>The cells from an address on, each as wide as the stride, and the elements of a slice.\<close>

definition cellsAt :: "(uint64 \<Rightarrow> 'a) \<Rightarrow> uint64 \<Rightarrow> uint64 \<Rightarrow> nat \<Rightarrow> 'a list" where
  "cellsAt m stride addr n = map (\<lambda>i. m (addr + word_of_nat i * stride)) [0..<n]"

definition elements :: "(uint64 \<Rightarrow> 'a) \<Rightarrow> uint64 \<Rightarrow> SliceHeader \<Rightarrow> 'a list" where
  "elements m stride h = cellsAt m stride (sh_Data h) (nat (sint (sh_Len h)))"

lemma cellsAt_take: "n \<le> k \<Longrightarrow> cellsAt m stride addr n = take n (cellsAt m stride addr k)"
  by (simp add: cellsAt_def take_map)

lemma sint_of_nat64: "n < 2 ^ 63 \<Longrightarrow> sint (word_of_nat n :: 64 word) = int n"
  using int_word_sint [of "int n", where 'a = 64] by simp

lemma sint_of_nat32: "n < 2 ^ 31 \<Longrightarrow> sint (word_of_nat n :: 32 word) = int n"
  using int_word_sint [of "int n", where 'a = 32] by simp

lemma sint_scast32: "sint (scast (v :: 32 word) :: 64 word) = sint v"
  by (rule sint_up_scast) (simp add: is_up)

text \<open>
  The bytes of a slice that \<^verbatim>\<open>charToByte\<close> makes are those of \<open>charToByte\<close> on the block, when the length
  is one of the block. A length from \<open>2\<^sup>6\<^sup>3\<close> on makes a slice with a negative length.
\<close>

lemma elements_charToByteH:
  assumes "cellsAt m 1 data (length d) = d" and "len \<le> length d" and "len < 2 ^ 63"
  shows "elements m 1 (charToByteH data (word_of_nat len)) = charToByte (Some d) len"
  using assms cellsAt_take [OF assms(2), of m 1 data]
  by (simp add: elements_def charToByteH_def nilSlice_def charToByte_def sint_of_nat64)

lemma sint_negative64: "sint (v :: 64 word) < 0 \<longleftrightarrow> 2 ^ 63 \<le> unat v"
proof -
  define n where "n = unat v"
  have v: "v = word_of_nat n" by (simp add: n_def)
  have n: "n < 2 ^ 64" using unsigned_less [of v] by (simp add: n_def)
  have "sint v = (int n + 2 ^ 63) mod 2 ^ 64 - 2 ^ 63" unfolding v using int_word_sint [of "int n", where 'a = 64] by simp
  moreover have "(int n + 2 ^ 63) mod 2 ^ 64 < 2 ^ 63 \<longleftrightarrow> 2 ^ 63 \<le> n"
  proof (cases "n < 2 ^ 63")
    case False
    have "(int n + 2 ^ 63) mod 2 ^ 64 = (int n - 2 ^ 63 + 2 ^ 64) mod 2 ^ 64" by (simp add: add.commute)
    also have "\<dots> = int n - 2 ^ 63" using False n by (subst mod_add_self2) (simp add: mod_pos_pos_trivial)
    finally have "(int n + 2 ^ 63) mod 2 ^ 64 = int n - 2 ^ 63" .
    then show ?thesis using n False by simp
  qed (use n in simp)
  ultimately show ?thesis by (simp add: n_def)
qed

lemma charToByteH_negative: "sint (sh_Len (charToByteH data len)) < 0 \<longleftrightarrow> 2 ^ 63 \<le> unat len"
  by (simp add: charToByteH_def nilSlice_def sint_negative64)

text \<open>The same for the C arrays, whose length is a C \<^verbatim>\<open>int\<close>.\<close>

lemma elements_charSliceH:
  assumes "cellsAt m 8 data (length ps) = ps" and "len \<le> length ps" and "len < 2 ^ 31"
  shows "elements m 8 (charSliceH data (word_of_nat len)) = charSlice ps len"
  using assms cellsAt_take [OF assms(2), of m 8 data]
  by (simp add: elements_def charSliceH_def nilSlice_def charSlice_def sint_scast32 sint_of_nat32)

lemma elements_sizeSliceH:
  assumes "cellsAt m 8 data (length ns) = ns" and "len \<le> length ns" and "len < 2 ^ 31"
  shows "elements m 8 (sizeSliceH data (word_of_nat len)) = sizeSlice ns len"
  using assms cellsAt_take [OF assms(2), of m 8 data]
  by (simp add: elements_def sizeSliceH_def nilSlice_def sizeSlice_def sint_scast32 sint_of_nat32)

text \<open>A pointer that is passed to C is null exactly for no bytes, or has the bytes behind it.\<close>

lemma byteToCharH_block:
  assumes "elements m 1 b = bs" and "sh_Data b \<noteq> 0"
  shows "(byteToCharH b = 0 \<longleftrightarrow> byteToChar bs = None)
    \<and> (\<forall>block. byteToChar bs = Some block \<longrightarrow> cellsAt m 1 (byteToCharH b) (length block) = block)"
  using assms by (auto simp: elements_def byteToCharH_def byteToChar_def cellsAt_def split: if_splits)

text \<open>The methods \<^verbatim>\<open>c\<close> give the array that a slice was made of, and the elements are at it.\<close>

lemma c_of_array:
  "charsSlice_c (charSliceH data len) = data" "sizeTSlice_c (sizeSliceH data len) = data"
  by (simp_all add: charsSlice_c_def sizeTSlice_c_def charSliceH_def sizeSliceH_def)

lemma array_of_c:
  assumes "sh_Cap s = sh_Len s" and "sh_Len s = scast len"
  shows "charSliceH (charsSlice_c s) len = s" and "sizeSliceH (sizeTSlice_c s) len = s"
  using assms by (simp_all add: charsSlice_c_def sizeTSlice_c_def charSliceH_def sizeSliceH_def nilSlice_def)

end
