(* ===== verification/Node.thy ===== *)
theory Node
  imports Messages
begin

unbundle bit_operations_syntax

text \<open>
  How a process finds out who it is, \<^verbatim>\<open>src/dcrontab/main.go\<close> lines 77 to 125 and 332 to 449: the
  configuration and its JSON text, the public addresses of the machine, the search of the
  configured addresses for the own node id, and the check of the result. The interfaces of
  the machine and the answers of the name service are arguments.
\<close>

section \<open>The configuration\<close>

record Service =
  Service_Service :: string
  Service_Hosts :: "string list"
  Service_CACert :: string
  Service_Cert :: string
  Service_Key :: string
  Service_Secure :: bool
  Service_Critical :: bool
  Service_Context :: string
  Service_Format :: string

record Configuration =
  Configuration_ClusterID :: uint64
  Configuration_NodeID :: int
  Configuration_Address :: string
  Configuration_Addresses :: "string list"
  Configuration_UseHostnameIdentification :: bool
  Configuration_UseTLS :: bool
  Configuration_TLSCACert :: string
  Configuration_TLSCert :: string
  Configuration_TLSKey :: string
  Configuration_Commands :: "Command list"
  Configuration_Debug :: bool
  Configuration_NatsService :: Service

definition emptyService :: Service where
  "emptyService = \<lparr>Service_Service = '''', Service_Hosts = [], Service_CACert = '''', Service_Cert = '''',
     Service_Key = '''', Service_Secure = False, Service_Critical = False, Service_Context = '''',
     Service_Format = ''''\<rparr>"

definition emptyConfiguration :: Configuration where
  "emptyConfiguration = \<lparr>Configuration_ClusterID = 0, Configuration_NodeID = 0, Configuration_Address = '''',
     Configuration_Addresses = [], Configuration_UseHostnameIdentification = False,
     Configuration_UseTLS = False, Configuration_TLSCACert = '''', Configuration_TLSCert = '''',
     Configuration_TLSKey = '''', Configuration_Commands = [], Configuration_Debug = False,
     Configuration_NatsService = emptyService\<rparr>"

text \<open>
  Storing a number into a \<^verbatim>\<open>uint64\<close> and an array into a slice. An element is stored over the one
  that a repeated key left at its place, as the decoder does.
\<close>

definition intoUint64 :: "json \<Rightarrow> uint64 \<Rightarrow> uint64 \<times> bool" where
  "intoUint64 v old =
     (case v of
        JNum l \<Rightarrow> (case ParseUint l of Inr i \<Rightarrow> (i, True) | Inl _ \<Rightarrow> (old, False))
      | JNull \<Rightarrow> (old, True)
      | _ \<Rightarrow> (old, False))"

fun intoElems :: "(json \<Rightarrow> 'a \<Rightarrow> 'a \<times> bool) \<Rightarrow> 'a \<Rightarrow> json list \<Rightarrow> 'a list \<Rightarrow> 'a list \<times> bool" where
  "intoElems into zero [] old = ([], True)"
| "intoElems into zero (v # vs) old =
     (case into v (case old of [] \<Rightarrow> zero | x # _ \<Rightarrow> x) of (x', ok) \<Rightarrow>
        (case intoElems into zero vs (tl old) of (xs, ok') \<Rightarrow> (x' # xs, ok \<and> ok')))"

definition intoSlice :: "(json \<Rightarrow> 'a \<Rightarrow> 'a \<times> bool) \<Rightarrow> 'a \<Rightarrow> json \<Rightarrow> 'a list \<Rightarrow> 'a list \<times> bool" where
  "intoSlice into zero v old =
     (case v of
        JArr vs \<Rightarrow> intoElems into zero vs old
      | JNull \<Rightarrow> ([], True)
      | _ \<Rightarrow> (old, False))"

text \<open>A field of a struct: the function that stores, the field's value and its update.\<close>

definition store :: "(json \<Rightarrow> 'v \<Rightarrow> 'v \<times> bool) \<Rightarrow> json \<Rightarrow> ('a \<Rightarrow> 'v) \<Rightarrow> (('v \<Rightarrow> 'v) \<Rightarrow> 'a \<Rightarrow> 'a) \<Rightarrow> 'a \<Rightarrow> 'a \<times> bool" where
  "store into v sel upd x = (case into v (sel x) of (y, ok) \<Rightarrow> (upd (\<lambda>_. y) x, ok))"

definition serviceField :: "string \<Rightarrow> json \<Rightarrow> Service \<Rightarrow> Service \<times> bool" where
  "serviceField k v =
     (if foldMatch ''Service'' k then store intoString v Service_Service Service_Service_update
      else if foldMatch ''Hosts'' k then store (intoSlice intoString '''') v Service_Hosts Service_Hosts_update
      else if foldMatch ''CACert'' k then store intoString v Service_CACert Service_CACert_update
      else if foldMatch ''Cert'' k then store intoString v Service_Cert Service_Cert_update
      else if foldMatch ''Key'' k then store intoString v Service_Key Service_Key_update
      else if foldMatch ''Secure'' k then store intoBool v Service_Secure Service_Secure_update
      else if foldMatch ''Critical'' k then store intoBool v Service_Critical Service_Critical_update
      else if foldMatch ''Context'' k then store intoString v Service_Context Service_Context_update
      else if foldMatch ''Format'' k then store intoString v Service_Format Service_Format_update
      else (\<lambda>s. (s, True)))"

definition configurationField :: "string \<Rightarrow> json \<Rightarrow> Configuration \<Rightarrow> Configuration \<times> bool" where
  "configurationField k v =
     (if foldMatch ''ClusterID'' k then store intoUint64 v Configuration_ClusterID Configuration_ClusterID_update
      else if foldMatch ''NodeID'' k then store intoInt v Configuration_NodeID Configuration_NodeID_update
      else if foldMatch ''Address'' k then store intoString v Configuration_Address Configuration_Address_update
      else if foldMatch ''Addresses'' k then
        store (intoSlice intoString '''') v Configuration_Addresses Configuration_Addresses_update
      else if foldMatch ''UseHostnameIdentification'' k then
        store intoBool v Configuration_UseHostnameIdentification Configuration_UseHostnameIdentification_update
      else if foldMatch ''UseTLS'' k then store intoBool v Configuration_UseTLS Configuration_UseTLS_update
      else if foldMatch ''TLSCACert'' k then store intoString v Configuration_TLSCACert Configuration_TLSCACert_update
      else if foldMatch ''TLSCert'' k then store intoString v Configuration_TLSCert Configuration_TLSCert_update
      else if foldMatch ''TLSKey'' k then store intoString v Configuration_TLSKey Configuration_TLSKey_update
      else if foldMatch ''Commands'' k then
        store (intoSlice (intoStruct commandField) emptyCommand) v Configuration_Commands Configuration_Commands_update
      else if foldMatch ''Debug'' k then store intoBool v Configuration_Debug Configuration_Debug_update
      else if foldMatch ''NatsService'' k then
        store (intoStruct serviceField) v Configuration_NatsService Configuration_NatsService_update
      else (\<lambda>c. (c, True)))"

text \<open>
  \<^verbatim>\<open>decoder.Decode(&configuration)\<close> reads the first JSON value of the file; what follows it is
  not looked at. A file that cannot be opened reads as an error.
\<close>

definition decodeConfiguration :: "bytes \<Rightarrow> error + Configuration" where
  "decodeConfiguration data =
     (case parseValue (2 * length data + 1) data of
        None \<Rightarrow> Inl JsonSyntaxError
      | Some (v, _) \<Rightarrow>
          (case intoStruct configurationField v emptyConfiguration of
             (c, ok) \<Rightarrow> if ok then Inr c else Inl JsonTypeError))"

definition loadConfiguration :: "(string \<Rightarrow> error + bytes) \<Rightarrow> string \<Rightarrow> error + Configuration" where
  "loadConfiguration files configFile =
     (case files configFile of Inl e \<Rightarrow> Inl e | Inr data \<Rightarrow> decodeConfiguration data)"

section \<open>Addresses of the machine\<close>

text \<open>
  A \<^verbatim>\<open>net.IP\<close> is a byte slice, \<open>None\<close> when nil: four bytes, or sixteen of which a certain prefix
  marks an IPv4 address.
\<close>

type_synonym ip = "bytes option"

definition v4InV6Prefix :: bytes where
  "v4InV6Prefix = replicate 10 (byte 0) @ replicate 2 (byte 255)"

definition To4 :: "ip \<Rightarrow> ip" where
  "To4 ip = (case ip of
       None \<Rightarrow> None
     | Some b \<Rightarrow> if length b = 4 then Some b
                  else if length b = 16 \<and> take 12 b = v4InV6Prefix then Some (drop 12 b)
                  else None)"

definition IsLoopback :: "ip \<Rightarrow> bool" where
  "IsLoopback ip = (case To4 ip of
       Some b \<Rightarrow> ord (b ! 0) = 127
     | None \<Rightarrow> ip = Some (replicate 15 (byte 0) @ [byte 1]))"

definition dotted :: "bytes \<Rightarrow> string" where
  "dotted b = Join (map (dec \<circ> ord) b) ''.''"

text \<open>An IPv6 address is printed with its longest run of zero groups left out.\<close>

fun hex :: "nat \<Rightarrow> string" where
  "hex n = (if n < 16 then [hexDigit n] else hex (n div 16) @ [hexDigit (n mod 16)])"

declare hex.simps [simp del]

fun groups :: "bytes \<Rightarrow> nat list" where
  "groups (a # b # bs) = (256 * ord a + ord b) # groups bs"
| "groups _ = []"

fun longestZeros :: "nat \<Rightarrow> nat list \<Rightarrow> nat \<times> nat" where
  "longestZeros i [] = (i, 0)"
| "longestZeros i (g # gs) =
     (let n = length (takeWhile (\<lambda>x. x = 0) (g # gs)); (j, m) = longestZeros (Suc i) gs
      in if m \<le> n \<and> n > 0 then (i, n) else (j, m))"

definition ipString :: "ip \<Rightarrow> string" where
  "ipString ip = (case ip of
       None \<Rightarrow> ''<nil>''
     | Some [] \<Rightarrow> ''<nil>''
     | Some b \<Rightarrow> (case To4 ip of
           Some q \<Rightarrow> dotted q
         | None \<Rightarrow>
             if length b \<noteq> 16 then ''?'' @ concat (map (\<lambda>c. [hexDigit (ord c div 16), hexDigit (ord c mod 16)]) b)
             else (case longestZeros 0 (groups b) of (s, n) \<Rightarrow>
                     if n \<ge> 2
                     then Join (map hex (take s (groups b))) '':'' @ ''::'' @ Join (map hex (drop (s + n) (groups b))) '':''
                     else Join (map hex (groups b)) '':'')))"

text \<open>
  A network interface: its flags and what \<^verbatim>\<open>Addrs\<close> returns. An address is a network, an address,
  or some other implementation of \<^verbatim>\<open>net.Addr\<close>, for which \<^verbatim>\<open>ip\<close> stays nil.
\<close>

datatype netAddr = IPNet ip | IPAddr ip | OtherAddr

record Interface =
  if_Flags :: uint64
  if_Addrs :: "error + netAddr list"

definition FlagUp :: uint64 where "FlagUp = 1"
definition FlagLoopback :: uint64 where "FlagLoopback = 4"

definition addrIP :: "netAddr \<Rightarrow> ip" where
  "addrIP a = (case a of IPNet ip \<Rightarrow> ip | IPAddr ip \<Rightarrow> ip | OtherAddr \<Rightarrow> None)"

fun addrLoop :: "netAddr list \<Rightarrow> string list \<Rightarrow> string list" where
  "addrLoop [] ips = ips"
| "addrLoop (addr # addrs) ips =
     (let ip = addrIP addr
      in if ip = None \<or> IsLoopback ip then addrLoop addrs ips
         else if To4 ip = None then addrLoop addrs ips
         else addrLoop addrs (ips @ [ipString (To4 ip)]))"

fun ifaceLoop :: "Interface list \<Rightarrow> string list \<Rightarrow> error + string list" where
  "ifaceLoop [] ips = Inr ips"
| "ifaceLoop (iface # ifaces) ips =
     (if if_Flags iface AND FlagUp = 0 then ifaceLoop ifaces ips
      else if if_Flags iface AND FlagLoopback \<noteq> 0 then ifaceLoop ifaces ips
      else (case if_Addrs iface of
              Inl e \<Rightarrow> Inl e
            | Inr addrs \<Rightarrow> ifaceLoop ifaces (addrLoop addrs ips)))"

text \<open>The result is the slice and the error that \<^verbatim>\<open>publicIPs\<close> returns together.\<close>

definition publicIPs :: "error + Interface list \<Rightarrow> string list \<times> error option" where
  "publicIPs interfaces =
     (case interfaces of
        Inl e \<Rightarrow> ([], Some e)
      | Inr ifaces \<Rightarrow>
          (case ifaceLoop ifaces [] of
             Inl e \<Rightarrow> ([], Some e)
           | Inr ips \<Rightarrow> if length ips > 0 then (ips, None)
                        else ([], Some (ErrorString ''are you connected to the network?''))))"

section \<open>The own node id\<close>

text \<open>
  The name service answers a host name with addresses; its answer may differ from call to
  call, so it takes the number of calls made before. A match by prefix leaves the loop over
  the machine's addresses, a match by host name only the loop over the answer.
\<close>

type_synonym resolver = "nat \<Rightarrow> string \<Rightarrow> error + ip list"

fun ipLoop :: "bool \<Rightarrow> resolver \<Rightarrow> string \<Rightarrow> nat \<Rightarrow> string list \<Rightarrow> int \<times> nat \<Rightarrow> int \<times> nat" where
  "ipLoop useHostname LookupIP v idx [] (nid, t) = (nid, t)"
| "ipLoop useHostname LookupIP v idx (ip # ips) (nid, t) =
     (if HasPrefix v ip then (int idx + 1, t)
      else if useHostname then
        (let hn = Split v CHR '':'' ! 0
         in ipLoop useHostname LookupIP v idx ips
              (case LookupIP t hn of
                 Inl _ \<Rightarrow> nid
               | Inr hnips \<Rightarrow> if ip \<in> set (map ipString hnips) then int idx + 1 else nid, Suc t))
      else ipLoop useHostname LookupIP v idx ips (nid, t))"

text \<open>\<^verbatim>\<open>peers\<close> maps node ids to addresses.\<close>

type_synonym peers = "uint64 \<Rightarrow> string option"

fun addressLoop :: "bool \<Rightarrow> resolver \<Rightarrow> string list \<Rightarrow> nat \<Rightarrow> string list \<Rightarrow> peers \<times> int \<times> nat
    \<Rightarrow> peers \<times> int \<times> nat" where
  "addressLoop useHostname LookupIP ips idx [] st = st"
| "addressLoop useHostname LookupIP ips idx (v # vs) (peers, nid, t) =
     (let peers' = peers(word_of_nat (idx + 1) \<mapsto> v);
          (nid', t') = (if nid = 0 then ipLoop useHostname LookupIP v idx ips (nid, t) else (nid, t))
      in addressLoop useHostname LookupIP ips (Suc idx) vs (peers', nid', t'))"

record Args =
  arg_config :: string
  arg_nodeid :: int
  arg_addr :: string
  arg_join :: bool

text \<open>
  Lines 412 to 449: the peers, the node id and the node's address; \<open>None\<close> is the exit with
  status 1. A key that is not in the map reads as the empty string.
\<close>

definition identifyNode :: "Args \<Rightarrow> Configuration \<Rightarrow> string list \<Rightarrow> resolver \<Rightarrow> (peers \<times> int \<times> string) option" where
  "identifyNode args conf ips LookupIP =
     (let (peers, nodeID, t) =
            (if \<not> arg_join args
             then addressLoop (Configuration_UseHostnameIdentification conf) LookupIP ips 0
                    (Configuration_Addresses conf) (Map.empty, arg_nodeid args, 0)
             else (Map.empty, arg_nodeid args, 0))
      in if length (arg_addr args) = 0 \<and> (nodeID = 0 \<or> nodeID > int (length (Configuration_Addresses conf)))
         then None
         else Some (peers, nodeID,
                if length (arg_addr args) \<noteq> 0 then arg_addr args
                else (case peers (word_of_int nodeID) of None \<Rightarrow> '''' | Some a \<Rightarrow> a)))"

section \<open>What the searches find\<close>

text \<open>The addresses that count: not nil, not a loopback address, and an IPv4 address.\<close>

definition publicAddr :: "netAddr \<Rightarrow> bool" where
  "publicAddr a \<longleftrightarrow> addrIP a \<noteq> None \<and> \<not> IsLoopback (addrIP a) \<and> To4 (addrIP a) \<noteq> None"

definition publicInterface :: "Interface \<Rightarrow> bool" where
  "publicInterface i \<longleftrightarrow> if_Flags i AND FlagUp \<noteq> 0 \<and> if_Flags i AND FlagLoopback = 0"

definition publicAddrs :: "Interface \<Rightarrow> string list" where
  "publicAddrs i = (case if_Addrs i of
       Inl _ \<Rightarrow> []
     | Inr addrs \<Rightarrow> map (\<lambda>a. ipString (To4 (addrIP a))) (filter publicAddr addrs))"

lemma addrLoop_eq:
  "addrLoop addrs ips = ips @ map (\<lambda>a. ipString (To4 (addrIP a))) (filter publicAddr addrs)"
  by (induction addrs arbitrary: ips) (auto simp: publicAddr_def Let_def)

lemma ifaceLoop_eq:
  assumes "\<forall>i \<in> set ifaces. publicInterface i \<longrightarrow> (\<exists>addrs. if_Addrs i = Inr addrs)"
  shows "ifaceLoop ifaces ips = Inr (ips @ concat (map publicAddrs (filter publicInterface ifaces)))"
  using assms
proof (induction ifaces arbitrary: ips)
  case (Cons i ifaces)
  show ?case
  proof (cases "publicInterface i")
    case True
    then obtain addrs where "if_Addrs i = Inr addrs" using Cons.prems by auto
    with True Cons show ?thesis
      by (simp add: publicInterface_def publicAddrs_def addrLoop_eq)
  next
    case False
    with Cons show ?thesis by (auto simp: publicInterface_def)
  qed
qed simp

lemma ifaceLoop_error:
  "ifaceLoop ifaces ips = Inl e \<Longrightarrow> \<exists>i \<in> set ifaces. publicInterface i \<and> if_Addrs i = Inl e"
  by (induction ifaces arbitrary: ips) (auto simp: publicInterface_def split: if_splits sum.splits)

text \<open>The peers of a configuration: the addresses numbered from one.\<close>

definition peersOf :: "string list \<Rightarrow> peers" where
  "peersOf addrs k = (if 1 \<le> unat k \<and> unat k \<le> length addrs then Some (addrs ! (unat k - 1)) else None)"

lemma peersOf_snoc:
  assumes "length addrs + 1 < 2 ^ 64"
  shows "(peersOf addrs)(word_of_nat (length addrs + 1) \<mapsto> v) = peersOf (addrs @ [v])"
proof
  fix k :: uint64
  have u: "unat (word_of_nat (length addrs + 1) :: uint64) = length addrs + 1"
    using assms by (rule unat_word_of_nat64)
  have "k = word_of_nat (length addrs + 1) \<longleftrightarrow> unat k = length addrs + 1"
    using u by (metis word_unat_eq_iff)
  then show "((peersOf addrs)(word_of_nat (length addrs + 1) \<mapsto> v)) k = peersOf (addrs @ [v]) k"
    by (auto simp: peersOf_def nth_append)
qed

text \<open>The node id that the search finds at one address, and the first that it finds.\<close>

lemma ipLoop_result: "fst (ipLoop h L v idx ips (nid, t)) \<in> {nid, int idx + 1}"
proof (induction ips arbitrary: nid t)
  case (Cons ip ips)
  show ?case
    using Cons [of nid t] Cons [of nid "Suc t"] Cons [of "int idx + 1" "Suc t"] by (auto split: sum.splits)
qed simp

lemma ipLoop_prefix:
  "ipLoop False L v idx ips (nid, t) = (if \<exists>ip \<in> set ips. HasPrefix v ip then (int idx + 1, t) else (nid, t))"
  by (induction ips arbitrary: nid t) auto

definition matches :: "string list \<Rightarrow> string \<Rightarrow> bool" where
  "matches ips v \<longleftrightarrow> (\<exists>ip \<in> set ips. HasPrefix v ip)"

fun firstMatch :: "string list \<Rightarrow> nat \<Rightarrow> string list \<Rightarrow> int" where
  "firstMatch ips idx [] = 0"
| "firstMatch ips idx (v # vs) = (if matches ips v then int idx + 1 else firstMatch ips (Suc idx) vs)"

lemma addressLoop_peers:
  assumes "idx = length done" and "length done + length vs < 2 ^ 64"
  shows "fst (addressLoop h L ips idx vs (peersOf done, nid, t)) = peersOf (done @ vs)"
  using assms
proof (induction vs arbitrary: "done" idx nid t)
  case (Cons v vs)
  have "(peersOf done)(word_of_nat (idx + 1) \<mapsto> v) = peersOf (done @ [v])"
    using peersOf_snoc [of "done" v] Cons.prems by simp
  moreover obtain n u where "(if nid = 0 then ipLoop h L v idx ips (nid, t) else (nid, t)) = (n, u)"
    by fastforce
  ultimately show ?case
    using Cons.IH [of "Suc idx" "done @ [v]" n u] Cons.prems by (auto simp: Let_def simp del: fun_upd_apply)
qed simp

lemma addressLoop_found:
  "nid \<noteq> 0 \<Longrightarrow> snd (addressLoop h L ips idx vs (peers, nid, t)) = (nid, t)"
  by (induction vs arbitrary: idx peers) (auto simp: Let_def)

lemma addressLoop_range:
  "fst (snd (addressLoop h L ips idx vs (peers, 0, t))) = 0 \<or>
   (int idx < fst (snd (addressLoop h L ips idx vs (peers, 0, t)))
     \<and> fst (snd (addressLoop h L ips idx vs (peers, 0, t))) \<le> int (idx + length vs))"
proof (induction vs arbitrary: idx peers t)
  case (Cons v vs)
  obtain n u where ip: "ipLoop h L v idx ips (0, t) = (n, u)" by fastforce
  have "n = 0 \<or> n = int idx + 1" using ipLoop_result [of h L v idx ips 0 t] by (simp add: ip)
  then show ?case
  proof
    assume "n = 0"
    with Cons [of "Suc idx" "peers(word_of_nat (idx + 1) \<mapsto> v)" u] show ?thesis
      by (auto simp: ip Let_def simp del: fun_upd_apply)
  next
    assume "n = int idx + 1"
    then show ?thesis by (simp add: ip Let_def addressLoop_found)
  qed
qed simp

lemma addressLoop_firstMatch:
  "fst (snd (addressLoop False L ips idx vs (peers, 0, t))) = firstMatch ips idx vs"
  by (induction vs arbitrary: idx peers t)
    (auto simp: Let_def ipLoop_prefix matches_def addressLoop_found)

lemma identifyNode_not_joining:
  assumes "\<not> arg_join args" and "length (Configuration_Addresses conf) < 2 ^ 64"
    and "addressLoop (Configuration_UseHostnameIdentification conf) L ips 0 (Configuration_Addresses conf)
           (Map.empty, arg_nodeid args, 0) = (peers, nid, t)"
  shows "peers = peersOf (Configuration_Addresses conf)"
    and "identifyNode args conf ips L =
      (if arg_addr args = '''' \<and> (nid = 0 \<or> nid > int (length (Configuration_Addresses conf))) then None
       else Some (peersOf (Configuration_Addresses conf), nid,
         if arg_addr args \<noteq> '''' then arg_addr args
         else case peersOf (Configuration_Addresses conf) (word_of_int nid) of None \<Rightarrow> '''' | Some a \<Rightarrow> a))"
proof -
  have "peersOf [] = Map.empty" by (rule ext) (simp add: peersOf_def)
  then show p: "peers = peersOf (Configuration_Addresses conf)"
    using addressLoop_peers [of 0 "[]" "Configuration_Addresses conf" "Configuration_UseHostnameIdentification conf" L
        ips "arg_nodeid args" 0] assms by simp
  show "identifyNode args conf ips L =
      (if arg_addr args = '''' \<and> (nid = 0 \<or> nid > int (length (Configuration_Addresses conf))) then None
       else Some (peersOf (Configuration_Addresses conf), nid,
         if arg_addr args \<noteq> '''' then arg_addr args
         else case peersOf (Configuration_Addresses conf) (word_of_int nid) of None \<Rightarrow> '''' | Some a \<Rightarrow> a))"
    using assms p by (simp add: identifyNode_def)
qed

lemma peersOf_word_of_int:
  assumes "0 < nid" and "nid \<le> int (length addrs)" and "length addrs < 2 ^ 64"
  shows "peersOf addrs (word_of_int nid) = Some (addrs ! nat (nid - 1))"
proof -
  have "unat (word_of_int nid :: uint64) = nat nid"
    using assms unat_word_of_nat64 [of "nat nid"] by simp
  with assms show ?thesis by (simp add: peersOf_def nat_diff_distrib Suc_le_eq nat_le_iff)
qed

lemma firstMatch_Some:
  "firstMatch ips idx vs = nid \<Longrightarrow> nid \<noteq> 0 \<Longrightarrow>
   \<exists>i < length vs. nid = int (idx + i) + 1 \<and> matches ips (vs ! i) \<and> (\<forall>j < i. \<not> matches ips (vs ! j))"
proof (induction vs arbitrary: idx)
  case (Cons v vs)
  show ?case
  proof (cases "matches ips v")
    case True
    with Cons.prems show ?thesis by (intro exI [of _ 0]) auto
  next
    case False
    with Cons obtain i where i: "i < length vs" "nid = int (Suc idx + i) + 1" "matches ips (vs ! i)"
      "\<forall>j < i. \<not> matches ips (vs ! j)" by (metis firstMatch.simps(2))
    with False show ?thesis by (intro exI [of _ "Suc i"]) (auto simp: less_Suc_eq_0_disj)
  qed
qed simp

lemma firstMatch_0: "firstMatch ips idx vs = 0 \<Longrightarrow> \<forall>v \<in> set vs. \<not> matches ips v"
  by (induction vs arbitrary: idx) (auto split: if_splits)

lemma identifyNode_sound:
  assumes "\<not> arg_join args" and "arg_nodeid args \<ge> 0" and "arg_addr args = ''''"
    and "length (Configuration_Addresses conf) < 2 ^ 64" and "identifyNode args conf ips L = Some (peers, nid, addr)"
  shows "1 \<le> nid \<and> nid \<le> int (length (Configuration_Addresses conf))
    \<and> addr = Configuration_Addresses conf ! nat (nid - 1) \<and> peers (word_of_int nid) = Some addr
    \<and> (arg_nodeid args \<noteq> 0 \<longrightarrow> nid = arg_nodeid args)"
proof -
  let ?vs = "Configuration_Addresses conf" and ?h = "Configuration_UseHostnameIdentification conf"
  obtain peers' nid' t where run: "addressLoop ?h L ips 0 ?vs (Map.empty, arg_nodeid args, 0) = (peers', nid', t)"
    by (metis prod_cases3)
  note r = identifyNode_not_joining(2) [OF assms(1,4) run]
  have "nid' = arg_nodeid args \<or> arg_nodeid args = 0 \<and> (nid' = 0 \<or> 0 < nid')"
    using addressLoop_found [of "arg_nodeid args" ?h L ips 0 ?vs Map.empty 0] run
      addressLoop_range [of ?h L ips 0 ?vs Map.empty 0]
    by (cases "arg_nodeid args = 0") auto
  moreover have "nid = nid'" "nid' \<noteq> 0" "nid' \<le> int (length ?vs)" "peers = peersOf ?vs"
    using r assms(3,5) by (auto split: if_splits)
  moreover have "addr = (case peersOf ?vs (word_of_int nid) of None \<Rightarrow> '''' | Some a \<Rightarrow> a)"
    using r assms(3,5) by (auto split: if_splits)
  ultimately show ?thesis
    using peersOf_word_of_int [of nid ?vs] assms(2,4) by auto
qed

section \<open>Properties\<close>

text \<open>
  The public addresses are exact. When the interfaces can be read, \<^verbatim>\<open>publicIPs\<close> returns the
  IPv4 addresses, in order, of the interfaces that are up and no loopback, without the
  loopback addresses; it returns an error, and no address, exactly when there are none.
\<close>

theorem publicIPs_exact:
  assumes "\<forall>i \<in> set ifaces. publicInterface i \<longrightarrow> (\<exists>addrs. if_Addrs i = Inr addrs)"
  shows "fst (publicIPs (Inr ifaces)) = concat (map publicAddrs (filter publicInterface ifaces))
    \<and> (snd (publicIPs (Inr ifaces)) = None \<longleftrightarrow> (\<exists>i \<in> set ifaces. publicInterface i \<and> publicAddrs i \<noteq> []))"
  using ifaceLoop_eq [OF assms, of "[]"] by (auto simp: publicIPs_def)

definition exampleInterfaces :: "Interface list" where
  "exampleInterfaces =
     [\<lparr>if_Flags = 5, if_Addrs = Inr [IPNet (Some (map byte [127, 0, 0, 1]))]\<rparr>,
      \<lparr>if_Flags = 3, if_Addrs = Inr [IPNet (Some (replicate 15 (byte 0) @ [byte 1])), OtherAddr,
         IPNet (Some (v4InV6Prefix @ map byte [10, 0, 0, 2]))]\<rparr>,
      \<lparr>if_Flags = 2, if_Addrs = Inl EOF\<rparr>]"

lemma publicInterface_example:
  "filter publicInterface exampleInterfaces = [exampleInterfaces ! 1]"
  "\<forall>i \<in> set exampleInterfaces. publicInterface i \<longrightarrow> (\<exists>addrs. if_Addrs i = Inr addrs)"
  by (simp_all add: exampleInterfaces_def publicInterface_def FlagUp_def FlagLoopback_def)

theorem publicIPs_exact_witness:
  "fst (publicIPs (Inr exampleInterfaces)) = [''10.0.0.2'']"
proof -
  have "publicAddrs (exampleInterfaces ! 1) = [''10.0.0.2'']"
    by code_simp
  then show ?thesis
    using publicIPs_exact [OF publicInterface_example(2)] publicInterface_example(1) by simp
qed

text \<open>
  A node finds itself. A process started without a node id and an address takes the first
  configured address that begins with one of its public addresses: its node id is the
  position of this address, its address is this one, and its peers are all configured ones by
  position. It exits exactly when no configured address begins with a public one.
\<close>

theorem identify_by_address:
  assumes "\<not> arg_join args" and "arg_nodeid args = 0" and "arg_addr args = ''''"
    and "\<not> Configuration_UseHostnameIdentification conf" and "length (Configuration_Addresses conf) < 2 ^ 64"
  shows "(case identifyNode args conf ips L of
      None \<Rightarrow> \<forall>v \<in> set (Configuration_Addresses conf). \<not> matches ips v
    | Some (peers, nid, addr) \<Rightarrow> \<exists>i < length (Configuration_Addresses conf).
        nid = int i + 1 \<and> addr = Configuration_Addresses conf ! i \<and> matches ips addr
        \<and> (\<forall>j < i. \<not> matches ips (Configuration_Addresses conf ! j))
        \<and> peers = peersOf (Configuration_Addresses conf))"
proof -
  let ?vs = "Configuration_Addresses conf"
  obtain peers nid t where run: "addressLoop (Configuration_UseHostnameIdentification conf) L ips 0 ?vs
      (Map.empty, arg_nodeid args, 0) = (peers, nid, t)" by (metis prod_cases3)
  note r = identifyNode_not_joining(2) [OF assms(1,5) run]
  have nid: "firstMatch ips 0 ?vs = nid"
    using addressLoop_firstMatch [of L ips 0 ?vs Map.empty 0] run assms by simp
  show ?thesis
  proof (cases "nid = 0")
    case True
    with nid r assms(3) show ?thesis by (auto dest: firstMatch_0)
  next
    case False
    obtain i where i: "i < length ?vs" "nid = int i + 1" "matches ips (?vs ! i)" "\<forall>j < i. \<not> matches ips (?vs ! j)"
      using firstMatch_Some [OF nid False] by auto
    moreover have "peersOf ?vs (word_of_int nid) = Some (?vs ! i)"
      using peersOf_word_of_int [of nid ?vs] i assms(5) by simp
    ultimately show ?thesis using r assms(3) by auto
  qed
qed

definition exampleConf :: Configuration where
  "exampleConf = emptyConfiguration\<lparr>Configuration_Addresses := [''10.0.0.10:6001'', ''10.0.0.2:6001'', ''10.0.0.1:6001'']\<rparr>"

definition exampleArgs :: Args where
  "exampleArgs = \<lparr>arg_config = ''config.json'', arg_nodeid = 0, arg_addr = '''', arg_join = False\<rparr>"

lemma exampleConf_simps [simp]:
  "Configuration_Addresses exampleConf = [''10.0.0.10:6001'', ''10.0.0.2:6001'', ''10.0.0.1:6001'']"
  "\<not> Configuration_UseHostnameIdentification exampleConf"
  by (simp_all add: exampleConf_def emptyConfiguration_def)

lemma exampleArgs_simps [simp]:
  "\<not> arg_join exampleArgs" "arg_nodeid exampleArgs = 0" "arg_addr exampleArgs = ''''"
  by (simp_all add: exampleArgs_def)

theorem identify_by_address_witness:
  "\<exists>peers. identifyNode exampleArgs exampleConf [''10.0.0.2''] (\<lambda>_ _. Inl EOF)
    = Some (peers, 2, ''10.0.0.2:6001'')"
proof -
  have no: "\<not> matches [''10.0.0.2''] ''10.0.0.10:6001''" and yes: "matches [''10.0.0.2''] ''10.0.0.2:6001''"
    by (simp_all add: matches_def HasPrefix_def)
  then show ?thesis
    using identify_by_address [of exampleArgs exampleConf "[''10.0.0.2'']" "\<lambda>_ _. Inl EOF"]
    by (auto simp: less_Suc_eq numeral_3_eq_3 split: option.splits)
qed

text \<open>
  C24. Whatever the name service answers, a process that was not given a negative node id, does
  not join and has no address of its own ends up, if it goes on, with a node id that is one
  of the configured positions and with the address at this position; an explicit node id
  is kept.
\<close>

theorem identify_sound:
  assumes "\<not> arg_join args" and "arg_nodeid args \<ge> 0" and "arg_addr args = ''''"
    and "length (Configuration_Addresses conf) < 2 ^ 64" and "identifyNode args conf ips L = Some (peers, nid, addr)"
  shows "1 \<le> nid \<and> nid \<le> int (length (Configuration_Addresses conf))
    \<and> addr = Configuration_Addresses conf ! nat (nid - 1) \<and> peers (word_of_int nid) = Some addr
    \<and> (arg_nodeid args \<noteq> 0 \<longrightarrow> nid = arg_nodeid args)"
  by (rule identifyNode_sound [OF assms])

theorem identify_sound_witness:
  "\<exists>peers. identifyNode (exampleArgs\<lparr>arg_nodeid := 3\<rparr>) exampleConf [] (\<lambda>_ _. Inl EOF) = Some (peers, 3, ''10.0.0.1:6001'')"
proof -
  obtain peers addr where r: "identifyNode (exampleArgs\<lparr>arg_nodeid := 3\<rparr>) exampleConf [] (\<lambda>_ _. Inl EOF) = Some (peers, 3, addr)"
    by (auto simp: identifyNode_def exampleArgs_def)
  show ?thesis
    using identify_sound [OF _ _ _ _ r] r by (simp add: exampleArgs_def)
qed

text \<open>
  The comparison by prefix confuses addresses: the machine with the address 10.0.0.1, the
  third of the configuration, takes itself for the first node, whose address is 10.0.0.10.
\<close>

theorem identify_prefix_confusion:
  "\<exists>peers. identifyNode exampleArgs exampleConf [''10.0.0.1''] L = Some (peers, 1, ''10.0.0.10:6001'')"
  by (simp add: identifyNode_def HasPrefix_def)

text \<open>
  A negative node id passes the check: the process goes on, with an empty address, unless an
  address was given.
\<close>

theorem negative_node_id_accepted:
  assumes "arg_nodeid args < 0" and "- (2 ^ 63) \<le> arg_nodeid args" and "arg_addr args = ''''" and "\<not> arg_join args"
    and "length (Configuration_Addresses conf) < 2 ^ 63"
  shows "identifyNode args conf ips L = Some (peersOf (Configuration_Addresses conf), arg_nodeid args, '''')"
proof -
  let ?vs = "Configuration_Addresses conf" and ?h = "Configuration_UseHostnameIdentification conf"
  obtain peers' nid' t where run: "addressLoop ?h L ips 0 ?vs (Map.empty, arg_nodeid args, 0) = (peers', nid', t)"
    by (metis prod_cases3)
  have "nid' = arg_nodeid args"
    using addressLoop_found [of "arg_nodeid args" ?h L ips 0 ?vs Map.empty 0] run assms(1) by simp
  moreover have "length ?vs < unat (word_of_int (arg_nodeid args) :: uint64)"
  proof -
    have "uint (word_of_int (arg_nodeid args) :: uint64) = arg_nodeid args mod 2 ^ 64" by (simp add: uint_word_of_int)
    also have "\<dots> = arg_nodeid args + 2 ^ 64"
      using assms(1,2) mod_pos_pos_trivial [of "arg_nodeid args + 2 ^ 64" "2 ^ 64"] by simp
    finally show ?thesis using assms(2,5) by (simp add: unat_eq_nat_uint)
  qed
  ultimately show ?thesis
    using identifyNode_not_joining(2) [OF assms(4) _ run] assms by (simp add: peersOf_def)
qed

theorem negative_node_id_accepted_witness:
  "identifyNode (exampleArgs\<lparr>arg_nodeid := - 1\<rparr>) exampleConf [''10.0.0.2''] (\<lambda>_ _. Inl EOF)
    = Some (peersOf (Configuration_Addresses exampleConf), - 1, '''')"
  using negative_node_id_accepted [of "exampleArgs\<lparr>arg_nodeid := - 1\<rparr>" exampleConf "[''10.0.0.2'']" "\<lambda>_ _. Inl EOF"]
  by (simp add: exampleArgs_def)

end
