(* ===== verification/Nats.thy ===== *)
theory Nats
  imports Node
begin

text \<open>
  The connection to the message broker, \<^verbatim>\<open>src/dcrontab/nats.go\<close>. The NATS client library and the
  certificate functions of Go's \<^verbatim>\<open>crypto\<close> packages are a parameter, the record \<open>nats_lib\<close>; the
  source only passes values between them.
\<close>

section \<open>The library\<close>

record TlsConfig =
  tls_Certificates :: "bytes list"
  tls_RootCAs :: bytes
  tls_MinVersion :: nat
  tls_InsecureSkipVerify :: bool

definition VersionTLS12 :: nat where "VersionTLS12 = 0x0303"

text \<open>
  Connections are numbers, a nil pointer is \<open>None\<close>. \<open>lib_Connect\<close> takes the list of servers as one
  string and the TLS configuration; the other methods act on the state \<^typ>\<open>'m\<close> of the library,
  may return an error and, called on a nil pointer, may panic.
\<close>

record 'm nats_lib =
  lib_LoadX509KeyPair :: "string \<Rightarrow> string \<Rightarrow> error + bytes"
  lib_ReadFile :: "string \<Rightarrow> bytes \<times> error option"
  lib_AppendCertsFromPEM :: "bytes \<Rightarrow> bool"
  lib_Connect :: "string \<Rightarrow> TlsConfig \<Rightarrow> 'm \<Rightarrow> (error + nat) \<times> 'm"
  lib_NewEncodedConn :: "nat \<Rightarrow> 'm \<Rightarrow> (error + nat) \<times> 'm"
  lib_Publish :: "nat option \<Rightarrow> string \<Rightarrow> bytes \<Rightarrow> ('m, unit) go"
  lib_Drain :: "nat option \<Rightarrow> ('m, unit) go"
  lib_CloseConn :: "nat option \<Rightarrow> ('m, unit) go"
  lib_EncDrain :: "nat option \<Rightarrow> ('m, unit) go"
  lib_EncClose :: "nat option \<Rightarrow> ('m, unit) go"

section \<open>The service\<close>

record NatsService =
  nats_Configuration :: Service
  nats_nc :: "nat option"
  nats_ec :: "nat option"
  nats_AppConfig :: Configuration

text \<open>\<^verbatim>\<open>os.Exit(1)\<close>, also through \<^verbatim>\<open>log.Fatal\<close>, ends the process like a panic that nothing recovers.\<close>

definition goexit :: "('w, 'a) go" where
  "goexit = gopanic ''exit status 1''"

text \<open>
  \<^verbatim>\<open>connect\<close> on the state of the library and the service. The error of \<^verbatim>\<open>ReadFile\<close> is overwritten
  before it is looked at; the connection that was made stays in the struct when the encoded
  one fails.
\<close>

definition connect :: "'m nats_lib \<Rightarrow> ('m \<times> NatsService, unit) go" where
  "connect L = (\<lambda>(m, i).
     (case lib_LoadX509KeyPair L (Service_Cert (nats_Configuration i)) (Service_Key (nats_Configuration i)) of
        Inl _ \<Rightarrow> goexit (m, i)
      | Inr cert \<Rightarrow>
          (let (rootPEM, _) = lib_ReadFile L (Service_CACert (nats_Configuration i))
           in if \<not> lib_AppendCertsFromPEM L rootPEM then goexit (m, i)
              else
               (let config = \<lparr>tls_Certificates = [cert], tls_RootCAs = rootPEM, tls_MinVersion = VersionTLS12,
                      tls_InsecureSkipVerify = Service_Secure (nats_Configuration i)\<rparr>
                in case lib_Connect L (Join (Service_Hosts (nats_Configuration i)) '','') config m of
                     (Inl e, m1) \<Rightarrow> (Err e, (m1, i\<lparr>nats_nc := None\<rparr>))
                   | (Inr nc, m1) \<Rightarrow>
                       (case lib_NewEncodedConn L nc m1 of
                          (Inl e, m2) \<Rightarrow> (Err e, (m2, i\<lparr>nats_nc := Some nc, nats_ec := None\<rparr>))
                        | (Inr ec, m2) \<Rightarrow> (Ok (), (m2, i\<lparr>nats_nc := Some nc, nats_ec := Some ec\<rparr>)))))))"

definition onLib :: "(NatsService \<Rightarrow> ('m, 'a) go) \<Rightarrow> ('m \<times> NatsService, 'a) go" where
  "onLib f = (\<lambda>(m, i). case f i m of (r, m') \<Rightarrow> (r, (m', i)))"

text \<open>\<^verbatim>\<open>close\<close> drains and closes both connections; the errors are dropped.\<close>

definition close :: "'m nats_lib \<Rightarrow> ('m \<times> NatsService, unit) go" where
  "close L =
     andThen (ignoreErr (onLib (\<lambda>i. lib_EncDrain L (nats_ec i)))) (\<lambda>_.
     andThen (ignoreErr (onLib (\<lambda>i. lib_EncClose L (nats_ec i)))) (\<lambda>_.
     andThen (ignoreErr (onLib (\<lambda>i. lib_Drain L (nats_nc i)))) (\<lambda>_.
     andThen (ignoreErr (onLib (\<lambda>i. lib_CloseConn L (nats_nc i)))) (\<lambda>_.
     ret ()))))"

definition publish :: "'m nats_lib \<Rightarrow> string \<Rightarrow> string \<Rightarrow> ('m \<times> NatsService, unit) go" where
  "publish L channel msg = onLib (\<lambda>i. lib_Publish L (nats_nc i) channel msg)"

section \<open>Properties\<close>

text \<open>
  A connection that is made presents the configured certificate, trusts the configured
  authority, goes to all configured hosts in one list and uses at least TLS 1.2; the check of
  the server's certificate is switched off exactly when the configuration says \<^verbatim>\<open>Secure\<close>.
  A certificate that cannot be loaded or an authority that cannot be parsed ends the process
  before anything is sent.
\<close>

theorem connect_exact:
  assumes "connect L (m, i) = (r, (m', i'))" and "s = nats_Configuration i"
  shows "(r = Ok () \<longrightarrow> (\<exists>cert config m1. lib_LoadX509KeyPair L (Service_Cert s) (Service_Key s) = Inr cert
      \<and> config = \<lparr>tls_Certificates = [cert], tls_RootCAs = fst (lib_ReadFile L (Service_CACert s)),
           tls_MinVersion = VersionTLS12, tls_InsecureSkipVerify = Service_Secure s\<rparr>
      \<and> (\<exists>nc. lib_Connect L (Join (Service_Hosts s) '','') config m = (Inr nc, m1) \<and> nats_nc i' = Some nc
          \<and> (\<exists>ec. lib_NewEncodedConn L nc m1 = (Inr ec, m') \<and> nats_ec i' = Some ec))))
    \<and> ((\<exists>e. lib_LoadX509KeyPair L (Service_Cert s) (Service_Key s) = Inl e)
        \<or> \<not> lib_AppendCertsFromPEM L (fst (lib_ReadFile L (Service_CACert s)))
        \<longrightarrow> r = Panic ''exit status 1'' \<and> m' = m \<and> i' = i)"
  using assms
  by (auto simp: connect_def goexit_def gopanic_def Let_def split: sum.splits prod.splits if_splits)

text \<open>
  A library for the examples: every certificate file is readable, and the state holds the
  connections made and the messages published on each.
\<close>

definition exampleNats :: "((string \<times> TlsConfig) list \<times> (nat \<times> string \<times> bytes) list) nats_lib" where
  "exampleNats = \<lparr>lib_LoadX509KeyPair = (\<lambda>c k. Inr (c @ k)), lib_ReadFile = (\<lambda>f. (f, None)),
     lib_AppendCertsFromPEM = (\<lambda>b. b \<noteq> []),
     lib_Connect = (\<lambda>hosts tls (cs, ms). (Inr (length cs), (cs @ [(hosts, tls)], ms))),
     lib_NewEncodedConn = (\<lambda>nc st. (Inr nc, st)),
     lib_Publish = (\<lambda>nc ch msg (cs, ms). case nc of
        None \<Rightarrow> (Err (ErrorString ''nats: invalid connection''), (cs, ms))
      | Some c \<Rightarrow> (Ok (), (cs, ms @ [(c, ch, msg)]))),
     lib_Drain = (\<lambda>_ st. (Ok (), st)), lib_CloseConn = (\<lambda>_ st. (Ok (), st)),
     lib_EncDrain = (\<lambda>_ st. (Ok (), st)), lib_EncClose = (\<lambda>_ st. (Ok (), st))\<rparr>"

definition exampleNatsService :: NatsService where
  "exampleNatsService = \<lparr>nats_Configuration = emptyService\<lparr>Service_Hosts := [''tls://a:4222'', ''tls://b:4222''],
       Service_CACert := ''ca.pem'', Service_Secure := True\<rparr>,
     nats_nc = None, nats_ec = None, nats_AppConfig = emptyConfiguration\<rparr>"

theorem connect_exact_witness:
  "\<exists>cert ca v. fst (snd (connect exampleNats (([], []), exampleNatsService)))
    = ([(''tls://a:4222,tls://b:4222'', \<lparr>tls_Certificates = [cert], tls_RootCAs = ca, tls_MinVersion = v,
          tls_InsecureSkipVerify = True\<rparr>)], [])"
proof -
  obtain cs ms i' where r: "connect exampleNats (([], []), exampleNatsService) = (Ok (), ((cs, ms), i'))"
    by (simp add: connect_def exampleNats_def exampleNatsService_def emptyService_def)
  show ?thesis
    using connect_exact [OF r refl] r
    by (auto simp: exampleNats_def exampleNatsService_def emptyService_def)
qed

end
