(* ===== verification/Cluster.thy ===== *)
theory Cluster
  imports Commander_Update
begin

text \<open>
  What the program's workers rely on of the replicated store, as a locale: reads are answered
  from the store, a proposal that succeeds is applied, one that fails is applied or not. A
  replica of \<^verbatim>\<open>commander.go\<close> that is given one entry at a time keeps this contract, over
  every RocksDB library whose iterators do not fail.
\<close>

section \<open>The contract\<close>

text \<open>The store after a put, but for the key under which a replica keeps its index.\<close>

definition afterPut :: "Action \<Rightarrow> (string \<rightharpoonup> string) \<Rightarrow> (string \<rightharpoonup> string) \<Rightarrow> bool" where
  "afterPut a m m' \<longleftrightarrow> (\<forall>k. k \<noteq> appliedIndexKey \<longrightarrow>
     m' k = (m(sanitize (Action_Key a) \<mapsto> sanitize (Action_Val a))) k)"

definition sameStore :: "(string \<rightharpoonup> string) \<Rightarrow> (string \<rightharpoonup> string) \<Rightarrow> bool" where
  "sameStore m m' \<longleftrightarrow> (\<forall>k. k \<noteq> appliedIndexKey \<longrightarrow> m' k = m k)"

text \<open>Every proposal of a sequence succeeds.\<close>

fun accepted :: "(bytes \<Rightarrow> 'c \<Rightarrow> (error + uint64) \<times> 'c) \<Rightarrow> bytes list \<Rightarrow> 'c \<Rightarrow> bool" where
  "accepted f [] c = True"
| "accepted f (p # ps) c = ((case fst (f p c) of Inl _ \<Rightarrow> False | Inr _ \<Rightarrow> True) \<and> accepted f ps (snd (f p c)))"

locale cluster =
  fixes read :: "bytes \<Rightarrow> 'c \<Rightarrow> (error + bytes) \<times> 'c"
    and propose :: "bytes \<Rightarrow> 'c \<Rightarrow> (error + uint64) \<times> 'c"
    and healthy :: "'c \<Rightarrow> bool"
    and kv :: "'c \<Rightarrow> string \<rightharpoonup> string"
  assumes read_keeps: "healthy c \<Longrightarrow> read q c = (r, c') \<Longrightarrow> healthy c' \<and> kv c' = kv c"
    and scan_answer: "healthy c \<Longrightarrow> Action_Action (queryAction q) = ''SCAN'' \<Longrightarrow> read q c = (Inr ans, c') \<Longrightarrow>
        unmarshalMap ans [] = (filter (\<lambda>(k, _). HasPrefix k (Action_Key (queryAction q))) (pairs (kv c)), None)"
    and get_answer: "healthy c \<Longrightarrow> Action_Action (queryAction q) \<noteq> ''SCAN'' \<Longrightarrow> read q c = (Inr v, c') \<Longrightarrow>
        v = (case kv c (Action_Key (queryAction q)) of None \<Rightarrow> '''' | Some v \<Rightarrow> v)"
    and propose_done: "healthy c \<Longrightarrow> propose (marshalAction a) c = (Inr n, c') \<Longrightarrow>
        healthy c' \<and> afterPut a (kv c) (kv c')"
    and propose_failed: "healthy c \<Longrightarrow> propose (marshalAction a) c = (Inl e, c') \<Longrightarrow>
        healthy c' \<and> (sameStore (kv c) (kv c') \<or> afterPut a (kv c) (kv c'))"
    and finite_kv: "healthy c \<Longrightarrow> finite (dom (kv c))"
begin

lemma propose_keeps: "healthy c \<Longrightarrow> propose (marshalAction a) c = (r, c') \<Longrightarrow>
    healthy c' \<and> (sameStore (kv c) (kv c') \<or> afterPut a (kv c) (kv c'))"
  by (cases r) (auto dest: propose_done propose_failed)

text \<open>A scan finds a pair exactly when the store has it and its key has the prefix.\<close>

lemma scan_pairs:
  assumes "healthy c" and "Action_Action (queryAction q) = ''SCAN''" and "read q c = (Inr ans, c')"
  shows "map_of (fst (unmarshalMap ans [])) k =
    (if HasPrefix k (Action_Key (queryAction q)) then kv c k else None)"
proof -
  let ?p = "Action_Key (queryAction q)"
  have l: "fst (unmarshalMap ans []) = filter (\<lambda>(k, _). HasPrefix k ?p) (pairs (kv c))"
    using scan_answer [OF assms] by simp
  have d: "distinct (map fst (filter (\<lambda>(k, _). HasPrefix k ?p) (pairs (kv c))))"
    by (rule distinct_map_filter) simp
  have "map_of (filter (\<lambda>(k, _). HasPrefix k ?p) (pairs (kv c))) k = Some v \<longleftrightarrow> HasPrefix k ?p \<and> kv c k = Some v" for v
    using map_of_eq_Some_iff [OF d, of k v] set_pairs [OF finite_kv [OF assms(1)], of k v] by auto
  then show ?thesis by (cases "kv c k") (auto simp: l, (metis not_None_eq)+)
qed

end

section \<open>A replica as a cluster of one\<close>

text \<open>
  The entry with the next index is applied at once; a query goes to \<^verbatim>\<open>Lookup\<close>. A request during
  which the replica stops gets an error.
\<close>

definition nextEntry :: "bytes \<Rightarrow> ('s, 'n) world \<Rightarrow> Entry" where
  "nextEntry cmd w = \<lparr>Entry_Index = lastApplied (commander w) + 1, Entry_Cmd = cmd, Entry_Result = 0\<rparr>"

definition replicaPropose :: "('s, 'b, 'i, 'n) env \<Rightarrow> bytes \<Rightarrow> ('s, 'n) world \<Rightarrow> (error + uint64) \<times> ('s, 'n) world" where
  "replicaPropose E cmd w = (case Update E [nextEntry cmd w] w of
       (Ok es, w') \<Rightarrow> (Inr (Entry_Result (hd es)), w')
     | (Err e, w') \<Rightarrow> (Inl e, w')
     | (_, w') \<Rightarrow> (Inl (ErrorString ''request dropped''), w'))"

definition replicaRead :: "('s, 'b, 'i, 'n) env \<Rightarrow> bytes \<Rightarrow> ('s, 'n) world \<Rightarrow> (error + bytes) \<times> ('s, 'n) world" where
  "replicaRead E q w = (case Lookup E q w of
       (Ok v, w') \<Rightarrow> (Inr v, w')
     | (Err e, w') \<Rightarrow> (Inl e, w')
     | (_, w') \<Rightarrow> (Inl (ErrorString ''request dropped''), w'))"

definition replicaKv :: "('s \<Rightarrow> bytes \<rightharpoonup> bytes) \<Rightarrow> ('s, 'n) world \<Rightarrow> string \<rightharpoonup> string" where
  "replicaKv contents w = (case liveState w of None \<Rightarrow> Map.empty | Some s \<Rightarrow> contents s)"

definition replicaHealthy :: "('s \<Rightarrow> bytes \<rightharpoonup> bytes) \<Rightarrow> ('s, 'n) world \<Rightarrow> bool" where
  "replicaHealthy contents w \<longleftrightarrow> accepting w \<and> liveState w \<noteq> None \<and> validContents (replicaKv contents w)"

lemma replicaHealthy_E:
  assumes "replicaHealthy contents w"
  obtains r db dir s where "live w = Some (r, db, dir, s)" "accepting w" "replicaKv contents w = contents s"
    "validContents (contents s)"
  using assms by (auto simp: replicaHealthy_def replicaKv_def liveState_def split: option.splits)

lemma replicaHealthy_calls [simp]:
  "replicaHealthy contents (w\<lparr>calls := n\<rparr>) = replicaHealthy contents w"
  "replicaKv contents (w\<lparr>calls := n\<rparr>) = replicaKv contents w"
  by (simp_all add: replicaHealthy_def replicaKv_def liveState_def)

lemma Update_accepting: "accepting w \<Longrightarrow> accepting (snd (Update E ents w))"
  by (auto simp: Update_def accepting_def getCommander_def setCommander_def loadDb_def noPtr_def derefDb_def deref_def
      dbWrite_def onDb_def libCall_def Let_def andThen_apply gopanic_apply ret_apply
      split: if_splits option.splits sum.splits prod.splits fault.splits)

lemma applyEntries_single:
  assumes "Entry_Cmd e = marshalAction a"
  shows "afterPut a m (applyEntries [e] m)"
  using entryAction_marshal [OF assms]
  by (simp add: afterPut_def applyEntries_alt cleanAction_def)

lemma validEntry_marshal: "Entry_Cmd e = marshalAction a \<Longrightarrow> validEntry e"
  by (simp add: validEntry_def unmarshalAction_marshal)

context rocks_reliable
begin

lemma replicaPropose_step:
  assumes E: "rocksLib E = C" and ok: "replicaHealthy contents w"
    and run: "replicaPropose E (marshalAction a) w = (x, w')"
  shows "replicaHealthy contents w'
    \<and> (x = Inr n \<longrightarrow> afterPut a (replicaKv contents w) (replicaKv contents w'))
    \<and> (sameStore (replicaKv contents w) (replicaKv contents w') \<or> afterPut a (replicaKv contents w) (replicaKv contents w'))"
proof -
  obtain r db dir s where live: "live w = Some (r, db, dir, s)" and acc: "accepting w"
    and kv: "replicaKv contents w = contents s" and valid: "validContents (contents s)"
    using ok by (rule replicaHealthy_E)
  let ?e = "nextEntry (marshalAction a) w"
  obtain y v where upd: "Update E [?e] w = (y, v)" by (cases "Update E [?e] w")
  have ve: "list_all validEntry [?e]" by (simp add: nextEntry_def validEntry_marshal)
  from Update_effect [OF E acc live ve _ upd]
  obtain s' where s': "live v = Some (r, db, dir, s')"
    "contents s' = contents s \<or> contents s' = applyEntries [?e] (contents s)"
    "\<forall>es. y = Ok es \<longrightarrow> contents s' = applyEntries [?e] (contents s)" by auto
  have v: "w' = v" and x: "x = Inr n \<longrightarrow> (\<exists>es. y = Ok es)"
    using run upd by (auto simp: replicaPropose_def split: outcome.splits)
  have kv': "replicaKv contents v = contents s'" using s'(1) by (simp add: replicaKv_def liveState_def)
  have ap: "afterPut a (contents s) (applyEntries [?e] (contents s))"
    by (rule applyEntries_single) (simp add: nextEntry_def)
  have "validContents (contents s')"
    using s'(2) valid validContents_applyEntries [of "contents s" "[?e]"] by auto
  then have "replicaHealthy contents v"
    using Update_accepting [OF acc, of E "[?e]"] upd s'(1) kv' by (simp add: replicaHealthy_def liveState_def)
  with v x kv kv' ap s'(2,3) show ?thesis by (auto simp: sameStore_def)
qed

lemma replicaRead_step:
  assumes E: "rocksLib E = C" and ok: "replicaHealthy contents w" and run: "replicaRead E q w = (x, w')"
  shows "(\<exists>n. w' = w\<lparr>calls := n\<rparr>)
    \<and> (\<forall>v. x = Inr v \<and> Action_Action (queryAction q) = ''SCAN'' \<longrightarrow>
        unmarshalMap v [] = (filter (\<lambda>(k, _). HasPrefix k (Action_Key (queryAction q))) (pairs (replicaKv contents w)), None))
    \<and> (\<forall>v. x = Inr v \<and> Action_Action (queryAction q) \<noteq> ''SCAN'' \<longrightarrow>
        v = (case replicaKv contents w (Action_Key (queryAction q)) of None \<Rightarrow> '''' | Some v \<Rightarrow> v))"
proof -
  obtain r db dir s where live: "live w = Some (r, db, dir, s)" and acc: "accepting w"
    and kv: "replicaKv contents w = contents s" and valid: "validContents (contents s)"
    using ok by (rule replicaHealthy_E)
  show ?thesis
  proof (cases "Action_Action (queryAction q) = ''SCAN''")
    case True
    obtain n where "Lookup E q w = (Ok (marshalMap (filter (\<lambda>(k, _). HasPrefix k (Action_Key (queryAction q)))
        (pairs (contents s)))), w\<lparr>calls := n\<rparr>)"
      using Lookup_scan_exact [OF E live True] by blast
    then show ?thesis
      using True run kv unmarshalMap_pairs [OF finite_contents valid] by (auto simp: replicaRead_def)
  next
    case False
    obtain y v where l: "Lookup E q w = (y, v)" by (cases "Lookup E q w")
    have "\<not> cmd_closed (commander w)" using acc by (simp add: accepting_def)
    from Lookup_get [OF E live this False l] show ?thesis
      using False run kv l by (auto simp: replicaRead_def split: outcome.splits)
  qed
qed

lemma replica_cluster:
  assumes E: "rocksLib E = C"
  shows "cluster (replicaRead E) (replicaPropose E) (replicaHealthy contents) (replicaKv contents)"
proof unfold_locales
  fix c q r c' assume "replicaHealthy contents c" "replicaRead E q c = (r, c')"
  with replicaRead_step [OF E] show "replicaHealthy contents c' \<and> replicaKv contents c' = replicaKv contents c"
    by fastforce
next
  fix c assume "replicaHealthy contents c"
  then show "finite (dom (replicaKv contents c))" by (rule replicaHealthy_E) (simp add: finite_contents)
next
  fix c q ans c'
  assume "replicaHealthy contents c" "Action_Action (queryAction q) = ''SCAN''" "replicaRead E q c = (Inr ans, c')"
  with replicaRead_step [OF E, of c q "Inr ans" c']
  show "unmarshalMap ans [] = (filter (\<lambda>(k, _). HasPrefix k (Action_Key (queryAction q))) (pairs (replicaKv contents c)), None)"
    by simp
next
  fix c q v c'
  assume "replicaHealthy contents c" "Action_Action (queryAction q) \<noteq> ''SCAN''" "replicaRead E q c = (Inr v, c')"
  with replicaRead_step [OF E, of c q "Inr v" c']
  show "v = (case replicaKv contents c (Action_Key (queryAction q)) of None \<Rightarrow> '''' | Some v \<Rightarrow> v)" by simp
next
  fix c a n c' assume "replicaHealthy contents c" "replicaPropose E (marshalAction a) c = (Inr n, c')"
  with replicaPropose_step [OF E, of c a "Inr n" c' n]
  show "replicaHealthy contents c' \<and> afterPut a (replicaKv contents c) (replicaKv contents c')" by simp
next
  fix c a e c' assume "replicaHealthy contents c" "replicaPropose E (marshalAction a) c = (Inl e, c')"
  with replicaPropose_step [OF E, of c a "Inl e" c']
  show "replicaHealthy contents c' \<and> (sameStore (replicaKv contents c) (replicaKv contents c')
      \<or> afterPut a (replicaKv contents c) (replicaKv contents c'))" by blast
qed

lemma replicaPropose_succeeds:
  assumes E: "rocksLib E = C" and lib: "\<And>t wo s b. fst (c_write (rocksLib E) t wo s b) = None"
    and os: "faults E = (\<lambda>_. NoFault)" and ok: "replicaHealthy contents w"
    and room: "unat (lastApplied (commander w)) + 1 < 2 ^ 64"
  shows "\<exists>n w'. replicaPropose E (marshalAction a) w = (Inr n, w')
    \<and> unat (lastApplied (commander w')) = unat (lastApplied (commander w)) + 1"
proof -
  obtain r db dir s where live: "live w = Some (r, db, dir, s)" and acc: "accepting w"
    using ok by (rule replicaHealthy_E)
  let ?e = "nextEntry (marshalAction a) w" and ?i = "lastApplied (commander w)"
  have ve: "list_all validEntry [?e]" by (simp add: nextEntry_def validEntry_marshal)
  have suc: "unat (?i + 1) = unat ?i + 1"
    using room unat_add_lem [of ?i 1] by simp
  then have fwd: "?i < Entry_Index (last [?e])" by (simp add: nextEntry_def word_less_nat_alt)
  obtain w' where upd: "Update E [?e] w = (Ok (map withResult [?e]), w')"
    using Update_moves_forward [OF E acc live ve _ lib os fwd] by blast
  then have "lastApplied (commander w') = ?i + 1"
    using Update_effect [OF E acc live ve _ upd] by (auto simp: nextEntry_def)
  with upd suc show ?thesis by (simp add: replicaPropose_def)
qed

lemma replica_accepts:
  assumes E: "rocksLib E = C" and lib: "\<And>t wo s b. fst (c_write (rocksLib E) t wo s b) = None"
    and os: "faults E = (\<lambda>_. NoFault)" and ok: "replicaHealthy contents w"
    and room: "unat (lastApplied (commander w)) + length as < 2 ^ 64"
  shows "accepted (replicaPropose E) (map marshalAction as) w"
  using ok room
proof (induction as arbitrary: w)
  case (Cons a as)
  have "unat (lastApplied (commander w)) + 1 < 2 ^ 64" using Cons.prems by simp
  from replicaPropose_succeeds [OF E lib os Cons.prems(1) this, of a] obtain n w' where
    w': "replicaPropose E (marshalAction a) w = (Inr n, w')"
    "unat (lastApplied (commander w')) = unat (lastApplied (commander w)) + 1" by blast
  have "replicaHealthy contents w'" using replicaPropose_step [OF E Cons.prems(1) w'(1)] by blast
  with Cons w' show ?case by simp
qed simp

lemma replicaRead_scan:
  assumes E: "rocksLib E = C" and ok: "replicaHealthy contents w" and scan: "Action_Action (queryAction q) = ''SCAN''"
  shows "\<exists>v n. replicaRead E q w = (Inr v, w\<lparr>calls := n\<rparr>)"
proof -
  obtain r db dir s where "live w = Some (r, db, dir, s)" using ok by (rule replicaHealthy_E)
  from Lookup_scan_exact [OF E this scan] show ?thesis by (auto simp: replicaRead_def)
qed

end

text \<open>The reference library gives an instance.\<close>

interpretation oneReplica: cluster "replicaRead (exampleEnv f)" "replicaPropose (exampleEnv f)"
    "replicaHealthy map_of" "replicaKv map_of"
  by (rule rocks_reliable.replica_cluster [OF refLib.rocks_reliable_axioms]) simp

end
