(* ===== verification/Scheduler.thy ===== *)
theory Scheduler
  imports Nats Cluster
begin

text \<open>
  The worker that runs the jobs, \<^verbatim>\<open>src/dcrontab/main.go\<close> lines 526 to 643: once a minute the
  leader of the cluster scans the replicated store for jobs, installs the configured ones when
  there are none, and otherwise publishes or starts every job whose schedule fits the time.
  The raft library behind \<^verbatim>\<open>GetLeaderID\<close>, \<^verbatim>\<open>SyncRead\<close> and \<^verbatim>\<open>SyncPropose\<close> is a parameter; what the
  worker relies on of it is the locale \<open>cluster\<close>, which the replica of \<^verbatim>\<open>commander.go\<close> provides.
  Time passes by what an oracle says each action takes.
\<close>

section \<open>The worker's world\<close>

definition ROOT_KEY :: string where "ROOT_KEY = ''__dcron''"

record ('c, 'm) nodeEnv =
  nh_GetLeaderID :: "'c \<Rightarrow> uint64"
  nh_SyncRead :: "bytes \<Rightarrow> 'c \<Rightarrow> (error + bytes) \<times> 'c"
  nh_SyncPropose :: "bytes \<Rightarrow> 'c \<Rightarrow> (error + uint64) \<times> 'c"
  natsLib :: "'m nats_lib"
  elapsed :: "nat \<Rightarrow> nat"

text \<open>What leaves the process: a message for the broker, or a program with its arguments.\<close>

datatype effect = Published string string | Started "string list"

record ('c, 'm) node =
  node_cluster :: 'c
  node_nats :: "'m \<times> NatsService"
  node_trace :: "effect list"
  node_now :: instant
  node_steps :: nat
  node_nextTime :: instant
  node_ticker :: instant

type_synonym ('c, 'm, 'a) nodeop = "(('c, 'm) node, 'a) go"

text \<open>Each timed action takes as long as the oracle says; reading the clock is one.\<close>

definition spend :: "('c, 'm) nodeEnv \<Rightarrow> ('c, 'm) node \<Rightarrow> ('c, 'm) node" where
  "spend E w = w\<lparr>node_now := node_now w + int (elapsed E (node_steps w)), node_steps := Suc (node_steps w)\<rparr>"

definition timeNow :: "('c, 'm) nodeEnv \<Rightarrow> ('c, 'm, instant) nodeop" where
  "timeNow E = (\<lambda>w. (Ok (node_now w), spend E w))"

definition Sleep :: "('c, 'm) nodeEnv \<Rightarrow> int \<Rightarrow> ('c, 'm, unit) nodeop" where
  "Sleep E d = (\<lambda>w. (Ok (), if d > 0 then spend E (w\<lparr>node_now := node_now w + d\<rparr>) else w))"

definition NewTicker :: "('c, 'm, unit) nodeop" where
  "NewTicker = (\<lambda>w. (Ok (), w\<lparr>node_ticker := node_now w + MinuteDur\<rparr>))"

definition setNextTime :: "(instant \<Rightarrow> instant) \<Rightarrow> ('c, 'm, unit) nodeop" where
  "setNextTime f = (\<lambda>w. (Ok (), w\<lparr>node_nextTime := f (node_nextTime w)\<rparr>))"

text \<open>
  Receiving from the ticker's channel. The channel holds one tick, further ones are dropped:
  a tick that is due is received at once, and the next one is the first of the schedule after
  that moment.
\<close>

definition awaitTick :: "('c, 'm, unit) nodeop" where
  "awaitTick = (\<lambda>w.
     let t = max (node_now w) (node_ticker w)
     in (Ok (), w\<lparr>node_now := t,
           node_ticker := node_ticker w + ((t - node_ticker w) div MinuteDur + 1) * MinuteDur\<rparr>))"

definition SyncRead :: "('c, 'm) nodeEnv \<Rightarrow> bytes \<Rightarrow> ('c, 'm, bytes) nodeop" where
  "SyncRead E q = (\<lambda>w. case nh_SyncRead E q (node_cluster w) of
       (Inl e, c) \<Rightarrow> (Err e, spend E (w\<lparr>node_cluster := c\<rparr>))
     | (Inr v, c) \<Rightarrow> (Ok v, spend E (w\<lparr>node_cluster := c\<rparr>)))"

definition SyncPropose :: "('c, 'm) nodeEnv \<Rightarrow> bytes \<Rightarrow> ('c, 'm, uint64) nodeop" where
  "SyncPropose E cmd = (\<lambda>w. case nh_SyncPropose E cmd (node_cluster w) of
       (Inl e, c) \<Rightarrow> (Err e, spend E (w\<lparr>node_cluster := c\<rparr>))
     | (Inr v, c) \<Rightarrow> (Ok v, spend E (w\<lparr>node_cluster := c\<rparr>)))"

text \<open>A proposal whose error is only logged or dropped.\<close>

definition propose :: "('c, 'm) nodeEnv \<Rightarrow> bytes \<Rightarrow> ('c, 'm, unit) nodeop" where
  "propose E cmd = ignoreErr (andThen (SyncPropose E cmd) (\<lambda>_. ret ()))"

text \<open>\<^verbatim>\<open>gonats.publish(channel, msg)\<close> and \<^verbatim>\<open>exec.Command(argv...).CombinedOutput()\<close>.\<close>

definition natsPublish :: "('c, 'm) nodeEnv \<Rightarrow> string \<Rightarrow> string \<Rightarrow> ('c, 'm, unit) nodeop" where
  "natsPublish E channel msg = (\<lambda>w. case publish (natsLib E) channel msg (node_nats w) of
       (r, g) \<Rightarrow> (r, spend E (w\<lparr>node_nats := g, node_trace := node_trace w @ [Published channel msg]\<rparr>)))"

definition runCommand :: "('c, 'm) nodeEnv \<Rightarrow> string list \<Rightarrow> ('c, 'm, unit) nodeop" where
  "runCommand E argv = (\<lambda>w. (Ok (), spend E (w\<lparr>node_trace := node_trace w @ [Started argv]\<rparr>)))"

section \<open>The jobs\<close>

text \<open>Lines 598 to 617: what a job does when it is due. The error of a publication is dropped.\<close>

definition execute :: "('c, 'm) nodeEnv \<Rightarrow> Command \<Rightarrow> ('c, 'm, unit) nodeop" where
  "execute E cmd =
     (if Command_Type cmd = ''nats'' then ignoreErr (natsPublish E (Command_Exec cmd) (Command_Args cmd))
      else if Command_Type cmd = ''shell'' then
        runCommand E (if length (Command_Args cmd) > 0 then [Command_Exec cmd, Command_Args cmd] else [Command_Exec cmd])
      else ret ())"

definition nilCommand :: string where
  "nilCommand = ''invalid memory address or nil pointer dereference''"

text \<open>Lines 590 to 620, for the value of one key.\<close>

definition runJob :: "('c, 'm) nodeEnv \<Rightarrow> string \<Rightarrow> ('c, 'm, unit) nodeop" where
  "runJob E v =
     (case unmarshalCommandPtr v of
        (_, Some _) \<Rightarrow> ret ()
      | (None, None) \<Rightarrow> gopanic nilCommand
      | (Some cmd, None) \<Rightarrow>
          if Command_Type cmd \<noteq> '''' \<and> Command_Exec cmd \<noteq> '''' then
            andThen (timeNow E) (\<lambda>t.
            case checkCron (Command_Cron cmd) t of
              None \<Rightarrow> (\<lambda>w. (Diverge, w))
            | Some due \<Rightarrow> if \<not> due then ret () else execute E cmd)
          else ret ())"

fun jobLoop :: "('c, 'm) nodeEnv \<Rightarrow> gomap \<Rightarrow> string list \<Rightarrow> ('c, 'm, unit) nodeop" where
  "jobLoop E items [] = ret ()"
| "jobLoop E items (k # ks) =
     (if k = ROOT_KEY then jobLoop E items ks
      else andThen (runJob E (case map_of items k of None \<Rightarrow> '''' | Some v \<Rightarrow> v))
             (\<lambda>_. jobLoop E items ks))"

definition runJobs :: "('c, 'm) nodeEnv \<Rightarrow> gomap \<Rightarrow> ('c, 'm, unit) nodeop" where
  "runJobs E items = jobLoop E items (sort (map fst items))"

section \<open>Installing the configured jobs\<close>

definition putAction :: "string \<Rightarrow> string \<Rightarrow> bytes" where
  "putAction k v = marshalAction \<lparr>Action_Action = ''PUT'', Action_Key = k, Action_Val = v\<rparr>"

definition jobKey :: "nat \<Rightarrow> string" where
  "jobKey idx = ROOT_KEY @ ''::'' @ dec idx"

fun setupLoop :: "('c, 'm) nodeEnv \<Rightarrow> nat \<Rightarrow> Command list \<Rightarrow> ('c, 'm, unit) nodeop" where
  "setupLoop E idx [] = ret ()"
| "setupLoop E idx (v # vs) =
     andThen (propose E (putAction (jobKey idx) (marshalCommand v))) (\<lambda>_. setupLoop E (Suc idx) vs)"

definition setupJobs :: "('c, 'm) nodeEnv \<Rightarrow> Command list \<Rightarrow> ('c, 'm, unit) nodeop" where
  "setupJobs E commands =
     andThen (propose E (putAction ROOT_KEY ''OK'')) (\<lambda>_. setupLoop E 0 commands)"

section \<open>A tick\<close>

definition scanAction :: bytes where
  "scanAction = marshalAction \<lparr>Action_Action = ''SCAN'', Action_Key = ROOT_KEY, Action_Val = ''''\<rparr>"

text \<open>Lines 543 to 626.\<close>

definition serve :: "('c, 'm) nodeEnv \<Rightarrow> Command list \<Rightarrow> ('c, 'm, unit) nodeop" where
  "serve E commands =
     ignoreErr (andThen (SyncRead E scanAction) (\<lambda>result.
       let items = fst (unmarshalMap result [])
       in if length items = 0 then setupJobs E commands else runJobs E items))"

text \<open>Lines 627 to 634.\<close>

definition waitForMinute :: "('c, 'm) nodeEnv \<Rightarrow> ('c, 'm, unit) nodeop" where
  "waitForMinute E =
     andThen (setNextTime (\<lambda>n. n + MinuteDur)) (\<lambda>_.
     andThen (timeNow E) (\<lambda>t w.
       let until = node_nextTime w - t
       in if until > 0
          then andThen (Sleep E until) (\<lambda>_. andThen (timeNow E) (\<lambda>_. NewTicker)) w
          else andThen (timeNow E) (\<lambda>t. setNextTime (\<lambda>_. TruncateMinute t)) w))"

text \<open>Lines 537 to 638.\<close>

definition tick :: "('c, 'm) nodeEnv \<Rightarrow> Configuration \<Rightarrow> int \<Rightarrow> ('c, 'm, unit) nodeop" where
  "tick E conf nid = (\<lambda>w.
     if nh_GetLeaderID E (node_cluster w) = word_of_int nid
     then andThen (serve E (Configuration_Commands conf)) (\<lambda>_. waitForMinute E) w
     else ret () w)"

text \<open>Lines 530 to 533, and the rounds of the loop; nothing ever stops this worker.\<close>

definition startLeader :: "('c, 'm) nodeEnv \<Rightarrow> ('c, 'm, unit) nodeop" where
  "startLeader E =
     andThen (timeNow E) (\<lambda>t.
     andThen (setNextTime (\<lambda>_. TruncateMinute t)) (\<lambda>_.
     andThen (timeNow E) (\<lambda>t w.
     andThen (Sleep E (node_nextTime w + Second - t)) (\<lambda>_.
     andThen (setNextTime (\<lambda>n. n + MinuteDur)) (\<lambda>_.
     NewTicker)) w)))"

fun leaderRounds :: "('c, 'm) nodeEnv \<Rightarrow> Configuration \<Rightarrow> int \<Rightarrow> nat \<Rightarrow> ('c, 'm, unit) nodeop" where
  "leaderRounds E conf nid 0 = ret ()"
| "leaderRounds E conf nid (Suc n) =
     andThen awaitTick (\<lambda>_. andThen (tick E conf nid) (\<lambda>_. leaderRounds E conf nid n))"

section \<open>What the worker does to the store\<close>

lemmas node_simps = spend_def timeNow_def Sleep_def NewTicker_def setNextTime_def

lemma spend_simps [simp]:
  "node_cluster (spend E w) = node_cluster w" "node_nats (spend E w) = node_nats w"
  "node_trace (spend E w) = node_trace w" "node_nextTime (spend E w) = node_nextTime w"
  "node_ticker (spend E w) = node_ticker w" "node_now w \<le> node_now (spend E w)"
  by (simp_all add: spend_def)

lemma ignoreErr_apply [go_simps]:
  "ignoreErr m w = (case m w of (Err e, w') \<Rightarrow> (Ok (), w') | r \<Rightarrow> r)"
  by (simp add: ignoreErr_def onErr_def ret_def)

text \<open>The proposals of the first run.\<close>

fun setupPuts :: "nat \<Rightarrow> Command list \<Rightarrow> bytes list" where
  "setupPuts idx [] = []"
| "setupPuts idx (v # vs) = putAction (jobKey idx) (marshalCommand v) # setupPuts (Suc idx) vs"

definition firstPuts :: "Command list \<Rightarrow> bytes list" where
  "firstPuts cmds = putAction ROOT_KEY ''OK'' # setupPuts 0 cmds"

text \<open>The store with the configured jobs in it.\<close>

fun withJobs :: "nat \<Rightarrow> Command list \<Rightarrow> (string \<rightharpoonup> string) \<Rightarrow> (string \<rightharpoonup> string)" where
  "withJobs idx [] m = m"
| "withJobs idx (v # vs) m = withJobs (Suc idx) vs (m(jobKey idx \<mapsto> marshalCommand v))"

lemma validUtf8_keys [simp]: "validUtf8 ROOT_KEY" "validUtf8 (jobKey idx)"
  by (simp_all add: ROOT_KEY_def jobKey_def)

lemma sameStore_trans: "sameStore m m1 \<Longrightarrow> sameStore m1 m2 \<Longrightarrow> sameStore m m2"
  by (simp add: sameStore_def)

lemma afterPut_sameStore:
  assumes "afterPut a m m1" and "validUtf8 (Action_Key a)" and "validUtf8 (Action_Val a)"
  shows "sameStore (m(Action_Key a \<mapsto> Action_Val a)) m1"
  using assms by (simp add: afterPut_def sameStore_def)

lemma withJobs_sameStore: "sameStore m m' \<Longrightarrow> sameStore (withJobs idx vs m) (withJobs idx vs m')"
  by (induction vs arbitrary: idx m m') (auto simp: sameStore_def)

text \<open>Between two stores: each key has its value of the one or of the other.\<close>

definition between :: "(string \<rightharpoonup> string) \<Rightarrow> (string \<rightharpoonup> string) \<Rightarrow> (string \<rightharpoonup> string) \<Rightarrow> bool" where
  "between m m' n \<longleftrightarrow> (\<forall>k. k \<noteq> appliedIndexKey \<longrightarrow> n k = m k \<or> n k = m' k)"

lemma jobKey_inject [simp]: "jobKey i = jobKey j \<longleftrightarrow> i = j"
  by (simp add: jobKey_def dec_inj)

lemma withJobs_outside: "(\<forall>i < length vs. k \<noteq> jobKey (idx + i)) \<Longrightarrow> withJobs idx vs m k = m k"
proof (induction vs arbitrary: idx m)
  case (Cons v vs)
  have "k \<noteq> jobKey idx" using Cons.prems by (auto dest: spec [of _ 0])
  moreover have "k \<noteq> jobKey (Suc idx + i)" if "i < length vs" for i
    using Cons.prems that by (auto dest: spec [of _ "Suc i"])
  ultimately show ?case using Cons.IH by simp
qed simp

lemma withJobs_job: "i < length vs \<Longrightarrow> withJobs idx vs m (jobKey (idx + i)) = Some (marshalCommand (vs ! i))"
proof (induction vs arbitrary: idx m i)
  case (Cons v vs)
  show ?case
  proof (cases i)
    case 0
    then show ?thesis by (simp add: withJobs_outside)
  next
    case (Suc j)
    with Cons show ?thesis using Cons.IH [of j "Suc idx"] by simp
  qed
qed simp

lemma withJobs_cong: "m k = m' k \<Longrightarrow> withJobs idx vs m k = withJobs idx vs m' k"
proof (induction vs arbitrary: idx m m')
  case (Cons v vs)
  have "(m(jobKey idx \<mapsto> marshalCommand v)) k = (m'(jobKey idx \<mapsto> marshalCommand v)) k"
    using Cons.prems by simp
  then show ?case unfolding withJobs.simps by (rule Cons.IH)
qed simp

lemma between_step:
  assumes "sameStore m m1 \<or> sameStore (m(jobKey idx \<mapsto> marshalCommand v)) m1"
    and "between m1 (withJobs (Suc idx) vs m1) m2"
  shows "between m (withJobs idx (v # vs) m) m2"
  unfolding between_def
proof (intro allI impI)
  fix k assume k: "k \<noteq> appliedIndexKey"
  have m1: "m1 k = m k \<or> k = jobKey idx \<and> m1 k = Some (marshalCommand v)"
    using assms(1) k by (auto simp: sameStore_def split: if_splits)
  have jk: "withJobs (Suc idx) vs m' (jobKey idx) = m' (jobKey idx)" for m'
    by (rule withJobs_outside) simp
  show "m2 k = m k \<or> m2 k = withJobs idx (v # vs) m k"
  proof (cases "k = jobKey idx")
    case True
    then show ?thesis
      using m1 assms(2) k jk by (auto simp: between_def)
  next
    case False
    then have "withJobs (Suc idx) vs m1 k = withJobs idx (v # vs) m k"
      using m1 by (auto intro: withJobs_cong)
    then show ?thesis using m1 assms(2) k False by (auto simp: between_def)
  qed
qed

section \<open>What a job does\<close>

text \<open>What a job, and a stored one, sends out when it is looked at at the time \<open>t\<close>.\<close>

definition commandEffects :: "Command \<Rightarrow> instant \<Rightarrow> effect list" where
  "commandEffects cmd t =
     (if Command_Type cmd \<noteq> '''' \<and> Command_Exec cmd \<noteq> '''' \<and> cronMatches (Command_Cron cmd) t then
        if Command_Type cmd = ''nats'' then [Published (Command_Exec cmd) (Command_Args cmd)]
        else if Command_Type cmd = ''shell'' then
          [Started (if Command_Args cmd \<noteq> '''' then [Command_Exec cmd, Command_Args cmd] else [Command_Exec cmd])]
        else []
      else [])"

definition jobEffects :: "string \<Rightarrow> instant \<Rightarrow> effect list" where
  "jobEffects v t = (case unmarshalCommandPtr v of (Some cmd, None) \<Rightarrow> commandEffects cmd t | _ \<Rightarrow> [])"

definition nullJob :: "string \<Rightarrow> bool" where
  "nullJob v \<longleftrightarrow> unmarshalCommandPtr v = (None, None)"

text \<open>The values of the jobs, in the order of the loop.\<close>

definition jobValues :: "gomap \<Rightarrow> string list \<Rightarrow> string list" where
  "jobValues items ks = map (\<lambda>k. case map_of items k of None \<Rightarrow> '''' | Some v \<Rightarrow> v) (filter (\<lambda>k. k \<noteq> ROOT_KEY) ks)"

text \<open>
  The interface between the worker and its environment: the cluster's contract, and a broker
  whose \<^verbatim>\<open>Publish\<close> returns, with or without an error.
\<close>

locale worker = cluster "nh_SyncRead E" "nh_SyncPropose E" healthy kv
  for E :: "('c, 'm) nodeEnv" and healthy :: "'c \<Rightarrow> bool" and kv :: "'c \<Rightarrow> string \<rightharpoonup> string" +
  assumes publish_returns: "fst (lib_Publish (natsLib E) nc ch msg m) = Ok ()
    \<or> (\<exists>e. fst (lib_Publish (natsLib E) nc ch msg m) = Err e)"
begin

lemma execute_run:
  assumes "Command_Type cmd \<noteq> ''''" and "Command_Exec cmd \<noteq> ''''"
  shows "\<exists>w'. execute E cmd w = (Ok (), w') \<and> node_cluster w' = node_cluster w \<and> node_now w \<le> node_now w'
    \<and> node_trace w' = node_trace w @
        (if Command_Type cmd = ''nats'' then [Published (Command_Exec cmd) (Command_Args cmd)]
         else if Command_Type cmd = ''shell'' then
           [Started (if Command_Args cmd \<noteq> '''' then [Command_Exec cmd, Command_Args cmd] else [Command_Exec cmd])]
         else [])
    \<and> node_nextTime w' = node_nextTime w \<and> node_ticker w' = node_ticker w"
proof -
  obtain m i where ni: "node_nats w = (m, i)" by (cases "node_nats w")
  obtain r m' where p: "lib_Publish (natsLib E) (nats_nc i) (Command_Exec cmd) (Command_Args cmd) m = (r, m')"
    by (cases "lib_Publish (natsLib E) (nats_nc i) (Command_Exec cmd) (Command_Args cmd) m")
  have "r = Ok () \<or> (\<exists>e. r = Err e)"
    using publish_returns [of "nats_nc i" "Command_Exec cmd" "Command_Args cmd" m] by (simp add: p)
  with ni p show ?thesis
    by (auto simp: execute_def natsPublish_def publish_def onLib_def ignoreErr_apply runCommand_def ret_apply spend_def)
qed

lemma runJob_run:
  assumes "\<not> nullJob v"
  shows "\<exists>w'. runJob E v w = (Ok (), w') \<and> node_cluster w' = node_cluster w \<and> node_now w \<le> node_now w'
    \<and> node_trace w' = node_trace w @ jobEffects v (node_now w)
    \<and> node_nextTime w' = node_nextTime w \<and> node_ticker w' = node_ticker w"
proof (cases "unmarshalCommandPtr v")
  case (Pair c e)
  show ?thesis
  proof (cases "\<exists>cmd. c = Some cmd \<and> e = None \<and> Command_Type cmd \<noteq> '''' \<and> Command_Exec cmd \<noteq> ''''
      \<and> cronMatches (Command_Cron cmd) (node_now w)")
    case True
    then obtain cmd where cmd: "c = Some cmd" "e = None" "Command_Type cmd \<noteq> ''''" "Command_Exec cmd \<noteq> ''''"
      "cronMatches (Command_Cron cmd) (node_now w)" by blast
    have "runJob E v w = execute E cmd (spend E w)"
      using cmd by (simp add: runJob_def Pair timeNow_def andThen_apply checkCron_cronMatches)
    with execute_run [OF cmd(3,4), of "spend E w"] cmd show ?thesis
      by (auto simp: jobEffects_def commandEffects_def Pair spend_def intro: order_trans)
  next
    case False
    have "runJob E v w = (Ok (), w) \<or> runJob E v w = (Ok (), spend E w)"
      using False assms
      by (auto simp: runJob_def Pair nullJob_def timeNow_def andThen_apply checkCron_cronMatches ret_apply
          split: option.splits)
    moreover have "jobEffects v (node_now w) = []"
      using False by (auto simp: jobEffects_def commandEffects_def Pair split: option.splits)
    ultimately show ?thesis by auto
  qed
qed

lemma runJob_null: "nullJob v \<Longrightarrow> runJob E v w = (Panic nilCommand, w)"
  by (simp add: runJob_def nullJob_def gopanic_apply)

end

context worker
begin

lemma jobLoop_run:
  assumes "\<forall>v \<in> set (jobValues items ks). \<not> nullJob v"
  shows "\<exists>ts w'. jobLoop E items ks w = (Ok (), w') \<and> node_cluster w' = node_cluster w
    \<and> length ts = length (jobValues items ks) \<and> sorted (node_now w # ts @ [node_now w'])
    \<and> node_trace w' = node_trace w @ concat (map2 jobEffects (jobValues items ks) ts)
    \<and> node_nextTime w' = node_nextTime w \<and> node_ticker w' = node_ticker w"
  using assms
proof (induction ks arbitrary: w)
  case Nil
  show ?case by (intro exI [of _ "[]"] exI [of _ w]) (simp add: jobValues_def ret_apply)
next
  case (Cons k ks)
  show ?case
  proof (cases "k = ROOT_KEY")
    case True
    with Cons.IH [of w] Cons.prems show ?thesis by (simp add: jobValues_def)
  next
    case False
    let ?v = "case map_of items k of None \<Rightarrow> '''' | Some v \<Rightarrow> v"
    have vals: "jobValues items (k # ks) = ?v # jobValues items ks" using False by (simp add: jobValues_def)
    then have "\<not> nullJob ?v" using Cons.prems by simp
    from runJob_run [OF this, of w] obtain w1 where w1: "runJob E ?v w = (Ok (), w1)"
      "node_cluster w1 = node_cluster w" "node_now w \<le> node_now w1"
      "node_trace w1 = node_trace w @ jobEffects ?v (node_now w)"
      "node_nextTime w1 = node_nextTime w" "node_ticker w1 = node_ticker w" by blast
    from Cons.IH [of w1] Cons.prems vals obtain ts w' where w': "jobLoop E items ks w1 = (Ok (), w')"
      "node_cluster w' = node_cluster w1" "length ts = length (jobValues items ks)"
      "sorted (node_now w1 # ts @ [node_now w'])"
      "node_trace w' = node_trace w1 @ concat (map2 jobEffects (jobValues items ks) ts)"
      "node_nextTime w' = node_nextTime w1" "node_ticker w' = node_ticker w1" by auto
    have "jobLoop E items (k # ks) w = (Ok (), w')"
      using False w1(1) w'(1) by (simp add: andThen_apply)
    then show ?thesis
      using w1 w' by (intro exI [of _ "node_now w # ts"] exI [of _ w']) (auto simp: vals)
  qed
qed

lemma jobLoop_null:
  assumes "\<exists>v \<in> set (jobValues items ks). nullJob v"
  shows "fst (jobLoop E items ks w) = Panic nilCommand"
  using assms
proof (induction ks arbitrary: w)
  case (Cons k ks)
  let ?v = "case map_of items k of None \<Rightarrow> '''' | Some v \<Rightarrow> v"
  show ?case
  proof (cases "k = ROOT_KEY \<or> \<not> nullJob ?v")
    case True
    then have "\<exists>v \<in> set (jobValues items ks). nullJob v"
      using Cons.prems by (auto simp: jobValues_def split: if_splits)
    then have "fst (jobLoop E items ks w') = Panic nilCommand" for w' by (rule Cons.IH)
    with True show ?thesis
      using runJob_run [of ?v w] by (auto simp: andThen_apply)
  next
    case False
    then show ?thesis by (simp add: andThen_apply runJob_null)
  qed
qed (simp add: jobValues_def)

text \<open>Proposals: the store before, or with the put.\<close>

lemma propose_run:
  assumes ok: "healthy (node_cluster w)" and u: "validUtf8 k" "validUtf8 v"
  shows "\<exists>w'. propose E (putAction k v) w = (Ok (), w') \<and> healthy (node_cluster w')
    \<and> node_trace w' = node_trace w \<and> node_nextTime w' = node_nextTime w \<and> node_now w \<le> node_now w'
    \<and> node_ticker w' = node_ticker w
    \<and> (sameStore (kv (node_cluster w)) (kv (node_cluster w'))
       \<or> sameStore ((kv (node_cluster w))(k \<mapsto> v)) (kv (node_cluster w')))
    \<and> node_cluster w' = snd (nh_SyncPropose E (putAction k v) (node_cluster w))
    \<and> (accepted (nh_SyncPropose E) [putAction k v] (node_cluster w) \<longrightarrow>
        sameStore ((kv (node_cluster w))(k \<mapsto> v)) (kv (node_cluster w')))"
proof -
  let ?a = "\<lparr>Action_Action = ''PUT'', Action_Key = k, Action_Val = v\<rparr>"
  obtain r c where p: "nh_SyncPropose E (marshalAction ?a) (node_cluster w) = (r, c)"
    by (cases "nh_SyncPropose E (marshalAction ?a) (node_cluster w)")
  have run: "propose E (putAction k v) w = (Ok (), spend E (w\<lparr>node_cluster := c\<rparr>))"
    by (simp add: propose_def putAction_def SyncPropose_def p ignoreErr_apply andThen_apply ret_apply split: sum.splits)
  have after: "afterPut ?a m m' \<Longrightarrow> sameStore (m(k \<mapsto> v)) m'" for m m'
    using afterPut_sameStore [of ?a m m'] u by simp
  have "\<forall>n. r = Inr n \<longrightarrow> sameStore ((kv (node_cluster w))(k \<mapsto> v)) (kv c)"
    using propose_done [OF ok] p after by blast
  moreover have "healthy c \<and> (sameStore (kv (node_cluster w)) (kv c) \<or> sameStore ((kv (node_cluster w))(k \<mapsto> v)) (kv c))"
    using propose_keeps [OF ok p] after by blast
  moreover have "accepted (nh_SyncPropose E) [putAction k v] (node_cluster w) \<longrightarrow> (\<exists>n. r = Inr n)"
    by (cases r) (simp_all add: putAction_def p)
  ultimately show ?thesis using run p by (auto simp: spend_def putAction_def)
qed

end

context worker
begin

lemma setupLoop_run:
  assumes "healthy (node_cluster w)"
  shows "\<exists>w'. setupLoop E idx vs w = (Ok (), w') \<and> healthy (node_cluster w')
    \<and> node_trace w' = node_trace w \<and> node_nextTime w' = node_nextTime w \<and> node_now w \<le> node_now w'
    \<and> node_ticker w' = node_ticker w
    \<and> between (kv (node_cluster w)) (withJobs idx vs (kv (node_cluster w))) (kv (node_cluster w'))
    \<and> (accepted (nh_SyncPropose E) (setupPuts idx vs) (node_cluster w) \<longrightarrow>
        sameStore (withJobs idx vs (kv (node_cluster w))) (kv (node_cluster w')))"
  using assms
proof (induction vs arbitrary: idx w)
  case Nil
  then show ?case by (simp add: ret_apply between_def sameStore_def)
next
  case (Cons v vs)
  let ?m = "kv (node_cluster w)" and ?k = "jobKey idx" and ?d = "marshalCommand v"
  obtain w1 where w1: "propose E (putAction ?k ?d) w = (Ok (), w1)" "healthy (node_cluster w1)"
    "node_trace w1 = node_trace w" "node_nextTime w1 = node_nextTime w" "node_now w \<le> node_now w1"
    "node_ticker w1 = node_ticker w"
    "sameStore ?m (kv (node_cluster w1)) \<or> sameStore (?m(?k \<mapsto> ?d)) (kv (node_cluster w1))"
    "node_cluster w1 = snd (nh_SyncPropose E (putAction ?k ?d) (node_cluster w))"
    "accepted (nh_SyncPropose E) [putAction ?k ?d] (node_cluster w) \<longrightarrow> sameStore (?m(?k \<mapsto> ?d)) (kv (node_cluster w1))"
    using propose_run [OF Cons.prems, of ?k ?d] by auto
  obtain w2 where w2: "setupLoop E (Suc idx) vs w1 = (Ok (), w2)" "healthy (node_cluster w2)"
    "node_trace w2 = node_trace w1" "node_nextTime w2 = node_nextTime w1" "node_now w1 \<le> node_now w2"
    "node_ticker w2 = node_ticker w1"
    "between (kv (node_cluster w1)) (withJobs (Suc idx) vs (kv (node_cluster w1))) (kv (node_cluster w2))"
    "accepted (nh_SyncPropose E) (setupPuts (Suc idx) vs) (node_cluster w1) \<longrightarrow>
        sameStore (withJobs (Suc idx) vs (kv (node_cluster w1))) (kv (node_cluster w2))"
    using Cons.IH [OF w1(2), of "Suc idx"] by blast
  have "setupLoop E idx (v # vs) w = (Ok (), w2)" using w1(1) w2(1) by (simp add: andThen_apply)
  moreover have "between ?m (withJobs idx (v # vs) ?m) (kv (node_cluster w2))"
    by (rule between_step [OF w1(7) w2(7)])
  moreover have "sameStore (withJobs idx (v # vs) ?m) (kv (node_cluster w2))"
    if "accepted (nh_SyncPropose E) (setupPuts idx (v # vs)) (node_cluster w)"
    using that w1(8,9) w2(8) withJobs_sameStore [of "?m(?k \<mapsto> ?d)" "kv (node_cluster w1)" "Suc idx" vs]
    by (auto intro: sameStore_trans)
  ultimately show ?case using w1 w2 by auto
qed

end

text \<open>The store after the first run: the root key and the configured jobs.\<close>

definition firstRun :: "Command list \<Rightarrow> (string \<rightharpoonup> string) \<Rightarrow> (string \<rightharpoonup> string)" where
  "firstRun cmds m = withJobs 0 cmds (m(ROOT_KEY \<mapsto> ''OK''))"

lemma jobKey_not_root [simp]: "jobKey i \<noteq> ROOT_KEY" "ROOT_KEY \<noteq> jobKey i"
  by (simp_all add: jobKey_def)

lemma firstRun_root: "firstRun cmds m ROOT_KEY = Some ''OK''"
  by (simp add: firstRun_def withJobs_outside)

lemma firstRun_job: "i < length cmds \<Longrightarrow> firstRun cmds m (jobKey i) = Some (marshalCommand (cmds ! i))"
  using withJobs_job [of i cmds 0] by (simp add: firstRun_def)

lemma firstRun_other: "k \<noteq> ROOT_KEY \<Longrightarrow> \<forall>i < length cmds. k \<noteq> jobKey i \<Longrightarrow> firstRun cmds m k = m k"
  by (simp add: firstRun_def withJobs_outside)

lemma between_first:
  assumes "sameStore m m1 \<or> sameStore (m(ROOT_KEY \<mapsto> ''OK'')) m1" and "between m1 (withJobs 0 cmds m1) m2"
  shows "between m (firstRun cmds m) m2"
  unfolding between_def
proof (intro allI impI)
  fix k assume k: "k \<noteq> appliedIndexKey"
  have m1: "m1 k = m k \<or> k = ROOT_KEY \<and> m1 k = Some ''OK''"
    using assms(1) k by (auto simp: sameStore_def split: if_splits)
  show "m2 k = m k \<or> m2 k = firstRun cmds m k"
  proof (cases "k = ROOT_KEY")
    case True
    then show ?thesis
      using m1 assms(2) k withJobs_outside [of cmds k 0 m1] firstRun_root by (auto simp: between_def)
  next
    case False
    then have "withJobs 0 cmds m1 k = firstRun cmds m k"
      unfolding firstRun_def using m1 by (intro withJobs_cong) simp
    then show ?thesis using m1 assms(2) k False by (auto simp: between_def)
  qed
qed

context worker
begin

lemma setupJobs_run:
  assumes "healthy (node_cluster w)"
  shows "\<exists>w'. setupJobs E cmds w = (Ok (), w') \<and> healthy (node_cluster w')
    \<and> node_trace w' = node_trace w \<and> node_nextTime w' = node_nextTime w \<and> node_now w \<le> node_now w'
    \<and> node_ticker w' = node_ticker w
    \<and> between (kv (node_cluster w)) (firstRun cmds (kv (node_cluster w))) (kv (node_cluster w'))
    \<and> (accepted (nh_SyncPropose E) (firstPuts cmds) (node_cluster w) \<longrightarrow>
        sameStore (firstRun cmds (kv (node_cluster w))) (kv (node_cluster w')))"
proof -
  let ?m = "kv (node_cluster w)"
  have u: "validUtf8 ''OK''" by simp
  from propose_run [OF assms validUtf8_keys(1) u] obtain w1 where w1:
    "propose E (putAction ROOT_KEY ''OK'') w = (Ok (), w1)" "healthy (node_cluster w1)"
    "node_trace w1 = node_trace w" "node_nextTime w1 = node_nextTime w" "node_now w \<le> node_now w1"
    "node_ticker w1 = node_ticker w"
    "sameStore ?m (kv (node_cluster w1)) \<or> sameStore (?m(ROOT_KEY \<mapsto> ''OK'')) (kv (node_cluster w1))"
    "node_cluster w1 = snd (nh_SyncPropose E (putAction ROOT_KEY ''OK'') (node_cluster w))"
    "accepted (nh_SyncPropose E) [putAction ROOT_KEY ''OK''] (node_cluster w) \<longrightarrow> sameStore (?m(ROOT_KEY \<mapsto> ''OK'')) (kv (node_cluster w1))"
    by blast
  from setupLoop_run [OF w1(2), of 0 cmds] obtain w2 where w2:
    "setupLoop E 0 cmds w1 = (Ok (), w2)" "healthy (node_cluster w2)"
    "node_trace w2 = node_trace w1" "node_nextTime w2 = node_nextTime w1" "node_now w1 \<le> node_now w2"
    "node_ticker w2 = node_ticker w1"
    "between (kv (node_cluster w1)) (withJobs 0 cmds (kv (node_cluster w1))) (kv (node_cluster w2))"
    "accepted (nh_SyncPropose E) (setupPuts 0 cmds) (node_cluster w1) \<longrightarrow>
        sameStore (withJobs 0 cmds (kv (node_cluster w1))) (kv (node_cluster w2))" by blast
  have "setupJobs E cmds w = (Ok (), w2)" using w1(1) w2(1) by (simp add: setupJobs_def andThen_apply)
  moreover have "sameStore (firstRun cmds ?m) (kv (node_cluster w2))"
    if "accepted (nh_SyncPropose E) (firstPuts cmds) (node_cluster w)"
    unfolding firstRun_def
    using that w1(8,9) w2(8) withJobs_sameStore [of "?m(ROOT_KEY \<mapsto> ''OK'')" "kv (node_cluster w1)" 0 cmds]
    by (auto simp: firstPuts_def intro: sameStore_trans)
  ultimately show ?thesis using w1 w2 between_first by fastforce
qed

text \<open>The jobs in the store, in the order of their keys.\<close>

lemma scan_values:
  assumes ok: "healthy c" and rd: "nh_SyncRead E scanAction c = (Inr ans, c')"
  shows "fst (unmarshalMap ans []) = filter (\<lambda>(k, _). HasPrefix k ROOT_KEY) (pairs (kv c))"
proof -
  have "queryAction scanAction = \<lparr>Action_Action = ''SCAN'', Action_Key = ROOT_KEY, Action_Val = ''''\<rparr>"
    by (simp add: scanAction_def queryAction_marshal cleanAction_def sanitize_ascii)
  then show ?thesis using scan_answer [OF ok _ rd] by simp
qed

end

definition storedJobs :: "(string \<rightharpoonup> string) \<Rightarrow> string list" where
  "storedJobs m = map snd (filter (\<lambda>(k, _). HasPrefix k ROOT_KEY \<and> k \<noteq> ROOT_KEY) (pairs m))"

lemma jobValues_sorted:
  assumes "items = filter (\<lambda>(k, _). HasPrefix k ROOT_KEY) (pairs m)"
  shows "jobValues items (sort (map fst items)) = storedJobs m"
proof -
  have "sorted (map fst items)" unfolding assms by (rule sorted_filter) (rule sorted_pairs)
  then have sort: "sort (map fst items) = map fst items" by (rule sorted_sort_id)
  have "distinct (map fst items)" unfolding assms by (rule distinct_map_filter) simp
  then have look: "map_of items k = Some v" if "(k, v) \<in> set items" for k v
    using that by (rule map_of_is_SomeI)
  have "jobValues items (map fst items) = map (\<lambda>p. case map_of items (fst p) of None \<Rightarrow> '''' | Some v \<Rightarrow> v)
      (filter (\<lambda>p. fst p \<noteq> ROOT_KEY) items)"
    by (simp add: jobValues_def filter_map comp_def)
  also have "\<dots> = map snd (filter (\<lambda>p. fst p \<noteq> ROOT_KEY) items)"
    using look by (intro map_cong) (auto simp del: map_of_eq_Some_iff)
  also have "\<dots> = storedJobs m"
    unfolding assms storedJobs_def filter_filter by (rule arg_cong [of _ _ "map snd"], rule filter_cong) auto
  finally show ?thesis by (simp add: sort)
qed

text \<open>The end of a tick: the clock moves on, and the next minute is computed.\<close>

lemma waitForMinute_run:
  "\<exists>w' t. waitForMinute E w = (Ok (), w') \<and> node_cluster w' = node_cluster w \<and> node_trace w' = node_trace w
    \<and> node_now w \<le> t \<and> t \<le> node_now w'
    \<and> (if node_now w < node_nextTime w + MinuteDur
       then node_nextTime w' = node_nextTime w + MinuteDur \<and> node_nextTime w' \<le> node_now w'
         \<and> node_ticker w' = node_now w' + MinuteDur
       else node_nextTime w' = TruncateMinute t \<and> node_ticker w' = node_ticker w)"
proof (cases "node_now w < node_nextTime w + MinuteDur")
  case True
  then show ?thesis
    by (intro exI [of _ "snd (waitForMinute E w)"] exI [of _ "node_now w"])
      (simp add: waitForMinute_def node_simps andThen_apply Let_def)
next
  case False
  then show ?thesis
    by (intro exI [of _ "snd (waitForMinute E w)"] exI [of _ "node_now (spend E w)"])
      (simp add: waitForMinute_def node_simps andThen_apply Let_def)
qed

context worker
begin

lemma serve_jobs:
  assumes ok: "healthy (node_cluster w)" and rd: "nh_SyncRead E scanAction (node_cluster w) = (Inr ans, c)"
    and some: "\<exists>k v. kv (node_cluster w) k = Some v \<and> HasPrefix k ROOT_KEY"
  shows "healthy c \<and> kv c = kv (node_cluster w) \<and> (\<exists>items. jobValues items (sort (map fst items)) = storedJobs (kv (node_cluster w))
    \<and> serve E cmds w = ignoreErr (runJobs E items) (spend E (w\<lparr>node_cluster := c\<rparr>)))"
proof -
  let ?m = "kv (node_cluster w)"
  let ?items = "filter (\<lambda>(k, _). HasPrefix k ROOT_KEY) (pairs ?m)"
  have it: "fst (unmarshalMap ans []) = ?items" by (rule scan_values [OF ok rd])
  obtain k v where "?m k = Some v" "HasPrefix k ROOT_KEY" using some by blast
  then have "(k, v) \<in> set ?items" using set_pairs [OF finite_kv [OF ok]] by simp
  then have "?items \<noteq> []" by force
  then have "serve E cmds w = ignoreErr (runJobs E ?items) (spend E (w\<lparr>node_cluster := c\<rparr>))"
    by (simp add: serve_def SyncRead_def rd it andThen_apply ignoreErr_apply Let_def)
  then show ?thesis
    using read_keeps [OF ok rd] jobValues_sorted [OF refl, of ?m] by blast
qed

lemma serve_setup:
  assumes ok: "healthy (node_cluster w)" and rd: "nh_SyncRead E scanAction (node_cluster w) = (Inr ans, c)"
    and none: "\<And>k. HasPrefix k ROOT_KEY \<Longrightarrow> kv (node_cluster w) k = None"
  shows "healthy c \<and> kv c = kv (node_cluster w)
    \<and> serve E cmds w = ignoreErr (setupJobs E cmds) (spend E (w\<lparr>node_cluster := c\<rparr>))"
proof -
  have "filter (\<lambda>(k, _). HasPrefix k ROOT_KEY) (pairs (kv (node_cluster w))) = []"
    using none set_pairs [OF finite_kv [OF ok]] by (fastforce simp: filter_empty_conv)
  then have "fst (unmarshalMap ans []) = []" using scan_values [OF ok rd] by simp
  then show ?thesis
    using read_keeps [OF ok rd]
    by (simp add: serve_def SyncRead_def rd andThen_apply ignoreErr_apply Let_def)
qed

end

context worker
begin

lemma tick_jobs:
  assumes ok: "healthy (node_cluster w)" and lead: "nh_GetLeaderID E (node_cluster w) = word_of_int nid"
    and rd: "\<exists>ans. fst (nh_SyncRead E scanAction (node_cluster w)) = Inr ans"
    and some: "\<exists>k v. kv (node_cluster w) k = Some v \<and> HasPrefix k ROOT_KEY"
    and nonull: "\<forall>v \<in> set (storedJobs (kv (node_cluster w))). \<not> nullJob v"
  shows "\<exists>ts w'. tick E conf nid w = (Ok (), w') \<and> healthy (node_cluster w') \<and> kv (node_cluster w') = kv (node_cluster w)
    \<and> length ts = length (storedJobs (kv (node_cluster w))) \<and> sorted (node_now w # ts @ [node_now w'])
    \<and> node_trace w' = node_trace w @ concat (map2 jobEffects (storedJobs (kv (node_cluster w))) ts)"
proof -
  let ?m = "kv (node_cluster w)"
  obtain ans c where r: "nh_SyncRead E scanAction (node_cluster w) = (Inr ans, c)"
    using rd by (cases "nh_SyncRead E scanAction (node_cluster w)") auto
  let ?w0 = "spend E (w\<lparr>node_cluster := c\<rparr>)"
  obtain items where c: "healthy c" "kv c = ?m" and it: "jobValues items (sort (map fst items)) = storedJobs ?m"
    and sv: "serve E (Configuration_Commands conf) w = ignoreErr (runJobs E items) ?w0"
    using serve_jobs [OF ok r some, of "Configuration_Commands conf"] by blast
  from jobLoop_run [of items "sort (map fst items)" ?w0] nonull it
  obtain ts w1 where w1: "jobLoop E items (sort (map fst items)) ?w0 = (Ok (), w1)" "node_cluster w1 = c"
    "length ts = length (storedJobs ?m)" "sorted (node_now ?w0 # ts @ [node_now w1])"
    "node_trace w1 = node_trace w @ concat (map2 jobEffects (storedJobs ?m) ts)" by auto
  obtain w2 t where w2: "waitForMinute E w1 = (Ok (), w2)" "node_cluster w2 = node_cluster w1"
    "node_trace w2 = node_trace w1" "node_now w1 \<le> t" "t \<le> node_now w2"
    using waitForMinute_run [of E w1] by blast
  have "tick E conf nid w = (Ok (), w2)"
    using lead w1(1) w2(1) by (simp add: tick_def sv runJobs_def andThen_apply ignoreErr_apply)
  moreover have "sorted (node_now w # ts @ [node_now w2])"
    using w1(4) w2(4,5) by (fastforce simp: sorted_append spend_def intro: order_trans)
  ultimately show ?thesis using c w1 w2 by (intro exI [of _ ts] exI [of _ w2]) simp
qed

lemma tick_null:
  assumes ok: "healthy (node_cluster w)" and lead: "nh_GetLeaderID E (node_cluster w) = word_of_int nid"
    and rd: "\<exists>ans. fst (nh_SyncRead E scanAction (node_cluster w)) = Inr ans"
    and key: "kv (node_cluster w) k = Some v" "HasPrefix k ROOT_KEY" "k \<noteq> ROOT_KEY" "nullJob v"
  shows "fst (tick E conf nid w) = Panic nilCommand"
proof -
  obtain ans c where r: "nh_SyncRead E scanAction (node_cluster w) = (Inr ans, c)"
    using rd by (cases "nh_SyncRead E scanAction (node_cluster w)") auto
  obtain items where it: "jobValues items (sort (map fst items)) = storedJobs (kv (node_cluster w))"
    and sv: "serve E (Configuration_Commands conf) w = ignoreErr (runJobs E items) (spend E (w\<lparr>node_cluster := c\<rparr>))"
    using serve_jobs [OF ok r, of "Configuration_Commands conf"] key(1,2) by blast
  have "v \<in> set (storedJobs (kv (node_cluster w)))"
    using key set_pairs [OF finite_kv [OF ok], of k v] by (force simp: storedJobs_def)
  then have "fst (jobLoop E items (sort (map fst items)) (spend E (w\<lparr>node_cluster := c\<rparr>))) = Panic nilCommand"
    using it key(4) by (intro jobLoop_null) auto
  then show ?thesis
    using lead by (auto simp: tick_def sv runJobs_def andThen_apply ignoreErr_apply split: prod.splits outcome.splits)
qed

lemma tick_first:
  assumes ok: "healthy (node_cluster w)" and lead: "nh_GetLeaderID E (node_cluster w) = word_of_int nid"
    and rd: "\<exists>ans. fst (nh_SyncRead E scanAction (node_cluster w)) = Inr ans"
    and none: "\<And>k. HasPrefix k ROOT_KEY \<Longrightarrow> kv (node_cluster w) k = None"
  shows "\<exists>w'. tick E conf nid w = (Ok (), w') \<and> healthy (node_cluster w') \<and> node_trace w' = node_trace w
    \<and> node_now w \<le> node_now w'
    \<and> between (kv (node_cluster w)) (firstRun (Configuration_Commands conf) (kv (node_cluster w))) (kv (node_cluster w'))
    \<and> (accepted (nh_SyncPropose E) (firstPuts (Configuration_Commands conf))
          (snd (nh_SyncRead E scanAction (node_cluster w))) \<longrightarrow>
        sameStore (firstRun (Configuration_Commands conf) (kv (node_cluster w))) (kv (node_cluster w')))"
proof -
  let ?cmds = "Configuration_Commands conf"
  obtain ans c where r: "nh_SyncRead E scanAction (node_cluster w) = (Inr ans, c)"
    using rd by (cases "nh_SyncRead E scanAction (node_cluster w)") auto
  let ?w0 = "spend E (w\<lparr>node_cluster := c\<rparr>)"
  have c: "healthy c" "kv c = kv (node_cluster w)" and sv: "serve E ?cmds w = ignoreErr (setupJobs E ?cmds) ?w0"
    using serve_setup [OF ok r none] by auto
  then have "healthy (node_cluster ?w0)" by simp
  from setupJobs_run [OF this, of ?cmds] c obtain w1 where w1: "setupJobs E ?cmds ?w0 = (Ok (), w1)"
    "healthy (node_cluster w1)" "node_trace w1 = node_trace w" "node_now ?w0 \<le> node_now w1"
    "between (kv (node_cluster w)) (firstRun ?cmds (kv (node_cluster w))) (kv (node_cluster w1))"
    "accepted (nh_SyncPropose E) (firstPuts ?cmds) c \<longrightarrow>
        sameStore (firstRun ?cmds (kv (node_cluster w))) (kv (node_cluster w1))" by auto
  obtain w2 t where w2: "waitForMinute E w1 = (Ok (), w2)" "node_cluster w2 = node_cluster w1"
    "node_trace w2 = node_trace w1" "node_now w1 \<le> t" "t \<le> node_now w2"
    using waitForMinute_run [of E w1] by blast
  have "tick E conf nid w = (Ok (), w2)"
    using lead w1(1) w2(1) by (simp add: tick_def sv andThen_apply ignoreErr_apply)
  then show ?thesis using w1 w2 r by (intro exI [of _ w2]) (auto simp: spend_def)
qed

end

section \<open>The configured jobs in the order of their keys\<close>

lemma append_le_same: "p @ a \<le> p @ (b :: string) \<longleftrightarrow> a \<le> b"
  by (induction p) simp_all

lemma dec_digit: "n < 10 \<Longrightarrow> dec n = [byte (48 + n)]"
  by (subst dec.simps) simp

lemma jobKey_le: "i \<le> j \<Longrightarrow> j < 10 \<Longrightarrow> jobKey i \<le> jobKey j"
  by (auto simp: jobKey_def append_le_same dec_digit less_char_def)

lemma sorted_jobKeys: "n \<le> 10 \<Longrightarrow> sorted (map jobKey [0..<n])"
  by (auto simp: sorted_iff_nth_mono intro: jobKey_le)

lemma HasPrefix_jobKey [simp]: "HasPrefix (jobKey i) ROOT_KEY"
  by (simp add: jobKey_def)

lemma appliedIndexKey_no_job: "HasPrefix k ROOT_KEY \<Longrightarrow> k \<noteq> appliedIndexKey"
  by (auto simp: HasPrefix_def ROOT_KEY_def appliedIndexKey_def)

lemma storedJobs_firstRun:
  assumes n: "length cmds \<le> 10" and none: "\<forall>k. HasPrefix k ROOT_KEY \<longrightarrow> m k = None"
    and fin: "finite (dom m')" and same: "sameStore (firstRun cmds m) m'"
  shows "storedJobs m' = map marshalCommand cmds"
proof -
  let ?job = "\<lambda>i. (jobKey i, marshalCommand (cmds ! i))"
  let ?xs = "map ?job [0..<length cmds]"
  let ?ys = "filter (\<lambda>(k, _). HasPrefix k ROOT_KEY \<and> k \<noteq> ROOT_KEY) (pairs m')"
  have mem: "(k, v) \<in> set ?ys \<longleftrightarrow> (\<exists>i < length cmds. (k, v) = ?job i)" for k v
  proof -
    have "(k, v) \<in> set ?ys \<longleftrightarrow> HasPrefix k ROOT_KEY \<and> k \<noteq> ROOT_KEY \<and> firstRun cmds m k = Some v"
      using set_pairs [OF fin, of k v] same appliedIndexKey_no_job [of k] by (auto simp: sameStore_def)
    also have "\<dots> \<longleftrightarrow> (\<exists>i < length cmds. (k, v) = ?job i)"
    proof (cases "\<exists>i < length cmds. k = jobKey i")
      case True
      then show ?thesis using firstRun_job [of _ cmds m] by auto
    next
      case False
      then show ?thesis using firstRun_other [of k cmds m] none by auto
    qed
    finally show ?thesis .
  qed
  have set: "set ?xs = set ?ys"
  proof (rule set_eqI)
    fix p :: "string \<times> string"
    show "p \<in> set ?xs \<longleftrightarrow> p \<in> set ?ys" using mem [of "fst p" "snd p"] by (cases p) (simp add: image_iff Bex_def)
  qed
  have fst: "map fst ?xs = map jobKey [0..<length cmds]" by simp
  have xs: "sorted (map fst ?xs)" "distinct (map fst ?xs)"
    unfolding fst using sorted_jobKeys [OF n] by (simp_all add: distinct_map inj_on_def)
  have ys: "sorted (map fst ?ys)" "distinct (map fst ?ys)"
    by (rule sorted_filter, rule sorted_pairs) (rule distinct_map_filter, simp)
  have "inj_on fst (set ?xs)" using xs(2) unfolding distinct_map [of fst] by blast
  then have "inj_on fst (set ?xs \<union> set ?ys)" unfolding set [symmetric] Un_absorb .
  then have "?xs = ?ys" by (rule map_sorted_distinct_set_unique [OF _ xs ys set])
  then have "storedJobs m' = map snd ?xs" unfolding storedJobs_def by (simp only:)
  also have "\<dots> = map marshalCommand cmds" by (rule nth_equalityI) simp_all
  finally show ?thesis .
qed

lemma jobEffects_marshal:
  assumes "is_int64 (Command_Timeout c)" and "is_int64 (Command_Retry c)"
  shows "jobEffects (marshalCommand c) t = commandEffects (cleanCommand c) t" and "\<not> nullJob (marshalCommand c)"
  using unmarshalCommandPtr_marshal [OF assms] by (simp_all add: jobEffects_def nullJob_def)

end
