(* ===== verification/Scheduler_Ticks.thy ===== *)
theory Scheduler_Ticks
  imports Scheduler
begin

text \<open>
  The worker's ticks against the clock, and the properties of the worker: how long a tick
  takes, when the next one comes, and an example whose cluster is one replica of the state
  machine.
\<close>

section \<open>Time\<close>

definition quick :: "('c, 'm) nodeEnv \<Rightarrow> nat \<Rightarrow> bool" where
  "quick E d \<longleftrightarrow> (\<forall>n. elapsed E n \<le> d)"

lemma spend_time: "quick E d \<Longrightarrow> node_now (spend E w) \<le> node_now w + int d"
  by (simp add: quick_def spend_def)

lemma execute_time:
  assumes "quick E d"
  shows "node_now (snd (execute E cmd w)) \<le> node_now w + int d"
proof -
  have "node_now (spend E (w\<lparr>node_nats := g, node_trace := tr\<rparr>)) \<le> node_now w + int d"
    "node_now (spend E (w\<lparr>node_trace := tr\<rparr>)) \<le> node_now w + int d" for g tr
    using spend_time [OF assms, of "w\<lparr>node_nats := g, node_trace := tr\<rparr>"]
      spend_time [OF assms, of "w\<lparr>node_trace := tr\<rparr>"] by simp_all
  then show ?thesis
    by (auto simp: execute_def natsPublish_def runCommand_def ignoreErr_apply ret_apply split: prod.splits outcome.splits)
qed

lemma runJob_time:
  assumes "quick E d"
  shows "node_now (snd (runJob E v w)) \<le> node_now w + 2 * int d"
proof -
  have "node_now (snd (execute E cmd (spend E w))) \<le> node_now w + 2 * int d" for cmd
    using execute_time [OF assms, of cmd "spend E w"] spend_time [OF assms, of w] by linarith
  moreover have "node_now (spend E w) \<le> node_now w + 2 * int d"
    using spend_time [OF assms, of w] by linarith
  ultimately show ?thesis
    by (auto simp: runJob_def timeNow_def andThen_apply ret_apply gopanic_apply
        split: prod.splits option.splits bool.splits)
qed

lemma jobLoop_time:
  assumes "quick E d"
  shows "node_now (snd (jobLoop E items ks w)) \<le> node_now w + 2 * int d * int (length (jobValues items ks))"
proof (induction ks arbitrary: w)
  case (Cons k ks)
  show ?case
  proof (cases "k = ROOT_KEY")
    case True
    with Cons show ?thesis by (simp add: jobValues_def)
  next
    case False
    let ?v = "case map_of items k of None \<Rightarrow> '''' | Some v \<Rightarrow> v"
    obtain r w1 where r: "runJob E ?v w = (r, w1)" by (cases "runJob E ?v w")
    have "node_now w1 \<le> node_now w + 2 * int d" using runJob_time [OF assms, of ?v w] by (simp add: r)
    moreover have "length (jobValues items (k # ks)) = Suc (length (jobValues items ks))"
      using False by (simp add: jobValues_def)
    moreover have "snd (jobLoop E items (k # ks) w) = w1 \<or> snd (jobLoop E items (k # ks) w) = snd (jobLoop E items ks w1)"
      using False r by (cases r) (simp_all add: andThen_apply)
    ultimately show ?thesis using Cons [of w1] by (auto simp: algebra_simps intro: order_trans)
  qed
qed (simp add: ret_apply jobValues_def)

context worker
begin

lemma tick_served:
  assumes ok: "healthy (node_cluster w)" and lead: "nh_GetLeaderID E (node_cluster w) = word_of_int nid"
    and rd: "\<exists>ans. fst (nh_SyncRead E scanAction (node_cluster w)) = Inr ans"
    and some: "\<exists>k v. kv (node_cluster w) k = Some v \<and> HasPrefix k ROOT_KEY"
    and nonull: "\<forall>v \<in> set (storedJobs (kv (node_cluster w))). \<not> nullJob v" and quick: "quick E d"
  shows "\<exists>w1. tick E conf nid w = waitForMinute E w1 \<and> healthy (node_cluster w1)
    \<and> kv (node_cluster w1) = kv (node_cluster w) \<and> node_nextTime w1 = node_nextTime w \<and> node_ticker w1 = node_ticker w
    \<and> node_now w \<le> node_now w1
    \<and> node_now w1 \<le> node_now w + (2 * int (length (storedJobs (kv (node_cluster w)))) + 1) * int d"
proof -
  let ?m = "kv (node_cluster w)"
  obtain ans c where r: "nh_SyncRead E scanAction (node_cluster w) = (Inr ans, c)"
    using rd by (cases "nh_SyncRead E scanAction (node_cluster w)") auto
  let ?w0 = "spend E (w\<lparr>node_cluster := c\<rparr>)"
  obtain items where c: "healthy c" "kv c = ?m" and it: "jobValues items (sort (map fst items)) = storedJobs ?m"
    and sv: "serve E (Configuration_Commands conf) w = ignoreErr (runJobs E items) ?w0"
    using serve_jobs [OF ok r some, of "Configuration_Commands conf"] by blast
  from jobLoop_run [of items "sort (map fst items)" ?w0] nonull it
  obtain ts w1 where w1: "jobLoop E items (sort (map fst items)) ?w0 = (Ok (), w1)" "node_cluster w1 = c"
    "sorted (node_now ?w0 # ts @ [node_now w1])" "node_nextTime w1 = node_nextTime w" "node_ticker w1 = node_ticker w"
    by auto
  have mono: "node_now w \<le> node_now ?w0" "node_now ?w0 \<le> node_now w1" using w1(3) by (simp_all add: spend_def)
  have "node_now ?w0 \<le> node_now w + int d" using spend_time [OF quick, of "w\<lparr>node_cluster := c\<rparr>"] by simp
  moreover have "node_now w1 \<le> node_now ?w0 + 2 * int d * int (length (storedJobs ?m))"
    using jobLoop_time [OF quick, of items "sort (map fst items)" ?w0] by (simp add: w1(1) it)
  ultimately have "node_now w1 \<le> node_now w + (2 * int (length (storedJobs ?m)) + 1) * int d"
    by (simp add: algebra_simps)
  moreover have "tick E conf nid w = waitForMinute E w1"
    using lead w1(1) by (simp add: tick_def sv runJobs_def andThen_apply ignoreErr_apply)
  ultimately show ?thesis using w1 c mono by (intro exI [of _ w1]) simp
qed

end

text \<open>
  A worker in step with the clock: it waits for a tick, and the minute it computed is the one
  before the tick's.
\<close>

definition inStep :: "('c, 'm) node \<Rightarrow> bool" where
  "inStep w \<longleftrightarrow> node_now w < node_ticker w \<and> node_nextTime w + MinuteDur = TruncateMinute (node_ticker w)"

lemma TruncateMinute_add: "TruncateMinute (t + MinuteDur) = TruncateMinute t + MinuteDur"
  by (simp add: TruncateMinute_def)

lemma TruncateMinute_same:
  assumes "s \<le> t" and "t < s + (MinuteDur - s mod MinuteDur)"
  shows "TruncateMinute t = TruncateMinute s"
proof -
  have pos: "0 < MinuteDur" by (simp add: durations)
  define q where "q = s div MinuteDur"
  have s: "s = q * MinuteDur + s mod MinuteDur" by (simp add: q_def)
  have "0 \<le> s mod MinuteDur" using pos by simp
  then have "q * MinuteDur \<le> t" "t < (q + 1) * MinuteDur" using assms s by (simp_all add: algebra_simps)
  then have "t div MinuteDur = q" using pos by (simp add: int_div_pos_eq [of t MinuteDur q "t - q * MinuteDur"] algebra_simps)
  then show ?thesis
    by (simp add: TruncateMinute_def minus_mod_eq_div_mult q_def)
qed

text \<open>The end of a tick puts the worker in step, whatever it had computed before.\<close>

lemma waitForMinute_aligns:
  assumes quick: "quick E d" and tk: "node_ticker w = T + MinuteDur" and nxt: "node_nextTime w mod MinuteDur = 0"
    and frm: "T \<le> node_now w" and room: "node_now w + 2 * int d < T + (MinuteDur - T mod MinuteDur)"
    and over: "3 * int d < MinuteDur"
  shows "\<exists>w'. waitForMinute E w = (Ok (), w') \<and> node_cluster w' = node_cluster w \<and> inStep w'
    \<and> node_nextTime w' mod MinuteDur = 0
    \<and> (node_nextTime w + MinuteDur \<le> node_now w \<longrightarrow> node_ticker w' = node_ticker w)
    \<and> (node_now w < node_nextTime w + MinuteDur \<longrightarrow> node_ticker w' mod MinuteDur \<le> 3 * int d)"
proof (cases "node_nextTime w + MinuteDur \<le> node_now w")
  case True
  let ?w1 = "spend E (w\<lparr>node_nextTime := node_nextTime w + MinuteDur\<rparr>)"
  let ?w' = "(spend E ?w1)\<lparr>node_nextTime := TruncateMinute (node_now ?w1)\<rparr>"
  have run: "waitForMinute E w = (Ok (), ?w')"
    using True by (simp add: waitForMinute_def timeNow_def setNextTime_def andThen_apply Let_def)
  have b: "node_now ?w1 \<le> node_now w + int d" "node_now (spend E ?w1) \<le> node_now ?w1 + int d" "node_now w \<le> node_now ?w1"
    using spend_time [OF quick, of "w\<lparr>node_nextTime := node_nextTime w + MinuteDur\<rparr>"] spend_time [OF quick, of ?w1]
    by (simp_all add: spend_def)
  have "0 \<le> T mod MinuteDur" by (simp add: durations)
  then have "TruncateMinute (node_now ?w1) = TruncateMinute T" "node_now (spend E ?w1) < T + MinuteDur"
    using TruncateMinute_same [of T "node_now ?w1"] b frm room by linarith+
  then have "inStep ?w'" by (simp add: inStep_def tk TruncateMinute_add)
  with run True show ?thesis by (intro exI [of _ ?w']) simp
next
  case False
  let ?n = "node_nextTime w + MinuteDur"
  let ?w1 = "spend E (w\<lparr>node_nextTime := ?n\<rparr>)"
  let ?w2 = "spend E (?w1\<lparr>node_now := node_now ?w1 + (?n - node_now w)\<rparr>)"
  let ?w' = "(spend E ?w2)\<lparr>node_ticker := node_now (spend E ?w2) + MinuteDur\<rparr>"
  have run: "waitForMinute E w = (Ok (), ?w')"
    using False by (simp add: waitForMinute_def timeNow_def setNextTime_def Sleep_def NewTicker_def andThen_apply Let_def)
  have "node_now ?w1 \<le> node_now w + int d" "node_now w \<le> node_now ?w1"
    using spend_time [OF quick, of "w\<lparr>node_nextTime := ?n\<rparr>"] by (simp_all add: spend_def)
  moreover have "node_now ?w2 \<le> node_now ?w1 + (?n - node_now w) + int d" "node_now ?w1 + (?n - node_now w) \<le> node_now ?w2"
    using spend_time [OF quick, of "?w1\<lparr>node_now := node_now ?w1 + (?n - node_now w)\<rparr>"] by (simp_all add: spend_def)
  moreover have "node_now (spend E ?w2) \<le> node_now ?w2 + int d" "node_now ?w2 \<le> node_now (spend E ?w2)"
    using spend_time [OF quick, of ?w2] by (simp_all add: spend_def)
  ultimately have now: "?n \<le> node_now (spend E ?w2)" "node_now (spend E ?w2) \<le> ?n + 3 * int d" by linarith+
  have n0: "?n mod MinuteDur = 0" using nxt by simp
  have "TruncateMinute (node_now (spend E ?w2)) = TruncateMinute ?n"
    using now over n0 by (intro TruncateMinute_same) simp_all
  then have tr: "TruncateMinute (node_now (spend E ?w2)) = ?n" using n0 by (simp add: TruncateMinute_def)
  moreover have "0 < MinuteDur" by (simp add: durations)
  ultimately have "inStep ?w'" by (simp add: inStep_def TruncateMinute_add)
  moreover have "node_ticker ?w' mod MinuteDur \<le> 3 * int d"
    using tr now(2) by (simp add: TruncateMinute_def)
  ultimately show ?thesis using run False n0 by (intro exI [of _ ?w']) simp
qed

context worker
begin

lemma round_aligns:
  assumes ok: "healthy (node_cluster w)" and lead: "nh_GetLeaderID E (node_cluster w) = word_of_int nid"
    and rd: "\<exists>ans. fst (nh_SyncRead E scanAction (node_cluster w)) = Inr ans"
    and some: "\<exists>k v. kv (node_cluster w) k = Some v \<and> HasPrefix k ROOT_KEY"
    and nonull: "\<forall>v \<in> set (storedJobs (kv (node_cluster w))). \<not> nullJob v"
    and quick: "quick E d" and wait: "node_now w \<le> node_ticker w" and nxt: "node_nextTime w mod MinuteDur = 0"
    and room: "node_ticker w mod MinuteDur + (2 * int (length (storedJobs (kv (node_cluster w)))) + 3) * int d < MinuteDur"
  shows "\<exists>w1 w2. awaitTick w = (Ok (), w1) \<and> node_now w1 = node_ticker w \<and> tick E conf nid w1 = (Ok (), w2)
    \<and> healthy (node_cluster w2) \<and> kv (node_cluster w2) = kv (node_cluster w) \<and> inStep w2
    \<and> node_nextTime w2 mod MinuteDur = 0
    \<and> (node_nextTime w + MinuteDur \<le> node_ticker w \<longrightarrow> node_ticker w2 = node_ticker w + MinuteDur)
    \<and> (node_ticker w2 = node_ticker w + MinuteDur \<or> node_ticker w2 mod MinuteDur \<le> 3 * int d)"
proof -
  let ?J = "2 * int (length (storedJobs (kv (node_cluster w))))" and ?T = "node_ticker w"
  define w1 where "w1 = w\<lparr>node_now := ?T, node_ticker := ?T + MinuteDur\<rparr>"
  have aw: "awaitTick w = (Ok (), w1)"
    using wait by (simp add: awaitTick_def w1_def Let_def max_def)
  have same: "node_cluster w1 = node_cluster w" "node_now w1 = ?T" by (simp_all add: w1_def)
  obtain w2 where w2: "tick E conf nid w1 = waitForMinute E w2" "healthy (node_cluster w2)"
    "kv (node_cluster w2) = kv (node_cluster w)" "node_nextTime w2 = node_nextTime w" "node_ticker w2 = ?T + MinuteDur"
    "?T \<le> node_now w2" "node_now w2 \<le> ?T + (?J + 1) * int d"
    using tick_served [of w1 nid d conf, unfolded same, OF ok lead rd some nonull quick] by (auto simp: w1_def)
  have T0: "0 \<le> ?T mod MinuteDur" by (simp add: durations)
  have sum: "(?J + 1) * int d + 2 * int d = (?J + 3) * int d" by (simp add: algebra_simps)
  have room2: "node_now w2 + 2 * int d < ?T + (MinuteDur - ?T mod MinuteDur)"
    using w2(7) room sum by linarith
  have "3 * int d \<le> (?J + 3) * int d" by (simp add: algebra_simps)
  then have over: "3 * int d < MinuteDur" using room T0 by linarith
  have next2: "node_nextTime w2 mod MinuteDur = 0" using nxt w2(4) by simp
  from waitForMinute_aligns [OF quick w2(5) next2 w2(6) room2 over] obtain w3 where
    w3: "waitForMinute E w2 = (Ok (), w3)" "node_cluster w3 = node_cluster w2" "inStep w3" "node_nextTime w3 mod MinuteDur = 0"
    "node_nextTime w2 + MinuteDur \<le> node_now w2 \<longrightarrow> node_ticker w3 = node_ticker w2"
    "node_now w2 < node_nextTime w2 + MinuteDur \<longrightarrow> node_ticker w3 mod MinuteDur \<le> 3 * int d"
    by (elim exE conjE) (rule that)
  have t1: "node_nextTime w + MinuteDur \<le> ?T \<longrightarrow> node_ticker w3 = ?T + MinuteDur"
    using w2(4,5,6) w3(5) by simp
  have t2: "node_ticker w3 = ?T + MinuteDur \<or> node_ticker w3 mod MinuteDur \<le> 3 * int d"
    using w2(5) w3(5,6) by (cases "node_nextTime w2 + MinuteDur \<le> node_now w2") simp_all
  have run: "tick E conf nid w1 = (Ok (), w3)" using w2(1) w3(1) by simp
  have "healthy (node_cluster w3)" "kv (node_cluster w3) = kv (node_cluster w)" using w2(2,3) w3(2) by simp_all
  with aw same(2) run w3(3,4) t1 t2 show ?thesis
    by - (rule exI [of _ w1], rule exI [of _ w3], intro conjI)
qed

lemma round_steady:
  assumes ok: "healthy (node_cluster w)" and lead: "nh_GetLeaderID E (node_cluster w) = word_of_int nid"
    and rd: "\<exists>ans. fst (nh_SyncRead E scanAction (node_cluster w)) = Inr ans"
    and some: "\<exists>k v. kv (node_cluster w) k = Some v \<and> HasPrefix k ROOT_KEY"
    and nonull: "\<forall>v \<in> set (storedJobs (kv (node_cluster w))). \<not> nullJob v"
    and quick: "quick E d" and step: "inStep w"
    and room: "node_ticker w mod MinuteDur + (2 * int (length (storedJobs (kv (node_cluster w)))) + 3) * int d < MinuteDur"
  shows "\<exists>w1 w2. awaitTick w = (Ok (), w1) \<and> node_now w1 = node_ticker w \<and> tick E conf nid w1 = (Ok (), w2)
    \<and> healthy (node_cluster w2) \<and> kv (node_cluster w2) = kv (node_cluster w) \<and> inStep w2
    \<and> node_ticker w2 = node_ticker w + MinuteDur"
proof -
  have "node_nextTime w + MinuteDur \<le> node_ticker w" "node_now w \<le> node_ticker w"
    using step TruncateMinute_le [of "node_ticker w"] by (simp_all add: inStep_def)
  moreover have "(node_nextTime w + MinuteDur) mod MinuteDur = 0"
    using step TruncateMinute_mod [of "node_ticker w"] by (simp add: inStep_def)
  ultimately show ?thesis
    using round_aligns [OF ok lead rd some nonull quick _ _ room, of conf] by auto
qed

lemma rounds_steady:
  assumes lead: "\<And>c. nh_GetLeaderID E c = word_of_int nid"
    and rd: "\<And>c. healthy c \<Longrightarrow> \<exists>ans. fst (nh_SyncRead E scanAction c) = Inr ans" and quick: "quick E d"
    and "healthy (node_cluster w)" and "\<exists>k v. kv (node_cluster w) k = Some v \<and> HasPrefix k ROOT_KEY"
    and "\<forall>v \<in> set (storedJobs (kv (node_cluster w))). \<not> nullJob v" and "inStep w"
    and "node_ticker w mod MinuteDur + (2 * int (length (storedJobs (kv (node_cluster w)))) + 3) * int d < MinuteDur"
  shows "\<exists>w'. leaderRounds E conf nid n w = (Ok (), w') \<and> inStep w' \<and> node_ticker w' = node_ticker w + int n * MinuteDur
    \<and> kv (node_cluster w') = kv (node_cluster w)"
  using assms(4-8)
proof (induction n arbitrary: w)
  case 0
  then show ?case by (simp add: ret_apply)
next
  case (Suc n)
  from round_steady [OF Suc.prems(1) lead rd [OF Suc.prems(1)] Suc.prems(2,3) quick Suc.prems(4,5), of conf]
  obtain w1 w2 where w2: "awaitTick w = (Ok (), w1)" "tick E conf nid w1 = (Ok (), w2)" "healthy (node_cluster w2)"
    "kv (node_cluster w2) = kv (node_cluster w)" "inStep w2" "node_ticker w2 = node_ticker w + MinuteDur" by blast
  have "node_ticker w2 mod MinuteDur = node_ticker w mod MinuteDur" by (simp add: w2(6))
  with Suc.IH [OF w2(3), unfolded w2(4), OF Suc.prems(2,3) w2(5)] Suc.prems(5) obtain w' where
    w': "leaderRounds E conf nid n w2 = (Ok (), w')" "inStep w'" "node_ticker w' = node_ticker w2 + int n * MinuteDur"
    "kv (node_cluster w') = kv (node_cluster w)" by auto
  have "leaderRounds E conf nid (Suc n) w = (Ok (), w')"
    using w2(1,2) w'(1) by (simp add: andThen_apply)
  with w' w2(6) show ?case by (intro exI [of _ w']) (simp add: algebra_simps)
qed

end

context worker
begin

text \<open>Two ticks over an empty store: the first installs the configured jobs, the second runs them.\<close>

lemma two_rounds:
  assumes lead: "\<And>c. nh_GetLeaderID E c = word_of_int nid"
    and rd: "\<And>c. healthy c \<Longrightarrow> \<exists>ans. fst (nh_SyncRead E scanAction c) = Inr ans"
    and ok: "healthy (node_cluster w)" and none: "\<And>k. HasPrefix k ROOT_KEY \<Longrightarrow> kv (node_cluster w) k = None"
    and acc: "accepted (nh_SyncPropose E) (firstPuts (Configuration_Commands conf))
      (snd (nh_SyncRead E scanAction (node_cluster w)))"
    and n: "length (Configuration_Commands conf) \<le> 10"
    and ints: "\<forall>c \<in> set (Configuration_Commands conf). is_int64 (Command_Timeout c) \<and> is_int64 (Command_Retry c)"
  shows "\<exists>ts w'. leaderRounds E conf nid 2 w = (Ok (), w') \<and> length ts = length (Configuration_Commands conf)
    \<and> sorted (node_now w # ts @ [node_now w'])
    \<and> node_trace w' = node_trace w @ concat (map2 (commandEffects \<circ> cleanCommand) (Configuration_Commands conf) ts)"
proof -
  let ?cmds = "Configuration_Commands conf"
  obtain w0 where w0: "awaitTick w = (Ok (), w0)" "node_cluster w0 = node_cluster w" "node_trace w0 = node_trace w"
    "node_now w \<le> node_now w0"
    by (auto simp: awaitTick_def Let_def)
  obtain w1 where w1: "tick E conf nid w0 = (Ok (), w1)" "healthy (node_cluster w1)" "node_trace w1 = node_trace w"
    "node_now w0 \<le> node_now w1" "sameStore (firstRun ?cmds (kv (node_cluster w))) (kv (node_cluster w1))"
    using tick_first [of w0 nid conf, unfolded w0(2), OF ok lead rd [OF ok] none] acc w0(3) by auto
  obtain w2 where w2: "awaitTick w1 = (Ok (), w2)" "node_cluster w2 = node_cluster w1" "node_trace w2 = node_trace w1"
    "node_now w1 \<le> node_now w2"
    by (auto simp: awaitTick_def Let_def)
  have jobs: "storedJobs (kv (node_cluster w1)) = map marshalCommand ?cmds"
    using none by (intro storedJobs_firstRun [OF n _ finite_kv [OF w1(2)] w1(5)]) blast
  have root: "kv (node_cluster w1) ROOT_KEY = Some ''OK''"
    using w1(5) firstRun_root appliedIndexKey_no_job [of ROOT_KEY] by (simp add: sameStore_def)
  then have some: "\<exists>k v. kv (node_cluster w1) k = Some v \<and> HasPrefix k ROOT_KEY"
    by (metis HasPrefix_refl)
  have nonull: "\<forall>v \<in> set (storedJobs (kv (node_cluster w1))). \<not> nullJob v"
    using ints jobEffects_marshal(2) by (auto simp: jobs)
  from tick_jobs [of w2 nid conf, unfolded w2(2), OF w1(2) lead rd [OF w1(2)] some nonull]
  obtain ts w3 where w3: "tick E conf nid w2 = (Ok (), w3)" "length ts = length ?cmds"
    "sorted (node_now w2 # ts @ [node_now w3])"
    "node_trace w3 = node_trace w2 @ concat (map2 jobEffects (map marshalCommand ?cmds) ts)"
    unfolding jobs length_map by blast
  have "map2 jobEffects (map marshalCommand ?cmds) ts = map2 (commandEffects \<circ> cleanCommand) ?cmds ts"
    using ints w3(2) by (auto simp: list_eq_iff_nth_eq jobEffects_marshal(1))
  moreover have "leaderRounds E conf nid 2 w = (Ok (), w3)"
    using w0(1) w1(1) w2(1) w3(1) by (simp add: numeral_2_eq_2 andThen_apply ret_apply)
  moreover have "sorted (node_now w # ts @ [node_now w3])"
    using w3(3) w0(4) w1(4) w2(4) by (fastforce intro: order_trans)
  ultimately show ?thesis
    using w0 w1 w2 w3 by (intro exI [of _ ts] exI [of _ w3]) simp
qed

end

section \<open>An example\<close>

text \<open>A worker whose cluster is one replica over the reference library.\<close>

definition exampleNodeEnv :: "((refDb, refDb) world, (string \<times> TlsConfig) list \<times> (nat \<times> string \<times> bytes) list) nodeEnv" where
  "exampleNodeEnv = \<lparr>nh_GetLeaderID = (\<lambda>_. 1), nh_SyncRead = replicaRead (exampleEnv (\<lambda>_. NoFault)),
     nh_SyncPropose = replicaPropose (exampleEnv (\<lambda>_. NoFault)), natsLib = exampleNats, elapsed = (\<lambda>_. 1)\<rparr>"

definition exampleNode :: "refDb \<Rightarrow> ((refDb, refDb) world, (string \<times> TlsConfig) list \<times> (nat \<times> string \<times> bytes) list) node" where
  "exampleNode s = \<lparr>node_cluster = exampleWorld s 0, node_nats = (([], []), exampleNatsService\<lparr>nats_nc := Some 0\<rparr>),
     node_trace = [], node_now = 0, node_steps = 0, node_nextTime = 0, node_ticker = MinuteDur\<rparr>"

definition exampleCommand :: Command where
  "exampleCommand = emptyCommand\<lparr>Command_Type := ''nats'', Command_Exec := ''jobs'', Command_Args := ''run''\<rparr>"

lemma exampleNodeEnv_simps [simp]:
  "nh_GetLeaderID exampleNodeEnv c = 1" "nh_SyncRead exampleNodeEnv = replicaRead (exampleEnv (\<lambda>_. NoFault))"
  "nh_SyncPropose exampleNodeEnv = replicaPropose (exampleEnv (\<lambda>_. NoFault))" "natsLib exampleNodeEnv = exampleNats"
  by (simp_all add: exampleNodeEnv_def)

lemma exampleNode_simps [simp]:
  "node_cluster (exampleNode s) = exampleWorld s 0" "node_trace (exampleNode s) = []"
  "node_ticker (exampleNode s) = MinuteDur" "inStep (exampleNode s)"
  by (simp_all add: exampleNode_def inStep_def TruncateMinute_def durations)

interpretation exampleWorker: worker exampleNodeEnv "replicaHealthy map_of" "replicaKv map_of"
proof (intro worker.intro worker_axioms.intro)
  show "cluster (nh_SyncRead exampleNodeEnv) (nh_SyncPropose exampleNodeEnv) (replicaHealthy map_of) (replicaKv map_of)"
    unfolding exampleNodeEnv_simps by (rule oneReplica.cluster_axioms)
next
  fix nc ch msg m
  show "fst (lib_Publish (natsLib exampleNodeEnv) nc ch msg m) = Ok ()
    \<or> (\<exists>e. fst (lib_Publish (natsLib exampleNodeEnv) nc ch msg m) = Err e)"
    by (simp add: exampleNats_def split: option.splits prod.splits)
qed

lemma replicaHealthy_example: "validContents (map_of s) \<Longrightarrow> replicaHealthy map_of (exampleWorld s i)"
  by (simp add: replicaHealthy_def replicaKv_def)

lemma replicaKv_example [simp]: "replicaKv map_of (exampleWorld s i) = map_of s"
  by (simp add: replicaKv_def)

lemma scanAction_query: "Action_Action (queryAction scanAction) = ''SCAN''"
  by (simp add: scanAction_def queryAction_marshal cleanAction_def sanitize_ascii)

lemma example_read:
  assumes "replicaHealthy map_of w"
  shows "\<exists>ans. fst (replicaRead (exampleEnv f) scanAction w) = Inr ans"
proof -
  have "rocksLib (exampleEnv f) = refRocks" by simp
  from rocks_reliable.replicaRead_scan [OF refLib.rocks_reliable_axioms this assms scanAction_query] show ?thesis by force
qed

lemma storedJobs_single: "storedJobs (map_of [(jobKey i, v)]) = [v]"
  by (simp add: storedJobs_def pairs_def)

lemma exampleCommand_effects:
  "jobEffects (marshalCommand exampleCommand) t = [Published ''jobs'' ''run'']" "\<not> nullJob (marshalCommand exampleCommand)"
proof -
  have ints: "is_int64 (Command_Timeout exampleCommand)" "is_int64 (Command_Retry exampleCommand)"
    by (simp_all add: exampleCommand_def emptyCommand_def int64_simps)
  have "cleanCommand exampleCommand = exampleCommand"
    by (simp add: cleanCommand_def cleanCron_def exampleCommand_def emptyCommand_def emptyCron_def sanitize_ascii)
  moreover have "commandEffects exampleCommand t = [Published ''jobs'' ''run'']"
    by (simp add: commandEffects_def exampleCommand_def emptyCommand_def emptyCron_def cronMatches_def fieldMatches_def)
  ultimately show "jobEffects (marshalCommand exampleCommand) t = [Published ''jobs'' ''run'']"
    using jobEffects_marshal(1) [OF ints] by simp
  show "\<not> nullJob (marshalCommand exampleCommand)" by (rule jobEffects_marshal(2) [OF ints])
qed

section \<open>Properties\<close>

text \<open>
  C15. A tick of the leader runs exactly the jobs that are due. When the scan succeeds and the
  store has jobs, none of them the JSON value \<^verbatim>\<open>null\<close>, the tick returns, the store is as before,
  and what left the process is, job after job in the order of the keys, one message or program
  for each job that has a type and a target and whose schedule fits the time at which its turn
  came, and nothing else; these times lie in order between the tick and its end.
\<close>

theorem tick_runs_due_jobs:
  assumes "worker E healthy kv" and "healthy (node_cluster w)"
    and "nh_GetLeaderID E (node_cluster w) = word_of_int nid"
    and "\<exists>ans. fst (nh_SyncRead E scanAction (node_cluster w)) = Inr ans"
    and "\<exists>k v. kv (node_cluster w) k = Some v \<and> HasPrefix k ROOT_KEY"
    and "\<forall>v \<in> set (storedJobs (kv (node_cluster w))). \<not> nullJob v"
  shows "\<exists>ts w'. tick E conf nid w = (Ok (), w') \<and> kv (node_cluster w') = kv (node_cluster w)
    \<and> length ts = length (storedJobs (kv (node_cluster w))) \<and> sorted (node_now w # ts @ [node_now w'])
    \<and> node_trace w' = node_trace w @ concat (map2 jobEffects (storedJobs (kv (node_cluster w))) ts)"
  using worker.tick_jobs [OF assms] by blast

theorem tick_runs_due_jobs_witness:
  "\<exists>w'. tick exampleNodeEnv emptyConfiguration 1 (exampleNode [(jobKey 0, marshalCommand exampleCommand)]) = (Ok (), w')
    \<and> node_trace w' = [Published ''jobs'' ''run'']"
proof -
  let ?s = "[(jobKey 0, marshalCommand exampleCommand)]"
  have h: "replicaHealthy map_of (exampleWorld ?s 0)"
    by (rule replicaHealthy_example) (simp add: validContents_def)
  have some: "\<exists>k v. map_of ?s k = Some v \<and> HasPrefix k ROOT_KEY" by (metis HasPrefix_jobKey map_of_Cons_code(2))
  have nn: "\<forall>v \<in> set (storedJobs (map_of ?s)). \<not> nullJob v"
    using exampleCommand_effects(2) by (simp only: storedJobs_single) simp
  obtain ts w' where "tick exampleNodeEnv emptyConfiguration 1 (exampleNode ?s) = (Ok (), w')"
    "length ts = length (storedJobs (map_of ?s))"
    "node_trace w' = concat (map2 jobEffects (storedJobs (map_of ?s)) ts)"
    using tick_runs_due_jobs [OF exampleWorker.worker_axioms, of "exampleNode ?s" 1 emptyConfiguration]
      h example_read [OF h] some nn by auto
  then show ?thesis
    unfolding storedJobs_single by (cases ts) (auto simp: exampleCommand_effects(1))
qed

text \<open>
  The first run installs the configured jobs. A tick of the leader over a store without any
  key of the scheduler returns and sends nothing out; afterwards each key has its old value or
  that of the installed store, and when every proposal succeeded, the store holds the root key
  and every configured command under its number, and all other keys are as before.
\<close>

theorem first_tick_installs_jobs:
  assumes "worker E healthy kv" and "healthy (node_cluster w)"
    and "nh_GetLeaderID E (node_cluster w) = word_of_int nid"
    and "\<exists>ans. fst (nh_SyncRead E scanAction (node_cluster w)) = Inr ans"
    and "\<And>k. HasPrefix k ROOT_KEY \<Longrightarrow> kv (node_cluster w) k = None"
  shows "\<exists>w'. tick E conf nid w = (Ok (), w') \<and> node_trace w' = node_trace w
    \<and> between (kv (node_cluster w)) (firstRun (Configuration_Commands conf) (kv (node_cluster w))) (kv (node_cluster w'))
    \<and> (accepted (nh_SyncPropose E) (firstPuts (Configuration_Commands conf))
          (snd (nh_SyncRead E scanAction (node_cluster w))) \<longrightarrow>
        kv (node_cluster w') ROOT_KEY = Some ''OK''
        \<and> (\<forall>i < length (Configuration_Commands conf).
             kv (node_cluster w') (jobKey i) = Some (marshalCommand (Configuration_Commands conf ! i)))
        \<and> (\<forall>k. k \<noteq> appliedIndexKey \<and> k \<noteq> ROOT_KEY \<and> (\<forall>i < length (Configuration_Commands conf). k \<noteq> jobKey i)
             \<longrightarrow> kv (node_cluster w') k = kv (node_cluster w) k))"
proof -
  let ?cmds = "Configuration_Commands conf" and ?m = "kv (node_cluster w)"
  obtain w' where w': "tick E conf nid w = (Ok (), w')" "node_trace w' = node_trace w"
    "between ?m (firstRun ?cmds ?m) (kv (node_cluster w'))"
    "accepted (nh_SyncPropose E) (firstPuts ?cmds) (snd (nh_SyncRead E scanAction (node_cluster w))) \<longrightarrow>
       sameStore (firstRun ?cmds ?m) (kv (node_cluster w'))"
    using worker.tick_first [OF assms] by blast
  have "ROOT_KEY \<noteq> appliedIndexKey" and "jobKey i \<noteq> appliedIndexKey" for i
    by (simp_all add: appliedIndexKey_no_job)
  then have "kv (node_cluster w') ROOT_KEY = Some ''OK''
      \<and> (\<forall>i < length ?cmds. kv (node_cluster w') (jobKey i) = Some (marshalCommand (?cmds ! i)))
      \<and> (\<forall>k. k \<noteq> appliedIndexKey \<and> k \<noteq> ROOT_KEY \<and> (\<forall>i < length ?cmds. k \<noteq> jobKey i)
           \<longrightarrow> kv (node_cluster w') k = ?m k)"
    if "sameStore (firstRun ?cmds ?m) (kv (node_cluster w'))"
    using that by (simp add: sameStore_def firstRun_root firstRun_job firstRun_other)
  with w' show ?thesis by blast
qed

definition exampleConfiguration :: Configuration where
  "exampleConfiguration = emptyConfiguration\<lparr>Configuration_Commands := [exampleCommand]\<rparr>"

lemma exampleConfiguration_Commands [simp]: "Configuration_Commands exampleConfiguration = [exampleCommand]"
  by (simp add: exampleConfiguration_def)

lemma example_accepted:
  "accepted (replicaPropose (exampleEnv (\<lambda>_. NoFault))) (firstPuts [exampleCommand])
     (snd (replicaRead (exampleEnv (\<lambda>_. NoFault)) scanAction (exampleWorld [] 0)))"
proof -
  let ?E = "exampleEnv (\<lambda>_. NoFault)"
  let ?as = "[\<lparr>Action_Action = ''PUT'', Action_Key = ROOT_KEY, Action_Val = ''OK''\<rparr>,
    \<lparr>Action_Action = ''PUT'', Action_Key = jobKey 0, Action_Val = marshalCommand exampleCommand\<rparr>]"
  have h: "replicaHealthy map_of (exampleWorld [] 0)" by (rule replicaHealthy_example) (simp add: validContents_def)
  have E: "rocksLib ?E = refRocks" by simp
  from rocks_reliable.replicaRead_scan [OF refLib.rocks_reliable_axioms E h scanAction_query]
  obtain n where n: "snd (replicaRead ?E scanAction (exampleWorld [] 0)) = (exampleWorld [] 0)\<lparr>calls := n\<rparr>" by fastforce
  have lib: "fst (c_write (rocksLib ?E) t wo s b) = None" for t wo s b
    by (simp add: refRocks_def)
  have os: "faults ?E = (\<lambda>_. NoFault)" by (simp add: exampleEnv_def)
  have "accepted (replicaPropose ?E) (map marshalAction ?as) ((exampleWorld [] 0)\<lparr>calls := n\<rparr>)"
    by (rule rocks_reliable.replica_accepts [OF refLib.rocks_reliable_axioms E lib os]) (use h in simp_all)
  then show ?thesis by (simp add: n firstPuts_def putAction_def)
qed

theorem first_tick_installs_jobs_witness:
  "\<exists>w'. tick exampleNodeEnv exampleConfiguration 1 (exampleNode []) = (Ok (), w')
    \<and> replicaKv map_of (node_cluster w') (jobKey 0) = Some (marshalCommand exampleCommand)"
proof -
  have h: "replicaHealthy map_of (exampleWorld [] 0)"
    by (rule replicaHealthy_example) (simp add: validContents_def)
  show ?thesis
    using first_tick_installs_jobs [OF exampleWorker.worker_axioms, of "exampleNode []" 1 exampleConfiguration]
      h example_read [OF h] example_accepted by auto
qed

text \<open>
  C11. From an empty store to running jobs. Over a cluster that accepts its proposals, a leader
  that finds no jobs installs the configured ones in its first tick, and in its second it runs
  exactly those of them that are due at their turn, in the order of the configuration as long
  as there are at most ten; what it runs are the configured commands with every string made
  valid UTF-8.
\<close>

theorem configured_jobs_run:
  assumes "worker E healthy kv" and "\<And>c. nh_GetLeaderID E c = word_of_int nid"
    and "\<And>c. healthy c \<Longrightarrow> \<exists>ans. fst (nh_SyncRead E scanAction c) = Inr ans"
    and "healthy (node_cluster w)" and "\<And>k. HasPrefix k ROOT_KEY \<Longrightarrow> kv (node_cluster w) k = None"
    and "accepted (nh_SyncPropose E) (firstPuts (Configuration_Commands conf))
      (snd (nh_SyncRead E scanAction (node_cluster w)))"
    and "length (Configuration_Commands conf) \<le> 10"
    and "\<forall>c \<in> set (Configuration_Commands conf). is_int64 (Command_Timeout c) \<and> is_int64 (Command_Retry c)"
  shows "\<exists>ts w'. leaderRounds E conf nid 2 w = (Ok (), w') \<and> length ts = length (Configuration_Commands conf)
    \<and> sorted (node_now w # ts @ [node_now w'])
    \<and> node_trace w' = node_trace w @ concat (map2 (commandEffects \<circ> cleanCommand) (Configuration_Commands conf) ts)"
  by (rule worker.two_rounds [OF assms])

theorem configured_jobs_run_witness:
  "\<exists>t w'. leaderRounds exampleNodeEnv exampleConfiguration 1 2 (exampleNode []) = (Ok (), w')
    \<and> node_trace w' = commandEffects (cleanCommand exampleCommand) t"
proof -
  have h: "replicaHealthy map_of (exampleWorld [] 0)"
    by (rule replicaHealthy_example) (simp add: validContents_def)
  have ints: "\<forall>c \<in> set [exampleCommand]. is_int64 (Command_Timeout c) \<and> is_int64 (Command_Retry c)"
    by (simp add: exampleCommand_def emptyCommand_def int64_simps)
  obtain ts w' where "leaderRounds exampleNodeEnv exampleConfiguration 1 2 (exampleNode []) = (Ok (), w')"
    "length ts = 1" "node_trace w' = concat (map2 (commandEffects \<circ> cleanCommand) [exampleCommand] ts)"
    using configured_jobs_run [OF exampleWorker.worker_axioms, of 1 "exampleNode []" exampleConfiguration]
      h example_read example_accepted ints by auto
  then show ?thesis by (cases ts) auto
qed

text \<open>
  C13. The leader looks at the jobs once in every minute. When it is in step with the clock, stays
  the leader, its scans succeed, the store has jobs and none is \<^verbatim>\<open>null\<close>, and the actions of a
  tick together end before the minute does, then round after round returns, and the round with
  number \<open>n\<close> begins exactly \<open>n\<close> minutes after the first one.
\<close>

theorem leader_every_minute:
  assumes "worker E healthy kv" and "\<And>c. nh_GetLeaderID E c = word_of_int nid"
    and "\<And>c. healthy c \<Longrightarrow> \<exists>ans. fst (nh_SyncRead E scanAction c) = Inr ans" and "quick E d"
    and "healthy (node_cluster w)" and "\<exists>k v. kv (node_cluster w) k = Some v \<and> HasPrefix k ROOT_KEY"
    and "\<forall>v \<in> set (storedJobs (kv (node_cluster w))). \<not> nullJob v" and "inStep w"
    and "node_ticker w mod MinuteDur + (2 * int (length (storedJobs (kv (node_cluster w)))) + 3) * int d < MinuteDur"
  shows "\<exists>w1 w2. leaderRounds E conf nid n w = (Ok (), w1) \<and> awaitTick w1 = (Ok (), w2)
    \<and> node_now w2 = node_ticker w + int n * MinuteDur"
proof -
  obtain w1 where w1: "leaderRounds E conf nid n w = (Ok (), w1)" "inStep w1"
    "node_ticker w1 = node_ticker w + int n * MinuteDur"
    using worker.rounds_steady [OF assms, of conf n] by blast
  then show ?thesis by (auto simp: awaitTick_def inStep_def Let_def)
qed

theorem leader_every_minute_witness:
  "\<exists>w1 w2. leaderRounds exampleNodeEnv emptyConfiguration 1 1440 (exampleNode [(jobKey 0, marshalCommand exampleCommand)]) = (Ok (), w1)
    \<and> awaitTick w1 = (Ok (), w2) \<and> node_now w2 = MinuteDur + DayDur"
proof -
  let ?s = "[(jobKey 0, marshalCommand exampleCommand)]"
  have h: "replicaHealthy map_of (exampleWorld ?s 0)"
    by (rule replicaHealthy_example) (simp add: validContents_def)
  have some: "\<exists>k v. map_of ?s k = Some v \<and> HasPrefix k ROOT_KEY" by (metis HasPrefix_jobKey map_of_Cons_code(2))
  have nn: "\<forall>v \<in> set (storedJobs (map_of ?s)). \<not> nullJob v"
    using exampleCommand_effects(2) by (simp only: storedJobs_single) simp
  have len: "length (storedJobs (map_of ?s)) = 1" by (simp only: storedJobs_single) simp
  have quick: "quick exampleNodeEnv 1" by (simp add: quick_def exampleNodeEnv_def)
  have room: "MinuteDur mod MinuteDur + (2 * int (length (storedJobs (map_of ?s))) + 3) * int 1 < MinuteDur"
    unfolding len by (simp add: durations)
  have "MinuteDur + int 1440 * MinuteDur = MinuteDur + DayDur" by (simp add: durations)
  moreover have "\<exists>w1 w2. leaderRounds exampleNodeEnv emptyConfiguration 1 1440 (exampleNode ?s) = (Ok (), w1)
      \<and> awaitTick w1 = (Ok (), w2) \<and> node_now w2 = node_ticker (exampleNode ?s) + int 1440 * MinuteDur"
  proof (rule leader_every_minute [OF exampleWorker.worker_axioms _ _ quick])
    fix c :: "(refDb, refDb) world" assume "replicaHealthy map_of c"
    then show "\<exists>ans. fst (nh_SyncRead exampleNodeEnv scanAction c) = Inr ans"
      unfolding exampleNodeEnv_simps by (rule example_read)
  qed (use h some nn room in \<open>simp_all only: exampleNode_simps exampleNodeEnv_simps replicaKv_example of_int_1 word_of_int_1\<close>)
  ultimately show ?thesis by simp
qed

text \<open>
  C37. A job whose stored value is the JSON text \<^verbatim>\<open>null\<close> stops the leader: decoding it into the
  pointer variable sets the pointer to nil without an error, and the next access panics. The
  value is still there after a restart, and on the next leader.
\<close>

theorem null_job_crashes:
  assumes "worker E healthy kv" and "healthy (node_cluster w)"
    and "nh_GetLeaderID E (node_cluster w) = word_of_int nid"
    and "\<exists>ans. fst (nh_SyncRead E scanAction (node_cluster w)) = Inr ans"
    and "kv (node_cluster w) k = Some ''null''" and "HasPrefix k ROOT_KEY" and "k \<noteq> ROOT_KEY"
  shows "fst (tick E conf nid w) = Panic nilCommand"
proof -
  have "nullJob ''null''" unfolding nullJob_def by code_simp
  then show ?thesis by (rule worker.tick_null [OF assms])
qed

theorem null_job_crashes_witness:
  "fst (tick exampleNodeEnv emptyConfiguration 1 (exampleNode [(jobKey 0, ''null'')])) = Panic nilCommand"
proof -
  have h: "replicaHealthy map_of (exampleWorld [(jobKey 0, ''null'')] 0)"
    by (rule replicaHealthy_example) (simp add: validContents_def)
  show ?thesis
    by (rule null_job_crashes [OF exampleWorker.worker_axioms, where k = "jobKey 0"])
      (use h example_read [OF h] in simp_all)
qed

text \<open>
  One round puts a leader in step with the clock. Whatever whole minute the worker had
  computed before, for instance because it was no leader for a while, after a round whose
  actions end before the minute of its tick does, it waits for its next tick with the minute
  computed that lies before it; when it was behind, the next tick is a minute after this one,
  otherwise at the beginning of a minute but for the time three readings of the clock take.
\<close>

theorem leader_gets_in_step:
  assumes "worker E healthy kv" and "healthy (node_cluster w)"
    and "nh_GetLeaderID E (node_cluster w) = word_of_int nid"
    and "\<exists>ans. fst (nh_SyncRead E scanAction (node_cluster w)) = Inr ans"
    and "\<exists>k v. kv (node_cluster w) k = Some v \<and> HasPrefix k ROOT_KEY"
    and "\<forall>v \<in> set (storedJobs (kv (node_cluster w))). \<not> nullJob v"
    and "quick E d" and "node_now w \<le> node_ticker w" and "node_nextTime w mod MinuteDur = 0"
    and "node_ticker w mod MinuteDur + (2 * int (length (storedJobs (kv (node_cluster w)))) + 3) * int d < MinuteDur"
  shows "\<exists>w'. leaderRounds E conf nid 1 w = (Ok (), w') \<and> inStep w' \<and> node_nextTime w' mod MinuteDur = 0
    \<and> (node_ticker w' = node_ticker w + MinuteDur \<or> node_ticker w' mod MinuteDur \<le> 3 * int d)"
proof -
  obtain w1 w2 where "awaitTick w = (Ok (), w1)" "tick E conf nid w1 = (Ok (), w2)" "inStep w2"
    "node_nextTime w2 mod MinuteDur = 0"
    "node_ticker w2 = node_ticker w + MinuteDur \<or> node_ticker w2 mod MinuteDur \<le> 3 * int d"
    using worker.round_aligns [OF assms, of conf] by (elim exE conjE) (rule that)
  then show ?thesis by (simp add: andThen_apply ret_apply)
qed

theorem leader_gets_in_step_witness:
  "\<exists>w'. leaderRounds exampleNodeEnv emptyConfiguration 1 1
      ((exampleNode [(jobKey 0, marshalCommand exampleCommand)])\<lparr>node_ticker := MinuteDur + 5, node_nextTime := MinuteDur\<rparr>)
    = (Ok (), w') \<and> inStep w'"
proof -
  let ?s = "[(jobKey 0, marshalCommand exampleCommand)]"
  let ?w = "(exampleNode ?s)\<lparr>node_ticker := MinuteDur + 5, node_nextTime := MinuteDur\<rparr>"
  have h: "replicaHealthy map_of (node_cluster ?w)"
    by (simp, rule replicaHealthy_example) (simp add: validContents_def)
  have kv: "replicaKv map_of (node_cluster ?w) = map_of ?s" by (simp del: map_of.simps)
  have some: "\<exists>k v. map_of ?s k = Some v \<and> HasPrefix k ROOT_KEY" by (metis HasPrefix_jobKey map_of_Cons_code(2))
  have nn: "\<forall>v \<in> set (storedJobs (map_of ?s)). \<not> nullJob v"
    using exampleCommand_effects(2) by (simp only: storedJobs_single) simp
  have quick: "quick exampleNodeEnv 1" by (simp add: quick_def exampleNodeEnv_def)
  have room: "node_ticker ?w mod MinuteDur + (2 * int (length (storedJobs (map_of ?s))) + 3) * int 1 < MinuteDur"
    unfolding storedJobs_single by (simp add: durations)
  have time: "node_now ?w \<le> node_ticker ?w" "node_nextTime ?w mod MinuteDur = 0"
    by (simp_all add: exampleNode_def durations)
  have lead: "nh_GetLeaderID exampleNodeEnv (node_cluster ?w) = word_of_int 1" by simp
  have rd: "\<exists>ans. fst (nh_SyncRead exampleNodeEnv scanAction (node_cluster ?w)) = Inr ans"
    unfolding exampleNodeEnv_simps by (rule example_read [OF h])
  from leader_gets_in_step [OF exampleWorker.worker_axioms h lead rd, unfolded kv, OF some nn quick time room]
  show ?thesis by blast
qed

end
