(* ===== verification/Console.thy ===== *)
theory Console
  imports Cluster
begin

text \<open>
  The console, \<^verbatim>\<open>src/dcrontab/main.go\<close> lines 307 to 329, 504 to 524 and 645 to 693: a worker reads
  lines from the standard input into a channel, another takes them from there, parses them and
  proposes or queries; \<^verbatim>\<open>main\<close> returns when the second one has ended. The two workers run
  concurrently: the model is a step relation on the channel, the input and where each stands.
\<close>

section \<open>Parsing\<close>

datatype RequestType = PUT | GET | DELETE

definition parseCommand :: "string \<Rightarrow> RequestType \<times> string \<times> string \<times> bool" where
  "parseCommand msg =
     (let parts = Split (TrimSpace msg) CHR '' ''
      in if length parts = 0 \<or> parts ! 0 \<noteq> ''put'' \<and> parts ! 0 \<noteq> ''get'' then (PUT, '''', '''', False)
         else if parts ! 0 = ''put'' then
           if length parts \<noteq> 3 then (PUT, '''', '''', False) else (PUT, parts ! 1, parts ! 2, True)
         else if length parts \<noteq> 2 then (GET, '''', '''', False)
         else (GET, parts ! 1, '''', True))"

definition printUsage :: string where
  "printUsage = ''*** Usage *** '' @ [byte 10] @ ''put key value'' @ [byte 10] @ ''get key'' @ [byte 10] @ ''exit'' @ [byte 10]"

section \<open>The raft worker\<close>

text \<open>What it writes: to the standard error and output for a line it cannot parse, else to the log.\<close>

datatype report =
    InvalidInput string
  | ProposeError error
  | QueryError error
  | QueryResult string bytes

text \<open>
  Lines 653 to 686 for one line: the outputs and the cluster afterwards. The library's
  \<^verbatim>\<open>SyncRead\<close> and \<^verbatim>\<open>SyncPropose\<close> are arguments; a query passes the key as it was typed.
\<close>

definition handleLine :: "(bytes \<Rightarrow> 'c \<Rightarrow> (error + bytes) \<times> 'c) \<Rightarrow> (bytes \<Rightarrow> 'c \<Rightarrow> (error + uint64) \<times> 'c)
    \<Rightarrow> string \<Rightarrow> 'c \<Rightarrow> report list \<times> 'c" where
  "handleLine SyncRead SyncPropose v c =
     (let msg = dropNewline v
      in case parseCommand msg of (rt, key, val, ok) \<Rightarrow>
           if \<not> ok then ([InvalidInput printUsage], c)
           else if rt = PUT then
             (case SyncPropose (marshalAction \<lparr>Action_Action = ''PUT'', Action_Key = key, Action_Val = val\<rparr>) c of
                (Inl e, c') \<Rightarrow> ([ProposeError e], c')
              | (Inr _, c') \<Rightarrow> ([], c'))
           else
             (case SyncRead key c of
                (Inl e, c') \<Rightarrow> ([QueryError e], c')
              | (Inr result, c') \<Rightarrow> ([QueryResult key result], c')))"

section \<open>The two workers\<close>

text \<open>
  \<^verbatim>\<open>reader.ReadString('\n')\<close>: the next line with its newline, or an error when the input ends
  before one; the source drops what was read with the error.
\<close>

definition newline :: char where "newline = byte 10"

definition ReadString :: "string \<Rightarrow> (string \<times> string) option" where
  "ReadString s = (case dropWhile (\<lambda>c. c \<noteq> newline) s of
       [] \<Rightarrow> None
     | c # rest \<Rightarrow> Some (takeWhile (\<lambda>c. c \<noteq> newline) s @ [c], rest))"

definition exitLine :: string where "exitLine = ''exit'' @ [newline]"

text \<open>
  Where the console worker stands: before a read, blocked on sending a line to the channel,
  in \<^verbatim>\<open>raftStopper.Stop()\<close> (which asks the raft worker to stop and waits for it), in \<^verbatim>\<open>nh.Stop()\<close>,
  or at its end. The raft worker is in its loop or has returned.
\<close>

datatype consoleAt = Reading | Sending string | Stopping | StoppingHost | ConsoleDone

datatype raftAt = RaftLoop | RaftDone

record 'c system =
  stdin :: string
  ch :: "string list"
  chClosed :: bool
  consoleAt :: consoleAt
  raftAt :: raftAt
  shouldStop :: bool
  hostStopped :: bool
  sys_cluster :: 'c
  handled :: "string list"
  outputs :: "report list"
  exited :: bool

definition chanCap :: nat where "chanCap = 16"

definition startSystem :: "string \<Rightarrow> 'c \<Rightarrow> 'c system" where
  "startSystem input c = \<lparr>stdin = input, ch = [], chClosed = False, consoleAt = Reading, raftAt = RaftLoop,
     shouldStop = False, hostStopped = False, sys_cluster = c, handled = [], outputs = [], exited = False\<rparr>"

text \<open>
  The steps. A \<^verbatim>\<open>select\<close> with both cases ready takes either; the process ends when \<^verbatim>\<open>main\<close> returns from
  \<^verbatim>\<open>raftStopper.Wait()\<close>, wherever the other worker stands then.
\<close>

inductive sysStep :: "(bytes \<Rightarrow> 'c \<Rightarrow> (error + bytes) \<times> 'c) \<Rightarrow> (bytes \<Rightarrow> 'c \<Rightarrow> (error + uint64) \<times> 'c)
    \<Rightarrow> 'c system \<Rightarrow> 'c system \<Rightarrow> bool" for rd pr where
  readLine: "\<not> exited w \<Longrightarrow> consoleAt w = Reading \<Longrightarrow> ReadString (stdin w) = Some (s, rest) \<Longrightarrow> s \<noteq> exitLine \<Longrightarrow>
    sysStep rd pr w (w\<lparr>stdin := rest, consoleAt := Sending s\<rparr>)"
| readExit: "\<not> exited w \<Longrightarrow> consoleAt w = Reading \<Longrightarrow> ReadString (stdin w) = Some (s, rest) \<Longrightarrow> s = exitLine \<Longrightarrow>
    sysStep rd pr w (w\<lparr>stdin := rest, consoleAt := Stopping, shouldStop := True\<rparr>)"
| readEnd: "\<not> exited w \<Longrightarrow> consoleAt w = Reading \<Longrightarrow> ReadString (stdin w) = None \<Longrightarrow>
    sysStep rd pr w (w\<lparr>chClosed := True, consoleAt := ConsoleDone\<rparr>)"
| send: "\<not> exited w \<Longrightarrow> consoleAt w = Sending s \<Longrightarrow> length (ch w) < chanCap \<Longrightarrow>
    sysStep rd pr w (w\<lparr>ch := ch w @ [s], consoleAt := Reading\<rparr>)"
| stopped: "\<not> exited w \<Longrightarrow> consoleAt w = Stopping \<Longrightarrow> raftAt w = RaftDone \<Longrightarrow>
    sysStep rd pr w (w\<lparr>consoleAt := StoppingHost\<rparr>)"
| stopHost: "\<not> exited w \<Longrightarrow> consoleAt w = StoppingHost \<Longrightarrow>
    sysStep rd pr w (w\<lparr>hostStopped := True, consoleAt := ConsoleDone\<rparr>)"
| receive: "\<not> exited w \<Longrightarrow> raftAt w = RaftLoop \<Longrightarrow> ch w = v # vs \<Longrightarrow> handleLine rd pr v (sys_cluster w) = (out, c) \<Longrightarrow>
    sysStep rd pr w (w\<lparr>ch := vs, sys_cluster := c, handled := handled w @ [v], outputs := outputs w @ out\<rparr>)"
| closed: "\<not> exited w \<Longrightarrow> raftAt w = RaftLoop \<Longrightarrow> ch w = [] \<Longrightarrow> chClosed w \<Longrightarrow>
    sysStep rd pr w (w\<lparr>raftAt := RaftDone\<rparr>)"
| stop: "\<not> exited w \<Longrightarrow> raftAt w = RaftLoop \<Longrightarrow> shouldStop w \<Longrightarrow>
    sysStep rd pr w (w\<lparr>raftAt := RaftDone\<rparr>)"
| mainReturns: "\<not> exited w \<Longrightarrow> raftAt w = RaftDone \<Longrightarrow>
    sysStep rd pr w (w\<lparr>exited := True\<rparr>)"

inductive_cases sysStep_E: "sysStep rd pr w w'"

inductive reachable :: "(bytes \<Rightarrow> 'c \<Rightarrow> (error + bytes) \<times> 'c) \<Rightarrow> (bytes \<Rightarrow> 'c \<Rightarrow> (error + uint64) \<times> 'c)
    \<Rightarrow> 'c system \<Rightarrow> 'c system \<Rightarrow> bool" for rd pr w0 where
  start: "reachable rd pr w0 w0"
| step: "reachable rd pr w0 w \<Longrightarrow> sysStep rd pr w w' \<Longrightarrow> reachable rd pr w0 w'"

section \<open>Invariants\<close>

text \<open>The lines that are on their way: in the channel, or held by the console worker.\<close>

definition pending :: "'c system \<Rightarrow> string list" where
  "pending w = ch w @ (case consoleAt w of Sending s \<Rightarrow> [s] | _ \<Rightarrow> [])"

fun handleLines :: "(bytes \<Rightarrow> 'c \<Rightarrow> (error + bytes) \<times> 'c) \<Rightarrow> (bytes \<Rightarrow> 'c \<Rightarrow> (error + uint64) \<times> 'c)
    \<Rightarrow> string list \<Rightarrow> 'c \<Rightarrow> report list \<times> 'c" where
  "handleLines rd pr [] c = ([], c)"
| "handleLines rd pr (v # vs) c =
     (case handleLine rd pr v c of (out, c1) \<Rightarrow> case handleLines rd pr vs c1 of (outs, c2) \<Rightarrow> (out @ outs, c2))"

lemma ReadString_append: "ReadString s = Some (l, rest) \<Longrightarrow> s = l @ rest"
  unfolding ReadString_def
  by (auto split: list.splits) (metis append_Cons append_Nil takeWhile_dropWhile_id)

lemma ReadString_not_Nil: "ReadString s = Some (l, rest) \<Longrightarrow> l \<noteq> []"
  by (auto simp: ReadString_def split: list.splits)

lemma ReadString_shorter: "ReadString s = Some (l, rest) \<Longrightarrow> length rest < length s"
  using ReadString_append [of s l rest] ReadString_not_Nil [of s l rest] by auto

text \<open>The complete lines of a text, and those before the first exit line.\<close>

function linesOf :: "string \<Rightarrow> string list" where
  "linesOf s = (case ReadString s of None \<Rightarrow> [] | Some (l, rest) \<Rightarrow> l # linesOf rest)"
  by auto
termination
  by (relation "measure length") (auto dest: ReadString_shorter)

declare linesOf.simps [simp del]

definition linesBeforeExit :: "string \<Rightarrow> string list" where
  "linesBeforeExit s = takeWhile (\<lambda>l. l \<noteq> exitLine) (linesOf s)"

lemma handleLines_append:
  "handleLines rd pr (us @ vs) c =
     (case handleLines rd pr us c of (out, c1) \<Rightarrow> case handleLines rd pr vs c1 of (outs, c2) \<Rightarrow> (out @ outs, c2))"
  by (induction us arbitrary: c) (auto split: prod.splits)

text \<open>
  What holds in every reachable state: the lines handled and pending, in this order, are the
  first lines of the input, and together with what the console worker has yet to read they
  give all lines before an exit; the cluster and the outputs are those of handling the handled
  lines one after the other.
\<close>

definition consistent :: "(bytes \<Rightarrow> 'c \<Rightarrow> (error + bytes) \<times> 'c) \<Rightarrow> (bytes \<Rightarrow> 'c \<Rightarrow> (error + uint64) \<times> 'c)
    \<Rightarrow> string \<Rightarrow> 'c \<Rightarrow> 'c system \<Rightarrow> bool" where
  "consistent rd pr input c w \<longleftrightarrow>
     linesBeforeExit input = handled w @ pending w @
       (case consoleAt w of Reading \<Rightarrow> linesBeforeExit (stdin w) | Sending _ \<Rightarrow> linesBeforeExit (stdin w) | _ \<Rightarrow> [])
     \<and> (outputs w, sys_cluster w) = handleLines rd pr (handled w) c
     \<and> length (ch w) \<le> chanCap
     \<and> (chClosed w \<longrightarrow> consoleAt w = ConsoleDone \<and> \<not> shouldStop w)
     \<and> (consoleAt w = ConsoleDone \<longrightarrow> chClosed w \<or> shouldStop w)
     \<and> (consoleAt w \<in> {Stopping, StoppingHost} \<longrightarrow> shouldStop w)
     \<and> (shouldStop w \<longrightarrow> consoleAt w \<in> {Stopping, StoppingHost, ConsoleDone} \<and> exitLine \<in> set (linesOf input))
     \<and> (raftAt w = RaftDone \<longrightarrow> shouldStop w \<or> chClosed w \<and> ch w = [])
     \<and> (consoleAt w = StoppingHost \<or> hostStopped w \<longrightarrow> raftAt w = RaftDone)
     \<and> (hostStopped w \<longrightarrow> shouldStop w)
     \<and> (consoleAt w = ConsoleDone \<and> shouldStop w \<longrightarrow> hostStopped w)
     \<and> (exited w \<longrightarrow> raftAt w = RaftDone)
     \<and> (exitLine \<in> set (linesOf (stdin w)) \<longrightarrow> exitLine \<in> set (linesOf input))"

lemma linesBeforeExit_read:
  assumes "ReadString s = Some (l, rest)"
  shows "linesBeforeExit s = (if l = exitLine then [] else l # linesBeforeExit rest)"
    and "set (linesOf s) = insert l (set (linesOf rest))"
  using assms by (simp_all add: linesBeforeExit_def linesOf.simps [of s])

lemma linesBeforeExit_end: "ReadString s = None \<Longrightarrow> linesBeforeExit s = []"
  by (simp add: linesBeforeExit_def linesOf.simps [of s])

lemma consistent_start: "consistent rd pr input c (startSystem input c)"
  by (simp add: consistent_def startSystem_def pending_def)

lemma consistent_step:
  assumes "consistent rd pr input c w" and "sysStep rd pr w w'"
  shows "consistent rd pr input c w'"
  using assms(2,1)
proof cases
  case (readLine s rest)
  then show ?thesis
    using assms(1) linesBeforeExit_read [of "stdin w" s rest]
    by (auto simp: consistent_def pending_def)
next
  case (readExit s rest)
  then show ?thesis
    using assms(1) linesBeforeExit_read [of "stdin w" s rest]
    by (auto simp: consistent_def pending_def)
next
  case readEnd
  then show ?thesis
    using assms(1) linesBeforeExit_end [of "stdin w"] by (auto simp: consistent_def pending_def)
next
  case (receive v vs out c')
  then show ?thesis
    using assms(1) by (cases "consoleAt w") (auto simp: consistent_def pending_def handleLines_append split: prod.splits)
qed (use assms(1) in \<open>cases "consoleAt w"; auto simp: consistent_def pending_def\<close>)+

lemma reachable_consistent:
  "reachable rd pr (startSystem input c) w \<Longrightarrow> consistent rd pr input c w"
  by (induction rule: reachable.induct) (auto intro: consistent_start consistent_step)

section \<open>Ending\<close>

definition weight :: "'c system \<Rightarrow> nat" where
  "weight w = 4 * length (stdin w) + length (ch w)
     + (case consoleAt w of Reading \<Rightarrow> 4 | Sending _ \<Rightarrow> 6 | Stopping \<Rightarrow> 3 | StoppingHost \<Rightarrow> 2 | ConsoleDone \<Rightarrow> 0)
     + (case raftAt w of RaftLoop \<Rightarrow> 1 | RaftDone \<Rightarrow> 0) + (if exited w then 0 else 1)"

lemma sysStep_weight: "sysStep rd pr w w' \<Longrightarrow> weight w' < weight w"
  by (erule sysStep_E) (auto simp: weight_def dest: ReadString_shorter)

lemma consistent_progress:
  assumes "consistent rd pr input c w" and "\<not> exited w"
  shows "\<exists>w'. sysStep rd pr w w'"
proof (cases "raftAt w = RaftDone")
  case True
  with assms(2) show ?thesis by (blast intro: mainReturns)
next
  case False
  then have loop: "raftAt w = RaftLoop" by (cases "raftAt w") auto
  show ?thesis
  proof (cases "ch w")
    case (Cons v vs)
    then show ?thesis using assms(2) loop by (metis receive surj_pair)
  next
    case Nil
    show ?thesis
    proof (cases "consoleAt w")
      case Reading
      then show ?thesis using assms(2) by (metis readEnd readExit readLine not_None_eq surj_pair)
    next
      case (Sending s)
      moreover have "length (ch w) < chanCap" by (simp add: Nil chanCap_def)
      ultimately show ?thesis using assms(2) by (blast intro: send)
    qed (use assms loop Nil in \<open>auto simp: consistent_def intro: stop closed\<close>)
  qed
qed

section \<open>Properties\<close>

text \<open>
  C25. A line is accepted exactly when, without the white space around it, it is the word put with
  a key and a value or the word get with a key, separated by single spaces; key and value are
  then what was typed, and neither contains a space.
\<close>

theorem parseCommand_exact:
  "parseCommand msg = (rt, key, val, True) \<longleftrightarrow>
     CHR '' '' \<notin> set key \<and> CHR '' '' \<notin> set val \<and>
     (rt = PUT \<and> TrimSpace msg = ''put '' @ key @ '' '' @ val \<or>
      rt = GET \<and> val = '''' \<and> TrimSpace msg = ''get '' @ key)"
proof -
  have split: "Split s CHR '' '' = ps \<longleftrightarrow> ps \<noteq> [] \<and> (\<forall>p \<in> set ps. CHR '' '' \<notin> set p) \<and> s = Join ps '' ''" for s ps
    using Join_Split [of s "CHR '' ''"] Split_Join [of ps "CHR '' ''"] Split_parts_no_sep [of _ s "CHR '' ''"]
    by auto
  have "parseCommand msg = (rt, key, val, True) \<longleftrightarrow>
      rt = PUT \<and> Split (TrimSpace msg) CHR '' '' = [''put'', key, val]
      \<or> rt = GET \<and> val = '''' \<and> Split (TrimSpace msg) CHR '' '' = [''get'', key]"
    by (auto simp: parseCommand_def Let_def length_Suc_conv numeral_3_eq_3 numeral_2_eq_2 split: if_splits)
  then show ?thesis unfolding split by auto
qed

text \<open>
  C19. The console loses, repeats and reorders nothing, in every interleaving of the two workers:
  the lines handled so far followed by those on their way are the first lines of the input
  before an exit line, the channel never holds more than its capacity, and the cluster and the
  outputs are those of handling the handled lines one after the other. The node host is only
  stopped after the raft worker has ended.
\<close>

theorem console_in_order:
  assumes "reachable rd pr (startSystem input c) w"
  shows "prefix (handled w @ pending w) (linesBeforeExit input)
    \<and> (outputs w, sys_cluster w) = handleLines rd pr (handled w) c
    \<and> length (ch w) \<le> chanCap \<and> (hostStopped w \<longrightarrow> raftAt w = RaftDone)"
  using reachable_consistent [OF assms] by (auto simp: consistent_def)

definition storeRead :: "bytes \<Rightarrow> (string \<rightharpoonup> string) \<Rightarrow> (error + bytes) \<times> (string \<rightharpoonup> string)" where
  "storeRead k m = (case m k of None \<Rightarrow> Inr '''' | Some v \<Rightarrow> Inr v, m)"

definition storePropose :: "bytes \<Rightarrow> (string \<rightharpoonup> string) \<Rightarrow> (error + uint64) \<times> (string \<rightharpoonup> string)" where
  "storePropose cmd m = (let a = fst (unmarshalAction cmd emptyAction)
     in (Inr 0, m(Action_Key a \<mapsto> Action_Val a)))"

definition exampleInput :: string where
  "exampleInput = ''get a'' @ [newline] @ exitLine"

lemma exampleInput_read:
  "ReadString exampleInput = Some (''get a'' @ [newline], exitLine)" "ReadString exitLine = Some (exitLine, [])"
  "ReadString [] = None" "''get a'' @ [newline] \<noteq> exitLine"
  by code_simp+

lemma exampleInput_lines:
  "linesOf exampleInput = [''get a'' @ [newline], exitLine]" "linesBeforeExit exampleInput = [''get a'' @ [newline]]"
proof -
  show l: "linesOf exampleInput = [''get a'' @ [newline], exitLine]"
    using exampleInput_read by (simp add: linesOf.simps [of exampleInput] linesOf.simps [of exitLine] linesOf.simps [of "[]"])
  show "linesBeforeExit exampleInput = [''get a'' @ [newline]]"
    using exampleInput_read(4) by (simp add: linesBeforeExit_def l)
qed

theorem console_in_order_witness:
  "prefix (pending ((startSystem exampleInput (Map.empty :: string \<rightharpoonup> string))\<lparr>stdin := exitLine, consoleAt := Sending (''get a'' @ [newline])\<rparr>))
     (linesBeforeExit exampleInput)"
proof -
  let ?w = "startSystem exampleInput (Map.empty :: string \<rightharpoonup> string)"
  have "reachable storeRead storePropose ?w (?w\<lparr>stdin := exitLine, consoleAt := Sending (''get a'' @ [newline])\<rparr>)"
    by (intro step [OF start] readLine) (use exampleInput_read in \<open>simp_all add: startSystem_def\<close>)
  from console_in_order [OF this] show ?thesis by (simp add: startSystem_def)
qed

text \<open>
  C27. The process ends. Every run of the two workers is finite, and a state that was reached and
  has not exited always has a next step: there is no deadlock, also when the channel is full
  or the exit line comes while lines wait.
\<close>

theorem console_ends:
  "wfp (\<lambda>w' w. sysStep rd pr w w') \<and>
   (\<forall>w. reachable rd pr (startSystem input c) w \<and> \<not> exited w \<longrightarrow> (\<exists>w'. sysStep rd pr w w'))"
proof
  show "wfp (\<lambda>w' w. sysStep rd pr w w')"
    by (rule wfp_if_convertible_to_nat [of _ weight]) (rule sysStep_weight)
  show "\<forall>w. reachable rd pr (startSystem input c) w \<and> \<not> exited w \<longrightarrow> (\<exists>w'. sysStep rd pr w w')"
  proof (intro allI impI, elim conjE)
    fix w assume "reachable rd pr (startSystem input c) w" "\<not> exited w"
    then show "\<exists>w'. sysStep rd pr w w'" by (rule consistent_progress [OF reachable_consistent])
  qed
qed

theorem console_ends_witness:
  "\<exists>w'. sysStep storeRead storePropose (startSystem exampleInput Map.empty) w'"
  using console_ends [of storeRead storePropose exampleInput Map.empty] start [of storeRead storePropose]
  by (auto simp: startSystem_def)

text \<open>
  At the end of the input every complete line was handled: when the input has no exit line and
  the process has ended, the lines handled are all lines of the input, in order. With an exit
  line, those handled are some first part of the lines before it.
\<close>

theorem console_handles_all:
  assumes "reachable rd pr (startSystem input c) w" and "exited w"
  shows "(exitLine \<notin> set (linesOf input) \<longrightarrow> handled w = linesOf input \<and>
      (outputs w, sys_cluster w) = handleLines rd pr (linesOf input) c)
    \<and> prefix (handled w) (linesBeforeExit input)"
proof -
  have inv: "consistent rd pr input c w" by (rule reachable_consistent [OF assms(1)])
  have "linesBeforeExit input = linesOf input" if "exitLine \<notin> set (linesOf input)"
    using that by (auto simp: linesBeforeExit_def takeWhile_eq_all_conv)
  with inv assms(2) show ?thesis by (auto simp: consistent_def pending_def)
qed

lemma reachable_exit:
  "\<exists>w. reachable rd pr (startSystem exitLine c) w \<and> exited w \<and> \<not> hostStopped w"
proof -
  let ?w0 = "startSystem exitLine c"
  let ?w1 = "?w0\<lparr>stdin := [], consoleAt := Stopping, shouldStop := True\<rparr>"
  let ?w2 = "?w1\<lparr>raftAt := RaftDone\<rparr>"
  have "reachable rd pr ?w0 ?w1"
    by (intro step [OF start] readExit) (use exampleInput_read(2) in \<open>simp_all add: startSystem_def\<close>)
  then have "reachable rd pr ?w0 ?w2"
    by (rule step, intro stop) (simp_all add: startSystem_def)
  then have "reachable rd pr ?w0 (?w2\<lparr>exited := True\<rparr>)"
    by (rule step, intro mainReturns) (simp_all add: startSystem_def)
  moreover have "exited (?w2\<lparr>exited := True\<rparr>)" "\<not> hostStopped (?w2\<lparr>exited := True\<rparr>)"
    by (simp_all add: startSystem_def)
  ultimately show ?thesis by (intro exI conjI)
qed

theorem console_handles_all_witness:
  "\<exists>w. reachable storeRead storePropose (startSystem exitLine Map.empty) w \<and> prefix (handled w) (linesBeforeExit exitLine)"
proof -
  obtain w where w: "reachable storeRead storePropose (startSystem exitLine Map.empty) w" "exited w"
    using reachable_exit [of storeRead storePropose Map.empty] by (elim exE conjE) (rule that)
  from console_handles_all [OF w] have "prefix (handled w) (linesBeforeExit exitLine)" by (rule conjunct2)
  with w(1) show ?thesis by (intro exI conjI)
qed

text \<open>
  The exit command does not wait for the node host: \<^verbatim>\<open>main\<close> returns as soon as the raft worker
  has ended, and the process can be over before \<^verbatim>\<open>nh.Stop()\<close> was called.
\<close>

theorem exit_may_skip_host_stop:
  "\<exists>w. reachable rd pr (startSystem exitLine c) w \<and> exited w \<and> \<not> hostStopped w"
  by (rule reachable_exit)

text \<open>
  C26. Typed commands reach the store. Over a cluster that keeps its contract, and for a key other than
  that of the applied index and a key and value of valid UTF-8: when the handling of an accepted
  put line reports nothing, the store has the value under the key and is otherwise as before; when
  it reports an error, which is the only other case, the same has happened or nothing has changed,
  and the user cannot tell which. Handling an accepted get line, whose key is not itself read as a query
  in JSON, reports an error or the key with the value the store has for it, and changes nothing.
\<close>

theorem console_put_get:
  assumes "cluster rd pr healthy kv" and "healthy c" and "handleLine rd pr v c = (out, c')"
    and "validUtf8 key" and "validUtf8 val" and "key \<noteq> appliedIndexKey"
  shows "(parseCommand (dropNewline v) = (PUT, key, val, True) \<longrightarrow>
      (out = [] \<longrightarrow> kv c' key = Some val \<and> (\<forall>k. k \<noteq> key \<and> k \<noteq> appliedIndexKey \<longrightarrow> kv c' k = kv c k))
      \<and> (out \<noteq> [] \<longrightarrow> (\<exists>e. out = [ProposeError e])
           \<and> (\<forall>k. k \<noteq> key \<and> k \<noteq> appliedIndexKey \<longrightarrow> kv c' k = kv c k) \<and> kv c' key \<in> {Some val, kv c key}))
    \<and> (parseCommand (dropNewline v) = (GET, key, '''', True)
        \<and> queryAction key = \<lparr>Action_Action = ''GET'', Action_Key = key, Action_Val = ''''\<rparr> \<longrightarrow>
      kv c' = kv c \<and> ((\<exists>e. out = [QueryError e])
        \<or> out = [QueryResult key (case kv c key of None \<Rightarrow> '''' | Some x \<Rightarrow> x)]))"
proof (rule conjI; intro impI)
  let ?a = "\<lparr>Action_Action = ''PUT'', Action_Key = key, Action_Val = val\<rparr>"
  assume p: "parseCommand (dropNewline v) = (PUT, key, val, True)"
  obtain r c1 where r: "pr (marshalAction ?a) c = (r, c1)" by (cases "pr (marshalAction ?a) c")
  have c1: "c1 = c'" and out: "out = (case r of Inl e \<Rightarrow> [ProposeError e] | Inr _ \<Rightarrow> [])"
    using assms(3) r by (auto simp: handleLine_def p split: sum.splits)
  have "afterPut ?a (kv c) (kv c') \<or> out \<noteq> [] \<and> sameStore (kv c) (kv c')"
    using cluster.propose_done [OF assms(1,2), of ?a] cluster.propose_failed [OF assms(1,2), of ?a] r c1 out by (cases r) auto
  then show "(out = [] \<longrightarrow> kv c' key = Some val \<and> (\<forall>k. k \<noteq> key \<and> k \<noteq> appliedIndexKey \<longrightarrow> kv c' k = kv c k))
      \<and> (out \<noteq> [] \<longrightarrow> (\<exists>e. out = [ProposeError e])
           \<and> (\<forall>k. k \<noteq> key \<and> k \<noteq> appliedIndexKey \<longrightarrow> kv c' k = kv c k) \<and> kv c' key \<in> {Some val, kv c key})"
    using out assms(4-6) by (cases r) (auto simp: afterPut_def sameStore_def)
next
  assume p: "parseCommand (dropNewline v) = (GET, key, '''', True)
    \<and> queryAction key = \<lparr>Action_Action = ''GET'', Action_Key = key, Action_Val = ''''\<rparr>"
  obtain r c1 where r: "rd key c = (r, c1)" by (cases "rd key c")
  have c1: "c1 = c'" and out: "out = (case r of Inl e \<Rightarrow> [QueryError e] | Inr x \<Rightarrow> [QueryResult key x])"
    using assms(3) r p by (auto simp: handleLine_def split: sum.splits)
  have "kv c' = kv c" using cluster.read_keeps [OF assms(1,2) r] c1 by simp
  moreover have "(\<exists>e. out = [QueryError e]) \<or> out = [QueryResult key (case kv c key of None \<Rightarrow> '''' | Some x \<Rightarrow> x)]"
    using out cluster.get_answer [OF assms(1,2), of key] r p by (cases r) auto
  ultimately show "kv c' = kv c \<and> ((\<exists>e. out = [QueryError e])
        \<or> out = [QueryResult key (case kv c key of None \<Rightarrow> '''' | Some x \<Rightarrow> x)])" by blast
qed

theorem console_put_get_witness:
  "\<exists>w'. handleLine (replicaRead (exampleEnv (\<lambda>_. NoFault))) (replicaPropose (exampleEnv (\<lambda>_. NoFault)))
      (''put a 1'' @ [newline]) (exampleWorld [] 0) = ([], w') \<and> replicaKv map_of w' ''a'' = Some ''1''"
proof -
  let ?E = "exampleEnv (\<lambda>_. NoFault)"
  let ?a = "\<lparr>Action_Action = ''PUT'', Action_Key = ''a'', Action_Val = ''1''\<rparr>"
  have h: "replicaHealthy map_of (exampleWorld [] 0)"
    by (simp add: replicaHealthy_def replicaKv_def validContents_def)
  have p: "parseCommand (dropNewline (''put a 1'' @ [newline])) = (PUT, ''a'', ''1'', True)" by code_simp
  have E: "rocksLib ?E = refRocks" and os: "faults ?E = (\<lambda>_. NoFault)" by (simp_all add: exampleEnv_def)
  have lib: "fst (c_write (rocksLib ?E) t wo s b) = None" for t wo s b by (simp add: E refRocks_def)
  have "accepted (replicaPropose ?E) (map marshalAction [?a]) (exampleWorld [] 0)"
    by (rule rocks_reliable.replica_accepts [OF refLib.rocks_reliable_axioms E lib os]) (use h in simp_all)
  then obtain n w' where "replicaPropose ?E (marshalAction ?a) (exampleWorld [] 0) = (Inr n, w')"
    by (cases "replicaPropose ?E (marshalAction ?a) (exampleWorld [] 0)") (auto split: sum.splits)
  then have run: "handleLine (replicaRead ?E) (replicaPropose ?E) (''put a 1'' @ [newline]) (exampleWorld [] 0) = ([], w')"
    by (simp add: handleLine_def p del: append.simps)
  then show ?thesis
    using console_put_get [OF oneReplica.cluster_axioms h run, of "''a''" "''1''"] p by (auto simp: appliedIndexKey_def)
qed

end
