(* ===== verification/Startup.thy ===== *)
theory Startup
  imports Nats Commander
begin

text \<open>
  The start of a process, \<^verbatim>\<open>src/dcrontab/main.go\<close> lines 383 to 502: the configuration is loaded, the
  node finds its id and address, the broker is connected, and the raft node host is created
  and the cluster started with \<^verbatim>\<open>NewCommander\<close>. The raft library, the broker's library and the
  machine are arguments.
\<close>

section \<open>The settings of the raft library\<close>

record RaftConfig =
  rc_NodeID :: uint64
  rc_ClusterID :: uint64
  rc_ElectionRTT :: uint64
  rc_HeartbeatRTT :: uint64
  rc_CheckQuorum :: bool
  rc_SnapshotEntries :: uint64
  rc_CompactionOverhead :: uint64

record NodeHostConfig =
  nhc_WALDir :: string
  nhc_NodeHostDir :: string
  nhc_RTTMillisecond :: uint64
  nhc_RaftAddress :: string
  nhc_MutualTLS :: bool
  nhc_CAFile :: string
  nhc_CertFile :: string
  nhc_KeyFile :: string

definition raftConfig :: "Configuration \<Rightarrow> int \<Rightarrow> RaftConfig" where
  "raftConfig conf nid = \<lparr>rc_NodeID = word_of_int nid, rc_ClusterID = Configuration_ClusterID conf,
     rc_ElectionRTT = 10, rc_HeartbeatRTT = 1, rc_CheckQuorum = True, rc_SnapshotEntries = 10,
     rc_CompactionOverhead = 5\<rparr>"

definition dataDir :: "int \<Rightarrow> string" where
  "dataDir nid = pathJoin [''dcrontab-data'', ''nodes'', ''node'' @ decInt nid]"

definition nodeHostConfig :: "Configuration \<Rightarrow> int \<Rightarrow> string \<Rightarrow> NodeHostConfig" where
  "nodeHostConfig conf nid nodeAddr = \<lparr>nhc_WALDir = dataDir nid, nhc_NodeHostDir = dataDir nid,
     nhc_RTTMillisecond = 200, nhc_RaftAddress = nodeAddr, nhc_MutualTLS = Configuration_UseTLS conf,
     nhc_CAFile = Configuration_TLSCACert conf, nhc_CertFile = Configuration_TLSCert conf,
     nhc_KeyFile = Configuration_TLSKey conf\<rparr>"

section \<open>The start\<close>

record machine =
  m_files :: "string \<Rightarrow> error + bytes"
  m_interfaces :: "error + Interface list"
  m_LookupIP :: resolver

text \<open>\<^verbatim>\<open>NewNodeHost\<close> and \<^verbatim>\<open>StartOnDiskCluster\<close>: the error they return, if any.\<close>

record raft_lib =
  lib_NewNodeHost :: "NodeHostConfig \<Rightarrow> error option"
  lib_StartOnDiskCluster :: "peers \<Rightarrow> bool \<Rightarrow> (uint64 \<Rightarrow> uint64 \<Rightarrow> Commander) \<Rightarrow> RaftConfig \<Rightarrow> error option"

record Started =
  st_configuration :: Configuration
  st_nodeID :: int
  st_nodeAddr :: string
  st_peers :: peers
  st_rc :: RaftConfig
  st_nhc :: NodeHostConfig
  st_nats :: NatsService

definition natsOf :: "Configuration \<Rightarrow> NatsService" where
  "natsOf conf = \<lparr>nats_Configuration = Configuration_NatsService conf, nats_nc = None, nats_ec = None,
     nats_AppConfig = conf\<rparr>"

text \<open>
  The comparison of the address of a field with nil in line 466 is always true: every error of
  \<^verbatim>\<open>connect\<close> panics.
\<close>

definition startRaft :: "raft_lib \<Rightarrow> Args \<Rightarrow> Configuration \<Rightarrow> peers \<Rightarrow> int \<Rightarrow> string \<Rightarrow> NatsService \<Rightarrow> ('m, Started) go" where
  "startRaft R args conf peers nid nodeAddr gonats =
     (let rc = raftConfig conf nid; nhc = nodeHostConfig conf nid nodeAddr
      in case lib_NewNodeHost R nhc of
           Some _ \<Rightarrow> gopanic ''NewNodeHost''
         | None \<Rightarrow>
             (case lib_StartOnDiskCluster R peers (arg_join args) NewCommander rc of
                Some _ \<Rightarrow> goexit
              | None \<Rightarrow> ret \<lparr>st_configuration = conf, st_nodeID = nid, st_nodeAddr = nodeAddr, st_peers = peers,
                          st_rc = rc, st_nhc = nhc, st_nats = gonats\<rparr>))"

definition startup :: "machine \<Rightarrow> 'm nats_lib \<Rightarrow> raft_lib \<Rightarrow> Args \<Rightarrow> ('m, Started) go" where
  "startup M L R args = (\<lambda>m.
     (case loadConfiguration (m_files M) (arg_config args) of
        Inl _ \<Rightarrow> goexit m
      | Inr conf \<Rightarrow>
          (let (ips, err) = publicIPs (m_interfaces M)
           in case identifyNode args conf ips (m_LookupIP M) of
                None \<Rightarrow> goexit m
              | Some (peers, nid, nodeAddr) \<Rightarrow>
                  (case connect L (m, natsOf conf) of
                     (Ok _, (m', gonats)) \<Rightarrow> startRaft R args conf peers nid nodeAddr gonats m'
                   | (Err _, (m', _)) \<Rightarrow> gopanic ''[CRITICAL] Could not connect to NATS Cluster.'' m'
                   | (Panic p, (m', _)) \<Rightarrow> (Panic p, m')
                   | (Crash, (m', _)) \<Rightarrow> (Crash, m')
                   | (Diverge, (m', _)) \<Rightarrow> (Diverge, m')))))"

section \<open>Directories\<close>

lemma dataDir_path: "dataDir nid = ''dcrontab-data/nodes/node'' @ decInt nid"
proof -
  have "plainElem (''node'' @ decInt nid)" by (simp add: plainElem_def)
  moreover have "plainElem ''dcrontab-data''" "plainElem ''nodes''" by (simp_all add: plainElem_def)
  ultimately have "Clean (Join [''dcrontab-data'', ''nodes'', ''node'' @ decInt nid] ''/'')
      = Join [''dcrontab-data'', ''nodes'', ''node'' @ decInt nid] ''/''"
    by (intro Clean_plain) auto
  then show ?thesis by (simp add: dataDir_def pathJoin_def)
qed

lemma decInt_inject: "decInt i = decInt j \<longleftrightarrow> i = j"
proof -
  have minus: "dec n \<noteq> CHR ''-'' # s" "CHR ''-'' # s \<noteq> dec n" for n s
    using dec_digits [of n] by (cases "dec n"; auto simp: is_digit_def)+
  then show ?thesis
    by (auto simp: decInt_def dec_inj eq_nat_nat_iff split: if_splits)
qed

lemma dec_underscore_inject: "dec a @ ''_'' @ dec b = dec c @ ''_'' @ dec d \<longleftrightarrow> a = c \<and> b = d"
proof
  have no: "CHR ''_'' \<notin> set (dec n)" for n
    using dec_digits [of n] by (auto simp: list_all_iff is_digit_def)
  assume "dec a @ ''_'' @ dec b = dec c @ ''_'' @ dec d"
  then have "Split (dec a @ CHR ''_'' # dec b) CHR ''_'' = Split (dec c @ CHR ''_'' # dec d) CHR ''_''" by simp
  then show "a = c \<and> b = d"
    using no by (simp add: Split_append_sep Split_no_sep dec_inj)
qed simp

section \<open>Properties\<close>

text \<open>
  C20. A process that starts is the node it should be. When the start returns, for a process that
  was given neither a negative node id nor an address and does not join, its node id is one of
  the configured positions, the raft library listens on the address at this position, works as
  this node of the configured cluster, is told all configured addresses by position, and keeps
  its files in the directory of this node; the broker is connected.
\<close>

theorem startup_sound:
  assumes "startup M L R args m = (Ok st, m')" and "\<not> arg_join args" and "arg_nodeid args \<ge> 0" and "arg_addr args = ''''"
    and "length (Configuration_Addresses (st_configuration st)) < 2 ^ 64"
  shows "1 \<le> st_nodeID st \<and> st_nodeID st \<le> int (length (Configuration_Addresses (st_configuration st)))
    \<and> nhc_RaftAddress (st_nhc st) = Configuration_Addresses (st_configuration st) ! nat (st_nodeID st - 1)
    \<and> st_peers st (rc_NodeID (st_rc st)) = Some (nhc_RaftAddress (st_nhc st))
    \<and> rc_NodeID (st_rc st) = word_of_int (st_nodeID st)
    \<and> rc_ClusterID (st_rc st) = Configuration_ClusterID (st_configuration st)
    \<and> nhc_NodeHostDir (st_nhc st) = ''dcrontab-data/nodes/node'' @ decInt (st_nodeID st)
    \<and> nats_nc (st_nats st) \<noteq> None
    \<and> lib_NewNodeHost R (st_nhc st) = None
    \<and> lib_StartOnDiskCluster R (st_peers st) False NewCommander (st_rc st) = None"
proof -
  obtain conf where conf: "loadConfiguration (m_files M) (arg_config args) = Inr conf"
    using assms(1) by (cases "loadConfiguration (m_files M) (arg_config args)")
      (auto simp: startup_def goexit_def gopanic_apply)
  obtain ips err where ips: "publicIPs (m_interfaces M) = (ips, err)" by (cases "publicIPs (m_interfaces M)")
  obtain peers nid addr where id: "identifyNode args conf ips (m_LookupIP M) = Some (peers, nid, addr)"
    using assms(1) conf ips
    by (cases "identifyNode args conf ips (m_LookupIP M)") (auto simp: startup_def goexit_def gopanic_apply)
  obtain r m1 gonats where r: "connect L (m, natsOf conf) = (r, (m1, gonats))"
    by (cases "connect L (m, natsOf conf)") auto
  have ok: "r = Ok ()"
    using assms(1) by (cases r) (simp_all add: startup_def conf ips id r gopanic_apply)
  then have nats: "connect L (m, natsOf conf) = (Ok (), (m1, gonats))" using r by simp
  then have raft: "startRaft R args conf peers nid addr gonats m1 = (Ok st, m')"
    using assms(1) by (simp add: startup_def conf ips id)
  have st: "st = \<lparr>st_configuration = conf, st_nodeID = nid, st_nodeAddr = addr, st_peers = peers,
      st_rc = raftConfig conf nid, st_nhc = nodeHostConfig conf nid addr, st_nats = gonats\<rparr>"
    and lib: "lib_NewNodeHost R (nodeHostConfig conf nid addr) = None"
      "lib_StartOnDiskCluster R peers (arg_join args) NewCommander (raftConfig conf nid) = None"
    using raft by (auto simp: startRaft_def Let_def gopanic_apply goexit_def ret_apply split: option.splits)
  have "nats_nc gonats \<noteq> None"
    using nats by (auto simp: connect_def goexit_def gopanic_apply Let_def split: sum.splits prod.splits if_splits)
  moreover have len: "length (Configuration_Addresses conf) < 2 ^ 64" using assms(5) by (simp add: st)
  ultimately show ?thesis
    using identifyNode_sound [OF assms(2,3,4) len id] lib assms(2)
    by (simp add: st raftConfig_def nodeHostConfig_def dataDir_path)
qed

definition exampleText :: string where
  "exampleText = ''{'' @ [CHR 0x22] @ ''Addresses'' @ [CHR 0x22] @ '':['' @ [CHR 0x22] @ ''10.0.0.2:6'' @ [CHR 0x22] @ '']}''"

definition exampleMachine :: machine where
  "exampleMachine = \<lparr>m_files = (\<lambda>_. Inr exampleText), m_interfaces = Inr exampleInterfaces, m_LookupIP = (\<lambda>_ _. Inl EOF)\<rparr>"

lemma exampleText_decode:
  "decodeConfiguration exampleText = Inr (emptyConfiguration\<lparr>Configuration_Addresses := [''10.0.0.2:6'']\<rparr>)"
  by code_simp

definition exampleRaft :: raft_lib where
  "exampleRaft = \<lparr>lib_NewNodeHost = (\<lambda>_. None), lib_StartOnDiskCluster = (\<lambda>_ _ _ _. None)\<rparr>"

lemma exampleMachine_IPs: "publicIPs (m_interfaces exampleMachine) = ([''10.0.0.2''], None)"
  by code_simp

lemma example_startup:
  "\<exists>st m'. startup exampleMachine (exampleNats\<lparr>lib_AppendCertsFromPEM := \<lambda>_. True\<rparr>) exampleRaft exampleArgs ([], []) = (Ok st, m')
    \<and> Configuration_Addresses (st_configuration st) = [''10.0.0.2:6'']"
proof -
  let ?L = "exampleNats\<lparr>lib_AppendCertsFromPEM := \<lambda>_. True\<rparr>"
  let ?conf = "emptyConfiguration\<lparr>Configuration_Addresses := [''10.0.0.2:6'']\<rparr>"
  have load: "loadConfiguration (m_files exampleMachine) (arg_config exampleArgs) = Inr ?conf"
    by (simp add: loadConfiguration_def exampleMachine_def exampleText_decode)
  obtain peers nid addr where id: "identifyNode exampleArgs ?conf [''10.0.0.2''] (m_LookupIP exampleMachine) = Some (peers, nid, addr)"
    by (simp add: identifyNode_def HasPrefix_def emptyConfiguration_def)
  obtain m' g where "connect ?L (([], []), natsOf ?conf) = (Ok (), (m', g))"
    by (simp add: connect_def exampleNats_def)
  then show ?thesis
    by (simp add: startup_def load exampleMachine_IPs id startRaft_def exampleRaft_def ret_apply)
qed

theorem startup_sound_witness:
  "\<exists>st m'. startup exampleMachine (exampleNats\<lparr>lib_AppendCertsFromPEM := \<lambda>_. True\<rparr>) exampleRaft exampleArgs ([], []) = (Ok st, m')
    \<and> st_nodeID st = 1 \<and> nhc_RaftAddress (st_nhc st) = ''10.0.0.2:6''"
proof -
  obtain st m' where st: "startup exampleMachine (exampleNats\<lparr>lib_AppendCertsFromPEM := \<lambda>_. True\<rparr>) exampleRaft exampleArgs ([], [])
      = (Ok st, m')" "Configuration_Addresses (st_configuration st) = [''10.0.0.2:6'']"
    using example_startup by blast
  from startup_sound [OF st(1)] st show ?thesis by (auto simp: le_less)
qed

text \<open>
  Nothing shares a directory. The raft library's directory of any node and the state machine's
  directory of any replica are different and neither is below the other; different nodes have
  different raft directories, and different replicas different state machine directories.
\<close>

theorem directories_separate:
  "dataDir nid \<noteq> getNodeDBDirName c n \<and> \<not> below (dataDir nid) (getNodeDBDirName c n)
   \<and> \<not> below (getNodeDBDirName c n) (dataDir nid)
   \<and> (dataDir nid = dataDir nid' \<longleftrightarrow> nid = nid')
   \<and> (getNodeDBDirName c n = getNodeDBDirName c' n' \<longleftrightarrow> c = c' \<and> n = n')"
proof -
  obtain d s where d: "dec (unat c) = d # s" "is_digit d"
    using dec_digits [of "unat c"] dec_not_Nil [of "unat c"] by (cases "dec (unat c)") auto
  then have "d \<noteq> CHR ''n''" by (auto simp: is_digit_def)
  moreover have "dec (unat c) @ ''_'' @ dec (unat n) = dec (unat c') @ ''_'' @ dec (unat n') \<longleftrightarrow> c = c' \<and> n = n'"
    unfolding dec_underscore_inject by (simp add: word_unat_eq_iff)
  ultimately show ?thesis
    using d by (auto simp: dataDir_path getNodeDBDirName_path testDBDirName_def below_def decInt_inject HasPrefix_def)
qed

text \<open>
  There is no start without a broker: when no connection can be made, no start succeeds,
  whatever the configuration says.
\<close>

theorem startup_needs_nats:
  assumes "\<And>hosts tls m. \<exists>e m'. lib_Connect L hosts tls m = (Inl e, m')"
  shows "fst (startup M L R args m) \<noteq> Ok st"
proof -
  have no: "fst (connect L (m, natsOf conf)) \<noteq> Ok ()" for conf
  proof -
    let ?s = "nats_Configuration (natsOf conf)"
    have "fst (lib_Connect L (Join (Service_Hosts ?s) '','') tls m) \<noteq> Inr nc" for tls nc
      using assms [of "Join (Service_Hosts ?s) '',''" tls m] by auto
    then show ?thesis
      by (auto simp: connect_def goexit_def gopanic_apply Let_def split: prod.splits sum.splits if_splits)
        (metis fst_conv)
  qed
  show ?thesis
  proof (cases "loadConfiguration (m_files M) (arg_config args)")
    case (Inr conf)
    obtain ips e where ips: "publicIPs (m_interfaces M) = (ips, e)" by (cases "publicIPs (m_interfaces M)")
    obtain r m1 g where r: "connect L (m, natsOf conf) = (r, (m1, g))"
      by (cases "connect L (m, natsOf conf)") auto
    then have "r \<noteq> Ok ()" using no [of conf] by simp
    then show ?thesis
      by (cases "identifyNode args conf ips (m_LookupIP M)"; cases r)
        (auto simp: startup_def Inr ips r goexit_def gopanic_apply)
  qed (simp add: startup_def goexit_def gopanic_apply)
qed

theorem startup_needs_nats_witness:
  "\<forall>st. fst (startup exampleMachine (exampleNats\<lparr>lib_Connect := \<lambda>_ _ m. (Inl EOF, m)\<rparr>) exampleRaft exampleArgs ([], [])) \<noteq> Ok st"
  by (intro allI startup_needs_nats) simp

end
