(* ===== verification/Db_MultiGet.thy ===== *)
theory Db_MultiGet
  imports Db_Calls Go_Json
begin

text \<open>
  Reading many keys at once: \<^verbatim>\<open>MultiGet\<close>, \<^verbatim>\<open>MultiGetCF\<close> and \<^verbatim>\<open>MultiGetCFMultiCF\<close> of
  \<^verbatim>\<open>gorocksdb/db.go\<close>. The keys are copied to the C heap, the library fills arrays of values and of
  error messages, and the operation either hands the values over as slices or collects the
  messages into one error. The theorem says exactly who owns which block afterwards.
\<close>

section \<open>Quoted strings\<close>

text \<open>
  The verb \<^verbatim>\<open>%q\<close> of package fmt on a string, \<^verbatim>\<open>strconv.Quote\<close>; \<open>isPrint\<close> is the table of
  \<^verbatim>\<open>unicode.IsPrint\<close>.
\<close>

definition runeVal :: "string \<Rightarrow> nat" where
  "runeVal w = (case map ord w of
       [a] \<Rightarrow> a
     | [a, b] \<Rightarrow> (a - 192) * 64 + (b - 128)
     | [a, b, c] \<Rightarrow> (a - 224) * 4096 + (b - 128) * 64 + (c - 128)
     | [a, b, c, d] \<Rightarrow> (a - 240) * 262144 + (b - 128) * 4096 + (c - 128) * 64 + (d - 128)
     | _ \<Rightarrow> 0)"

definition hexByte :: "nat \<Rightarrow> string" where
  "hexByte n = [CHR 92, CHR ''x'', hexDigit (n div 16 mod 16), hexDigit (n mod 16)]"

definition escapedRune :: "(nat \<Rightarrow> bool) \<Rightarrow> string \<Rightarrow> string" where
  "escapedRune isPrint w =
     (let r = runeVal w in
      if r = 34 \<or> r = 92 then CHR 92 # w
      else if isPrint r then w
      else if r = 7 then [CHR 92, CHR ''a''] else if r = 8 then [CHR 92, CHR ''b'']
      else if r = 12 then [CHR 92, CHR ''f''] else if r = 10 then [CHR 92, CHR ''n'']
      else if r = 13 then [CHR 92, CHR ''r''] else if r = 9 then [CHR 92, CHR ''t'']
      else if r = 11 then [CHR 92, CHR ''v'']
      else if r < 32 \<or> r = 127 then hexByte r
      else if r < 65536 then [CHR 92, CHR ''u''] @ map (\<lambda>i. hexDigit (r div 16 ^ i mod 16)) (rev [0..<4])
      else [CHR 92, CHR ''U''] @ map (\<lambda>i. hexDigit (r div 16 ^ i mod 16)) (rev [0..<8]))"

function quoteRunes :: "(nat \<Rightarrow> bool) \<Rightarrow> string \<Rightarrow> string" where
  "quoteRunes isPrint [] = []"
| "quoteRunes isPrint (a # s) =
     (if runeLen (a # s) = 0 then hexByte (ord a) @ quoteRunes isPrint s
      else escapedRune isPrint (take (runeLen (a # s)) (a # s)) @ quoteRunes isPrint (drop (runeLen (a # s) - 1) s))"
  by pat_completeness auto
termination
  by (relation "measure (length \<circ> snd)") auto

definition Quote :: "(nat \<Rightarrow> bool) \<Rightarrow> string \<Rightarrow> string" where
  "Quote isPrint s = [CHR 34] @ quoteRunes isPrint s @ [CHR 34]"

section \<open>The operations\<close>

text \<open>The library's answer for one key: it allocates a found value or an error message.\<close>

datatype getResult = Found bytes | Missing | Failed string

text \<open>What the library reads at a pointer with a length.\<close>

definition memBytes :: "nat \<Rightarrow> nat \<Rightarrow> ('d, bytes) cop" where
  "memBytes p n = (\<lambda>h. (Ok (charToByte (mem h p) n), h))"

fun readKeys :: "nat list \<Rightarrow> nat list \<Rightarrow> ('d, bytes list) cop" where
  "readKeys (p # ps) (n # ns) = andThen (memBytes p n) (\<lambda>b. andThen (readKeys ps ns) (\<lambda>bs. ret (b # bs)))"
| "readKeys _ _ = ret []"

text \<open>
  What it reads at the pointer to the handles, which goes along without a length: as many as there
  are keys. Reading past the end of the array is undefined in C, and a crash here.
\<close>

definition readHandles :: "nat list \<Rightarrow> nat \<Rightarrow> ('d, nat list) cop" where
  "readHandles hs n = (if n \<le> length hs then ret (take n hs) else (\<lambda>h. (Crash, h)))"

record filled =
  fl_val :: nat
  fl_size :: nat
  fl_err :: nat

definition fillOne :: "getResult \<Rightarrow> ('d, filled) cop" where
  "fillOne r = (case r of
       Found b \<Rightarrow> andThen (malloc b) (\<lambda>p. ret \<lparr>fl_val = p, fl_size = length b, fl_err = 0\<rparr>)
     | Missing \<Rightarrow> ret \<lparr>fl_val = 0, fl_size = 0, fl_err = 0\<rparr>
     | Failed s \<Rightarrow> andThen (CString s) (\<lambda>p. ret \<lparr>fl_val = 0, fl_size = 0, fl_err = p\<rparr>))"

fun fillAll :: "getResult list \<Rightarrow> ('d, filled list) cop" where
  "fillAll [] = ret []"
| "fillAll (r # rs) = andThen (fillOne r) (\<lambda>t. andThen (fillAll rs) (\<lambda>ts. ret (t # ts)))"

text \<open>The loop over the error messages, which also defers their release, and what follows it.\<close>

fun multiErrs :: "(nat \<Rightarrow> bool) \<Rightarrow> bytes list \<Rightarrow> nat list \<Rightarrow> ('d, string list) cop" where
  "multiErrs isPrint (k # ks) (e # es) =
     (if e \<noteq> 0
      then andThen (GoString e) (\<lambda>s. andThen (multiErrs isPrint ks es) (\<lambda>ms.
             ret ((''getting '' @ Quote isPrint k @ '' failed: '' @ s) # ms)))
      else multiErrs isPrint ks es)"
| "multiErrs isPrint _ _ = ret []"

definition multiResult :: "(nat \<Rightarrow> bool) \<Rightarrow> bytes list \<Rightarrow> filled list \<Rightarrow> ('d, CSlice list) cop" where
  "multiResult isPrint keys ts =
     withDefer
       (andThen (multiErrs isPrint keys (map fl_err ts)) (\<lambda>errs.
          if length errs > 0
          then err (ErrorString (''failed to get '' @ dec (length errs) @ '' keys, first error: '' @ hd errs))
          else ret (map (\<lambda>t. NewCSlice (fl_val t) (fl_size t)) ts)))
       (charsDestroy (rev (filter (\<lambda>e. e \<noteq> 0) (map fl_err ts))))"

definition MultiGet ::
  "(nat \<Rightarrow> 'n c_readoptions option \<Rightarrow> bytes list \<Rightarrow> 'd \<Rightarrow> (nat \<Rightarrow> getResult) \<times> 'd)
    \<Rightarrow> (nat \<Rightarrow> bool) \<Rightarrow> DB \<Rightarrow> 'n ReadOptions \<Rightarrow> bytes list \<Rightarrow> ('d, CSlice list) cop" where
  "MultiGet rocksdb_multi_get isPrint db opts keys =
     andThen (byteSlicesToCSlices keys) (\<lambda>(cKeys, cKeySizes).
       withDefer
         (andThen (readKeys cKeys cKeySizes) (\<lambda>ks.
          andThen (libCallC (rocksdb_multi_get (DB_c db) (ReadOptions_c opts) ks)) (\<lambda>res.
          andThen (fillAll (map res [0..<length keys])) (\<lambda>ts.
          multiResult isPrint keys ts))))
         (charsDestroy cKeys))"

definition MultiGetCFMultiCF ::
  "(nat \<Rightarrow> 'n c_readoptions option \<Rightarrow> nat list \<Rightarrow> bytes list \<Rightarrow> 'd \<Rightarrow> (nat \<Rightarrow> getResult) \<times> 'd)
    \<Rightarrow> (nat \<Rightarrow> bool) \<Rightarrow> DB \<Rightarrow> 'n ReadOptions \<Rightarrow> ColumnFamilyHandle list \<Rightarrow> bytes list \<Rightarrow> ('d, CSlice list) cop" where
  "MultiGetCFMultiCF rocksdb_multi_get_cf isPrint db opts cfs keys =
     andThen (byteSlicesToCSlices keys) (\<lambda>(cKeys, cKeySizes).
       withDefer
         (andThen (readHandles (toCSlice cfs) (length keys)) (\<lambda>hs.
          andThen (readKeys cKeys cKeySizes) (\<lambda>ks.
          andThen (libCallC (rocksdb_multi_get_cf (DB_c db) (ReadOptions_c opts) hs ks)) (\<lambda>res.
          andThen (fillAll (map res [0..<length keys])) (\<lambda>ts.
          multiResult isPrint keys ts)))))
         (charsDestroy cKeys))"

definition MultiGetCF ::
  "(nat \<Rightarrow> 'n c_readoptions option \<Rightarrow> nat list \<Rightarrow> bytes list \<Rightarrow> 'd \<Rightarrow> (nat \<Rightarrow> getResult) \<times> 'd)
    \<Rightarrow> (nat \<Rightarrow> bool) \<Rightarrow> DB \<Rightarrow> 'n ReadOptions \<Rightarrow> ColumnFamilyHandle \<Rightarrow> bytes list \<Rightarrow> ('d, CSlice list) cop" where
  "MultiGetCF rocksdb_multi_get_cf isPrint db opts cf keys =
     (let cfs = replicate (length keys) cf in MultiGetCFMultiCF rocksdb_multi_get_cf isPrint db opts cfs keys)"

section \<open>The specification\<close>

fun errTexts :: "(nat \<Rightarrow> bool) \<Rightarrow> bytes list \<Rightarrow> getResult list \<Rightarrow> string list" where
  "errTexts isPrint (k # ks) (r # rs) =
     (case r of Failed s \<Rightarrow> (''getting '' @ Quote isPrint k @ '' failed: '' @ cstr s) # errTexts isPrint ks rs
      | _ \<Rightarrow> errTexts isPrint ks rs)"
| "errTexts isPrint _ _ = []"

definition foundValues :: "getResult list \<Rightarrow> bytes list" where
  "foundValues rs = concat (map (\<lambda>r. case r of Found b \<Rightarrow> [b] | _ \<Rightarrow> []) rs)"

definition valueOf :: "getResult \<Rightarrow> bytes option" where
  "valueOf r = (case r of Found b \<Rightarrow> Some b | _ \<Rightarrow> None)"

definition csLoad :: "'d cworld \<Rightarrow> CSlice \<Rightarrow> bytes option" where
  "csLoad h s = (if cs_data s = 0 then None else Some (csData h s))"

definition answers :: "(nat \<Rightarrow> bool) \<Rightarrow> bytes list \<Rightarrow> getResult list \<Rightarrow> 'd cworld \<Rightarrow> CSlice list outcome \<Rightarrow> 'd cworld \<Rightarrow> bool" where
  "answers isPrint keys rs h r h' \<longleftrightarrow>
     (if errTexts isPrint keys rs = []
      then \<exists>ss. r = Ok ss \<and> map (csLoad h') ss = map valueOf rs \<and> distinct (owned ss) \<and> extends h h' (set (owned ss))
        \<and> (\<exists>h2. csDestroy ss h' = (Ok (map (cs_freed_update (\<lambda>_. True)) ss), h2) \<and> extends h h2 {} \<and> lib h2 = lib h')
      else (let es = errTexts isPrint keys rs in
        r = Err (ErrorString (''failed to get '' @ dec (length es) @ '' keys, first error: '' @ hd es))
        \<and> (\<exists>ps. distinct ps \<and> extends h h' (set ps) \<and> map (mem h') ps = map Some (foundValues rs))))"

section \<open>Proofs\<close>

lemma cfree_other: "cfree p h = (r, h') \<Longrightarrow> q \<noteq> p \<Longrightarrow> mem h' q = mem h q"
  by (auto simp: cfree_def split: if_splits option.splits)

lemma charsDestroy_other: "charsDestroy ps h = (Ok (), h') \<Longrightarrow> q \<notin> set ps \<Longrightarrow> mem h' q = mem h q"
proof (induction ps arbitrary: h)
  case (Cons p ps)
  obtain r h1 where f: "cfree p h = (r, h1)" by (cases "cfree p h")
  with Cons.prems have "r = Ok ()" "charsDestroy ps h1 = (Ok (), h')"
    by (cases r; auto simp: andThen_apply)+
  with Cons.IH [of h1] Cons.prems cfree_other [OF f, of q] show ?case by simp
qed (simp add: ret_apply)

definition fits :: "'d cworld \<Rightarrow> getResult \<Rightarrow> filled \<Rightarrow> bool" where
  "fits h r t \<longleftrightarrow> (case r of
       Found b \<Rightarrow> fl_val t \<noteq> 0 \<and> mem h (fl_val t) = Some b \<and> fl_size t = length b \<and> fl_err t = 0
     | Missing \<Rightarrow> fl_val t = 0 \<and> fl_size t = 0 \<and> fl_err t = 0
     | Failed s \<Rightarrow> fl_val t = 0 \<and> fl_size t = 0 \<and> fl_err t \<noteq> 0 \<and> mem h (fl_err t) = Some (s @ [NUL]))"

definition vals :: "filled list \<Rightarrow> nat list" where "vals ts = filter (\<lambda>p. p \<noteq> 0) (map fl_val ts)"
definition errs :: "filled list \<Rightarrow> nat list" where "errs ts = filter (\<lambda>p. p \<noteq> 0) (map fl_err ts)"

lemma fillOne_run:
  assumes "wfHeap h"
  shows "\<exists>t h1. fillOne r h = (Ok t, h1) \<and> extends h h1 (set (vals [t]) \<union> set (errs [t])) \<and> distinct (vals [t] @ errs [t])
      \<and> fits h1 r t \<and> lib h1 = lib h"
proof (cases r)
  case (Found b)
  then show ?thesis using malloc_run [OF assms, of b]
    by (intro exI [of _ "\<lparr>fl_val = brk h, fl_size = length b, fl_err = 0\<rparr>"])
      (auto simp: fillOne_def andThen_apply ret_apply vals_def errs_def fits_def)
next
  case Missing
  then show ?thesis using assms by (auto simp: fillOne_def ret_apply vals_def errs_def fits_def extends_refl)
next
  case (Failed s)
  then show ?thesis using malloc_run [OF assms, of "s @ [NUL]"]
    by (intro exI [of _ "\<lparr>fl_val = 0, fl_size = 0, fl_err = brk h\<rparr>"])
      (auto simp: fillOne_def CString_def andThen_apply ret_apply vals_def errs_def fits_def)
qed

lemma fillAll_run:
  assumes "wfHeap h"
  shows "\<exists>ts h'. fillAll rs h = (Ok ts, h') \<and> extends h h' (set (vals ts) \<union> set (errs ts)) \<and> distinct (vals ts @ errs ts)
    \<and> list_all2 (fits h') rs ts \<and> lib h' = lib h"
  using assms
proof (induction rs arbitrary: h)
  case Nil
  then show ?case by (auto simp: ret_apply vals_def errs_def extends_refl)
next
  case (Cons r rs)
  obtain t h1 where h1: "fillOne r h = (Ok t, h1)" "extends h h1 (set (vals [t]) \<union> set (errs [t]))"
    "distinct (vals [t] @ errs [t])" "fits h1 r t" "lib h1 = lib h" using fillOne_run [OF Cons.prems] by blast
  obtain ts h2 where h2: "fillAll rs h1 = (Ok ts, h2)" "extends h1 h2 (set (vals ts) \<union> set (errs ts))"
    "distinct (vals ts @ errs ts)" "list_all2 (fits h2) rs ts" "lib h2 = lib h1"
    using Cons.IH [OF extends_wf [OF h1(2)]] by blast
  have old: "p < brk h1" if "p \<in> set (vals [t]) \<union> set (errs [t])" for p
  proof (rule ccontr)
    assume "\<not> p < brk h1"
    moreover have "mem h1 p \<noteq> None" using h1(2) that by (auto simp: extends_def)
    ultimately show False using extends_wf [OF h1(2)] by (simp add: wfHeap_def)
  qed
  have new: "brk h1 \<le> p" if "p \<in> set (vals ts) \<union> set (errs ts)" for p
    using h2(2) that by (auto simp: extends_def)
  have keep: "mem h2 p = mem h1 p" if "p \<in> set (vals [t]) \<union> set (errs [t])" for p
    using h2(2) old [OF that] by (auto simp: extends_def)
  have split: "vals (t # ts) = vals [t] @ vals ts" "errs (t # ts) = errs [t] @ errs ts"
    by (simp_all add: vals_def errs_def)
  have "fits h2 r t" using h1(4) keep by (cases r) (auto simp: fits_def vals_def errs_def)
  moreover have "extends h h2 (set (vals (t # ts)) \<union> set (errs (t # ts)))"
    using extends_trans [OF h1(2) h2(2)] unfolding split by (simp add: Un_ac)
  moreover have "distinct (vals (t # ts) @ errs (t # ts))"
    unfolding split using h1(3) h2(3) old new by (fastforce simp: not_less [symmetric])
  ultimately show ?case using h1 h2 by (auto simp: andThen_apply ret_apply)
qed

lemma multiErrs_run:
  "list_all2 (fits h) rs ts \<Longrightarrow> length keys = length rs \<Longrightarrow>
   multiErrs isPrint keys (map fl_err ts) h = (Ok (errTexts isPrint keys rs), h)"
proof (induction rs ts arbitrary: keys rule: list_all2_induct)
  case Nil
  then show ?case by (simp add: ret_apply)
next
  case (Cons r rs t ts)
  from Cons.prems obtain k ks where "keys = k # ks" by (cases keys) auto
  with Cons show ?case
    by (cases r) (auto simp: fits_def andThen_apply ret_apply GoString_def)
qed

definition multiOutcome :: "(nat \<Rightarrow> bool) \<Rightarrow> bytes list \<Rightarrow> getResult list \<Rightarrow> filled list \<Rightarrow> CSlice list outcome" where
  "multiOutcome isPrint keys rs ts = (let es = errTexts isPrint keys rs in
     if es = [] then Ok (map (\<lambda>t. NewCSlice (fl_val t) (fl_size t)) ts)
     else Err (ErrorString (''failed to get '' @ dec (length es) @ '' keys, first error: '' @ hd es)))"

lemma multiOutcome_sane: "sane (multiOutcome isPrint keys rs ts)"
  by (simp add: multiOutcome_def Let_def)

lemma multiResult_run:
  assumes wf: "wfHeap h" and ext: "extends h h1 (set (vals ts) \<union> set (errs ts))" and dist: "distinct (vals ts @ errs ts)"
    and fit: "list_all2 (fits h1) rs ts" and len: "length keys = length rs"
  shows "\<exists>h2. multiResult isPrint keys ts h1 = (multiOutcome isPrint keys rs ts, h2) \<and> extends h h2 (set (vals ts))
    \<and> lib h2 = lib h1 \<and> (\<forall>p \<in> set (vals ts). mem h2 p = mem h1 p)"
proof -
  have fl: "filter (\<lambda>e. e \<noteq> 0) (map fl_err ts) = errs ts" by (simp add: errs_def)
  obtain h2 where h2: "charsDestroy (rev (errs ts)) h1 = (Ok (), h2)" "extends h h2 (set (vals ts))" "lib h2 = lib h1"
    using charsDestroy_run [OF wf, of h1 "rev (errs ts)" "set (vals ts)"] ext dist by (auto simp: Un_commute)
  have keep: "mem h2 p = mem h1 p" if "p \<in> set (vals ts)" for p
    using charsDestroy_other [OF h2(1), of p] that dist by auto
  let ?body = "andThen (multiErrs isPrint keys (map fl_err ts)) (\<lambda>errs.
      if length errs > 0
      then err (ErrorString (''failed to get '' @ dec (length errs) @ '' keys, first error: '' @ hd errs))
      else ret (map (\<lambda>t. NewCSlice (fl_val t) (fl_size t)) ts))"
  have "?body h1 = (multiOutcome isPrint keys rs ts, h1)"
    by (auto simp: andThen_apply multiErrs_run [OF fit len] err_apply ret_apply multiOutcome_def Let_def)
  from withDefer_run [where m = ?body and d = "charsDestroy (rev (errs ts))", OF this multiOutcome_sane h2(1)]
  have "multiResult isPrint keys ts h1 = (multiOutcome isPrint keys rs ts, h2)"
    unfolding multiResult_def fl .
  with h2 keep show ?thesis by blast
qed

lemma readKeys_run:
  "length ps = length bs \<Longrightarrow> \<forall>i < length bs. mem h (ps ! i) = Some (bs ! i) \<Longrightarrow>
   readKeys ps (map length bs) h = (Ok bs, h)"
proof (induction ps arbitrary: bs)
  case (Cons p ps)
  then obtain b bs' where bs: "bs = b # bs'" by (cases bs) auto
  have "mem h p = Some b" using Cons.prems(2) bs by auto
  moreover have "readKeys ps (map length bs') h = (Ok bs', h)"
    using Cons.prems bs by (intro Cons.IH) auto
  ultimately show ?case by (simp add: bs memBytes_def charToByte_def andThen_apply ret_apply)
qed (simp add: ret_apply)

lemma owned_results: "owned (map (\<lambda>t. NewCSlice (fl_val t) (fl_size t)) ts) = vals ts"
  by (induction ts) (simp_all add: vals_def NewCSlice_def)

lemma results_load:
  assumes "list_all2 (fits h1) rs ts" and "\<forall>p \<in> set (vals ts). mem h p = mem h1 p"
  shows "map (csLoad h) (map (\<lambda>t. NewCSlice (fl_val t) (fl_size t)) ts) = map valueOf rs
    \<and> map (mem h) (vals ts) = map Some (foundValues rs)"
  using assms
proof (induction rs ts rule: list_all2_induct)
  case Nil
  then show ?case by (simp add: vals_def foundValues_def)
next
  case (Cons r rs t ts)
  from Cons.prems Cons.hyps Cons.IH show ?case
    by (cases r) (auto simp: fits_def vals_def foundValues_def valueOf_def csLoad_def csData_def NewCSlice_def charToByte_def)
qed

lemma byteSlicesToCSlices_run:
  assumes "wfHeap h"
  shows "\<exists>ps h'. byteSlicesToCSlices bs h = (Ok (ps, map length bs), h') \<and> extends h h' (set ps) \<and> distinct ps
    \<and> length ps = length bs \<and> (\<forall>i < length bs. mem h' (ps ! i) = Some (bs ! i)) \<and> lib h' = lib h"
proof (cases "bs = []")
  case True
  then show ?thesis using assms
    by (intro exI [of _ "[]"] exI [of _ h]) (simp add: byteSlicesToCSlices_def ret_apply extends_refl)
next
  case False
  then show ?thesis using mallocAll_run [OF assms, of bs]
    by (auto simp: byteSlicesToCSlices_def andThen_apply ret_apply)
qed

lemma andThen_ret: "andThen (ret x) f = f x"
  by (rule ext) (simp add: andThen_apply ret_apply)

text \<open>Both operations are this one, for their respective library calls.\<close>

definition multiGetWith :: "(nat \<Rightarrow> bool) \<Rightarrow> (bytes list \<Rightarrow> 'd \<Rightarrow> (nat \<Rightarrow> getResult) \<times> 'd) \<Rightarrow> bytes list \<Rightarrow> ('d, CSlice list) cop" where
  "multiGetWith isPrint call keys =
     andThen (byteSlicesToCSlices keys) (\<lambda>(cKeys, cKeySizes).
       withDefer
         (andThen (readKeys cKeys cKeySizes) (\<lambda>ks.
          andThen (libCallC (call ks)) (\<lambda>res.
          andThen (fillAll (map res [0..<length keys])) (\<lambda>ts.
          multiResult isPrint keys ts))))
         (charsDestroy cKeys))"



lemma extends_fresh:
  assumes "extends h h1 ps" and "extends h1 h2 qs"
  shows "ps \<inter> qs = {}"
proof (rule ccontr)
  assume "ps \<inter> qs \<noteq> {}"
  then obtain p where p: "p \<in> ps" "p \<in> qs" by blast
  then have "brk h1 \<le> p" "mem h1 p \<noteq> None" using assms by (auto simp: extends_def)
  then show False using extends_wf [OF assms(1)] by (simp add: wfHeap_def)
qed

lemma multiGetWith_run:
  fixes h :: "'d cworld"
  assumes wf: "wfHeap h" and call: "call keys (lib h) = (res, d)"
  shows "\<exists>ts (h1 :: 'd cworld) h'. multiGetWith isPrint call keys h = (multiOutcome isPrint keys (map res [0..<length keys]) ts, h')
    \<and> list_all2 (fits h1) (map res [0..<length keys]) ts \<and> (\<forall>p \<in> set (vals ts). mem h' p = mem h1 p)
    \<and> distinct (vals ts) \<and> extends h h' (set (vals ts)) \<and> lib h' = d"
proof -
  let ?rs = "map res [0..<length keys]"
  obtain ps h1 where h1: "byteSlicesToCSlices keys h = (Ok (ps, map length keys), h1)" "extends h h1 (set ps)" "distinct ps"
    "length ps = length keys" "\<forall>i < length keys. mem h1 (ps ! i) = Some (keys ! i)" "lib h1 = lib h"
    using byteSlicesToCSlices_run [OF wf] by blast
  let ?h1 = "h1\<lparr>lib := d\<rparr>"
  have wf1: "wfHeap ?h1" using extends_wf [OF h1(2)] by simp
  obtain ts h2 where h2: "fillAll ?rs ?h1 = (Ok ts, h2)" "extends ?h1 h2 (set (vals ts) \<union> set (errs ts))"
    "distinct (vals ts @ errs ts)" "list_all2 (fits h2) ?rs ts" "lib h2 = lib ?h1"
    using fillAll_run [OF wf1, of ?rs] by blast
  obtain h3 where h3: "multiResult isPrint keys ts h2 = (multiOutcome isPrint keys ?rs ts, h3)" "extends h1 h3 (set (vals ts))"
    "lib h3 = lib h2" "\<forall>p \<in> set (vals ts). mem h3 p = mem h2 p"
    using multiResult_run [OF wf1 h2(2,3,4), of keys isPrint] by auto
  note disj = extends_fresh [OF h1(2) h3(2)]
  obtain h4 where h4: "charsDestroy ps h3 = (Ok (), h4)" "extends h h4 (set (vals ts))" "lib h4 = lib h3"
    using charsDestroy_run [OF wf extends_trans [OF h1(2) h3(2)] h1(3) disj] by blast
  have keep: "\<forall>p \<in> set (vals ts). mem h4 p = mem h2 p"
    using h3(4) charsDestroy_other [OF h4(1)] disj by (metis disjoint_iff)
  let ?body = "andThen (readKeys ps (map length keys)) (\<lambda>ks. andThen (libCallC (call ks)) (\<lambda>res.
      andThen (fillAll (map res [0..<length keys])) (\<lambda>ts. multiResult isPrint keys ts)))"
  have "?body h1 = (multiOutcome isPrint keys ?rs ts, h3)"
    using readKeys_run [OF h1(4,5)] h1(6) call h2(1) h3(1) by (simp add: andThen_apply libCallC_def)
  from withDefer_run [where m = ?body and d = "charsDestroy ps", OF this multiOutcome_sane h4(1)]
  have "multiGetWith isPrint call keys h = (multiOutcome isPrint keys ?rs ts, h4)"
    using h1(1) by (simp add: multiGetWith_def andThen_apply)
  with h2 h3 h4 keep show ?thesis
    by - (rule exI [of _ ts], rule exI [of _ h2], rule exI [of _ h4], auto)
qed

lemma multiGetWith_answers:
  fixes h :: "'d cworld"
  assumes wf: "wfHeap h" and call: "call keys (lib h) = (res, d)"
  shows "\<exists>r h'. multiGetWith isPrint call keys h = (r, h') \<and> lib h' = d
    \<and> answers isPrint keys (map res [0..<length keys]) h r h'"
proof -
  let ?rs = "map res [0..<length keys]"
  obtain ts h' and h1 :: "'d cworld" where run: "multiGetWith isPrint call keys h = (multiOutcome isPrint keys ?rs ts, h')"
    and fit: "list_all2 (fits h1) ?rs ts" and keep: "\<forall>p \<in> set (vals ts). mem h' p = mem h1 p"
    and ext: "distinct (vals ts)" "extends h h' (set (vals ts))" "lib h' = d"
    using multiGetWith_run [where isPrint = isPrint and call = call and keys = keys, OF wf call] by blast
  let ?ss = "map (\<lambda>t. NewCSlice (fl_val t) (fl_size t)) ts"
  note load = results_load [OF fit keep]
  have destroy: "\<exists>h2. csDestroy ?ss h' = (Ok (map (cs_freed_update (\<lambda>_. True)) ?ss), h2) \<and> extends h h2 {} \<and> lib h2 = lib h'"
    by (rule csDestroy_run [OF wf]) (use ext owned_results [of ts] in auto)
  have "answers isPrint keys ?rs h (multiOutcome isPrint keys ?rs ts) h'"
  proof (cases "errTexts isPrint keys ?rs = []")
    case True
    then show ?thesis using load ext destroy unfolding answers_def multiOutcome_def Let_def if_P [OF True]
      by (intro exI [of _ ?ss] conjI) (simp_all only: owned_results)
  next
    case False
    then show ?thesis using load ext unfolding answers_def multiOutcome_def Let_def if_not_P [OF False]
      by (intro conjI exI [of _ "vals ts"]) simp_all
  qed
  with run ext(3) show ?thesis by blast
qed

text \<open>
  C21. \<^verbatim>\<open>MultiGet\<close>, \<^verbatim>\<open>MultiGetCF\<close> and, with a handle for each key, \<^verbatim>\<open>MultiGetCFMultiCF\<close> answer with the library's results for the keys:
  when no key failed, one slice for each key in order with the value, nil for a missing key, and
  these slices own all the memory that is left, which \<^verbatim>\<open>Destroy\<close> gives back; when some key failed, an
  error with the number of failures and the first message. In that case the values of the other
  keys stay on the C heap with nobody to free them. \<^verbatim>\<open>MultiGetCFMultiCF\<close> does not compare the two lists:
  handles past the last key are not looked at, and with fewer handles than keys the library reads
  past the end of their array.
\<close>

theorem multiGet_exact:
  assumes "wfHeap h"
  shows "(\<exists>r h'. MultiGet multi_get isPrint db opts keys h = (r, h')
      \<and> lib h' = snd (multi_get (DB_c db) (ReadOptions_c opts) keys (lib h))
      \<and> answers isPrint keys (map (fst (multi_get (DB_c db) (ReadOptions_c opts) keys (lib h))) [0..<length keys]) h r h')
    \<and> (length keys \<le> length cfs \<longrightarrow> (\<exists>r h'. MultiGetCFMultiCF multi_get_cf isPrint db opts cfs keys h = (r, h')
      \<and> lib h' = snd (multi_get_cf (DB_c db) (ReadOptions_c opts) (map cf_c (take (length keys) cfs)) keys (lib h))
      \<and> answers isPrint keys (map (fst (multi_get_cf (DB_c db) (ReadOptions_c opts) (map cf_c (take (length keys) cfs)) keys (lib h)))
          [0..<length keys]) h r h'))
    \<and> (length cfs < length keys \<longrightarrow> fst (MultiGetCFMultiCF multi_get_cf isPrint db opts cfs keys h) = Crash)
    \<and> (\<exists>r h'. MultiGetCF multi_get_cf isPrint db opts cf keys h = (r, h')
      \<and> lib h' = snd (multi_get_cf (DB_c db) (ReadOptions_c opts) (replicate (length keys) (cf_c cf)) keys (lib h))
      \<and> answers isPrint keys (map (fst (multi_get_cf (DB_c db) (ReadOptions_c opts) (replicate (length keys) (cf_c cf)) keys (lib h)))
          [0..<length keys]) h r h')"
proof -
  have eqs: "MultiGet multi_get isPrint db opts keys = multiGetWith isPrint (multi_get (DB_c db) (ReadOptions_c opts)) keys"
    by (simp add: MultiGet_def multiGetWith_def)
  have enough: "MultiGetCFMultiCF multi_get_cf isPrint db opts cfs' keys
      = multiGetWith isPrint (multi_get_cf (DB_c db) (ReadOptions_c opts) (map cf_c (take (length keys) cfs'))) keys"
    if "length keys \<le> length cfs'" for cfs'
    using that by (simp add: MultiGetCFMultiCF_def multiGetWith_def toCSlice_def readHandles_def take_map andThen_ret)
  obtain ps h1 where "byteSlicesToCSlices keys h = (Ok (ps, map length keys), h1)" using byteSlicesToCSlices_run [OF assms] by blast
  then have short: "fst (MultiGetCFMultiCF multi_get_cf isPrint db opts cfs keys h) = Crash" if "length cfs < length keys"
    using that by (simp add: MultiGetCFMultiCF_def toCSlice_def readHandles_def andThen_apply withDefer_def)
  have same: "MultiGetCF multi_get_cf isPrint db opts cf keys
      = multiGetWith isPrint (multi_get_cf (DB_c db) (ReadOptions_c opts) (replicate (length keys) (cf_c cf))) keys"
    by (simp add: MultiGetCF_def enough map_replicate)
  note run = multiGetWith_answers [OF assms prod.collapse [symmetric]]
  show ?thesis
    unfolding eqs same by (intro conjI impI run short; (subst enough)?; (rule run)?; assumption?)
qed

text \<open>A library with one key: \<^verbatim>\<open>b\<close> is missing and reading \<^verbatim>\<open>c\<close> fails.\<close>

definition exampleGet :: "nat \<Rightarrow> nat c_readoptions option \<Rightarrow> bytes list \<Rightarrow> unit \<Rightarrow> (nat \<Rightarrow> getResult) \<times> unit" where
  "exampleGet db ro ks d = (\<lambda>i. if ks ! i = ''a'' then Found ''1'' else if ks ! i = ''c'' then Failed ''IO error'' else Missing, d)"

definition exampleHeap :: "unit cworld" where
  "exampleHeap = \<lparr>mem = (\<lambda>_. None), brk = 1, lib = ()\<rparr>"

theorem multiGet_exact_witness:
  "let P = \<lambda>r. 32 \<le> r \<and> r < 127; db = \<lparr>DB_c = 0, DB_name = ''db'', DB_opts = NewDefaultOptions\<rparr>; cf = \<lparr>cf_c = 1\<rparr>;
     rs = [Found ''1'', Missing, Failed ''IO error'']; ks = [''a'', ''b'', ''c'']
   in (\<exists>r h'. MultiGet exampleGet P db NewDefaultReadOptions ks exampleHeap = (r, h') \<and> answers P ks rs exampleHeap r h')
    \<and> (\<exists>r h'. MultiGetCFMultiCF (\<lambda>d ro hs. exampleGet d ro) P db NewDefaultReadOptions [cf, cf, cf] ks exampleHeap = (r, h')
         \<and> answers P ks rs exampleHeap r h')
    \<and> fst (MultiGetCFMultiCF (\<lambda>d ro hs. exampleGet d ro) P db NewDefaultReadOptions [cf, cf] ks exampleHeap) = Crash"
proof -
  have wf: "wfHeap exampleHeap" by (simp add: wfHeap_def exampleHeap_def)
  let ?ks = "[''a'', ''b'', ''c'']" and ?cf = "\<lparr>cf_c = 1\<rparr>" and ?P = "\<lambda>r. 32 \<le> r \<and> r < (127 :: nat)"
  let ?db = "\<lparr>DB_c = 0, DB_name = ''db'', DB_opts = NewDefaultOptions\<rparr>"
  have rs: "map (fst (exampleGet d ro ?ks u)) [0..<length ?ks] = [Found ''1'', Missing, Failed ''IO error'']" for d ro u
    by (simp add: exampleGet_def upt_rec)
  have len: "length ?ks \<le> length [?cf, ?cf, ?cf]" "length [?cf, ?cf] < length ?ks" by simp_all
  note ex = multiGet_exact [OF wf, where multi_get = exampleGet and isPrint = ?P and db = ?db and opts = NewDefaultReadOptions
      and keys = ?ks and multi_get_cf = "\<lambda>d ro hs. exampleGet d ro" and cf = ?cf, unfolded rs]
  show ?thesis
    unfolding Let_def using ex [where cfs = "[?cf, ?cf, ?cf]"] ex [where cfs = "[?cf, ?cf]"] len by blast
qed

end
