(* ===== verification/Db_Handles.thy ===== *)
theory Db_Handles
  imports Db_Calls
begin

text \<open>
  The other handles of the binding: checkpoints (\<^verbatim>\<open>checkpoint.go\<close>), backups (\<^verbatim>\<open>backup.go\<close>), the
  writer of SST files (\<^verbatim>\<open>sst_file_writer.go\<close>), transactional databases and transactions
  (\<^verbatim>\<open>transactiondb.go\<close>, \<^verbatim>\<open>transaction.go\<close> and their options). A handle is the library's pointer; the
  methods that release it set it to nil where the code does.
\<close>

section \<open>Checkpoints\<close>

definition CreateCheckpoint ::
  "(nat option \<Rightarrow> string \<Rightarrow> uint64 \<Rightarrow> ('d, unit) ccall) \<Rightarrow> Checkpoint \<Rightarrow> string \<Rightarrow> uint64 \<Rightarrow> ('d, unit) cop" where
  "CreateCheckpoint rocksdb_checkpoint_create checkpoint checkpoint_dir log_size_for_flush =
     withCString checkpoint_dir (\<lambda>cDir. readC cDir (\<lambda>dir.
       callErr (rocksdb_checkpoint_create (Checkpoint_c checkpoint) dir log_size_for_flush)
         (\<lambda>cErr _. checkErr cErr (ret ()))))"

definition CheckpointDestroy :: "(nat option \<Rightarrow> 'd \<Rightarrow> unit \<times> 'd) \<Rightarrow> Checkpoint \<Rightarrow> ('d, Checkpoint) cop" where
  "CheckpointDestroy rocksdb_checkpoint_object_destroy checkpoint =
     andThen (libCallC (rocksdb_checkpoint_object_destroy (Checkpoint_c checkpoint))) (\<lambda>_.
       ret (checkpoint\<lparr>Checkpoint_c := None\<rparr>))"

section \<open>Backups\<close>

record BackupEngineInfo =
  BackupEngineInfo_c :: "nat option"

record c_restoreoptions =
  keep_log_files :: int

record RestoreOptions =
  RestoreOptions_c :: "c_restoreoptions option"

record BackupEngine =
  BackupEngine_c :: "nat option"
  BackupEngine_path :: string
  BackupEngine_opts :: Options

text \<open>Go's conversions: \<^verbatim>\<open>C.int\<close> keeps the low 32 bits of an \<^verbatim>\<open>int\<close>.\<close>

definition toInt32 :: "int \<Rightarrow> int" where
  "toInt32 i = sint (word_of_int i :: 32 word)"

definition GetCount :: "(nat option \<Rightarrow> 'd \<Rightarrow> int \<times> 'd) \<Rightarrow> BackupEngineInfo \<Rightarrow> ('d, int) cop" where
  "GetCount rocksdb_backup_engine_info_count b = libCallC (rocksdb_backup_engine_info_count (BackupEngineInfo_c b))"

definition GetTimestamp :: "(nat option \<Rightarrow> int \<Rightarrow> 'd \<Rightarrow> int \<times> 'd) \<Rightarrow> BackupEngineInfo \<Rightarrow> int \<Rightarrow> ('d, int) cop" where
  "GetTimestamp rocksdb_backup_engine_info_timestamp b index =
     libCallC (rocksdb_backup_engine_info_timestamp (BackupEngineInfo_c b) (toInt32 index))"

text \<open>The library numbers backups with 32 bits without sign, and sizes with 64.\<close>

definition GetBackupId :: "(nat option \<Rightarrow> int \<Rightarrow> 'd \<Rightarrow> 32 word \<times> 'd) \<Rightarrow> BackupEngineInfo \<Rightarrow> int \<Rightarrow> ('d, int) cop" where
  "GetBackupId rocksdb_backup_engine_info_backup_id b index =
     andThen (libCallC (rocksdb_backup_engine_info_backup_id (BackupEngineInfo_c b) (toInt32 index))) (\<lambda>i. ret (uint i))"

definition GetSize :: "(nat option \<Rightarrow> int \<Rightarrow> 'd \<Rightarrow> uint64 \<times> 'd) \<Rightarrow> BackupEngineInfo \<Rightarrow> int \<Rightarrow> ('d, int) cop" where
  "GetSize rocksdb_backup_engine_info_size b index =
     andThen (libCallC (rocksdb_backup_engine_info_size (BackupEngineInfo_c b) (toInt32 index))) (\<lambda>n. ret (sint n))"

definition GetNumFiles :: "(nat option \<Rightarrow> int \<Rightarrow> 'd \<Rightarrow> 32 word \<times> 'd) \<Rightarrow> BackupEngineInfo \<Rightarrow> int \<Rightarrow> ('d, int) cop" where
  "GetNumFiles rocksdb_backup_engine_info_number_files b index =
     andThen (libCallC (rocksdb_backup_engine_info_number_files (BackupEngineInfo_c b) (toInt32 index))) (\<lambda>n. ret (sint n))"

definition BackupEngineInfoDestroy :: "(nat option \<Rightarrow> 'd \<Rightarrow> unit \<times> 'd) \<Rightarrow> BackupEngineInfo \<Rightarrow> ('d, BackupEngineInfo) cop" where
  "BackupEngineInfoDestroy rocksdb_backup_engine_info_destroy b =
     andThen (libCallC (rocksdb_backup_engine_info_destroy (BackupEngineInfo_c b))) (\<lambda>_. ret (b\<lparr>BackupEngineInfo_c := None\<rparr>))"

definition NewRestoreOptions :: "c_restoreoptions \<Rightarrow> RestoreOptions" where
  "NewRestoreOptions rocksdb_restore_options_create = \<lparr>RestoreOptions_c = Some rocksdb_restore_options_create\<rparr>"

definition SetKeepLogFiles :: "RestoreOptions \<Rightarrow> int \<Rightarrow> RestoreOptions" where
  "SetKeepLogFiles ro v =
     ro\<lparr>RestoreOptions_c := map_option (\<lambda>c. c\<lparr>keep_log_files := toInt32 v\<rparr>) (RestoreOptions_c ro)\<rparr>"

definition RestoreOptionsDestroy :: "(c_restoreoptions option \<Rightarrow> 'd \<Rightarrow> unit \<times> 'd) \<Rightarrow> RestoreOptions \<Rightarrow> ('d, unit) cop" where
  "RestoreOptionsDestroy rocksdb_restore_options_destroy ro = libCallC (rocksdb_restore_options_destroy (RestoreOptions_c ro))"

definition OpenBackupEngine ::
  "(c_options option \<Rightarrow> string \<Rightarrow> ('d, nat) ccall) \<Rightarrow> Options \<Rightarrow> string \<Rightarrow> ('d, BackupEngine) cop" where
  "OpenBackupEngine rocksdb_backup_engine_open opts path =
     withCString path (\<lambda>cpath. readC cpath (\<lambda>p.
       callErr (rocksdb_backup_engine_open (Options_c opts) p) (\<lambda>cErr be.
         checkErr cErr (ret \<lparr>BackupEngine_c = Some be, BackupEngine_path = path, BackupEngine_opts = opts\<rparr>))))"

definition CreateNewBackup :: "(nat option \<Rightarrow> nat \<Rightarrow> ('d, unit) ccall) \<Rightarrow> BackupEngine \<Rightarrow> DB \<Rightarrow> ('d, unit) cop" where
  "CreateNewBackup rocksdb_backup_engine_create_new_backup b db =
     callErr (rocksdb_backup_engine_create_new_backup (BackupEngine_c b) (DB_c db)) (\<lambda>cErr _. checkErr cErr (ret ()))"

definition GetInfo :: "(nat option \<Rightarrow> 'd \<Rightarrow> nat \<times> 'd) \<Rightarrow> BackupEngine \<Rightarrow> ('d, BackupEngineInfo) cop" where
  "GetInfo rocksdb_backup_engine_get_backup_info b =
     andThen (libCallC (rocksdb_backup_engine_get_backup_info (BackupEngine_c b))) (\<lambda>c. ret \<lparr>BackupEngineInfo_c = Some c\<rparr>)"

definition RestoreDBFromLatestBackup ::
  "(nat option \<Rightarrow> string list \<Rightarrow> c_restoreoptions option \<Rightarrow> ('d, unit) ccall)
    \<Rightarrow> BackupEngine \<Rightarrow> string \<Rightarrow> string \<Rightarrow> RestoreOptions \<Rightarrow> ('d, unit) cop" where
  "RestoreDBFromLatestBackup rocksdb_backup_engine_restore_db_from_latest_backup b dbDir walDir ro =
     withCStrings [dbDir, walDir] (\<lambda>ps. readCs ps (\<lambda>dirs.
       callErr (rocksdb_backup_engine_restore_db_from_latest_backup (BackupEngine_c b) dirs (RestoreOptions_c ro))
         (\<lambda>cErr _. checkErr cErr (ret ()))))"

definition BackupEngineClose :: "(nat option \<Rightarrow> 'd \<Rightarrow> unit \<times> 'd) \<Rightarrow> BackupEngine \<Rightarrow> ('d, BackupEngine) cop" where
  "BackupEngineClose rocksdb_backup_engine_close b =
     andThen (libCallC (rocksdb_backup_engine_close (BackupEngine_c b))) (\<lambda>_. ret (b\<lparr>BackupEngine_c := None\<rparr>))"

section \<open>SST files\<close>

record SSTFileWriter =
  SSTFileWriter_c :: nat

text \<open>The environment options are the library's object alone (options_env.go).\<close>

record EnvOptions =
  EnvOptions_c :: "nat option"

definition NewNativeEnvOptions :: "nat \<Rightarrow> EnvOptions" where
  "NewNativeEnvOptions c = \<lparr>EnvOptions_c = Some c\<rparr>"

definition NewDefaultEnvOptions :: "('d \<Rightarrow> nat \<times> 'd) \<Rightarrow> ('d, EnvOptions) cop" where
  "NewDefaultEnvOptions rocksdb_envoptions_create =
     andThen (libCallC rocksdb_envoptions_create) (\<lambda>c. ret (NewNativeEnvOptions c))"

definition EnvOptionsDestroy :: "(nat option \<Rightarrow> 'd \<Rightarrow> unit \<times> 'd) \<Rightarrow> EnvOptions \<Rightarrow> ('d, EnvOptions) cop" where
  "EnvOptionsDestroy rocksdb_envoptions_destroy opts =
     andThen (libCallC (rocksdb_envoptions_destroy (EnvOptions_c opts))) (\<lambda>_. ret (opts\<lparr>EnvOptions_c := None\<rparr>))"

definition NewSSTFileWriter ::
  "(nat option \<Rightarrow> c_options option \<Rightarrow> 'd \<Rightarrow> nat \<times> 'd) \<Rightarrow> EnvOptions \<Rightarrow> Options \<Rightarrow> ('d, SSTFileWriter) cop" where
  "NewSSTFileWriter rocksdb_sstfilewriter_create opts dbOpts =
     andThen (libCallC (rocksdb_sstfilewriter_create (EnvOptions_c opts) (Options_c dbOpts))) (\<lambda>c. ret \<lparr>SSTFileWriter_c = c\<rparr>)"

definition SSTOpen :: "(nat \<Rightarrow> string \<Rightarrow> ('d, unit) ccall) \<Rightarrow> SSTFileWriter \<Rightarrow> string \<Rightarrow> ('d, unit) cop" where
  "SSTOpen rocksdb_sstfilewriter_open w path =
     withCString path (\<lambda>cPath. readC cPath (\<lambda>p.
       callErr (rocksdb_sstfilewriter_open (SSTFileWriter_c w) p) (\<lambda>cErr _. checkErr cErr (ret ()))))"

definition SSTAdd :: "(nat \<Rightarrow> bytes \<Rightarrow> bytes \<Rightarrow> ('d, unit) ccall) \<Rightarrow> SSTFileWriter \<Rightarrow> bytes \<Rightarrow> bytes \<Rightarrow> ('d, unit) cop" where
  "SSTAdd rocksdb_sstfilewriter_add w key value =
     callErr (rocksdb_sstfilewriter_add (SSTFileWriter_c w) key value) (\<lambda>cErr _. checkErr cErr (ret ()))"

definition SSTFinish :: "(nat \<Rightarrow> ('d, unit) ccall) \<Rightarrow> SSTFileWriter \<Rightarrow> ('d, unit) cop" where
  "SSTFinish rocksdb_sstfilewriter_finish w =
     callErr (rocksdb_sstfilewriter_finish (SSTFileWriter_c w)) (\<lambda>cErr _. checkErr cErr (ret ()))"

definition SSTDestroy :: "(nat \<Rightarrow> 'd \<Rightarrow> unit \<times> 'd) \<Rightarrow> SSTFileWriter \<Rightarrow> ('d, unit) cop" where
  "SSTDestroy rocksdb_sstfilewriter_destroy w = libCallC (rocksdb_sstfilewriter_destroy (SSTFileWriter_c w))"

section \<open>Transactions\<close>

record c_transactionoptions =
  set_snapshot :: bool
  deadlock_detect :: bool
  lock_timeout :: int
  expiration :: int
  deadlock_detect_depth :: int
  max_write_batch_size :: uint64

record TransactionOptions =
  TransactionOptions_c :: "c_transactionoptions option"

definition NewNativeTransactionOptions :: "c_transactionoptions \<Rightarrow> TransactionOptions" where
  "NewNativeTransactionOptions c = \<lparr>TransactionOptions_c = Some c\<rparr>"

definition NewDefaultTransactionOptions :: "c_transactionoptions \<Rightarrow> TransactionOptions" where
  "NewDefaultTransactionOptions rocksdb_transaction_options_create = NewNativeTransactionOptions rocksdb_transaction_options_create"

definition onTx :: "(c_transactionoptions \<Rightarrow> c_transactionoptions) \<Rightarrow> TransactionOptions \<Rightarrow> TransactionOptions" where
  "onTx f opts = opts\<lparr>TransactionOptions_c := map_option f (TransactionOptions_c opts)\<rparr>"

definition SetSetSnapshot :: "TransactionOptions \<Rightarrow> bool \<Rightarrow> TransactionOptions" where
  "SetSetSnapshot opts value = onTx (\<lambda>c. c\<lparr>set_snapshot := (boolToChar value \<noteq> 0)\<rparr>) opts"

definition SetDeadlockDetect :: "TransactionOptions \<Rightarrow> bool \<Rightarrow> TransactionOptions" where
  "SetDeadlockDetect opts value = onTx (\<lambda>c. c\<lparr>deadlock_detect := (boolToChar value \<noteq> 0)\<rparr>) opts"

definition SetLockTimeout :: "TransactionOptions \<Rightarrow> int \<Rightarrow> TransactionOptions" where
  "SetLockTimeout opts t = onTx (\<lambda>c. c\<lparr>lock_timeout := t\<rparr>) opts"

definition SetExpiration :: "TransactionOptions \<Rightarrow> int \<Rightarrow> TransactionOptions" where
  "SetExpiration opts t = onTx (\<lambda>c. c\<lparr>expiration := t\<rparr>) opts"

definition SetDeadlockDetectDepth :: "TransactionOptions \<Rightarrow> int \<Rightarrow> TransactionOptions" where
  "SetDeadlockDetectDepth opts depth = onTx (\<lambda>c. c\<lparr>deadlock_detect_depth := depth\<rparr>) opts"

definition SetMaxWriteBatchSize :: "TransactionOptions \<Rightarrow> uint64 \<Rightarrow> TransactionOptions" where
  "SetMaxWriteBatchSize opts n = onTx (\<lambda>c. c\<lparr>max_write_batch_size := n\<rparr>) opts"

definition TransactionOptionsDestroy :: "TransactionOptions \<Rightarrow> TransactionOptions" where
  "TransactionOptionsDestroy opts = opts\<lparr>TransactionOptions_c := None\<rparr>"

record c_transactiondboptions =
  max_num_locks :: int
  num_stripes :: uint64
  transaction_lock_timeout :: int
  default_lock_timeout :: int

record TransactionDBOptions =
  TransactionDBOptions_c :: "c_transactiondboptions option"

definition NewNativeTransactionDBOptions :: "c_transactiondboptions \<Rightarrow> TransactionDBOptions" where
  "NewNativeTransactionDBOptions c = \<lparr>TransactionDBOptions_c = Some c\<rparr>"

definition NewDefaultTransactionDBOptions :: "c_transactiondboptions \<Rightarrow> TransactionDBOptions" where
  "NewDefaultTransactionDBOptions rocksdb_transactiondb_options_create =
     NewNativeTransactionDBOptions rocksdb_transactiondb_options_create"

definition onTxDb :: "(c_transactiondboptions \<Rightarrow> c_transactiondboptions) \<Rightarrow> TransactionDBOptions \<Rightarrow> TransactionDBOptions" where
  "onTxDb f opts = opts\<lparr>TransactionDBOptions_c := map_option f (TransactionDBOptions_c opts)\<rparr>"

definition SetMaxNumLocks :: "TransactionDBOptions \<Rightarrow> int \<Rightarrow> TransactionDBOptions" where
  "SetMaxNumLocks opts n = onTxDb (\<lambda>c. c\<lparr>max_num_locks := n\<rparr>) opts"

definition SetNumStripes :: "TransactionDBOptions \<Rightarrow> uint64 \<Rightarrow> TransactionDBOptions" where
  "SetNumStripes opts n = onTxDb (\<lambda>c. c\<lparr>num_stripes := n\<rparr>) opts"

definition SetTransactionLockTimeout :: "TransactionDBOptions \<Rightarrow> int \<Rightarrow> TransactionDBOptions" where
  "SetTransactionLockTimeout opts t = onTxDb (\<lambda>c. c\<lparr>transaction_lock_timeout := t\<rparr>) opts"

definition SetDefaultLockTimeout :: "TransactionDBOptions \<Rightarrow> int \<Rightarrow> TransactionDBOptions" where
  "SetDefaultLockTimeout opts t = onTxDb (\<lambda>c. c\<lparr>default_lock_timeout := t\<rparr>) opts"

definition TransactionDBOptionsDestroy :: "TransactionDBOptions \<Rightarrow> TransactionDBOptions" where
  "TransactionDBOptionsDestroy opts = opts\<lparr>TransactionDBOptions_c := None\<rparr>"

record TransactionDB =
  TransactionDB_c :: "nat option"
  TransactionDB_name :: string
  TransactionDB_opts :: Options
  TransactionDB_transactionDBOpts :: TransactionDBOptions

record Transaction =
  Transaction_c :: "nat option"

definition NewNativeTransaction :: "nat \<Rightarrow> Transaction" where
  "NewNativeTransaction c = \<lparr>Transaction_c = Some c\<rparr>"

definition OpenTransactionDb ::
  "(c_options option \<Rightarrow> c_transactiondboptions option \<Rightarrow> string \<Rightarrow> ('d, nat) ccall)
    \<Rightarrow> Options \<Rightarrow> TransactionDBOptions \<Rightarrow> string \<Rightarrow> ('d, TransactionDB) cop" where
  "OpenTransactionDb rocksdb_transactiondb_open opts transactionDBOpts name =
     withCString name (\<lambda>cName. readC cName (\<lambda>n.
       callErr (rocksdb_transactiondb_open (Options_c opts) (TransactionDBOptions_c transactionDBOpts) n) (\<lambda>cErr db.
         checkErr cErr (ret \<lparr>TransactionDB_c = Some db, TransactionDB_name = name, TransactionDB_opts = opts,
           TransactionDB_transactionDBOpts = transactionDBOpts\<rparr>))))"

definition txdbNewSnapshot :: "(nat option \<Rightarrow> 'd \<Rightarrow> 'n \<times> 'd) \<Rightarrow> TransactionDB \<Rightarrow> ('d, 'n Snapshot) cop" where
  "txdbNewSnapshot rocksdb_transactiondb_create_snapshot db =
     andThen (libCallC (rocksdb_transactiondb_create_snapshot (TransactionDB_c db))) (\<lambda>c. ret (NewNativeSnapshot c))"

definition txdbReleaseSnapshot ::
  "(nat option \<Rightarrow> 'n option \<Rightarrow> 'd \<Rightarrow> unit \<times> 'd) \<Rightarrow> TransactionDB \<Rightarrow> 'n Snapshot \<Rightarrow> ('d, 'n Snapshot) cop" where
  "txdbReleaseSnapshot rocksdb_transactiondb_release_snapshot db snapshot =
     andThen (libCallC (rocksdb_transactiondb_release_snapshot (TransactionDB_c db) (Snapshot_c snapshot))) (\<lambda>_.
       ret (snapshot\<lparr>Snapshot_c := None\<rparr>))"

definition TransactionBegin ::
  "(nat option \<Rightarrow> c_writeoptions option \<Rightarrow> c_transactionoptions option \<Rightarrow> nat option \<Rightarrow> 'd \<Rightarrow> nat \<times> 'd)
    \<Rightarrow> TransactionDB \<Rightarrow> WriteOptions \<Rightarrow> TransactionOptions \<Rightarrow> Transaction option \<Rightarrow> ('d, Transaction) cop" where
  "TransactionBegin rocksdb_transaction_begin db opts transactionOpts oldTransaction =
     (case oldTransaction of
        Some old \<Rightarrow> andThen (libCallC (rocksdb_transaction_begin (TransactionDB_c db) (WriteOptions_c opts)
            (TransactionOptions_c transactionOpts) (Transaction_c old))) (\<lambda>c. ret (NewNativeTransaction c))
      | None \<Rightarrow> andThen (libCallC (rocksdb_transaction_begin (TransactionDB_c db) (WriteOptions_c opts)
            (TransactionOptions_c transactionOpts) None)) (\<lambda>c. ret (NewNativeTransaction c)))"

definition txdbGet ::
  "(nat option \<Rightarrow> 'n c_readoptions option \<Rightarrow> bytes \<Rightarrow> ('d, bytes option) ccall)
    \<Rightarrow> TransactionDB \<Rightarrow> 'n ReadOptions \<Rightarrow> bytes \<Rightarrow> ('d, CSlice) cop" where
  "txdbGet rocksdb_transactiondb_get db opts key =
     callErr (rocksdb_transactiondb_get (TransactionDB_c db) (ReadOptions_c opts) key)
       (\<lambda>cErr cValue. checkErr cErr (allocValue cValue))"

definition txdbPut ::
  "(nat option \<Rightarrow> c_writeoptions option \<Rightarrow> bytes \<Rightarrow> bytes \<Rightarrow> ('d, unit) ccall)
    \<Rightarrow> TransactionDB \<Rightarrow> WriteOptions \<Rightarrow> bytes \<Rightarrow> bytes \<Rightarrow> ('d, unit) cop" where
  "txdbPut rocksdb_transactiondb_put db opts key value =
     callErr (rocksdb_transactiondb_put (TransactionDB_c db) (WriteOptions_c opts) key value) (\<lambda>cErr _. checkErr cErr (ret ()))"

definition txdbDelete ::
  "(nat option \<Rightarrow> c_writeoptions option \<Rightarrow> bytes \<Rightarrow> ('d, unit) ccall) \<Rightarrow> TransactionDB \<Rightarrow> WriteOptions \<Rightarrow> bytes \<Rightarrow> ('d, unit) cop" where
  "txdbDelete rocksdb_transactiondb_delete db opts key =
     callErr (rocksdb_transactiondb_delete (TransactionDB_c db) (WriteOptions_c opts) key) (\<lambda>cErr _. checkErr cErr (ret ()))"

definition txdbNewCheckpoint :: "(nat option \<Rightarrow> ('d, nat) ccall) \<Rightarrow> TransactionDB \<Rightarrow> ('d, Checkpoint) cop" where
  "txdbNewCheckpoint rocksdb_transactiondb_checkpoint_object_create db =
     callErr (rocksdb_transactiondb_checkpoint_object_create (TransactionDB_c db)) (\<lambda>cErr cCheckpoint.
       checkErr cErr (ret (NewNativeCheckpoint cCheckpoint)))"

definition txdbClose :: "(nat option \<Rightarrow> 'd \<Rightarrow> unit \<times> 'd) \<Rightarrow> TransactionDB \<Rightarrow> ('d, TransactionDB) cop" where
  "txdbClose rocksdb_transactiondb_close transactionDB =
     andThen (libCallC (rocksdb_transactiondb_close (TransactionDB_c transactionDB))) (\<lambda>_.
       ret (transactionDB\<lparr>TransactionDB_c := None\<rparr>))"

definition Commit :: "(nat option \<Rightarrow> ('d, unit) ccall) \<Rightarrow> Transaction \<Rightarrow> ('d, unit) cop" where
  "Commit rocksdb_transaction_commit transaction =
     callErr (rocksdb_transaction_commit (Transaction_c transaction)) (\<lambda>cErr _. checkErr cErr (ret ()))"

definition Rollback :: "(nat option \<Rightarrow> ('d, unit) ccall) \<Rightarrow> Transaction \<Rightarrow> ('d, unit) cop" where
  "Rollback rocksdb_transaction_rollback transaction =
     callErr (rocksdb_transaction_rollback (Transaction_c transaction)) (\<lambda>cErr _. checkErr cErr (ret ()))"

definition txGet ::
  "(nat option \<Rightarrow> 'n c_readoptions option \<Rightarrow> bytes \<Rightarrow> ('d, bytes option) ccall)
    \<Rightarrow> Transaction \<Rightarrow> 'n ReadOptions \<Rightarrow> bytes \<Rightarrow> ('d, CSlice) cop" where
  "txGet rocksdb_transaction_get transaction opts key =
     callErr (rocksdb_transaction_get (Transaction_c transaction) (ReadOptions_c opts) key)
       (\<lambda>cErr cValue. checkErr cErr (allocValue cValue))"

text \<open>The last argument of the library's function asks for an exclusive lock.\<close>

definition GetForUpdate ::
  "(nat option \<Rightarrow> 'n c_readoptions option \<Rightarrow> bytes \<Rightarrow> nat \<Rightarrow> ('d, bytes option) ccall)
    \<Rightarrow> Transaction \<Rightarrow> 'n ReadOptions \<Rightarrow> bytes \<Rightarrow> ('d, CSlice) cop" where
  "GetForUpdate rocksdb_transaction_get_for_update transaction opts key =
     callErr (rocksdb_transaction_get_for_update (Transaction_c transaction) (ReadOptions_c opts) key 1)
       (\<lambda>cErr cValue. checkErr cErr (allocValue cValue))"

definition txPut :: "(nat option \<Rightarrow> bytes \<Rightarrow> bytes \<Rightarrow> ('d, unit) ccall) \<Rightarrow> Transaction \<Rightarrow> bytes \<Rightarrow> bytes \<Rightarrow> ('d, unit) cop" where
  "txPut rocksdb_transaction_put transaction key value =
     callErr (rocksdb_transaction_put (Transaction_c transaction) key value) (\<lambda>cErr _. checkErr cErr (ret ()))"

definition txDelete :: "(nat option \<Rightarrow> bytes \<Rightarrow> ('d, unit) ccall) \<Rightarrow> Transaction \<Rightarrow> bytes \<Rightarrow> ('d, unit) cop" where
  "txDelete rocksdb_transaction_delete transaction key =
     callErr (rocksdb_transaction_delete (Transaction_c transaction) key) (\<lambda>cErr _. checkErr cErr (ret ()))"

definition txNewIterator ::
  "(nat option \<Rightarrow> 'n c_readoptions option \<Rightarrow> 'd \<Rightarrow> 'i \<times> 'd) \<Rightarrow> Transaction \<Rightarrow> 'n ReadOptions \<Rightarrow> ('d, 'i Iterator) cop" where
  "txNewIterator rocksdb_transaction_create_iterator transaction opts =
     andThen (libCallC (rocksdb_transaction_create_iterator (Transaction_c transaction) (ReadOptions_c opts)))
       (\<lambda>i. ret \<lparr>Iterator_c = Some i\<rparr>)"

definition txDestroy :: "(nat option \<Rightarrow> 'd \<Rightarrow> unit \<times> 'd) \<Rightarrow> Transaction \<Rightarrow> ('d, Transaction) cop" where
  "txDestroy rocksdb_transaction_destroy transaction =
     andThen (libCallC (rocksdb_transaction_destroy (Transaction_c transaction))) (\<lambda>_. ret (transaction\<lparr>Transaction_c := None\<rparr>))"

section \<open>Contracts\<close>

text \<open>
  Checkpoints, backups, SST files and transactions: every operation that can fail makes its one
  call, reports the library's message or result, and leaves the C heap as it was; the two
  directories of a restore are passed together, and beginning a transaction reuses the old one
  where there is one.
\<close>

theorem handle_calls_exact:
  "calls (CreateCheckpoint checkpoint cp dir n) (checkpoint (Checkpoint_c cp) (cstr dir) n) (\<lambda>_. ())
   \<and> calls (OpenBackupEngine open_be opts path) (open_be (Options_c opts) (cstr path))
       (\<lambda>be. \<lparr>BackupEngine_c = Some be, BackupEngine_path = path, BackupEngine_opts = opts\<rparr>)
   \<and> calls (CreateNewBackup backup be db) (backup (BackupEngine_c be) (DB_c db)) (\<lambda>_. ())
   \<and> calls (RestoreDBFromLatestBackup restore be dir wal ro) (restore (BackupEngine_c be) [cstr dir, cstr wal] (RestoreOptions_c ro)) (\<lambda>_. ())
   \<and> calls (SSTOpen sst_open w path) (sst_open (SSTFileWriter_c w) (cstr path)) (\<lambda>_. ())
   \<and> calls (SSTAdd sst_add w k v) (sst_add (SSTFileWriter_c w) k v) (\<lambda>_. ())
   \<and> calls (SSTFinish sst_finish w) (sst_finish (SSTFileWriter_c w)) (\<lambda>_. ())
   \<and> calls (OpenTransactionDb open_tx opts topts name) (open_tx (Options_c opts) (TransactionDBOptions_c topts) (cstr name))
       (\<lambda>db. \<lparr>TransactionDB_c = Some db, TransactionDB_name = name, TransactionDB_opts = opts, TransactionDB_transactionDBOpts = topts\<rparr>)
   \<and> calls (TransactionBegin begin_tx tdb wo txo old)
       (pureCall (begin_tx (TransactionDB_c tdb) (WriteOptions_c wo) (TransactionOptions_c txo) (Option.bind old Transaction_c)))
       (\<lambda>c. \<lparr>Transaction_c = Some c\<rparr>)
   \<and> calls (txdbPut put tdb wo k v) (put (TransactionDB_c tdb) (WriteOptions_c wo) k v) (\<lambda>_. ())
   \<and> calls (txdbDelete delete tdb wo k) (delete (TransactionDB_c tdb) (WriteOptions_c wo) k) (\<lambda>_. ())
   \<and> calls (txdbNewCheckpoint new_cp tdb) (new_cp (TransactionDB_c tdb)) (\<lambda>c. \<lparr>Checkpoint_c = Some c\<rparr>)
   \<and> calls (Commit commit tx) (commit (Transaction_c tx)) (\<lambda>_. ())
   \<and> calls (Rollback rollback tx) (rollback (Transaction_c tx)) (\<lambda>_. ())
   \<and> calls (txPut tx_put tx k v) (tx_put (Transaction_c tx) k v) (\<lambda>_. ())
   \<and> calls (txDelete tx_delete tx k) (tx_delete (Transaction_c tx) k) (\<lambda>_. ())"
proof (intro conjI)
  show "calls (RestoreDBFromLatestBackup restore be dir wal ro) (restore (BackupEngine_c be) [cstr dir, cstr wal] (RestoreOptions_c ro)) (\<lambda>_. ())"
    unfolding RestoreDBFromLatestBackup_def by (intro calls_withCStrings) (auto intro: calls_intros)
  show "calls (TransactionBegin begin_tx tdb wo txo old)
      (pureCall (begin_tx (TransactionDB_c tdb) (WriteOptions_c wo) (TransactionOptions_c txo) (Option.bind old Transaction_c)))
      (\<lambda>c. \<lparr>Transaction_c = Some c\<rparr>)"
    by (cases old) (auto simp: TransactionBegin_def NewNativeTransaction_def intro: calls_intros)
qed (simp_all only: CreateCheckpoint_def OpenBackupEngine_def CreateNewBackup_def SSTOpen_def SSTAdd_def SSTFinish_def
    OpenTransactionDb_def txdbPut_def txdbDelete_def txdbNewCheckpoint_def NewNativeCheckpoint_def Commit_def Rollback_def
    txPut_def txDelete_def, (intro calls_intros)+)

text \<open>Freeing a slice once gives its block back, freeing it again does nothing.\<close>

lemma csFree_twice:
  assumes "wfHeap h" and "extends h h1 (set (owned [s]))"
  shows "\<exists>h2. csFree s h1 = (Ok (s\<lparr>cs_freed := True\<rparr>), h2) \<and> extends h h2 {}
    \<and> csFree (s\<lparr>cs_freed := True\<rparr>) h2 = (Ok (s\<lparr>cs_freed := True\<rparr>), h2)"
  using csFree_run [of h h1 s "{}"] assms by (auto simp: csFree_def [of "s\<lparr>cs_freed := True\<rparr>"] ret_apply)

text \<open>
  The four reads that return a slice, of a column family, of a transactional database and of a
  transaction with and without a lock, hand over exactly one block, which holds the value; or
  nothing for a missing key; or they report the library's error and leave the heap as it was.
\<close>

theorem reads_hand_over:
  "fetches (GetCF get_cf db ro cf k) (get_cf (DB_c db) (ReadOptions_c ro) (cf_c cf) k)
   \<and> fetches (txdbGet tdb_get tdb ro k) (tdb_get (TransactionDB_c tdb) (ReadOptions_c ro) k)
   \<and> fetches (txGet tx_get tx ro k) (tx_get (Transaction_c tx) (ReadOptions_c ro) k)
   \<and> fetches (GetForUpdate get_upd tx ro k) (get_upd (Transaction_c tx) (ReadOptions_c ro) k 1)"
  unfolding GetCF_def txdbGet_def txGet_def GetForUpdate_def by (intro conjI fetches_callErr)

end
