(* ===== verification/C_Objects.thy ===== *)
theory C_Objects
  imports Callbacks_Filters
begin

text \<open>
  Objects of the C library that the Go side only holds a pointer to: environments (\<^verbatim>\<open>env.go\<close>), caches
  (\<^verbatim>\<open>cache.go\<close>), database paths (\<^verbatim>\<open>dbpath.go\<close>), rate limiters (\<^verbatim>\<open>ratelimiter.go\<close>), the options of compactions
  (\<^verbatim>\<open>options_compaction.go\<close>), of compression (\<^verbatim>\<open>options_compression.go\<close>) and of tables
  (\<^verbatim>\<open>options_block_based_table.go\<close>). The C functions are a parameter; the contract that a client
  needs of it, which objects are alive, is the locale \<open>object_library\<close>.
\<close>

section \<open>Calling C\<close>

text \<open>
  Arguments as the C function gets them, at their C types. A Go \<^verbatim>\<open>int\<close> or \<^verbatim>\<open>uint\<close> has 64 bits; the
  conversion to a C \<^verbatim>\<open>int\<close> keeps the lower 32. Floating point numbers are their bits.
\<close>

type_synonym goint = "64 word"
type_synonym float64 = "64 word"

datatype carg =
    CPtr nat | CInt "32 word" | CUInt "32 word" | CInt32 "32 word" | CUInt32 "32 word"
  | CInt64 "64 word" | CUInt64 "64 word" | CSize "64 word" | CUChar nat | CDouble float64
  | CUintptr nat | CInts "32 word list" | CPtrs "nat list" | CText string

text \<open>
  The C functions by name: from the arguments and the state of the library to the number or
  pointer returned and the new state.
\<close>

type_synonym 'd cfuns = "string \<Rightarrow> carg list \<Rightarrow> 'd \<Rightarrow> nat \<times> 'd"

definition ccall :: "'d cfuns \<Rightarrow> string \<Rightarrow> carg list \<Rightarrow> ('d, nat) cop" where
  "ccall F name args = libCallC (F name args)"

definition cset :: "'d cfuns \<Rightarrow> string \<Rightarrow> carg list \<Rightarrow> ('d, unit) cop" where
  "cset F name args = andThen (ccall F name args) (\<lambda>_. ret ())"

lemma ccall_apply: "ccall F name args h = (Ok (fst (F name args (lib h))), h\<lparr>lib := snd (F name args (lib h))\<rparr>)"
  by (simp add: ccall_def libCallC_def split: prod.splits)

lemma cset_apply: "cset F name args h = (Ok (), h\<lparr>lib := snd (F name args (lib h))\<rparr>)"
  by (simp add: cset_def andThen_apply ccall_apply ret_apply)

section \<open>Environments: env.go\<close>

record Env =
  env_c :: nat

definition NewNativeEnv :: "nat \<Rightarrow> Env" where
  "NewNativeEnv c = \<lparr>env_c = c\<rparr>"

definition NewDefaultEnv :: "'d cfuns \<Rightarrow> ('d, Env) cop" where
  "NewDefaultEnv F = andThen (ccall F ''rocksdb_create_default_env'' []) (\<lambda>c. ret (NewNativeEnv c))"

definition SetBackgroundThreads :: "'d cfuns \<Rightarrow> Env \<Rightarrow> goint \<Rightarrow> ('d, unit) cop" where
  "SetBackgroundThreads F opts n = cset F ''rocksdb_env_set_background_threads'' [CPtr (env_c opts), CInt (ucast n)]"

definition SetHighPriorityBackgroundThreads :: "'d cfuns \<Rightarrow> Env \<Rightarrow> goint \<Rightarrow> ('d, unit) cop" where
  "SetHighPriorityBackgroundThreads F opts n = cset F ''rocksdb_env_set_high_priority_background_threads'' [CPtr (env_c opts), CInt (ucast n)]"

definition EnvDestroy :: "'d cfuns \<Rightarrow> Env \<Rightarrow> ('d, Env) cop" where
  "EnvDestroy F env = andThen (cset F ''rocksdb_env_destroy'' [CPtr (env_c env)]) (\<lambda>_. ret (env\<lparr>env_c := 0\<rparr>))"

section \<open>Caches: cache.go\<close>

record Cache =
  cache_c :: nat

definition NewNativeCache :: "nat \<Rightarrow> Cache" where
  "NewNativeCache c = \<lparr>cache_c = c\<rparr>"

definition NewLRUCache :: "'d cfuns \<Rightarrow> goint \<Rightarrow> ('d, Cache) cop" where
  "NewLRUCache F capacity = andThen (ccall F ''rocksdb_cache_create_lru'' [CSize capacity]) (\<lambda>c. ret (NewNativeCache c))"

text \<open>A C \<^verbatim>\<open>size_t\<close> read as a Go \<^verbatim>\<open>int\<close>.\<close>

definition GetUsage :: "'d cfuns \<Rightarrow> Cache \<Rightarrow> ('d, goint) cop" where
  "GetUsage F c = andThen (ccall F ''rocksdb_cache_get_usage'' [CPtr (cache_c c)]) (\<lambda>n. ret (word_of_nat n))"

definition GetPinnedUsage :: "'d cfuns \<Rightarrow> Cache \<Rightarrow> ('d, goint) cop" where
  "GetPinnedUsage F c = andThen (ccall F ''rocksdb_cache_get_pinned_usage'' [CPtr (cache_c c)]) (\<lambda>n. ret (word_of_nat n))"

definition CacheDestroy :: "'d cfuns \<Rightarrow> Cache \<Rightarrow> ('d, Cache) cop" where
  "CacheDestroy F c = andThen (cset F ''rocksdb_cache_destroy'' [CPtr (cache_c c)]) (\<lambda>_. ret (c\<lparr>cache_c := 0\<rparr>))"

section \<open>Database paths: dbpath.go\<close>

record DBPath =
  path_c :: nat

definition NewNativeDBPath :: "nat \<Rightarrow> DBPath" where
  "NewNativeDBPath c = \<lparr>path_c = c\<rparr>"

definition NewDBPath :: "'d cfuns \<Rightarrow> string \<Rightarrow> uint64 \<Rightarrow> ('d, DBPath) cop" where
  "NewDBPath F path targetSize = withCString path (\<lambda>cpath. readC cpath (\<lambda>s.
     andThen (ccall F ''rocksdb_dbpath_create'' [CText s, CUInt64 targetSize]) (\<lambda>c. ret (NewNativeDBPath c))))"

definition DBPathDestroy :: "'d cfuns \<Rightarrow> DBPath \<Rightarrow> ('d, unit) cop" where
  "DBPathDestroy F dbpath = cset F ''rocksdb_dbpath_destroy'' [CPtr (path_c dbpath)]"

text \<open>The loop over the paths; indexing the sizes out of range panics.\<close>

fun dbPathsLoop :: "'d cfuns \<Rightarrow> string list \<Rightarrow> uint64 list \<Rightarrow> ('d, DBPath list) cop" where
  "dbPathsLoop F [] target_sizes = ret []"
| "dbPathsLoop F (path # paths) [] = gopanic ''index out of range''"
| "dbPathsLoop F (path # paths) (targetSize # target_sizes) =
     andThen (NewDBPath F path targetSize) (\<lambda>p. andThen (dbPathsLoop F paths target_sizes) (\<lambda>ps. ret (p # ps)))"

definition NewDBPathsFromData :: "'d cfuns \<Rightarrow> string list \<Rightarrow> uint64 list \<Rightarrow> ('d, DBPath list) cop" where
  "NewDBPathsFromData F paths target_sizes = dbPathsLoop F paths target_sizes"

fun DestroyDBPaths :: "'d cfuns \<Rightarrow> DBPath list \<Rightarrow> ('d, unit) cop" where
  "DestroyDBPaths F [] = ret ()"
| "DestroyDBPaths F (dbpath # dbpaths) = andThen (DBPathDestroy F dbpath) (\<lambda>_. DestroyDBPaths F dbpaths)"

section \<open>Rate limiters: ratelimiter.go\<close>

record RateLimiter =
  rl_c :: nat

definition NewNativeRateLimiter :: "nat \<Rightarrow> RateLimiter" where
  "NewNativeRateLimiter c = \<lparr>rl_c = c\<rparr>"

definition NewRateLimiter :: "'d cfuns \<Rightarrow> 64 word \<Rightarrow> 64 word \<Rightarrow> 32 word \<Rightarrow> ('d, RateLimiter) cop" where
  "NewRateLimiter F rate_bytes_per_sec refill_period_us fairness =
     andThen (ccall F ''rocksdb_ratelimiter_create'' [CInt64 rate_bytes_per_sec, CInt64 refill_period_us, CInt32 fairness])
       (\<lambda>c. ret (NewNativeRateLimiter c))"

definition RateLimiterDestroy :: "'d cfuns \<Rightarrow> RateLimiter \<Rightarrow> ('d, RateLimiter) cop" where
  "RateLimiterDestroy F self = andThen (cset F ''rocksdb_ratelimiter_destroy'' [CPtr (rl_c self)]) (\<lambda>_. ret (self\<lparr>rl_c := 0\<rparr>))"

section \<open>Options of compactions: options_compaction.go\<close>

record FIFOCompactionOptions =
  fco_c :: nat

definition NewNativeFIFOCompactionOptions :: "nat \<Rightarrow> FIFOCompactionOptions" where
  "NewNativeFIFOCompactionOptions c = \<lparr>fco_c = c\<rparr>"

definition NewDefaultFIFOCompactionOptions :: "'d cfuns \<Rightarrow> ('d, FIFOCompactionOptions) cop" where
  "NewDefaultFIFOCompactionOptions F =
     andThen (ccall F ''rocksdb_fifo_compaction_options_create'' []) (\<lambda>c. ret (NewNativeFIFOCompactionOptions c))"

definition SetMaxTableFilesSize :: "'d cfuns \<Rightarrow> FIFOCompactionOptions \<Rightarrow> uint64 \<Rightarrow> ('d, unit) cop" where
  "SetMaxTableFilesSize F opts value = cset F ''rocksdb_fifo_compaction_options_set_max_table_files_size'' [CPtr (fco_c opts), CUInt64 value]"

text \<open>The pointer is kept after the release.\<close>

definition FIFOCompactionOptionsDestroy :: "'d cfuns \<Rightarrow> FIFOCompactionOptions \<Rightarrow> ('d, unit) cop" where
  "FIFOCompactionOptionsDestroy F opts = cset F ''rocksdb_fifo_compaction_options_destroy'' [CPtr (fco_c opts)]"

record UniversalCompactionOptions =
  uco_c :: nat

definition NewNativeUniversalCompactionOptions :: "nat \<Rightarrow> UniversalCompactionOptions" where
  "NewNativeUniversalCompactionOptions c = \<lparr>uco_c = c\<rparr>"

definition NewDefaultUniversalCompactionOptions :: "'d cfuns \<Rightarrow> ('d, UniversalCompactionOptions) cop" where
  "NewDefaultUniversalCompactionOptions F =
     andThen (ccall F ''rocksdb_universal_compaction_options_create'' []) (\<lambda>c. ret (NewNativeUniversalCompactionOptions c))"

definition SetSizeRatio :: "'d cfuns \<Rightarrow> UniversalCompactionOptions \<Rightarrow> goint \<Rightarrow> ('d, unit) cop" where
  "SetSizeRatio F opts value = cset F ''rocksdb_universal_compaction_options_set_size_ratio'' [CPtr (uco_c opts), CInt (ucast value)]"

definition SetMinMergeWidth :: "'d cfuns \<Rightarrow> UniversalCompactionOptions \<Rightarrow> goint \<Rightarrow> ('d, unit) cop" where
  "SetMinMergeWidth F opts value = cset F ''rocksdb_universal_compaction_options_set_min_merge_width'' [CPtr (uco_c opts), CInt (ucast value)]"

definition SetMaxMergeWidth :: "'d cfuns \<Rightarrow> UniversalCompactionOptions \<Rightarrow> goint \<Rightarrow> ('d, unit) cop" where
  "SetMaxMergeWidth F opts value = cset F ''rocksdb_universal_compaction_options_set_max_merge_width'' [CPtr (uco_c opts), CInt (ucast value)]"

definition SetMaxSizeAmplificationPercent :: "'d cfuns \<Rightarrow> UniversalCompactionOptions \<Rightarrow> goint \<Rightarrow> ('d, unit) cop" where
  "SetMaxSizeAmplificationPercent F opts value = cset F ''rocksdb_universal_compaction_options_set_max_size_amplification_percent'' [CPtr (uco_c opts), CInt (ucast value)]"

definition SetCompressionSizePercent :: "'d cfuns \<Rightarrow> UniversalCompactionOptions \<Rightarrow> goint \<Rightarrow> ('d, unit) cop" where
  "SetCompressionSizePercent F opts value = cset F ''rocksdb_universal_compaction_options_set_compression_size_percent'' [CPtr (uco_c opts), CInt (ucast value)]"

definition SetStopStyle :: "'d cfuns \<Rightarrow> UniversalCompactionOptions \<Rightarrow> goint \<Rightarrow> ('d, unit) cop" where
  "SetStopStyle F opts value = cset F ''rocksdb_universal_compaction_options_set_stop_style'' [CPtr (uco_c opts), CInt (ucast value)]"

definition UniversalCompactionOptionsDestroy :: "'d cfuns \<Rightarrow> UniversalCompactionOptions \<Rightarrow> ('d, UniversalCompactionOptions) cop" where
  "UniversalCompactionOptionsDestroy F opts =
     andThen (cset F ''rocksdb_universal_compaction_options_destroy'' [CPtr (uco_c opts)]) (\<lambda>_. ret (opts\<lparr>uco_c := 0\<rparr>))"

section \<open>Options of compression: options_compression.go\<close>

record CompressionOptions =
  WindowBits :: goint
  Level :: goint
  Strategy :: goint
  MaxDictBytes :: goint

definition NewCompressionOptions :: "goint \<Rightarrow> goint \<Rightarrow> goint \<Rightarrow> goint \<Rightarrow> CompressionOptions" where
  "NewCompressionOptions windowBits level strategy maxDictBytes =
     \<lparr>WindowBits = windowBits, Level = level, Strategy = strategy, MaxDictBytes = maxDictBytes\<rparr>"

definition NewDefaultCompressionOptions :: CompressionOptions where
  "NewDefaultCompressionOptions = NewCompressionOptions (-14) (-1) 0 0"

section \<open>Options of tables: options_block_based_table.go\<close>

record BlockBasedTableOptions =
  bbto_c :: nat
  bbto_cache :: "Cache option"
  bbto_compCache :: "Cache option"
  bbto_cFp :: nat

definition NewNativeBlockBasedTableOptions :: "nat \<Rightarrow> BlockBasedTableOptions" where
  "NewNativeBlockBasedTableOptions c = \<lparr>bbto_c = c, bbto_cache = None, bbto_compCache = None, bbto_cFp = 0\<rparr>"

definition NewDefaultBlockBasedTableOptions :: "'d cfuns \<Rightarrow> ('d, BlockBasedTableOptions) cop" where
  "NewDefaultBlockBasedTableOptions F =
     andThen (ccall F ''rocksdb_block_based_options_create'' []) (\<lambda>c. ret (NewNativeBlockBasedTableOptions c))"

definition BlockBasedTableOptionsDestroy :: "'d cfuns \<Rightarrow> BlockBasedTableOptions \<Rightarrow> ('d, BlockBasedTableOptions) cop" where
  "BlockBasedTableOptionsDestroy F opts =
     andThen (cset F ''rocksdb_block_based_options_destroy'' [CPtr (bbto_c opts)])
       (\<lambda>_. ret (opts\<lparr>bbto_c := 0, bbto_cache := None, bbto_compCache := None\<rparr>))"

definition SetCacheIndexAndFilterBlocks :: "'d cfuns \<Rightarrow> BlockBasedTableOptions \<Rightarrow> bool \<Rightarrow> ('d, unit) cop" where
  "SetCacheIndexAndFilterBlocks F opts value = cset F ''rocksdb_block_based_options_set_cache_index_and_filter_blocks'' [CPtr (bbto_c opts), CUChar (boolToChar value)]"

definition SetPinL0FilterAndIndexBlocksInCache :: "'d cfuns \<Rightarrow> BlockBasedTableOptions \<Rightarrow> bool \<Rightarrow> ('d, unit) cop" where
  "SetPinL0FilterAndIndexBlocksInCache F opts value = cset F ''rocksdb_block_based_options_set_pin_l0_filter_and_index_blocks_in_cache'' [CPtr (bbto_c opts), CUChar (boolToChar value)]"

definition SetBlockSize :: "'d cfuns \<Rightarrow> BlockBasedTableOptions \<Rightarrow> goint \<Rightarrow> ('d, unit) cop" where
  "SetBlockSize F opts blockSize = cset F ''rocksdb_block_based_options_set_block_size'' [CPtr (bbto_c opts), CSize blockSize]"

definition SetBlockSizeDeviation :: "'d cfuns \<Rightarrow> BlockBasedTableOptions \<Rightarrow> goint \<Rightarrow> ('d, unit) cop" where
  "SetBlockSizeDeviation F opts blockSizeDeviation = cset F ''rocksdb_block_based_options_set_block_size_deviation'' [CPtr (bbto_c opts), CInt (ucast blockSizeDeviation)]"

definition SetBlockRestartInterval :: "'d cfuns \<Rightarrow> BlockBasedTableOptions \<Rightarrow> goint \<Rightarrow> ('d, unit) cop" where
  "SetBlockRestartInterval F opts blockRestartInterval = cset F ''rocksdb_block_based_options_set_block_restart_interval'' [CPtr (bbto_c opts), CInt (ucast blockRestartInterval)]"

definition SetNoBlockCache :: "'d cfuns \<Rightarrow> BlockBasedTableOptions \<Rightarrow> bool \<Rightarrow> ('d, unit) cop" where
  "SetNoBlockCache F opts value = cset F ''rocksdb_block_based_options_set_no_block_cache'' [CPtr (bbto_c opts), CUChar (boolToChar value)]"

definition SetWholeKeyFiltering :: "'d cfuns \<Rightarrow> BlockBasedTableOptions \<Rightarrow> bool \<Rightarrow> ('d, unit) cop" where
  "SetWholeKeyFiltering F opts value = cset F ''rocksdb_block_based_options_set_whole_key_filtering'' [CPtr (bbto_c opts), CUChar (boolToChar value)]"

definition SetIndexType :: "'d cfuns \<Rightarrow> BlockBasedTableOptions \<Rightarrow> goint \<Rightarrow> ('d, unit) cop" where
  "SetIndexType F opts value = cset F ''rocksdb_block_based_options_set_index_type'' [CPtr (bbto_c opts), CInt (ucast value)]"

text \<open>A native policy is passed as it is, a Go object is registered and gets a C object for its index.\<close>

definition SetFilterPolicy :: "'d cfuns \<Rightarrow> filterPolicyWrapper COWList \<Rightarrow> BlockBasedTableOptions \<Rightarrow> FilterPolicy iface
    \<Rightarrow> ('d, filterPolicyWrapper COWList \<times> BlockBasedTableOptions) cop" where
  "SetFilterPolicy F filterPolicies opts fp =
     andThen (case fp of
         Native c \<Rightarrow> ret (filterPolicies, opts\<lparr>bbto_cFp := c\<rparr>)
       | GoObject g \<Rightarrow>
           andThen (registerFilterPolicy filterPolicies g) (\<lambda>(filterPolicies, idx).
           andThen (ccall F ''gorocksdb_filterpolicy_create'' [CUintptr idx]) (\<lambda>c.
           ret (filterPolicies, opts\<lparr>bbto_cFp := c\<rparr>))))
       (\<lambda>(filterPolicies, opts).
          andThen (cset F ''rocksdb_block_based_options_set_filter_policy'' [CPtr (bbto_c opts), CPtr (bbto_cFp opts)]) (\<lambda>_.
          ret (filterPolicies, opts)))"

text \<open>A nil cache is dereferenced, although the comments allow it.\<close>

definition SetBlockCache :: "'d cfuns \<Rightarrow> BlockBasedTableOptions \<Rightarrow> Cache option \<Rightarrow> ('d, BlockBasedTableOptions) cop" where
  "SetBlockCache F opts cache =
     (let opts = opts\<lparr>bbto_cache := cache\<rparr>
      in case cache of
           None \<Rightarrow> gopanic ''invalid memory address or nil pointer dereference''
         | Some ca \<Rightarrow> andThen (cset F ''rocksdb_block_based_options_set_block_cache'' [CPtr (bbto_c opts), CPtr (cache_c ca)])
             (\<lambda>_. ret opts))"

definition SetBlockCacheCompressed :: "'d cfuns \<Rightarrow> BlockBasedTableOptions \<Rightarrow> Cache option \<Rightarrow> ('d, BlockBasedTableOptions) cop" where
  "SetBlockCacheCompressed F opts cache =
     (let opts = opts\<lparr>bbto_compCache := cache\<rparr>
      in case cache of
           None \<Rightarrow> gopanic ''invalid memory address or nil pointer dereference''
         | Some ca \<Rightarrow> andThen (cset F ''rocksdb_block_based_options_set_block_cache_compressed'' [CPtr (bbto_c opts), CPtr (cache_c ca)])
             (\<lambda>_. ret opts))"


end
