(* ===== verification/Options_Setters.thy ===== *)
theory Options_Setters
  imports C_Objects
begin

text \<open>
  The options of a database, \<^verbatim>\<open>options.go\<close>, as the Go struct around the C object, with every setter as
  the call of C that it makes. (\<open>Gorocksdb\<close> has the two settings that the program makes as what the C
  object then holds.) The laws say which values reach the library unchanged, that registered
  callbacks are the ones that the library is given, and what \<^verbatim>\<open>Destroy\<close> releases.
\<close>

section \<open>The struct\<close>

text \<open>Pointers to objects of the C library are numbers, nil is 0. Arguments that are Go pointers are not nil.\<close>

record OptionsStruct =
  opt_c :: nat
  opt_env :: "Env option"
  opt_bbto :: "BlockBasedTableOptions option"
  opt_ccmp :: nat
  opt_cmo :: nat
  opt_cst :: nat
  opt_ccf :: nat

definition NewNativeOptions :: "nat \<Rightarrow> OptionsStruct" where
  "NewNativeOptions c = \<lparr>opt_c = c, opt_env = None, opt_bbto = None, opt_ccmp = 0, opt_cmo = 0, opt_cst = 0, opt_ccf = 0\<rparr>"

definition Options_NewDefault :: "'d cfuns \<Rightarrow> ('d, OptionsStruct) cop" where
  "Options_NewDefault F = andThen (ccall F ''rocksdb_options_create'' []) (\<lambda>c. ret (NewNativeOptions c))"

section \<open>Callbacks\<close>

definition SetCompactionFilter :: "'d cfuns \<Rightarrow> compactionFilterWrapper COWList \<Rightarrow> OptionsStruct \<Rightarrow> CompactionFilter iface
    \<Rightarrow> ('d, compactionFilterWrapper COWList \<times> OptionsStruct) cop" where
  "SetCompactionFilter F compactionFilters opts value =
     andThen (case value of
         Native c \<Rightarrow> ret (compactionFilters, opts\<lparr>opt_ccf := c\<rparr>)
       | GoObject g \<Rightarrow>
           andThen (registerCompactionFilter compactionFilters g) (\<lambda>(compactionFilters, idx).
           andThen (ccall F ''gorocksdb_compactionfilter_create'' [CUintptr idx]) (\<lambda>c.
           ret (compactionFilters, opts\<lparr>opt_ccf := c\<rparr>))))
       (\<lambda>(compactionFilters, opts).
          andThen (cset F ''rocksdb_options_set_compaction_filter'' [CPtr (opt_c opts), CPtr (opt_ccf opts)]) (\<lambda>_.
          ret (compactionFilters, opts)))"

definition SetComparator :: "'d cfuns \<Rightarrow> comperatorWrapper COWList \<Rightarrow> OptionsStruct \<Rightarrow> Comparator iface
    \<Rightarrow> ('d, comperatorWrapper COWList \<times> OptionsStruct) cop" where
  "SetComparator F comperators opts value =
     andThen (case value of
         Native c \<Rightarrow> ret (comperators, opts\<lparr>opt_ccmp := c\<rparr>)
       | GoObject g \<Rightarrow>
           andThen (registerComperator comperators g) (\<lambda>(comperators, idx).
           andThen (ccall F ''gorocksdb_comparator_create'' [CUintptr idx]) (\<lambda>c.
           ret (comperators, opts\<lparr>opt_ccmp := c\<rparr>))))
       (\<lambda>(comperators, opts).
          andThen (cset F ''rocksdb_options_set_comparator'' [CPtr (opt_c opts), CPtr (opt_ccmp opts)]) (\<lambda>_.
          ret (comperators, opts)))"

definition SetMergeOperator :: "'d cfuns \<Rightarrow> mergeOperatorWrapper COWList \<Rightarrow> OptionsStruct \<Rightarrow> MergeOperator iface
    \<Rightarrow> ('d, mergeOperatorWrapper COWList \<times> OptionsStruct) cop" where
  "SetMergeOperator F mergeOperators opts value =
     andThen (case value of
         Native c \<Rightarrow> ret (mergeOperators, opts\<lparr>opt_cmo := c\<rparr>)
       | GoObject g \<Rightarrow>
           andThen (registerMergeOperator mergeOperators g) (\<lambda>(mergeOperators, idx).
           andThen (ccall F ''gorocksdb_mergeoperator_create'' [CUintptr idx]) (\<lambda>c.
           ret (mergeOperators, opts\<lparr>opt_cmo := c\<rparr>))))
       (\<lambda>(mergeOperators, opts).
          andThen (cset F ''rocksdb_options_set_merge_operator'' [CPtr (opt_c opts), CPtr (opt_cmo opts)]) (\<lambda>_.
          ret (mergeOperators, opts)))"

definition SetPrefixExtractor :: "'d cfuns \<Rightarrow> sliceTransformWrapper COWList \<Rightarrow> OptionsStruct \<Rightarrow> SliceTransform iface
    \<Rightarrow> ('d, sliceTransformWrapper COWList \<times> OptionsStruct) cop" where
  "SetPrefixExtractor F sliceTransforms opts value =
     andThen (case value of
         Native c \<Rightarrow> ret (sliceTransforms, opts\<lparr>opt_cst := c\<rparr>)
       | GoObject g \<Rightarrow>
           andThen (registerSliceTransform sliceTransforms g) (\<lambda>(sliceTransforms, idx).
           andThen (ccall F ''gorocksdb_slicetransform_create'' [CUintptr idx]) (\<lambda>c.
           ret (sliceTransforms, opts\<lparr>opt_cst := c\<rparr>))))
       (\<lambda>(sliceTransforms, opts).
          andThen (cset F ''rocksdb_options_set_prefix_extractor'' [CPtr (opt_c opts), CPtr (opt_cst opts)]) (\<lambda>_.
          ret (sliceTransforms, opts)))"

section \<open>Settings\<close>

text \<open>Arrays are passed by the address of their first element, which an empty slice has not.\<close>

definition SetDBPaths :: "'d cfuns \<Rightarrow> OptionsStruct \<Rightarrow> DBPath list \<Rightarrow> ('d, unit) cop" where
  "SetDBPaths F opts dbpaths =
     (let cDbpaths = map path_c dbpaths
      in firstElem cDbpaths (cset F ''rocksdb_options_set_db_paths''
           [CPtr (opt_c opts), CPtrs cDbpaths, CSize (word_of_nat (length dbpaths))]))"

definition SetCompressionPerLevel :: "'d cfuns \<Rightarrow> OptionsStruct \<Rightarrow> goint list \<Rightarrow> ('d, unit) cop" where
  "SetCompressionPerLevel F opts value =
     (let cLevels = map ucast value
      in firstElem cLevels (cset F ''rocksdb_options_set_compression_per_level''
           [CPtr (opt_c opts), CInts cLevels, CSize (word_of_nat (length value))]))"

definition SetMaxBytesForLevelMultiplierAdditional :: "'d cfuns \<Rightarrow> OptionsStruct \<Rightarrow> goint list \<Rightarrow> ('d, unit) cop" where
  "SetMaxBytesForLevelMultiplierAdditional F opts value =
     (let cLevels = map ucast value
      in firstElem cLevels (cset F ''rocksdb_options_set_max_bytes_for_level_multiplier_additional''
           [CPtr (opt_c opts), CInts cLevels, CSize (word_of_nat (length value))]))"

text \<open>Strings are copied to the C heap for the call.\<close>

definition SetDbLogDir :: "'d cfuns \<Rightarrow> OptionsStruct \<Rightarrow> string \<Rightarrow> ('d, unit) cop" where
  "SetDbLogDir F opts value = withCString value (\<lambda>cvalue. readC cvalue (\<lambda>s.
     cset F ''rocksdb_options_set_db_log_dir'' [CPtr (opt_c opts), CText s]))"

definition SetWalDir :: "'d cfuns \<Rightarrow> OptionsStruct \<Rightarrow> string \<Rightarrow> ('d, unit) cop" where
  "SetWalDir F opts value = withCString value (\<lambda>cvalue. readC cvalue (\<lambda>s.
     cset F ''rocksdb_options_set_wal_dir'' [CPtr (opt_c opts), CText s]))"

text \<open>Objects that the Go struct keeps as well, so that they are not collected.\<close>

definition SetEnv :: "'d cfuns \<Rightarrow> OptionsStruct \<Rightarrow> Env \<Rightarrow> ('d, OptionsStruct) cop" where
  "SetEnv F opts value =
     (let opts = opts\<lparr>opt_env := Some value\<rparr>
      in andThen (cset F ''rocksdb_options_set_env'' [CPtr (opt_c opts), CPtr (env_c value)]) (\<lambda>_. ret opts))"

definition SetBlockBasedTableFactory :: "'d cfuns \<Rightarrow> OptionsStruct \<Rightarrow> BlockBasedTableOptions \<Rightarrow> ('d, OptionsStruct) cop" where
  "SetBlockBasedTableFactory F opts value =
     (let opts = opts\<lparr>opt_bbto := Some value\<rparr>
      in andThen (cset F ''rocksdb_options_set_block_based_table_factory'' [CPtr (opt_c opts), CPtr (bbto_c value)]) (\<lambda>_. ret opts))"

definition SetCompressionOptions :: "'d cfuns \<Rightarrow> OptionsStruct \<Rightarrow> CompressionOptions \<Rightarrow> ('d, unit) cop" where
  "SetCompressionOptions F opts value = cset F ''rocksdb_options_set_compression_options''
     [CPtr (opt_c opts), CInt (ucast (WindowBits value)), CInt (ucast (Level value)), CInt (ucast (Strategy value)),
      CInt (ucast (MaxDictBytes value))]"

text \<open>The others pass their values on.\<close>

definition SetErrorIfExists :: "'d cfuns \<Rightarrow> OptionsStruct \<Rightarrow> bool \<Rightarrow> ('d, unit) cop" where
  "SetErrorIfExists F opts value = cset F ''rocksdb_options_set_error_if_exists'' [CPtr (opt_c opts), CUChar (boolToChar value)]"

definition SetParanoidChecks :: "'d cfuns \<Rightarrow> OptionsStruct \<Rightarrow> bool \<Rightarrow> ('d, unit) cop" where
  "SetParanoidChecks F opts value = cset F ''rocksdb_options_set_paranoid_checks'' [CPtr (opt_c opts), CUChar (boolToChar value)]"

definition SetInfoLogLevel :: "'d cfuns \<Rightarrow> OptionsStruct \<Rightarrow> goint \<Rightarrow> ('d, unit) cop" where
  "SetInfoLogLevel F opts value = cset F ''rocksdb_options_set_info_log_level'' [CPtr (opt_c opts), CInt (ucast value)]"

definition IncreaseParallelism :: "'d cfuns \<Rightarrow> OptionsStruct \<Rightarrow> goint \<Rightarrow> ('d, unit) cop" where
  "IncreaseParallelism F opts total_threads = cset F ''rocksdb_options_increase_parallelism'' [CPtr (opt_c opts), CInt (ucast total_threads)]"

definition OptimizeForPointLookup :: "'d cfuns \<Rightarrow> OptionsStruct \<Rightarrow> uint64 \<Rightarrow> ('d, unit) cop" where
  "OptimizeForPointLookup F opts block_cache_size_mb = cset F ''rocksdb_options_optimize_for_point_lookup'' [CPtr (opt_c opts), CUInt64 block_cache_size_mb]"

definition SetAllowConcurrentMemtableWrites :: "'d cfuns \<Rightarrow> OptionsStruct \<Rightarrow> bool \<Rightarrow> ('d, unit) cop" where
  "SetAllowConcurrentMemtableWrites F opts allow = cset F ''rocksdb_options_set_allow_concurrent_memtable_write'' [CPtr (opt_c opts), CUChar (boolToChar allow)]"

definition OptimizeLevelStyleCompaction :: "'d cfuns \<Rightarrow> OptionsStruct \<Rightarrow> uint64 \<Rightarrow> ('d, unit) cop" where
  "OptimizeLevelStyleCompaction F opts memtable_memory_budget = cset F ''rocksdb_options_optimize_level_style_compaction'' [CPtr (opt_c opts), CUInt64 memtable_memory_budget]"

definition OptimizeUniversalStyleCompaction :: "'d cfuns \<Rightarrow> OptionsStruct \<Rightarrow> uint64 \<Rightarrow> ('d, unit) cop" where
  "OptimizeUniversalStyleCompaction F opts memtable_memory_budget = cset F ''rocksdb_options_optimize_universal_style_compaction'' [CPtr (opt_c opts), CUInt64 memtable_memory_budget]"

definition SetWriteBufferSize :: "'d cfuns \<Rightarrow> OptionsStruct \<Rightarrow> goint \<Rightarrow> ('d, unit) cop" where
  "SetWriteBufferSize F opts value = cset F ''rocksdb_options_set_write_buffer_size'' [CPtr (opt_c opts), CSize value]"

definition SetMaxWriteBufferNumber :: "'d cfuns \<Rightarrow> OptionsStruct \<Rightarrow> goint \<Rightarrow> ('d, unit) cop" where
  "SetMaxWriteBufferNumber F opts value = cset F ''rocksdb_options_set_max_write_buffer_number'' [CPtr (opt_c opts), CInt (ucast value)]"

definition SetMinWriteBufferNumberToMerge :: "'d cfuns \<Rightarrow> OptionsStruct \<Rightarrow> goint \<Rightarrow> ('d, unit) cop" where
  "SetMinWriteBufferNumberToMerge F opts value = cset F ''rocksdb_options_set_min_write_buffer_number_to_merge'' [CPtr (opt_c opts), CInt (ucast value)]"

definition SetMaxOpenFiles :: "'d cfuns \<Rightarrow> OptionsStruct \<Rightarrow> goint \<Rightarrow> ('d, unit) cop" where
  "SetMaxOpenFiles F opts value = cset F ''rocksdb_options_set_max_open_files'' [CPtr (opt_c opts), CInt (ucast value)]"

definition SetMaxFileOpeningThreads :: "'d cfuns \<Rightarrow> OptionsStruct \<Rightarrow> goint \<Rightarrow> ('d, unit) cop" where
  "SetMaxFileOpeningThreads F opts value = cset F ''rocksdb_options_set_max_file_opening_threads'' [CPtr (opt_c opts), CInt (ucast value)]"

definition SetMaxTotalWalSize :: "'d cfuns \<Rightarrow> OptionsStruct \<Rightarrow> uint64 \<Rightarrow> ('d, unit) cop" where
  "SetMaxTotalWalSize F opts value = cset F ''rocksdb_options_set_max_total_wal_size'' [CPtr (opt_c opts), CUInt64 value]"

definition SetCompression :: "'d cfuns \<Rightarrow> OptionsStruct \<Rightarrow> goint \<Rightarrow> ('d, unit) cop" where
  "SetCompression F opts value = cset F ''rocksdb_options_set_compression'' [CPtr (opt_c opts), CInt (ucast value)]"

definition SetMinLevelToCompress :: "'d cfuns \<Rightarrow> OptionsStruct \<Rightarrow> goint \<Rightarrow> ('d, unit) cop" where
  "SetMinLevelToCompress F opts value = cset F ''rocksdb_options_set_min_level_to_compress'' [CPtr (opt_c opts), CInt (ucast value)]"

definition SetNumLevels :: "'d cfuns \<Rightarrow> OptionsStruct \<Rightarrow> goint \<Rightarrow> ('d, unit) cop" where
  "SetNumLevels F opts value = cset F ''rocksdb_options_set_num_levels'' [CPtr (opt_c opts), CInt (ucast value)]"

definition SetLevel0FileNumCompactionTrigger :: "'d cfuns \<Rightarrow> OptionsStruct \<Rightarrow> goint \<Rightarrow> ('d, unit) cop" where
  "SetLevel0FileNumCompactionTrigger F opts value = cset F ''rocksdb_options_set_level0_file_num_compaction_trigger'' [CPtr (opt_c opts), CInt (ucast value)]"

definition SetLevel0SlowdownWritesTrigger :: "'d cfuns \<Rightarrow> OptionsStruct \<Rightarrow> goint \<Rightarrow> ('d, unit) cop" where
  "SetLevel0SlowdownWritesTrigger F opts value = cset F ''rocksdb_options_set_level0_slowdown_writes_trigger'' [CPtr (opt_c opts), CInt (ucast value)]"

definition SetLevel0StopWritesTrigger :: "'d cfuns \<Rightarrow> OptionsStruct \<Rightarrow> goint \<Rightarrow> ('d, unit) cop" where
  "SetLevel0StopWritesTrigger F opts value = cset F ''rocksdb_options_set_level0_stop_writes_trigger'' [CPtr (opt_c opts), CInt (ucast value)]"

definition SetMaxMemCompactionLevel :: "'d cfuns \<Rightarrow> OptionsStruct \<Rightarrow> goint \<Rightarrow> ('d, unit) cop" where
  "SetMaxMemCompactionLevel F opts value = cset F ''rocksdb_options_set_max_mem_compaction_level'' [CPtr (opt_c opts), CInt (ucast value)]"

definition SetTargetFileSizeBase :: "'d cfuns \<Rightarrow> OptionsStruct \<Rightarrow> uint64 \<Rightarrow> ('d, unit) cop" where
  "SetTargetFileSizeBase F opts value = cset F ''rocksdb_options_set_target_file_size_base'' [CPtr (opt_c opts), CUInt64 value]"

definition SetTargetFileSizeMultiplier :: "'d cfuns \<Rightarrow> OptionsStruct \<Rightarrow> goint \<Rightarrow> ('d, unit) cop" where
  "SetTargetFileSizeMultiplier F opts value = cset F ''rocksdb_options_set_target_file_size_multiplier'' [CPtr (opt_c opts), CInt (ucast value)]"

definition SetMaxBytesForLevelBase :: "'d cfuns \<Rightarrow> OptionsStruct \<Rightarrow> uint64 \<Rightarrow> ('d, unit) cop" where
  "SetMaxBytesForLevelBase F opts value = cset F ''rocksdb_options_set_max_bytes_for_level_base'' [CPtr (opt_c opts), CUInt64 value]"

definition SetMaxBytesForLevelMultiplier :: "'d cfuns \<Rightarrow> OptionsStruct \<Rightarrow> float64 \<Rightarrow> ('d, unit) cop" where
  "SetMaxBytesForLevelMultiplier F opts value = cset F ''rocksdb_options_set_max_bytes_for_level_multiplier'' [CPtr (opt_c opts), CDouble value]"

definition SetLevelCompactionDynamicLevelBytes :: "'d cfuns \<Rightarrow> OptionsStruct \<Rightarrow> bool \<Rightarrow> ('d, unit) cop" where
  "SetLevelCompactionDynamicLevelBytes F opts value = cset F ''rocksdb_options_set_level_compaction_dynamic_level_bytes'' [CPtr (opt_c opts), CUChar (boolToChar value)]"

definition SetMaxCompactionBytes :: "'d cfuns \<Rightarrow> OptionsStruct \<Rightarrow> uint64 \<Rightarrow> ('d, unit) cop" where
  "SetMaxCompactionBytes F opts value = cset F ''rocksdb_options_set_max_compaction_bytes'' [CPtr (opt_c opts), CUInt64 value]"

definition SetSoftPendingCompactionBytesLimit :: "'d cfuns \<Rightarrow> OptionsStruct \<Rightarrow> uint64 \<Rightarrow> ('d, unit) cop" where
  "SetSoftPendingCompactionBytesLimit F opts value = cset F ''rocksdb_options_set_soft_pending_compaction_bytes_limit'' [CPtr (opt_c opts), CSize value]"

definition SetHardPendingCompactionBytesLimit :: "'d cfuns \<Rightarrow> OptionsStruct \<Rightarrow> uint64 \<Rightarrow> ('d, unit) cop" where
  "SetHardPendingCompactionBytesLimit F opts value = cset F ''rocksdb_options_set_hard_pending_compaction_bytes_limit'' [CPtr (opt_c opts), CSize value]"

definition SetDeleteObsoleteFilesPeriodMicros :: "'d cfuns \<Rightarrow> OptionsStruct \<Rightarrow> uint64 \<Rightarrow> ('d, unit) cop" where
  "SetDeleteObsoleteFilesPeriodMicros F opts value = cset F ''rocksdb_options_set_delete_obsolete_files_period_micros'' [CPtr (opt_c opts), CUInt64 value]"

definition SetMaxBackgroundCompactions :: "'d cfuns \<Rightarrow> OptionsStruct \<Rightarrow> goint \<Rightarrow> ('d, unit) cop" where
  "SetMaxBackgroundCompactions F opts value = cset F ''rocksdb_options_set_max_background_compactions'' [CPtr (opt_c opts), CInt (ucast value)]"

definition SetMaxBackgroundFlushes :: "'d cfuns \<Rightarrow> OptionsStruct \<Rightarrow> goint \<Rightarrow> ('d, unit) cop" where
  "SetMaxBackgroundFlushes F opts value = cset F ''rocksdb_options_set_max_background_flushes'' [CPtr (opt_c opts), CInt (ucast value)]"

definition SetMaxLogFileSize :: "'d cfuns \<Rightarrow> OptionsStruct \<Rightarrow> goint \<Rightarrow> ('d, unit) cop" where
  "SetMaxLogFileSize F opts value = cset F ''rocksdb_options_set_max_log_file_size'' [CPtr (opt_c opts), CSize value]"

definition SetLogFileTimeToRoll :: "'d cfuns \<Rightarrow> OptionsStruct \<Rightarrow> goint \<Rightarrow> ('d, unit) cop" where
  "SetLogFileTimeToRoll F opts value = cset F ''rocksdb_options_set_log_file_time_to_roll'' [CPtr (opt_c opts), CSize value]"

definition SetKeepLogFileNum :: "'d cfuns \<Rightarrow> OptionsStruct \<Rightarrow> goint \<Rightarrow> ('d, unit) cop" where
  "SetKeepLogFileNum F opts value = cset F ''rocksdb_options_set_keep_log_file_num'' [CPtr (opt_c opts), CSize value]"

definition SetSoftRateLimit :: "'d cfuns \<Rightarrow> OptionsStruct \<Rightarrow> float64 \<Rightarrow> ('d, unit) cop" where
  "SetSoftRateLimit F opts value = cset F ''rocksdb_options_set_soft_rate_limit'' [CPtr (opt_c opts), CDouble value]"

definition SetHardRateLimit :: "'d cfuns \<Rightarrow> OptionsStruct \<Rightarrow> float64 \<Rightarrow> ('d, unit) cop" where
  "SetHardRateLimit F opts value = cset F ''rocksdb_options_set_hard_rate_limit'' [CPtr (opt_c opts), CDouble value]"

definition SetRateLimitDelayMaxMilliseconds :: "'d cfuns \<Rightarrow> OptionsStruct \<Rightarrow> goint \<Rightarrow> ('d, unit) cop" where
  "SetRateLimitDelayMaxMilliseconds F opts value = cset F ''rocksdb_options_set_rate_limit_delay_max_milliseconds'' [CPtr (opt_c opts), CUInt (ucast value)]"

definition SetMaxManifestFileSize :: "'d cfuns \<Rightarrow> OptionsStruct \<Rightarrow> uint64 \<Rightarrow> ('d, unit) cop" where
  "SetMaxManifestFileSize F opts value = cset F ''rocksdb_options_set_max_manifest_file_size'' [CPtr (opt_c opts), CSize value]"

definition SetTableCacheNumshardbits :: "'d cfuns \<Rightarrow> OptionsStruct \<Rightarrow> goint \<Rightarrow> ('d, unit) cop" where
  "SetTableCacheNumshardbits F opts value = cset F ''rocksdb_options_set_table_cache_numshardbits'' [CPtr (opt_c opts), CInt (ucast value)]"

definition SetTableCacheRemoveScanCountLimit :: "'d cfuns \<Rightarrow> OptionsStruct \<Rightarrow> goint \<Rightarrow> ('d, unit) cop" where
  "SetTableCacheRemoveScanCountLimit F opts value = cset F ''rocksdb_options_set_table_cache_remove_scan_count_limit'' [CPtr (opt_c opts), CInt (ucast value)]"

definition SetArenaBlockSize :: "'d cfuns \<Rightarrow> OptionsStruct \<Rightarrow> goint \<Rightarrow> ('d, unit) cop" where
  "SetArenaBlockSize F opts value = cset F ''rocksdb_options_set_arena_block_size'' [CPtr (opt_c opts), CSize value]"

definition SetDisableAutoCompactions :: "'d cfuns \<Rightarrow> OptionsStruct \<Rightarrow> bool \<Rightarrow> ('d, unit) cop" where
  "SetDisableAutoCompactions F opts value = cset F ''rocksdb_options_set_disable_auto_compactions'' [CPtr (opt_c opts), CInt (word_of_int (btoi value))]"

definition SetWALTtlSeconds :: "'d cfuns \<Rightarrow> OptionsStruct \<Rightarrow> uint64 \<Rightarrow> ('d, unit) cop" where
  "SetWALTtlSeconds F opts value = cset F ''rocksdb_options_set_WAL_ttl_seconds'' [CPtr (opt_c opts), CUInt64 value]"

definition SetWalSizeLimitMb :: "'d cfuns \<Rightarrow> OptionsStruct \<Rightarrow> uint64 \<Rightarrow> ('d, unit) cop" where
  "SetWalSizeLimitMb F opts value = cset F ''rocksdb_options_set_WAL_size_limit_MB'' [CPtr (opt_c opts), CUInt64 value]"

definition SetManifestPreallocationSize :: "'d cfuns \<Rightarrow> OptionsStruct \<Rightarrow> goint \<Rightarrow> ('d, unit) cop" where
  "SetManifestPreallocationSize F opts value = cset F ''rocksdb_options_set_manifest_preallocation_size'' [CPtr (opt_c opts), CSize value]"

definition SetPurgeRedundantKvsWhileFlush :: "'d cfuns \<Rightarrow> OptionsStruct \<Rightarrow> bool \<Rightarrow> ('d, unit) cop" where
  "SetPurgeRedundantKvsWhileFlush F opts value = cset F ''rocksdb_options_set_purge_redundant_kvs_while_flush'' [CPtr (opt_c opts), CUChar (boolToChar value)]"

definition SetAllowMmapReads :: "'d cfuns \<Rightarrow> OptionsStruct \<Rightarrow> bool \<Rightarrow> ('d, unit) cop" where
  "SetAllowMmapReads F opts value = cset F ''rocksdb_options_set_allow_mmap_reads'' [CPtr (opt_c opts), CUChar (boolToChar value)]"

definition SetAllowMmapWrites :: "'d cfuns \<Rightarrow> OptionsStruct \<Rightarrow> bool \<Rightarrow> ('d, unit) cop" where
  "SetAllowMmapWrites F opts value = cset F ''rocksdb_options_set_allow_mmap_writes'' [CPtr (opt_c opts), CUChar (boolToChar value)]"

definition SetUseDirectReads :: "'d cfuns \<Rightarrow> OptionsStruct \<Rightarrow> bool \<Rightarrow> ('d, unit) cop" where
  "SetUseDirectReads F opts value = cset F ''rocksdb_options_set_use_direct_reads'' [CPtr (opt_c opts), CUChar (boolToChar value)]"

definition SetUseDirectIOForFlushAndCompaction :: "'d cfuns \<Rightarrow> OptionsStruct \<Rightarrow> bool \<Rightarrow> ('d, unit) cop" where
  "SetUseDirectIOForFlushAndCompaction F opts value = cset F ''rocksdb_options_set_use_direct_io_for_flush_and_compaction'' [CPtr (opt_c opts), CUChar (boolToChar value)]"

definition SetIsFdCloseOnExec :: "'d cfuns \<Rightarrow> OptionsStruct \<Rightarrow> bool \<Rightarrow> ('d, unit) cop" where
  "SetIsFdCloseOnExec F opts value = cset F ''rocksdb_options_set_is_fd_close_on_exec'' [CPtr (opt_c opts), CUChar (boolToChar value)]"

definition SetSkipLogErrorOnRecovery :: "'d cfuns \<Rightarrow> OptionsStruct \<Rightarrow> bool \<Rightarrow> ('d, unit) cop" where
  "SetSkipLogErrorOnRecovery F opts value = cset F ''rocksdb_options_set_skip_log_error_on_recovery'' [CPtr (opt_c opts), CUChar (boolToChar value)]"

definition SetStatsDumpPeriodSec :: "'d cfuns \<Rightarrow> OptionsStruct \<Rightarrow> goint \<Rightarrow> ('d, unit) cop" where
  "SetStatsDumpPeriodSec F opts value = cset F ''rocksdb_options_set_stats_dump_period_sec'' [CPtr (opt_c opts), CUInt (ucast value)]"

definition SetAdviseRandomOnOpen :: "'d cfuns \<Rightarrow> OptionsStruct \<Rightarrow> bool \<Rightarrow> ('d, unit) cop" where
  "SetAdviseRandomOnOpen F opts value = cset F ''rocksdb_options_set_advise_random_on_open'' [CPtr (opt_c opts), CUChar (boolToChar value)]"

definition SetDbWriteBufferSize :: "'d cfuns \<Rightarrow> OptionsStruct \<Rightarrow> goint \<Rightarrow> ('d, unit) cop" where
  "SetDbWriteBufferSize F opts value = cset F ''rocksdb_options_set_db_write_buffer_size'' [CPtr (opt_c opts), CSize value]"

definition SetAccessHintOnCompactionStart :: "'d cfuns \<Rightarrow> OptionsStruct \<Rightarrow> goint \<Rightarrow> ('d, unit) cop" where
  "SetAccessHintOnCompactionStart F opts value = cset F ''rocksdb_options_set_access_hint_on_compaction_start'' [CPtr (opt_c opts), CInt (ucast value)]"

definition SetUseAdaptiveMutex :: "'d cfuns \<Rightarrow> OptionsStruct \<Rightarrow> bool \<Rightarrow> ('d, unit) cop" where
  "SetUseAdaptiveMutex F opts value = cset F ''rocksdb_options_set_use_adaptive_mutex'' [CPtr (opt_c opts), CUChar (boolToChar value)]"

definition SetBytesPerSync :: "'d cfuns \<Rightarrow> OptionsStruct \<Rightarrow> uint64 \<Rightarrow> ('d, unit) cop" where
  "SetBytesPerSync F opts value = cset F ''rocksdb_options_set_bytes_per_sync'' [CPtr (opt_c opts), CUInt64 value]"

definition SetCompactionStyle :: "'d cfuns \<Rightarrow> OptionsStruct \<Rightarrow> goint \<Rightarrow> ('d, unit) cop" where
  "SetCompactionStyle F opts value = cset F ''rocksdb_options_set_compaction_style'' [CPtr (opt_c opts), CInt (ucast value)]"

definition SetUniversalCompactionOptions :: "'d cfuns \<Rightarrow> OptionsStruct \<Rightarrow> UniversalCompactionOptions \<Rightarrow> ('d, unit) cop" where
  "SetUniversalCompactionOptions F opts value = cset F ''rocksdb_options_set_universal_compaction_options'' [CPtr (opt_c opts), CPtr (uco_c value)]"

definition SetFIFOCompactionOptions :: "'d cfuns \<Rightarrow> OptionsStruct \<Rightarrow> FIFOCompactionOptions \<Rightarrow> ('d, unit) cop" where
  "SetFIFOCompactionOptions F opts value = cset F ''rocksdb_options_set_fifo_compaction_options'' [CPtr (opt_c opts), CPtr (fco_c value)]"

definition SetRateLimiter :: "'d cfuns \<Rightarrow> OptionsStruct \<Rightarrow> RateLimiter \<Rightarrow> ('d, unit) cop" where
  "SetRateLimiter F opts rateLimiter = cset F ''rocksdb_options_set_ratelimiter'' [CPtr (opt_c opts), CPtr (rl_c rateLimiter)]"

definition SetMaxSequentialSkipInIterations :: "'d cfuns \<Rightarrow> OptionsStruct \<Rightarrow> uint64 \<Rightarrow> ('d, unit) cop" where
  "SetMaxSequentialSkipInIterations F opts value = cset F ''rocksdb_options_set_max_sequential_skip_in_iterations'' [CPtr (opt_c opts), CUInt64 value]"

definition SetInplaceUpdateSupport :: "'d cfuns \<Rightarrow> OptionsStruct \<Rightarrow> bool \<Rightarrow> ('d, unit) cop" where
  "SetInplaceUpdateSupport F opts value = cset F ''rocksdb_options_set_inplace_update_support'' [CPtr (opt_c opts), CUChar (boolToChar value)]"

definition SetInplaceUpdateNumLocks :: "'d cfuns \<Rightarrow> OptionsStruct \<Rightarrow> goint \<Rightarrow> ('d, unit) cop" where
  "SetInplaceUpdateNumLocks F opts value = cset F ''rocksdb_options_set_inplace_update_num_locks'' [CPtr (opt_c opts), CSize value]"

definition SetMemtableHugePageSize :: "'d cfuns \<Rightarrow> OptionsStruct \<Rightarrow> goint \<Rightarrow> ('d, unit) cop" where
  "SetMemtableHugePageSize F opts value = cset F ''rocksdb_options_set_memtable_huge_page_size'' [CPtr (opt_c opts), CSize value]"

definition SetBloomLocality :: "'d cfuns \<Rightarrow> OptionsStruct \<Rightarrow> 32 word \<Rightarrow> ('d, unit) cop" where
  "SetBloomLocality F opts value = cset F ''rocksdb_options_set_bloom_locality'' [CPtr (opt_c opts), CUInt32 value]"

definition SetMaxSuccessiveMerges :: "'d cfuns \<Rightarrow> OptionsStruct \<Rightarrow> goint \<Rightarrow> ('d, unit) cop" where
  "SetMaxSuccessiveMerges F opts value = cset F ''rocksdb_options_set_max_successive_merges'' [CPtr (opt_c opts), CSize value]"

definition EnableStatistics :: "'d cfuns \<Rightarrow> OptionsStruct \<Rightarrow> ('d, unit) cop" where
  "EnableStatistics F opts = cset F ''rocksdb_options_enable_statistics'' [CPtr (opt_c opts)]"

definition PrepareForBulkLoad :: "'d cfuns \<Rightarrow> OptionsStruct \<Rightarrow> ('d, unit) cop" where
  "PrepareForBulkLoad F opts = cset F ''rocksdb_options_prepare_for_bulk_load'' [CPtr (opt_c opts)]"

definition SetMemtableVectorRep :: "'d cfuns \<Rightarrow> OptionsStruct \<Rightarrow> ('d, unit) cop" where
  "SetMemtableVectorRep F opts = cset F ''rocksdb_options_set_memtable_vector_rep'' [CPtr (opt_c opts)]"

definition SetHashSkipListRep :: "'d cfuns \<Rightarrow> OptionsStruct \<Rightarrow> goint \<Rightarrow> 32 word \<Rightarrow> 32 word \<Rightarrow> ('d, unit) cop" where
  "SetHashSkipListRep F opts bucketCount skiplistHeight skiplistBranchingFactor = cset F ''rocksdb_options_set_hash_skip_list_rep'' [CPtr (opt_c opts), CSize bucketCount, CInt32 skiplistHeight, CInt32 skiplistBranchingFactor]"

definition SetHashLinkListRep :: "'d cfuns \<Rightarrow> OptionsStruct \<Rightarrow> goint \<Rightarrow> ('d, unit) cop" where
  "SetHashLinkListRep F opts bucketCount = cset F ''rocksdb_options_set_hash_link_list_rep'' [CPtr (opt_c opts), CSize bucketCount]"

definition SetPlainTableFactory :: "'d cfuns \<Rightarrow> OptionsStruct \<Rightarrow> 32 word \<Rightarrow> goint \<Rightarrow> float64 \<Rightarrow> goint \<Rightarrow> ('d, unit) cop" where
  "SetPlainTableFactory F opts keyLen bloomBitsPerKey hashTableRatio indexSparseness = cset F ''rocksdb_options_set_plain_table_factory'' [CPtr (opt_c opts), CUInt32 keyLen, CInt (ucast bloomBitsPerKey), CDouble hashTableRatio, CSize indexSparseness]"

definition SetCreateIfMissingColumnFamilies :: "'d cfuns \<Rightarrow> OptionsStruct \<Rightarrow> bool \<Rightarrow> ('d, unit) cop" where
  "SetCreateIfMissingColumnFamilies F opts value = cset F ''rocksdb_options_set_create_missing_column_families'' [CPtr (opt_c opts), CUChar (boolToChar value)]"

definition SetAllowIngestBehind :: "'d cfuns \<Rightarrow> OptionsStruct \<Rightarrow> bool \<Rightarrow> ('d, unit) cop" where
  "SetAllowIngestBehind F opts value = cset F ''rocksdb_options_set_allow_ingest_behind'' [CPtr (opt_c opts), CUChar (boolToChar value)]"

section \<open>Releasing\<close>

definition Options_Destroy :: "'d cfuns \<Rightarrow> OptionsStruct \<Rightarrow> ('d, OptionsStruct) cop" where
  "Options_Destroy F opts =
     andThen (cset F ''rocksdb_options_destroy'' [CPtr (opt_c opts)]) (\<lambda>_.
     andThen (if opt_ccmp opts \<noteq> 0 then cset F ''rocksdb_comparator_destroy'' [CPtr (opt_ccmp opts)] else ret ()) (\<lambda>_.
     andThen (if opt_cst opts \<noteq> 0 then cset F ''rocksdb_slicetransform_destroy'' [CPtr (opt_cst opts)] else ret ()) (\<lambda>_.
     andThen (if opt_ccf opts \<noteq> 0 then cset F ''rocksdb_compactionfilter_destroy'' [CPtr (opt_ccf opts)] else ret ()) (\<lambda>_.
     ret (opts\<lparr>opt_c := 0, opt_env := None, opt_bbto := None\<rparr>)))))"

section \<open>Which values reach the library\<close>

text \<open>
  The settings that the library takes as a 32 bit number while Go has 64 bits: the function of C
  that each calls, and the setter.
\<close>

definition narrowSettings :: "'d cfuns \<Rightarrow> OptionsStruct \<Rightarrow> (string \<times> (goint \<Rightarrow> ('d, unit) cop)) list" where
  "narrowSettings F opts =
    [(''rocksdb_options_set_info_log_level'', SetInfoLogLevel F opts),
     (''rocksdb_options_increase_parallelism'', IncreaseParallelism F opts),
     (''rocksdb_options_set_max_write_buffer_number'', SetMaxWriteBufferNumber F opts),
     (''rocksdb_options_set_min_write_buffer_number_to_merge'', SetMinWriteBufferNumberToMerge F opts),
     (''rocksdb_options_set_max_open_files'', SetMaxOpenFiles F opts),
     (''rocksdb_options_set_max_file_opening_threads'', SetMaxFileOpeningThreads F opts),
     (''rocksdb_options_set_compression'', SetCompression F opts),
     (''rocksdb_options_set_min_level_to_compress'', SetMinLevelToCompress F opts),
     (''rocksdb_options_set_num_levels'', SetNumLevels F opts),
     (''rocksdb_options_set_level0_file_num_compaction_trigger'', SetLevel0FileNumCompactionTrigger F opts),
     (''rocksdb_options_set_level0_slowdown_writes_trigger'', SetLevel0SlowdownWritesTrigger F opts),
     (''rocksdb_options_set_level0_stop_writes_trigger'', SetLevel0StopWritesTrigger F opts),
     (''rocksdb_options_set_max_mem_compaction_level'', SetMaxMemCompactionLevel F opts),
     (''rocksdb_options_set_target_file_size_multiplier'', SetTargetFileSizeMultiplier F opts),
     (''rocksdb_options_set_max_background_compactions'', SetMaxBackgroundCompactions F opts),
     (''rocksdb_options_set_max_background_flushes'', SetMaxBackgroundFlushes F opts),
     (''rocksdb_options_set_table_cache_numshardbits'', SetTableCacheNumshardbits F opts),
     (''rocksdb_options_set_table_cache_remove_scan_count_limit'', SetTableCacheRemoveScanCountLimit F opts),
     (''rocksdb_options_set_access_hint_on_compaction_start'', SetAccessHintOnCompactionStart F opts),
     (''rocksdb_options_set_compaction_style'', SetCompactionStyle F opts)]"

text \<open>The last argument that C gets in a call: two calls that give it the same lead to the same state.\<close>

lemma narrow_call:
  "(name, setter) \<in> set (narrowSettings F opts) \<Longrightarrow> setter v = cset F name [CPtr (opt_c opts), CInt (ucast v)]"
  unfolding narrowSettings_def
  by (simp only: list.set insert_iff empty_iff prod.inject)
    (elim disjE conjE; simp add: SetInfoLogLevel_def IncreaseParallelism_def SetMaxWriteBufferNumber_def
      SetMinWriteBufferNumberToMerge_def SetMaxOpenFiles_def SetMaxFileOpeningThreads_def SetCompression_def
      SetMinLevelToCompress_def SetNumLevels_def SetLevel0FileNumCompactionTrigger_def
      SetLevel0SlowdownWritesTrigger_def SetLevel0StopWritesTrigger_def SetMaxMemCompactionLevel_def
      SetTargetFileSizeMultiplier_def SetMaxBackgroundCompactions_def SetMaxBackgroundFlushes_def
      SetTableCacheNumshardbits_def SetTableCacheRemoveScanCountLimit_def SetAccessHintOnCompactionStart_def
      SetCompactionStyle_def)

lemma sint_ucast32_iff:
  "sint (ucast (v :: goint) :: 32 word) = sint v \<longleftrightarrow> - (2 ^ 31) \<le> sint v \<and> sint v < 2 ^ 31"
proof -
  have "sint (ucast v :: 32 word) = signed_take_bit 31 (sint v)"
    by transfer (simp add: signed_take_bit_take_bit)
  then show ?thesis by (simp add: signed_take_bit_int_eq_self_iff)
qed

section \<open>Which objects the library calls back\<close>

text \<open>
  A Go object is registered, the library makes an object for the index under which the callbacks
  find it, and the options are set to this object; all else that changes is the C string of the name.
\<close>

lemma SetComparator_run:
  assumes "F ''gorocksdb_comparator_create'' [CUintptr (length (cow_v reg))] (lib h) = (p, d1)"
    and "F ''rocksdb_options_set_comparator'' [CPtr (opt_c opts), CPtr p] d1 = (q, d2)"
  shows "\<exists>reg' w h'. SetComparator F reg opts (GoObject c) h = (Ok (reg', opts\<lparr>opt_ccmp := p\<rparr>), h') \<and> lib h' = d2
    \<and> Get reg' (int (length (cow_v reg))) = Some w \<and> cmp_comparator w = c"
  using assms by (simp add: SetComparator_def registerComperator_def CString_def malloc_def Append_def Let_def andThen_apply
      ret_apply ccall_apply cset_apply Get_def)

lemma SetCompactionFilter_run:
  assumes "F ''gorocksdb_compactionfilter_create'' [CUintptr (length (cow_v reg))] (lib h) = (p, d1)"
    and "F ''rocksdb_options_set_compaction_filter'' [CPtr (opt_c opts), CPtr p] d1 = (q, d2)"
  shows "\<exists>reg' w h'. SetCompactionFilter F reg opts (GoObject c) h = (Ok (reg', opts\<lparr>opt_ccf := p\<rparr>), h') \<and> lib h' = d2
    \<and> Get reg' (int (length (cow_v reg))) = Some w \<and> cof_filter w = c"
  using assms by (simp add: SetCompactionFilter_def registerCompactionFilter_def CString_def malloc_def Append_def Let_def
      andThen_apply ret_apply ccall_apply cset_apply Get_def)

lemma SetPrefixExtractor_run:
  assumes "F ''gorocksdb_slicetransform_create'' [CUintptr (length (cow_v reg))] (lib h) = (p, d1)"
    and "F ''rocksdb_options_set_prefix_extractor'' [CPtr (opt_c opts), CPtr p] d1 = (q, d2)"
  shows "\<exists>reg' w h'. SetPrefixExtractor F reg opts (GoObject c) h = (Ok (reg', opts\<lparr>opt_cst := p\<rparr>), h') \<and> lib h' = d2
    \<and> Get reg' (int (length (cow_v reg))) = Some w \<and> st_sliceTransform w = c"
  using assms by (simp add: SetPrefixExtractor_def registerSliceTransform_def CString_def malloc_def Append_def Let_def
      andThen_apply ret_apply ccall_apply cset_apply Get_def)

lemma SetMergeOperator_run:
  assumes "F ''gorocksdb_mergeoperator_create'' [CUintptr (length (cow_v reg))] (lib h) = (p, d1)"
    and "F ''rocksdb_options_set_merge_operator'' [CPtr (opt_c opts), CPtr p] d1 = (q, d2)"
  shows "\<exists>reg' w h'. SetMergeOperator F reg opts (GoObject c) h = (Ok (reg', opts\<lparr>opt_cmo := p\<rparr>), h') \<and> lib h' = d2
    \<and> Get reg' (int (length (cow_v reg))) = Some w \<and> mo_mergeOperator w = c"
  using assms by (simp add: SetMergeOperator_def registerMergeOperator_def CString_def malloc_def Append_def Let_def
      andThen_apply ret_apply ccall_apply cset_apply Get_def)

lemma SetFilterPolicy_run:
  assumes "F ''gorocksdb_filterpolicy_create'' [CUintptr (length (cow_v reg))] (lib h) = (p, d1)"
    and "F ''rocksdb_block_based_options_set_filter_policy'' [CPtr (bbto_c opts), CPtr p] d1 = (q, d2)"
  shows "\<exists>reg' w h'. SetFilterPolicy F reg opts (GoObject c) h = (Ok (reg', opts\<lparr>bbto_cFp := p\<rparr>), h') \<and> lib h' = d2
    \<and> Get reg' (int (length (cow_v reg))) = Some w \<and> fp_filterPolicy w = c"
  using assms by (simp add: SetFilterPolicy_def registerFilterPolicy_def CString_def malloc_def Append_def Let_def
      andThen_apply ret_apply ccall_apply cset_apply Get_def)

text \<open>A native object is passed on, and nothing is registered.\<close>

lemma Set_native:
  "SetComparator F rc opts (Native p) h = (Ok (rc, opts\<lparr>opt_ccmp := p\<rparr>),
     h\<lparr>lib := snd (F ''rocksdb_options_set_comparator'' [CPtr (opt_c opts), CPtr p] (lib h))\<rparr>)"
  "SetCompactionFilter F rf opts (Native p) h = (Ok (rf, opts\<lparr>opt_ccf := p\<rparr>),
     h\<lparr>lib := snd (F ''rocksdb_options_set_compaction_filter'' [CPtr (opt_c opts), CPtr p] (lib h))\<rparr>)"
  "SetPrefixExtractor F rs opts (Native p) h = (Ok (rs, opts\<lparr>opt_cst := p\<rparr>),
     h\<lparr>lib := snd (F ''rocksdb_options_set_prefix_extractor'' [CPtr (opt_c opts), CPtr p] (lib h))\<rparr>)"
  "SetMergeOperator F rm opts (Native p) h = (Ok (rm, opts\<lparr>opt_cmo := p\<rparr>),
     h\<lparr>lib := snd (F ''rocksdb_options_set_merge_operator'' [CPtr (opt_c opts), CPtr p] (lib h))\<rparr>)"
  by (simp_all add: SetComparator_def SetCompactionFilter_def SetPrefixExtractor_def SetMergeOperator_def andThen_apply
      ret_apply cset_apply)

section \<open>What is released\<close>

text \<open>
  The objects of the library: those that are alive, those that another one owns, and whether one
  was released that was not alive. Creating gives a new object. Options own the merge operator and
  the prefix extractor that are set on them, which they hold by shared pointers, and release them
  with themselves or when another one is set; comparators and compaction filters they only refer to.
\<close>

locale options_library =
  fixes F :: "'d cfuns" and alive :: "'d \<Rightarrow> nat set" and owns :: "'d \<Rightarrow> nat \<Rightarrow> nat set" and faulty :: "'d \<Rightarrow> bool"
  assumes creates: "name \<in> {''rocksdb_options_create'', ''gorocksdb_comparator_create'', ''gorocksdb_mergeoperator_create'',
        ''gorocksdb_slicetransform_create'', ''gorocksdb_compactionfilter_create''} \<Longrightarrow> F name args d = (p, d') \<Longrightarrow>
      p \<noteq> 0 \<and> p \<notin> alive d \<and> alive d' = insert p (alive d) \<and> owns d' = (owns d)(p := {}) \<and> faulty d' = faulty d"
    and refers: "name \<in> {''rocksdb_options_set_comparator'', ''rocksdb_options_set_compaction_filter''} \<Longrightarrow>
      F name [CPtr obj, CPtr p] d = (r, d') \<Longrightarrow> alive d' = alive d \<and> owns d' = owns d \<and> faulty d' = faulty d"
    and adopts: "name \<in> {''rocksdb_options_set_merge_operator'', ''rocksdb_options_set_prefix_extractor''} \<Longrightarrow>
      F name [CPtr obj, CPtr p] d = (r, d') \<Longrightarrow> p \<in> owns d' obj \<and> owns d' obj \<subseteq> insert p (owns d obj)
        \<and> (\<forall>q. q \<noteq> obj \<longrightarrow> owns d' q = owns d q)
        \<and> alive d' \<subseteq> alive d \<and> alive d - owns d obj \<subseteq> alive d' \<and> faulty d' = faulty d"
    and destroys_options: "F ''rocksdb_options_destroy'' [CPtr obj] d = (r, d') \<Longrightarrow> obj \<in> alive d \<Longrightarrow>
      alive d' = alive d - insert obj (owns d obj) \<and> faulty d' = faulty d"
    and destroys: "name \<in> {''rocksdb_comparator_destroy'', ''rocksdb_slicetransform_destroy'', ''rocksdb_compactionfilter_destroy''} \<Longrightarrow>
      F name [CPtr p] d = (r, d') \<Longrightarrow> alive d' = alive d - {p} \<and> (faulty d' \<longleftrightarrow> faulty d \<or> p \<notin> alive d)"

text \<open>
  The life of an options object with a comparator, a compaction filter and perhaps a prefix
  extractor, all Go objects.
\<close>

definition optionsLife :: "'d cfuns \<Rightarrow> comperatorWrapper COWList \<Rightarrow> compactionFilterWrapper COWList \<Rightarrow> sliceTransformWrapper COWList
    \<Rightarrow> Comparator \<Rightarrow> CompactionFilter \<Rightarrow> SliceTransform option \<Rightarrow> ('d, OptionsStruct) cop" where
  "optionsLife F comperators compactionFilters sliceTransforms cmp cf pre =
     andThen (Options_NewDefault F) (\<lambda>opts.
     andThen (SetComparator F comperators opts (GoObject cmp)) (\<lambda>(_, opts).
     andThen (SetCompactionFilter F compactionFilters opts (GoObject cf)) (\<lambda>(_, opts).
     andThen (case pre of None \<Rightarrow> ret opts
              | Some st \<Rightarrow> andThen (SetPrefixExtractor F sliceTransforms opts (GoObject st)) (\<lambda>(_, opts). ret opts)) (\<lambda>opts.
     Options_Destroy F opts))))"

context options_library
begin

lemma Options_Destroy_effect:
  assumes o: "opt_c opts \<in> alive (lib h)" and run: "Options_Destroy F opts h = (x, h')"
    and cmp: "opt_ccmp opts \<noteq> 0" "opt_ccmp opts \<in> alive (lib h)" "opt_ccmp opts \<notin> insert (opt_c opts) (owns (lib h) (opt_c opts))"
    and cf: "opt_ccf opts \<noteq> 0" "opt_ccf opts \<in> alive (lib h)" "opt_ccf opts \<notin> insert (opt_c opts) (owns (lib h) (opt_c opts))"
    and ne: "opt_ccf opts \<noteq> opt_ccmp opts" "opt_cst opts \<noteq> opt_ccf opts"
    and st: "opt_cst opts = 0 \<or> opt_cst opts \<in> owns (lib h) (opt_c opts)"
  shows "alive (lib h') = alive (lib h) - (insert (opt_c opts) (owns (lib h) (opt_c opts)) \<union> {opt_ccmp opts, opt_ccf opts})
    \<and> (faulty (lib h') \<longleftrightarrow> faulty (lib h) \<or> opt_cst opts \<noteq> 0)"
proof -
  obtain r1 d1 where f1: "F ''rocksdb_options_destroy'' [CPtr (opt_c opts)] (lib h) = (r1, d1)" by (metis surj_pair)
  obtain r2 d2 where f2: "F ''rocksdb_comparator_destroy'' [CPtr (opt_ccmp opts)] d1 = (r2, d2)" by (metis surj_pair)
  obtain r3 d3 where f3: "F ''rocksdb_slicetransform_destroy'' [CPtr (opt_cst opts)] d2 = (r3, d3)" by (metis surj_pair)
  define d3' where "d3' = (if opt_cst opts \<noteq> 0 then d3 else d2)"
  obtain r4 d4 where f4: "F ''rocksdb_compactionfilter_destroy'' [CPtr (opt_ccf opts)] d3' = (r4, d4)" by (metis surj_pair)
  have h': "lib h' = d4"
    using run cmp(1) cf(1) f1 f2 f3 f4
    by (auto simp: Options_Destroy_def andThen_apply cset_apply ret_apply d3'_def split: if_splits)
  have 1: "alive d1 = alive (lib h) - insert (opt_c opts) (owns (lib h) (opt_c opts))" "faulty d1 = faulty (lib h)"
    using destroys_options [OF f1 o] by auto
  note d2 = destroys [OF _ f2, simplified] and d3 = destroys [OF _ f3, simplified] and d4 = destroys [OF _ f4, simplified]
  have "opt_ccmp opts \<in> alive d1" using cmp 1(1) by simp
  then have 2: "alive d2 = alive d1 - {opt_ccmp opts}" "faulty d2 = faulty d1" using d2 by simp_all
  have "opt_cst opts \<notin> alive d2" if "opt_cst opts \<noteq> 0" using that st 1(1) 2(1) by simp
  then have 3: "alive d3' = alive d2" "faulty d3' \<longleftrightarrow> faulty d2 \<or> opt_cst opts \<noteq> 0"
    using d3 by (cases "opt_cst opts = 0"; simp add: d3'_def)+
  have "opt_ccf opts \<in> alive d3'" using cf ne(1) 1(1) 2(1) 3(1) by simp
  then have 4: "alive d4 = alive d3' - {opt_ccf opts}" "faulty d4 = faulty d3'" using d4 by simp_all
  show ?thesis
    unfolding h' 4 3 2 1 by blast
qed

lemma optionsLife_effect:
  assumes run: "optionsLife F comperators compactionFilters sliceTransforms cmp cf pre h = (x, h')"
  shows "alive (lib h') = alive (lib h) \<and> (faulty (lib h') \<longleftrightarrow> faulty (lib h) \<or> pre \<noteq> None)"
proof -
  obtain p0 d0 where f0: "F ''rocksdb_options_create'' [] (lib h) = (p0, d0)" by (metis surj_pair)
  obtain p1 d1 where f1: "F ''gorocksdb_comparator_create'' [CUintptr (length (cow_v comperators))] d0 = (p1, d1)" by (metis surj_pair)
  obtain r1 e1 where g1: "F ''rocksdb_options_set_comparator'' [CPtr p0, CPtr p1] d1 = (r1, e1)" by (metis surj_pair)
  obtain p2 d2 where f2: "F ''gorocksdb_compactionfilter_create'' [CUintptr (length (cow_v compactionFilters))] e1 = (p2, d2)" by (metis surj_pair)
  obtain r2 e2 where g2: "F ''rocksdb_options_set_compaction_filter'' [CPtr p0, CPtr p2] d2 = (r2, e2)" by (metis surj_pair)
  obtain p3 d3 where f3: "F ''gorocksdb_slicetransform_create'' [CUintptr (length (cow_v sliceTransforms))] e2 = (p3, d3)" by (metis surj_pair)
  obtain r3 e3 where g3: "F ''rocksdb_options_set_prefix_extractor'' [CPtr p0, CPtr p3] d3 = (r3, e3)" by (metis surj_pair)
  note c0 = creates [OF _ f0, simplified] and c1 = creates [OF _ f1, simplified] and c2 = creates [OF _ f2, simplified]
    and c3 = creates [OF _ f3, simplified] and s1 = refers [OF _ g1, simplified] and s2 = refers [OF _ g2, simplified]
    and a3 = adopts [OF _ g3, simplified]
  let ?o0 = "NewNativeOptions p0"
  have new: "Options_NewDefault F h = (Ok ?o0, h\<lparr>lib := d0\<rparr>)"
    by (simp add: Options_NewDefault_def andThen_apply ccall_apply f0 ret_apply)
  have oc [simp]: "opt_c ?o0 = p0" by (simp add: NewNativeOptions_def)
  obtain reg1 h1 where h1: "SetComparator F comperators ?o0 (GoObject cmp) (h\<lparr>lib := d0\<rparr>) = (Ok (reg1, ?o0\<lparr>opt_ccmp := p1\<rparr>), h1)" "lib h1 = e1"
    using SetComparator_run [of F comperators "h\<lparr>lib := d0\<rparr>" p1 d1 ?o0 r1 e1 cmp] f1 g1 by auto
  let ?o2 = "?o0\<lparr>opt_ccmp := p1, opt_ccf := p2\<rparr>"
  obtain reg2 h2 where h2: "SetCompactionFilter F compactionFilters (?o0\<lparr>opt_ccmp := p1\<rparr>) (GoObject cf) h1 = (Ok (reg2, ?o2), h2)" "lib h2 = e2"
    using SetCompactionFilter_run [of F compactionFilters h1 p2 d2 "?o0\<lparr>opt_ccmp := p1\<rparr>" r2 e2 cf] f2 g2 h1(2) by auto
  have fresh: "p0 \<noteq> p1" "p0 \<noteq> p2" "p1 \<noteq> p2" using c0 c1 c2 s1 s2 by auto
  show ?thesis
  proof (cases pre)
    case None
    have "Options_Destroy F ?o2 h2 = (x, h')"
      using run None by (simp add: optionsLife_def andThen_apply new h1 h2 ret_apply)
    moreover have "opt_ccmp ?o2 = p1" "opt_ccf ?o2 = p2" "opt_c ?o2 = p0" "opt_cst ?o2 = 0" by (simp_all add: NewNativeOptions_def)
    moreover have "owns e2 p0 = {}" "alive e2 = insert p2 (insert p1 (insert p0 (alive (lib h))))" "faulty e2 = faulty (lib h)"
      using c0 c1 c2 s1 s2 fresh by auto
    ultimately show ?thesis
      using Options_Destroy_effect [of ?o2 h2 x h'] c0 c1 c2 s1 s2 fresh h2(2) None by auto
  next
    case (Some st)
    let ?o3 = "?o2\<lparr>opt_cst := p3\<rparr>"
    obtain reg3 h3 where h3: "SetPrefixExtractor F sliceTransforms ?o2 (GoObject st) h2 = (Ok (reg3, ?o3), h3)" "lib h3 = e3"
      using SetPrefixExtractor_run [of F sliceTransforms h2 p3 d3 ?o2 r3 e3 st] f3 g3 h2(2) by auto
    have "Options_Destroy F ?o3 h3 = (x, h')"
      using run Some by (simp add: optionsLife_def andThen_apply new h1 h2 h3 ret_apply)
    moreover have "opt_ccmp ?o3 = p1" "opt_ccf ?o3 = p2" "opt_c ?o3 = p0" "opt_cst ?o3 = p3" by (simp_all add: NewNativeOptions_def)
    moreover have fresh3: "p3 \<noteq> p0" "p3 \<noteq> p1" "p3 \<noteq> p2" "p3 \<noteq> 0" "p3 \<notin> alive (lib h)" using c0 c1 c2 c3 s1 s2 by auto
    moreover have d3: "owns d3 p0 = {}" "alive d3 = insert p3 (insert p2 (insert p1 (insert p0 (alive (lib h)))))" "faulty d3 = faulty (lib h)"
      using c0 c1 c2 c3 s1 s2 fresh fresh3 by auto
    moreover have "owns e3 p0 = {p3}" "alive e3 = alive d3" "faulty e3 = faulty d3"
      using a3 d3(1) by auto
    ultimately show ?thesis
      using Options_Destroy_effect [of ?o3 h3 x h'] c0 c1 c2 s1 s2 fresh h3(2) Some by auto
  qed
qed

end

text \<open>A library whose state is the list of its objects.\<close>

record objects =
  objs :: "nat list"
  ownedBy :: "nat \<Rightarrow> nat list"
  freedDead :: bool

definition creators :: "string list" where
  "creators = [''rocksdb_options_create'', ''gorocksdb_comparator_create'', ''gorocksdb_mergeoperator_create'',
     ''gorocksdb_slicetransform_create'', ''gorocksdb_compactionfilter_create'']"

definition destructors :: "string list" where
  "destructors = [''rocksdb_comparator_destroy'', ''rocksdb_slicetransform_destroy'', ''rocksdb_compactionfilter_destroy'']"

definition refObjects :: "objects cfuns" where
  "refObjects name args d =
     (if name \<in> set creators
      then (let p = Suc (foldr max (objs d) 0) in (p, d\<lparr>objs := p # objs d, ownedBy := (ownedBy d)(p := [])\<rparr>))
      else (case args of
          [CPtr obj, CPtr p] \<Rightarrow>
            if name = ''rocksdb_options_set_merge_operator'' \<or> name = ''rocksdb_options_set_prefix_extractor''
            then (0, d\<lparr>ownedBy := (ownedBy d)(obj := p # ownedBy d obj)\<rparr>) else (0, d)
        | [CPtr obj] \<Rightarrow>
            if name = ''rocksdb_options_destroy''
            then (0, d\<lparr>objs := filter (\<lambda>q. q \<noteq> obj \<and> q \<notin> set (ownedBy d obj)) (objs d)\<rparr>)
            else if name \<in> set destructors
            then (0, d\<lparr>objs := filter (\<lambda>q. q \<noteq> obj) (objs d), freedDead := (freedDead d \<or> obj \<notin> set (objs d))\<rparr>)
            else (0, d)
        | _ \<Rightarrow> (0, d)))"

lemma foldr_max_ge: "x \<in> set xs \<Longrightarrow> x \<le> foldr max xs (0 :: nat)"
  by (induction xs) auto

lemma fresh_object: "Suc (foldr max xs 0) \<notin> set xs"
  using foldr_max_ge [of "Suc (foldr max xs 0)" xs] by auto

interpretation refObjects: options_library refObjects "\<lambda>d. set (objs d)" "\<lambda>d q. set (ownedBy d q)" freedDead
proof (unfold_locales, goal_cases)
  case (1 name args d p d')
  then have "name \<in> set creators" by (auto simp: creators_def)
  with 1 fresh_object [of "objs d"] show ?case by (auto simp: refObjects_def Let_def fun_eq_iff)
next
  case (2 name obj p d r d')
  then have "name \<notin> set creators" "name \<noteq> ''rocksdb_options_set_merge_operator''"
    "name \<noteq> ''rocksdb_options_set_prefix_extractor''" by (auto simp: creators_def)
  with 2 show ?case by (simp add: refObjects_def)
next
  case (3 name obj p d r d')
  then have "name \<notin> set creators" by (auto simp: creators_def)
  with 3 show ?case by (auto simp: refObjects_def)
next
  case (4 obj d r d')
  have "''rocksdb_options_destroy'' \<notin> set creators" by (simp add: creators_def)
  with 4 show ?case by (auto simp: refObjects_def)
next
  case (5 name p d r d')
  have n: "name \<notin> set creators" "name \<noteq> ''rocksdb_options_destroy''" "name \<in> set destructors"
    using 5(1) by (elim insertE emptyE; simp add: creators_def destructors_def)+
  have "d' = d\<lparr>objs := filter (\<lambda>q. q \<noteq> p) (objs d), freedDead := (freedDead d \<or> p \<notin> set (objs d))\<rparr>"
    using 5(2) n by (simp add: refObjects_def)
  then show ?case by auto
qed

section \<open>Properties\<close>

text \<open>
  A setting is narrowed silently. Of the settings that are 32 bit numbers in C, each setter hands
  over its value exactly when it lies between \<open>- 2\<^sup>3\<^sup>1\<close> and \<open>2\<^sup>3\<^sup>1 - 1\<close>, and cannot be told from the setter called
  with any other value that has the same lower 32 bits: there is no check and no error.
\<close>

theorem settings_narrowed:
  assumes "(name, setter) \<in> set (narrowSettings F opts)"
  shows "\<exists>n :: 32 word. setter v h = (Ok (), h\<lparr>lib := snd (F name [CPtr (opt_c opts), CInt n] (lib h))\<rparr>)
    \<and> (sint n = sint v \<longleftrightarrow> - (2 ^ 31) \<le> sint v \<and> sint v < 2 ^ 31)
    \<and> setter (ucast n) h = setter v h"
proof (intro exI [of _ "ucast v"] conjI)
  show "setter v h = (Ok (), h\<lparr>lib := snd (F name [CPtr (opt_c opts), CInt (ucast v)] (lib h))\<rparr>)"
    by (simp add: narrow_call [OF assms] cset_apply)
  show "sint (ucast v :: 32 word) = sint v \<longleftrightarrow> - (2 ^ 31) \<le> sint v \<and> sint v < 2 ^ 31" by (rule sint_ucast32_iff)
  have "ucast (ucast (ucast v :: 32 word) :: goint) = (ucast v :: 32 word)" by transfer simp
  then show "setter (ucast (ucast v :: 32 word)) h = setter v h" by (simp add: narrow_call [OF assms])
qed

theorem settings_narrowed_witness:
  "let F = refObjects; opts = NewNativeOptions 1;
       h = \<lparr>mem = (\<lambda>_. None), brk = 1, lib = \<lparr>objs = [1], ownedBy = (\<lambda>_. []), freedDead = False\<rparr>\<rparr>
   in \<exists>n :: 32 word. SetMaxOpenFiles F opts (2 ^ 32 + 100) h
          = (Ok (), h\<lparr>lib := snd (F ''rocksdb_options_set_max_open_files'' [CPtr (opt_c opts), CInt n] (lib h))\<rparr>)
        \<and> sint n \<noteq> sint (2 ^ 32 + 100 :: goint)"
proof -
  let ?h = "\<lparr>mem = (\<lambda>_. None), brk = 1, lib = \<lparr>objs = [1], ownedBy = (\<lambda>_. []), freedDead = False\<rparr>\<rparr>"
  have "(''rocksdb_options_set_max_open_files'', SetMaxOpenFiles refObjects (NewNativeOptions 1))
      \<in> set (narrowSettings refObjects (NewNativeOptions 1))"
    by (simp add: narrowSettings_def)
  from settings_narrowed [OF this, of "2 ^ 32 + 100" ?h] show ?thesis unfolding Let_def by auto
qed

text \<open>
  C39. \<^verbatim>\<open>Destroy\<close> releases what the setters created, but a prefix extractor twice. Over the whole life of
  an options object with a comparator, a compaction filter and perhaps a prefix extractor, for every
  library with the stated ownership, all objects that were created are released and no others; a
  released object is released again exactly when there was a prefix extractor.
\<close>

theorem options_release_exact:
  assumes "options_library F alive owns faulty"
    and "optionsLife F comperators compactionFilters sliceTransforms cmp cf pre h = (x, h')"
  shows "alive (lib h') = alive (lib h) \<and> (faulty (lib h') \<longleftrightarrow> faulty (lib h) \<or> pre \<noteq> None)"
  by (rule options_library.optionsLife_effect [OF assms])

theorem options_release_exact_witness:
  "let h = \<lparr>mem = (\<lambda>_. None), brk = 1, lib = \<lparr>objs = [], ownedBy = (\<lambda>_. []), freedDead = False\<rparr>\<rparr>;
       h' = snd (optionsLife refObjects NewCOWList NewCOWList NewCOWList \<lparr>Compare = (\<lambda>a b. 0), ComparatorName = ''c''\<rparr>
         nativeCompactionFilter (Some nativeSliceTransform) h)
   in objs (lib h') = [] \<and> freedDead (lib h')"
  using options_release_exact [OF refObjects.options_library_axioms prod.collapse [symmetric],
      of NewCOWList NewCOWList NewCOWList "\<lparr>Compare = (\<lambda>a b. 0), ComparatorName = ''c''\<rparr>" nativeCompactionFilter
        "Some nativeSliceTransform" "\<lparr>mem = (\<lambda>_. None), brk = 1, lib = \<lparr>objs = [], ownedBy = (\<lambda>_. []), freedDead = False\<rparr>\<rparr>"]
  by (simp add: Let_def)

end
