(* ===== verification/Binding_Rest.thy ===== *)
theory Binding_Rest
  imports Db_Handles C_Objects
begin

text \<open>
  The parts of the binding beside the operations: the batch operations on column families
  (\<^verbatim>\<open>write_batch.go\<close>), iterators over one (\<^verbatim>\<open>db.go\<close>), handles of column families (\<^verbatim>\<open>cf_handle.go\<close>) and the
  accessors that give the pointer away. A C function that is called is an argument.
\<close>

section \<open>Batches\<close>

definition batchPutCF :: "('b \<Rightarrow> nat \<Rightarrow> bytes option \<Rightarrow> nat \<Rightarrow> bytes option \<Rightarrow> nat \<Rightarrow> 'b) \<Rightarrow> 'b WriteBatch
    \<Rightarrow> ColumnFamilyHandle \<Rightarrow> bytes \<Rightarrow> bytes \<Rightarrow> 'b WriteBatch" where
  "batchPutCF rocksdb_writebatch_put_cf wb cf key value =
     (let cKey = byteToChar key; cValue = byteToChar value
      in onBatch (\<lambda>c. rocksdb_writebatch_put_cf c (cf_c cf) cKey (length key) cValue (length value)) wb)"

definition batchMergeCF :: "('b \<Rightarrow> nat \<Rightarrow> bytes option \<Rightarrow> nat \<Rightarrow> bytes option \<Rightarrow> nat \<Rightarrow> 'b) \<Rightarrow> 'b WriteBatch
    \<Rightarrow> ColumnFamilyHandle \<Rightarrow> bytes \<Rightarrow> bytes \<Rightarrow> 'b WriteBatch" where
  "batchMergeCF rocksdb_writebatch_merge_cf wb cf key value =
     (let cKey = byteToChar key; cValue = byteToChar value
      in onBatch (\<lambda>c. rocksdb_writebatch_merge_cf c (cf_c cf) cKey (length key) cValue (length value)) wb)"

definition batchDeleteCF :: "('b \<Rightarrow> nat \<Rightarrow> bytes option \<Rightarrow> nat \<Rightarrow> 'b) \<Rightarrow> 'b WriteBatch
    \<Rightarrow> ColumnFamilyHandle \<Rightarrow> bytes \<Rightarrow> 'b WriteBatch" where
  "batchDeleteCF rocksdb_writebatch_delete_cf wb cf key =
     (let cKey = byteToChar key
      in onBatch (\<lambda>c. rocksdb_writebatch_delete_cf c (cf_c cf) cKey (length key)) wb)"

section \<open>Iterators\<close>

text \<open>\<^verbatim>\<open>NewNativeIterator\<close> wraps a pointer.\<close>

definition NewNativeIterator :: "'i \<Rightarrow> 'i Iterator" where
  "NewNativeIterator c = \<lparr>Iterator_c = Some c\<rparr>"

definition NewIteratorCF :: "(nat \<Rightarrow> 'n c_readoptions option \<Rightarrow> nat \<Rightarrow> 'i) \<Rightarrow> DB \<Rightarrow> 'n ReadOptions \<Rightarrow> ColumnFamilyHandle \<Rightarrow> 'i Iterator" where
  "NewIteratorCF rocksdb_create_iterator_cf db opts cf =
     NewNativeIterator (rocksdb_create_iterator_cf (DB_c db) (ReadOptions_c opts) (cf_c cf))"

section \<open>Handles and accessors\<close>

definition UnsafeGetDB :: "DB \<Rightarrow> nat" where
  "UnsafeGetDB db = DB_c db"

definition dbName :: "DB \<Rightarrow> string" where
  "dbName db = DB_name db"

definition UnsafeGetCFHandler :: "ColumnFamilyHandle \<Rightarrow> nat" where
  "UnsafeGetCFHandler h = cf_c h"

definition cfDestroy :: "(nat \<Rightarrow> 'd \<Rightarrow> unit \<times> 'd) \<Rightarrow> ColumnFamilyHandle \<Rightarrow> ('d, unit) cop" where
  "cfDestroy rocksdb_column_family_handle_destroy h = libCallC (rocksdb_column_family_handle_destroy (cf_c h))"

definition UnsafeGetReadOptions :: "'n ReadOptions \<Rightarrow> 'n c_readoptions option" where
  "UnsafeGetReadOptions opts = ReadOptions_c opts"

definition UnsafeGetBackupEngine :: "BackupEngine \<Rightarrow> nat option" where
  "UnsafeGetBackupEngine b = BackupEngine_c b"

section \<open>Constants of the options\<close>

text \<open>
  The numbers that the source writes itself; the other enumerations (compression types, compaction
  and stop styles) take their numbers from the header of the library.
\<close>

definition NoneCompactionAccessPattern :: goint where "NoneCompactionAccessPattern = 0"
definition NormalCompactionAccessPattern :: goint where "NormalCompactionAccessPattern = 1"
definition SequentialCompactionAccessPattern :: goint where "SequentialCompactionAccessPattern = 2"
definition WillneedCompactionAccessPattern :: goint where "WillneedCompactionAccessPattern = 3"
definition DebugInfoLogLevel :: goint where "DebugInfoLogLevel = 0"
definition InfoInfoLogLevel :: goint where "InfoInfoLogLevel = 1"
definition WarnInfoLogLevel :: goint where "WarnInfoLogLevel = 2"
definition ErrorInfoLogLevel :: goint where "ErrorInfoLogLevel = 3"
definition FatalInfoLogLevel :: goint where "FatalInfoLogLevel = 4"
definition KBinarySearchIndexType :: goint where "KBinarySearchIndexType = 0"
definition KHashSearchIndexType :: goint where "KHashSearchIndexType = 1"
definition KTwoLevelIndexSearchIndexType :: goint where "KTwoLevelIndexSearchIndexType = 2"
definition ReadAllTier :: nat where "ReadAllTier = 0"
definition BlockCacheTier :: nat where "BlockCacheTier = 1"

section \<open>What they do\<close>

text \<open>
  For a library whose batches are lists of operations on column families, the three operations add
  one of them at the end with exactly the key and the value, also empty ones.
\<close>

datatype cfop = CFPut nat bytes bytes | CFMerge nat bytes bytes | CFDelete nat bytes

lemma batch_cf_appends:
  assumes "\<And>b cf k n v m. put b cf k n v m = b @ [CFPut cf (charToByte k n) (charToByte v m)]"
    and "\<And>b cf k n v m. mrg b cf k n v m = b @ [CFMerge cf (charToByte k n) (charToByte v m)]"
    and "\<And>b cf k n. del b cf k n = b @ [CFDelete cf (charToByte k n)]"
    and "WriteBatch_c wb = Some b"
  shows "WriteBatch_c (batchPutCF put wb cf key value) = Some (b @ [CFPut (cf_c cf) key value])"
    "WriteBatch_c (batchMergeCF mrg wb cf key value) = Some (b @ [CFMerge (cf_c cf) key value])"
    "WriteBatch_c (batchDeleteCF del wb cf key) = Some (b @ [CFDelete (cf_c cf) key])"
  using assms by (auto simp: batchPutCF_def batchMergeCF_def batchDeleteCF_def Let_def onBatch_def byteToChar_def charToByte_def)

end
