(* ===== verification/Spec2Isabelle.thy ===== *)
theory Spec2Isabelle
  imports Cron Write_Batch Messages Data_Dir Commander_Update Commander_Snapshot Commander_Recovery Commander_Life
    First_Start Replicated_Log
    Concurrent_Progress Slice_Headers
    Scheduler_Ticks Console Startup Db_Calls Db_MultiGet Db_Handles Callbacks Options_Setters Binding_Rest
begin

text \<open>
  \<^bold>\<open>Verification of dcrontab, a distributed crontab.\<close>

  A cluster of nodes keeps one crontab in a replicated store. Each node runs a raft library
  (a third-party package) over an on-disk state machine, \<^verbatim>\<open>Commander\<close> (\<^verbatim>\<open>src/dcrontab/commander.go\<close>), which
  stores its pairs in RocksDB through the vendored binding \<^verbatim>\<open>src/dcrontab/gorocksdb\<close>. The process
  (\<^verbatim>\<open>src/dcrontab/main.go\<close>) reads its configuration, finds out which node it is, connects to a NATS broker
  (\<^verbatim>\<open>src/dcrontab/nats.go\<close>), starts raft and then runs three workers: the leader worker, which every
  minute scans the store for jobs and executes those that are due; the console worker, which
  reads lines; and the raft worker, which turns lines into proposals and queries.

  \<^bold>\<open>How programs are modelled.\<close> \<^verbatim>\<open>Prelude\<close>: a fallible and stateful function is a function from the state to
  an outcome and the state; the outcome is a value, a Go error, a panic, a crash of the process or
  divergence. \<open>andThen\<close>, \<open>onErr\<close>, \<open>orPanic\<close> and \<open>withDefer\<close> are the sequencing, error checks and deferred calls of Go. Loops are
  recursive functions where a measure exists and \<^verbatim>\<open>partial_function (option)\<close> where they may run forever;
  that they return is then a theorem. \<^verbatim>\<open>Go_Strings\<close>, \<^verbatim>\<open>Go_Utf8\<close>, \<^verbatim>\<open>Go_Time\<close>, \<^verbatim>\<open>Go_Json\<close> and \<^verbatim>\<open>Go_Md5\<close> model what the
  source uses of Go's library: strings, paths and numbers, UTF-8, the calendar and truncation of times, the
  JSON encoder and decoder, and MD5. Integers of the source that can wrap are 64 bit words or integers with
  the wrap-around written out.

  \<^bold>\<open>Parts of the program and their theories.\<close>

  \<^item> \<^verbatim>\<open>Messages\<close>: \<^verbatim>\<open>Command\<close> (main.go) and \<^verbatim>\<open>Action\<close> (commander.go) with their JSON; that encoding and decoding
    are inverse for strings of valid UTF-8.
  \<^item> \<^verbatim>\<open>Cron\<close>: \<^verbatim>\<open>checkCron\<close> of main.go. It returns on every input and is equivalent to a declarative reading of
    the five fields; steps and lists mean what crontabs mean by them.
  \<^item> \<^verbatim>\<open>File_System\<close>, \<^verbatim>\<open>Data_Dir\<close>: a file system in which every call can fail or be the one in which the
    process is killed, with a part of its work done; what a killed process has handed to the operating
    system stays (the loss of unsynced data in a power failure is not modelled); the functions of commander.go that keep the
    name of the current database in a checksummed file. Switching is atomic, cleaning up keeps
    the current database, names read back.
  \<^item> \<^verbatim>\<open>Gorocksdb\<close>: slices, options, batches, iterators and the database handle (slice.go, util.go,
    options.go, options_read.go, options_write.go, write_batch.go, iterator.go, snapshot.go, db.go) over the C library, which is the
    record \<open>rocksdb_c\<close> of functions. The locale \<open>rocks\<close> states what the RocksDB documentation promises of
    them; it is interpreted there on a reference library that never fails, and in \<^verbatim>\<open>Commander_Update\<close> on one whose
    iterators report errors.
  \<^item> \<^verbatim>\<open>Write_Batch\<close>: the iterator over the encoded records of a batch, and that it inverts the encoding.
  \<^item> \<^verbatim>\<open>Commander\<close>: every method of the state machine. \<^verbatim>\<open>Commander_Update\<close>: updates refine an abstract machine with a map and an
    applied index, scans and lookups are exact, replicas that apply the same entries agree.
    \<^verbatim>\<open>Commander_Snapshot\<close>: a saved snapshot is the contents at the time it was prepared, also when updates
    go on. \<^verbatim>\<open>Commander_Recovery\<close>: opening finds the current database; installing a snapshot replaces
    all or nothing, wherever it fails or dies. \<^verbatim>\<open>Commander_Life\<close>: any sequence of starts, updates,
    installations, queries, closes and kills refines the same sequence on a map. \<^verbatim>\<open>First_Start\<close>: the same
    from an empty directory on, where a first start may leave a name without a database.
  \<^item> \<^verbatim>\<open>Replicated_Log\<close>: any number of replicas and what the raft library keeps of them, the entries fed, the
    snapshots prepared, saved and sent. Through all failures and restarts every replica holds a
    prefix of the log and never a shorter one later; replicas at the same index agree.
  \<^item> \<^verbatim>\<open>Commander_Concurrent\<close>: lookups beside the goroutine that updates, installs and closes, as a step relation over
    the pointer \<^verbatim>\<open>d.db\<close>, the flags and the read-write mutexes; the steps of one goroutine alone are the
    sequential operation. \<^verbatim>\<open>Concurrent_Invariant\<close>: the invariant of all interleavings. \<^verbatim>\<open>Concurrent_Lookups\<close>: a lookup
    for a key is linearizable and never reads a closed database; a lookup can panic in a close.
    \<^verbatim>\<open>Concurrent_Saves\<close>: savings of snapshots and hashes beside all of these, cut into steps down to the rounds of
    their loops, and the invariant. \<^verbatim>\<open>Concurrent_Snapshots\<close>: a saved snapshot is the contents at one time, a saver
    with its iterator never uses a closed database. \<^verbatim>\<open>Concurrent_Progress\<close>: every operation that has begun can
    always be brought to its end.
  \<^item> \<^verbatim>\<open>Cluster\<close>: the locale \<open>cluster\<close> is what the workers rely on of the replicated store, linearizable
    reads and proposals; it is interpreted on a cluster of one \<^verbatim>\<open>Commander\<close>.
  \<^item> \<^verbatim>\<open>Node\<close>, \<^verbatim>\<open>Nats\<close>, \<^verbatim>\<open>Startup\<close>: configuration, own addresses and identity of a node, the broker connection,
    and the start of the process up to the running raft node. A node that starts is one of
    the configured nodes and uses directories of its own.
  \<^item> \<^verbatim>\<open>Scheduler\<close>, \<^verbatim>\<open>Scheduler_Ticks\<close>: the leader worker over an explicit clock, ticker, store and trace of
    effects. It installs the configured jobs, runs exactly the due ones, in key order, once in
    every minute, and gets in step with the clock. The locale \<open>worker\<close> extends \<open>cluster\<close> by the clock.
  \<^item> \<^verbatim>\<open>Console\<close>: parsing of lines, and the console and raft workers as a step relation over the channel
    between them; all reachable states keep the order of lines, no run is infinite or stuck.
  \<^item> \<^verbatim>\<open>Cgo\<close>, \<^verbatim>\<open>Cgo_Calls\<close>: the C heap shared with the library, the idioms of the binding on it, and the contracts
    \<open>calls\<close>, \<open>yields\<close> and \<open>fetches\<close> of an operation: one call, its result or error passed on, and exactly the blocks
    that are handed over left. \<^verbatim>\<open>Db_Calls\<close>, \<^verbatim>\<open>Db_MultiGet\<close>, \<^verbatim>\<open>Db_Handles\<close>: the other operations of db.go, checkpoint.go, backup.go,
    sst_file_writer.go, transactiondb.go and transaction.go with their options keep these contracts. Each takes the C function
    that it calls as an argument.
  \<^item> \<^verbatim>\<open>Callbacks\<close>: the copy-on-write registry of cow.go under concurrent appends, merge operators and comparators.
    \<^verbatim>\<open>Callbacks_Filters\<close>: compaction filters, filter policies and slice transforms; a filter never hides a key.
  \<^item> \<^verbatim>\<open>C_Objects\<close>: environments, caches, paths, rate limiters, compaction, compression and table options, over a
    library of C functions called by name. \<^verbatim>\<open>Options_Setters\<close>: the options object with all its setters
    and its release; the locale \<open>options_library\<close> states which object owns which, and is interpreted
    on a library whose state is the list of its objects. \<^verbatim>\<open>Binding_Rest\<close>: batches on column families, accessors and
    the constants that the source writes as numbers. \<^verbatim>\<open>Slice_Headers\<close>: the headers of Go slices that the conversions of
    util.go and the methods of array.go read and write.

  \<^bold>\<open>Bounds.\<close> No fuel is used. The log of the replicas has growing indexes from 1 on, fewer than \<open>2\<^sup>6\<^sup>3\<close>
  entries and no key with its value longer than a terabyte. Lists of the configuration are assumed shorter than \<open>2\<^sup>6\<^sup>4\<close> where the code converts positions to 64
  bits; a minute theorem assumes that the actions of a tick end within the minute; the second tick of a fresh
  store runs in configuration order for at most ten jobs, since keys are ordered as strings. What is said of
  the contents of scans, snapshots and hashes, and with them of the log of the replicas, holds for a library
  whose iterators report no error (the locale \<open>rocks_reliable\<close>); the code never asks them for one, and
  \<^verbatim>\<open>Commander_Update\<close> shows that a scan with an error is a shorter answer without an error. That an
  operation returns is said for a system and a library without failures; all else about the state
  machine holds when any call of the library or the system fails (the locale \<open>rocks\<close>).

  \<^bold>\<open>Not modelled.\<close> The raft library, RocksDB itself and the NATS client are parameters. The methods of \<^verbatim>\<open>Commander\<close> that
  write are modelled one at a time, which is how the raft library calls them; of those that may run
  beside them lookups, savings and hashes are cut into steps. The enumerations
  whose numbers stand in the header of the C library (compression types, compaction and stop styles)
  are left out. Logging and signals, the package documentation and the linker flags have no counterpart.
\<close>

end
